(* ===== verification/Csd_Prelude.thy ===== *)
theory Csd_Prelude
  imports Main "HOL-Library.Word" "HOL-Library.List_Lexorder" "HOL-Library.Char_ord"
    "HOL-Library.Product_Lexorder" "HOL-Library.Multiset"
begin

text \<open>
  Shared vocabulary of the development: the machine integers of the program and the Rust
  standard-library operations on them, the ordered map that models \<open>std::collections::BTreeMap\<close>
  (as a strictly sorted association list, so that iteration order is the key order), the
  interface of that map as a locale with its clients' lemmas, ASCII string helpers, and generic
  facts on lists and words that the component theories share.
\<close>

section \<open>Automation\<close>

named_theorems csd_inv "invariants kept by the operations of the components"
named_theorems csd_bt "facts about ordered maps"

section \<open>Machine integers\<close>

text \<open>
  Arithmetic is that of the release build of the workspace (no overflow checks in the Cargo
  profile): \<open>+\<close>, \<open>-\<close> and \<open>*\<close> wrap, which is the arithmetic of \<open>'a word\<close>. Signed 128-bit values
  are words read through \<open>sint\<close>; an \<open>as\<close> cast between \<open>u128\<close> and \<open>i128\<close> keeps the bits.
\<close>

type_synonym u8 = "8 word"
type_synonym u16 = "16 word"
type_synonym u32 = "32 word"
type_synonym u64 = "64 word"
type_synonym u128 = "128 word"
type_synonym i128 = "128 word"
type_synonym bytes = "u8 list"

text \<open>\<open>saturating_sub\<close> and \<open>saturating_add\<close>, \<open>checked_mul\<close>.\<close>

definition sat_sub :: "'a::len word \<Rightarrow> 'a word \<Rightarrow> 'a word" where
  "sat_sub a b = (if b \<le> a then a - b else 0)"

definition sat_add :: "'a::len word \<Rightarrow> 'a word \<Rightarrow> 'a word" where
  "sat_add a b = (if a \<le> a + b then a + b else - 1)"

definition checked_mul :: "'a::len word \<Rightarrow> 'a word \<Rightarrow> 'a word option" where
  "checked_mul a b = (if unat a * unat b < 2 ^ LENGTH('a) then Some (a * b) else None)"

lemma unat_sat_sub: "unat (sat_sub a b) = unat a - unat b"
proof (cases "b \<le> a")
  case True
  then show ?thesis by (simp add: sat_sub_def unat_sub)
next
  case False
  then have "unat a \<le> unat b" by (simp add: word_le_nat_alt)
  with False show ?thesis by (simp add: sat_sub_def)
qed

lemma sat_sub_le [simp]: "sat_sub a b \<le> a"
  by (simp add: word_le_nat_alt unat_sat_sub)

lemma unat_plus_eq: "unat a + unat b < 2 ^ LENGTH('a) \<Longrightarrow> unat (a + b) = unat a + unat b"
  for a b :: "'a::len word"
  by (simp add: unat_word_ariths)

lemma unat_mult_eq: "unat a * unat b < 2 ^ LENGTH('a) \<Longrightarrow> unat (a * b) = unat a * unat b"
  for a b :: "'a::len word"
  by (simp add: unat_word_ariths)

lemma sat_sub_add_cancel: "unat a + unat b < 2 ^ LENGTH('a) \<Longrightarrow> sat_sub (a + b) b = a"
  for a b :: "'a::len word"
  by (simp add: word_unat_eq_iff unat_sat_sub unat_plus_eq)

text \<open>A sum of words whose mathematical sum fits does not wrap.\<close>

lemma unat_sum_list:
  fixes ws :: "'a::len word list"
  assumes "sum_list (map unat ws) < 2 ^ LENGTH('a)"
  shows "unat (sum_list ws) = sum_list (map unat ws)"
  using assms
proof (induction ws)
  case Nil
  then show ?case by simp
next
  case (Cons w ws)
  then have "unat (sum_list ws) = sum_list (map unat ws)" by simp
  with Cons.prems show ?case by (simp add: unat_plus_eq)
qed

text \<open>Little- and big-endian encodings of a word (\<open>to_le_bytes\<close>, \<open>from_le_bytes\<close>).\<close>

definition le_bytes :: "nat \<Rightarrow> 'a::len word \<Rightarrow> bytes" where
  "le_bytes n w = map (\<lambda>i. ucast (drop_bit (8 * i) w)) [0..<n]"

fun of_le_bytes :: "bytes \<Rightarrow> 'a::len word" where
  "of_le_bytes [] = 0"
| "of_le_bytes (b # bs) = ucast b + push_bit 8 (of_le_bytes bs)"

lemma length_le_bytes [simp]: "length (le_bytes n w) = n"
  by (simp add: le_bytes_def)

text \<open>The number a byte string denotes, most significant byte first.\<close>

definition be_value :: "bytes \<Rightarrow> nat" where
  "be_value bs = foldl (\<lambda>acc b. acc * 256 + unat b) 0 bs"

lemma be_value_acc:
  "foldl (\<lambda>acc b. acc * 256 + unat (b :: u8)) a bs = a * 256 ^ length bs + be_value bs"
proof (induction bs arbitrary: a)
  case Nil
  then show ?case by (simp add: be_value_def)
next
  case (Cons b bs)
  have "foldl (\<lambda>acc b. acc * 256 + unat b) a (b # bs) =
      (a * 256 + unat b) * 256 ^ length bs + be_value bs"
    by (simp add: Cons.IH)
  moreover have "be_value (b # bs) = unat b * 256 ^ length bs + be_value bs"
    by (simp add: be_value_def Cons.IH [of "unat b", folded be_value_def])
  ultimately show ?case by (simp add: algebra_simps)
qed

lemma be_value_Nil [simp]: "be_value [] = 0"
  by (simp add: be_value_def)

lemma be_value_Cons: "be_value (b # bs) = unat b * 256 ^ length bs + be_value bs"
  using be_value_acc [of "unat b" bs] by (simp add: be_value_def)

lemma be_value_bound: "be_value bs < 256 ^ length bs"
proof (induction bs)
  case Nil
  then show ?case by simp
next
  case (Cons b bs)
  have b: "unat b < 256" using unsigned_less [of b, where 'a = nat] by simp
  have "unat b * 256 ^ length bs + be_value bs < (unat b + 1) * 256 ^ length bs"
    using Cons.IH by simp
  also have "\<dots> \<le> 256 * 256 ^ length bs"
    using b by (intro mult_right_mono) auto
  finally show ?case by (simp add: be_value_Cons)
qed

text \<open>The derived order of equally long byte arrays is the order of the numbers they denote.\<close>

lemma be_value_le_iff:
  "length xs = length ys \<Longrightarrow> xs \<le> ys \<longleftrightarrow> be_value xs \<le> be_value ys"
proof (induction xs arbitrary: ys)
  case Nil
  then show ?case by simp
next
  case (Cons x xs)
  then obtain y zs where ys: "ys = y # zs" and len: "length xs = length zs"
    by (cases ys) auto
  have bx: "be_value xs < 256 ^ length zs" and by': "be_value zs < 256 ^ length zs"
    using be_value_bound [of xs] be_value_bound [of zs] len by simp_all
  consider (lt) "x < y" | (eq) "x = y" | (gt) "y < x" by fastforce
  then show ?case
  proof cases
    case lt
    then have "unat x + 1 \<le> unat y" by (simp add: word_less_nat_alt)
    then have "(unat x + 1) * 256 ^ length zs \<le> unat y * 256 ^ length zs"
      by (rule mult_right_mono) simp
    with bx have "be_value (x # xs) \<le> be_value ys"
      by (simp add: be_value_Cons len ys)
    with lt show ?thesis by (simp add: ys)
  next
    case eq
    with Cons.IH [OF len] show ?thesis by (simp add: ys be_value_Cons len)
  next
    case gt
    then have "unat y + 1 \<le> unat x" by (simp add: word_less_nat_alt)
    then have "(unat y + 1) * 256 ^ length zs \<le> unat x * 256 ^ length zs"
      by (rule mult_right_mono) simp
    with by' have "be_value ys < be_value (x # xs)"
      by (simp add: be_value_Cons len ys)
    with gt show ?thesis by (auto simp: ys)
  qed
qed

section \<open>Ordered maps\<close>

text \<open>
  \<open>BTreeMap<K, V>\<close> as an association list in strictly ascending key order; \<open>bt_get\<close>,
  \<open>bt_insert\<close>, \<open>bt_remove\<close> and \<open>bt_entry\<close> (the entry API: modify the value present, or insert
  one) are the operations the program uses.
\<close>

type_synonym ('k, 'v) btree = "('k \<times> 'v) list"

definition bt_get :: "('k, 'v) btree \<Rightarrow> 'k \<Rightarrow> 'v option" where
  "bt_get m k = map_of m k"

fun bt_insert :: "'k::linorder \<Rightarrow> 'v \<Rightarrow> ('k, 'v) btree \<Rightarrow> ('k, 'v) btree" where
  "bt_insert k v [] = [(k, v)]"
| "bt_insert k v ((k', v') # m) =
     (if k < k' then (k, v) # (k', v') # m
      else if k = k' then (k, v) # m
      else (k', v') # bt_insert k v m)"

definition bt_remove :: "'k \<Rightarrow> ('k, 'v) btree \<Rightarrow> ('k, 'v) btree" where
  "bt_remove k m = filter (\<lambda>(k', v). k' \<noteq> k) m"

definition bt_entry :: "'k::linorder \<Rightarrow> 'v \<Rightarrow> ('v \<Rightarrow> 'v) \<Rightarrow> ('k, 'v) btree \<Rightarrow> ('k, 'v) btree" where
  "bt_entry k d f m = bt_insert k (case bt_get m k of None \<Rightarrow> d | Some v \<Rightarrow> f v) m"

definition bt_keys :: "('k, 'v) btree \<Rightarrow> 'k list" where
  "bt_keys m = map fst m"

definition bt_values :: "('k, 'v) btree \<Rightarrow> 'v list" where
  "bt_values m = map snd m"

definition bt_wf :: "('k::linorder, 'v) btree \<Rightarrow> bool" where
  "bt_wf m \<longleftrightarrow> sorted_wrt (<) (map fst m)"

text \<open>The contract of an ordered map, on which its clients' lemmas rest.\<close>

locale ordered_map =
  fixes empty :: 'm
    and get :: "'m \<Rightarrow> 'k::linorder \<Rightarrow> 'v option"
    and insert :: "'k \<Rightarrow> 'v \<Rightarrow> 'm \<Rightarrow> 'm"
    and remove :: "'k \<Rightarrow> 'm \<Rightarrow> 'm"
    and items :: "'m \<Rightarrow> ('k \<times> 'v) list"
    and wf :: "'m \<Rightarrow> bool"
  assumes wf_empty: "wf empty"
    and wf_insert: "wf m \<Longrightarrow> wf (insert k v m)"
    and wf_remove: "wf m \<Longrightarrow> wf (remove k m)"
    and get_empty: "get empty k = None"
    and get_insert: "wf m \<Longrightarrow> get (insert k v m) k' = (if k' = k then Some v else get m k')"
    and get_remove: "wf m \<Longrightarrow> get (remove k m) k' = (if k' = k then None else get m k')"
    and items_sorted: "wf m \<Longrightarrow> sorted_wrt (<) (map fst (items m))"
    and get_items: "wf m \<Longrightarrow> get m k = map_of (items m) k"
begin

text \<open>\<open>for (k, x) in xs { *m.entry(k).or_default() += x }\<close>: the accumulation loop of the clients.\<close>

definition accumulate :: "('v \<Rightarrow> 'a \<Rightarrow> 'v) \<Rightarrow> 'v \<Rightarrow> ('k \<times> 'a) list \<Rightarrow> 'm \<Rightarrow> 'm" where
  "accumulate f z xs m =
     foldl (\<lambda>m (k, x). insert k (f (case get m k of None \<Rightarrow> z | Some v \<Rightarrow> v) x) m) m xs"

lemma accumulate_Nil [simp]: "accumulate f z [] m = m"
  by (simp add: accumulate_def)

lemma accumulate_Cons [simp]:
  "accumulate f z ((k, x) # xs) m =
     accumulate f z xs (insert k (f (case get m k of None \<Rightarrow> z | Some v \<Rightarrow> v) x) m)"
  by (simp add: accumulate_def)

lemma wf_accumulate: "wf m \<Longrightarrow> wf (accumulate f z xs m)"
  by (induction xs arbitrary: m) (auto simp: wf_insert)

text \<open>The value of a key is the fold of its own contributions in order, whatever the others are.\<close>

lemma get_accumulate:
  "wf m \<Longrightarrow> get (accumulate f z xs m) k =
     (if k \<in> fst ` set xs
      then Some (foldl f (case get m k of None \<Rightarrow> z | Some v \<Rightarrow> v)
             (map snd (filter (\<lambda>(k', x). k' = k) xs)))
      else get m k)"
proof (induction xs arbitrary: m)
  case Nil
  then show ?case by simp
next
  case (Cons kx xs)
  obtain k1 x where kx: "kx = (k1, x)" by (cases kx)
  let ?m = "insert k1 (f (case get m k1 of None \<Rightarrow> z | Some v \<Rightarrow> v) x) m"
  have wf: "wf ?m" using Cons.prems by (rule wf_insert)
  have none: "filter (\<lambda>(k', x). k' = k) xs = []" if "k \<notin> fst ` set xs"
    using that by (force simp: filter_empty_conv)
  show ?case
    using Cons.IH [OF wf] none by (auto simp: kx get_insert Cons.prems)
qed

end

lemma bt_get_insert [csd_bt]:
  "bt_wf m \<Longrightarrow> bt_get (bt_insert k v m) k' = (if k' = k then Some v else bt_get m k')"
  by (induction k v m rule: bt_insert.induct) (auto simp: bt_get_def bt_wf_def)

lemma set_bt_insert_keys: "fst ` set (bt_insert k v m) = insert k (fst ` set m)"
  by (induction k v m rule: bt_insert.induct) auto

lemma bt_wf_Cons: "bt_wf (kv # m) \<longleftrightarrow> (\<forall>k \<in> fst ` set m. fst kv < k) \<and> bt_wf m"
  by (auto simp: bt_wf_def)

lemma bt_wf_insert [csd_bt, simp]: "bt_wf m \<Longrightarrow> bt_wf (bt_insert k v m)"
proof (induction k v m rule: bt_insert.induct)
  case (1 k v)
  then show ?case by (simp add: bt_wf_def)
next
  case (2 k v k' v' m)
  consider (lt) "k < k'" | (eq) "k = k'" | (gt) "k' < k" by (rule linorder_cases)
  then show ?case
  proof cases
    case lt
    then show ?thesis using "2.prems" by (auto simp: bt_wf_Cons intro: less_trans)
  next
    case eq
    then show ?thesis using "2.prems" by (simp add: bt_wf_Cons)
  next
    case gt
    then have "bt_wf (bt_insert k v m)"
      using 2 by (simp add: bt_wf_Cons)
    with gt show ?thesis using "2.prems"
      by (auto simp: bt_wf_Cons set_bt_insert_keys)
  qed
qed

lemma bt_wf_Nil [csd_bt, simp]: "bt_wf []"
  by (simp add: bt_wf_def)

lemma bt_wf_remove [csd_bt, simp]: "bt_wf m \<Longrightarrow> bt_wf (bt_remove k m)"
  by (simp add: bt_wf_def bt_remove_def sorted_wrt_map sorted_wrt_filter)

lemma bt_get_remove [csd_bt]: "bt_get (bt_remove k m) k' = (if k' = k then None else bt_get m k')"
  by (induction m) (auto simp: bt_get_def bt_remove_def)

lemma bt_get_Nil [csd_bt, simp]: "bt_get [] k = None"
  by (simp add: bt_get_def)

interpretation bt: ordered_map "[]" bt_get bt_insert bt_remove "\<lambda>m. m" bt_wf
  by unfold_locales (auto simp: csd_bt, simp_all add: bt_wf_def bt_get_def)

lemma bt_wf_distinct: "bt_wf m \<Longrightarrow> distinct (map fst m)"
  by (simp add: bt_wf_def strict_sorted_iff)

lemma bt_wf_entry [csd_bt, simp]: "bt_wf m \<Longrightarrow> bt_wf (bt_entry k d f m)"
  by (simp add: bt_entry_def)

lemma bt_get_entry [csd_bt]:
  "bt_wf m \<Longrightarrow> bt_get (bt_entry k d f m) k' =
     (if k' = k then Some (case bt_get m k of None \<Rightarrow> d | Some v \<Rightarrow> f v) else bt_get m k')"
  by (simp add: bt_entry_def bt_get_insert)

lemma bt_get_in_set: "bt_wf m \<Longrightarrow> bt_get m k = Some v \<longleftrightarrow> (k, v) \<in> set m"
  by (simp add: bt_get_def bt_wf_distinct)

text \<open>The total of a quantity over the values of a map, and what an insertion does to it.\<close>

definition bt_sum :: "('v \<Rightarrow> 'a::ab_group_add) \<Rightarrow> ('k, 'v) btree \<Rightarrow> 'a" where
  "bt_sum f m = sum_list (map (\<lambda>kv. f (snd kv)) m)"

lemma bt_sum_Nil [simp]: "bt_sum f [] = 0"
  by (simp add: bt_sum_def)

lemma bt_get_below: "bt_wf m \<Longrightarrow> \<forall>k' \<in> fst ` set m. k < k' \<Longrightarrow> bt_get m k = None"
  by (induction m) (auto simp: bt_get_def bt_wf_Cons)

lemma bt_sum_insert:
  "bt_wf m \<Longrightarrow> bt_sum f (bt_insert k v m) =
     bt_sum f m - (case bt_get m k of None \<Rightarrow> 0 | Some w \<Rightarrow> f w) + f v"
proof (induction m)
  case Nil
  then show ?case by (simp add: bt_sum_def)
next
  case (Cons kv m)
  obtain k' v' where kv: "kv = (k', v')" by (cases kv)
  have wf: "bt_wf m" using Cons.prems by (simp add: bt_wf_Cons)
  have none: "bt_get m k = None" if "k < k'"
    using that Cons.prems by (intro bt_get_below) (auto simp: kv bt_wf_Cons)
  show ?case using Cons.IH [OF wf] none
    by (auto simp: kv bt_sum_def bt_get_def split: option.splits)
qed

text \<open>Two well-formed maps with the same lookups are the same list.\<close>

lemma bt_ext: "bt_wf m \<Longrightarrow> bt_wf m' \<Longrightarrow> bt_get m = bt_get m' \<Longrightarrow> m = m'"
proof (induction m arbitrary: m')
  case Nil
  show ?case
  proof (cases m')
    case (Cons kv n)
    then have "bt_get m' (fst kv) = Some (snd kv)" by (cases kv) (simp add: bt_get_def)
    with Nil.prems(3) have False by (metis bt_get_Nil option.distinct(1))
    then show ?thesis ..
  qed simp
next
  case (Cons kv m)
  obtain k v where kv: "kv = (k, v)" by (cases kv)
  have gk: "bt_get m' k = Some v"
    using fun_cong [OF Cons.prems(3), of k] by (simp add: kv bt_get_def)
  then obtain k' v' n where m': "m' = (k', v') # n" by (cases m') auto
  have wfs: "bt_wf m" "bt_wf n" and low: "\<forall>x \<in> fst ` set m. k < x" "\<forall>x \<in> fst ` set n. k' < x"
    using Cons.prems by (auto simp: kv m' bt_wf_Cons)
  have "\<not> k < k'"
    using gk low(2) bt_get_below [of m' k] Cons.prems(2) by (fastforce simp: m')
  moreover have "\<not> k' < k"
  proof
    assume "k' < k"
    then have "bt_get (kv # m) k' = None"
      using low(1) Cons.prems(1) by (intro bt_get_below) (auto simp: kv)
    then show False using Cons.prems(3) by (simp add: m' bt_get_def)
  qed
  ultimately have k': "k' = k" by simp
  with gk have v': "v' = v" by (simp add: m' bt_get_def)
  have "bt_get m = bt_get n"
  proof
    fix x
    show "bt_get m x = bt_get n x"
    proof (cases "x = k")
      case True
      then show ?thesis using bt_get_below [OF wfs(1)] bt_get_below [OF wfs(2)] low k' by simp
    next
      case False
      then show ?thesis using fun_cong [OF Cons.prems(3), of x]
        by (simp add: kv m' k' bt_get_def)
    qed
  qed
  then have "m = n" by (rule Cons.IH [OF wfs])
  then show ?case by (simp add: kv m' k' v')
qed

section \<open>Sorting and lists\<close>

text \<open>\<open>slice::sort_by\<close> is stable; \<open>le a b\<close> says that the comparator does not answer Greater.\<close>

fun insort_by :: "('a \<Rightarrow> 'a \<Rightarrow> bool) \<Rightarrow> 'a \<Rightarrow> 'a list \<Rightarrow> 'a list" where
  "insort_by le x [] = [x]"
| "insort_by le x (y # ys) = (if le x y then x # y # ys else y # insort_by le x ys)"

definition sort_by :: "('a \<Rightarrow> 'a \<Rightarrow> bool) \<Rightarrow> 'a list \<Rightarrow> 'a list" where
  "sort_by le xs = foldr (insort_by le) xs []"

lemma mset_insort_by [simp]: "mset (insort_by le x xs) = add_mset x (mset xs)"
  by (induction xs) auto

lemma mset_sort_by [simp]: "mset (sort_by le xs) = mset xs"
  by (induction xs) (auto simp: sort_by_def)

lemma set_sort_by [simp]: "set (sort_by le xs) = set xs"
  using mset_sort_by [of le xs] by (metis set_mset_mset)

lemma set_insort_by [simp]: "set (insort_by le x xs) = insert x (set xs)"
  using mset_insort_by [of le x xs] by (metis set_mset_mset set_mset_add_mset_insert)

lemma sum_list_sort_by: "sum_list (map f (sort_by le xs)) = sum_list (map f xs)"
  for f :: "'a \<Rightarrow> 'b::comm_monoid_add"
proof -
  have "mset (map f (sort_by le xs)) = mset (map f xs)" by simp
  then show ?thesis using sum_mset_sum_list by metis
qed

lemma sorted_insort_by:
  assumes "transp le" and "\<And>x y. le x y \<or> le y x"
  shows "sorted_wrt le xs \<Longrightarrow> sorted_wrt le (insort_by le x xs)"
proof (induction xs)
  case Nil
  then show ?case by simp
next
  case (Cons y ys)
  show ?case
  proof (cases "le x y")
    case True
    with Cons.prems show ?thesis using transpD [OF assms(1) True] by auto
  next
    case False
    then have "le y x" using assms(2) by blast
    with False Cons show ?thesis by auto
  qed
qed

lemma sorted_sort_by:
  assumes "transp le" and "\<And>x y. le x y \<or> le y x"
  shows "sorted_wrt le (sort_by le xs)"
  unfolding sort_by_def by (induction xs) (auto intro: sorted_insort_by [OF assms])

lemma sum_list_map_add: "sum_list (map (\<lambda>x. f x + g x) xs) = sum_list (map f xs) + sum_list (map g xs)"
  for f g :: "'a \<Rightarrow> 'b::comm_monoid_add"
  by (induction xs) (auto simp: algebra_simps)

text \<open>Reading a 128-bit word as a signed number.\<close>

lemma sint_small:
  fixes w :: i128
  assumes "unat w < 2 ^ 127"
  shows "sint w = int (unat w)"
proof -
  have nn: "0 \<le> int (unat w)" "int (unat w) < 2 ^ 127"
    using assms of_nat_less_iff [of "unat w" "2 ^ 127", where 'a = int] by simp_all
  have "signed_take_bit 127 (int (unat w)) = int (unat w)"
    using nn by (intro signed_take_bit_int_eq_self) linarith+
  then show ?thesis by (simp add: sint_uint)
qed

lemma sint_neg_small:
  fixes w :: i128
  assumes "unat w < 2 ^ 127"
  shows "sint (- w) = - int (unat w)"
proof -
  have nn: "0 \<le> int (unat w)" "int (unat w) < 2 ^ 127"
    using assms of_nat_less_iff [of "unat w" "2 ^ 127", where 'a = int] by simp_all
  have "signed_take_bit 127 (- int (unat w)) = - int (unat w)"
    using nn by (intro signed_take_bit_int_eq_self) linarith+
  then show ?thesis by (simp add: sint_word_ariths sint_small [OF assms])
qed

section \<open>Strings\<close>

text \<open>
  A Rust \<open>str\<close> is its UTF-8 byte sequence; a HOL \<open>char\<close> is one such byte. \<open>digit_value\<close> is
  \<open>char::to_digit\<close>, \<open>parse_uint\<close> is \<open>from_str_radix\<close> on an unsigned type of \<open>bound\<close> values
  (\<open>str::parse\<close> is radix 10): an optional plus sign, at least one digit, no overflow.
\<close>

definition digit_value :: "nat \<Rightarrow> char \<Rightarrow> nat option" where
  "digit_value radix c =
     (let n = of_char c :: nat;
          d = (if 48 \<le> n \<and> n \<le> 57 then n - 48
               else if 97 \<le> n \<and> n \<le> 122 then n - 87
               else if 65 \<le> n \<and> n \<le> 90 then n - 55 else 99)
      in if d < radix then Some d else None)"

fun parse_digits :: "nat \<Rightarrow> nat \<Rightarrow> nat \<Rightarrow> string \<Rightarrow> nat option" where
  "parse_digits radix bound acc [] = Some acc"
| "parse_digits radix bound acc (c # cs) =
     (case digit_value radix c of
        None \<Rightarrow> None
      | Some d \<Rightarrow> if acc * radix + d < bound then parse_digits radix bound (acc * radix + d) cs
                  else None)"

definition parse_uint :: "nat \<Rightarrow> nat \<Rightarrow> string \<Rightarrow> nat option" where
  "parse_uint radix bound s =
     (if s = [] then None
      else if s = ''+'' \<or> s = ''-'' then None
      else if hd s = CHR ''+'' then parse_digits radix bound 0 (tl s)
      else parse_digits radix bound 0 s)"

lemma digit_value_less: "digit_value radix c = Some d \<Longrightarrow> d < radix"
  by (auto simp: digit_value_def Let_def split: if_splits)

lemma parse_digits_less: "acc < bound \<Longrightarrow> parse_digits radix bound acc s = Some n \<Longrightarrow> n < bound"
  by (induction radix bound acc s rule: parse_digits.induct) (auto split: option.splits if_splits)

lemma parse_uint_less: "0 < bound \<Longrightarrow> parse_uint radix bound s = Some n \<Longrightarrow> n < bound"
  by (auto simp: parse_uint_def split: if_splits intro: parse_digits_less)

lemma parse_digits_append:
  "parse_digits radix bound acc (s @ t) =
     Option.bind (parse_digits radix bound acc s) (\<lambda>acc'. parse_digits radix bound acc' t)"
  by (induction radix bound acc s rule: parse_digits.induct) (auto split: option.splits)

text \<open>ASCII case folding and classification.\<close>

definition is_ascii_digit :: "char \<Rightarrow> bool" where
  "is_ascii_digit c = (let n = of_char c :: nat in 48 \<le> n \<and> n \<le> 57)"

definition is_ascii_upper :: "char \<Rightarrow> bool" where
  "is_ascii_upper c = (let n = of_char c :: nat in 65 \<le> n \<and> n \<le> 90)"

definition is_ascii_lower :: "char \<Rightarrow> bool" where
  "is_ascii_lower c = (let n = of_char c :: nat in 97 \<le> n \<and> n \<le> 122)"

definition is_ascii_alnum :: "char \<Rightarrow> bool" where
  "is_ascii_alnum c = (is_ascii_digit c \<or> is_ascii_upper c \<or> is_ascii_lower c)"

definition is_ascii_hexdigit :: "char \<Rightarrow> bool" where
  "is_ascii_hexdigit c =
     (let n = of_char c :: nat in
        48 \<le> n \<and> n \<le> 57 \<or> 65 \<le> n \<and> n \<le> 70 \<or> 97 \<le> n \<and> n \<le> 102)"

definition ascii_lower :: "char \<Rightarrow> char" where
  "ascii_lower c = (if is_ascii_upper c then char_of ((of_char c :: nat) + 32) else c)"

definition to_ascii_lowercase :: "string \<Rightarrow> string" where
  "to_ascii_lowercase s = map ascii_lower s"

definition eq_ignore_ascii_case :: "string \<Rightarrow> string \<Rightarrow> bool" where
  "eq_ignore_ascii_case s t = (to_ascii_lowercase s = to_ascii_lowercase t)"

lemma of_char_ascii_lower:
  "(of_char (ascii_lower c) :: nat) = (if is_ascii_upper c then of_char c + 32 else of_char c)"
  by (simp add: ascii_lower_def is_ascii_upper_def Let_def)

lemma ascii_lower_idem [simp]: "ascii_lower (ascii_lower c) = ascii_lower c"
proof -
  have "\<not> is_ascii_upper (ascii_lower c)"
    unfolding is_ascii_upper_def Let_def of_char_ascii_lower
    by (auto simp: is_ascii_upper_def Let_def)
  then show ?thesis by (simp add: ascii_lower_def [of "ascii_lower c"])
qed

lemma to_ascii_lowercase_idem [simp]:
  "to_ascii_lowercase (to_ascii_lowercase s) = to_ascii_lowercase s"
  by (simp add: to_ascii_lowercase_def)

lemma to_ascii_lowercase_append [simp]:
  "to_ascii_lowercase (s @ t) = to_ascii_lowercase s @ to_ascii_lowercase t"
  by (simp add: to_ascii_lowercase_def)

lemma length_to_ascii_lowercase [simp]: "length (to_ascii_lowercase s) = length s"
  by (simp add: to_ascii_lowercase_def)

lemma digit_value_ascii_lower [simp]: "digit_value radix (ascii_lower c) = digit_value radix c"
  by (auto simp: digit_value_def Let_def of_char_ascii_lower is_ascii_upper_def)

lemma parse_digits_lowercase [simp]:
  "parse_digits radix bound acc (to_ascii_lowercase s) = parse_digits radix bound acc s"
  by (induction radix bound acc s rule: parse_digits.induct)
    (auto simp: to_ascii_lowercase_def split: option.splits)

text \<open>
  \<open>str::trim\<close> strips Unicode white space at both ends; the lengths of the UTF-8 encodings of the
  white-space characters that a byte sequence begins or (reversed) ends with.
\<close>

fun ws_prefix :: "nat list \<Rightarrow> nat" where
  "ws_prefix (a # b # c # _) =
     (if a \<in> {9, 10, 11, 12, 13, 32} then 1
      else if a = 194 \<and> b \<in> {133, 160} then 2
      else if a = 225 \<and> b = 154 \<and> c = 128 then 3
      else if a = 226 \<and> b = 128 \<and> (128 \<le> c \<and> c \<le> 138 \<or> c \<in> {168, 169, 175}) then 3
      else if a = 226 \<and> b = 129 \<and> c = 159 then 3
      else if a = 227 \<and> b = 128 \<and> c = 128 then 3
      else 0)"
| "ws_prefix [a, b] =
     (if a \<in> {9, 10, 11, 12, 13, 32} then 1 else if a = 194 \<and> b \<in> {133, 160} then 2 else 0)"
| "ws_prefix [a] = (if a \<in> {9, 10, 11, 12, 13, 32} then 1 else 0)"
| "ws_prefix [] = 0"

fun ws_suffix :: "nat list \<Rightarrow> nat" where
  "ws_suffix (c # b # a # xs) =
     (if c \<in> {9, 10, 11, 12, 13, 32} then 1
      else if ws_prefix [b, c] = 2 then 2
      else if ws_prefix [a, b, c] = 3 then 3 else 0)"
| "ws_suffix [c, b] =
     (if c \<in> {9, 10, 11, 12, 13, 32} then 1 else if ws_prefix [b, c] = 2 then 2 else 0)"
| "ws_suffix [c] = (if c \<in> {9, 10, 11, 12, 13, 32} then 1 else 0)"
| "ws_suffix [] = 0"

function strip_while :: "(nat list \<Rightarrow> nat) \<Rightarrow> string \<Rightarrow> string" where
  "strip_while len s =
     (if s = [] \<or> len (map of_char s) = 0 then s else strip_while len (drop (len (map of_char s)) s))"
  by pat_completeness auto
termination by (relation "measure (\<lambda>(len, s). length s)") auto

declare strip_while.simps [simp del]

definition trim :: "string \<Rightarrow> string" where
  "trim s = rev (strip_while ws_suffix (rev (strip_while ws_prefix s)))"

section \<open>Hexadecimal text\<close>

text \<open>
  The \<open>hex\<close> crate is not part of the repository; where a component calls it, its decoder is a
  parameter. \<open>hex_decoder\<close> states what the crate documents: two digits for every byte, most
  significant digit first, upper and lower case alike, and an error for anything else.
  \<open>hex_decode\<close> is a decoder with these laws, \<open>hex_encode\<close> an encoder (lower case).
\<close>

fun hex_decode :: "string \<Rightarrow> bytes option" where
  "hex_decode [] = Some []"
| "hex_decode [_] = None"
| "hex_decode (a # b # s) =
     (case (digit_value 16 a, digit_value 16 b, hex_decode s) of
        (Some h, Some l, Some bs) \<Rightarrow> Some (word_of_nat (16 * h + l) # bs)
      | _ \<Rightarrow> None)"

locale hex_decoder =
  fixes decode :: "string \<Rightarrow> bytes option"
  assumes decode_Nil: "decode [] = Some []"
    and decode_odd: "odd (length s) \<Longrightarrow> decode s = None"
    and decode_pair: "decode (a # b # s) =
      (case (digit_value 16 a, digit_value 16 b, decode s) of
         (Some h, Some l, Some bs) \<Rightarrow> Some (word_of_nat (16 * h + l) # bs)
       | _ \<Rightarrow> None)"
begin

lemma decode_unique: "decode s = hex_decode s"
proof (induction s rule: hex_decode.induct)
  case (2 c)
  show ?case using decode_odd [of "[c]"] by simp
next
  case (3 a b s)
  then show ?case by (simp add: decode_pair)
qed (simp add: decode_Nil)

lemma decode_lowercase: "decode (to_ascii_lowercase s) = decode s"
proof -
  have "hex_decode (to_ascii_lowercase s) = hex_decode s"
    by (induction s rule: hex_decode.induct) (simp_all add: to_ascii_lowercase_def)
  then show ?thesis by (simp add: decode_unique)
qed

lemma decode_length: "decode s = Some bs \<Longrightarrow> length s = 2 * length bs"
proof -
  have "hex_decode s = Some bs \<Longrightarrow> length s = 2 * length bs"
    by (induction s arbitrary: bs rule: hex_decode.induct) (auto split: option.splits)
  then show "decode s = Some bs \<Longrightarrow> length s = 2 * length bs" by (simp add: decode_unique)
qed

end

lemma hex_decode_odd: "odd (length s) \<Longrightarrow> hex_decode s = None"
  by (induction s rule: hex_decode.induct) (auto split: option.splits)

interpretation hexd: hex_decoder hex_decode
  by unfold_locales (simp_all add: hex_decode_odd)

definition hex_digit :: "nat \<Rightarrow> char" where
  "hex_digit n = ''0123456789abcdef'' ! n"

definition hex_encode :: "bytes \<Rightarrow> string" where
  "hex_encode bs = concat (map (\<lambda>b. [hex_digit (unat b div 16), hex_digit (unat b mod 16)]) bs)"

text \<open>\<open>format!("{:x}")\<close> and \<open>format!("{:08x}")\<close>.\<close>

fun hex_digits :: "nat \<Rightarrow> string" where
  "hex_digits n = (if n < 16 then [hex_digit n] else hex_digits (n div 16) @ [hex_digit (n mod 16)])"

declare hex_digits.simps [simp del]

definition hex08 :: "nat \<Rightarrow> string" where
  "hex08 n = (let s = hex_digits n in replicate (8 - length s) CHR ''0'' @ s)"

lemma digit_value_hex_digit: "n < 16 \<Longrightarrow> digit_value 16 (hex_digit n) = Some n"
proof -
  assume "n < 16"
  then have "n \<in> set [0..<16]" by simp
  moreover have "\<forall>n \<in> set [0..<16]. digit_value 16 (hex_digit n) = Some n" by code_simp
  ultimately show ?thesis by blast
qed

lemma hex_decode_encode [simp]: "hex_decode (hex_encode bs) = Some bs"
proof (induction bs)
  case Nil
  then show ?case by (simp add: hex_encode_def)
next
  case (Cons b bs)
  have b: "unat b < 256" using unsigned_less [of b, where 'a = nat] by simp
  then have "digit_value 16 (hex_digit (unat b div 16)) = Some (unat b div 16)"
    by (intro digit_value_hex_digit) simp
  moreover have "digit_value 16 (hex_digit (unat b mod 16)) = Some (unat b mod 16)"
    by (intro digit_value_hex_digit) simp
  ultimately show ?case using Cons by (simp add: hex_encode_def)
qed

lemma length_hex_encode [simp]: "length (hex_encode bs) = 2 * length bs"
  by (induction bs) (auto simp: hex_encode_def)

section \<open>Byte order\<close>

text \<open>\<open>(hi << n) | lo\<close> is a sum when \<open>lo\<close> has at most \<open>n\<close> bits.\<close>

lemma or_push_bit_eq_add:
  fixes hi lo :: "'a::len word"
  assumes "unat lo < 2 ^ n"
  shows "Bit_Operations.or (push_bit n hi) lo = push_bit n hi + lo"
proof -
  have "\<not> bit lo k" if "n \<le> k" for k
  proof
    assume "bit lo k"
    then have "odd (unat lo div 2 ^ k)"
      by (simp add: bit_unsigned_iff flip: bit_iff_odd)
    moreover have "(2::nat) ^ n \<le> 2 ^ k" using that by (intro power_increasing) auto
    ultimately show False using assms by simp
  qed
  then have "Bit_Operations.and (push_bit n hi) lo = 0"
    by (intro bit_eqI) (auto simp: bit_simps)
  then show ?thesis by (simp add: disjunctive_add_eq_or)
qed

lemma unat_shift_or:
  fixes hi lo :: "'a::len word"
  assumes "unat lo < 2 ^ n" and "unat hi * 2 ^ n + unat lo < 2 ^ LENGTH('a)"
  shows "unat (Bit_Operations.or (push_bit n hi) lo) = unat hi * 2 ^ n + unat lo"
proof -
  have "unat (push_bit n hi) = take_bit LENGTH('a) (unat hi * 2 ^ n)"
    by (subst unsigned_push_bit_eq) (simp add: push_bit_eq_mult)
  also have "\<dots> = unat hi * 2 ^ n" using assms(2) by (simp add: take_bit_nat_eq_self)
  finally have "unat (push_bit n hi) = unat hi * 2 ^ n" .
  then show ?thesis using assms by (simp add: or_push_bit_eq_add unat_plus_eq)
qed

lemma unat_byte_less [simp]: "unat (b :: u8) < 256"
  using unsigned_less [of b, where 'a = nat] by simp

lemma of_le_bytes_nat:
  assumes "8 * length bs \<le> LENGTH('a::len)"
  shows "unat (of_le_bytes bs :: 'a word) = be_value (rev bs)"
  using assms
proof (induction bs)
  case Nil
  then show ?case by simp
next
  case (Cons b bs)
  let ?w = "of_le_bytes bs :: 'a word"
  have w: "unat ?w = be_value (rev bs)" using Cons by simp
  have "(256::nat) ^ length bs = 2 ^ (8 * length bs)" by (simp add: power_mult)
  then have lt: "unat ?w < 2 ^ (8 * length bs)"
    using be_value_bound [of "rev bs"] by (simp add: w)
  have "(2::nat) ^ (8 * length bs) * 256 = 2 ^ (8 * length (b # bs))" by (simp add: power_add)
  also have "\<dots> \<le> 2 ^ LENGTH('a)" using Cons.prems by (intro power_increasing) auto
  finally have le: "2 ^ (8 * length bs) * 256 \<le> (2::nat) ^ LENGTH('a)" .
  have sum: "unat b + 256 * unat ?w < 2 ^ LENGTH('a)"
  proof -
    have "unat b < 256" using unsigned_less [of b, where 'a = nat] by simp
    then have "unat b + 256 * unat ?w < 256 * (unat ?w + 1)" by simp
    also have "\<dots> \<le> 256 * 2 ^ (8 * length bs)" using lt by (intro mult_le_mono2) simp
    finally show ?thesis using le by simp
  qed
  have "unat (push_bit 8 ?w) = take_bit LENGTH('a) (256 * unat ?w)"
    by (subst unsigned_push_bit_eq) (simp add: push_bit_eq_mult mult.commute)
  also have "\<dots> = 256 * unat ?w" using sum by (simp add: take_bit_nat_eq_self)
  finally have "unat (push_bit 8 ?w) = 256 * unat ?w" .
  moreover have "unat (ucast b :: 'a word) = unat b"
    using sum by (simp add: unsigned_ucast_eq take_bit_nat_eq_self)
  ultimately have "unat (of_le_bytes (b # bs) :: 'a word) = unat b + 256 * unat ?w"
    using sum by (simp add: unat_plus_eq)
  also have "\<dots> = be_value (rev (b # bs))"
    by (simp add: w be_value_def)
  finally show ?case .
qed

lemma unat_byte_of: "unat (ucast (drop_bit (8 * i) w) :: u8) = unat w div 256 ^ i mod 256"
proof -
  have "unat (drop_bit (8 * i) w) = unat w div 256 ^ i"
    using take_bit_nat_eq_self [OF unsigned_less [of w, where 'a = nat]]
    by (subst unsigned_drop_bit_eq) (simp add: drop_bit_eq_div power_mult)
  then show ?thesis by (simp add: unsigned_ucast_eq take_bit_eq_mod)
qed

lemma be_value_snoc: "be_value (bs @ [b]) = be_value bs * 256 + unat b"
  by (simp add: be_value_def)

lemma be_value_le_bytes: "be_value (rev (le_bytes n w)) = unat w mod 256 ^ n"
proof (induction n)
  case 0
  then show ?case by (simp add: le_bytes_def)
next
  case (Suc n)
  have "rev (le_bytes (Suc n) w) = ucast (drop_bit (8 * n) w) # rev (le_bytes n w)"
    by (simp add: le_bytes_def)
  then have "be_value (rev (le_bytes (Suc n) w)) =
      unat w div 256 ^ n mod 256 * 256 ^ n + unat w mod 256 ^ n"
    by (simp add: be_value_Cons unat_byte_of Suc)
  also have "\<dots> = unat w mod (256 ^ n * 256)"
    by (subst mod_mult2_eq) (simp only: mult.commute)
  finally show ?case by (simp only: power_Suc2)
qed

text \<open>A word is determined by its bytes, and reading back what was written gives it back.\<close>

lemma of_le_bytes_le_bytes:
  assumes "LENGTH('a::len) = 8 * n"
  shows "of_le_bytes (le_bytes n (w :: 'a word)) = w"
proof -
  have "unat w < 256 ^ n"
    using unsigned_less [of w, where 'a = nat] assms by (simp add: power_mult)
  then have "unat (of_le_bytes (le_bytes n w) :: 'a word) = unat w"
    using assms by (subst of_le_bytes_nat) (simp_all add: be_value_le_bytes)
  then show ?thesis by (simp add: word_unat_eq_iff)
qed

lemma le_bytes_inj:
  "LENGTH('a::len) = 8 * n \<Longrightarrow> le_bytes n v = le_bytes n w \<longleftrightarrow> v = (w :: 'a word)"
  by (metis of_le_bytes_le_bytes)

lemma be_value_inj: "length xs = length ys \<Longrightarrow> be_value xs = be_value ys \<Longrightarrow> xs = ys"
  using be_value_le_iff [of xs ys] be_value_le_iff [of ys xs] by simp

lemma le_bytes_of_le_bytes:
  assumes "LENGTH('a::len) = 8 * length bs"
  shows "le_bytes (length bs) (of_le_bytes bs :: 'a word) = bs"
proof -
  have "be_value (rev (le_bytes (length bs) (of_le_bytes bs :: 'a word))) = be_value (rev bs)"
    using assms be_value_bound [of "rev bs"]
    by (simp add: be_value_le_bytes of_le_bytes_nat)
  then have "rev (le_bytes (length bs) (of_le_bytes bs :: 'a word)) = rev bs"
    by (intro be_value_inj) simp_all
  then show ?thesis by simp
qed

end
