(* ===== verification/Csd_F64.thy ===== *)
theory Csd_F64
  imports Csd_Prelude Complex_Main "HOL-Library.Log_Nat"
begin

text \<open>
  The program's \<open>f64\<close> values: IEEE-754 binary64 with round-to-nearest, ties-to-even. A finite
  value is the rational it denotes, and an arithmetic operation is the exact operation followed
  by \<open>fround\<close>, which is executable. The two zeros are one value: no operation the models use
  tells them apart (a quotient by zero takes the sign of a positive zero). The facts the
  components use are that rounding is monotone and exact on integers up to \<open>2 ^ 53\<close>.
\<close>

section \<open>Rounding to nearest even\<close>

definition rne :: "rat \<Rightarrow> int" where
  "rne q = (let n = \<lfloor>q\<rfloor>; r = q - of_int n in
     if r < 1 / 2 then n else if 1 / 2 < r then n + 1 else if even n then n else n + 1)"

lemma floor_rat_numeral [simp]:
  "\<lfloor>(numeral a :: rat) / numeral b\<rfloor> = numeral a div numeral b"
  using floor_divide_of_int_eq [of "numeral a" "numeral b", where 'a = rat] by simp

lemma rne_of_int [simp]: "rne (of_int n) = n"
  by (simp add: rne_def)

lemma rne_0 [simp]: "rne 0 = 0"
  using rne_of_int [of 0] by simp

lemma rne_bounds: "\<lfloor>q\<rfloor> \<le> rne q \<and> rne q \<le> \<lfloor>q\<rfloor> + 1"
  by (simp add: rne_def Let_def)

lemma rne_mono:
  assumes "q \<le> r"
  shows "rne q \<le> rne r"
proof (cases "\<lfloor>q\<rfloor> = \<lfloor>r\<rfloor>")
  case True
  with assms show ?thesis by (auto simp: rne_def Let_def)
next
  case False
  with floor_mono [OF assms] have "\<lfloor>q\<rfloor> + 1 \<le> \<lfloor>r\<rfloor>" by simp
  then show ?thesis using rne_bounds [of q] rne_bounds [of r] by linarith
qed

text \<open>The binary exponent of a positive rational.\<close>

definition flog2 :: "rat \<Rightarrow> int" where
  "flog2 q = (let nd = quotient_of q; k = bitlen (fst nd) - bitlen (snd nd) in
     if 2 powi k \<le> q then k else k - 1)"

lemma powi_nat: "0 \<le> k \<Longrightarrow> (2 :: rat) powi k = of_int (2 ^ nat k)"
  by (simp add: power_int_def)

lemma powi_pos [simp]: "0 < (2 :: rat) powi k"
  by (simp add: zero_less_power_int)

lemma powi_le_iff: "(2 :: rat) powi a \<le> 2 powi b \<longleftrightarrow> a \<le> b"
  by (metis linorder_not_less one_less_numeral_iff power_int_increasing
      power_int_strict_increasing order_less_imp_le semiring_norm(76) order_less_irrefl
      order_less_le_trans)

lemma powi_less_iff: "(2 :: rat) powi a < 2 powi b \<longleftrightarrow> a < b"
  by (simp only: linorder_not_le [symmetric] powi_le_iff)

lemma powi_Suc: "(2 :: rat) powi (k + 1) = 2 * 2 powi k"
  by (simp add: power_int_add)

lemma bitlen_frac:
  assumes "0 < n"
  shows "2 powi (bitlen n - 1) \<le> (of_int n :: rat)" and "(of_int n :: rat) < 2 powi (bitlen n)"
proof -
  have b: "2 ^ nat (bitlen n - 1) \<le> n \<and> n < 2 ^ nat (bitlen n)"
    using bitlen_bounds assms by blast
  have pos: "0 \<le> bitlen n - 1" using assms bitlen_ge_iff_power [of 1 n] by simp
  have "(of_int (2 ^ nat (bitlen n - 1)) :: rat) \<le> of_int n"
    using b by (subst of_int_le_iff) simp
  then show "2 powi (bitlen n - 1) \<le> (of_int n :: rat)" using pos by (simp only: powi_nat)
  have "(of_int n :: rat) < of_int (2 ^ nat (bitlen n))"
    using b by (subst of_int_less_iff) simp
  then show "(of_int n :: rat) < 2 powi (bitlen n)" using pos by (simp only: powi_nat)
qed

lemma flog2_bounds:
  assumes "0 < q"
  shows "2 powi (flog2 q) \<le> q" and "q < 2 powi (flog2 q + 1)"
proof -
  obtain n d where nd: "quotient_of q = (n, d)" by (cases "quotient_of q")
  have d: "0 < d" using quotient_of_denom_pos [OF nd] .
  have q: "q = of_int n / of_int d" using quotient_of_div [OF nd] .
  have n: "0 < n" using assms q d by (simp add: zero_less_divide_iff)
  let ?k = "bitlen n - bitlen d"
  note bn = bitlen_frac [OF n] and bd = bitlen_frac [OF d]
  have dpos: "(0 :: rat) < of_int d" using d by simp
  have "2 powi (?k - 1) * of_int d \<le> 2 powi (?k - 1) * (2 powi (bitlen d) :: rat)"
    using bd(2) by (intro mult_left_mono) auto
  also have "\<dots> = 2 powi (bitlen n - 1)" by (simp flip: power_int_add)
  also have "\<dots> \<le> of_int n" by (rule bn(1))
  finally have low: "2 powi (?k - 1) \<le> q" using dpos by (simp add: q le_divide_eq)
  have "of_int n < (2 powi (bitlen n) :: rat)" by (rule bn(2))
  also have "\<dots> = 2 powi (?k + 1) * 2 powi (bitlen d - 1)" by (simp flip: power_int_add)
  also have "\<dots> \<le> 2 powi (?k + 1) * of_int d"
    using bd(1) by (intro mult_left_mono) auto
  finally have high: "q < 2 powi (?k + 1)" using dpos by (simp add: q divide_less_eq)
  show "2 powi (flog2 q) \<le> q" using low by (simp add: flog2_def nd Let_def)
  show "q < 2 powi (flog2 q + 1)" using high by (auto simp: flog2_def nd Let_def)
qed

lemma flog2_mono: "0 < q \<Longrightarrow> q \<le> r \<Longrightarrow> flog2 q \<le> flog2 r"
proof -
  assume "0 < q" and "q \<le> r"
  then have "2 powi (flog2 q) < (2 powi (flog2 r + 1) :: rat)"
    using flog2_bounds(1) [of q] flog2_bounds(2) [of r] by simp
  then show ?thesis using powi_le_iff [of "flog2 r + 1" "flog2 q"] by linarith
qed

text \<open>The exponent of the last place (subnormals stop at \<open>-1074\<close>) and the rounding itself.\<close>

definition ulpe :: "rat \<Rightarrow> int" where
  "ulpe q = max (flog2 q - 52) (- 1074)"

definition round_pos :: "rat \<Rightarrow> rat" where
  "round_pos q = of_int (rne (q / 2 powi (ulpe q))) * 2 powi (ulpe q)"

lemma round_pos_exact:
  assumes "q = of_int m * 2 powi x" and "ulpe q \<le> x"
  shows "round_pos q = q"
proof -
  have "q / 2 powi (ulpe q) = of_int m * 2 powi (x - ulpe q)"
    using assms(1) by (simp add: power_int_diff)
  also have "\<dots> = of_int (m * 2 ^ nat (x - ulpe q))"
    using assms(2) by (simp add: powi_nat)
  finally show ?thesis
    unfolding round_pos_def by (simp only: rne_of_int) (simp add: field_simps)
qed

lemma round_pos_mono:
  assumes "0 < q" and "q \<le> r"
  shows "round_pos q \<le> round_pos r"
proof (cases "ulpe q = ulpe r")
  case True
  have "q / 2 powi (ulpe r) \<le> r / 2 powi (ulpe r)"
    using assms(2) by (intro divide_right_mono) auto
  then have "rne (q / 2 powi (ulpe r)) \<le> rne (r / 2 powi (ulpe r))" by (rule rne_mono)
  then have "(of_int (rne (q / 2 powi (ulpe r))) :: rat) \<le> of_int (rne (r / 2 powi (ulpe r)))"
    by simp
  then show ?thesis
    unfolding round_pos_def True by (intro mult_right_mono) auto
next
  case False
  have fl: "flog2 q \<le> flog2 r" using assms by (rule flog2_mono)
  with False have lt: "ulpe q < ulpe r" and er: "ulpe r = flog2 r - 52"
    by (auto simp: ulpe_def max_def split: if_splits)
  let ?b = "2 powi (ulpe q + 53) :: rat"
  have "q < 2 powi (flog2 q + 1)" using assms(1) by (rule flog2_bounds)
  also have "\<dots> \<le> ?b" by (simp add: powi_le_iff ulpe_def)
  also have "?b = 2 powi 53 * 2 powi (ulpe q)" by (simp add: power_int_add)
  finally have "q / 2 powi (ulpe q) \<le> 2 powi 53"
    by (simp add: divide_le_eq)
  then have "rne (q / 2 powi (ulpe q)) \<le> rne (of_int (2 ^ 53))"
    by (intro rne_mono) (simp add: power_int_def)
  then have "rne (q / 2 powi (ulpe q)) \<le> 2 ^ 53" by (simp only: rne_of_int)
  then have "(of_int (rne (q / 2 powi (ulpe q))) :: rat) \<le> of_int (2 ^ 53)"
    by (subst of_int_le_iff)
  then have "round_pos q \<le> of_int (2 ^ 53) * 2 powi (ulpe q)"
    unfolding round_pos_def by (intro mult_right_mono) auto
  also have "\<dots> = ?b" by (simp add: power_int_add)
  also have "\<dots> \<le> 2 powi (ulpe r + 52)" using lt by (simp add: powi_le_iff)
  also have "\<dots> = of_int (2 ^ 52) * 2 powi (ulpe r)" by (simp add: power_int_add)
  also have "\<dots> \<le> round_pos r"
  proof -
    have "2 powi (flog2 r) \<le> r" using assms by (intro flog2_bounds) simp
    then have "(of_int (2 ^ 52) :: rat) \<le> r / 2 powi (ulpe r)"
      by (simp add: er le_divide_eq power_int_diff)
    then have "rne (of_int (2 ^ 52)) \<le> rne (r / 2 powi (ulpe r))" by (rule rne_mono)
    then have "2 ^ 52 \<le> rne (r / 2 powi (ulpe r))" by (simp only: rne_of_int)
    then have "(of_int (2 ^ 52) :: rat) \<le> of_int (rne (r / 2 powi (ulpe r)))"
      by (subst of_int_le_iff)
    then show ?thesis unfolding round_pos_def by (intro mult_right_mono) auto
  qed
  finally show ?thesis .
qed

lemma round_pos_int:
  assumes "0 < n" and "n \<le> 2 ^ 53"
  shows "round_pos (of_int n) = of_int n"
proof (cases "n = 2 ^ 53")
  case True
  have "flog2 (of_int n) \<le> 53"
  proof -
    have "2 powi (flog2 (of_int n)) \<le> (of_int n :: rat)"
      using assms(1) by (intro flog2_bounds) simp
    also have "\<dots> = 2 powi 53" by (simp add: True power_int_def)
    finally show ?thesis by (simp only: powi_le_iff)
  qed
  then show ?thesis
    by (intro round_pos_exact [where m = 1 and x = 53])
      (simp_all add: True power_int_def ulpe_def)
next
  case False
  with assms have "n < 2 ^ 53" by simp
  then have "(of_int n :: rat) < of_int (2 ^ 53)" by (subst of_int_less_iff)
  then have "2 powi (flog2 (of_int n)) < (2 powi 53 :: rat)"
    using flog2_bounds(1) [of "of_int n"] assms(1) by (simp add: power_int_def)
  then have "flog2 (of_int n) \<le> 52" using powi_le_iff [of 53 "flog2 (of_int n)"] by linarith
  then show ?thesis
    by (intro round_pos_exact [where m = n and x = 0]) (simp_all add: ulpe_def)
qed

lemma round_pos_nonneg: "0 < q \<Longrightarrow> 0 \<le> round_pos q"
proof -
  assume "0 < q"
  then have "rne 0 \<le> rne (q / 2 powi (ulpe q))" by (intro rne_mono) simp
  then show ?thesis by (simp add: round_pos_def)
qed

section \<open>Values and operations\<close>

datatype f64 = NaN | Inf bool | Fin rat

definition fround :: "rat \<Rightarrow> f64" where
  "fround q =
     (if q = 0 then Fin 0
      else let v = round_pos \<bar>q\<bar> in
        if 2 powi 1024 \<le> v then Inf (q < 0) else Fin (sgn q * v))"

fun fle :: "f64 \<Rightarrow> f64 \<Rightarrow> bool" where
  "fle NaN _ = False"
| "fle _ NaN = False"
| "fle (Inf s) (Inf t) = (s \<or> \<not> t)"
| "fle (Inf s) (Fin _) = s"
| "fle (Fin _) (Inf t) = (\<not> t)"
| "fle (Fin a) (Fin b) = (a \<le> b)"

definition flt :: "f64 \<Rightarrow> f64 \<Rightarrow> bool" where
  "flt a b = (fle a b \<and> \<not> fle b a)"

definition feq :: "f64 \<Rightarrow> f64 \<Rightarrow> bool" where
  "feq a b = (fle a b \<and> fle b a)"

fun fneg :: "f64 \<Rightarrow> f64" where
  "fneg NaN = NaN"
| "fneg (Inf s) = Inf (\<not> s)"
| "fneg (Fin a) = Fin (- a)"

fun fabs :: "f64 \<Rightarrow> f64" where
  "fabs NaN = NaN"
| "fabs (Inf s) = Inf False"
| "fabs (Fin a) = Fin \<bar>a\<bar>"

fun fadd :: "f64 \<Rightarrow> f64 \<Rightarrow> f64" where
  "fadd NaN _ = NaN"
| "fadd _ NaN = NaN"
| "fadd (Inf s) (Inf t) = (if s = t then Inf s else NaN)"
| "fadd (Inf s) (Fin _) = Inf s"
| "fadd (Fin _) (Inf t) = Inf t"
| "fadd (Fin a) (Fin b) = fround (a + b)"

definition fsub :: "f64 \<Rightarrow> f64 \<Rightarrow> f64" where
  "fsub a b = fadd a (fneg b)"

fun fmul :: "f64 \<Rightarrow> f64 \<Rightarrow> f64" where
  "fmul NaN _ = NaN"
| "fmul _ NaN = NaN"
| "fmul (Inf s) (Inf t) = Inf (s \<noteq> t)"
| "fmul (Inf s) (Fin b) = (if b = 0 then NaN else Inf (s \<noteq> (b < 0)))"
| "fmul (Fin a) (Inf t) = (if a = 0 then NaN else Inf ((a < 0) \<noteq> t))"
| "fmul (Fin a) (Fin b) = fround (a * b)"

fun fdiv :: "f64 \<Rightarrow> f64 \<Rightarrow> f64" where
  "fdiv NaN _ = NaN"
| "fdiv _ NaN = NaN"
| "fdiv (Inf s) (Inf t) = NaN"
| "fdiv (Inf s) (Fin b) = Inf (s \<noteq> (b < 0))"
| "fdiv (Fin a) (Inf t) = Fin 0"
| "fdiv (Fin a) (Fin b) =
     (if b = 0 then (if a = 0 then NaN else Inf (a < 0)) else fround (a / b))"

text \<open>\<open>f64::max\<close> ignores a NaN operand; \<open>f64::clamp\<close> panics (None) unless \<open>lo <= hi\<close>.\<close>

fun fmax :: "f64 \<Rightarrow> f64 \<Rightarrow> f64" where
  "fmax NaN b = b"
| "fmax a NaN = a"
| "fmax a b = (if fle a b then b else a)"

definition fclamp :: "f64 \<Rightarrow> f64 \<Rightarrow> f64 \<Rightarrow> f64 option" where
  "fclamp x lo hi =
     (if fle lo hi then Some (if flt x lo then lo else if flt hi x then hi else x) else None)"

fun fis_finite :: "f64 \<Rightarrow> bool" where
  "fis_finite (Fin _) = True"
| "fis_finite _ = False"

text \<open>\<open>f64::round\<close> (half away from zero), \<open>floor\<close> and \<open>ceil\<close> are exact.\<close>

definition round_away :: "rat \<Rightarrow> int" where
  "round_away q = (if 0 \<le> q then \<lfloor>q + 1 / 2\<rfloor> else \<lceil>q - 1 / 2\<rceil>)"

fun fround_int :: "f64 \<Rightarrow> f64" where
  "fround_int (Fin q) = Fin (of_int (round_away q))"
| "fround_int x = x"

fun ffloor :: "f64 \<Rightarrow> f64" where
  "ffloor (Fin q) = Fin (of_int \<lfloor>q\<rfloor>)"
| "ffloor x = x"

fun fceil :: "f64 \<Rightarrow> f64" where
  "fceil (Fin q) = Fin (of_int \<lceil>q\<rceil>)"
| "fceil x = x"

definition f_of_nat :: "nat \<Rightarrow> f64" where
  "f_of_nat n = fround (of_nat n)"

text \<open>\<open>as u64\<close> saturates and sends NaN to 0.\<close>

fun f_as_u64 :: "f64 \<Rightarrow> u64" where
  "f_as_u64 NaN = 0"
| "f_as_u64 (Inf s) = (if s then 0 else - 1)"
| "f_as_u64 (Fin q) =
     (if q \<le> 0 then 0 else if 2 ^ 64 \<le> q then - 1 else word_of_int \<lfloor>q\<rfloor>)"

section \<open>Facts the components use\<close>

lemma fle_refl_Fin [simp]: "fle (Fin a) (Fin a)"
  by simp

lemma fle_trans: "fle a b \<Longrightarrow> fle b c \<Longrightarrow> fle a c"
  by (cases a; cases b; cases c) auto

lemma fle_NaN [simp]: "\<not> fle x NaN"
  by (cases x) auto

lemma flt_iff_Fin [simp]: "flt (Fin a) (Fin b) \<longleftrightarrow> a < b"
  by (auto simp: flt_def)

lemma fle_total: "x \<noteq> NaN \<Longrightarrow> y \<noteq> NaN \<Longrightarrow> fle x y \<or> fle y x"
  by (cases x; cases y) auto

lemma fround_0 [simp]: "fround 0 = Fin 0"
  by (simp add: fround_def)

lemma fround_int_exact:
  assumes "\<bar>n\<bar> \<le> 2 ^ 53"
  shows "fround (of_int n) = Fin (of_int n)"
proof (cases "n = 0")
  case True
  then show ?thesis by simp
next
  case False
  have r: "round_pos (of_int \<bar>n\<bar>) = of_int \<bar>n\<bar>"
    using False assms by (intro round_pos_int) auto
  have "(of_int \<bar>n\<bar> :: rat) \<le> of_int (2 ^ 53)"
    using assms by (subst of_int_le_iff)
  also have "\<dots> < 2 powi 1024" by (simp add: power_int_def)
  finally have "\<not> 2 powi 1024 \<le> (of_int \<bar>n\<bar> :: rat)" by simp
  with False r show ?thesis
    by (simp add: fround_def Let_def sgn_if)
qed

lemma fround_1 [simp]: "fround 1 = Fin 1"
  using fround_int_exact [of 1] by simp

lemma flog2_unique:
  assumes "0 < q" and "2 powi k \<le> q" and "q < 2 powi (k + 1)"
  shows "flog2 q = k"
proof -
  have "2 powi k < (2 powi (flog2 q + 1) :: rat)" and "2 powi (flog2 q) < (2 powi (k + 1) :: rat)"
    using flog2_bounds [OF assms(1)] assms(2,3) by linarith+
  then have "\<not> flog2 q + 1 \<le> k" and "\<not> k + 1 \<le> flog2 q"
    by (simp_all only: powi_le_iff [symmetric] not_le)
  then show ?thesis by linarith
qed

text \<open>
  Evaluation of a rounding: the binade of the argument is given, the rest is arithmetic on
  numerals.
\<close>

lemma fround_eval:
  assumes "0 < q" and "2 powi k \<le> q" and "q < 2 powi (k + 1)" and "- 1022 \<le> k" and "k < 1023"
  shows "fround q = Fin (of_int (rne (q / 2 powi (k - 52))) * 2 powi (k - 52))"
proof -
  have fl: "flog2 q = k" using assms(1-3) by (rule flog2_unique)
  then have u: "ulpe q = k - 52" using assms(4) by (simp add: ulpe_def)
  have "(2 :: rat) powi (k + 1) \<le> 2 powi 1023" using assms(5) by (subst powi_le_iff) simp
  with assms(3) have "q < 2 powi 1023" by (rule less_le_trans)
  then have "round_pos q \<le> round_pos (of_int 1 * 2 powi 1023)"
    using assms(1) by (intro round_pos_mono) auto
  also have "\<dots> = of_int 1 * 2 powi 1023"
  proof (rule round_pos_exact [OF refl])
    have "flog2 (of_int 1 * 2 powi 1023) = 1023"
      by (rule flog2_unique) (simp_all add: powi_less_iff del: power_int_numeral)
    then show "ulpe (of_int 1 * 2 powi 1023) \<le> 1023" by (simp add: ulpe_def del: power_int_numeral)
  qed
  also have "of_int 1 * 2 powi 1023 = (2 powi 1023 :: rat)" by (simp only: of_int_1 mult_1)
  also have "(2 powi 1023 :: rat) < 2 powi 1024" by (subst powi_less_iff) simp
  finally show ?thesis
    using assms(1) by (simp add: fround_def Let_def not_le round_pos_def u)
qed

lemma fround_neq_NaN [simp]: "fround q \<noteq> NaN"
  by (simp add: fround_def Let_def)

text \<open>Rounding is monotone, overflow to infinity included.\<close>

lemma fround_mono:
  assumes "q \<le> r"
  shows "fle (fround q) (fround r)"
proof -
  consider (pos) "0 < q" | (mix) "q \<le> 0" "0 \<le> r" | (neg) "r < 0" by linarith
  then show ?thesis
  proof cases
    case pos
    then have "round_pos q \<le> round_pos r" using assms by (rule round_pos_mono)
    with pos assms show ?thesis by (auto simp: fround_def Let_def)
  next
    case mix
    then show ?thesis
      using round_pos_nonneg [of r] round_pos_nonneg [of "- q"]
      by (cases "q = 0"; cases "r = 0") (auto simp: fround_def Let_def sgn_if)
  next
    case neg
    then have "round_pos (- r) \<le> round_pos (- q)" using assms by (intro round_pos_mono) auto
    with neg assms show ?thesis by (auto simp: fround_def Let_def sgn_if)
  qed
qed

lemma fclamp_None_iff: "fclamp x lo hi = None \<longleftrightarrow> \<not> fle lo hi"
  by (simp add: fclamp_def)

text \<open>A clamp that returns keeps a non-NaN value between its bounds.\<close>

lemma fclamp_bounds:
  assumes "fclamp x lo hi = Some y" and "x \<noteq> NaN"
  shows "fle lo y \<and> fle y hi"
proof -
  have lohi: "fle lo hi" using assms(1) by (simp add: fclamp_def split: if_splits)
  then have "lo \<noteq> NaN" and "hi \<noteq> NaN" by auto
  moreover have "fle lo lo" and "fle hi hi"
    using \<open>lo \<noteq> NaN\<close> \<open>hi \<noteq> NaN\<close> fle_total by blast+
  ultimately show ?thesis
    using assms lohi fle_total [of x lo] fle_total [of x hi]
    by (auto simp: fclamp_def flt_def split: if_splits)
qed

lemma fclamp_Fin: "a \<le> b \<Longrightarrow> x \<noteq> NaN \<Longrightarrow> \<exists>q. fclamp x (Fin a) (Fin b) = Some (Fin q) \<and> a \<le> q \<and> q \<le> b"
  by (cases x) (auto simp: fclamp_def flt_def)

lemma fclamp_round_int:
  assumes "a \<le> b" and "x \<noteq> NaN"
  shows "\<exists>n. fclamp (fround_int x) (Fin (of_int a)) (Fin (of_int b)) = Some (Fin (of_int n))
    \<and> a \<le> n \<and> n \<le> b"
proof (cases x)
  case (Inf s)
  then show ?thesis using assms(1)
    by (intro exI [of _ "if s then a else b"]) (auto simp: fclamp_def flt_def)
next
  case (Fin q)
  then show ?thesis using assms(1)
    by (intro exI [of _ "max a (min b (round_away q))"]) (auto simp: fclamp_def)
qed (use assms in simp)

lemma round_away_mono: "q \<le> r \<Longrightarrow> round_away q \<le> round_away r"
  unfolding round_away_def
  by (auto intro: floor_mono ceiling_mono) linarith

lemma round_away_of_int [simp]: "round_away (of_int n) = n"
  by (simp add: round_away_def) linarith

lemma round_away_diff: "\<bar>of_int (round_away q) - q\<bar> \<le> 1 / 2"
proof (cases "0 \<le> q")
  case True
  then show ?thesis unfolding round_away_def by (simp only: if_True) linarith
next
  case False
  then show ?thesis unfolding round_away_def by (simp only: if_False) linarith
qed

text \<open>Powers of two are exact, and a value between two exact ones rounds to between them.\<close>

lemma fround_exact:
  assumes "0 < m" and "m < 2 ^ 53" and "- 1074 \<le> x" and "x < 900"
  shows "fround (of_int m * 2 powi x) = Fin (of_int m * 2 powi x)"
proof -
  let ?q = "of_int m * 2 powi x :: rat"
  have pos: "0 < ?q" using assms(1) by simp
  have m: "(of_int m :: rat) < 2 powi 53"
  proof -
    have "(of_int m :: rat) < of_int (2 ^ 53)" using assms(2) by (subst of_int_less_iff)
    then show ?thesis by (simp add: power_int_def)
  qed
  then have "?q < 2 powi 53 * 2 powi x" by (intro mult_strict_right_mono) simp_all
  also have "\<dots> = 2 powi (53 + x)" by (subst power_int_add) simp_all
  finally have lt: "?q < 2 powi (53 + x)" .
  have "2 powi (flog2 ?q) < (2 powi (53 + x) :: rat)"
    using flog2_bounds(1) [OF pos] lt by (rule le_less_trans)
  then have "flog2 ?q < 53 + x" by (simp only: powi_less_iff)
  then have "round_pos ?q = ?q"
    using assms(3) by (intro round_pos_exact [OF refl]) (simp add: ulpe_def)
  moreover have "\<not> 2 powi 1024 \<le> ?q"
  proof -
    have "(2 :: rat) powi (53 + x) < 2 powi 1024" using assms(4) by (simp only: powi_less_iff)
    with lt show ?thesis by simp
  qed
  ultimately show ?thesis using pos assms(1) by (simp add: fround_def Let_def)
qed

lemma fround_pow2: "- 1074 \<le> x \<Longrightarrow> x < 900 \<Longrightarrow> fround (2 powi x) = Fin (2 powi x)"
  using fround_exact [of 1 x] by simp

lemma fround_between:
  assumes "fround a = Fin a" and "fround b = Fin b" and "a \<le> q" and "q \<le> b"
  shows "\<exists>r. fround q = Fin r \<and> a \<le> r \<and> r \<le> b"
  using fround_mono [OF assms(3)] fround_mono [OF assms(4)] assms(1,2)
  by (cases "fround q") auto

lemma fround_nonneg: "0 \<le> q \<Longrightarrow> fle (Fin 0) (fround q)"
  using fround_mono [of 0 q] by simp

text \<open>
  A binary64 value that is not an integer is small, so its floor and ceiling are binary64 values.
\<close>

definition f_exact :: "f64 \<Rightarrow> bool" where
  "f_exact x \<longleftrightarrow> (\<forall>q. x = Fin q \<longrightarrow> fround q = Fin q)"

lemma fround_neg: "fround (- q) = fneg (fround q)"
  by (auto simp: fround_def Let_def sgn_minus)

lemma fround_fixed_small:
  assumes "0 < q" and "fround q = Fin q"
  shows "of_int \<lfloor>q\<rfloor> = q \<or> q < 2 ^ 52"
proof -
  have v: "round_pos q = q"
    using assms by (simp add: fround_def Let_def split: if_splits)
  show ?thesis
  proof (cases "0 \<le> ulpe q")
    case True
    have "q = of_int (rne (q / 2 powi (ulpe q))) * 2 powi (ulpe q)"
      using v by (simp only: round_pos_def)
    also have "\<dots> = of_int (rne (q / 2 powi (ulpe q)) * 2 ^ nat (ulpe q))"
      using powi_nat [OF True] by simp
    finally have "q \<in> \<int>" by (metis Ints_of_int)
    then show ?thesis by (simp add: of_int_floor)
  next
    case False
    then have "flog2 q < 52" by (auto simp: ulpe_def)
    then have "flog2 q + 1 \<le> 52" by simp
    then have "(2 :: rat) powi (flog2 q + 1) \<le> 2 powi 52" by (simp only: powi_le_iff)
    with flog2_bounds(2) [OF assms(1)] have "q < 2 powi 52" by (rule less_le_trans)
    then show ?thesis by (simp add: power_int_def)
  qed
qed

lemma fround_floor_ceiling:
  assumes "0 < q" and "fround q = Fin q"
  shows "fround (of_int \<lfloor>q\<rfloor>) = Fin (of_int \<lfloor>q\<rfloor>)" and "fround (of_int \<lceil>q\<rceil>) = Fin (of_int \<lceil>q\<rceil>)"
proof -
  have "fround (of_int \<lfloor>q\<rfloor>) = Fin (of_int \<lfloor>q\<rfloor>) \<and> fround (of_int \<lceil>q\<rceil>) = Fin (of_int \<lceil>q\<rceil>)"
  proof (cases "of_int \<lfloor>q\<rfloor> = q")
    case True
    then have c: "\<lceil>q\<rceil> = \<lfloor>q\<rfloor>" by (metis ceiling_of_int)
    show ?thesis unfolding c True using assms(2) by simp
  next
    case False
    with fround_fixed_small [OF assms] have "q < 2 ^ 52" by blast
    then have "\<lfloor>q\<rfloor> < 2 ^ 52" "\<lceil>q\<rceil> \<le> 2 ^ 52" "0 \<le> \<lfloor>q\<rfloor>" "0 \<le> \<lceil>q\<rceil>"
      using assms(1) by (simp_all add: floor_less_iff ceiling_le_iff zero_le_floor)
    then show ?thesis by (intro conjI fround_int_exact) simp_all
  qed
  then show "fround (of_int \<lfloor>q\<rfloor>) = Fin (of_int \<lfloor>q\<rfloor>)" and "fround (of_int \<lceil>q\<rceil>) = Fin (of_int \<lceil>q\<rceil>)"
    by simp_all
qed

lemma fround_int_mono: "fle x y \<Longrightarrow> fle (fround_int x) (fround_int y)"
  by (cases x; cases y) (auto intro: round_away_mono)

lemma fclamp_le: "fclamp x a b = Some y \<Longrightarrow> fle x u \<Longrightarrow> fle a u \<Longrightarrow> fle y u"
  by (auto simp: fclamp_def flt_def split: if_splits intro: fle_trans)

lemma fclamp_ge: "fclamp x a b = Some y \<Longrightarrow> fle l x \<Longrightarrow> fle l b \<Longrightarrow> fle l y"
  by (auto simp: fclamp_def flt_def split: if_splits intro: fle_trans)

lemma fclamp_id: "fle a x \<Longrightarrow> fle x b \<Longrightarrow> fclamp x a b = Some x"
  by (auto simp: fclamp_def flt_def intro: fle_trans)

end
