(* ===== verification/Csd_Accounting.thy ===== *)
theory Csd_Accounting
  imports Csd_Prelude
begin

text \<open>
  Crate \<open>csd-pool-accounting\<close>: PPLNS reward allocation over a share window
  (\<open>allocate_pplns\<close>), the ledger entries of a settled block (\<open>reward_ledger_entries\<close>), the
  selection of payable balances (\<open>select_payouts\<close>) and the payout batch with its lock entries
  (\<open>payout_batch_draft\<close>). Amounts are \<open>u128\<close> words, ledger amounts \<open>i128\<close> words read by \<open>sint\<close>.
\<close>

section \<open>Data\<close>

datatype accounting_error = InvalidFeeBps | EmptyShareWindow | ZeroShareDifficulty

record share_weight =
  sw_miner :: string
  sw_difficulty :: u64

record reward_allocation =
  ra_miner :: string
  ra_amount_base_units :: u128

datatype ledger_kind =
    RewardImmature
  | RewardMature
  | RewardOrphanReversal
  | PayoutLock
  | PayoutSent
  | PayoutFailedUnlock
  | PoolFee
  | ManualAdjustment

fun ledger_kind_as_str :: "ledger_kind \<Rightarrow> string" where
  "ledger_kind_as_str RewardImmature = ''reward_immature''"
| "ledger_kind_as_str RewardMature = ''reward_mature''"
| "ledger_kind_as_str RewardOrphanReversal = ''reward_orphan_reversal''"
| "ledger_kind_as_str PayoutLock = ''payout_lock''"
| "ledger_kind_as_str PayoutSent = ''payout_sent''"
| "ledger_kind_as_str PayoutFailedUnlock = ''payout_failed_unlock''"
| "ledger_kind_as_str PoolFee = ''pool_fee''"
| "ledger_kind_as_str ManualAdjustment = ''manual_adjustment''"

record ledger_entry =
  le_miner :: "string option"
  le_amount_base_units :: i128
  le_kind :: ledger_kind
  le_ref_type :: string
  le_ref_id :: string

record pplns_result =
  pr_reward_base_units :: u128
  pr_fee_base_units :: u128
  pr_miner_total_base_units :: u128
  pr_allocations :: "reward_allocation list"

record miner_balance =
  mb_miner :: string
  mb_address :: string
  mb_confirmed_base_units :: u128

record payout_recipient =
  rc_miner :: string
  rc_address :: string
  rc_amount_base_units :: u128

record payout_selection =
  ps_recipients :: "payout_recipient list"
  ps_total_base_units :: u128

record payout_batch_draft =
  pd_batch_id :: string
  pd_recipients :: "payout_recipient list"
  pd_total_base_units :: u128
  pd_lock_entries :: "ledger_entry list"

section \<open>Reward allocation\<close>

text \<open>The first loop: \<open>*weights.entry(miner).or_default() += difficulty as u128\<close>.\<close>

definition pplns_weights :: "share_weight list \<Rightarrow> (string, u128) btree" where
  "pplns_weights shares =
     foldl (\<lambda>weights share.
        bt_insert (sw_miner share)
          ((case bt_get weights (sw_miner share) of None \<Rightarrow> 0 | Some w \<Rightarrow> w)
             + ucast (sw_difficulty share)) weights) [] shares"

text \<open>The second loop; the last miner in key order receives the remainder.\<close>

fun pplns_loop ::
  "u128 \<Rightarrow> u128 \<Rightarrow> string option \<Rightarrow> u128 \<Rightarrow> (string \<times> u128) list \<Rightarrow> reward_allocation list" where
  "pplns_loop miner_total total_weight last_miner allocated [] = []"
| "pplns_loop miner_total total_weight last_miner allocated ((miner, weight) # ws) =
     (let amount = (if Some miner = last_miner then sat_sub miner_total allocated
                    else miner_total * weight div total_weight)
      in \<lparr>ra_miner = miner, ra_amount_base_units = amount\<rparr>
           # pplns_loop miner_total total_weight last_miner (allocated + amount) ws)"

definition allocate_pplns ::
  "u128 \<Rightarrow> u16 \<Rightarrow> share_weight list \<Rightarrow> accounting_error + pplns_result" where
  "allocate_pplns reward fee_bps shares =
     (if 10000 < fee_bps then Inl InvalidFeeBps
      else if shares = [] then Inl EmptyShareWindow
      else
        let weights = pplns_weights shares;
            total_weight = sum_list (bt_values weights)
        in if total_weight = 0 then Inl ZeroShareDifficulty
           else
             let fee = reward * ucast fee_bps div 10000;
                 miner_total = sat_sub reward fee;
                 last_miner = (if weights = [] then None else Some (fst (last weights)))
             in Inr \<lparr>pr_reward_base_units = reward,
                     pr_fee_base_units = fee,
                     pr_miner_total_base_units = miner_total,
                     pr_allocations = pplns_loop miner_total total_weight last_miner 0 weights\<rparr>)"

definition reward_ledger_entries :: "string \<Rightarrow> pplns_result \<Rightarrow> ledger_entry list" where
  "reward_ledger_entries block_ref result =
     map (\<lambda>allocation.
        \<lparr>le_miner = Some (ra_miner allocation),
         le_amount_base_units = ra_amount_base_units allocation,
         le_kind = RewardImmature, le_ref_type = ''block'', le_ref_id = block_ref\<rparr>)
       (pr_allocations result)
     @ (if 0 < pr_fee_base_units result then
          [\<lparr>le_miner = None, le_amount_base_units = pr_fee_base_units result,
            le_kind = PoolFee, le_ref_type = ''block'', le_ref_id = block_ref\<rparr>]
        else [])"

section \<open>Payout selection\<close>

text \<open>The comparator: larger amounts first, then the miner names in ascending order.\<close>

definition payout_le :: "payout_recipient \<Rightarrow> payout_recipient \<Rightarrow> bool" where
  "payout_le a b =
     (rc_amount_base_units b < rc_amount_base_units a
      \<or> rc_amount_base_units a = rc_amount_base_units b \<and> rc_miner a \<le> rc_miner b)"

definition recipient_of_balance :: "miner_balance \<Rightarrow> payout_recipient" where
  "recipient_of_balance balance =
     \<lparr>rc_miner = mb_miner balance, rc_address = mb_address balance,
      rc_amount_base_units = mb_confirmed_base_units balance\<rparr>"

definition select_payouts :: "miner_balance list \<Rightarrow> u128 \<Rightarrow> nat \<Rightarrow> payout_selection" where
  "select_payouts balances minimum_payout max_recipients =
     (let recipients = map recipient_of_balance
            (filter (\<lambda>balance. minimum_payout \<le> mb_confirmed_base_units balance) balances);
          recipients = take max_recipients (sort_by payout_le recipients)
      in \<lparr>ps_recipients = recipients,
          ps_total_base_units = sum_list (map rc_amount_base_units recipients)\<rparr>)"

definition payout_lock_entry :: "string \<Rightarrow> payout_recipient \<Rightarrow> ledger_entry" where
  "payout_lock_entry batch_id recipient =
     \<lparr>le_miner = Some (rc_miner recipient),
      le_amount_base_units = - rc_amount_base_units recipient,
      le_kind = PayoutLock, le_ref_type = ''payout_batch'', le_ref_id = batch_id\<rparr>"

definition make_payout_batch_draft :: "string \<Rightarrow> payout_selection \<Rightarrow> payout_batch_draft" where
  "make_payout_batch_draft batch_id selection =
     \<lparr>pd_batch_id = batch_id,
      pd_recipients = ps_recipients selection,
      pd_total_base_units = ps_total_base_units selection,
      pd_lock_entries = map (payout_lock_entry batch_id) (ps_recipients selection)\<rparr>"

section \<open>The weight table\<close>

lemma unat_ucast_u128 [simp]: "unat (ucast (w :: u64) :: u128) = unat w"
  using unsigned_less [of w, where 'a = nat]
  by (simp add: unsigned_ucast_eq take_bit_nat_eq_self)

lemma unat_ucast_u16_u128 [simp]: "unat (ucast (w :: u16) :: u128) = unat w"
  using unsigned_less [of w, where 'a = nat]
  by (simp add: unsigned_ucast_eq take_bit_nat_eq_self)

text \<open>The loop is the accumulation of the ordered-map interface.\<close>

lemma pplns_weights_accumulate:
  "pplns_weights shares =
     bt.accumulate (+) 0 (map (\<lambda>s. (sw_miner s, ucast (sw_difficulty s))) shares) []"
proof -
  have "foldl (\<lambda>weights share.
        bt_insert (sw_miner share)
          ((case bt_get weights (sw_miner share) of None \<Rightarrow> 0 | Some w \<Rightarrow> w)
             + ucast (sw_difficulty share)) weights) m shares =
      bt.accumulate (+) 0 (map (\<lambda>s. (sw_miner s, ucast (sw_difficulty s))) shares) m" for m
    by (induction shares arbitrary: m) auto
  then show ?thesis by (simp add: pplns_weights_def)
qed

lemma wf_pplns_weights [simp]: "bt_wf (pplns_weights shares)"
  by (simp add: pplns_weights_accumulate bt.wf_accumulate)

definition miner_difficulty :: "share_weight list \<Rightarrow> string \<Rightarrow> u128" where
  "miner_difficulty shares miner =
     sum_list (map (\<lambda>s. ucast (sw_difficulty s)) (filter (\<lambda>s. sw_miner s = miner) shares))"

lemma foldl_plus: "foldl (+) a xs = a + sum_list xs" for a :: "'a::comm_monoid_add"
  by (induction xs arbitrary: a) (auto simp: algebra_simps)

lemma get_pplns_weights:
  "bt_get (pplns_weights shares) miner =
     (if miner \<in> sw_miner ` set shares then Some (miner_difficulty shares miner) else None)"
proof -
  have "map snd (filter (\<lambda>(k', x). k' = miner)
      (map (\<lambda>s. (sw_miner s, ucast (sw_difficulty s) :: u128)) shares)) =
    map (\<lambda>s. ucast (sw_difficulty s)) (filter (\<lambda>s. sw_miner s = miner) shares)"
    by (induction shares) auto
  then show ?thesis
    by (simp add: pplns_weights_accumulate bt.get_accumulate foldl_plus miner_difficulty_def
        image_image)
qed

lemma keys_pplns_weights: "fst ` set (pplns_weights shares) = sw_miner ` set shares"
proof -
  have "k \<in> fst ` set (pplns_weights shares) \<longleftrightarrow> k \<in> sw_miner ` set shares" for k
  proof -
    have "k \<in> fst ` set (pplns_weights shares) \<longleftrightarrow> bt_get (pplns_weights shares) k \<noteq> None"
      by (simp add: bt_get_def map_of_eq_None_iff)
    also have "\<dots> \<longleftrightarrow> k \<in> sw_miner ` set shares" by (simp add: get_pplns_weights)
    finally show ?thesis .
  qed
  then show ?thesis by (rule set_eqI)
qed

lemma pplns_weights_Nil_iff: "pplns_weights shares = [] \<longleftrightarrow> shares = []"
  using keys_pplns_weights [of shares] by auto

lemma pplns_weights_perm:
  assumes "mset shares = mset shares'"
  shows "pplns_weights shares = pplns_weights shares'"
proof (rule bt_ext)
  show "bt_get (pplns_weights shares) = bt_get (pplns_weights shares')"
  proof
    fix k
    have "sw_miner ` set shares = sw_miner ` set shares'"
      using assms by (metis set_mset_mset)
    moreover have "miner_difficulty shares k = miner_difficulty shares' k"
    proof -
      have "mset (map (\<lambda>s. ucast (sw_difficulty s) :: u128) (filter (\<lambda>s. sw_miner s = k) shares)) =
          mset (map (\<lambda>s. ucast (sw_difficulty s)) (filter (\<lambda>s. sw_miner s = k) shares'))"
        using assms by simp
      then show ?thesis
        unfolding miner_difficulty_def by (metis sum_mset_sum_list)
    qed
    ultimately show "bt_get (pplns_weights shares) k = bt_get (pplns_weights shares') k"
      by (simp add: get_pplns_weights)
  qed
qed simp_all

text \<open>The weights add up to the difficulties of the window, as long as the sum fits.\<close>

definition window_difficulty :: "share_weight list \<Rightarrow> nat" where
  "window_difficulty shares = sum_list (map (unat \<circ> sw_difficulty) shares)"

definition weight_sum :: "(string, u128) btree \<Rightarrow> nat" where
  "weight_sum m = sum_list (map unat (bt_values m))"

lemma weight_sum_ge: "bt_get m k = Some w \<Longrightarrow> unat w \<le> weight_sum m"
  by (induction m) (auto simp: weight_sum_def bt_values_def bt_get_def split: if_splits)

lemma weight_sum_insert:
  fixes k :: string
  assumes "bt_wf m" and "weight_sum m + unat x < 2 ^ 128"
  shows "weight_sum (bt_insert k (x + (case bt_get m k of None \<Rightarrow> 0 | Some w \<Rightarrow> w)) m) =
    weight_sum m + unat x"
proof -
  have ins: "weight_sum (bt_insert k v m) =
      weight_sum m - (case bt_get m k of None \<Rightarrow> 0 | Some w \<Rightarrow> unat w) + unat v" for v
    using assms(1)
  proof (induction m)
    case Nil
    then show ?case by (simp add: weight_sum_def bt_values_def)
  next
    case (Cons kv m)
    obtain k' v' where kv: "kv = (k', v')" by (cases kv)
    have wf: "bt_wf m" using Cons.prems by (simp add: bt_wf_Cons)
    have none: "bt_get m k = None" if "k < k'"
      using that Cons.prems by (intro bt_get_below) (auto simp: kv bt_wf_Cons)
    show ?case using Cons.IH [OF wf] none weight_sum_ge [of m k]
      by (auto simp: kv weight_sum_def bt_values_def bt_get_def split: option.splits)
  qed
  show ?thesis
    using assms(2) weight_sum_ge [of m k]
    by (auto simp: ins unat_plus_eq split: option.splits)
qed

lemma weight_sum_pplns:
  assumes "window_difficulty shares < 2 ^ 128"
  shows "weight_sum (pplns_weights shares) = window_difficulty shares"
proof -
  have "bt_wf m \<Longrightarrow> weight_sum m + window_difficulty shares < 2 ^ 128 \<Longrightarrow>
      weight_sum (bt.accumulate (+) 0 (map (\<lambda>s. (sw_miner s, ucast (sw_difficulty s))) shares) m) =
      weight_sum m + window_difficulty shares" for m
  proof (induction shares arbitrary: m)
    case Nil
    then show ?case by (simp add: window_difficulty_def)
  next
    case (Cons s shares)
    from Cons.prems show ?case
      by (simp add: Cons.IH weight_sum_insert window_difficulty_def add.commute [of _ "ucast _"])
  qed
  from this [of "[]"] assms show ?thesis
    by (simp add: pplns_weights_accumulate weight_sum_def bt_values_def)
qed

lemma unat_total_weight:
  assumes "window_difficulty shares < 2 ^ 128"
  shows "unat (sum_list (bt_values (pplns_weights shares))) = window_difficulty shares"
  using assms weight_sum_pplns [OF assms] unat_sum_list [of "bt_values (pplns_weights shares)"]
  by (simp add: weight_sum_def)

section \<open>The allocation loop\<close>

lemma pplns_loop_miners: "map ra_miner (pplns_loop t w l a ws) = map fst ws"
  by (induction t w l a ws rule: pplns_loop.induct) (auto simp: Let_def)

text \<open>Before the last entry every amount is a floor; the last one takes what is left.\<close>

lemma pplns_loop_append:
  assumes "l \<notin> fst ` set ws"
  shows "pplns_loop t w (Some l) a (ws @ [(l, x)]) =
    map (\<lambda>(m, v). \<lparr>ra_miner = m, ra_amount_base_units = t * v div w\<rparr>) ws
    @ [\<lparr>ra_miner = l, ra_amount_base_units =
          sat_sub t (a + sum_list (map (\<lambda>(m, v). t * v div w) ws))\<rparr>]"
  using assms
proof (induction ws arbitrary: a)
  case Nil
  then show ?case by simp
next
  case (Cons mv ws)
  then show ?case by (cases mv) (auto simp: Let_def algebra_simps)
qed

lemma div_sum_le:
  fixes t W :: nat
  shows "sum_list (map (\<lambda>v. t * v div W) vs) \<le> t * sum_list vs div W"
proof (induction vs)
  case Nil
  then show ?case by simp
next
  case (Cons v vs)
  have "t * v div W + t * sum_list vs div W \<le> (t * v + t * sum_list vs) div W"
    by (simp add: div_add1_eq [of "t * v" "t * sum_list vs" W])
  with Cons show ?case by (simp add: algebra_simps)
qed

text \<open>What a successful allocation computed, with the arithmetic read over the naturals.\<close>

definition pplns_fits :: "u128 \<Rightarrow> share_weight list \<Rightarrow> bool" where
  "pplns_fits reward shares \<longleftrightarrow>
     unat reward * 10000 < 2 ^ 128 \<and> window_difficulty shares < 2 ^ 128
     \<and> unat reward * window_difficulty shares < 2 ^ 128"

lemma allocate_pplns_fee:
  assumes ok: "allocate_pplns reward fee_bps shares = Inr r" and fits: "pplns_fits reward shares"
  shows "unat (pr_fee_base_units r) = unat reward * unat fee_bps div 10000"
    and "unat (pr_miner_total_base_units r) = unat reward - unat reward * unat fee_bps div 10000"
    and "unat fee_bps \<le> 10000"
proof -
  have bps: "unat fee_bps \<le> 10000"
    using ok by (simp add: allocate_pplns_def word_less_nat_alt split: if_splits)
  then have "unat reward * unat fee_bps \<le> unat reward * 10000" by (rule mult_left_mono) simp
  also have "\<dots> < 2 ^ 128" using fits by (simp add: pplns_fits_def)
  finally have "unat (reward * ucast fee_bps) = unat reward * unat fee_bps"
    by (subst unat_mult_eq) simp_all
  then have fee: "unat (reward * ucast fee_bps div 10000) = unat reward * unat fee_bps div 10000"
    by (simp add: unat_div)
  show "unat fee_bps \<le> 10000" by (rule bps)
  show "unat (pr_fee_base_units r) = unat reward * unat fee_bps div 10000"
    using ok fee by (auto simp: allocate_pplns_def Let_def split: if_splits)
  show "unat (pr_miner_total_base_units r) = unat reward - unat reward * unat fee_bps div 10000"
    using ok fee by (auto simp: allocate_pplns_def Let_def unat_sat_sub split: if_splits)
qed

text \<open>The amounts: floors for all but the last miner, the remainder for the last one.\<close>

lemma allocate_pplns_amounts:
  assumes ok: "allocate_pplns reward fee_bps shares = Inr r" and fits: "pplns_fits reward shares"
  obtains ws l x where "pplns_weights shares = ws @ [(l, x)]"
    and "map ra_miner (pr_allocations r) = map fst ws @ [l]"
    and "map (unat \<circ> ra_amount_base_units) (pr_allocations r) =
      map (\<lambda>mv. unat (pr_miner_total_base_units r) * unat (snd mv) div window_difficulty shares) ws
      @ [unat (pr_miner_total_base_units r)
         - sum_list (map (\<lambda>mv. unat (pr_miner_total_base_units r) * unat (snd mv)
             div window_difficulty shares) ws)]"
    and "sum_list (map (\<lambda>mv. unat (pr_miner_total_base_units r) * unat (snd mv)
             div window_difficulty shares) ws) + unat (pr_miner_total_base_units r) * unat x
             div window_difficulty shares \<le> unat (pr_miner_total_base_units r)"
    and "0 < window_difficulty shares"
    and "sum_list (map (unat \<circ> snd) ws) + unat x = window_difficulty shares"
proof -
  have ne: "shares \<noteq> []" using ok by (auto simp: allocate_pplns_def split: if_splits)
  then have "pplns_weights shares \<noteq> []" by (simp add: pplns_weights_Nil_iff)
  then obtain ws kx where "pplns_weights shares = ws @ [kx]" by (metis rev_exhaust)
  moreover obtain l x where "kx = (l, x)" by (cases kx)
  ultimately have W: "pplns_weights shares = ws @ [(l, x)]" by simp
  have fresh: "l \<notin> fst ` set ws"
    using bt_wf_distinct [OF wf_pplns_weights, of shares] by (auto simp: W)
  let ?tw = "sum_list (bt_values (pplns_weights shares))"
  let ?t = "pr_miner_total_base_units r" and ?D = "window_difficulty shares"
  have D: "unat ?tw = ?D" using fits by (intro unat_total_weight) (simp add: pplns_fits_def)
  have "?tw \<noteq> 0" using ok by (auto simp: allocate_pplns_def Let_def split: if_splits)
  then have Dpos: "0 < ?D" using D by (metis gr0I unat_eq_zero)
  have sumW: "sum_list (map (unat \<circ> snd) ws) + unat x = ?D"
    using weight_sum_pplns [of shares] fits
    by (simp add: W weight_sum_def bt_values_def pplns_fits_def comp_def)
  have allocs: "pr_allocations r = pplns_loop ?t ?tw (Some l) 0 (ws @ [(l, x)])"
    using ok by (auto simp: allocate_pplns_def Let_def W split: if_splits)
  have tle: "unat ?t \<le> unat reward"
    using allocate_pplns_fee(2) [OF ok fits] by simp
  have vle: "unat v \<le> ?D" if "(m, v) \<in> set ws" for m v
    using sumW member_le_sum_list [of "unat v" "map (unat \<circ> snd) ws"] that by force
  have amt: "unat (?t * v div ?tw) = unat ?t * unat v div ?D" if "(m, v) \<in> set ws" for m v
  proof -
    have "unat ?t * unat v \<le> unat reward * ?D" using tle vle [OF that] by (rule mult_le_mono)
    then have "unat ?t * unat v < 2 ^ 128" using fits by (simp add: pplns_fits_def)
    then show ?thesis by (simp add: unat_div unat_mult_eq D)
  qed
  let ?fl = "\<lambda>mv. unat ?t * unat (snd mv) div ?D"
  have mapfl: "map unat (map (\<lambda>(m, v). ?t * v div ?tw) ws) = map ?fl ws"
    using amt by auto
  have le: "sum_list (map ?fl ws) + unat ?t * unat x div ?D \<le> unat ?t"
  proof -
    have "sum_list (map ?fl ws) + unat ?t * unat x div ?D =
        sum_list (map (\<lambda>v. unat ?t * v div ?D) (map (unat \<circ> snd) ws @ [unat x]))"
      by (simp add: comp_def)
    also have "\<dots> \<le> unat ?t * sum_list (map (unat \<circ> snd) ws @ [unat x]) div ?D"
      by (rule div_sum_le)
    also have "\<dots> = unat ?t" using sumW Dpos by simp
    finally show ?thesis .
  qed
  have sums: "sum_list (map unat (map (\<lambda>(m, v). ?t * v div ?tw) ws)) = sum_list (map ?fl ws)"
    by (simp only: mapfl)
  have "sum_list (map ?fl ws) < 2 ^ 128"
    using le unsigned_less [of ?t, where 'a = nat] by simp
  with sums have usum: "unat (sum_list (map (\<lambda>(m, v). ?t * v div ?tw) ws)) = sum_list (map ?fl ws)"
    using unat_sum_list [of "map (\<lambda>(m, v). ?t * v div ?tw) ws"] by simp
  have am: "map (unat \<circ> ra_amount_base_units) (pr_allocations r) =
      map ?fl ws @ [unat ?t - sum_list (map ?fl ws)]"
    using amt usum unfolding allocs pplns_loop_append [OF fresh]
    by (auto simp: unat_sat_sub)
  have "map ra_miner (pr_allocations r) = map fst ws @ [l]"
    by (simp add: allocs pplns_loop_miners)
  from that [OF W this am le Dpos sumW] show ?thesis .
qed


section \<open>Properties of the allocation\<close>

text \<open>What rounding down loses is less than one unit for each summand.\<close>

lemma div_sum_ge:
  fixes t W :: nat
  assumes "0 < W"
  shows "t * sum_list vs \<le> W * sum_list (map (\<lambda>v. t * v div W) vs) + length vs * (W - 1)"
proof (induction vs)
  case Nil
  then show ?case by simp
next
  case (Cons v vs)
  have "t * v = W * (t * v div W) + t * v mod W" by simp
  moreover have "t * v mod W \<le> W - 1"
    using mod_less_divisor [OF assms, of "t * v"] by linarith
  ultimately have "t * v \<le> W * (t * v div W) + (W - 1)" by linarith
  with Cons.IH show ?case by (simp add: distrib_left)
qed

definition miner_window :: "share_weight list \<Rightarrow> string \<Rightarrow> nat" where
  "miner_window shares miner =
     sum_list (map (unat \<circ> sw_difficulty) (filter (\<lambda>s. sw_miner s = miner) shares))"

lemma miner_window_le: "miner_window shares m \<le> window_difficulty shares"
  by (induction shares) (auto simp: miner_window_def window_difficulty_def)

lemma unat_miner_difficulty:
  assumes "window_difficulty shares < 2 ^ 128"
  shows "unat (miner_difficulty shares m) = miner_window shares m"
proof -
  have "sum_list (map unat (map (\<lambda>s. ucast (sw_difficulty s) :: u128)
      (filter (\<lambda>s. sw_miner s = m) shares))) = miner_window shares m"
    by (simp add: miner_window_def comp_def)
  then show ?thesis
    unfolding miner_difficulty_def
    using assms miner_window_le [of shares m] by (subst unat_sum_list) auto
qed

lemma weight_of_pplns:
  assumes "(m, v) \<in> set (pplns_weights shares)" and "window_difficulty shares < 2 ^ 128"
  shows "unat v = miner_window shares m"
proof -
  have "bt_get (pplns_weights shares) m = Some v" using assms(1) by (simp add: bt_get_in_set)
  then show ?thesis
    using unat_miner_difficulty [OF assms(2)] by (auto simp: get_pplns_weights split: if_splits)
qed

text \<open>Conservation, shared by the properties below.\<close>

lemma pplns_conserves_aux:
  assumes "allocate_pplns reward fee_bps shares = Inr r" and "pplns_fits reward shares"
  shows "pr_reward_base_units r = reward
    \<and> unat (pr_fee_base_units r) = unat reward * unat fee_bps div 10000
    \<and> unat (pr_fee_base_units r) + unat (pr_miner_total_base_units r) = unat reward
    \<and> sum_list (map (unat \<circ> ra_amount_base_units) (pr_allocations r))
        = unat (pr_miner_total_base_units r)"
proof -
  from allocate_pplns_amounts [OF assms] obtain ws :: "(string \<times> u128) list" and x :: u128 where
    am: "map (unat \<circ> ra_amount_base_units) (pr_allocations r) =
      map (\<lambda>mv. unat (pr_miner_total_base_units r) * unat (snd mv) div window_difficulty shares) ws
      @ [unat (pr_miner_total_base_units r)
         - sum_list (map (\<lambda>mv. unat (pr_miner_total_base_units r) * unat (snd mv)
             div window_difficulty shares) ws)]"
    and le: "sum_list (map (\<lambda>mv. unat (pr_miner_total_base_units r) * unat (snd mv)
             div window_difficulty shares) ws) + unat (pr_miner_total_base_units r) * unat x
             div window_difficulty shares \<le> unat (pr_miner_total_base_units r)"
    by metis
  have "unat reward * unat fee_bps div 10000 \<le> unat reward"
    using allocate_pplns_fee(3) [OF assms]
    by (metis div_le_mono mult_le_mono2 nonzero_mult_div_cancel_right zero_neq_numeral)
  moreover have "pr_reward_base_units r = reward"
    using assms(1) by (auto simp: allocate_pplns_def Let_def split: if_splits)
  moreover have "sum_list (map (unat \<circ> ra_amount_base_units) (pr_allocations r))
      = unat (pr_miner_total_base_units r)"
    using le unfolding am by simp
  ultimately show ?thesis
    using allocate_pplns_fee [OF assms] by simp
qed

text \<open>
  C3. Conservation: a successful allocation hands out exactly the reward. The fee is
  the floor of the basis-point share, fee and miner total add up to the reward, and the amounts of
  the miners add up to the miner total, with no base unit lost or created by rounding.
\<close>
theorem pplns_conserves:
  assumes "allocate_pplns reward fee_bps shares = Inr r" and "pplns_fits reward shares"
  shows "pr_reward_base_units r = reward
    \<and> unat (pr_fee_base_units r) = unat reward * unat fee_bps div 10000
    \<and> unat (pr_fee_base_units r) + unat (pr_miner_total_base_units r) = unat reward
    \<and> sum_list (map (unat \<circ> ra_amount_base_units) (pr_allocations r))
        = unat (pr_miner_total_base_units r)"
  using assms by (rule pplns_conserves_aux)

theorem pplns_conserves_witness:
  "sum_list (map (unat \<circ> ra_amount_base_units)
     [\<lparr>ra_miner = ''a'', ra_amount_base_units = 33\<rparr>, \<lparr>ra_miner = ''b'', ra_amount_base_units = 66\<rparr>])
   = unat (99 :: u128)"
proof -
  let ?r = "\<lparr>pr_reward_base_units = 100, pr_fee_base_units = 1, pr_miner_total_base_units = 99,
       pr_allocations = [\<lparr>ra_miner = ''a'', ra_amount_base_units = 33\<rparr>,
                         \<lparr>ra_miner = ''b'', ra_amount_base_units = 66\<rparr>]\<rparr>"
  let ?s = "[\<lparr>sw_miner = ''b'', sw_difficulty = 2\<rparr>, \<lparr>sw_miner = ''a'', sw_difficulty = 1\<rparr>]"
  have "allocate_pplns 100 199 ?s = Inr ?r" by code_simp
  moreover have "pplns_fits 100 ?s" by (simp add: pplns_fits_def window_difficulty_def)
  ultimately show ?thesis using pplns_conserves [of 100 199 ?s ?r] by simp
qed

lemma pplns_fair_aux:
  assumes "allocate_pplns reward fee_bps shares = Inr r" and "pplns_fits reward shares"
    and "i < length (pr_allocations r)"
  defines "a \<equiv> pr_allocations r ! i"
    and "share \<equiv> unat (pr_miner_total_base_units r)
           * miner_window shares (ra_miner (pr_allocations r ! i)) div window_difficulty shares"
  shows "share \<le> unat (ra_amount_base_units a)
    \<and> unat (ra_amount_base_units a) < share + length (pr_allocations r)
    \<and> (i + 1 < length (pr_allocations r) \<longrightarrow> unat (ra_amount_base_units a) = share)"
proof -
  let ?t = "unat (pr_miner_total_base_units r)" and ?D = "window_difficulty shares"
  let ?fl = "\<lambda>mv. ?t * unat (snd mv) div ?D"
  obtain ws l x where
    W: "pplns_weights shares = ws @ [(l, x)]"
    and mi: "map ra_miner (pr_allocations r) = map fst ws @ [l]"
    and am: "map (unat \<circ> ra_amount_base_units) (pr_allocations r) =
      map ?fl ws @ [?t - sum_list (map ?fl ws)]"
    and le: "sum_list (map ?fl ws) + ?t * unat x div ?D \<le> ?t"
    and D: "0 < ?D" and sum: "sum_list (map (unat \<circ> snd) ws) + unat x = ?D"
    by (rule allocate_pplns_amounts [OF assms(1,2)])
  have fits: "?D < 2 ^ 128" using assms(2) by (simp add: pplns_fits_def)
  have len: "length (pr_allocations r) = Suc (length ws)"
    using arg_cong [OF mi, of length] by simp
  have m: "ra_miner (pr_allocations r ! i) = (map fst ws @ [l]) ! i"
    using arg_cong [OF mi, of "\<lambda>xs. xs ! i"] assms(3) by simp
  have v: "unat (ra_amount_base_units a) = (map ?fl ws @ [?t - sum_list (map ?fl ws)]) ! i"
    using arg_cong [OF am, of "\<lambda>xs. xs ! i"] assms(3) by (simp add: a_def)
  show ?thesis
  proof (cases "i < length ws")
    case True
    then have "(fst (ws ! i), snd (ws ! i)) \<in> set (pplns_weights shares)"
      by (simp add: W)
    from weight_of_pplns [OF this fits] have "share = ?fl (ws ! i)"
      using True m by (simp add: share_def nth_append)
    with True v show ?thesis by (simp add: nth_append len)
  next
    case False
    then have i: "i = length ws" using assms(3) len by simp
    have "(l, x) \<in> set (pplns_weights shares)" by (simp add: W)
    from weight_of_pplns [OF this fits] have share: "share = ?t * unat x div ?D"
      using i m by (simp add: share_def nth_append)
    let ?vs = "map (unat \<circ> snd) ws @ [unat x]"
    have "?t * ?D \<le> ?D * sum_list (map (\<lambda>v. ?t * v div ?D) ?vs) + length ?vs * (?D - 1)"
      using div_sum_ge [OF D, of ?t ?vs] sum by simp
    also have "\<dots> < ?D * (sum_list (map (\<lambda>v. ?t * v div ?D) ?vs) + length ?vs)"
      using D by (simp add: algebra_simps)
    finally have "?t < sum_list (map (\<lambda>v. ?t * v div ?D) ?vs) + length ?vs"
      by (subst (asm) mult.commute [of ?t]) (simp only: nat_mult_less_cancel_disj)
    then have "?t < sum_list (map ?fl ws) + share + Suc (length ws)"
      by (simp add: share comp_def)
    moreover have "unat (ra_amount_base_units a) = ?t - sum_list (map ?fl ws)"
      using v i by (simp add: nth_append)
    moreover note le [folded share] i len
    ultimately show ?thesis by linarith
  qed
qed

text \<open>
  C27. Fairness: every miner receives at least the floor of its proportional share of
  the miner total and at most one unit per other miner more; only the last miner in key order may
  receive more than the floor.
\<close>
theorem pplns_fair:
  assumes "allocate_pplns reward fee_bps shares = Inr r" and "pplns_fits reward shares"
    and "i < length (pr_allocations r)"
  defines "a \<equiv> pr_allocations r ! i"
    and "share \<equiv> unat (pr_miner_total_base_units r)
           * miner_window shares (ra_miner (pr_allocations r ! i)) div window_difficulty shares"
  shows "share \<le> unat (ra_amount_base_units a)
    \<and> unat (ra_amount_base_units a) < share + length (pr_allocations r)
    \<and> (i + 1 < length (pr_allocations r) \<longrightarrow> unat (ra_amount_base_units a) = share)"
  using assms(1-3) unfolding assms(4,5) by (rule pplns_fair_aux)

theorem pplns_fair_witness:
  "unat (99 :: u128) * 2 div 3 \<le> unat (67 :: u128)"
proof -
  let ?r = "\<lparr>pr_reward_base_units = 100, pr_fee_base_units = 0, pr_miner_total_base_units = 100,
       pr_allocations = [\<lparr>ra_miner = ''a'', ra_amount_base_units = 33\<rparr>,
                         \<lparr>ra_miner = ''b'', ra_amount_base_units = 67\<rparr>]\<rparr>"
  let ?s = "[\<lparr>sw_miner = ''b'', sw_difficulty = 2\<rparr>, \<lparr>sw_miner = ''a'', sw_difficulty = 1\<rparr>]"
  have "allocate_pplns 100 0 ?s = Inr ?r" by code_simp
  moreover have "pplns_fits 100 ?s" by (simp add: pplns_fits_def window_difficulty_def)
  ultimately have "unat (100 :: u128) * 2 div 3 \<le> unat (67 :: u128)"
    using pplns_fair [of 100 0 ?s ?r 1]
    by (simp add: miner_window_def window_difficulty_def)
  then show ?thesis by simp
qed

text \<open>
  The allocation lists every miner of the window exactly once, in ascending order
  of the miner ids, and nobody else.
\<close>
theorem pplns_miners:
  assumes "allocate_pplns reward fee_bps shares = Inr r"
  shows "map ra_miner (pr_allocations r) = sorted_list_of_set (sw_miner ` set shares)"
proof -
  have "map ra_miner (pr_allocations r) = map fst (pplns_weights shares)"
    using assms by (auto simp: allocate_pplns_def Let_def pplns_loop_miners split: if_splits)
  moreover have "sorted_wrt (<) (map fst (pplns_weights shares))"
    using wf_pplns_weights [of shares] by (simp only: bt_wf_def)
  moreover have "set (map fst (pplns_weights shares)) = sw_miner ` set shares"
    by (simp add: keys_pplns_weights)
  ultimately show ?thesis
    using sorted_list_of_set.idem_if_sorted_distinct [of "map fst (pplns_weights shares)"]
    by (simp add: strict_sorted_iff)
qed

theorem pplns_miners_witness:
  "sorted_list_of_set {''b'', ''a''} = [''a'', ''b'']"
proof -
  have "allocate_pplns 100 0 [\<lparr>sw_miner = ''b'', sw_difficulty = 2\<rparr>, \<lparr>sw_miner = ''a'', sw_difficulty = 1\<rparr>]
    = Inr \<lparr>pr_reward_base_units = 100, pr_fee_base_units = 0, pr_miner_total_base_units = 100,
       pr_allocations = [\<lparr>ra_miner = ''a'', ra_amount_base_units = 33\<rparr>,
                         \<lparr>ra_miner = ''b'', ra_amount_base_units = 67\<rparr>]\<rparr>" by code_simp
  from pplns_miners [OF this] show ?thesis by simp
qed

text \<open>
  C39. The error cases are exactly these, in this order: a fee above 10000 basis points,
  an empty window, a window without difficulty. Every other call with a total that fits succeeds.
\<close>
theorem pplns_errors:
  assumes "window_difficulty shares < 2 ^ 128"
  shows "case allocate_pplns reward fee_bps shares of
      Inl InvalidFeeBps \<Rightarrow> 10000 < unat fee_bps
    | Inl EmptyShareWindow \<Rightarrow> unat fee_bps \<le> 10000 \<and> shares = []
    | Inl ZeroShareDifficulty \<Rightarrow> unat fee_bps \<le> 10000 \<and> shares \<noteq> []
        \<and> (\<forall>s \<in> set shares. sw_difficulty s = 0)
    | Inr r \<Rightarrow> unat fee_bps \<le> 10000 \<and> (\<exists>s \<in> set shares. sw_difficulty s \<noteq> 0)"
proof -
  have z: "window_difficulty shares = 0 \<longleftrightarrow> (\<forall>s \<in> set shares. sw_difficulty s = 0)"
    by (auto simp: window_difficulty_def unat_eq_zero)
  have "sum_list (bt_values (pplns_weights shares)) = 0 \<longleftrightarrow> window_difficulty shares = 0"
    using unat_total_weight [OF assms] by (metis unat_eq_zero)
  with z show ?thesis
    by (auto simp: allocate_pplns_def Let_def word_less_nat_alt not_less)
qed

theorem pplns_errors_witness:
  "10000 < unat (10001 :: u16)"
  using pplns_errors [of "[]" 5 10001] by (simp add: window_difficulty_def allocate_pplns_def)

text \<open>
  The allocation does not depend on the order of the shares in the window.
\<close>
theorem pplns_order_independent:
  assumes "mset shares = mset shares'"
  shows "allocate_pplns reward fee_bps shares = allocate_pplns reward fee_bps shares'"
proof -
  have "shares = [] \<longleftrightarrow> shares' = []"
    using assms by (metis mset_zero_iff)
  then show ?thesis
    using pplns_weights_perm [OF assms] by (simp add: allocate_pplns_def)
qed

theorem pplns_order_independent_witness:
  "allocate_pplns 100 0 [\<lparr>sw_miner = ''b'', sw_difficulty = 2\<rparr>, \<lparr>sw_miner = ''a'', sw_difficulty = 1\<rparr>] =
   allocate_pplns 100 0 [\<lparr>sw_miner = ''a'', sw_difficulty = 1\<rparr>, \<lparr>sw_miner = ''b'', sw_difficulty = 2\<rparr>]"
  by (rule pplns_order_independent) simp

section \<open>Properties of the ledger entries and of the payout selection\<close>

lemma sum_list_sint_small:
  fixes ws :: "i128 list"
  assumes "sum_list (map unat ws) < 2 ^ 127"
  shows "sum_list (map sint ws) = int (sum_list (map unat ws))"
  using assms by (induction ws) (auto simp: sint_small)

lemma sum_list_sint_neg_small:
  fixes ws :: "i128 list"
  assumes "\<forall>w \<in> set ws. unat w < 2 ^ 127"
  shows "sum_list (map (\<lambda>w. sint (- w)) ws) = - int (sum_list (map unat ws))"
  using assms by (induction ws) (auto simp: sint_neg_small)

text \<open>
  The ledger entries of a settled block add up to its reward, as signed amounts, and
  none of them is negative; the pool fee is booked without a miner.
\<close>
theorem reward_ledger_balanced:
  assumes "allocate_pplns reward fee_bps shares = Inr r" and "pplns_fits reward shares"
    and "unat reward < 2 ^ 127"
  shows "sum_list (map (sint \<circ> le_amount_base_units) (reward_ledger_entries ref r))
      = int (unat reward)
    \<and> (\<forall>e \<in> set (reward_ledger_entries ref r). 0 \<le> sint (le_amount_base_units e)
         \<and> (le_miner e = None \<longleftrightarrow> le_kind e = PoolFee))"
proof -
  let ?ws = "map le_amount_base_units (reward_ledger_entries ref r)"
  have fees: "unat (pr_fee_base_units r) + unat (pr_miner_total_base_units r) = unat reward"
    "sum_list (map (unat \<circ> ra_amount_base_units) (pr_allocations r))
        = unat (pr_miner_total_base_units r)"
    using pplns_conserves_aux [OF assms(1,2)] by simp_all
  then have sum: "sum_list (map unat ?ws) = unat reward"
    by (auto simp: reward_ledger_entries_def comp_def word_gt_0 word_less_nat_alt
        simp flip: unat_eq_zero)
  with assms(3) have "sum_list (map sint ?ws) = int (unat reward)"
    using sum_list_sint_small [of ?ws] by simp
  moreover have "0 \<le> sint w" if "w \<in> set ?ws" for w
  proof -
    have "unat w \<le> sum_list (map unat ?ws)"
      using that by (intro member_le_sum_list) auto
    with sum assms(3) show ?thesis by (simp add: sint_small)
  qed
  ultimately show ?thesis
    by (auto simp: comp_def) (auto simp: reward_ledger_entries_def split: if_splits)
qed

theorem reward_ledger_balanced_witness:
  "sum_list (map (sint \<circ> le_amount_base_units) (reward_ledger_entries ''7''
     \<lparr>pr_reward_base_units = 100, pr_fee_base_units = 1, pr_miner_total_base_units = 99,
      pr_allocations = [\<lparr>ra_miner = ''a'', ra_amount_base_units = 99\<rparr>]\<rparr>)) = 100"
proof -
  have "allocate_pplns 100 199 [\<lparr>sw_miner = ''a'', sw_difficulty = 1\<rparr>] =
     Inr \<lparr>pr_reward_base_units = 100, pr_fee_base_units = 1, pr_miner_total_base_units = 99,
      pr_allocations = [\<lparr>ra_miner = ''a'', ra_amount_base_units = 99\<rparr>]\<rparr>" by code_simp
  moreover have "pplns_fits 100 [\<lparr>sw_miner = ''a'', sw_difficulty = 1\<rparr>]"
    by (simp add: pplns_fits_def window_difficulty_def)
  ultimately show ?thesis using reward_ledger_balanced [of 100 199] by fastforce
qed

lemma transp_payout_le: "transp payout_le"
  by (rule transpI) (auto simp: payout_le_def)

lemma payout_le_total: "payout_le a b \<or> payout_le b a"
  by (auto simp: payout_le_def)

text \<open>
  The payout selection is the head of the eligible balances in payout order: it
  pays whole confirmed balances of at least the minimum, at most \<open>max_recipients\<close> of them, sorted by
  amount and then name, and every eligible balance left out comes after all those paid; none is
  left out while there is room.
\<close>
theorem select_payouts_optimal:
  defines "eligible balances minimum \<equiv> map recipient_of_balance
     (filter (\<lambda>b. unat minimum \<le> unat (mb_confirmed_base_units b)) balances)"
  shows "\<exists>rest. mset (ps_recipients (select_payouts balances minimum max_recipients) @ rest)
       = mset (eligible balances minimum)
     \<and> (\<forall>p \<in> set (ps_recipients (select_payouts balances minimum max_recipients)).
          unat minimum \<le> unat (rc_amount_base_units p) \<and> (\<forall>q \<in> set rest. payout_le p q))
     \<and> sorted_wrt payout_le (ps_recipients (select_payouts balances minimum max_recipients))
     \<and> length (ps_recipients (select_payouts balances minimum max_recipients))
         = min max_recipients (length (eligible balances minimum))"
proof -
  let ?e = "eligible balances minimum"
  let ?s = "sort_by payout_le ?e"
  have sel: "ps_recipients (select_payouts balances minimum max_recipients) = take max_recipients ?s"
    by (simp add: select_payouts_def Let_def eligible_def word_le_nat_alt)
  have "sorted_wrt payout_le (take max_recipients ?s @ drop max_recipients ?s)"
    using sorted_sort_by [OF transp_payout_le payout_le_total] by simp
  note sorted = this [unfolded sorted_wrt_append]
  have len: "length ?s = length ?e" by (metis mset_sort_by size_mset)
  have "unat minimum \<le> unat (rc_amount_base_units p)" if "p \<in> set (take max_recipients ?s)" for p
    using set_take_subset [of max_recipients ?s] that by (auto simp: eligible_def recipient_of_balance_def)
  with sorted len show ?thesis
    unfolding sel
    by (intro exI [of _ "drop max_recipients ?s"]) (auto simp flip: mset_append)
qed

theorem select_payouts_optimal_witness:
  "length (ps_recipients (select_payouts
     [\<lparr>mb_miner = ''a'', mb_address = ''x'', mb_confirmed_base_units = 7\<rparr>,
      \<lparr>mb_miner = ''b'', mb_address = ''y'', mb_confirmed_base_units = 9\<rparr>] 5 1)) = 1"
  using select_payouts_optimal [of
     "[\<lparr>mb_miner = ''a'', mb_address = ''x'', mb_confirmed_base_units = 7\<rparr>,
       \<lparr>mb_miner = ''b'', mb_address = ''y'', mb_confirmed_base_units = 9\<rparr>]" 5 1]
  by auto

text \<open>
  A payout batch is internally consistent: its total is the sum of the recipients'
  amounts, and its lock entries debit exactly that total from the recipients, one entry each.
\<close>
theorem payout_batch_locks:
  fixes batch_id :: string and minimum :: u128 and max_recipients :: nat
  assumes "sum_list (map (unat \<circ> mb_confirmed_base_units) balances) < 2 ^ 127"
  defines "batch \<equiv> make_payout_batch_draft batch_id (select_payouts balances minimum max_recipients)"
  shows "map le_miner (pd_lock_entries batch) = map (Some \<circ> rc_miner) (pd_recipients batch)
    \<and> unat (pd_total_base_units batch) = sum_list (map (unat \<circ> rc_amount_base_units) (pd_recipients batch))
    \<and> sum_list (map (sint \<circ> le_amount_base_units) (pd_lock_entries batch))
        = - int (unat (pd_total_base_units batch))"
proof -
  let ?rs = "ps_recipients (select_payouts balances minimum max_recipients)"
  let ?ws = "map rc_amount_base_units ?rs"
  let ?el = "map recipient_of_balance (filter (\<lambda>b. minimum \<le> mb_confirmed_base_units b) balances)"
  have "sum_list (map (unat \<circ> rc_amount_base_units) (take n xs)) \<le>
      sum_list (map (unat \<circ> rc_amount_base_units) xs)" for n xs
    by (metis append_take_drop_id le_add1 map_append sum_list.append)
  then have "sum_list (map unat ?ws) \<le> sum_list (map (unat \<circ> rc_amount_base_units) (sort_by payout_le ?el))"
    by (simp add: select_payouts_def Let_def)
  also have "\<dots> = sum_list (map (unat \<circ> rc_amount_base_units) ?el)"
    by (rule sum_list_sort_by)
  also have "\<dots> \<le> sum_list (map (unat \<circ> mb_confirmed_base_units) balances)"
    by (induction balances) (auto simp: recipient_of_balance_def)
  finally have small: "sum_list (map unat ?ws) < 2 ^ 127" using assms(1) by simp
  then have total: "unat (sum_list ?ws) = sum_list (map unat ?ws)"
    by (intro unat_sum_list) simp
  have each: "\<forall>w \<in> set ?ws. unat w < 2 ^ 127"
  proof
    fix w assume "w \<in> set ?ws"
    then have "unat w \<le> sum_list (map unat ?ws)" by (intro member_le_sum_list) auto
    with small show "unat w < 2 ^ 127" by simp
  qed
  have "map (sint \<circ> le_amount_base_units) (pd_lock_entries batch) = map (\<lambda>w. sint (- w)) ?ws"
    by (simp add: batch_def make_payout_batch_draft_def payout_lock_entry_def)
  with sum_list_sint_neg_small [OF each] total show ?thesis
    by (simp add: batch_def make_payout_batch_draft_def payout_lock_entry_def select_payouts_def
        Let_def comp_def)
qed

theorem payout_batch_locks_witness:
  "sum_list (map (sint \<circ> le_amount_base_units) (pd_lock_entries
     (make_payout_batch_draft ''b'' (select_payouts
        [\<lparr>mb_miner = ''a'', mb_address = ''x'', mb_confirmed_base_units = 7\<rparr>,
         \<lparr>mb_miner = ''b'', mb_address = ''y'', mb_confirmed_base_units = 3\<rparr>] 5 10)))) = - 7"
proof -
  let ?bs = "[\<lparr>mb_miner = ''a'', mb_address = ''x'', mb_confirmed_base_units = 7\<rparr>,
         \<lparr>mb_miner = ''b'', mb_address = ''y'', mb_confirmed_base_units = 3\<rparr>]"
  have "pd_total_base_units (make_payout_batch_draft ''b'' (select_payouts ?bs 5 10)) = 7" by code_simp
  then show ?thesis using payout_batch_locks [of ?bs "''b''" 5 10] by simp
qed

end
