(* ===== verification/Csd_Consensus.thy ===== *)
theory Csd_Consensus
  imports Csd_Prelude Csd_F64
begin

text \<open>
  Crate \<open>csd-pool-consensus\<close>: the reconstruction of a submitted share (extranonce, coinbase,
  merkle root, 84-byte header, double SHA-256) and the comparison of its hash with the assigned
  and the network target; the scaling of a target by a difficulty and back. SHA-256 and the
  \<open>hex\<close> decoder are third-party code and parameters of the definitions that call them.
\<close>

section \<open>Data\<close>

type_synonym hash32 = bytes

datatype consensus_error =
    WrongLength string nat nat
  | InvalidHex string
  | InvalidIntegerHex string
  | LowDifficultyShare

record work_template =
  wt_job_id :: string
  wt_version :: u32
  wt_prev :: hash32
  wt_time :: u64
  wt_bits :: u32
  wt_share_target :: hash32
  wt_network_target :: hash32
  wt_coinbase_prefix :: bytes
  wt_coinbase_suffix :: bytes
  wt_merkle_branch :: "hash32 list"

record submit_solution =
  sol_extranonce2_le :: bytes
  sol_ntime :: u32
  sol_nonce :: u32

record verified_share =
  vs_hash :: hash32
  vs_header :: bytes
  vs_coinbase_txid :: hash32
  vs_merkle_root :: hash32
  vs_is_block_candidate :: bool

section \<open>Decoding\<close>

definition hash32_from_slice :: "string \<Rightarrow> bytes \<Rightarrow> consensus_error + hash32" where
  "hash32_from_slice field bytes =
     (if length bytes \<noteq> 32 then Inl (WrongLength field 32 (length bytes)) else Inr bytes)"

definition decode_hash32_hex ::
  "(string \<Rightarrow> bytes option) \<Rightarrow> string \<Rightarrow> string \<Rightarrow> consensus_error + hash32" where
  "decode_hash32_hex hexd field value =
     (case hexd value of None \<Rightarrow> Inl (InvalidHex field) | Some bytes \<Rightarrow> hash32_from_slice field bytes)"

definition decode_prev_hash_from_stratum ::
  "(string \<Rightarrow> bytes option) \<Rightarrow> string \<Rightarrow> consensus_error + hash32" where
  "decode_prev_hash_from_stratum hexd value =
     (case decode_hash32_hex hexd ''prev_hash_be_hex'' value of
        Inl e \<Rightarrow> Inl e | Inr hash \<Rightarrow> Inr (rev hash))"

definition parse_u32_hex :: "string \<Rightarrow> string \<Rightarrow> consensus_error + u32" where
  "parse_u32_hex field value =
     (case parse_uint 16 (2 ^ 32) value of
        None \<Rightarrow> Inl (InvalidIntegerHex field) | Some n \<Rightarrow> Inr (word_of_nat n))"

definition parse_le_u32_hex_bytes ::
  "(string \<Rightarrow> bytes option) \<Rightarrow> string \<Rightarrow> string \<Rightarrow> consensus_error + bytes" where
  "parse_le_u32_hex_bytes hexd field value =
     (case hexd value of
        None \<Rightarrow> Inl (InvalidHex field)
      | Some bytes \<Rightarrow>
          if length bytes \<noteq> 4 then Inl (WrongLength field 4 (length bytes)) else Inr bytes)"

section \<open>Share reconstruction\<close>

definition sha256d :: "(bytes \<Rightarrow> bytes) \<Rightarrow> bytes \<Rightarrow> hash32" where
  "sha256d sha256 bytes = sha256 (sha256 bytes)"

definition coinbase_bytes :: "bytes \<Rightarrow> u64 \<Rightarrow> bytes \<Rightarrow> bytes" where
  "coinbase_bytes prefix extranonce suffix = prefix @ le_bytes 8 extranonce @ suffix"

definition coinbase_txid :: "(bytes \<Rightarrow> bytes) \<Rightarrow> bytes \<Rightarrow> u64 \<Rightarrow> bytes \<Rightarrow> hash32" where
  "coinbase_txid sha256 prefix extranonce suffix =
     sha256d sha256 (coinbase_bytes prefix extranonce suffix)"

definition compose_extranonce :: "bytes \<Rightarrow> bytes \<Rightarrow> u64" where
  "compose_extranonce extranonce1_le extranonce2_le =
     (let low = ucast (of_le_bytes extranonce1_le :: u32);
          high = ucast (of_le_bytes extranonce2_le :: u32)
      in Bit_Operations.or low (push_bit 32 high))"

definition merkle_root_from_branch :: "(bytes \<Rightarrow> bytes) \<Rightarrow> hash32 \<Rightarrow> hash32 list \<Rightarrow> hash32" where
  "merkle_root_from_branch sha256 leaf branch =
     foldl (\<lambda>current sibling. sha256d sha256 (current @ sibling)) leaf branch"

definition header_84 :: "u32 \<Rightarrow> hash32 \<Rightarrow> hash32 \<Rightarrow> u64 \<Rightarrow> u32 \<Rightarrow> u32 \<Rightarrow> bytes" where
  "header_84 version prev merkle time bits nonce =
     le_bytes 4 version @ prev @ merkle @ le_bytes 8 time @ le_bytes 4 bits @ le_bytes 4 nonce"

definition header_hash :: "(bytes \<Rightarrow> bytes) \<Rightarrow> bytes \<Rightarrow> hash32" where
  "header_hash sha256 header = sha256d sha256 header"

definition hash_leq_target :: "hash32 \<Rightarrow> hash32 \<Rightarrow> bool" where
  "hash_leq_target hash target = (hash \<le> target)"

section \<open>Targets and difficulties\<close>

text \<open>Long division of the big-endian target, one byte at a time (\<open>acc / divisor\<close> cast to u8).\<close>

fun div_target_loop :: "u128 \<Rightarrow> u128 \<Rightarrow> bytes \<Rightarrow> bytes" where
  "div_target_loop divisor rem [] = []"
| "div_target_loop divisor rem (byte # bytes) =
     (let acc = Bit_Operations.or (push_bit 8 rem) (ucast byte)
      in ucast (acc div divisor) # div_target_loop divisor (acc mod divisor) bytes)"

definition div_target_by_u64 :: "hash32 \<Rightarrow> u64 \<Rightarrow> hash32" where
  "div_target_by_u64 target divisor =
     (if divisor \<le> 1 then target else div_target_loop (ucast divisor) 0 target)"

definition target_for_difficulty :: "hash32 \<Rightarrow> f64 \<Rightarrow> hash32" where
  "target_for_difficulty base_target difficulty =
     (if \<not> fis_finite difficulty \<or> fle difficulty (Fin 1) then base_target
      else
        let divisor = (if fle (f_of_nat (2 ^ 64 - 1)) difficulty then - 1
                       else f_as_u64 (fround_int difficulty))
        in div_target_by_u64 base_target (max divisor 1))"

text \<open>The first eight bytes from the first nonzero one, and the number of bytes that follow.\<close>

definition target_mantissa_and_shift :: "hash32 \<Rightarrow> (f64 \<times> nat) option" where
  "target_mantissa_and_shift target =
     (let sig = dropWhile (\<lambda>byte. byte = 0) target in
      if sig = [] then None
      else
        let first = length target - length sig;
            mantissa = foldl (\<lambda>mantissa byte. Bit_Operations.or (push_bit 8 mantissa) (ucast byte))
                         (0 :: u64) (take 8 sig);
            bytes = length (take 8 sig)
        in if mantissa = 0 then None
           else Some (f_of_nat (unat mantissa), 32 - (first + bytes)))"

definition difficulty_for_target :: "hash32 \<Rightarrow> hash32 \<Rightarrow> f64" where
  "difficulty_for_target base_target target =
     (case target_mantissa_and_shift base_target of
        None \<Rightarrow> Fin 0
      | Some (base_mantissa, base_shift) \<Rightarrow>
          (case target_mantissa_and_shift target of
             None \<Rightarrow> Fin 0
           | Some (target_mantissa, target_shift) \<Rightarrow>
               let shift = int base_shift - int target_shift;
                   ratio = fdiv base_mantissa target_mantissa
               in if shift = 0 then ratio else fmul ratio (Fin (256 powi shift))))"

section \<open>Verification of a share\<close>

definition verify_share_against_target ::
  "(bytes \<Rightarrow> bytes) \<Rightarrow> work_template \<Rightarrow> bytes \<Rightarrow> submit_solution \<Rightarrow> hash32
    \<Rightarrow> consensus_error + verified_share" where
  "verify_share_against_target sha256 template extranonce1_le solution assigned_target =
     (let extranonce = compose_extranonce extranonce1_le (sol_extranonce2_le solution);
          txid = coinbase_txid sha256 (wt_coinbase_prefix template) extranonce
                   (wt_coinbase_suffix template);
          merkle_root = merkle_root_from_branch sha256 txid (wt_merkle_branch template);
          header = header_84 (wt_version template) (wt_prev template) merkle_root
                     (ucast (sol_ntime solution)) (wt_bits template) (sol_nonce solution);
          hash = header_hash sha256 header
      in if \<not> hash_leq_target hash assigned_target then Inl LowDifficultyShare
         else Inr \<lparr>vs_hash = hash, vs_header = header, vs_coinbase_txid = txid,
                   vs_merkle_root = merkle_root,
                   vs_is_block_candidate = hash_leq_target hash (wt_network_target template)\<rparr>)"

definition verify_share ::
  "(bytes \<Rightarrow> bytes) \<Rightarrow> work_template \<Rightarrow> bytes \<Rightarrow> submit_solution
    \<Rightarrow> consensus_error + verified_share" where
  "verify_share sha256 template extranonce1_le solution =
     verify_share_against_target sha256 template extranonce1_le solution (wt_share_target template)"

definition verify_share_with_difficulty ::
  "(bytes \<Rightarrow> bytes) \<Rightarrow> work_template \<Rightarrow> bytes \<Rightarrow> submit_solution \<Rightarrow> f64
    \<Rightarrow> consensus_error + verified_share" where
  "verify_share_with_difficulty sha256 template extranonce1_le solution difficulty =
     verify_share_against_target sha256 template extranonce1_le solution
       (target_for_difficulty (wt_share_target template) difficulty)"

section \<open>Target arithmetic\<close>

lemma unat_ucast_byte [simp]: "unat (ucast (b :: u8) :: u128) = unat b"
  using unat_byte_less [of b] by (simp add: unsigned_ucast_eq take_bit_nat_eq_self del: unat_byte_less)

lemma unat_ucast_divisor [simp]: "unat (ucast (d :: u64) :: u128) = unat d"
  using unsigned_less [of d, where 'a = nat] by (simp add: unsigned_ucast_eq take_bit_nat_eq_self)

lemma div_mod_step: "(a div d * m + (a mod d * m + v) div d) = (a * m + v) div d" if "0 < d"
  for a d m v :: nat
proof -
  have "a * m + v = d * (a div d * m) + (a mod d * m + v)"
    by (metis add.assoc add_mult_distrib mult.assoc mult_div_mod_eq)
  then show ?thesis using that by (simp only: div_mult_self4)
qed

text \<open>The loop computes the quotient: no byte of it overflows while the remainder is small.\<close>

lemma div_target_loop_value:
  assumes "unat rem < unat d" and "unat d < 2 ^ 64"
  shows "be_value (div_target_loop d rem bs) =
    (unat rem * 256 ^ length bs + be_value bs) div unat d
    \<and> length (div_target_loop d rem bs) = length bs"
  using assms
proof (induction bs arbitrary: rem)
  case Nil
  then show ?case by simp
next
  case (Cons b bs)
  let ?acc = "Bit_Operations.or (push_bit 8 rem) (ucast b)"
  have small: "unat rem * 256 + unat b < unat d * 256"
    using Cons.prems(1) unat_byte_less [of b] by linarith
  then have acc: "unat ?acc = unat rem * 256 + unat b"
    using Cons.prems(2) by (subst unat_shift_or) auto
  have mod: "unat (?acc mod d) = unat ?acc mod unat d" by (simp add: unat_mod)
  have "unat (?acc mod d) < unat d" using Cons.prems by (simp add: mod)
  note IH = Cons.IH [OF this Cons.prems(2)]
  have "unat ?acc div unat d < 256"
    using acc small by (simp add: less_mult_imp_div_less mult.commute)
  then have "unat (ucast (?acc div d) :: u8) = unat ?acc div unat d"
    by (simp add: unsigned_ucast_eq unat_div take_bit_nat_eq_self)
  moreover have "0 < unat d" using Cons.prems(1) by simp
  ultimately show ?case
    using IH div_mod_step [of "unat d" "unat ?acc" "256 ^ length bs" "be_value bs"] mod acc
    by (simp add: Let_def be_value_Cons algebra_simps)
qed

lemma div_target_value:
  "0 < divisor \<Longrightarrow> be_value (div_target_by_u64 target divisor) = be_value target div unat divisor
    \<and> length (div_target_by_u64 target divisor) = length target"
proof (cases "divisor \<le> 1")
  case True
  moreover assume "0 < divisor"
  ultimately have "unat divisor = 1" by (simp add: word_le_nat_alt word_less_nat_alt)
  with True show ?thesis by (simp add: div_target_by_u64_def)
next
  case False
  then have "0 < unat divisor" by (simp add: word_le_nat_alt)
  moreover have "unat divisor < 2 ^ 64" using unsigned_less [of divisor, where 'a = nat] by simp
  ultimately show ?thesis
    using False div_target_loop_value [of 0 "ucast divisor" target]
    by (simp add: div_target_by_u64_def)
qed

text \<open>The divisor a difficulty stands for, and the target it gives.\<close>

definition difficulty_divisor :: "f64 \<Rightarrow> nat" where
  "difficulty_divisor difficulty =
     (case difficulty of
        Fin d \<Rightarrow> if d \<le> 1 then 1 else min (nat (round_away d)) (2 ^ 64 - 1)
      | _ \<Rightarrow> 1)"

lemma f_of_nat_u64_max: "f_of_nat (2 ^ 64 - 1) = Fin (2 ^ 64)"
proof -
  have "fround (of_nat (2 ^ 64 - 1)) = Fin (of_int (rne (of_nat (2 ^ 64 - 1) / 2 powi (63 - 52))) * 2 powi (63 - 52))"
    by (rule fround_eval) (simp_all add: power_int_def)
  also have "of_int (rne (of_nat (2 ^ 64 - 1) / 2 powi (63 - 52))) * 2 powi (63 - 52) = (2 ^ 64 :: rat)"
    by (simp add: rne_def Let_def power_int_def)
  finally show ?thesis by (simp add: f_of_nat_def)
qed

lemma unat_u64_max: "unat (- 1 :: u64) = 2 ^ 64 - 1"
  by (simp add: unsigned_minus_1_eq_mask mask_eq_exp_minus_1)

lemma f_as_u64_round:
  assumes "1 < d" and "d < 2 ^ 64"
  shows "unat (f_as_u64 (fround_int (Fin d))) = min (nat (round_away d)) (2 ^ 64 - 1)
    \<and> 1 \<le> nat (round_away d)"
proof -
  have "round_away (of_int 1) \<le> round_away d" using assms(1) by (intro round_away_mono) simp
  then have one: "1 \<le> round_away d" by (simp only: round_away_of_int)
  show ?thesis
  proof (cases "round_away d < 2 ^ 64")
    case True
    then have "(of_int (round_away d) :: rat) < of_int (2 ^ 64)" by (subst of_int_less_iff)
    then have lt: "\<not> 2 ^ 64 \<le> (of_int (round_away d) :: rat)" by simp
    have "uint (word_of_int (round_away d) :: u64) = round_away d"
      using True one by (simp add: take_bit_int_eq_self unsigned_of_int)
    then have "unat (word_of_int (round_away d) :: u64) = nat (round_away d)"
      by (metis unat_eq_nat_uint)
    then show ?thesis using one lt True by simp
  next
    case False
    then have "of_int (2 ^ 64) \<le> (of_int (round_away d) :: rat)" by (subst of_int_le_iff) simp
    then have ge: "2 ^ 64 \<le> (of_int (round_away d) :: rat)" by simp
    then show ?thesis using one False by (simp add: unat_u64_max)
  qed
qed

lemma target_for_difficulty_value:
  "be_value (target_for_difficulty base d) = be_value base div difficulty_divisor d
   \<and> length (target_for_difficulty base d) = length base \<and> 1 \<le> difficulty_divisor d"
proof (cases "\<not> fis_finite d \<or> fle d (Fin 1)")
  case True
  then show ?thesis
    by (cases d) (auto simp: target_for_difficulty_def difficulty_divisor_def)
next
  case False
  then obtain q where d: "d = Fin q" and q: "1 < q" by (cases d) auto
  have dd: "difficulty_divisor d = min (nat (round_away q)) (2 ^ 64 - 1)"
    using q by (simp add: difficulty_divisor_def d)
  define w where "w = (if 2 ^ 64 \<le> q then - 1 else f_as_u64 (fround_int (Fin q)))"
  have w: "unat w = difficulty_divisor d \<and> 1 \<le> difficulty_divisor d"
  proof (cases "2 ^ 64 \<le> q")
    case True
    then have "round_away (of_int (2 ^ 64)) \<le> round_away q"
      by (intro round_away_mono) simp
    then have "2 ^ 64 \<le> round_away q" by (simp only: round_away_of_int)
    then show ?thesis using True by (simp add: w_def dd unat_u64_max)
  next
    case False
    then show ?thesis using f_as_u64_round [OF q] by (simp add: w_def dd)
  qed
  then have "max w 1 = w" "0 < w"
    by (auto simp: max_def word_le_nat_alt word_less_nat_alt word_unat_eq_iff)
  then have t: "target_for_difficulty base d = div_target_by_u64 base w"
    using False by (simp add: target_for_difficulty_def f_of_nat_u64_max [simplified] w_def d)
  show ?thesis
    using w div_target_value [OF \<open>0 < w\<close>, of base] by (simp add: t)
qed

lemma difficulty_divisor_mono: "d \<le> d' \<Longrightarrow> difficulty_divisor (Fin d) \<le> difficulty_divisor (Fin d')"
  using round_away_mono [of d d'] round_away_mono [of 1 d'] round_away_of_int [of 1]
  by (auto simp: difficulty_divisor_def)

text \<open>
  The assigned share target is the base target divided by the rounded difficulty (at
  least 1, at most \<open>u64::MAX\<close>; a difficulty up to 1 or not finite leaves it unchanged), as numbers
  read from the big-endian bytes, and no byte of the long division overflows.
\<close>
theorem target_scaling:
  "be_value (target_for_difficulty base difficulty) = be_value base div difficulty_divisor difficulty
   \<and> length (target_for_difficulty base difficulty) = length base"
  using target_for_difficulty_value by blast

section \<open>Verification\<close>

text \<open>The documented output of SHA-256: 32 bytes.\<close>

definition digest32 :: "(bytes \<Rightarrow> bytes) \<Rightarrow> bool" where
  "digest32 sha256 \<longleftrightarrow> (\<forall>m. length (sha256 m) = 32)"

definition wf_template :: "work_template \<Rightarrow> bool" where
  "wf_template t \<longleftrightarrow> length (wt_prev t) = 32 \<and> length (wt_share_target t) = 32
     \<and> length (wt_network_target t) = 32 \<and> list_all (\<lambda>h. length h = 32) (wt_merkle_branch t)"

lemma length_sha256d [simp]: "digest32 sha256 \<Longrightarrow> length (sha256d sha256 m) = 32"
  by (simp add: digest32_def sha256d_def)

lemma length_merkle_root [simp]:
  "digest32 sha256 \<Longrightarrow> length leaf = 32 \<Longrightarrow> length (merkle_root_from_branch sha256 leaf branch) = 32"
  unfolding merkle_root_from_branch_def
  by (induction branch arbitrary: leaf) auto

lemma hash_leq_target_value:
  "length hash = length target \<Longrightarrow> hash_leq_target hash target \<longleftrightarrow> be_value hash \<le> be_value target"
  by (simp add: hash_leq_target_def be_value_le_iff)

text \<open>
  The 84-byte header determines its six fields: two headers that agree as bytes
  agree in version, previous hash, merkle root, time, bits and nonce.
\<close>
theorem header_84_injective:
  assumes "length prev = 32" and "length prev' = 32" and "length merkle = 32" and "length merkle' = 32"
  shows "length (header_84 version prev merkle time bits nonce) = 84
    \<and> (header_84 version prev merkle time bits nonce = header_84 version' prev' merkle' time' bits' nonce'
       \<longleftrightarrow> version = version' \<and> prev = prev' \<and> merkle = merkle' \<and> time = time' \<and> bits = bits'
           \<and> nonce = nonce')"
proof -
  have inj: "le_bytes 4 v = le_bytes 4 w \<longleftrightarrow> v = w" "le_bytes 8 x = le_bytes 8 y \<longleftrightarrow> x = y"
    for v w :: u32 and x y :: u64
    by (simp_all add: le_bytes_inj)
  have len: "length (le_bytes n w) = n" for n and w :: "'a::len word" by simp
  show ?thesis
    unfolding header_84_def
    by (simp only: append_eq_append_conv len assms inj length_append HOL.simp_thms)
qed

theorem header_84_injective_witness:
  "length (header_84 1 (replicate 32 0) (replicate 32 7) 5 6 9) = 84"
  using header_84_injective [of "replicate 32 0" "replicate 32 0" "replicate 32 7" "replicate 32 7"]
  by simp

lemma le_bytes_compose_extranonce:
  assumes "length e1 = 4" and "length e2 = 4"
  shows "le_bytes 8 (compose_extranonce e1 e2) = e1 @ e2"
proof -
  let ?l = "of_le_bytes e1 :: u32" and ?h = "of_le_bytes e2 :: u32"
  have bounds: "unat ?l < 2 ^ 32" "unat ?h < 2 ^ 32"
    using unsigned_less [of ?l, where 'a = nat] unsigned_less [of ?h, where 'a = nat] by simp_all
  have u: "unat (ucast w :: u64) = unat w" for w :: u32
    using unsigned_less [of w, where 'a = nat] by (simp add: unsigned_ucast_eq take_bit_nat_eq_self)
  have "unat (compose_extranonce e1 e2) = unat ?h * 2 ^ 32 + unat ?l"
    unfolding compose_extranonce_def Let_def
    using bounds by (subst or.commute, subst unat_shift_or) (auto simp: u)
  also have "\<dots> = be_value (rev e2) * 2 ^ 32 + be_value (rev e1)"
    using assms by (simp add: of_le_bytes_nat)
  also have "\<dots> = be_value (rev (e1 @ e2))"
    using assms be_value_acc [of "be_value (rev e2)" "rev e1"]
    by (simp add: be_value_def)
  finally have v: "unat (compose_extranonce e1 e2) = be_value (rev (e1 @ e2))" .
  have "be_value (rev (le_bytes 8 (compose_extranonce e1 e2))) = be_value (rev (e1 @ e2))"
    using be_value_bound [of "rev (e1 @ e2)"] assms by (simp add: be_value_le_bytes v)
  then have "rev (le_bytes 8 (compose_extranonce e1 e2)) = rev (e1 @ e2)"
    using assms by (intro be_value_inj) simp_all
  then show ?thesis by (simp only: rev_is_rev_conv)
qed

text \<open>
  The coinbase contains the two extranonces as they came over the wire, first the one of
  the connection, then the one of the share, so distinct pairs give distinct coinbases.
\<close>
theorem coinbase_extranonce:
  assumes "length e1 = 4" and "length e2 = 4" and "length e1' = 4" and "length e2' = 4"
  shows "coinbase_bytes prefix (compose_extranonce e1 e2) suffix = prefix @ e1 @ e2 @ suffix
    \<and> (coinbase_bytes prefix (compose_extranonce e1 e2) suffix
         = coinbase_bytes prefix (compose_extranonce e1' e2') suffix \<longleftrightarrow> e1 = e1' \<and> e2 = e2')"
  using assms by (simp add: coinbase_bytes_def le_bytes_compose_extranonce)

theorem coinbase_extranonce_witness:
  "coinbase_bytes [9] (compose_extranonce [1, 2, 3, 4] [5, 6, 7, 8]) [10]
     = [9] @ [1, 2, 3, 4] @ [5, 6, 7, 8] @ [10]"
  using coinbase_extranonce [of "[1, 2, 3, 4]" "[5, 6, 7, 8]" "[1, 2, 3, 4]" "[5, 6, 7, 8]"] by simp

text \<open>
  C14. A share is accepted exactly when the double SHA-256 of the header rebuilt from the
  template, the two extranonces, the time and the nonce is, as a number, at most the target of the
  assigned difficulty; the answer then carries that header and hash, and is a block candidate
  exactly when the hash is at most the network target.
\<close>
theorem verify_share_accepts:
  fixes e1 :: bytes and s :: submit_solution and d :: f64
  assumes "digest32 sha256" and "wf_template t"
  defines "mroot \<equiv> merkle_root_from_branch sha256
      (coinbase_txid sha256 (wt_coinbase_prefix t)
         (compose_extranonce e1 (sol_extranonce2_le s)) (wt_coinbase_suffix t)) (wt_merkle_branch t)"
  defines "header \<equiv> header_84 (wt_version t) (wt_prev t) mroot (ucast (sol_ntime s)) (wt_bits t) (sol_nonce s)"
  shows "(if be_value (sha256d sha256 header) \<le> be_value (wt_share_target t) div difficulty_divisor d
      then \<exists>v. verify_share_with_difficulty sha256 t e1 s d = Inr v
         \<and> vs_hash v = sha256d sha256 header \<and> vs_header v = header \<and> vs_merkle_root v = mroot
         \<and> (vs_is_block_candidate v
              \<longleftrightarrow> be_value (sha256d sha256 header) \<le> be_value (wt_network_target t))
      else verify_share_with_difficulty sha256 t e1 s d = Inl LowDifficultyShare)"
proof -
  have len: "length (target_for_difficulty (wt_share_target t) d) = 32"
    using assms(2) target_for_difficulty_value [of "wt_share_target t" d] by (simp add: wf_template_def)
  have "hash_leq_target (sha256d sha256 header) (target_for_difficulty (wt_share_target t) d)
      \<longleftrightarrow> be_value (sha256d sha256 header) \<le> be_value (wt_share_target t) div difficulty_divisor d"
    using len assms(1) target_for_difficulty_value [of "wt_share_target t" d]
    by (subst hash_leq_target_value) simp_all
  moreover have "hash_leq_target (sha256d sha256 header) (wt_network_target t)
      \<longleftrightarrow> be_value (sha256d sha256 header) \<le> be_value (wt_network_target t)"
    using assms(1,2) by (subst hash_leq_target_value) (simp_all add: wf_template_def)
  ultimately show ?thesis
    by (simp add: verify_share_with_difficulty_def verify_share_against_target_def Let_def
        header_def mroot_def header_hash_def)
qed

definition sample_template :: work_template where
  "sample_template = \<lparr>wt_job_id = ''1'', wt_version = 1, wt_prev = replicate 32 0, wt_time = 0,
     wt_bits = 0, wt_share_target = replicate 32 255, wt_network_target = replicate 32 0,
     wt_coinbase_prefix = [], wt_coinbase_suffix = [], wt_merkle_branch = []\<rparr>"

lemma sample_template_wf: "wf_template sample_template"
  by (simp add: wf_template_def sample_template_def)

theorem verify_share_accepts_witness:
  "\<exists>v. verify_share_with_difficulty (\<lambda>_. replicate 32 0) sample_template [0, 0, 0, 0]
     \<lparr>sol_extranonce2_le = [0, 0, 0, 0], sol_ntime = 0, sol_nonce = 0\<rparr> (Fin 1) = Inr v
     \<and> vs_is_block_candidate v"
proof -
  have d: "digest32 (\<lambda>_. replicate 32 0)" by (simp add: digest32_def)
  have z: "be_value (sha256d (\<lambda>_. replicate 32 0) m) = 0" for m
    by (simp add: sha256d_def be_value_def numeral_eq_Suc)
  show ?thesis
    using verify_share_accepts [OF d sample_template_wf, of "[0, 0, 0, 0]"
        "\<lparr>sol_extranonce2_le = [0, 0, 0, 0], sol_ntime = 0, sol_nonce = 0\<rparr>" "Fin 1"]
    by (auto simp: z)
qed

text \<open>
  Difficulty is monotone: a share accepted at some difficulty is accepted, with the same
  answer, at every lower one. (A miner whose difficulty was just raised loses nothing when its
  share is checked again against the previous difficulty.)
\<close>
theorem verify_share_monotone:
  assumes "digest32 sha256" and "wf_template t" and "d \<le> d'"
    and "verify_share_with_difficulty sha256 t e1 s (Fin d') = Inr v"
  shows "verify_share_with_difficulty sha256 t e1 s (Fin d) = Inr v"
proof -
  let ?T = "\<lambda>d. target_for_difficulty (wt_share_target t) (Fin d)"
  have len: "length (?T x) = 32" for x
    using assms(2) target_for_difficulty_value [of "wt_share_target t" "Fin x"] by (simp add: wf_template_def)
  have le: "be_value (?T d') \<le> be_value (?T d)"
    using target_for_difficulty_value difficulty_divisor_mono [OF assms(3)]
    by (metis div_le_mono2 less_le_trans zero_less_one)
  have "hash_leq_target h (?T d)" if "hash_leq_target h (?T d')" and "length h = 32" for h
    using that le len by (simp add: hash_leq_target_value)
  then show ?thesis
    using assms(1,4)
    by (auto simp: verify_share_with_difficulty_def verify_share_against_target_def Let_def
        header_hash_def split: if_splits)
qed

lemma sample_template_verifies:
  "\<exists>v. verify_share_with_difficulty (\<lambda>_. replicate 32 0) sample_template e1 s (Fin 1) = Inr v
     \<and> vs_is_block_candidate v"
  by (simp add: verify_share_with_difficulty_def verify_share_against_target_def Let_def
      target_for_difficulty_def sample_template_def header_hash_def sha256d_def hash_leq_target_def
      numeral_eq_Suc)

theorem verify_share_monotone_witness:
  "\<exists>v. verify_share_with_difficulty (\<lambda>_. replicate 32 0) sample_template [0, 0, 0, 0]
     \<lparr>sol_extranonce2_le = [0, 0, 0, 0], sol_ntime = 0, sol_nonce = 0\<rparr> (Fin (1 / 2)) = Inr v"
proof -
  let ?s = "\<lparr>sol_extranonce2_le = [0, 0, 0, 0], sol_ntime = 0, sol_nonce = 0\<rparr>"
  have d: "digest32 (\<lambda>_. replicate 32 0)" by (simp add: digest32_def)
  have "\<exists>v. verify_share_with_difficulty (\<lambda>_. replicate 32 0) sample_template [0, 0, 0, 0] ?s (Fin 1) = Inr v"
    using sample_template_verifies by blast
  then show ?thesis
    using verify_share_monotone [OF d sample_template_wf, of "1 / 2" 1] by fastforce
qed

text \<open>
  The previous hash and the fixed-width fields come off the wire as they were put on it:
  hex text of a reversed 32-byte hash decodes to that hash, hex text of four bytes to those bytes,
  and in both cases only text of exactly that length is accepted, upper and lower case alike.
\<close>
theorem wire_hash_roundtrip:
  assumes "hex_decoder hexd"
  shows "(length h = 32 \<longrightarrow> decode_prev_hash_from_stratum hexd (hex_encode (rev h)) = Inr h)
    \<and> (length e = 4 \<longrightarrow> parse_le_u32_hex_bytes hexd field (hex_encode e) = Inr e)
    \<and> (decode_prev_hash_from_stratum hexd s = Inr h \<longrightarrow> length s = 64 \<and> length h = 32)
    \<and> (parse_le_u32_hex_bytes hexd field s = Inr e \<longrightarrow> length s = 8 \<and> length e = 4)
    \<and> decode_prev_hash_from_stratum hexd (to_ascii_lowercase s) = decode_prev_hash_from_stratum hexd s
    \<and> parse_le_u32_hex_bytes hexd field (to_ascii_lowercase s) = parse_le_u32_hex_bytes hexd field s"
proof -
  show ?thesis
    using hex_decoder.decode_length [OF assms, of s]
    by (auto simp: decode_prev_hash_from_stratum_def decode_hash32_hex_def hash32_from_slice_def
        parse_le_u32_hex_bytes_def hex_decoder.decode_lowercase [OF assms]
        hex_decoder.decode_unique [OF assms, of "hex_encode _"]
        split: option.splits if_splits)
qed

theorem wire_hash_roundtrip_witness:
  "parse_le_u32_hex_bytes hex_decode ''x'' (hex_encode [1, 2, 3, 4]) = Inr [1, 2, 3, 4]"
  using wire_hash_roundtrip [OF hexd.hex_decoder_axioms, of "replicate 32 0" "[1, 2, 3, 4]" "''x''" "[]"]
  by simp

end
