(* ===== verification/Csd_Permits.thy ===== *)
theory Csd_Permits
  imports Csd_Prelude
begin

text \<open>
  The interface of a counter that hands out permits: a permit is taken with \<open>try_open\<close>, given back
  when it is dropped, and everything else the owner of the counter does leaves the counts alone.
  Its clients keep a multiset of the permits they hold. Over any run the count of a key is the
  number of permits held for it and never passes the limit. The connection limit and the session
  limit of the abuse manager and the connection count of the shared state are its instances.
\<close>

datatype ('k, 'e) permit_event =
    TryOpen 'e 'k
  | DropPermit 'k
  | Other 'e

text \<open>One event on the counter and on the permits held; only a held permit can be dropped.\<close>

fun permit_step ::
  "('e \<Rightarrow> 'k \<Rightarrow> 's \<Rightarrow> 's \<times> bool) \<Rightarrow> ('k \<Rightarrow> 's \<Rightarrow> 's) \<Rightarrow> ('e \<Rightarrow> 's \<Rightarrow> 's)
    \<Rightarrow> 's \<times> 'k multiset \<Rightarrow> ('k, 'e) permit_event \<Rightarrow> 's \<times> 'k multiset" where
  "permit_step try_open close_permit other (s, held) (TryOpen e k) =
     (case try_open e k s of (s', ok) \<Rightarrow> (s', if ok then add_mset k held else held))"
| "permit_step try_open close_permit other (s, held) (DropPermit k) =
     (if k \<in># held then (close_permit k s, held - {#k#}) else (s, held))"
| "permit_step try_open close_permit other (s, held) (Other e) = (other e s, held)"

definition permit_run ::
  "('e \<Rightarrow> 'k \<Rightarrow> 's \<Rightarrow> 's \<times> bool) \<Rightarrow> ('k \<Rightarrow> 's \<Rightarrow> 's) \<Rightarrow> ('e \<Rightarrow> 's \<Rightarrow> 's)
    \<Rightarrow> ('k, 'e) permit_event list \<Rightarrow> 's \<Rightarrow> 's \<times> 'k multiset" where
  "permit_run try_open close_permit other events s =
     foldl (permit_step try_open close_permit other) (s, {#}) events"

locale permit_counter =
  fixes active :: "'s \<Rightarrow> 'k \<Rightarrow> nat"
    and try_open :: "'e \<Rightarrow> 'k \<Rightarrow> 's \<Rightarrow> 's \<times> bool"
    and close_permit :: "'k \<Rightarrow> 's \<Rightarrow> 's"
    and other :: "'e \<Rightarrow> 's \<Rightarrow> 's"
    and limit :: "'k \<Rightarrow> nat"
  assumes open_granted: "try_open e k s = (s', True) \<Longrightarrow>
      active s k < limit k \<and> active s' k' = (if k' = k then Suc (active s k) else active s k')"
    and open_refused: "try_open e k s = (s', False) \<Longrightarrow> active s' k' = active s k'"
    and close_count: "active (close_permit k s) k' = (if k' = k then active s k - 1 else active s k')"
    and other_count: "active (other e s) k = active s k"
begin

definition consistent :: "'s \<times> 'k multiset \<Rightarrow> bool" where
  "consistent p \<longleftrightarrow> (\<forall>k. active (fst p) k = count (snd p) k \<and> count (snd p) k \<le> limit k)"

lemma step_consistent:
  "consistent p \<Longrightarrow> consistent (permit_step try_open close_permit other p ev)"
proof -
  assume inv: "consistent p"
  obtain s held where p: "p = (s, held)" by (cases p)
  show ?thesis
  proof (cases ev)
    case (TryOpen e k)
    obtain s' ok where o: "try_open e k s = (s', ok)" by fastforce
    show ?thesis
    proof (cases ok)
      case True
      with o have "try_open e k s = (s', True)" by simp
      from open_granted [OF this] inv o True show ?thesis
        by (auto simp: consistent_def p TryOpen Suc_leI)
    next
      case False
      with o have "try_open e k s = (s', False)" by simp
      from open_refused [OF this] inv o False show ?thesis
        by (auto simp: consistent_def p TryOpen)
    qed
  next
    case (DropPermit k)
    with inv show ?thesis
      by (auto simp: consistent_def p close_count intro: le_trans [OF diff_le_self])
  next
    case (Other e)
    with inv show ?thesis by (simp add: consistent_def p other_count)
  qed
qed

lemma run_consistent:
  assumes "\<And>k. active s k = 0"
  shows "consistent (permit_run try_open close_permit other events s)"
proof -
  have "consistent p \<Longrightarrow> consistent (foldl (permit_step try_open close_permit other) p events)" for p
    by (induction events arbitrary: p) (simp_all add: step_consistent)
  moreover have "consistent (s, {#})" using assms by (simp add: consistent_def)
  ultimately show ?thesis by (simp add: permit_run_def)
qed

lemma run_bounded:
  assumes "\<And>k. active s k = 0" and "permit_run try_open close_permit other events s = (s', held)"
  shows "active s' k = count held k \<and> active s' k \<le> limit k"
  using run_consistent [OF assms(1), of events] assms(2) by (simp add: consistent_def)

text \<open>When every permit has been given back, every count is zero again.\<close>

lemma run_drained:
  assumes "\<And>k. active s k = 0" and "permit_run try_open close_permit other events s = (s', {#})"
  shows "active s' k = 0"
  using run_bounded [OF assms] by simp

end

end
