(* ===== verification/Csd_Abuse.thy ===== *)
theory Csd_Abuse
  imports Csd_Permits
begin

text \<open>
  Crate \<open>csd-pool-bridge\<close>: \<open>AbuseManager\<close>. The connections of an IP address and the sessions of
  an account are permits (the interface of theory \<open>Csd_Permits\<close>); the offences of an IP address
  are counted, and a full counter bans the address for a while. An \<open>Instant\<close> is a number of
  nanoseconds; the two hash maps under their mutexes are maps, and every method holds its mutex
  from its first to its last step, so a method is one step.
\<close>

section \<open>Data\<close>

type_synonym instant = nat
type_synonym ip_addr = string

definition secs :: "u64 \<Rightarrow> nat" where
  "secs n = unat n * 10 ^ 9"

record abuse_config =
  ac_max_connections_per_ip :: u32
  ac_max_sessions_per_address :: u32
  ac_malformed_frame_limit :: u32
  ac_auth_failure_limit :: u32
  ac_invalid_share_limit :: u32
  ac_ban_secs :: u64

datatype abuse_reject = Banned | TooManyConnections | TooManyAddressSessions

datatype offense_kind = MalformedFrame | AuthFailure | InvalidShare

record ip_abuse_state =
  ia_active_connections :: u32
  ia_malformed_frames :: u32
  ia_auth_failures :: u32
  ia_invalid_shares :: u32
  ia_banned_until :: "instant option"

record abuse_manager =
  am_state :: "ip_addr \<rightharpoonup> ip_abuse_state"
  am_address_sessions :: "string \<rightharpoonup> u32"

definition ip_abuse_default :: ip_abuse_state where
  "ip_abuse_default = \<lparr>ia_active_connections = 0, ia_malformed_frames = 0, ia_auth_failures = 0,
     ia_invalid_shares = 0, ia_banned_until = None\<rparr>"

definition abuse_new :: abuse_manager where
  "abuse_new = \<lparr>am_state = Map.empty, am_address_sessions = Map.empty\<rparr>"

section \<open>Operations\<close>

definition ip_is_banned :: "instant \<Rightarrow> ip_abuse_state \<Rightarrow> bool" where
  "ip_is_banned now entry =
     (case ia_banned_until entry of None \<Rightarrow> False | Some banned_until \<Rightarrow> now < banned_until)"

definition expire_ban_if_needed :: "instant \<Rightarrow> ip_abuse_state \<Rightarrow> ip_abuse_state" where
  "expire_ban_if_needed now entry =
     (if (case ia_banned_until entry of None \<Rightarrow> False | Some banned_until \<Rightarrow> banned_until \<le> now)
      then entry\<lparr>ia_malformed_frames := 0, ia_auth_failures := 0, ia_invalid_shares := 0,
                 ia_banned_until := None\<rparr>
      else entry)"

definition ip_entry :: "abuse_manager \<Rightarrow> ip_addr \<Rightarrow> ip_abuse_state" where
  "ip_entry m ip = (case am_state m ip of None \<Rightarrow> ip_abuse_default | Some entry \<Rightarrow> entry)"

definition set_ip_entry :: "ip_addr \<Rightarrow> ip_abuse_state \<Rightarrow> abuse_manager \<Rightarrow> abuse_manager" where
  "set_ip_entry ip entry m = m\<lparr>am_state := (am_state m)(ip \<mapsto> entry)\<rparr>"

text \<open>The two calls of \<open>Instant::now()\<close> in \<open>try_open\<close> and \<open>is_banned\<close> are two arguments.\<close>

definition try_open ::
  "abuse_config \<Rightarrow> instant \<Rightarrow> instant \<Rightarrow> ip_addr \<Rightarrow> abuse_manager
    \<Rightarrow> abuse_manager \<times> (abuse_reject + unit)" where
  "try_open cfg now1 now2 ip m =
     (let entry = expire_ban_if_needed now1 (ip_entry m ip) in
      if ip_is_banned now2 entry then (set_ip_entry ip entry m, Inl Banned)
      else if ac_max_connections_per_ip cfg \<le> ia_active_connections entry
      then (set_ip_entry ip entry m, Inl TooManyConnections)
      else (set_ip_entry ip
              (entry\<lparr>ia_active_connections := ia_active_connections entry + 1\<rparr>) m, Inr ()))"

definition try_open_address_session ::
  "abuse_config \<Rightarrow> string \<Rightarrow> abuse_manager \<Rightarrow> abuse_manager \<times> (abuse_reject + unit)" where
  "try_open_address_session cfg address m =
     (let active = (case am_address_sessions m address of None \<Rightarrow> 0 | Some n \<Rightarrow> n) in
      if ac_max_sessions_per_address cfg \<le> active
      then (m\<lparr>am_address_sessions := (am_address_sessions m)(address \<mapsto> active)\<rparr>,
            Inl TooManyAddressSessions)
      else (m\<lparr>am_address_sessions := (am_address_sessions m)(address \<mapsto> active + 1)\<rparr>, Inr ()))"

definition is_banned :: "instant \<Rightarrow> instant \<Rightarrow> ip_addr \<Rightarrow> abuse_manager \<Rightarrow> abuse_manager \<times> bool" where
  "is_banned now1 now2 ip m =
     (let entry = expire_ban_if_needed now1 (ip_entry m ip)
      in (set_ip_entry ip entry m, ip_is_banned now2 entry))"

definition close_connection :: "ip_addr \<Rightarrow> abuse_manager \<Rightarrow> abuse_manager" where
  "close_connection ip m =
     (case am_state m ip of
        None \<Rightarrow> m
      | Some entry \<Rightarrow> set_ip_entry ip
          (entry\<lparr>ia_active_connections := sat_sub (ia_active_connections entry) 1\<rparr>) m)"

definition close_address_session :: "string \<Rightarrow> abuse_manager \<Rightarrow> abuse_manager" where
  "close_address_session address m =
     (case am_address_sessions m address of
        None \<Rightarrow> m
      | Some n \<Rightarrow>
          let active = sat_sub n 1 in
          if active = 0 then m\<lparr>am_address_sessions := (am_address_sessions m)(address := None)\<rparr>
          else m\<lparr>am_address_sessions := (am_address_sessions m)(address \<mapsto> active)\<rparr>)"

fun count_offense :: "offense_kind \<Rightarrow> ip_abuse_state \<Rightarrow> ip_abuse_state" where
  "count_offense MalformedFrame entry = entry\<lparr>ia_malformed_frames := ia_malformed_frames entry + 1\<rparr>"
| "count_offense AuthFailure entry = entry\<lparr>ia_auth_failures := ia_auth_failures entry + 1\<rparr>"
| "count_offense InvalidShare entry = entry\<lparr>ia_invalid_shares := ia_invalid_shares entry + 1\<rparr>"

definition should_ban :: "abuse_config \<Rightarrow> ip_abuse_state \<Rightarrow> bool" where
  "should_ban cfg entry =
     (ac_malformed_frame_limit cfg \<le> ia_malformed_frames entry
      \<or> ac_auth_failure_limit cfg \<le> ia_auth_failures entry
      \<or> ac_invalid_share_limit cfg \<le> ia_invalid_shares entry)"

definition record_offense ::
  "abuse_config \<Rightarrow> instant \<Rightarrow> ip_addr \<Rightarrow> offense_kind \<Rightarrow> abuse_manager \<Rightarrow> abuse_manager \<times> bool" where
  "record_offense cfg now ip kind m =
     (let entry = count_offense kind (expire_ban_if_needed now (ip_entry m ip));
          ban = should_ban cfg entry;
          entry = (if ban then entry\<lparr>ia_banned_until := Some (now + secs (ac_ban_secs cfg))\<rparr> else entry)
      in (set_ip_entry ip entry m, ban))"

section \<open>The permits\<close>

text \<open>The calls that take or keep no permit, as one step each.\<close>

datatype abuse_event =
    Times instant instant
  | Offense instant ip_addr offense_kind
  | AskBanned instant instant ip_addr
  | OpenConnection instant instant ip_addr
  | CloseConnection ip_addr
  | OpenSession string
  | CloseSession string

text \<open>What the rest of the program does to the manager, seen from the sessions and from the IPs.\<close>

fun ip_other :: "abuse_config \<Rightarrow> abuse_event \<Rightarrow> abuse_manager \<Rightarrow> abuse_manager" where
  "ip_other cfg (Offense now ip kind) m = fst (record_offense cfg now ip kind m)"
| "ip_other cfg (AskBanned now1 now2 ip) m = fst (is_banned now1 now2 ip m)"
| "ip_other cfg (OpenSession address) m = fst (try_open_address_session cfg address m)"
| "ip_other cfg (CloseSession address) m = close_address_session address m"
| "ip_other cfg _ m = m"

fun session_other :: "abuse_config \<Rightarrow> abuse_event \<Rightarrow> abuse_manager \<Rightarrow> abuse_manager" where
  "session_other cfg (Offense now ip kind) m = fst (record_offense cfg now ip kind m)"
| "session_other cfg (AskBanned now1 now2 ip) m = fst (is_banned now1 now2 ip m)"
| "session_other cfg (OpenConnection now1 now2 ip) m = fst (try_open cfg now1 now2 ip m)"
| "session_other cfg (CloseConnection ip) m = close_connection ip m"
| "session_other cfg _ m = m"

fun ip_try_open :: "abuse_config \<Rightarrow> abuse_event \<Rightarrow> ip_addr \<Rightarrow> abuse_manager \<Rightarrow> abuse_manager \<times> bool" where
  "ip_try_open cfg (Times now1 now2) ip m =
     (case try_open cfg now1 now2 ip m of (m', r) \<Rightarrow> (m', r = Inr ()))"
| "ip_try_open cfg _ ip m = (m, False)"

definition session_try_open ::
  "abuse_config \<Rightarrow> abuse_event \<Rightarrow> string \<Rightarrow> abuse_manager \<Rightarrow> abuse_manager \<times> bool" where
  "session_try_open cfg e address m =
     (case try_open_address_session cfg address m of (m', r) \<Rightarrow> (m', r = Inr ()))"

definition active_connections :: "abuse_manager \<Rightarrow> ip_addr \<Rightarrow> nat" where
  "active_connections m ip = unat (ia_active_connections (ip_entry m ip))"

definition active_sessions :: "abuse_manager \<Rightarrow> string \<Rightarrow> nat" where
  "active_sessions m address =
     (case am_address_sessions m address of None \<Rightarrow> 0 | Some n \<Rightarrow> unat n)"

lemma ip_entry_set [simp]:
  "ip_entry (set_ip_entry ip entry m) ip' = (if ip' = ip then entry else ip_entry m ip')"
  by (simp add: ip_entry_def set_ip_entry_def)

lemma sessions_set_ip_entry [simp]:
  "am_address_sessions (set_ip_entry ip entry m) = am_address_sessions m"
  by (simp add: set_ip_entry_def)

lemma expire_keeps_connections [simp]:
  "ia_active_connections (expire_ban_if_needed now entry) = ia_active_connections entry"
  by (simp add: expire_ban_if_needed_def)

lemma count_offense_keeps_connections [simp]:
  "ia_active_connections (count_offense kind entry) = ia_active_connections entry"
  by (cases kind) simp_all

lemma unat_plus_one_below: "(a :: u32) < b \<Longrightarrow> unat (a + 1) = Suc (unat a)"
  using unat_plus_eq [of a 1] unsigned_less [of b, where 'a = nat]
  by (simp add: word_less_nat_alt)

lemma ip_entry_sessions [simp]: "ip_entry (m\<lparr>am_address_sessions := f\<rparr>) ip = ip_entry m ip"
  by (simp add: ip_entry_def)

lemma ip_entry_session_ops [simp]:
  "ip_entry (fst (try_open_address_session cfg address m)) ip = ip_entry m ip"
  "ip_entry (close_address_session address m) ip = ip_entry m ip"
  by (simp_all add: try_open_address_session_def close_address_session_def Let_def split: option.splits)

lemma sessions_ip_ops [simp]:
  "am_address_sessions (fst (record_offense cfg now ip kind m)) = am_address_sessions m"
  "am_address_sessions (fst (is_banned now1 now2 ip m)) = am_address_sessions m"
  "am_address_sessions (fst (try_open cfg now1 now2 ip m)) = am_address_sessions m"
  "am_address_sessions (close_connection ip m) = am_address_sessions m"
  by (simp_all add: record_offense_def is_banned_def try_open_def close_connection_def Let_def
      split: option.splits)

lemma ip_other_connections: "active_connections (ip_other cfg e m) ip = active_connections m ip"
  by (induction cfg e m rule: ip_other.induct)
    (simp_all add: active_connections_def record_offense_def is_banned_def Let_def)

interpretation ip_permits: permit_counter active_connections "ip_try_open cfg" close_connection
  "ip_other cfg" "\<lambda>_. unat (ac_max_connections_per_ip cfg)" for cfg
proof unfold_locales
  fix e k s s' k'
  assume "ip_try_open cfg e k s = (s', True)"
  then show "active_connections s k < unat (ac_max_connections_per_ip cfg)
      \<and> active_connections s' k' = (if k' = k then Suc (active_connections s k) else active_connections s k')"
    by (cases e) (auto simp: try_open_def Let_def active_connections_def not_le word_less_nat_alt
        unat_plus_one_below split: if_splits)
next
  fix e k s s' k'
  assume "ip_try_open cfg e k s = (s', False)"
  then show "active_connections s' k' = active_connections s k'"
    by (cases e) (auto simp: try_open_def Let_def active_connections_def split: if_splits)
next
  fix k s k'
  show "active_connections (close_connection k s) k' =
      (if k' = k then active_connections s k - 1 else active_connections s k')"
    by (auto simp: active_connections_def close_connection_def unat_sat_sub ip_entry_def
        set_ip_entry_def ip_abuse_default_def split: option.splits)
qed (rule ip_other_connections)

interpretation session_permits: permit_counter active_sessions "session_try_open cfg"
  close_address_session "session_other cfg" "\<lambda>_. unat (ac_max_sessions_per_address cfg)" for cfg
proof unfold_locales
  fix e k s s' k'
  assume "session_try_open cfg e k s = (s', True)"
  then show "active_sessions s k < unat (ac_max_sessions_per_address cfg)
      \<and> active_sessions s' k' = (if k' = k then Suc (active_sessions s k) else active_sessions s k')"
    by (auto simp: session_try_open_def try_open_address_session_def Let_def active_sessions_def
        not_le word_less_nat_alt unat_plus_one_below split: if_splits option.splits)
next
  fix e k s s' k'
  assume "session_try_open cfg e k s = (s', False)"
  then show "active_sessions s' k' = active_sessions s k'"
    by (auto simp: session_try_open_def try_open_address_session_def Let_def active_sessions_def
        split: if_splits option.splits)
next
  fix k s k'
  show "active_sessions (close_address_session k s) k' =
      (if k' = k then active_sessions s k - 1 else active_sessions s k')"
    by (auto simp: active_sessions_def close_address_session_def Let_def unat_sat_sub
        simp flip: unat_eq_zero split: option.splits)
next
  fix e s k
  show "active_sessions (session_other cfg e s) k = active_sessions s k"
    by (cases e) (simp_all add: active_sessions_def)
qed

text \<open>
  C29. However connections and sessions are opened, refused and dropped, and whatever offences and
  ban checks come in between, the counter of an IP address is the number of connections it holds
  and at most \<open>max_connections_per_ip\<close>, and the counter of an account is the number of sessions it
  holds and at most \<open>max_sessions_per_address\<close>.
\<close>
theorem abuse_permits_bounded:
  assumes "permit_run (ip_try_open cfg) close_connection (ip_other cfg) events abuse_new = (m, ips)"
    and "permit_run (session_try_open cfg) close_address_session (session_other cfg) events' abuse_new
      = (m', addresses)"
  shows "active_connections m ip = count ips ip
    \<and> active_connections m ip \<le> unat (ac_max_connections_per_ip cfg)
    \<and> active_sessions m' address = count addresses address
    \<and> active_sessions m' address \<le> unat (ac_max_sessions_per_address cfg)"
proof -
  have "active_connections abuse_new k = 0" "active_sessions abuse_new k = 0" for k
    by (simp_all add: active_connections_def active_sessions_def ip_entry_def abuse_new_def
        ip_abuse_default_def)
  then show ?thesis
    using ip_permits.run_bounded [OF _ assms(1), of ip]
      session_permits.run_bounded [OF _ assms(2), of address] by simp
qed

theorem abuse_permits_bounded_witness:
  "active_connections (fst (permit_run (ip_try_open
      \<lparr>ac_max_connections_per_ip = 1, ac_max_sessions_per_address = 1, ac_malformed_frame_limit = 3,
       ac_auth_failure_limit = 3, ac_invalid_share_limit = 3, ac_ban_secs = 60\<rparr>)
     close_connection (ip_other
      \<lparr>ac_max_connections_per_ip = 1, ac_max_sessions_per_address = 1, ac_malformed_frame_limit = 3,
       ac_auth_failure_limit = 3, ac_invalid_share_limit = 3, ac_ban_secs = 60\<rparr>)
     [TryOpen (Times 0 0) ''x'', TryOpen (Times 1 1) ''x''] abuse_new)) ''x'' \<le> 1"
proof -
  let ?cfg = "\<lparr>ac_max_connections_per_ip = 1, ac_max_sessions_per_address = 1,
     ac_malformed_frame_limit = 3, ac_auth_failure_limit = 3, ac_invalid_share_limit = 3,
     ac_ban_secs = 60\<rparr>"
  let ?r = "permit_run (ip_try_open ?cfg) close_connection (ip_other ?cfg)
     [TryOpen (Times 0 0) ''x'', TryOpen (Times 1 1) ''x''] abuse_new"
  obtain m ips where r: "?r = (m, ips)" by fastforce
  obtain m' ads where r': "permit_run (session_try_open ?cfg) close_address_session
     (session_other ?cfg) [] abuse_new = (m', ads)" by fastforce
  from abuse_permits_bounded [OF r r', of "''x''" "''x''"]
  have "active_connections m ''x'' \<le> 1" by simp
  then show ?thesis unfolding r by simp
qed

section \<open>Bans\<close>

fun abuse_step :: "abuse_config \<Rightarrow> abuse_event \<Rightarrow> abuse_manager \<Rightarrow> abuse_manager" where
  "abuse_step cfg (Times _ _) m = m"
| "abuse_step cfg (Offense now ip kind) m = fst (record_offense cfg now ip kind m)"
| "abuse_step cfg (AskBanned now1 now2 ip) m = fst (is_banned now1 now2 ip m)"
| "abuse_step cfg (OpenConnection now1 now2 ip) m = fst (try_open cfg now1 now2 ip m)"
| "abuse_step cfg (CloseConnection ip) m = close_connection ip m"
| "abuse_step cfg (OpenSession address) m = fst (try_open_address_session cfg address m)"
| "abuse_step cfg (CloseSession address) m = close_address_session address m"

fun event_within :: "instant \<Rightarrow> instant \<Rightarrow> abuse_event \<Rightarrow> bool" where
  "event_within a b (Offense now ip kind) = (a \<le> now \<and> now < b)"
| "event_within a b (AskBanned now1 now2 ip) = (a \<le> now1 \<and> now1 \<le> now2 \<and> now2 < b)"
| "event_within a b (OpenConnection now1 now2 ip) = (a \<le> now1 \<and> now1 \<le> now2 \<and> now2 < b)"
| "event_within a b _ = True"

definition banned_to :: "instant \<Rightarrow> ip_addr \<Rightarrow> abuse_manager \<Rightarrow> bool" where
  "banned_to b ip m \<longleftrightarrow> (\<exists>b'. ia_banned_until (ip_entry m ip) = Some b' \<and> b \<le> b')"

lemma count_offense_keeps_ban [simp]:
  "ia_banned_until (count_offense kind entry) = ia_banned_until entry"
  by (cases kind) simp_all

lemma close_connection_keeps_ban [simp]:
  "ia_banned_until (ip_entry (close_connection k m) ip) = ia_banned_until (ip_entry m ip)"
  by (auto simp: close_connection_def ip_entry_def set_ip_entry_def split: option.splits)

lemma banned_to_step:
  assumes "banned_to b ip m" and "event_within now b e" and "b = now + secs (ac_ban_secs cfg)"
  shows "banned_to b ip (abuse_step cfg e m)"
  using assms
  by (cases e) (auto simp: banned_to_def record_offense_def is_banned_def try_open_def Let_def
      expire_ban_if_needed_def)

lemma banned_to_run:
  assumes "banned_to b ip m" and "list_all (event_within now b) es" and "b = now + secs (ac_ban_secs cfg)"
  shows "banned_to b ip (foldl (\<lambda>m e. abuse_step cfg e m) m es)"
  using assms(1,2) banned_to_step [OF _ _ assms(3)] by (induction es arbitrary: m) auto

lemma banned_to_refuses:
  assumes "banned_to b ip m" and "now1 < b" and "now2 < b"
  shows "snd (try_open cfg now1 now2 ip m) = Inl Banned \<and> snd (is_banned now1 now2 ip m)"
  using assms
  by (auto simp: banned_to_def try_open_def is_banned_def Let_def expire_ban_if_needed_def
      ip_is_banned_def)

text \<open>
  A ban is enforced: after an offence that answers that the address is banned, and whatever
  the program does with the manager until \<open>ban_secs\<close> have passed, no connection of that address is
  accepted and \<open>is_banned\<close> says so; at the end of the ban (with nothing done in between) the
  address is free again and its offence counters start from zero.
\<close>
theorem ban_enforced:
  assumes "record_offense cfg now ip kind m = (m', True)"
    and "b = now + secs (ac_ban_secs cfg)"
    and "list_all (event_within now b) es" and "t1 < b" and "t2 < b" and "b \<le> t"
  shows "snd (try_open cfg t1 t2 ip (foldl (\<lambda>m e. abuse_step cfg e m) m' es)) = Inl Banned
    \<and> snd (is_banned t1 t2 ip (foldl (\<lambda>m e. abuse_step cfg e m) m' es))
    \<and> \<not> snd (is_banned t t ip m')
    \<and> (ia_malformed_frames (ip_entry (fst (is_banned t t ip m')) ip) = 0
       \<and> ia_auth_failures (ip_entry (fst (is_banned t t ip m')) ip) = 0
       \<and> ia_invalid_shares (ip_entry (fst (is_banned t t ip m')) ip) = 0)"
proof -
  have u: "ia_banned_until (ip_entry m' ip) = Some b"
    using assms(1,2) by (auto simp: record_offense_def Let_def)
  then have "banned_to b ip m'" by (simp add: banned_to_def)
  from banned_to_refuses [OF banned_to_run [OF this assms(3,2)] assms(4,5)] u assms(6)
  show ?thesis
    by (simp add: is_banned_def Let_def expire_ban_if_needed_def ip_is_banned_def)
qed

definition sample_abuse_config :: abuse_config where
  "sample_abuse_config = \<lparr>ac_max_connections_per_ip = 1, ac_max_sessions_per_address = 1,
     ac_malformed_frame_limit = 2, ac_auth_failure_limit = 2, ac_invalid_share_limit = 2,
     ac_ban_secs = 60\<rparr>"

theorem ban_enforced_witness:
  "snd (try_open sample_abuse_config 5 5 ''x''
     (fst (record_offense sample_abuse_config 1 ''x'' AuthFailure
       (fst (record_offense sample_abuse_config 0 ''x'' AuthFailure abuse_new))))) = Inl Banned"
proof -
  let ?m = "fst (record_offense sample_abuse_config 0 ''x'' AuthFailure abuse_new)"
  have "snd (record_offense sample_abuse_config 1 ''x'' AuthFailure ?m)"
    by (simp add: record_offense_def sample_abuse_config_def abuse_new_def should_ban_def Let_def
        expire_ban_if_needed_def ip_entry_def set_ip_entry_def ip_abuse_default_def)
  then have "record_offense sample_abuse_config 1 ''x'' AuthFailure ?m =
      (fst (record_offense sample_abuse_config 1 ''x'' AuthFailure ?m), True)"
    by (metis prod.collapse)
  from ban_enforced [OF this, of _ "[]" 5 5 "60 * 10 ^ 9 + 1"] show ?thesis
    by (simp add: secs_def sample_abuse_config_def)
qed

text \<open>The offences of one kind, one after the other, and the answers.\<close>

fun offend ::
  "abuse_config \<Rightarrow> ip_addr \<Rightarrow> offense_kind \<Rightarrow> instant list \<Rightarrow> abuse_manager \<Rightarrow> bool list" where
  "offend cfg ip kind [] m = []"
| "offend cfg ip kind (now # nows) m =
     (case record_offense cfg now ip kind m of (m', ban) \<Rightarrow> ban # offend cfg ip kind nows m')"

fun offense_limit :: "abuse_config \<Rightarrow> offense_kind \<Rightarrow> u32" where
  "offense_limit cfg MalformedFrame = ac_malformed_frame_limit cfg"
| "offense_limit cfg AuthFailure = ac_auth_failure_limit cfg"
| "offense_limit cfg InvalidShare = ac_invalid_share_limit cfg"

fun offense_count :: "offense_kind \<Rightarrow> ip_abuse_state \<Rightarrow> u32" where
  "offense_count MalformedFrame entry = ia_malformed_frames entry"
| "offense_count AuthFailure entry = ia_auth_failures entry"
| "offense_count InvalidShare entry = ia_invalid_shares entry"

lemma offense_count_count [simp]:
  "offense_count k (count_offense kind entry) =
     (if k = kind then offense_count k entry + 1 else offense_count k entry)"
  by (cases k; cases kind) simp_all

lemma should_ban_iff: "should_ban cfg entry \<longleftrightarrow> (\<exists>k. offense_limit cfg k \<le> offense_count k entry)"
proof
  assume "should_ban cfg entry"
  then show "\<exists>k. offense_limit cfg k \<le> offense_count k entry"
    unfolding should_ban_def by (metis offense_limit.simps offense_count.simps)
next
  assume "\<exists>k. offense_limit cfg k \<le> offense_count k entry"
  then obtain k where "offense_limit cfg k \<le> offense_count k entry" ..
  then show "should_ban cfg entry" unfolding should_ban_def by (cases k) auto
qed

lemma offend_answers:
  assumes "ia_banned_until (ip_entry m ip) = None"
    and "offense_count kind (ip_entry m ip) = of_nat c"
    and "\<And>k. k \<noteq> kind \<Longrightarrow> offense_count k (ip_entry m ip) < offense_limit cfg k"
    and "c + length nows \<le> unat (offense_limit cfg kind)"
  shows "offend cfg ip kind nows m =
    map (\<lambda>i. unat (offense_limit cfg kind) \<le> c + Suc i) [0..<length nows]"
  using assms
proof (induction nows arbitrary: m c)
  case Nil
  then show ?case by simp
next
  case (Cons now nows)
  let ?L = "offense_limit cfg kind"
  let ?e = "count_offense kind (ip_entry m ip)"
  have exp: "expire_ban_if_needed now (ip_entry m ip) = ip_entry m ip"
    using Cons.prems(1) by (simp add: expire_ban_if_needed_def)
  have cnt: "offense_count kind ?e = of_nat (Suc c)" using Cons.prems(2) by simp
  have small: "Suc c < 2 ^ 32"
    using Cons.prems(4) unsigned_less [of ?L, where 'a = nat] by simp
  then have un: "unat (of_nat (Suc c) :: u32) = Suc c"
    by (subst unsigned_of_nat) (simp add: take_bit_nat_eq_self)
  have ban: "should_ban cfg ?e \<longleftrightarrow> unat ?L \<le> Suc c"
  proof -
    have "should_ban cfg ?e \<longleftrightarrow> ?L \<le> offense_count kind ?e"
      using Cons.prems(3) by (auto simp: should_ban_iff not_le [symmetric])
    then show ?thesis unfolding cnt by (simp only: word_le_nat_alt un)
  qed
  show ?case
  proof (cases "nows = []")
    case True
    then show ?thesis by (simp add: record_offense_def Let_def exp ban)
  next
    case False
    then have "\<not> unat ?L \<le> Suc c" using Cons.prems(4) by (cases nows) auto
    with ban have nb: "\<not> should_ban cfg ?e" by simp
    then have m': "record_offense cfg now ip kind m = (set_ip_entry ip ?e m, False)"
      by (simp add: record_offense_def Let_def exp)
    have "offend cfg ip kind nows (set_ip_entry ip ?e m) =
        map (\<lambda>i. unat ?L \<le> Suc c + Suc i) [0..<length nows]"
      using Cons.prems cnt by (intro Cons.IH) auto
    then show ?thesis
      using \<open>\<not> unat ?L \<le> Suc c\<close> by (simp add: m' upt_conv_Cons map_Suc_upt [symmetric] del: upt_Suc)
  qed
qed

text \<open>
  The threshold is exact: of the offences of one kind by an address with a clean record, the
  one that reaches the configured limit answers with a ban, and none before it does.
\<close>
theorem ban_threshold:
  assumes "am_state m ip = None"
    and "\<And>k. 0 < offense_limit cfg k"
    and "length nows \<le> unat (offense_limit cfg kind)"
  shows "offend cfg ip kind nows m =
    map (\<lambda>i. Suc i = unat (offense_limit cfg kind)) [0..<length nows]"
proof -
  have z: "offense_count k (ip_entry m ip) = 0" for k
    using assms(1) by (cases k) (simp_all add: ip_entry_def ip_abuse_default_def)
  have "ia_banned_until (ip_entry m ip) = None"
    using assms(1) by (simp add: ip_entry_def ip_abuse_default_def)
  then have "offend cfg ip kind nows m =
      map (\<lambda>i. unat (offense_limit cfg kind) \<le> 0 + Suc i) [0..<length nows]"
    using assms z by (intro offend_answers) auto
  then show ?thesis using assms(3) by auto
qed

theorem ban_threshold_witness:
  "offend sample_abuse_config ''x'' InvalidShare [4, 9] abuse_new = [False, True]"
proof -
  have "0 < offense_limit sample_abuse_config k" for k
    by (cases k) (simp_all add: sample_abuse_config_def)
  then show ?thesis
    using ban_threshold [of abuse_new "''x''" sample_abuse_config "[4, 9]" InvalidShare]
    by (simp add: abuse_new_def sample_abuse_config_def upt_conv_Cons)
qed

end
