(* ===== verification/Csd_Vardiff.thy ===== *)
theory Csd_Vardiff
  imports Csd_F64 Csd_Abuse "HOL-Library.Monad_Syntax"
begin

text \<open>
  Crate \<open>csd-pool-bridge\<close>: variable difficulty. \<open>VardiffConfig::normalized\<close> and the operations of
  \<open>VardiffState\<close>, with the binary64 arithmetic of theory \<open>Csd_F64\<close>. \<open>f64::clamp\<close> panics when its
  bounds are out of order, so an operation that clamps answers an option, None being the panic;
  the properties show that it never happens. Decimal literals are rounded by \<open>lit\<close>.
\<close>

section \<open>Data\<close>

record vardiff_config =
  vc_initial_difficulty :: f64
  vc_min_difficulty :: f64
  vc_max_difficulty :: f64
  vc_target_share_secs :: u64
  vc_ewma_alpha :: f64
  vc_raise_ratio :: f64
  vc_lower_ratio :: f64
  vc_min_adjust_secs :: u64
  vc_max_adjust_factor :: f64
  vc_transition_grace_secs :: u64

record vardiff_state =
  vd_config :: vardiff_config
  vd_current_difficulty :: f64
  vd_previous_difficulty :: "f64 option"
  vd_transition_until :: "instant option"
  vd_last_share_at :: "instant option"
  vd_last_adjust_at :: "instant option"
  vd_ewma_share_secs :: "f64 option"

definition lit :: "rat \<Rightarrow> f64" where
  "lit q = fround q"

text \<open>\<open>Duration::as_secs_f64\<close>.\<close>

definition as_secs_f64 :: "nat \<Rightarrow> f64" where
  "as_secs_f64 d = fadd (f_of_nat (d div 10 ^ 9)) (fdiv (f_of_nat (d mod 10 ^ 9)) (Fin (10 ^ 9)))"

section \<open>Operations\<close>

definition normalized :: "vardiff_config \<Rightarrow> vardiff_config option" where
  "normalized c =
     (let min_d = (if \<not> fis_finite (vc_min_difficulty c) \<or> fle (vc_min_difficulty c) (Fin 0)
                   then Fin 1 else vc_min_difficulty c);
          max_d = (if \<not> fis_finite (vc_max_difficulty c) \<or> flt (vc_max_difficulty c) min_d
                   then min_d else vc_max_difficulty c);
          min_d = fceil min_d;
          max_d = fmax (ffloor max_d) min_d;
          initial = (if \<not> fis_finite (vc_initial_difficulty c) \<or> fle (vc_initial_difficulty c) (Fin 0)
                     then min_d else vc_initial_difficulty c)
      in do {
        initial \<leftarrow> fclamp (fround_int initial) min_d max_d;
        let target = (if vc_target_share_secs c = 0 then 20 else vc_target_share_secs c);
        let alpha = (if \<not> fis_finite (vc_ewma_alpha c)
                        \<or> \<not> (fle (Fin 0) (vc_ewma_alpha c) \<and> fle (vc_ewma_alpha c) (Fin 1))
                     then lit (25 / 100) else vc_ewma_alpha c);
        let alpha = (if feq alpha (Fin 0) then lit (25 / 100) else alpha);
        let raise = (if \<not> fis_finite (vc_raise_ratio c)
                        \<or> \<not> (fle (Fin 0) (vc_raise_ratio c) \<and> flt (vc_raise_ratio c) (Fin 1))
                     then lit (70 / 100) else vc_raise_ratio c);
        let lower = (if \<not> fis_finite (vc_lower_ratio c) \<or> fle (vc_lower_ratio c) (Fin 1)
                     then lit (140 / 100) else vc_lower_ratio c);
        let min_adjust = (if vc_min_adjust_secs c = 0 then 120 else vc_min_adjust_secs c);
        let factor = (if \<not> fis_finite (vc_max_adjust_factor c) \<or> flt (vc_max_adjust_factor c) (Fin 1)
                      then Fin 2 else vc_max_adjust_factor c);
        let grace = (if vc_transition_grace_secs c = 0 then 120 else vc_transition_grace_secs c);
        Some \<lparr>vc_initial_difficulty = initial, vc_min_difficulty = min_d, vc_max_difficulty = max_d,
              vc_target_share_secs = target, vc_ewma_alpha = alpha, vc_raise_ratio = raise,
              vc_lower_ratio = lower, vc_min_adjust_secs = min_adjust,
              vc_max_adjust_factor = factor, vc_transition_grace_secs = grace\<rparr>
      })"

definition quantize_difficulty :: "vardiff_config \<Rightarrow> f64 \<Rightarrow> f64 option" where
  "quantize_difficulty c difficulty =
     fclamp (fround_int difficulty) (vc_min_difficulty c) (vc_max_difficulty c)"

definition relative_difference :: "f64 \<Rightarrow> f64 \<Rightarrow> f64" where
  "relative_difference left right =
     (if feq right (Fin 0) then fabs left else fabs (fdiv (fsub left right) right))"

definition vardiff_new :: "vardiff_config \<Rightarrow> vardiff_state option" where
  "vardiff_new config = do {
     config \<leftarrow> normalized config;
     Some \<lparr>vd_config = config, vd_current_difficulty = vc_initial_difficulty config,
           vd_previous_difficulty = None, vd_transition_until = None, vd_last_share_at = None,
           vd_last_adjust_at = None, vd_ewma_share_secs = None\<rparr>
   }"

definition previous_difficulty_in_grace :: "instant \<Rightarrow> vardiff_state \<Rightarrow> f64 option" where
  "previous_difficulty_in_grace now s =
     (case vd_transition_until s of
        None \<Rightarrow> None
      | Some until \<Rightarrow>
          if now \<le> until then
            (case vd_previous_difficulty s of
               None \<Rightarrow> None
             | Some previous \<Rightarrow>
                 if flt previous (vd_current_difficulty s) then Some previous else None)
          else None)"

definition apply_difficulty :: "f64 \<Rightarrow> instant \<Rightarrow> vardiff_state \<Rightarrow> (vardiff_state \<times> f64 option) option" where
  "apply_difficulty next now s = do {
     next \<leftarrow> quantize_difficulty (vd_config s) next;
     if flt (relative_difference next (vd_current_difficulty s)) (lit (1 / 100)) then Some (s, None)
     else Some
       (s\<lparr>vd_previous_difficulty := Some (vd_current_difficulty s),
          vd_current_difficulty := next,
          vd_transition_until := Some (now + secs (vc_transition_grace_secs (vd_config s))),
          vd_last_adjust_at := Some now\<rparr>, Some next)
   }"

text \<open>
  \<open>checked_duration_since(t).unwrap_or_default()\<close> is the truncated subtraction of instants.
\<close>

definition desired_factor :: "vardiff_config \<Rightarrow> f64 \<Rightarrow> f64 \<Rightarrow> f64 option option" where
  "desired_factor c target ewma =
     (if flt ewma (fmul target (vc_raise_ratio c))
      then map_option Some (fclamp (fdiv target ewma) (Fin 1) (vc_max_adjust_factor c))
      else if flt (fmul target (vc_lower_ratio c)) ewma
      then map_option Some (fclamp (fdiv target ewma) (fdiv (Fin 1) (vc_max_adjust_factor c)) (Fin 1))
      else Some None)"

definition next_ewma :: "vardiff_state \<Rightarrow> f64 \<Rightarrow> f64" where
  "next_ewma s elapsed_secs =
     (case vd_ewma_share_secs s of
        None \<Rightarrow> elapsed_secs
      | Some previous \<Rightarrow> fadd (fmul (vc_ewma_alpha (vd_config s)) elapsed_secs)
                          (fmul (fsub (Fin 1) (vc_ewma_alpha (vd_config s))) previous))"

text \<open>The second half of \<open>record_accepted_share\<close>, once the new average is known.\<close>

definition adjust_to_ewma ::
  "instant \<Rightarrow> f64 \<Rightarrow> f64 \<Rightarrow> vardiff_state \<Rightarrow> (vardiff_state \<times> f64 option) option" where
  "adjust_to_ewma now target ewma s =
     (let c = vd_config s;
          last_adjust_at = (case vd_last_adjust_at s of None \<Rightarrow> now | Some t \<Rightarrow> t);
          s = s\<lparr>vd_ewma_share_secs := Some ewma, vd_last_adjust_at := Some last_adjust_at\<rparr>
      in if now - last_adjust_at < secs (vc_min_adjust_secs c) then Some (s, None)
         else do {
           factor \<leftarrow> desired_factor c target ewma;
           case factor of
             None \<Rightarrow> Some (s, None)
           | Some factor \<Rightarrow> do {
               next \<leftarrow> fclamp (fmul (vd_current_difficulty s) factor)
                         (vc_min_difficulty c) (vc_max_difficulty c);
               next \<leftarrow> quantize_difficulty c next;
               if flt (relative_difference next (vd_current_difficulty s)) (lit (1 / 100))
               then Some (s, None)
               else apply_difficulty next now s
             }
         })"

definition min_elapsed :: f64 where
  "min_elapsed = lit (5 / 100)"

definition record_accepted_share ::
  "instant \<Rightarrow> vardiff_state \<Rightarrow> (vardiff_state \<times> f64 option) option" where
  "record_accepted_share now s =
     (case vd_last_share_at s of
        None \<Rightarrow> Some (s\<lparr>vd_last_share_at := Some now, vd_last_adjust_at := Some now\<rparr>, None)
      | Some last_share_at \<Rightarrow>
          let s = s\<lparr>vd_last_share_at := Some now\<rparr>;
              target = f_of_nat (unat (vc_target_share_secs (vd_config s)))
          in do {
            elapsed_secs \<leftarrow> fclamp (as_secs_f64 (now - last_share_at)) min_elapsed (fmul target (Fin 4));
            adjust_to_ewma now target (next_ewma s elapsed_secs) s
          })"

definition apply_suggested_difficulty ::
  "f64 \<Rightarrow> instant \<Rightarrow> vardiff_state \<Rightarrow> (vardiff_state \<times> f64 option) option" where
  "apply_suggested_difficulty suggested now s =
     (let c = vd_config s in
      if \<not> fis_finite suggested \<or> fle suggested (Fin 0) then Some (s, None)
      else if (case vd_last_adjust_at s of None \<Rightarrow> False
               | Some last_adjust_at \<Rightarrow> now - last_adjust_at < secs (vc_min_adjust_secs c))
      then Some (s, None)
      else do {
        let single_step_min = fdiv (vd_current_difficulty s) (vc_max_adjust_factor c);
        let single_step_max = fmul (vd_current_difficulty s) (vc_max_adjust_factor c);
        next \<leftarrow> fclamp suggested (vc_min_difficulty c) (vc_max_difficulty c);
        next \<leftarrow> fclamp next single_step_min single_step_max;
        next \<leftarrow> fclamp next (vc_min_difficulty c) (vc_max_difficulty c);
        next \<leftarrow> quantize_difficulty c next;
        if flt (relative_difference next (vd_current_difficulty s)) (lit (1 / 100)) then Some (s, None)
        else apply_difficulty next now
               (s\<lparr>vd_ewma_share_secs := None, vd_last_adjust_at := Some now\<rparr>)
      })"

section \<open>The normalized configuration\<close>

definition config_ok :: "vardiff_config \<Rightarrow> bool" where
  "config_ok c \<longleftrightarrow>
     (\<exists>mn mx. vc_min_difficulty c = Fin (of_int mn) \<and> vc_max_difficulty c = Fin (of_int mx)
        \<and> 1 \<le> mn \<and> mn \<le> mx)
     \<and> f_exact (vc_min_difficulty c) \<and> f_exact (vc_max_difficulty c)
     \<and> (\<exists>f. vc_max_adjust_factor c = Fin f \<and> 1 \<le> f)
     \<and> (\<exists>a. vc_ewma_alpha c = Fin a \<and> 0 < a \<and> a \<le> 1)
     \<and> (\<exists>r. vc_raise_ratio c = Fin r \<and> 0 \<le> r \<and> r < 1)
     \<and> (\<exists>l. vc_lower_ratio c = Fin l \<and> 1 < l)
     \<and> vc_target_share_secs c \<noteq> 0 \<and> vc_min_adjust_secs c \<noteq> 0 \<and> vc_transition_grace_secs c \<noteq> 0"

definition in_range :: "vardiff_config \<Rightarrow> f64 \<Rightarrow> bool" where
  "in_range c d \<longleftrightarrow>
     (\<exists>n. d = Fin (of_int n) \<and> fle (vc_min_difficulty c) d \<and> fle d (vc_max_difficulty c))"

lemma dyadic_exact:
  "fround (1 / 4) = Fin (1 / 4)" "fround (1 / 2) = Fin (1 / 2)" "fround (3 / 4) = Fin (3 / 4)"
  "fround (5 / 4) = Fin (5 / 4)" "fround 2 = Fin 2" "fround 4 = Fin 4"
  using fround_exact [of 1 "- 2"] fround_exact [of 1 "- 1"] fround_exact [of 3 "- 2"]
    fround_exact [of 5 "- 2"] fround_exact [of 1 1] fround_exact [of 1 2]
  by (simp_all add: power_int_def power_one_over)

lemma lit_25: "\<exists>q. lit (25 / 100) = Fin q \<and> 0 < q \<and> q \<le> 1"
  using fround_between [of "1 / 4" 1 "25 / 100"] by (auto simp: lit_def dyadic_exact)

lemma lit_70: "\<exists>r. lit (70 / 100) = Fin r \<and> 0 \<le> r \<and> r < 1"
  using fround_between [of "1 / 2" "3 / 4" "70 / 100"] by (auto simp: lit_def dyadic_exact)

lemma lit_140: "\<exists>r. lit (140 / 100) = Fin r \<and> 1 < r"
  using fround_between [of "5 / 4" 2 "140 / 100"] by (auto simp: lit_def dyadic_exact)

text \<open>An in-order clamp of an integer to integers is an integer in range.\<close>

lemma quantize_in_range:
  assumes "config_ok c" and "d \<noteq> NaN"
  shows "\<exists>d'. quantize_difficulty c d = Some d' \<and> in_range c d'"
proof -
  obtain mn mx where c: "vc_min_difficulty c = Fin (of_int mn)" "vc_max_difficulty c = Fin (of_int mx)"
    "mn \<le> mx" using assms(1) by (auto simp: config_ok_def)
  show ?thesis
    using fclamp_round_int [OF c(3) assms(2)] by (auto simp: quantize_difficulty_def in_range_def c)
qed

lemma alpha_normal:
  "\<exists>a. (if feq (if \<not> fis_finite x \<or> \<not> (fle (Fin 0) x \<and> fle x (Fin 1)) then lit (25 / 100) else x) (Fin 0)
      then lit (25 / 100)
      else if \<not> fis_finite x \<or> \<not> (fle (Fin 0) x \<and> fle x (Fin 1)) then lit (25 / 100) else x) = Fin a
    \<and> 0 < a \<and> a \<le> 1"
  using lit_25 by (cases x) (auto simp: feq_def)

lemma raise_normal:
  "\<exists>r. (if \<not> fis_finite x \<or> \<not> (fle (Fin 0) x \<and> flt x (Fin 1)) then lit (70 / 100) else x) = Fin r
    \<and> 0 \<le> r \<and> r < 1"
  using lit_70 by (cases x) auto

lemma lower_normal:
  "\<exists>l. (if \<not> fis_finite x \<or> fle x (Fin 1) then lit (140 / 100) else x) = Fin l \<and> 1 < l"
  using lit_140 by (cases x) auto

lemma factor_normal:
  "\<exists>f. (if \<not> fis_finite x \<or> flt x (Fin 1) then Fin 2 else x) = Fin f \<and> 1 \<le> f"
  by (cases x) auto

lemma normalized_ok:
  assumes "f_exact (vc_min_difficulty c)" and "f_exact (vc_max_difficulty c)"
  shows "\<exists>c'. normalized c = Some c' \<and> config_ok c' \<and> in_range c' (vc_initial_difficulty c')"
proof -
  define mn where "mn = (if \<not> fis_finite (vc_min_difficulty c) \<or> fle (vc_min_difficulty c) (Fin 0)
      then Fin 1 else vc_min_difficulty c)"
  define mx where "mx = (if \<not> fis_finite (vc_max_difficulty c) \<or> flt (vc_max_difficulty c) mn
      then mn else vc_max_difficulty c)"
  define ini where "ini = (if \<not> fis_finite (vc_initial_difficulty c) \<or> fle (vc_initial_difficulty c) (Fin 0)
      then fceil mn else vc_initial_difficulty c)"
  have "\<exists>p. mn = Fin p \<and> 0 < p \<and> fround p = Fin p"
    using assms(1) by (cases "vc_min_difficulty c") (auto simp: mn_def f_exact_def)
  then obtain p where p: "mn = Fin p" "0 < p" "fround p = Fin p" by blast
  have "\<exists>q. mx = Fin q \<and> p \<le> q \<and> fround q = Fin q"
    using p assms(2) by (cases "vc_max_difficulty c") (auto simp: mx_def f_exact_def)
  then obtain q where q: "mx = Fin q" "p \<le> q" "fround q = Fin q" by blast
  have ex: "fround (of_int \<lceil>p\<rceil>) = Fin (of_int \<lceil>p\<rceil>)" "fround (of_int \<lfloor>q\<rfloor>) = Fin (of_int \<lfloor>q\<rfloor>)"
    using fround_floor_ceiling [of p] fround_floor_ceiling [of q] p q by simp_all
  have cp: "1 \<le> \<lceil>p\<rceil>" using p(2) by linarith
  let ?mx = "max \<lfloor>q\<rfloor> \<lceil>p\<rceil>"
  have maxf: "fmax (ffloor mx) (fceil mn) = Fin (of_int ?mx)"
    by (simp add: p q max_def)
  have "ini \<noteq> NaN" by (cases "vc_initial_difficulty c") (auto simp: ini_def p)
  then obtain n where n: "fclamp (fround_int ini) (fceil mn) (Fin (of_int ?mx)) = Some (Fin (of_int n))"
    "\<lceil>p\<rceil> \<le> n" "n \<le> ?mx"
    using fclamp_round_int [of "\<lceil>p\<rceil>" ?mx ini] by (auto simp: p)
  note eqs = normalized_def Let_def mn_def [symmetric] mx_def [symmetric] ini_def [symmetric] maxf
    n(1) bind.bind_lunit
  from alpha_normal [of "vc_ewma_alpha c"] raise_normal [of "vc_raise_ratio c"]
    lower_normal [of "vc_lower_ratio c"] factor_normal [of "vc_max_adjust_factor c"]
  show ?thesis
    unfolding eqs
  proof (elim exE conjE, goal_cases)
    case (1 a r l f)
    then show ?case
      using n(2,3) cp ex by (simp only: option.inject ex_simps simp_thms)
        (simp add: config_ok_def in_range_def p f_exact_def max_def)
  qed
qed

text \<open>The invariant of a session's difficulty.\<close>

definition vardiff_inv :: "vardiff_state \<Rightarrow> bool" where
  "vardiff_inv s \<longleftrightarrow> config_ok (vd_config s) \<and> in_range (vd_config s) (vd_current_difficulty s)
     \<and> (\<forall>p. vd_previous_difficulty s = Some p \<longrightarrow> in_range (vd_config s) p)
     \<and> (\<forall>e. vd_ewma_share_secs s = Some e \<longrightarrow> (\<exists>r. e = Fin r \<and> 0 \<le> r \<and> r \<le> 2 ^ 200))"

lemma pow2_exact: "fround (2 ^ 66) = Fin (2 ^ 66)" "fround (2 ^ 64) = Fin (2 ^ 64)"
    "fround (2 ^ 200) = Fin (2 ^ 200)"
  using fround_pow2 [of 66] fround_pow2 [of 64] fround_pow2 [of 200] by (simp_all add: power_int_def)

lemma round_away_sum: "fround (2 ^ 200 + 2 ^ 66) = Fin (2 ^ 200)"
proof -
  have "fround (2 ^ 200 + 2 ^ 66) =
      Fin (of_int (rne ((2 ^ 200 + 2 ^ 66) / 2 powi (200 - 52))) * 2 powi (200 - 52))"
    by (rule fround_eval) (simp_all add: power_int_def)
  also have "of_int (rne ((2 ^ 200 + 2 ^ 66) / 2 powi (200 - 52))) * 2 powi (200 - 52) = (2 ^ 200 :: rat)"
    by (simp add: rne_def Let_def power_int_def)
  finally show ?thesis .
qed

lemma target_secs_bounds:
  assumes "t \<noteq> 0"
  shows "\<exists>r. f_of_nat (unat (t :: u64)) = Fin r \<and> 1 \<le> r \<and> r \<le> 2 ^ 64"
proof -
  have "unat t < 2 ^ 64" using unsigned_less [of t, where 'a = nat] by simp
  then have "(of_nat (unat t) :: rat) \<le> of_nat (2 ^ 64)" by (subst of_nat_le_iff) simp
  moreover have "0 < unat t" using assms by (simp add: unat_gt_0)
  then have "(of_nat 1 :: rat) \<le> of_nat (unat t)" by (subst of_nat_le_iff) simp
  ultimately show ?thesis
    using fround_between [of 1 "2 ^ 64" "of_nat (unat t)"] pow2_exact by (simp add: f_of_nat_def)
qed

lemma as_secs_not_NaN: "as_secs_f64 d \<noteq> NaN"
proof -
  have n: "fle (Fin 0) (f_of_nat k)" for k by (simp add: f_of_nat_def fround_nonneg)
  have "(of_nat (d mod 10 ^ 9) :: rat) \<le> of_nat (2 ^ 64)" 
    by (subst of_nat_le_iff) (rule order_trans [OF less_imp_le [OF mod_less_divisor]], simp_all)
  then obtain r where r: "f_of_nat (d mod 10 ^ 9) = Fin r" and "0 \<le> r"
    using fround_between [of 0 "2 ^ 64" "of_nat (d mod 10 ^ 9)"] pow2_exact by (auto simp: f_of_nat_def)
  then have "fle (Fin 0) (fdiv (f_of_nat (d mod 10 ^ 9)) (Fin (10 ^ 9)))"
    by (simp add: fround_nonneg)
  with n [of "d div 10 ^ 9"] show ?thesis
    unfolding as_secs_f64_def
    by (cases "f_of_nat (d div 10 ^ 9)"; cases "fdiv (f_of_nat (d mod 10 ^ 9)) (Fin (10 ^ 9))") auto
qed

lemma elapsed_clamp:
  assumes "f_of_nat (unat (t :: u64)) = Fin r" and "1 \<le> r" and "r \<le> 2 ^ 64"
  shows "\<exists>e. fclamp (as_secs_f64 d) min_elapsed (fmul (Fin r) (Fin 4)) = Some (Fin e)
    \<and> 0 \<le> e \<and> e \<le> 2 ^ 66"
proof -
  obtain l where l: "min_elapsed = Fin l" "0 \<le> l" "l \<le> 1"
    using fround_between [of 0 1 "5 / 100"] by (auto simp: min_elapsed_def lit_def)
  obtain u where u: "fround (r * 4) = Fin u" "4 \<le> u" "u \<le> 2 ^ 66"
    using fround_between [of 4 "2 ^ 66" "r * 4"] assms pow2_exact dyadic_exact by auto
  from l u have "l \<le> u" by linarith
  from fclamp_Fin [OF this as_secs_not_NaN [of d]] l u show ?thesis by force
qed

lemma ewma_bound:
  assumes a: "0 < a" "a \<le> 1" and e: "0 \<le> e" "e \<le> 2 ^ 66" and p: "0 \<le> p" "p \<le> 2 ^ 200"
  shows "\<exists>r. fadd (fmul (Fin a) (Fin e)) (fmul (fsub (Fin 1) (Fin a)) (Fin p)) = Fin r
    \<and> 0 \<le> r \<and> r \<le> 2 ^ 200"
proof -
  have "a * e \<le> 1 * 2 ^ 66" using a e by (intro mult_mono) auto
  then obtain x where x: "fround (a * e) = Fin x" "0 \<le> x" "x \<le> 2 ^ 66"
    using fround_between [of 0 "2 ^ 66" "a * e"] pow2_exact a e by auto
  obtain b where b: "fround (1 - a) = Fin b" "0 \<le> b" "b \<le> 1"
    using fround_between [of 0 1 "1 - a"] a by auto
  have "b * p \<le> 1 * 2 ^ 200" using b p by (intro mult_mono) auto
  then obtain y where y: "fround (b * p) = Fin y" "0 \<le> y" "y \<le> 2 ^ 200"
    using fround_between [of 0 "2 ^ 200" "b * p"] pow2_exact b p by auto
  have "fle (fround (x + y)) (fround (2 ^ 200 + 2 ^ 66))" using x y by (intro fround_mono) simp
  moreover have "fle (Fin 0) (fround (x + y))" using x y by (simp add: fround_nonneg)
  ultimately obtain r where "fround (x + y) = Fin r" "0 \<le> r" "r \<le> 2 ^ 200"
    unfolding round_away_sum by (cases "fround (x + y)") auto
  then show ?thesis by (simp add: fsub_def x y b)
qed

section \<open>The operations keep the invariant\<close>

lemma in_range_not_NaN: "in_range c d \<Longrightarrow> d \<noteq> NaN"
  by (auto simp: in_range_def)

lemma quantize_id: "in_range c d \<Longrightarrow> quantize_difficulty c d = Some d"
  unfolding quantize_difficulty_def in_range_def by (auto intro: fclamp_id)

text \<open>What an answer of the two adjusting operations says about the state.\<close>

fun adjusted :: "instant \<Rightarrow> vardiff_state \<Rightarrow> vardiff_state \<times> f64 option \<Rightarrow> bool" where
  "adjusted now s (s', None) =
     (vd_config s' = vd_config s \<and> vd_current_difficulty s' = vd_current_difficulty s
      \<and> vd_previous_difficulty s' = vd_previous_difficulty s
      \<and> vd_transition_until s' = vd_transition_until s
      \<and> (vd_last_adjust_at s' = vd_last_adjust_at s \<or> vd_last_adjust_at s' = Some now))"
| "adjusted now s (s', Some d) =
     (vd_config s' = vd_config s \<and> vd_current_difficulty s' = d
      \<and> vd_previous_difficulty s' = Some (vd_current_difficulty s)
      \<and> vd_transition_until s' = Some (now + secs (vc_transition_grace_secs (vd_config s)))
      \<and> vd_last_adjust_at s' = Some now)"

definition set_difficulty :: "f64 \<Rightarrow> instant \<Rightarrow> vardiff_state \<Rightarrow> vardiff_state" where
  "set_difficulty d now s = s\<lparr>vd_previous_difficulty := Some (vd_current_difficulty s),
     vd_current_difficulty := d,
     vd_transition_until := Some (now + secs (vc_transition_grace_secs (vd_config s))),
     vd_last_adjust_at := Some now\<rparr>"

lemma apply_difficulty_in_range:
  "in_range (vd_config s) d \<Longrightarrow> apply_difficulty d now s =
     Some (if flt (relative_difference d (vd_current_difficulty s)) (lit (1 / 100)) then (s, None)
           else (set_difficulty d now s, Some d))"
  by (simp add: apply_difficulty_def quantize_id set_difficulty_def)

lemma vardiff_inv_set:
  "vardiff_inv s \<Longrightarrow> in_range (vd_config s) d \<Longrightarrow> vardiff_inv (set_difficulty d now s)"
  by (simp add: vardiff_inv_def set_difficulty_def)

lemma adjusted_set: "adjusted now s (set_difficulty d now s, Some d)"
  by (simp add: set_difficulty_def)

text \<open>A step never leaves the band around the current difficulty that the factor allows.\<close>

definition step_bound :: "vardiff_config \<Rightarrow> f64 \<Rightarrow> f64 \<Rightarrow> f64 \<Rightarrow> f64 \<Rightarrow> bool" where
  "step_bound c low high current d \<longleftrightarrow>
     fle (fround_int (fmul current low)) d \<and> fle d (fround_int (fmul current high))"

lemma quantize_between:
  assumes c: "config_ok c" and y: "fclamp x (vc_min_difficulty c) (vc_max_difficulty c) = Some y"
    and x: "fle l x" "fle x u" and l: "fle l (vc_max_difficulty c)" and u: "fle (vc_min_difficulty c) u"
  shows "\<exists>d. quantize_difficulty c y = Some d \<and> in_range c d \<and> fle (fround_int l) d \<and> fle d (fround_int u)"
proof -
  obtain mn mx where m: "vc_min_difficulty c = Fin (of_int mn)" "vc_max_difficulty c = Fin (of_int mx)"
    "mn \<le> mx" using c by (auto simp: config_ok_def)
  have ly: "fle l y" using fclamp_ge [OF y x(1) l] .
  have yu: "fle y u" using fclamp_le [OF y x(2) u] .
  have nan: "x \<noteq> NaN" "y \<noteq> NaN" using x(1) ly by auto
  have "fle (Fin (of_int mn)) y" "fle y (Fin (of_int mx))"
    using fclamp_bounds [OF y nan(1)] by (simp_all add: m)
  then have "fle (Fin (of_int mn)) (fround_int y)" "fle (fround_int y) (Fin (of_int mx))"
    using fround_int_mono [of "Fin (of_int mn)" y] fround_int_mono [of y "Fin (of_int mx)"] by simp_all
  then have q: "quantize_difficulty c y = Some (fround_int y)"
    by (simp add: quantize_difficulty_def m fclamp_id)
  moreover have "in_range c (fround_int y)"
    using quantize_in_range [OF c nan(2)] q by simp
  ultimately show ?thesis using fround_int_mono [OF ly] fround_int_mono [OF yu] by blast
qed

lemma fmul_mono:
  assumes "0 \<le> a" and "b \<le> c"
  shows "fle (fmul (Fin a) (Fin b)) (fmul (Fin a) (Fin c))"
  using mult_left_mono [OF assms(2,1)] by (simp add: fround_mono)

text \<open>The factor of the ewma: inside the band of the configuration, and never a panic.\<close>

lemma desired_factor_spec:
  assumes c: "config_ok c" and f: "vc_max_adjust_factor c = Fin f"
    and t: "1 \<le> t" "t \<le> 2 ^ 64" and e: "0 \<le> e"
  shows "\<exists>low r. fdiv (Fin 1) (Fin f) = Fin low \<and> 0 \<le> low \<and> low \<le> 1 \<and> 1 \<le> f
    \<and> desired_factor c (Fin t) (Fin e) = Some r
    \<and> (\<forall>g. r = Some g \<longrightarrow> (\<exists>q. g = Fin q \<and> low \<le> q \<and> q \<le> f))"
proof -
  have f1: "1 \<le> f" using c by (auto simp: config_ok_def f)
  then obtain low where low: "fround (1 / f) = Fin low" "0 \<le> low" "low \<le> 1"
    using fround_between [of 0 1 "1 / f"] by auto
  have nan: "fdiv (Fin t) (Fin e) \<noteq> NaN" using t by simp
  from fclamp_Fin [OF f1 nan] obtain q1 where q1: "fclamp (fdiv (Fin t) (Fin e)) (Fin 1) (Fin f) = Some (Fin q1)"
    "1 \<le> q1" "q1 \<le> f" by blast
  from fclamp_Fin [OF low(3) nan] obtain q2 where q2: "fclamp (fdiv (Fin t) (Fin e)) (Fin low) (Fin 1) = Some (Fin q2)"
    "low \<le> q2" "q2 \<le> 1" by blast
  have d: "fdiv (Fin 1) (Fin f) = Fin low" using f1 low by simp
  show ?thesis
    unfolding desired_factor_def f d q1(1) q2(1)
    using low f1 q1 q2 by auto
qed

text \<open>The next difficulty of a step from \<open>x\<close>: clamped, quantized and then applied or not.\<close>

lemma config_clamp_some:
  assumes "config_ok c"
  shows "\<exists>y. fclamp x (vc_min_difficulty c) (vc_max_difficulty c) = Some y"
  using assms by (auto simp: config_ok_def fclamp_def)

lemma next_step:
  assumes inv: "vardiff_inv s" and x: "fle l x" "fle x u"
    and l: "fle l (vc_max_difficulty (vd_config s))" and u: "fle (vc_min_difficulty (vd_config s)) u"
    and s': "vardiff_inv s'" "vd_config s' = vd_config s"
      "vd_current_difficulty s' = vd_current_difficulty s"
  shows "\<exists>y d. fclamp x (vc_min_difficulty (vd_config s)) (vc_max_difficulty (vd_config s)) = Some y
    \<and> quantize_difficulty (vd_config s) y = Some d
    \<and> in_range (vd_config s) d \<and> fle (fround_int l) d \<and> fle d (fround_int u)
    \<and> (\<not> flt (relative_difference d (vd_current_difficulty s)) (lit (1 / 100)) \<longrightarrow>
        apply_difficulty d now s' = Some (set_difficulty d now s', Some d))"
proof -
  have c: "config_ok (vd_config s)" using inv by (simp add: vardiff_inv_def)
  from config_clamp_some [OF c] obtain y where
    y: "fclamp x (vc_min_difficulty (vd_config s)) (vc_max_difficulty (vd_config s)) = Some y" by blast
  from quantize_between [OF c y x l u] obtain d where d: "quantize_difficulty (vd_config s) y = Some d"
    "in_range (vd_config s) d" "fle (fround_int l) d" "fle d (fround_int u)" by blast
  have "apply_difficulty d now s' =
      Some (if flt (relative_difference d (vd_current_difficulty s)) (lit (1 / 100)) then (s', None)
            else (set_difficulty d now s', Some d))"
    using apply_difficulty_in_range [of s' d now] d(2) s' by simp
  with y d show ?thesis by auto
qed

lemma secs_pos: "n \<noteq> 0 \<Longrightarrow> 0 < secs n"
  by (simp add: secs_def unat_gt_0)

text \<open>The current difficulty and the factor of a state with the invariant, as numbers.\<close>

lemma vardiff_inv_numbers:
  assumes "vardiff_inv s"
  obtains n mn mx f low where "vd_current_difficulty s = Fin (of_int n)"
    and "vc_min_difficulty (vd_config s) = Fin (of_int mn)"
    and "vc_max_difficulty (vd_config s) = Fin (of_int mx)"
    and "1 \<le> mn" and "mn \<le> n" and "n \<le> mx"
    and "fround (of_int mn) = Fin (of_int mn)" and "fround (of_int mx) = Fin (of_int mx)"
    and "vc_max_adjust_factor (vd_config s) = Fin f" and "1 \<le> f"
  using assms by (fastforce simp: vardiff_inv_def config_ok_def in_range_def f_exact_def)

lemma fround_le_exact: "q \<le> b \<Longrightarrow> fround b = Fin b \<Longrightarrow> fle (fround q) (Fin b)"
  by (metis fround_mono)

lemma fround_ge_exact: "b \<le> q \<Longrightarrow> fround b = Fin b \<Longrightarrow> fle (Fin b) (fround q)"
  by (metis fround_mono)

lemma next_ewma_bound:
  assumes "vardiff_inv s" and "0 \<le> e" and "e \<le> 2 ^ 66"
  shows "\<exists>r. next_ewma s (Fin e) = Fin r \<and> 0 \<le> r \<and> r \<le> 2 ^ 200"
proof (cases "vd_ewma_share_secs s")
  case None
  have "(2 :: rat) ^ 66 \<le> 2 ^ 200" by simp
  with assms(3) have "e \<le> 2 ^ 200" by (rule order_trans)
  with assms(2) None show ?thesis by (simp add: next_ewma_def)
next
  case (Some p)
  then obtain r where "p = Fin r" "0 \<le> r" "r \<le> 2 ^ 200" using assms(1) by (auto simp: vardiff_inv_def)
  moreover obtain a where "vc_ewma_alpha (vd_config s) = Fin a" "0 < a" "a \<le> 1"
    using assms(1) by (auto simp: vardiff_inv_def config_ok_def)
  ultimately show ?thesis using ewma_bound [of a e r] assms(2,3) Some by (simp add: next_ewma_def)
qed

lemma adjust_to_ewma_spec:
  assumes inv: "vardiff_inv s" and t: "1 \<le> t" "t \<le> 2 ^ 64" and e: "0 \<le> e" "e \<le> 2 ^ 200"
  shows "\<exists>s' r. adjust_to_ewma now (Fin t) (Fin e) s = Some (s', r) \<and> vardiff_inv s' \<and> adjusted now s (s', r)
    \<and> (\<forall>d. r = Some d \<longrightarrow>
        fle (fround_int (fmul (vd_current_difficulty s) (fdiv (Fin 1) (vc_max_adjust_factor (vd_config s))))) d
        \<and> fle d (fround_int (fmul (vd_current_difficulty s) (vc_max_adjust_factor (vd_config s))))
        \<and> (\<exists>la. vd_last_adjust_at s = Some la \<and> la + secs (vc_min_adjust_secs (vd_config s)) \<le> now))"
proof -
  let ?c = "vd_config s" and ?la = "case vd_last_adjust_at s of None \<Rightarrow> now | Some t \<Rightarrow> t"
  let ?s1 = "s\<lparr>vd_ewma_share_secs := Some (Fin e), vd_last_adjust_at := Some ?la\<rparr>"
  have inv1: "vardiff_inv ?s1" using inv e by (simp add: vardiff_inv_def)
  have adj1: "adjusted now s (?s1, None)" by (cases "vd_last_adjust_at s") simp_all
  have c: "config_ok ?c" using inv by (simp add: vardiff_inv_def)
  then have pos: "0 < secs (vc_min_adjust_secs ?c)" by (simp add: config_ok_def secs_pos)
  obtain n mn mx f where n: "vd_current_difficulty s = Fin (of_int n)"
    and m: "vc_min_difficulty ?c = Fin (of_int mn)" "vc_max_difficulty ?c = Fin (of_int mx)"
    and ord: "1 \<le> mn" "mn \<le> n" "n \<le> mx"
    and ex: "fround (of_int mn) = Fin (of_int mn)" "fround (of_int mx) = Fin (of_int mx)"
    and f: "vc_max_adjust_factor ?c = Fin f" "1 \<le> f"
    using inv by (rule vardiff_inv_numbers)
  obtain low df where low: "fdiv (Fin 1) (Fin f) = Fin low" "0 \<le> low" "low \<le> 1"
    and df: "desired_factor ?c (Fin t) (Fin e) = Some df"
      "\<forall>g. df = Some g \<longrightarrow> (\<exists>q. g = Fin q \<and> low \<le> q \<and> q \<le> f)"
    using desired_factor_spec [OF c f(1) t e(1)] by blast
  have n0: "(0 :: rat) \<le> of_int n" using ord by simp
  show ?thesis
  proof (cases "now - ?la < secs (vc_min_adjust_secs ?c)")
    case True
    then have "adjust_to_ewma now (Fin t) (Fin e) s = Some (?s1, None)"
      by (simp add: adjust_to_ewma_def Let_def)
    with inv1 adj1 show ?thesis by blast
  next
    case False
    then obtain la where la: "vd_last_adjust_at s = Some la" "la + secs (vc_min_adjust_secs ?c) \<le> now"
      using pos by (cases "vd_last_adjust_at s") auto
    show ?thesis
    proof (cases df)
      case None
      with False df(1) have "adjust_to_ewma now (Fin t) (Fin e) s = Some (?s1, None)"
        by (simp add: adjust_to_ewma_def Let_def)
      with inv1 adj1 show ?thesis by blast
    next
      case (Some g)
      with df(2) obtain q where q: "g = Fin q" "low \<le> q" "q \<le> f" by blast
      let ?x = "fmul (vd_current_difficulty s) (Fin q)"
      let ?l = "fmul (vd_current_difficulty s) (Fin low)" and ?u = "fmul (vd_current_difficulty s) (Fin f)"
      have lx: "fle ?l ?x" "fle ?x ?u" unfolding n using n0 q by (intro fmul_mono; simp)+
      have "of_int n * low \<le> of_int n * 1" using n0 low by (intro mult_left_mono)
      also have "\<dots> \<le> (of_int mx :: rat)" using ord by simp
      finally have l: "fle ?l (vc_max_difficulty ?c)" unfolding n m using ex by (simp add: fround_le_exact)
      have "(of_int mn :: rat) \<le> of_int n * 1" using ord by simp
      also have "\<dots> \<le> of_int n * f" using n0 f by (intro mult_left_mono)
      finally have u: "fle (vc_min_difficulty ?c) ?u" unfolding n m using ex by (simp add: fround_ge_exact)
      from next_step [OF inv lx l u inv1, of now] obtain y d where
        y: "fclamp ?x (vc_min_difficulty ?c) (vc_max_difficulty ?c) = Some y"
        and d: "quantize_difficulty ?c y = Some d" "in_range ?c d" "fle (fround_int ?l) d" "fle d (fround_int ?u)"
        and ap: "\<not> flt (relative_difference d (vd_current_difficulty s)) (lit (1 / 100)) \<longrightarrow>
          apply_difficulty d now ?s1 = Some (set_difficulty d now ?s1, Some d)" by auto
      have res: "adjust_to_ewma now (Fin t) (Fin e) s =
          (if flt (relative_difference d (vd_current_difficulty s)) (lit (1 / 100)) then Some (?s1, None)
           else Some (set_difficulty d now ?s1, Some d))"
        using False df(1) Some y d(1) ap unfolding adjust_to_ewma_def Let_def q(1) by simp
      have "vardiff_inv (set_difficulty d now ?s1)" using vardiff_inv_set [OF inv1] d(2) by simp
      moreover have "adjusted now s (set_difficulty d now ?s1, Some d)" by (simp add: set_difficulty_def)
      ultimately show ?thesis
        using res d(3,4) la inv1 adj1 unfolding f(1) low(1) by (cases "flt (relative_difference d (vd_current_difficulty s)) (lit (1 / 100))") auto
    qed
  qed
qed

section \<open>Properties\<close>

text \<open>
  Whatever the configuration says (missing, negative, not finite or contradictory numbers
  included), a new session starts without a panic: the normalized bounds are integers from 1 on
  and in order, and the initial difficulty is an integer between them.
\<close>
theorem vardiff_starts:
  assumes "f_exact (vc_min_difficulty c)" and "f_exact (vc_max_difficulty c)"
  shows "\<exists>s. vardiff_new c = Some s \<and> vardiff_inv s"
  using normalized_ok [OF assms] by (auto simp: vardiff_new_def vardiff_inv_def)

definition sample_vardiff_config :: vardiff_config where
  "sample_vardiff_config = \<lparr>vc_initial_difficulty = Fin 8, vc_min_difficulty = Fin (3 / 2),
     vc_max_difficulty = Fin 64, vc_target_share_secs = 20, vc_ewma_alpha = NaN,
     vc_raise_ratio = NaN, vc_lower_ratio = NaN, vc_min_adjust_secs = 0,
     vc_max_adjust_factor = Fin 2, vc_transition_grace_secs = 0\<rparr>"

lemma sample_vardiff_exact:
  "f_exact (vc_min_difficulty sample_vardiff_config)" "f_exact (vc_max_difficulty sample_vardiff_config)"
proof -
  have "fround (3 / 2) = Fin (3 / 2)" "fround 64 = Fin 64"
    using fround_exact [of 3 "- 1"] fround_int_exact [of 64] by (simp_all add: power_int_def power_one_over)
  then have "f_exact (Fin (3 / 2))" "f_exact (Fin 64)"
    unfolding f_exact_def by (simp_all only: f64.inject simp_thms)
  then show "f_exact (vc_min_difficulty sample_vardiff_config)" "f_exact (vc_max_difficulty sample_vardiff_config)"
    by (simp_all add: sample_vardiff_config_def)
qed

theorem vardiff_starts_witness: "\<exists>s. vardiff_new sample_vardiff_config = Some s \<and> vardiff_inv s"
  by (rule vardiff_starts [OF sample_vardiff_exact])

lemma record_accepted_share_spec:
  assumes inv: "vardiff_inv s"
  shows "\<exists>s' r. record_accepted_share now s = Some (s', r) \<and> vardiff_inv s' \<and> adjusted now s (s', r)
    \<and> (\<forall>d. r = Some d \<longrightarrow>
        fle (fround_int (fmul (vd_current_difficulty s) (fdiv (Fin 1) (vc_max_adjust_factor (vd_config s))))) d
        \<and> fle d (fround_int (fmul (vd_current_difficulty s) (vc_max_adjust_factor (vd_config s))))
        \<and> (\<exists>la. vd_last_adjust_at s = Some la \<and> la + secs (vc_min_adjust_secs (vd_config s)) \<le> now))"
proof (cases "vd_last_share_at s")
  case None
  with inv show ?thesis by (simp add: record_accepted_share_def vardiff_inv_def)
next
  case (Some t0)
  let ?s0 = "s\<lparr>vd_last_share_at := Some now\<rparr>"
  have inv0: "vardiff_inv ?s0" using inv by (simp add: vardiff_inv_def)
  have "vc_target_share_secs (vd_config s) \<noteq> 0" using inv by (simp add: vardiff_inv_def config_ok_def)
  from target_secs_bounds [OF this] obtain t where
    t: "f_of_nat (unat (vc_target_share_secs (vd_config s))) = Fin t" "1 \<le> t" "t \<le> 2 ^ 64" by blast
  from elapsed_clamp [OF t, of "now - t0"] obtain el where
    el: "fclamp (as_secs_f64 (now - t0)) min_elapsed (fmul (Fin t) (Fin 4)) = Some (Fin el)"
    "0 \<le> el" "el \<le> 2 ^ 66" by blast
  from next_ewma_bound [OF inv0 el(2,3)] obtain e where
    e: "next_ewma ?s0 (Fin el) = Fin e" "0 \<le> e" "e \<le> 2 ^ 200" by blast
  have "record_accepted_share now s = adjust_to_ewma now (Fin t) (Fin e) ?s0"
    unfolding record_accepted_share_def Some option.case Let_def
    using t(1) el(1) e(1) by (simp del: fmul.simps)
  moreover obtain s' r where r: "adjust_to_ewma now (Fin t) (Fin e) ?s0 = Some (s', r)"
    and "vardiff_inv s'" and "adjusted now ?s0 (s', r)"
    and "\<forall>d. r = Some d \<longrightarrow>
        fle (fround_int (fmul (vd_current_difficulty ?s0) (fdiv (Fin 1) (vc_max_adjust_factor (vd_config ?s0))))) d
        \<and> fle d (fround_int (fmul (vd_current_difficulty ?s0) (vc_max_adjust_factor (vd_config ?s0))))
        \<and> (\<exists>la. vd_last_adjust_at ?s0 = Some la \<and> la + secs (vc_min_adjust_secs (vd_config ?s0)) \<le> now)"
    using adjust_to_ewma_spec [OF inv0 t(2,3) e(2,3), of now] by blast
  moreover have "adjusted now s (s', r)"
    using \<open>adjusted now ?s0 (s', r)\<close> by (cases r) simp_all
  ultimately show ?thesis by simp
qed

lemma apply_suggested_spec:
  assumes inv: "vardiff_inv s"
  shows "\<exists>s' r. apply_suggested_difficulty x now s = Some (s', r) \<and> vardiff_inv s' \<and> adjusted now s (s', r)
    \<and> (r = None \<longrightarrow> s' = s)
    \<and> (\<forall>d. r = Some d \<longrightarrow> fis_finite x \<and> flt (Fin 0) x
        \<and> fle (fround_int (fdiv (vd_current_difficulty s) (vc_max_adjust_factor (vd_config s)))) d
        \<and> fle d (fround_int (fmul (vd_current_difficulty s) (vc_max_adjust_factor (vd_config s))))
        \<and> (\<forall>la. vd_last_adjust_at s = Some la \<longrightarrow> la + secs (vc_min_adjust_secs (vd_config s)) \<le> now))"
proof -
  let ?c = "vd_config s"
  let ?s1 = "s\<lparr>vd_ewma_share_secs := None, vd_last_adjust_at := Some now\<rparr>"
  have inv1: "vardiff_inv ?s1" using inv by (simp add: vardiff_inv_def)
  have adj0: "adjusted now s (s, None)" by simp
  have c: "config_ok ?c" using inv by (simp add: vardiff_inv_def)
  obtain n mn mx f where n: "vd_current_difficulty s = Fin (of_int n)"
    and m: "vc_min_difficulty ?c = Fin (of_int mn)" "vc_max_difficulty ?c = Fin (of_int mx)"
    and ord: "1 \<le> mn" "mn \<le> n" "n \<le> mx"
    and ex: "fround (of_int mn) = Fin (of_int mn)" "fround (of_int mx) = Fin (of_int mx)"
    and f: "vc_max_adjust_factor ?c = Fin f" "1 \<le> f"
    using inv by (rule vardiff_inv_numbers)
  show ?thesis
  proof (cases "(\<not> fis_finite x \<or> fle x (Fin 0)) \<or> (\<exists>la. vd_last_adjust_at s = Some la
      \<and> now - la < secs (vc_min_adjust_secs ?c))")
    case True
    then have "apply_suggested_difficulty x now s = Some (s, None)"
      by (auto simp: apply_suggested_difficulty_def Let_def)
    with inv adj0 show ?thesis by blast
  next
    case False
    then obtain xq where x: "x = Fin xq" "0 < xq" by (cases x) auto
    have pos: "0 < secs (vc_min_adjust_secs ?c)" using c by (simp add: config_ok_def secs_pos)
    have cool: "la + secs (vc_min_adjust_secs ?c) \<le> now" if "vd_last_adjust_at s = Some la" for la
      using False that pos by auto
    have n0: "(0 :: rat) \<le> of_int n" using ord by simp
    let ?lo = "fdiv (vd_current_difficulty s) (Fin f)" and ?hi = "fmul (vd_current_difficulty s) (Fin f)"
    have lo: "?lo = fround (of_int n / f)" using f(2) by (simp add: n)
    have le1: "of_int n / f \<le> of_int n" using n0 f(2) by (simp add: divide_le_eq mult_left_mono [of 1 f "of_int n", simplified])
    have le2: "(of_int n :: rat) \<le> of_int n * f" using mult_left_mono [OF f(2) n0] by simp
    have hi_eq: "?hi = fround (of_int n * f)" by (simp add: n)
    have band: "fle ?lo ?hi" unfolding lo hi_eq using le1 le2 by (intro fround_mono) (rule order_trans)
    have lomx: "fle ?lo (vc_max_difficulty ?c)" unfolding lo m
      using le1 ord ex by (intro fround_le_exact) (auto intro: order_trans)
    have "(of_int mn :: rat) \<le> of_int n" using ord by simp
    then have "(of_int mn :: rat) \<le> of_int n * f" using le2 by (rule order_trans)
    then have hi: "fle (vc_min_difficulty ?c) ?hi" unfolding hi_eq m
      using ex(1) by (rule fround_ge_exact)
    from config_clamp_some [OF c] obtain y1 where
      y1: "fclamp x (vc_min_difficulty ?c) (vc_max_difficulty ?c) = Some y1" by blast
    have "fle (vc_min_difficulty ?c) y1" using fclamp_bounds [OF y1] x by simp
    then have y1n: "y1 \<noteq> NaN" by auto
    obtain y2 where y2: "fclamp y1 ?lo ?hi = Some y2" using band fclamp_None_iff by blast
    from fclamp_bounds [OF y2 y1n] have y2b: "fle ?lo y2" "fle y2 ?hi" by simp_all
    from next_step [OF inv y2b lomx hi inv1, of now] obtain y d where
      y: "fclamp y2 (vc_min_difficulty ?c) (vc_max_difficulty ?c) = Some y"
      and d: "quantize_difficulty ?c y = Some d" "in_range ?c d" "fle (fround_int ?lo) d" "fle d (fround_int ?hi)"
      and ap: "\<not> flt (relative_difference d (vd_current_difficulty s)) (lit (1 / 100)) \<longrightarrow>
        apply_difficulty d now ?s1 = Some (set_difficulty d now ?s1, Some d)" by auto
    have pass: "fis_finite x" "\<not> fle x (Fin 0)"
      "\<not> (case vd_last_adjust_at s of None \<Rightarrow> False
          | Some last_adjust_at \<Rightarrow> now - last_adjust_at < secs (vc_min_adjust_secs ?c))"
      using False by (auto split: option.splits)
    have res: "apply_suggested_difficulty x now s =
        (if flt (relative_difference d (vd_current_difficulty s)) (lit (1 / 100)) then Some (s, None)
         else Some (set_difficulty d now ?s1, Some d))"
      unfolding apply_suggested_difficulty_def Let_def f(1)
      using pass y1 y2 y d(1) ap by simp
    have "vardiff_inv (set_difficulty d now ?s1)" using vardiff_inv_set [OF inv1] d(2) by simp
    moreover have "adjusted now s (set_difficulty d now ?s1, Some d)" by (simp add: set_difficulty_def)
    ultimately show ?thesis
      using res d(3,4) cool x inv adj0 unfolding f(1)
      by (cases "flt (relative_difference d (vd_current_difficulty s)) (lit (1 / 100))") auto
  qed
qed

text \<open>
  An accepted share never panics and keeps the invariant (integer difficulty between the
  bounds). It changes the difficulty only when the cooldown since the last adjustment is over, by
  at most the configured factor up or down (rounded to an integer), and it then remembers the old
  difficulty for the grace period; otherwise the difficulty and the grace state are untouched.
\<close>
theorem vardiff_accepted_share:
  assumes "vardiff_inv s"
  shows "\<exists>s' r. record_accepted_share now s = Some (s', r) \<and> vardiff_inv s' \<and> adjusted now s (s', r)
    \<and> (\<forall>d. r = Some d \<longrightarrow>
        fle (fround_int (fmul (vd_current_difficulty s) (fdiv (Fin 1) (vc_max_adjust_factor (vd_config s))))) d
        \<and> fle d (fround_int (fmul (vd_current_difficulty s) (vc_max_adjust_factor (vd_config s))))
        \<and> (\<exists>la. vd_last_adjust_at s = Some la \<and> la + secs (vc_min_adjust_secs (vd_config s)) \<le> now))"
  by (rule record_accepted_share_spec [OF assms])

theorem vardiff_accepted_share_witness:
  "\<exists>s s' r. vardiff_new sample_vardiff_config = Some s \<and> record_accepted_share 7 s = Some (s', r)
     \<and> vardiff_inv s'"
  using vardiff_starts [OF sample_vardiff_exact] vardiff_accepted_share [of _ 7] by blast

text \<open>
  A suggested difficulty never panics and keeps the invariant; it is ignored when it is not
  a positive finite number or when the last adjustment is more recent than the cooldown, and it
  moves the difficulty by at most the configured factor in one step, whatever was suggested.
\<close>
theorem vardiff_suggested:
  assumes inv: "vardiff_inv s"
  shows "\<exists>s' r. apply_suggested_difficulty x now s = Some (s', r) \<and> vardiff_inv s' \<and> adjusted now s (s', r)
    \<and> (r = None \<longrightarrow> s' = s)
    \<and> (\<forall>d. r = Some d \<longrightarrow> fis_finite x \<and> flt (Fin 0) x
        \<and> fle (fround_int (fdiv (vd_current_difficulty s) (vc_max_adjust_factor (vd_config s)))) d
        \<and> fle d (fround_int (fmul (vd_current_difficulty s) (vc_max_adjust_factor (vd_config s))))
        \<and> (\<forall>la. vd_last_adjust_at s = Some la \<longrightarrow> la + secs (vc_min_adjust_secs (vd_config s)) \<le> now))"
  by (rule apply_suggested_spec [OF inv])

theorem vardiff_suggested_witness:
  "\<exists>s s' r. vardiff_new sample_vardiff_config = Some s
     \<and> apply_suggested_difficulty (Fin 1000) 7 s = Some (s', r) \<and> vardiff_inv s'"
  using vardiff_starts [OF sample_vardiff_exact] vardiff_suggested [of _ "Fin 1000" 7] by blast

text \<open>A session: shares and suggestions at their times; the times at which the difficulty changed.\<close>

datatype vardiff_op = Share | Suggest f64

fun vardiff_op_step :: "vardiff_op \<Rightarrow> instant \<Rightarrow> vardiff_state \<Rightarrow> (vardiff_state \<times> f64 option) option" where
  "vardiff_op_step Share now s = record_accepted_share now s"
| "vardiff_op_step (Suggest x) now s = apply_suggested_difficulty x now s"

fun vardiff_run :: "(instant \<times> vardiff_op) list \<Rightarrow> vardiff_state \<Rightarrow> (vardiff_state \<times> instant list) option" where
  "vardiff_run [] s = Some (s, [])"
| "vardiff_run ((now, op) # ops) s =
     (case vardiff_op_step op now s of
        None \<Rightarrow> None
      | Some (s', r) \<Rightarrow>
          map_option (\<lambda>(s'', ts). (s'', (case r of None \<Rightarrow> ts | Some _ \<Rightarrow> now # ts))) (vardiff_run ops s'))"

lemma vardiff_op_step_spec:
  assumes "vardiff_inv s"
  shows "\<exists>s' r. vardiff_op_step op now s = Some (s', r) \<and> vardiff_inv s' \<and> adjusted now s (s', r)
    \<and> (r \<noteq> None \<longrightarrow> (\<forall>la. vd_last_adjust_at s = Some la \<longrightarrow> la + secs (vc_min_adjust_secs (vd_config s)) \<le> now))"
  using record_accepted_share_spec [OF assms, of now] apply_suggested_spec [OF assms, of _ now]
  by (cases op) fastforce+

lemma vardiff_run_spec:
  assumes "vardiff_inv s" and "sorted (map fst ops)"
    and "\<And>la t. vd_last_adjust_at s = Some la \<Longrightarrow> t \<in> fst ` set ops \<Longrightarrow> la \<le> t"
  shows "\<exists>s' ts. vardiff_run ops s = Some (s', ts) \<and> vardiff_inv s' \<and> vd_config s' = vd_config s
    \<and> sorted_wrt (\<lambda>a b. a + secs (vc_min_adjust_secs (vd_config s)) \<le> b) ts
    \<and> (\<forall>t \<in> set ts. \<forall>la. vd_last_adjust_at s = Some la \<longrightarrow> la + secs (vc_min_adjust_secs (vd_config s)) \<le> t)"
  using assms
proof (induction ops arbitrary: s)
  case Nil
  then show ?case by simp
next
  case (Cons nop ops)
  obtain now op where nop: "nop = (now, op)" by (cases nop)
  from vardiff_op_step_spec [OF Cons.prems(1), of op now] obtain s' r where
    st: "vardiff_op_step op now s = Some (s', r)" "vardiff_inv s'" "adjusted now s (s', r)"
    and cool: "r \<noteq> None \<longrightarrow> (\<forall>la. vd_last_adjust_at s = Some la \<longrightarrow> la + secs (vc_min_adjust_secs (vd_config s)) \<le> now)"
    by blast
  have cfg: "vd_config s' = vd_config s" using st(3) by (cases r) simp_all
  have la': "vd_last_adjust_at s' = vd_last_adjust_at s \<or> vd_last_adjust_at s' = Some now"
    using st(3) by (cases r) auto
  have le: "la \<le> t" if "vd_last_adjust_at s' = Some la" "t \<in> fst ` set ops" for la t
    using that la' Cons.prems(2) Cons.prems(3) [of la t] by (auto simp: nop)
  from Cons.IH [OF st(2) _ le] Cons.prems(2) obtain s'' ts where
    run: "vardiff_run ops s' = Some (s'', ts)" "vardiff_inv s''" "vd_config s'' = vd_config s"
      "sorted_wrt (\<lambda>a b. a + secs (vc_min_adjust_secs (vd_config s)) \<le> b) ts"
    and after: "\<And>t la. t \<in> set ts \<Longrightarrow> vd_last_adjust_at s' = Some la \<Longrightarrow>
      la + secs (vc_min_adjust_secs (vd_config s)) \<le> t"
    by (auto simp: nop cfg)
  have prev: "la + secs (vc_min_adjust_secs (vd_config s)) \<le> t"
    if "t \<in> set ts" "vd_last_adjust_at s = Some la" for t la
  proof -
    have "la \<le> now" using Cons.prems(3) [of la now] that by (simp add: nop)
    with la' after [OF that(1)] that(2) show ?thesis by fastforce
  qed
  show ?case
  proof (cases r)
    case None
    with st run prev show ?thesis by (simp add: nop)
  next
    case (Some d)
    then have "vd_last_adjust_at s' = Some now" using st(3) by simp
    with Some st run prev after cool show ?thesis by (auto simp: nop)
  qed
qed

text \<open>
  No session ever panics, whatever shares and suggestions arrive in whatever order, its
  difficulty stays an integer within the bounds, and any two changes of difficulty are at least the
  cooldown apart.
\<close>
theorem vardiff_session:
  assumes "f_exact (vc_min_difficulty c)" and "f_exact (vc_max_difficulty c)" and "vardiff_new c = Some s"
    and "sorted (map fst ops)"
  shows "\<exists>s' ts. vardiff_run ops s = Some (s', ts) \<and> vardiff_inv s'
    \<and> sorted_wrt (\<lambda>a b. a + secs (vc_min_adjust_secs (vd_config s)) \<le> b) ts"
proof -
  have "vardiff_inv s" using normalized_ok [OF assms(1,2)] assms(3)
    by (auto simp: vardiff_new_def vardiff_inv_def)
  moreover have "vd_last_adjust_at s = None" using assms(3) 
    by (auto simp: vardiff_new_def split: bind_splits)
  ultimately show ?thesis using vardiff_run_spec [OF _ assms(4), of s] by auto
qed

theorem vardiff_session_witness:
  "\<exists>s s' ts. vardiff_new sample_vardiff_config = Some s
     \<and> vardiff_run [(0, Share), (5, Suggest (Fin 40)), (9, Share)] s = Some (s', ts) \<and> vardiff_inv s'"
proof -
  obtain s where s: "vardiff_new sample_vardiff_config = Some s"
    using normalized_ok [OF sample_vardiff_exact] by (auto simp: vardiff_new_def)
  from vardiff_session [OF sample_vardiff_exact s, of "[(0, Share), (5, Suggest (Fin 40)), (9, Share)]"] s
  show ?thesis by auto
qed

text \<open>
  For the grace period after a raise, and only then, shares of the old difficulty are
  still recognised: right after the difficulty changed, the previous difficulty is offered until the
  transition ends if it is lower than the new one, and never after that.
\<close>
theorem vardiff_grace:
  assumes "vardiff_inv s" and "record_accepted_share now s = Some (s', Some d)"
  shows "previous_difficulty_in_grace t s' =
    (if t \<le> now + secs (vc_transition_grace_secs (vd_config s)) \<and> flt (vd_current_difficulty s) d
     then Some (vd_current_difficulty s) else None)"
  using record_accepted_share_spec [OF assms(1), of now] assms(2)
  by (auto simp: previous_difficulty_in_grace_def)

text \<open>A session at difficulty 8 that answers once a second, against a target of 20 seconds.\<close>

definition sample_vardiff_state :: vardiff_state where
  "sample_vardiff_state = \<lparr>vd_config = \<lparr>vc_initial_difficulty = Fin 8, vc_min_difficulty = Fin (of_int 1),
       vc_max_difficulty = Fin (of_int 64), vc_target_share_secs = 20, vc_ewma_alpha = Fin 1,
       vc_raise_ratio = Fin (1 / 2), vc_lower_ratio = Fin 2, vc_min_adjust_secs = 1,
       vc_max_adjust_factor = Fin 2, vc_transition_grace_secs = 120\<rparr>,
     vd_current_difficulty = Fin (of_int 8), vd_previous_difficulty = None, vd_transition_until = None,
     vd_last_share_at = Some 0, vd_last_adjust_at = Some 0, vd_ewma_share_secs = None\<rparr>"

lemma sample_vardiff_inv: "vardiff_inv sample_vardiff_state"
proof -
  have r: "in_range (vd_config sample_vardiff_state) (Fin (of_int 8))"
    unfolding in_range_def by (intro exI [of _ 8]) (simp add: sample_vardiff_state_def)
  have e: "f_exact (Fin (of_int 1))" "f_exact (Fin (of_int 64))"
    using fround_int_exact [of 1] fround_int_exact [of 64] by (simp_all add: f_exact_def)
  have "config_ok (vd_config sample_vardiff_state)"
    unfolding config_ok_def
  proof (intro conjI)
    show "\<exists>mn mx. vc_min_difficulty (vd_config sample_vardiff_state) = Fin (of_int mn)
        \<and> vc_max_difficulty (vd_config sample_vardiff_state) = Fin (of_int mx) \<and> 1 \<le> mn \<and> mn \<le> mx"
      by (intro exI [of _ 1] exI [of _ 64]) (simp add: sample_vardiff_state_def)
    show "\<exists>r. vc_raise_ratio (vd_config sample_vardiff_state) = Fin r \<and> 0 \<le> r \<and> r < 1"
      by (rule exI [of _ "1 / 2"]) (simp add: sample_vardiff_state_def)
  qed (use e in \<open>simp_all add: sample_vardiff_state_def\<close>)
  with r show ?thesis by (simp add: vardiff_inv_def) (simp add: sample_vardiff_state_def)
qed

lemma sample_vardiff_raise:
  "\<exists>s'. record_accepted_share (10 ^ 9) sample_vardiff_state = Some (s', Some (Fin 16))"
proof -
  have ints: "fround 20 = Fin 20" "fround 80 = Fin 80" "fround 10 = Fin 10" "fround 16 = Fin 16"
    "fround 8 = Fin 8"
    using fround_int_exact [of 20] fround_int_exact [of 80] fround_int_exact [of 10]
      fround_int_exact [of 16] fround_int_exact [of 8] by simp_all
  obtain l where l: "min_elapsed = Fin l" "l \<le> 1"
    using fround_between [of 0 1 "5 / 100"] by (auto simp: min_elapsed_def lit_def)
  obtain h where h: "lit (1 / 100) = Fin h" "h \<le> 1"
    using fround_between [of 0 1 "1 / 100"] by (auto simp: lit_def)
  have "round_away (of_int 16) = 16" by (rule round_away_of_int)
  then have ra: "round_away 16 = 16" by simp
  have el: "as_secs_f64 1000000000 = Fin 1" by (simp add: as_secs_f64_def f_of_nat_def)
  let ?c = "vd_config sample_vardiff_state"
  let ?s0 = "sample_vardiff_state\<lparr>vd_last_share_at := Some (10 ^ 9)\<rparr>"
  let ?s1 = "?s0\<lparr>vd_ewma_share_secs := Some (Fin 1), vd_last_adjust_at := Some 0\<rparr>"
  have c: "vc_target_share_secs ?c = 20" "vc_raise_ratio ?c = Fin (1 / 2)" "vc_max_adjust_factor ?c = Fin 2"
    "vc_min_difficulty ?c = Fin 1" "vc_max_difficulty ?c = Fin 64" "secs (vc_min_adjust_secs ?c) = 10 ^ 9"
    and s: "vd_current_difficulty sample_vardiff_state = Fin 8"
      "vd_last_share_at sample_vardiff_state = Some 0" "vd_last_adjust_at sample_vardiff_state = Some 0"
      "vd_ewma_share_secs sample_vardiff_state = None"
    by (simp_all add: sample_vardiff_state_def secs_def)
  have f: "fmul (Fin 20) (Fin 4) = Fin 80" "fmul (Fin 8) (Fin 2) = Fin 16" "fmul (Fin 20) (Fin (1 / 2)) = Fin 10"
    "fdiv (Fin 20) (Fin 1) = Fin 20" "f_of_nat 20 = Fin 20"
    by (simp_all add: ints f_of_nat_def)
  have cl: "fclamp (Fin 1) (Fin l) (Fin 80) = Some (Fin 1)" using l(2) by (simp add: fclamp_def)
  have "record_accepted_share (10 ^ 9) sample_vardiff_state = adjust_to_ewma (10 ^ 9) (Fin 20) (Fin 1) ?s0"
    unfolding record_accepted_share_def s option.case Let_def
    by (simp add: c f el cl l(1) next_ewma_def s del: fmul.simps fdiv.simps)
  also have "\<dots> = apply_difficulty (Fin 16) (10 ^ 9) ?s1"
  proof -
    have d: "desired_factor ?c (Fin 20) (Fin 1) = Some (Some (Fin 2))"
      by (simp add: desired_factor_def c f fclamp_def del: fmul.simps fdiv.simps)
    have q: "fclamp (Fin 16) (Fin 1) (Fin 64) = Some (Fin 16)"
      "quantize_difficulty ?c (Fin 16) = Some (Fin 16)"
      by (simp_all add: c fclamp_def quantize_difficulty_def ra)
    have r: "\<not> flt (relative_difference (Fin 16) (Fin 8)) (lit (1 / 100))"
      using h by (simp add: relative_difference_def feq_def fsub_def ints)
    show ?thesis
      by (simp add: adjust_to_ewma_def Let_def s c d f q r del: fmul.simps fdiv.simps)
  qed
  also have "\<dots> = Some (set_difficulty (Fin 16) (10 ^ 9) ?s1, Some (Fin 16))"
  proof -
    have "quantize_difficulty ?c (Fin 16) = Some (Fin 16)"
      by (simp add: c fclamp_def quantize_difficulty_def ra)
    moreover have "\<not> flt (relative_difference (Fin 16) (Fin 8)) (lit (1 / 100))"
      using h by (simp add: relative_difference_def feq_def fsub_def ints)
    ultimately show ?thesis by (simp add: apply_difficulty_def s set_difficulty_def)
  qed
  finally show ?thesis by blast
qed

theorem vardiff_grace_witness:
  "\<exists>s'. previous_difficulty_in_grace (121 * 10 ^ 9) s' = Some (Fin 8)
     \<and> previous_difficulty_in_grace (122 * 10 ^ 9) s' = None"
proof -
  obtain s' where s': "record_accepted_share (10 ^ 9) sample_vardiff_state = Some (s', Some (Fin 16))"
    using sample_vardiff_raise by blast
  from vardiff_grace [OF sample_vardiff_inv s', of "121 * 10 ^ 9"]
    vardiff_grace [OF sample_vardiff_inv s', of "122 * 10 ^ 9"]
  show ?thesis by (intro exI [of _ s']) (simp add: sample_vardiff_state_def secs_def)
qed

end
