(* ===== verification/Csd_Protocol.thy ===== *)
theory Csd_Protocol
  imports Csd_Json
begin

text \<open>
  Crate \<open>csd-pool-protocol\<close>: the Stratum messages, their parsers and their builders. The \<open>hex\<close>
  decoder is a parameter. The serialization of a request to text is \<open>serde_json\<close>'s and not modelled:
  messages are JSON values.
\<close>

section \<open>Data\<close>

datatype protocol_error =
    ExpectedArray string
  | PWrongLength string nat nat
  | NotString string
  | NotBool string
  | NotU64 string
  | PInvalidHex string

record request =
  rq_id :: "u64 option"
  rq_method :: string
  rq_params :: json

record response =
  rs_id :: "u64 option"
  rs_result :: json
  rs_error :: "json option"

record subscribe_result =
  sr_extranonce1_hex :: string
  sr_extranonce2_size :: u64

record notify_params =
  np_job_id :: string
  np_prev_hash_be_hex :: string
  np_coinb1_hex :: string
  np_coinb2_hex :: string
  np_merkle_branches_hex :: "string list"
  np_version_hex :: string
  np_nbits_hex :: string
  np_ntime_hex :: string
  np_clean_jobs :: bool

record submit_params =
  sp_worker_name :: string
  sp_job_id :: string
  sp_extranonce2_hex :: string
  sp_ntime_hex :: string
  sp_nonce_hex :: string

section \<open>Parsers\<close>

definition parse_array :: "json \<Rightarrow> string \<Rightarrow> protocol_error + json list" where
  "parse_array value field = ok_or (ExpectedArray field) (json_as_array value)"

definition str_at :: "json list \<Rightarrow> nat \<Rightarrow> string \<Rightarrow> protocol_error + string" where
  "str_at arr index field = ok_or (NotString field) (json_as_str (arr ! index))"

definition validate_hex ::
  "(string \<Rightarrow> bytes option) \<Rightarrow> string \<Rightarrow> string \<Rightarrow> protocol_error + unit" where
  "validate_hex hexd field value =
     (case hexd value of None \<Rightarrow> Inl (PInvalidHex field) | Some _ \<Rightarrow> Inr ())"

definition subscribe_result_parse ::
  "(string \<Rightarrow> bytes option) \<Rightarrow> json \<Rightarrow> protocol_error + subscribe_result" where
  "subscribe_result_parse hexd result =
     result_bind (parse_array result ''mining.subscribe result'') (\<lambda>arr.
     if length arr < 3 then Inl (PWrongLength ''mining.subscribe result'' 3 (length arr))
     else
       result_bind (str_at arr 1 ''extranonce1_hex'') (\<lambda>extranonce1_hex.
       result_bind (validate_hex hexd ''extranonce1_hex'' extranonce1_hex) (\<lambda>_.
       result_bind (ok_or (NotU64 ''extranonce2_size'') (json_as_u64 (arr ! 2))) (\<lambda>size.
       Inr \<lparr>sr_extranonce1_hex = extranonce1_hex, sr_extranonce2_size = size\<rparr>))))"

definition parse_branch :: "(string \<Rightarrow> bytes option) \<Rightarrow> json \<Rightarrow> protocol_error + string" where
  "parse_branch hexd v =
     result_bind (ok_or (NotString ''merkle_branch'') (json_as_str v)) (\<lambda>h.
     result_bind (validate_hex hexd ''merkle_branch'' h) (\<lambda>_. Inr h))"

definition notify_params_parse ::
  "(string \<Rightarrow> bytes option) \<Rightarrow> json \<Rightarrow> protocol_error + notify_params" where
  "notify_params_parse hexd params =
     result_bind (parse_array params ''mining.notify params'') (\<lambda>arr.
     if length arr \<noteq> 9 then Inl (PWrongLength ''mining.notify params'' 9 (length arr))
     else
       result_bind (str_at arr 0 ''job_id'') (\<lambda>job_id.
       result_bind (str_at arr 1 ''prev_hash_be_hex'') (\<lambda>prev.
       result_bind (str_at arr 2 ''coinb1_hex'') (\<lambda>coinb1.
       result_bind (str_at arr 3 ''coinb2_hex'') (\<lambda>coinb2.
       result_bind (str_at arr 5 ''version_hex'') (\<lambda>version.
       result_bind (str_at arr 6 ''nbits_hex'') (\<lambda>nbits.
       result_bind (str_at arr 7 ''ntime_hex'') (\<lambda>ntime.
       result_bind (ok_or (NotBool ''clean_jobs'') (json_as_bool (arr ! 8))) (\<lambda>clean_jobs.
       result_bind (check_all (\<lambda>(field, value). validate_hex hexd field value)
         [(''prev_hash_be_hex'', prev), (''coinb1_hex'', coinb1), (''coinb2_hex'', coinb2),
          (''version_hex'', version), (''nbits_hex'', nbits), (''ntime_hex'', ntime)]) (\<lambda>_.
       result_bind (parse_array (arr ! 4) ''merkle_branches_hex'') (\<lambda>branches.
       result_bind (map_result (parse_branch hexd) branches) (\<lambda>merkle_branches_hex.
       Inr \<lparr>np_job_id = job_id, np_prev_hash_be_hex = prev, np_coinb1_hex = coinb1,
            np_coinb2_hex = coinb2, np_merkle_branches_hex = merkle_branches_hex,
            np_version_hex = version, np_nbits_hex = nbits, np_ntime_hex = ntime,
            np_clean_jobs = clean_jobs\<rparr>))))))))))))"

definition submit_params_parse ::
  "(string \<Rightarrow> bytes option) \<Rightarrow> json \<Rightarrow> protocol_error + submit_params" where
  "submit_params_parse hexd params =
     result_bind (parse_array params ''mining.submit params'') (\<lambda>arr.
     if length arr \<noteq> 5 then Inl (PWrongLength ''mining.submit params'' 5 (length arr))
     else
       result_bind (str_at arr 0 ''worker_name'') (\<lambda>worker_name.
       result_bind (str_at arr 1 ''job_id'') (\<lambda>job_id.
       result_bind (str_at arr 2 ''extranonce2_hex'') (\<lambda>extranonce2.
       result_bind (str_at arr 3 ''ntime_hex'') (\<lambda>ntime.
       result_bind (str_at arr 4 ''nonce_hex'') (\<lambda>nonce.
       result_bind (check_all (\<lambda>(field, value). validate_hex hexd field value)
         [(''extranonce2_hex'', extranonce2), (''ntime_hex'', ntime), (''nonce_hex'', nonce)]) (\<lambda>_.
       Inr \<lparr>sp_worker_name = worker_name, sp_job_id = job_id, sp_extranonce2_hex = extranonce2,
            sp_ntime_hex = ntime, sp_nonce_hex = nonce\<rparr>)))))))"

section \<open>Builders\<close>

definition subscribe_request :: "u64 \<Rightarrow> string \<Rightarrow> request" where
  "subscribe_request rid user_agent =
     \<lparr>rq_id = Some rid, rq_method = ''mining.subscribe'', rq_params = JArray [JString user_agent]\<rparr>"

definition authorize_request :: "u64 \<Rightarrow> string \<Rightarrow> request" where
  "authorize_request rid worker =
     \<lparr>rq_id = Some rid, rq_method = ''mining.authorize'',
      rq_params = JArray [JString worker, JString ''x'']\<rparr>"

definition set_difficulty_request :: "f64 \<Rightarrow> request" where
  "set_difficulty_request difficulty =
     \<lparr>rq_id = None, rq_method = ''mining.set_difficulty'', rq_params = JArray [json_of_f64 difficulty]\<rparr>"

definition notify :: "notify_params \<Rightarrow> request" where
  "notify p =
     \<lparr>rq_id = None, rq_method = ''mining.notify'',
      rq_params = JArray [JString (np_job_id p), JString (np_prev_hash_be_hex p),
        JString (np_coinb1_hex p), JString (np_coinb2_hex p),
        JArray (map JString (np_merkle_branches_hex p)), JString (np_version_hex p),
        JString (np_nbits_hex p), JString (np_ntime_hex p), JBool (np_clean_jobs p)]\<rparr>"

definition submit_request :: "u64 \<Rightarrow> submit_params \<Rightarrow> request" where
  "submit_request rid s =
     \<lparr>rq_id = Some rid, rq_method = ''mining.submit'',
      rq_params = JArray [JString (sp_worker_name s), JString (sp_job_id s),
        JString (sp_extranonce2_hex s), JString (sp_ntime_hex s), JString (sp_nonce_hex s)]\<rparr>"

definition response_ok :: "u64 \<Rightarrow> response" where
  "response_ok rid = \<lparr>rs_id = Some rid, rs_result = JBool True, rs_error = None\<rparr>"

text \<open>An \<open>i64\<close> as a JSON number.\<close>

definition json_of_i64 :: "int \<Rightarrow> json" where
  "json_of_i64 i = (if 0 \<le> i then JPos (word_of_int i) else JNeg i)"

definition response_error :: "u64 \<Rightarrow> int \<Rightarrow> string \<Rightarrow> response" where
  "response_error rid code message =
     \<lparr>rs_id = Some rid, rs_result = JBool False,
      rs_error = Some (JArray [json_of_i64 code, JString message, JNull])\<rparr>"

section \<open>Properties\<close>

definition is_hex :: "(string \<Rightarrow> bytes option) \<Rightarrow> string \<Rightarrow> bool" where
  "is_hex hexd s \<longleftrightarrow> hexd s \<noteq> None"

lemma validate_hex_Inr [simp]: "validate_hex hexd field value = Inr u \<longleftrightarrow> is_hex hexd value"
  by (cases u) (auto simp: validate_hex_def is_hex_def split: option.splits)

lemma parse_branch_Inr [simp]: "parse_branch hexd v = Inr h \<longleftrightarrow> v = JString h \<and> is_hex hexd h"
  by (auto simp: parse_branch_def result_bind_eq_Inr)

lemma parse_branches_Inr:
  "map_result (parse_branch hexd) vs = Inr hs \<longleftrightarrow> vs = map JString hs \<and> list_all (is_hex hexd) hs"
  unfolding map_result_Inr
proof (induction vs arbitrary: hs)
  case Nil
  then show ?case by auto
next
  case (Cons v vs)
  then show ?case by (cases hs) auto
qed

lemma parse_array_Inr [simp]: "parse_array v field = Inr arr \<longleftrightarrow> v = JArray arr"
  by (simp add: parse_array_def)

lemma str_at_Inr [simp]: "str_at arr i field = Inr s \<longleftrightarrow> arr ! i = JString s"
  by (simp add: str_at_def)

lemma if_Inl_Inr: "(if b then Inl e else r) = Inr x \<longleftrightarrow> \<not> b \<and> r = Inr x"
  by auto

text \<open>
  The notify parser accepts exactly what the notify builder produces from fields that are
  hexadecimal: parsing is the inverse of building, in both directions, and everything else is an
  error.
\<close>
theorem notify_roundtrip:
  "notify_params_parse hexd v = Inr p \<longleftrightarrow>
     v = rq_params (notify p)
     \<and> list_all (is_hex hexd) [np_prev_hash_be_hex p, np_coinb1_hex p, np_coinb2_hex p,
          np_version_hex p, np_nbits_hex p, np_ntime_hex p]
     \<and> list_all (is_hex hexd) (np_merkle_branches_hex p)"
  (is "?l \<longleftrightarrow> ?r")
proof
  assume ?l
  then show ?r
    by (auto simp: notify_params_parse_def result_bind_eq_Inr if_Inl_Inr length_numeral_conv
        check_all_Inr parse_branches_Inr notify_def)
next
  assume ?r
  then show ?l
    by (cases p) (auto simp: notify_params_parse_def notify_def result_bind_eq_Inr check_all_Inr
        parse_branches_Inr)
qed

text \<open>
  The submit parser accepts exactly what the submit builder produces from hexadecimal
  extranonce, time and nonce fields, in both directions; everything else is an error.
\<close>
theorem submit_roundtrip:
  "submit_params_parse hexd v = Inr s \<longleftrightarrow>
     v = rq_params (submit_request rid s)
     \<and> list_all (is_hex hexd) [sp_extranonce2_hex s, sp_ntime_hex s, sp_nonce_hex s]"
  (is "?l \<longleftrightarrow> ?r")
proof
  assume ?l
  then show ?r
    by (auto simp: submit_params_parse_def result_bind_eq_Inr if_Inl_Inr length_numeral_conv
        check_all_Inr submit_request_def)
next
  assume ?r
  then show ?l
    by (simp add: submit_params_parse_def submit_request_def result_bind_eq_Inr check_all_Inr)
qed

end
