(* ===== verification/Csd_State.thy ===== *)
theory Csd_State
  imports Csd_F64 Csd_Permits
begin

text \<open>
  Crate \<open>csd-pool-state\<close>: the pool's shared statistics. Every method takes the write lock for its
  whole body, so it is one step on \<open>pool_state\<close>. The clock is read where the code reads it: \<open>now\<close>
  and \<open>now'\<close> are the readings of \<open>now_ts\<close> in the order of the code (seconds), and a \<open>Duration\<close> comes in
  as its \<open>as_secs_f64\<close>. The map of workers is a \<open>BTreeMap\<close>.
\<close>

section \<open>Data\<close>

record worker_snapshot =
  ws_shares_accepted :: u64
  ws_shares_rejected :: u64
  ws_shares_stale :: u64
  ws_blocks_found :: u64
  ws_last_difficulty :: f64
  ws_last_seen_ts :: u64
  ws_share_difficulty_sum :: f64
  ws_first_share_ts :: "u64 option"
  ws_last_share_ts :: "u64 option"

record timing_stats =
  tm_sum :: f64
  tm_max :: f64

record pool_state =
  st_workers :: "(string, worker_snapshot) btree"
  st_shares_accepted :: u64
  st_shares_rejected :: u64
  st_shares_stale :: u64
  st_stale_notify_delivery_lag :: u64
  st_stale_miner_switch_lag :: u64
  st_stale_generation_unclassified :: u64
  st_blocks_found :: u64
  st_stratum_connections :: u64
  st_share_validation_count :: u64
  st_share_validation_seconds_sum :: f64
  st_candidate_propagation_count :: u64
  st_candidate_detected_to_submit :: timing_stats
  st_candidate_node_roundtrip :: timing_stats
  st_candidate_record :: timing_stats
  st_candidate_total :: timing_stats
  st_candidate_node_accept_count :: u64
  st_candidate_node_accept :: timing_stats
  st_candidate_relay_enqueue_count :: u64
  st_candidate_relay_enqueue :: timing_stats
  st_job_notify_count :: u64
  st_job_tip_change_count :: u64
  st_job_heartbeat_count :: u64
  st_last_job_notify_ts :: "u64 option"
  st_share_difficulty_sum :: f64
  st_round_share_difficulty_sum :: f64
  st_recent_accepted_shares :: "(u64 \<times> f64) list"
  st_first_share_ts :: "u64 option"
  st_last_share_ts :: "u64 option"
  st_updated_ts :: u64

definition worker_default :: worker_snapshot where
  "worker_default = \<lparr>ws_shares_accepted = 0, ws_shares_rejected = 0, ws_shares_stale = 0,
     ws_blocks_found = 0, ws_last_difficulty = Fin 0, ws_last_seen_ts = 0,
     ws_share_difficulty_sum = Fin 0, ws_first_share_ts = None, ws_last_share_ts = None\<rparr>"

definition timing_default :: timing_stats where
  "timing_default = \<lparr>tm_sum = Fin 0, tm_max = Fin 0\<rparr>"

definition pool_state_default :: pool_state where
  "pool_state_default = \<lparr>st_workers = [], st_shares_accepted = 0, st_shares_rejected = 0,
     st_shares_stale = 0, st_stale_notify_delivery_lag = 0, st_stale_miner_switch_lag = 0,
     st_stale_generation_unclassified = 0, st_blocks_found = 0, st_stratum_connections = 0,
     st_share_validation_count = 0, st_share_validation_seconds_sum = Fin 0,
     st_candidate_propagation_count = 0, st_candidate_detected_to_submit = timing_default,
     st_candidate_node_roundtrip = timing_default, st_candidate_record = timing_default,
     st_candidate_total = timing_default, st_candidate_node_accept_count = 0,
     st_candidate_node_accept = timing_default, st_candidate_relay_enqueue_count = 0,
     st_candidate_relay_enqueue = timing_default, st_job_notify_count = 0,
     st_job_tip_change_count = 0, st_job_heartbeat_count = 0, st_last_job_notify_ts = None,
     st_share_difficulty_sum = Fin 0, st_round_share_difficulty_sum = Fin 0,
     st_recent_accepted_shares = [], st_first_share_ts = None, st_last_share_ts = None,
     st_updated_ts = 0\<rparr>"

definition difficulty_one_hashes :: f64 where
  "difficulty_one_hashes = Fin 4294967296"

definition hashrate_window_secs :: u64 where
  "hashrate_window_secs = 300"

section \<open>Operations\<close>

definition get_worker :: "string \<Rightarrow> pool_state \<Rightarrow> worker_snapshot" where
  "get_worker address s =
     (case bt_get (st_workers s) address of None \<Rightarrow> worker_default | Some w \<Rightarrow> w)"

definition put_worker :: "string \<Rightarrow> worker_snapshot \<Rightarrow> pool_state \<Rightarrow> pool_state" where
  "put_worker address w s = s\<lparr>st_workers := bt_insert address w (st_workers s)\<rparr>"

definition get_or_insert :: "'a option \<Rightarrow> 'a \<Rightarrow> 'a option" where
  "get_or_insert x d = (case x of None \<Rightarrow> Some d | Some v \<Rightarrow> Some v)"

definition connection_opened :: "u64 \<Rightarrow> pool_state \<Rightarrow> pool_state" where
  "connection_opened now s =
     s\<lparr>st_stratum_connections := st_stratum_connections s + 1, st_updated_ts := now\<rparr>"

definition connection_closed :: "u64 \<Rightarrow> pool_state \<Rightarrow> pool_state" where
  "connection_closed now s =
     s\<lparr>st_stratum_connections := sat_sub (st_stratum_connections s) 1, st_updated_ts := now\<rparr>"

definition record_authorized_worker :: "u64 \<Rightarrow> u64 \<Rightarrow> string \<Rightarrow> pool_state \<Rightarrow> pool_state" where
  "record_authorized_worker now now' address s =
     (put_worker address ((get_worker address s)\<lparr>ws_last_seen_ts := now\<rparr>) s)\<lparr>st_updated_ts := now'\<rparr>"

text \<open>The loop that drops the samples older than the window from the front of the queue.\<close>

definition trim_window :: "u64 \<Rightarrow> (u64 \<times> f64) list \<Rightarrow> (u64 \<times> f64) list" where
  "trim_window now samples =
     dropWhile (\<lambda>(timestamp, _). hashrate_window_secs < sat_sub now timestamp) samples"

definition accepted_worker :: "u64 \<Rightarrow> f64 \<Rightarrow> bool \<Rightarrow> worker_snapshot \<Rightarrow> worker_snapshot" where
  "accepted_worker now difficulty is_block_candidate w =
     w\<lparr>ws_shares_accepted := ws_shares_accepted w + 1,
       ws_last_difficulty := difficulty,
       ws_last_seen_ts := now,
       ws_first_share_ts := get_or_insert (ws_first_share_ts w) now,
       ws_last_share_ts := Some now,
       ws_share_difficulty_sum := fadd (ws_share_difficulty_sum w) (fmax difficulty (Fin 0)),
       ws_blocks_found := (if is_block_candidate then ws_blocks_found w + 1 else ws_blocks_found w)\<rparr>"

definition record_share_accepted :: "u64 \<Rightarrow> string \<Rightarrow> f64 \<Rightarrow> bool \<Rightarrow> pool_state \<Rightarrow> pool_state" where
  "record_share_accepted now address difficulty is_block_candidate s =
     (let s = s\<lparr>st_recent_accepted_shares :=
                  trim_window now (st_recent_accepted_shares s @ [(now, fmax difficulty (Fin 0))])\<rparr>;
          s = put_worker address
                (accepted_worker now difficulty is_block_candidate (get_worker address s)) s;
          round_sum = fadd (st_round_share_difficulty_sum s) (fmax difficulty (Fin 0))
      in s\<lparr>st_blocks_found := (if is_block_candidate then st_blocks_found s + 1 else st_blocks_found s),
           st_shares_accepted := st_shares_accepted s + 1,
           st_first_share_ts := get_or_insert (st_first_share_ts s) now,
           st_last_share_ts := Some now,
           st_share_difficulty_sum := fadd (st_share_difficulty_sum s) (fmax difficulty (Fin 0)),
           st_round_share_difficulty_sum := (if is_block_candidate then Fin 0 else round_sum),
           st_updated_ts := now\<rparr>)"

definition record_share_rejected :: "u64 \<Rightarrow> u64 \<Rightarrow> string \<Rightarrow> pool_state \<Rightarrow> pool_state" where
  "record_share_rejected now now' address s =
     (let w = get_worker address s;
          s = put_worker address
                (w\<lparr>ws_shares_rejected := ws_shares_rejected w + 1, ws_last_seen_ts := now\<rparr>) s
      in s\<lparr>st_shares_rejected := st_shares_rejected s + 1, st_updated_ts := now'\<rparr>)"

definition record_share_stale :: "u64 \<Rightarrow> u64 \<Rightarrow> string \<Rightarrow> pool_state \<Rightarrow> pool_state" where
  "record_share_stale now now' address s =
     (let w = get_worker address s;
          s = put_worker address
                (w\<lparr>ws_shares_stale := ws_shares_stale w + 1, ws_last_seen_ts := now\<rparr>) s
      in s\<lparr>st_shares_stale := st_shares_stale s + 1, st_updated_ts := now'\<rparr>)"

definition record_stale_generation_fence :: "u64 \<Rightarrow> string \<Rightarrow> pool_state \<Rightarrow> pool_state" where
  "record_stale_generation_fence now reason s =
     (if reason = ''notify_delivery_lag''
      then s\<lparr>st_stale_notify_delivery_lag := st_stale_notify_delivery_lag s + 1, st_updated_ts := now\<rparr>
      else if reason = ''miner_switch_lag''
      then s\<lparr>st_stale_miner_switch_lag := st_stale_miner_switch_lag s + 1, st_updated_ts := now\<rparr>
      else s\<lparr>st_stale_generation_unclassified := st_stale_generation_unclassified s + 1,
             st_updated_ts := now\<rparr>)"

definition record_share_validation :: "u64 \<Rightarrow> f64 \<Rightarrow> pool_state \<Rightarrow> pool_state" where
  "record_share_validation now elapsed s =
     s\<lparr>st_share_validation_count := st_share_validation_count s + 1,
       st_share_validation_seconds_sum := fadd (st_share_validation_seconds_sum s) elapsed,
       st_updated_ts := now\<rparr>"

definition timing_record :: "f64 \<Rightarrow> timing_stats \<Rightarrow> timing_stats" where
  "timing_record seconds t = \<lparr>tm_sum = fadd (tm_sum t) seconds, tm_max = fmax (tm_max t) seconds\<rparr>"

definition record_candidate_propagation ::
  "u64 \<Rightarrow> f64 \<Rightarrow> f64 \<Rightarrow> f64 \<Rightarrow> f64 \<Rightarrow> f64 option \<Rightarrow> f64 option \<Rightarrow> pool_state \<Rightarrow> pool_state" where
  "record_candidate_propagation now detected_to_submit_start node_roundtrip candidate_record total_time
       node_accept relay_enqueue s =
     (let s = s\<lparr>st_candidate_propagation_count := st_candidate_propagation_count s + 1,
                st_candidate_detected_to_submit :=
                  timing_record detected_to_submit_start (st_candidate_detected_to_submit s),
                st_candidate_node_roundtrip := timing_record node_roundtrip (st_candidate_node_roundtrip s),
                st_candidate_record := timing_record candidate_record (st_candidate_record s),
                st_candidate_total := timing_record total_time (st_candidate_total s)\<rparr>;
          s = (case node_accept of None \<Rightarrow> s | Some a \<Rightarrow>
                 s\<lparr>st_candidate_node_accept_count := st_candidate_node_accept_count s + 1,
                   st_candidate_node_accept := timing_record a (st_candidate_node_accept s)\<rparr>);
          s = (case relay_enqueue of None \<Rightarrow> s | Some r \<Rightarrow>
                 s\<lparr>st_candidate_relay_enqueue_count := st_candidate_relay_enqueue_count s + 1,
                   st_candidate_relay_enqueue := timing_record r (st_candidate_relay_enqueue s)\<rparr>)
      in s\<lparr>st_updated_ts := now\<rparr>)"

definition record_job_notify :: "u64 \<Rightarrow> u64 \<Rightarrow> string \<Rightarrow> pool_state \<Rightarrow> pool_state" where
  "record_job_notify now now' reason s =
     (let s = s\<lparr>st_job_notify_count := st_job_notify_count s + 1\<rparr>;
          s = (if reason = ''heartbeat'' then s\<lparr>st_job_heartbeat_count := st_job_heartbeat_count s + 1\<rparr>
               else if reason = ''tip_change''
               then s\<lparr>st_job_tip_change_count := st_job_tip_change_count s + 1\<rparr> else s)
      in s\<lparr>st_last_job_notify_ts := Some now, st_updated_ts := now'\<rparr>)"

section \<open>Hashrates\<close>

definition estimated_hashrate :: "f64 \<Rightarrow> u64 option \<Rightarrow> u64 option \<Rightarrow> f64" where
  "estimated_hashrate difficulty_sum first_ts last_ts =
     (case (first_ts, last_ts) of
        (Some first_ts, Some last_ts) \<Rightarrow>
          (let elapsed = sat_sub last_ts first_ts in
           if elapsed = 0 \<or> fle difficulty_sum (Fin 0) then Fin 0
           else fdiv (fmul difficulty_sum difficulty_one_hashes) (f_of_nat (unat elapsed)))
      | _ \<Rightarrow> Fin 0)"

definition worker_hashrate_hs :: "worker_snapshot \<Rightarrow> f64" where
  "worker_hashrate_hs w =
     estimated_hashrate (ws_share_difficulty_sum w) (ws_first_share_ts w) (ws_last_share_ts w)"

definition rolling_hashrate :: "(u64 \<times> f64) list \<Rightarrow> f64" where
  "rolling_hashrate samples =
     (if samples = [] then Fin 0
      else
        let elapsed = max (sat_sub (fst (last samples)) (fst (hd samples))) 1;
            difficulty_sum = foldl fadd (Fin 0) (map snd samples)
        in fdiv (fmul difficulty_sum difficulty_one_hashes) (f_of_nat (unat elapsed)))"

section \<open>Snapshots\<close>

record totals_snapshot =
  to_workers_online :: u64
  to_shares_accepted :: u64
  to_shares_rejected :: u64
  to_shares_stale :: u64
  to_stale_notify_delivery_lag :: u64
  to_stale_miner_switch_lag :: u64
  to_stale_generation_unclassified :: u64
  to_blocks_found :: u64
  to_stratum_connections :: u64
  to_share_validation_count :: u64
  to_share_validation_seconds_sum :: f64
  to_candidate_propagation_count :: u64
  to_candidate_detected_to_submit_seconds_sum :: f64
  to_candidate_detected_to_submit_seconds_max :: f64
  to_candidate_node_roundtrip_seconds_sum :: f64
  to_candidate_node_roundtrip_seconds_max :: f64
  to_candidate_record_seconds_sum :: f64
  to_candidate_record_seconds_max :: f64
  to_candidate_total_seconds_sum :: f64
  to_candidate_total_seconds_max :: f64
  to_candidate_node_accept_count :: u64
  to_candidate_node_accept_seconds_sum :: f64
  to_candidate_node_accept_seconds_max :: f64
  to_candidate_relay_enqueue_count :: u64
  to_candidate_relay_enqueue_seconds_sum :: f64
  to_candidate_relay_enqueue_seconds_max :: f64
  to_job_notify_count :: u64
  to_job_tip_change_count :: u64
  to_job_heartbeat_count :: u64
  to_last_job_notify_ts :: "u64 option"
  to_share_difficulty_sum :: f64
  to_round_share_difficulty_sum :: f64
  to_pool_hashrate_hs :: f64

record pool_snapshot =
  sn_workers :: "(string, worker_snapshot) btree"
  sn_totals :: totals_snapshot
  sn_updated_ts :: u64

definition snapshot_totals :: "pool_state \<Rightarrow> totals_snapshot" where
  "snapshot_totals s =
     \<lparr>to_workers_online = of_nat (length (st_workers s)),
      to_shares_accepted = st_shares_accepted s,
      to_shares_rejected = st_shares_rejected s,
      to_shares_stale = st_shares_stale s,
      to_stale_notify_delivery_lag = st_stale_notify_delivery_lag s,
      to_stale_miner_switch_lag = st_stale_miner_switch_lag s,
      to_stale_generation_unclassified = st_stale_generation_unclassified s,
      to_blocks_found = st_blocks_found s,
      to_stratum_connections = st_stratum_connections s,
      to_share_validation_count = st_share_validation_count s,
      to_share_validation_seconds_sum = st_share_validation_seconds_sum s,
      to_candidate_propagation_count = st_candidate_propagation_count s,
      to_candidate_detected_to_submit_seconds_sum = tm_sum (st_candidate_detected_to_submit s),
      to_candidate_detected_to_submit_seconds_max = tm_max (st_candidate_detected_to_submit s),
      to_candidate_node_roundtrip_seconds_sum = tm_sum (st_candidate_node_roundtrip s),
      to_candidate_node_roundtrip_seconds_max = tm_max (st_candidate_node_roundtrip s),
      to_candidate_record_seconds_sum = tm_sum (st_candidate_record s),
      to_candidate_record_seconds_max = tm_max (st_candidate_record s),
      to_candidate_total_seconds_sum = tm_sum (st_candidate_total s),
      to_candidate_total_seconds_max = tm_max (st_candidate_total s),
      to_candidate_node_accept_count = st_candidate_node_accept_count s,
      to_candidate_node_accept_seconds_sum = tm_sum (st_candidate_node_accept s),
      to_candidate_node_accept_seconds_max = tm_max (st_candidate_node_accept s),
      to_candidate_relay_enqueue_count = st_candidate_relay_enqueue_count s,
      to_candidate_relay_enqueue_seconds_sum = tm_sum (st_candidate_relay_enqueue s),
      to_candidate_relay_enqueue_seconds_max = tm_max (st_candidate_relay_enqueue s),
      to_job_notify_count = st_job_notify_count s,
      to_job_tip_change_count = st_job_tip_change_count s,
      to_job_heartbeat_count = st_job_heartbeat_count s,
      to_last_job_notify_ts = st_last_job_notify_ts s,
      to_share_difficulty_sum = st_share_difficulty_sum s,
      to_round_share_difficulty_sum = st_round_share_difficulty_sum s,
      to_pool_hashrate_hs = rolling_hashrate (st_recent_accepted_shares s)\<rparr>"

definition pool_snapshot :: "pool_state \<Rightarrow> pool_snapshot" where
  "pool_snapshot s =
     \<lparr>sn_workers = st_workers s, sn_totals = snapshot_totals s, sn_updated_ts = st_updated_ts s\<rparr>"

section \<open>The events of the pool\<close>

datatype pool_event =
    EvConnect u64
  | EvDisconnect u64
  | EvAuthorized u64 u64 string
  | EvAccepted u64 string f64 bool
  | EvRejected u64 u64 string
  | EvStale u64 u64 string
  | EvFence u64 string
  | EvValidation u64 f64
  | EvPropagation u64 f64 f64 f64 f64 "f64 option" "f64 option"
  | EvNotify u64 u64 string

fun pool_step :: "pool_state \<Rightarrow> pool_event \<Rightarrow> pool_state" where
  "pool_step s (EvConnect now) = connection_opened now s"
| "pool_step s (EvDisconnect now) = connection_closed now s"
| "pool_step s (EvAuthorized now now' a) = record_authorized_worker now now' a s"
| "pool_step s (EvAccepted now a d b) = record_share_accepted now a d b s"
| "pool_step s (EvRejected now now' a) = record_share_rejected now now' a s"
| "pool_step s (EvStale now now' a) = record_share_stale now now' a s"
| "pool_step s (EvFence now r) = record_stale_generation_fence now r s"
| "pool_step s (EvValidation now e) = record_share_validation now e s"
| "pool_step s (EvPropagation now a b c d e f) = record_candidate_propagation now a b c d e f s"
| "pool_step s (EvNotify now now' r) = record_job_notify now now' r s"

definition pool_run :: "pool_event list \<Rightarrow> pool_state" where
  "pool_run events = foldl pool_step pool_state_default events"

definition totals_ok :: "pool_state \<Rightarrow> bool" where
  "totals_ok s \<longleftrightarrow> bt_wf (st_workers s)
     \<and> st_shares_accepted s = bt_sum ws_shares_accepted (st_workers s)
     \<and> st_shares_rejected s = bt_sum ws_shares_rejected (st_workers s)
     \<and> st_shares_stale s = bt_sum ws_shares_stale (st_workers s)
     \<and> st_blocks_found s = bt_sum ws_blocks_found (st_workers s)"

lemma put_worker_fields [simp]:
  "st_workers (put_worker a w s) = bt_insert a w (st_workers s)"
  "st_shares_accepted (put_worker a w s) = st_shares_accepted s"
  "st_shares_rejected (put_worker a w s) = st_shares_rejected s"
  "st_shares_stale (put_worker a w s) = st_shares_stale s"
  "st_blocks_found (put_worker a w s) = st_blocks_found s"
  "st_recent_accepted_shares (put_worker a w s) = st_recent_accepted_shares s"
  "st_stratum_connections (put_worker a w s) = st_stratum_connections s"
  by (simp_all add: put_worker_def)

lemma sum_put_worker:
  "bt_wf (st_workers s) \<Longrightarrow> f worker_default = 0 \<Longrightarrow>
     bt_sum f (bt_insert a w (st_workers s)) = bt_sum f (st_workers s) - f (get_worker a s) + f w"
  by (auto simp: bt_sum_insert get_worker_def split: option.splits)

lemma pool_step_totals [csd_inv]: "totals_ok s \<Longrightarrow> totals_ok (pool_step s e)"
  by (cases e)
    (auto simp: totals_ok_def connection_opened_def connection_closed_def record_authorized_worker_def
      record_share_accepted_def record_share_rejected_def record_share_stale_def accepted_worker_def
      record_stale_generation_fence_def record_share_validation_def record_candidate_propagation_def
      record_job_notify_def sum_put_worker worker_default_def get_worker_def Let_def
      split: option.splits)

text \<open>
  The pool totals are the sums over the workers: after any sequence of events the accepted,
  rejected and stale shares and the blocks of the pool are the sums of those of its workers.
\<close>
theorem pool_totals:
  "let snap = pool_snapshot (pool_run events) in
     to_shares_accepted (sn_totals snap) = bt_sum ws_shares_accepted (sn_workers snap)
     \<and> to_shares_rejected (sn_totals snap) = bt_sum ws_shares_rejected (sn_workers snap)
     \<and> to_shares_stale (sn_totals snap) = bt_sum ws_shares_stale (sn_workers snap)
     \<and> to_blocks_found (sn_totals snap) = bt_sum ws_blocks_found (sn_workers snap)"
proof -
  have "totals_ok s \<Longrightarrow> totals_ok (foldl pool_step s events)" for s
    by (induction events arbitrary: s) (simp_all add: csd_inv)
  moreover have "totals_ok pool_state_default"
    by (simp add: totals_ok_def pool_state_default_def)
  ultimately have "totals_ok (pool_run events)" by (simp add: pool_run_def)
  then show ?thesis by (simp add: totals_ok_def pool_snapshot_def snapshot_totals_def Let_def)
qed

text \<open>The samples of the accepted shares, in order.\<close>

fun accepted_samples :: "pool_event list \<Rightarrow> (u64 \<times> f64) list" where
  "accepted_samples [] = []"
| "accepted_samples (EvAccepted now a d b # es) = (now, fmax d (Fin 0)) # accepted_samples es"
| "accepted_samples (_ # es) = accepted_samples es"

lemma accepted_samples_append: "accepted_samples (es @ fs) = accepted_samples es @ accepted_samples fs"
  by (induction es rule: accepted_samples.induct) auto

lemma dropWhile_sorted_filter:
  assumes "sorted (map f xs)" and "\<And>x y. f x \<le> f y \<Longrightarrow> P y \<Longrightarrow> P x"
  shows "dropWhile P xs = filter (\<lambda>x. \<not> P x) xs"
  using assms(1)
proof (induction xs)
  case Nil
  then show ?case by simp
next
  case (Cons x xs)
  show ?case
  proof (cases "P x")
    case True
    with Cons show ?thesis by simp
  next
    case False
    then have "\<forall>y \<in> set xs. \<not> P y" using Cons.prems assms(2) by auto
    with False show ?thesis by simp
  qed
qed

definition in_window :: "u64 \<Rightarrow> u64 \<times> f64 \<Rightarrow> bool" where
  "in_window now sample \<longleftrightarrow> unat now - unat (fst sample) \<le> 300"

lemma trim_window_filter:
  assumes "sorted (map fst xs)"
  shows "trim_window now xs = filter (in_window now) xs"
proof -
  have P: "(case x of (timestamp, d) \<Rightarrow> hashrate_window_secs < sat_sub now timestamp) = (\<not> in_window now x)" for x
    by (cases x) (simp add: in_window_def hashrate_window_secs_def word_less_nat_alt unat_sat_sub not_le)
  have "dropWhile (\<lambda>x. \<not> in_window now x) xs = filter (\<lambda>x. \<not> \<not> in_window now x) xs"
    by (rule dropWhile_sorted_filter [OF assms]) (auto simp: in_window_def word_le_nat_alt)
  then show ?thesis unfolding trim_window_def P by simp
qed

lemma recent_other:
  "accepted_samples [e] = [] \<Longrightarrow> st_recent_accepted_shares (pool_step s e) = st_recent_accepted_shares s"
  by (cases e)
    (auto simp: connection_opened_def connection_closed_def record_authorized_worker_def
      record_share_rejected_def record_share_stale_def record_stale_generation_fence_def
      record_share_validation_def record_candidate_propagation_def record_job_notify_def Let_def
      split: option.splits)

text \<open>
  The hashrate window is exact: with a clock that does not go back, the samples kept are
  those accepted at most 300 seconds before the last accepted share, all of them and in order.
\<close>
theorem rolling_window_exact:
  assumes "sorted (map fst (accepted_samples events))" and "accepted_samples events \<noteq> []"
  shows "st_recent_accepted_shares (pool_run events) =
    filter (in_window (fst (last (accepted_samples events)))) (accepted_samples events)"
  using assms
proof (induction events rule: rev_induct)
  case Nil
  then show ?case by simp
next
  case (snoc e es)
  let ?old = "accepted_samples es"
  have step: "pool_run (es @ [e]) = pool_step (pool_run es) e" by (simp add: pool_run_def)
  show ?case
  proof (cases "accepted_samples [e] = []")
    case True
    with snoc show ?thesis by (simp add: step recent_other accepted_samples_append)
  next
    case False
    then obtain now a d b where e: "e = EvAccepted now a d b" by (cases e) auto
    let ?new = "(now, fmax d (Fin 0))"
    have srt: "sorted (map fst ?old)" and below: "\<forall>x \<in> set ?old. fst x \<le> now"
      using snoc.prems(1) by (auto simp: accepted_samples_append e sorted_append)
    have recent: "filter (in_window now) (st_recent_accepted_shares (pool_run es)) = filter (in_window now) ?old
        \<and> sorted (map fst (st_recent_accepted_shares (pool_run es)))
        \<and> set (st_recent_accepted_shares (pool_run es)) \<subseteq> set ?old"
    proof (cases "?old = []")
      case True
      have "accepted_samples es = [] \<Longrightarrow> st_recent_accepted_shares (pool_run es) = []"
      proof (induction es rule: rev_induct)
        case Nil
        then show ?case by (simp add: pool_run_def pool_state_default_def)
      next
        case (snoc e es)
        then show ?case by (simp add: pool_run_def recent_other accepted_samples_append)
      qed
      with True show ?thesis by simp
    next
      case False
      have "fst (last ?old) \<le> now" using below False by simp
      then have "filter (in_window now) (filter (in_window (fst (last ?old))) ?old) = filter (in_window now) ?old"
        unfolding filter_filter
        by (intro filter_cong) (auto simp: in_window_def word_le_nat_alt)
      with snoc.IH [OF srt False] srt show ?thesis by (simp add: sorted_filter)
    qed
    have "sorted (map fst (st_recent_accepted_shares (pool_run es) @ [?new]))"
      using recent below by (auto simp: sorted_append)
    from trim_window_filter [OF this, of now] recent show ?thesis
      by (simp add: step [unfolded e] e record_share_accepted_def Let_def accepted_samples_append)
  qed
qed

theorem rolling_window_exact_witness:
  "st_recent_accepted_shares (pool_run [EvAccepted 10 ''a'' (Fin 1) False, EvAccepted 400 ''a'' (Fin 2) False]) =
     [(400, Fin 2)]"
  using rolling_window_exact [of "[EvAccepted 10 ''a'' (Fin 1) False, EvAccepted 400 ''a'' (Fin 2) False]"]
  by (simp add: in_window_def)

end
