(* ===== verification/Csd_Jobs.thy ===== *)
theory Csd_Jobs
  imports Csd_Consensus Csd_Protocol Csd_Abuse
begin

text \<open>
  Crate \<open>csd-pool-bridge\<close>: the jobs the pool hands out. \<open>RetainedJobs\<close> keeps the published jobs for
  late shares and knows which parents are invalid, the tip sentinel compares two nodes, and one
  iteration of the refresh loop decides whether a new job is published. The node, the clock, the
  repository and the telemetry are outside: an iteration takes what they answered. A hash map whose
  values are iterated is an ordered map (no use depends on its order).
\<close>

section \<open>Data\<close>

record pool_job =
  pj_notify :: notify_params
  pj_template :: work_template

datatype job_reason = TipChange | Heartbeat

fun job_reason_as_str :: "job_reason \<Rightarrow> string" where
  "job_reason_as_str TipChange = ''tip_change''"
| "job_reason_as_str Heartbeat = ''heartbeat''"

definition job_reason_from_job :: "pool_job \<Rightarrow> job_reason" where
  "job_reason_from_job job = (if np_clean_jobs (pj_notify job) then TipChange else Heartbeat)"

record retained_job =
  rt_job :: pool_job
  rt_published_at :: instant
  rt_clean_generation :: u64

record retained_jobs =
  rj_inner :: "(string, retained_job) btree"
  rj_invalidated_parents :: "hash32 set"
  rj_current_clean_generation :: u64

datatype stale_generation_class = NotifyDeliveryLag | MinerSwitchLag | Unclassified

fun stale_generation_class_as_str :: "stale_generation_class \<Rightarrow> string" where
  "stale_generation_class_as_str NotifyDeliveryLag = ''notify_delivery_lag''"
| "stale_generation_class_as_str MinerSwitchLag = ''miner_switch_lag''"
| "stale_generation_class_as_str Unclassified = ''unclassified''"

abbreviation job_id_of :: "pool_job \<Rightarrow> string" where
  "job_id_of job \<equiv> wt_job_id (pj_template job)"

abbreviation parent_of :: "pool_job \<Rightarrow> hash32" where
  "parent_of job \<equiv> wt_prev (pj_template job)"

section \<open>Retained jobs\<close>

definition retained_with_initial :: "instant \<Rightarrow> pool_job \<Rightarrow> retained_jobs" where
  "retained_with_initial now job =
     \<lparr>rj_inner = bt_insert (job_id_of job)
        \<lparr>rt_job = job, rt_published_at = now, rt_clean_generation = 1\<rparr> [],
      rj_invalidated_parents = {}, rj_current_clean_generation = 1\<rparr>"

definition retained_get :: "retained_jobs \<Rightarrow> string \<Rightarrow> pool_job option" where
  "retained_get r job_id = map_option rt_job (bt_get (rj_inner r) job_id)"

definition parent_is_invalidated :: "retained_jobs \<Rightarrow> hash32 \<Rightarrow> bool" where
  "parent_is_invalidated r parent = (parent \<in> rj_invalidated_parents r)"

definition get_for_submit :: "retained_jobs \<Rightarrow> string \<Rightarrow> pool_job option" where
  "get_for_submit r job_id =
     (case retained_get r job_id of
        None \<Rightarrow> None
      | Some job \<Rightarrow> if \<not> parent_is_invalidated r (parent_of job) then Some job else None)"

definition job_parent_is_invalidated :: "retained_jobs \<Rightarrow> string \<Rightarrow> bool" where
  "job_parent_is_invalidated r job_id =
     (case retained_get r job_id of None \<Rightarrow> False | Some job \<Rightarrow> parent_is_invalidated r (parent_of job))"

definition clean_generation :: "retained_jobs \<Rightarrow> string \<Rightarrow> u64 option" where
  "clean_generation r job_id = map_option rt_clean_generation (bt_get (rj_inner r) job_id)"

definition stale_generation_class :: "retained_jobs \<Rightarrow> string \<Rightarrow> u64 \<Rightarrow> stale_generation_class" where
  "stale_generation_class r job_id last_delivered_generation =
     (let current_generation = rj_current_clean_generation r in
      if last_delivered_generation < current_generation then NotifyDeliveryLag
      else if (case clean_generation r job_id of None \<Rightarrow> False
               | Some submitted_generation \<Rightarrow> submitted_generation < current_generation)
      then MinerSwitchLag else Unclassified)"

definition publish :: "instant \<Rightarrow> pool_job \<Rightarrow> job_reason \<Rightarrow> nat \<Rightarrow> retained_jobs \<Rightarrow> retained_jobs" where
  "publish now job reason retention r =
     (let generation = (case reason of
            TipChange \<Rightarrow> sat_add (rj_current_clean_generation r) 1
          | Heartbeat \<Rightarrow> rj_current_clean_generation r);
          counter = (case reason of
            TipChange \<Rightarrow> rj_current_clean_generation r + 1
          | Heartbeat \<Rightarrow> rj_current_clean_generation r);
          jobs = filter (\<lambda>(_, entry). now - rt_published_at entry \<le> retention) (rj_inner r);
          retained_parents = set (map (\<lambda>entry. parent_of (rt_job entry)) (bt_values jobs));
          invalidated = rj_invalidated_parents r;
          invalidated = (if reason = TipChange
             then invalidated \<union> Set.filter (\<lambda>parent. parent \<noteq> parent_of job) retained_parents
             else invalidated);
          invalidated = Set.filter (\<lambda>parent. parent \<in> retained_parents) invalidated;
          invalidated = invalidated - {parent_of job}
      in \<lparr>rj_inner = bt_insert (job_id_of job)
             \<lparr>rt_job = job, rt_published_at = now, rt_clean_generation = generation\<rparr> jobs,
          rj_invalidated_parents = invalidated,
          rj_current_clean_generation = counter\<rparr>)"

definition invalidate_parent :: "hash32 \<Rightarrow> retained_jobs \<Rightarrow> retained_jobs \<times> nat" where
  "invalidate_parent parent r =
     (r\<lparr>rj_invalidated_parents := insert parent (rj_invalidated_parents r)\<rparr>,
      length (filter (\<lambda>entry. parent_of (rt_job entry) = parent) (bt_values (rj_inner r))))"

definition parent_is_retained :: "retained_jobs \<Rightarrow> hash32 \<Rightarrow> bool" where
  "parent_is_retained r parent =
     (\<not> parent_is_invalidated r parent
      \<and> list_ex (\<lambda>entry. parent_of (rt_job entry) = parent) (bt_values (rj_inner r)))"

section \<open>The tip sentinel\<close>

record node_health =
  nh_height :: "u64 option"
  nh_tip :: "string option"
  nh_chainwork :: "string option"
  nh_peers :: "u64 option"

record observed_node_tip =
  ot_height :: u64
  ot_tip_hex :: string
  ot_chainwork_hex :: string

record tip_sentinel_observation =
  ob_primary :: observed_node_tip
  ob_secondary :: observed_node_tip
  ob_observed_unix_ms :: u64

definition strip_prefix :: "string \<Rightarrow> string \<Rightarrow> string option" where
  "strip_prefix p s = (if take (length p) s = p then Some (drop (length p) s) else None)"

definition strip_0x :: "string \<Rightarrow> string" where
  "strip_0x value =
     (case strip_prefix ''0x'' (trim value) of
        Some v \<Rightarrow> v
      | None \<Rightarrow> (case strip_prefix ''0X'' (trim value) of Some v \<Rightarrow> v | None \<Rightarrow> trim value))"

definition canonical_health_hash :: "string \<Rightarrow> string + string" where
  "canonical_health_hash value =
     (let value = strip_0x value in
      if length value \<noteq> 64 \<or> \<not> list_all is_ascii_hexdigit value
      then Inl ''tip sentinel tip is not canonical 32-byte hex''
      else Inr (to_ascii_lowercase value))"

definition trim_start_zeros :: "string \<Rightarrow> string" where
  "trim_start_zeros s = dropWhile (\<lambda>c. c = CHR ''0'') s"

definition canonical_chainwork :: "string \<Rightarrow> string + string" where
  "canonical_chainwork value =
     (let value = strip_0x value in
      if value = [] \<or> \<not> list_all is_ascii_hexdigit value
      then Inl ''tip sentinel chainwork is not hex''
      else
        let normalized = trim_start_zeros value in
        Inr (if normalized = [] then ''0'' else to_ascii_lowercase normalized))"

definition chainwork_at_least :: "string \<Rightarrow> string \<Rightarrow> bool" where
  "chainwork_at_least left right =
     (let left = trim_start_zeros left; right = trim_start_zeros right in
      length right < length left \<or> length left = length right \<and> right \<le> left)"

definition observed_from_health :: "node_health \<Rightarrow> string + observed_node_tip" where
  "observed_from_health health =
     result_bind (ok_or ''tip sentinel health is missing height'' (nh_height health)) (\<lambda>height.
     result_bind (result_bind (ok_or ''tip sentinel health is missing tip'' (nh_tip health))
       canonical_health_hash) (\<lambda>tip_hex.
     result_bind (result_bind (ok_or ''tip sentinel health is missing chainwork'' (nh_chainwork health))
       canonical_chainwork) (\<lambda>chainwork_hex.
     Inr \<lparr>ot_height = height, ot_tip_hex = tip_hex, ot_chainwork_hex = chainwork_hex\<rparr>)))"

text \<open>An observation: both health calls, each of which may have timed out or failed.\<close>

definition sentinel_observe ::
  "string + node_health \<Rightarrow> string + node_health \<Rightarrow> u64 \<Rightarrow> string + tip_sentinel_observation" where
  "sentinel_observe primary secondary unix_ms =
     result_bind primary (\<lambda>p.
     result_bind secondary (\<lambda>s.
     result_bind (observed_from_health p) (\<lambda>primary.
     result_bind (observed_from_health s) (\<lambda>secondary.
     Inr \<lparr>ob_primary = primary, ob_secondary = secondary, ob_observed_unix_ms = unix_ms\<rparr>))))"

definition tip_sentinel_invalidates_parent ::
  "(bytes \<Rightarrow> string) \<Rightarrow> hash32 \<Rightarrow> tip_sentinel_observation \<Rightarrow> bool" where
  "tip_sentinel_invalidates_parent hexe current_parent observation =
     (if ot_tip_hex (ob_primary observation) \<noteq> hexe current_parent then True
      else
        ot_height (ob_primary observation) < ot_height (ob_secondary observation)
        \<or> ot_height (ob_secondary observation) = ot_height (ob_primary observation)
          \<and> ot_tip_hex (ob_secondary observation) \<noteq> ot_tip_hex (ob_primary observation)
          \<and> chainwork_at_least (ot_chainwork_hex (ob_secondary observation))
              (ot_chainwork_hex (ob_primary observation)))"

section \<open>The refresh loop\<close>

definition bounded_template_refresh_secs :: "u64 \<Rightarrow> string \<Rightarrow> u64" where
  "bounded_template_refresh_secs requested template_mode =
     (let requested = max requested 1 in
      if eq_ignore_ascii_case (trim template_mode) ''live'' then min requested 5 else requested)"

record job_watch =
  jw_current :: pool_job
  jw_retained :: retained_jobs
  jw_last_publish_at :: instant

text \<open>What the world answers during one iteration; None is a failed call.\<close>

record refresh_input =
  ri_observation :: "tip_sentinel_observation option"
  ri_heartbeat :: "nat option"
  ri_now :: instant
  ri_first_tip :: "hash32 option option"
  ri_job :: "pool_job option"
  ri_second_tip :: "hash32 option option"
  ri_persisted :: bool
  ri_retention :: nat

definition set_clean_jobs :: "bool \<Rightarrow> pool_job \<Rightarrow> pool_job" where
  "set_clean_jobs b job = job\<lparr>pj_notify := (pj_notify job)\<lparr>np_clean_jobs := b\<rparr>\<rparr>"

definition job_watch_start :: "instant \<Rightarrow> pool_job \<Rightarrow> job_watch" where
  "job_watch_start now job =
     (let initial = set_clean_jobs True job in
      \<lparr>jw_current = initial, jw_retained = retained_with_initial now initial, jw_last_publish_at = now\<rparr>)"

definition sentinel_forced :: "(bytes \<Rightarrow> string) \<Rightarrow> refresh_input \<Rightarrow> pool_job \<Rightarrow> bool" where
  "sentinel_forced hexe inp current =
     (case ri_observation inp of
        None \<Rightarrow> False
      | Some observation \<Rightarrow> tip_sentinel_invalidates_parent hexe (parent_of current) observation)"

definition heartbeat_due :: "refresh_input \<Rightarrow> job_watch \<Rightarrow> bool" where
  "heartbeat_due inp w =
     (case ri_heartbeat inp of None \<Rightarrow> False | Some h \<Rightarrow> h \<le> ri_now inp - jw_last_publish_at w)"

text \<open>From the fetched job on: the checks that may discard it, and the publication.\<close>

definition consider_job ::
  "refresh_input \<Rightarrow> hash32 option \<Rightarrow> pool_job \<Rightarrow> job_watch \<Rightarrow> job_watch \<times> job_reason option" where
  "consider_job inp observed_tip job w =
     (let current = jw_current w in
      case ri_second_tip inp of
        None \<Rightarrow> (w, None)
      | Some tip2 \<Rightarrow>
          let latest_tip = (case tip2 of None \<Rightarrow> observed_tip | Some t \<Rightarrow> Some t) in
          if (case latest_tip of None \<Rightarrow> False | Some tip \<Rightarrow> parent_of job \<noteq> tip) then (w, None)
          else if \<not> parent_is_retained (jw_retained w) (parent_of job) \<and> parent_of job = parent_of current
          then (w, None)
          else
            let reason = (if parent_of job \<noteq> parent_of current then TipChange else Heartbeat);
                job = set_clean_jobs (reason = TipChange) job
            in if job_id_of job = job_id_of current then (w, None)
               else if \<not> ri_persisted inp then (w, None)
               else (\<lparr>jw_current = job,
                      jw_retained = publish (ri_now inp) job reason (ri_retention inp) (jw_retained w),
                      jw_last_publish_at = ri_now inp\<rparr>, Some reason))"

definition refresh_step ::
  "(bytes \<Rightarrow> string) \<Rightarrow> refresh_input \<Rightarrow> job_watch \<Rightarrow> job_watch \<times> job_reason option" where
  "refresh_step hexe inp w =
     (let current = jw_current w;
          forced = sentinel_forced hexe inp current;
          w = (if forced
               then w\<lparr>jw_retained := fst (invalidate_parent (parent_of current) (jw_retained w))\<rparr>
               else w)
      in case ri_first_tip inp of
           None \<Rightarrow> (w, None)
         | Some observed_tip \<Rightarrow>
             if observed_tip = Some (parent_of current) \<and> \<not> heartbeat_due inp w \<and> \<not> forced then (w, None)
             else (case ri_job inp of
                     None \<Rightarrow> (w, None)
                   | Some job \<Rightarrow> consider_job inp observed_tip job w))"

definition job_watch_run :: "(bytes \<Rightarrow> string) \<Rightarrow> refresh_input list \<Rightarrow> job_watch \<Rightarrow> job_watch" where
  "job_watch_run hexe inputs w = foldl (\<lambda>w inp. fst (refresh_step hexe inp w)) w inputs"

section \<open>Fencing of stale jobs\<close>

lemma parent_set_clean [simp]: "parent_of (set_clean_jobs b job) = parent_of job"
  by (simp add: set_clean_jobs_def)

lemma job_id_set_clean [simp]: "job_id_of (set_clean_jobs b job) = job_id_of job"
  by (simp add: set_clean_jobs_def)

lemma bt_wf_filter [simp]: "bt_wf m \<Longrightarrow> bt_wf (filter P m)"
  by (simp add: bt_wf_def sorted_wrt_map sorted_wrt_filter)

lemma bt_get_filter:
  "bt_wf m \<Longrightarrow> bt_get (filter P m) k = Some v \<longleftrightarrow> bt_get m k = Some v \<and> P (k, v)"
  by (simp add: bt_get_in_set)

text \<open>
  The invariant: the current job is retained, and a retained job of another parent is fenced.
\<close>

definition watch_inv :: "job_watch \<Rightarrow> bool" where
  "watch_inv w \<longleftrightarrow> bt_wf (rj_inner (jw_retained w))
     \<and> retained_get (jw_retained w) (job_id_of (jw_current w)) = Some (jw_current w)
     \<and> (\<forall>job_id job. retained_get (jw_retained w) job_id = Some job
          \<longrightarrow> job_id_of job = job_id
            \<and> (parent_of job = parent_of (jw_current w) \<or> parent_is_invalidated (jw_retained w) (parent_of job)))"

lemma watch_inv_start: "watch_inv (job_watch_start now job)"
  by (auto simp: watch_inv_def job_watch_start_def retained_with_initial_def retained_get_def
      bt_get_def Let_def bt_wf_Cons)

lemma watch_inv_invalidate:
  "watch_inv w \<Longrightarrow> watch_inv (w\<lparr>jw_retained := fst (invalidate_parent p (jw_retained w))\<rparr>)"
  by (auto simp: watch_inv_def invalidate_parent_def retained_get_def parent_is_invalidated_def)

lemma retained_get_publish:
  assumes "bt_wf (rj_inner r)" and "retained_get (publish now job reason retention r) job_id = Some j"
  shows "(job_id = job_id_of job \<and> j = job) \<or> retained_get r job_id = Some j"
  using assms
  by (auto simp: publish_def Let_def retained_get_def bt_get_insert bt_get_filter split: if_splits)

lemma publish_fences:
  assumes "bt_wf (rj_inner r)" and "retained_get (publish now job reason retention r) job_id = Some j"
    and "job_id \<noteq> job_id_of job" and "parent_of j \<noteq> parent_of job"
    and "reason = TipChange \<or> parent_is_invalidated r (parent_of j)"
  shows "parent_is_invalidated (publish now job reason retention r) (parent_of j)"
proof -
  let ?jobs = "filter (\<lambda>(_, entry). now - rt_published_at entry \<le> retention) (rj_inner r)"
  from assms obtain e where "bt_get ?jobs job_id = Some e" and e: "rt_job e = j"
    by (auto simp: publish_def Let_def retained_get_def bt_get_insert)
  then have "(job_id, e) \<in> set ?jobs" using assms(1) by (simp add: bt_get_in_set)
  then have "parent_of j \<in> set (map (\<lambda>entry. parent_of (rt_job entry)) (bt_values ?jobs))"
    using e by (force simp: bt_values_def)
  with assms(4,5) show ?thesis
    by (auto simp: publish_def Let_def parent_is_invalidated_def)
qed

lemma watch_inv_consider: "watch_inv w \<Longrightarrow> watch_inv (fst (consider_job inp tip job w))"
proof -
  assume inv: "watch_inv w"
  let ?res = "consider_job inp tip job w"
  show ?thesis
  proof (cases "snd ?res")
    case None
    then have "fst ?res = w"
      by (auto simp: consider_job_def Let_def split: option.splits if_splits)
    with inv show ?thesis by simp
  next
    case (Some reason)
    let ?j = "set_clean_jobs (reason = TipChange) job"
    from Some have w': "fst ?res = \<lparr>jw_current = ?j,
        jw_retained = publish (ri_now inp) ?j reason (ri_retention inp) (jw_retained w),
        jw_last_publish_at = ri_now inp\<rparr>"
      and reason: "reason = (if parent_of job \<noteq> parent_of (jw_current w) then TipChange else Heartbeat)"
      by (auto simp: consider_job_def Let_def split: option.splits if_splits)
    let ?r = "jw_retained w"
    have wf: "bt_wf (rj_inner ?r)" using inv by (simp add: watch_inv_def)
    have "parent_of j = parent_of job \<or> parent_is_invalidated (publish (ri_now inp) ?j reason (ri_retention inp) ?r) (parent_of j)"
      if g: "retained_get (publish (ri_now inp) ?j reason (ri_retention inp) ?r) job_id = Some j" for job_id j
    proof (cases "job_id = job_id_of job \<or> parent_of j = parent_of job")
      case True
      then show ?thesis using g wf
        by (auto simp: publish_def Let_def retained_get_def bt_get_insert)
    next
      case False
      have "retained_get ?r job_id = Some j"
        using retained_get_publish [OF wf g] False by simp
      then have "parent_of j = parent_of (jw_current w) \<or> parent_is_invalidated ?r (parent_of j)"
        using inv unfolding watch_inv_def by blast
      then have "reason = TipChange \<or> parent_is_invalidated ?r (parent_of j)"
        using reason False by (auto split: if_splits)
      then show ?thesis using publish_fences [OF wf g] False by simp
    qed
    moreover have "job_id_of j = job_id"
      if g: "retained_get (publish (ri_now inp) ?j reason (ri_retention inp) ?r) job_id = Some j" for job_id j
      using retained_get_publish [OF wf g] inv by (auto simp: watch_inv_def)
    moreover have "bt_wf (rj_inner (publish (ri_now inp) ?j reason (ri_retention inp) ?r))"
      "retained_get (publish (ri_now inp) ?j reason (ri_retention inp) ?r) (job_id_of job) = Some ?j"
      using wf by (simp_all add: publish_def Let_def retained_get_def bt_get_insert)
    ultimately show ?thesis unfolding w' by (simp add: watch_inv_def)
  qed
qed

lemma watch_inv_step [csd_inv]: "watch_inv w \<Longrightarrow> watch_inv (fst (refresh_step hexe inp w))"
  by (auto simp: refresh_step_def Let_def watch_inv_consider watch_inv_invalidate split: option.splits)

lemma watch_inv_run: "watch_inv w \<Longrightarrow> watch_inv (job_watch_run hexe inputs w)"
  unfolding job_watch_run_def by (induction inputs arbitrary: w) (simp_all add: csd_inv)

text \<open>
  C8. Stale work is fenced: however the refresh loop runs, the current job is always retained,
  a job accepted for submission is filed under the identifier it was asked for and builds on the parent
  of the current job, and the current job itself is accepted unless that parent was invalidated. There is
  no look at the expiry of a job here.
\<close>
theorem jobs_fenced:
  "let w = job_watch_run hexe inputs (job_watch_start now job) in
     (\<forall>job_id j. get_for_submit (jw_retained w) job_id = Some j \<longrightarrow>
        job_id_of j = job_id \<and> parent_of j = parent_of (jw_current w))
     \<and> get_for_submit (jw_retained w) (job_id_of (jw_current w)) =
         (if parent_is_invalidated (jw_retained w) (parent_of (jw_current w)) then None
          else Some (jw_current w))"
  using watch_inv_run [OF watch_inv_start, of hexe inputs now job]
  by (auto simp: Let_def watch_inv_def get_for_submit_def split: option.splits if_splits)

definition sample_notify :: notify_params where
  "sample_notify = \<lparr>np_job_id = ''1'', np_prev_hash_be_hex = '''', np_coinb1_hex = '''',
     np_coinb2_hex = '''', np_merkle_branches_hex = [], np_version_hex = '''', np_nbits_hex = '''',
     np_ntime_hex = '''', np_clean_jobs = True\<rparr>"

definition sample_job :: pool_job where
  "sample_job = \<lparr>pj_notify = sample_notify, pj_template = sample_template\<rparr>"

definition sample_next_job :: pool_job where
  "sample_next_job = sample_job\<lparr>pj_template :=
     sample_template\<lparr>wt_job_id := ''2'', wt_prev := replicate 32 1\<rparr>\<rparr>"

definition sample_input :: refresh_input where
  "sample_input = \<lparr>ri_observation = None, ri_heartbeat = None, ri_now = 5,
     ri_first_tip = Some (Some (replicate 32 1)), ri_job = Some sample_next_job,
     ri_second_tip = Some None, ri_persisted = True, ri_retention = 100\<rparr>"

theorem jobs_fenced_witness:
  "get_for_submit (jw_retained (job_watch_run hex_encode [sample_input] (job_watch_start 0 sample_job))) ''1''
     = None"
proof -
  let ?w = "job_watch_run hex_encode [sample_input] (job_watch_start 0 sample_job)"
  have n: "replicate 32 (0 :: u8) \<noteq> replicate 32 1" by (simp add: numeral_eq_Suc)
  have p: "parent_of (jw_current ?w) = replicate 32 1"
    using n by (simp add: job_watch_run_def refresh_step_def sample_input_def sentinel_forced_def
        consider_job_def sample_next_job_def sample_job_def sample_template_def job_watch_start_def
        Let_def set_clean_jobs_def)
  have r: "retained_get (jw_retained ?w) ''1'' = Some (set_clean_jobs True sample_job)"
    using n by (simp add: job_watch_run_def refresh_step_def sample_input_def sentinel_forced_def
        consider_job_def sample_next_job_def sample_job_def sample_template_def job_watch_start_def
        Let_def set_clean_jobs_def publish_def retained_get_def retained_with_initial_def bt_get_def)
  have f: "\<forall>job_id j. get_for_submit (jw_retained ?w) job_id = Some j \<longrightarrow>
      job_id_of j = job_id \<and> parent_of j = parent_of (jw_current ?w)"
    using jobs_fenced [of hex_encode "[sample_input]" 0 sample_job] unfolding Let_def by blast
  show ?thesis
  proof (cases "get_for_submit (jw_retained ?w) ''1''")
    case (Some j)
    then have "parent_of j = replicate 32 1" using f p by simp
    moreover have "j = set_clean_jobs True sample_job"
      using Some r by (auto simp: get_for_submit_def split: if_splits)
    ultimately show ?thesis using n by (simp add: sample_job_def sample_template_def)
  qed simp
qed

text \<open>The reasons of the jobs published during a run.\<close>

fun job_watch_trace ::
  "(bytes \<Rightarrow> string) \<Rightarrow> refresh_input list \<Rightarrow> job_watch \<Rightarrow> job_watch \<times> job_reason option list" where
  "job_watch_trace hexe [] w = (w, [])"
| "job_watch_trace hexe (inp # inputs) w =
     (case refresh_step hexe inp w of (w', reason) \<Rightarrow>
        case job_watch_trace hexe inputs w' of (w'', reasons) \<Rightarrow> (w'', reason # reasons))"

definition current_fenced :: "job_watch \<Rightarrow> bool" where
  "current_fenced w \<longleftrightarrow> watch_inv w \<and> parent_is_invalidated (jw_retained w) (parent_of (jw_current w))"

lemma current_fenced_none: "current_fenced w \<Longrightarrow> get_for_submit (jw_retained w) job_id = None"
proof (cases "retained_get (jw_retained w) job_id")
  case None
  then show ?thesis by (simp add: get_for_submit_def)
next
  case (Some j)
  moreover assume "current_fenced w"
  ultimately have "parent_is_invalidated (jw_retained w) (parent_of j)"
    unfolding current_fenced_def watch_inv_def by metis
  with Some show ?thesis by (simp add: get_for_submit_def)
qed

lemma current_fenced_consider:
  assumes "current_fenced w" and "snd (consider_job inp tip job w) \<noteq> Some TipChange"
  shows "fst (consider_job inp tip job w) = w"
  using assms
  by (auto simp: consider_job_def Let_def current_fenced_def parent_is_retained_def
      split: option.splits if_splits)

lemma current_fenced_invalidate:
  assumes "watch_inv w"
  shows "current_fenced (w\<lparr>jw_retained :=
    fst (invalidate_parent (parent_of (jw_current w)) (jw_retained w))\<rparr>)"
  using watch_inv_invalidate [OF assms, of "parent_of (jw_current w)"]
  by (simp add: current_fenced_def invalidate_parent_def parent_is_invalidated_def)

lemma current_fenced_step:
  assumes inv: "watch_inv w" and start: "current_fenced w \<or> sentinel_forced hexe inp (jw_current w)"
    and no: "snd (refresh_step hexe inp w) \<noteq> Some TipChange"
  shows "current_fenced (fst (refresh_step hexe inp w))"
proof -
  let ?w = "if sentinel_forced hexe inp (jw_current w)
    then w\<lparr>jw_retained := fst (invalidate_parent (parent_of (jw_current w)) (jw_retained w))\<rparr> else w"
  have f: "current_fenced ?w"
    using start current_fenced_invalidate [OF inv] by auto
  have "refresh_step hexe inp w = (?w, None) \<or>
      (\<exists>tip job. refresh_step hexe inp w = consider_job inp tip job ?w)"
    unfolding refresh_step_def Let_def
    by (cases "ri_first_tip inp"; cases "ri_job inp") auto
  then show ?thesis
  proof
    assume "refresh_step hexe inp w = (?w, None)"
    then show ?thesis using f by simp
  next
    assume "\<exists>tip job. refresh_step hexe inp w = consider_job inp tip job ?w"
    then obtain tip job where e: "refresh_step hexe inp w = consider_job inp tip job ?w" by blast
    from current_fenced_consider [OF f no [unfolded e]] f show ?thesis unfolding e by simp
  qed
qed

lemma current_fenced_trace:
  "current_fenced w \<Longrightarrow> Some TipChange \<notin> set (snd (job_watch_trace hexe inputs w)) \<Longrightarrow>
     current_fenced (fst (job_watch_trace hexe inputs w))"
proof (induction inputs arbitrary: w)
  case Nil
  then show ?case by simp
next
  case (Cons inp inputs)
  obtain w' r where s: "refresh_step hexe inp w = (w', r)" by fastforce
  obtain w'' rs where t: "job_watch_trace hexe inputs w' = (w'', rs)" by fastforce
  from Cons.prems have "r \<noteq> Some TipChange" "Some TipChange \<notin> set rs" by (auto simp: s t)
  moreover have "current_fenced w'"
    using current_fenced_step [of w hexe inp] Cons.prems(1) \<open>r \<noteq> Some TipChange\<close>
    by (simp add: s current_fenced_def)
  ultimately show ?case using Cons.IH [of w'] by (simp add: s t)
qed

text \<open>
  C31. A parent that the tip sentinel found stale stays fenced: from the iteration in which the
  sentinel reports it until a job on another parent is published, no retained job is accepted for
  submission, whatever the node, the heartbeat and later observations do.
\<close>
theorem sentinel_fence_holds:
  assumes "w = job_watch_run hexe before (job_watch_start now job)"
    and "sentinel_forced hexe inp (jw_current w)"
    and "Some TipChange \<notin> set (snd (job_watch_trace hexe (inp # inputs) w))"
  shows "get_for_submit (jw_retained (fst (job_watch_trace hexe (inp # inputs) w))) job_id = None"
proof -
  have inv: "watch_inv w" unfolding assms(1) by (rule watch_inv_run [OF watch_inv_start])
  obtain w' r where s: "refresh_step hexe inp w = (w', r)" by fastforce
  obtain w'' rs where t: "job_watch_trace hexe inputs w' = (w'', rs)" by fastforce
  from assms(3) have "r \<noteq> Some TipChange" "Some TipChange \<notin> set rs" by (auto simp: s t)
  moreover have "current_fenced w'"
    using current_fenced_step [of w hexe inp] inv assms(2) \<open>r \<noteq> Some TipChange\<close> by (simp add: s)
  ultimately have "current_fenced w''" using current_fenced_trace [of w' hexe inputs] by (simp add: t)
  then show ?thesis using current_fenced_none by (simp add: s t)
qed

definition sample_observation :: tip_sentinel_observation where
  "sample_observation = \<lparr>ob_primary = \<lparr>ot_height = 5, ot_tip_hex = ''ff'', ot_chainwork_hex = ''1''\<rparr>,
     ob_secondary = \<lparr>ot_height = 5, ot_tip_hex = ''ff'', ot_chainwork_hex = ''1''\<rparr>,
     ob_observed_unix_ms = 0\<rparr>"

theorem sentinel_fence_holds_witness:
  "get_for_submit (jw_retained (fst (job_watch_trace hex_encode
     [sample_input\<lparr>ri_observation := Some sample_observation, ri_job := None\<rparr>] (job_watch_start 0 sample_job)))) ''1''
     = None"
proof -
  let ?inp = "sample_input\<lparr>ri_observation := Some sample_observation, ri_job := None\<rparr>"
  have "length (hex_encode (parent_of (set_clean_jobs True sample_job))) = 64"
    by (simp add: sample_job_def sample_template_def)
  moreover have "length ''ff'' \<noteq> 64" by simp
  ultimately have "hex_encode (parent_of (set_clean_jobs True sample_job)) \<noteq> ''ff''" by metis
  then have f: "sentinel_forced hex_encode ?inp (jw_current (job_watch_start 0 sample_job))"
    by (auto simp: sentinel_forced_def tip_sentinel_invalidates_parent_def sample_observation_def
        job_watch_start_def Let_def)
  have "job_watch_start 0 sample_job = job_watch_run hex_encode [] (job_watch_start 0 sample_job)"
    by (simp add: job_watch_run_def)
  from sentinel_fence_holds [OF this f, of "[]"] show ?thesis
    by (simp add: refresh_step_def sample_input_def Let_def)
qed

text \<open>
  Nothing is published on a tip the node has already left, and nothing that was not stored:
  a published job is the fetched one, stored before, on the latest tip the node reported (if it
  reported one), under a new id, with \<open>clean_jobs\<close> exactly when its parent is a new one; it is then
  the current job and accepted for submission.
\<close>
theorem refresh_publishes_live_job:
  assumes "watch_inv w" and "refresh_step hexe inp w = (w', Some reason)"
  shows "\<exists>job tip1 tip2. ri_job inp = Some job \<and> ri_first_tip inp = Some tip1
    \<and> ri_second_tip inp = Some tip2 \<and> ri_persisted inp
    \<and> jw_current w' = set_clean_jobs (parent_of job \<noteq> parent_of (jw_current w)) job
    \<and> (\<forall>t. tip2 = Some t \<or> tip2 = None \<and> tip1 = Some t \<longrightarrow> parent_of job = t)
    \<and> job_id_of job \<noteq> job_id_of (jw_current w)
    \<and> (reason = TipChange \<longleftrightarrow> parent_of job \<noteq> parent_of (jw_current w))
    \<and> get_for_submit (jw_retained w') (job_id_of job) = Some (jw_current w')"
proof -
  let ?w = "if sentinel_forced hexe inp (jw_current w)
    then w\<lparr>jw_retained := fst (invalidate_parent (parent_of (jw_current w)) (jw_retained w))\<rparr> else w"
  from assms(2) obtain tip1 job where t: "ri_first_tip inp = Some tip1" and j: "ri_job inp = Some job"
    and c: "consider_job inp tip1 job ?w = (w', Some reason)"
    unfolding refresh_step_def Let_def by (auto split: option.splits if_splits)
  have cur: "jw_current ?w = jw_current w" by simp
  from c obtain tip2 where t2: "ri_second_tip inp = Some tip2"
    by (auto simp: consider_job_def Let_def split: option.splits)
  let ?j = "set_clean_jobs (reason = TipChange) job"
  have w': "w' = \<lparr>jw_current = ?j,
        jw_retained = publish (ri_now inp) ?j reason (ri_retention inp) (jw_retained ?w),
        jw_last_publish_at = ri_now inp\<rparr>"
    and r: "reason = TipChange \<longleftrightarrow> parent_of job \<noteq> parent_of (jw_current ?w)"
    and tip: "\<forall>t. tip2 = Some t \<or> tip2 = None \<and> tip1 = Some t \<longrightarrow> parent_of job = t"
    and new: "job_id_of job \<noteq> job_id_of (jw_current ?w)" and p: "ri_persisted inp"
    using c unfolding consider_job_def Let_def t2 option.case
    by (auto split: option.splits if_splits)
  have wf: "bt_wf (rj_inner (jw_retained ?w))"
    using assms(1) by (simp add: watch_inv_def invalidate_parent_def)
  then have "get_for_submit (jw_retained w') (job_id_of job) = Some (jw_current w')"
    unfolding w' by (simp add: get_for_submit_def retained_get_def publish_def Let_def bt_get_insert
        parent_is_invalidated_def)
  with t j t2 p tip new r show ?thesis unfolding w' cur by (intro exI [of _ job] exI conjI) auto
qed

lemma sample_publishes:
  "\<exists>w' reason. refresh_step hex_encode sample_input (job_watch_start 0 sample_job) = (w', Some reason)"
proof -
  have "replicate 32 (1 :: u8) \<noteq> replicate 32 0" by (simp add: numeral_eq_Suc)
  then show ?thesis
    by (simp add: refresh_step_def sample_input_def sentinel_forced_def
        consider_job_def sample_next_job_def sample_job_def sample_template_def job_watch_start_def
        Let_def set_clean_jobs_def)
qed

theorem refresh_publishes_live_job_witness:
  "\<exists>w' reason. refresh_step hex_encode sample_input (job_watch_start 0 sample_job) = (w', Some reason)
     \<and> job_id_of (jw_current w') = ''2''"
proof -
  from sample_publishes obtain w' reason where
    s: "refresh_step hex_encode sample_input (job_watch_start 0 sample_job) = (w', Some reason)" by blast
  from refresh_publishes_live_job [OF watch_inv_start s] have "job_id_of (jw_current w') = ''2''"
    by (auto simp: sample_input_def sample_next_job_def)
  with s show ?thesis by blast
qed

section \<open>Chain work\<close>

text \<open>The number that hexadecimal text denotes.\<close>

definition hex_value :: "string \<Rightarrow> nat" where
  "hex_value s = foldl (\<lambda>acc c. acc * 16 + the (digit_value 16 c)) 0 s"

lemma hex_value_acc:
  "foldl (\<lambda>acc c. acc * 16 + the (digit_value 16 c)) a s = a * 16 ^ length s + hex_value s"
proof (induction s arbitrary: a)
  case Nil
  then show ?case by (simp add: hex_value_def)
next
  case (Cons c s)
  show ?case
    using Cons.IH [of "a * 16 + the (digit_value 16 c)"] Cons.IH [of "the (digit_value 16 c)"]
    by (simp add: hex_value_def algebra_simps)
qed

lemma hex_value_Nil [simp]: "hex_value [] = 0"
  by (simp add: hex_value_def)

lemma hex_value_Cons: "hex_value (c # s) = the (digit_value 16 c) * 16 ^ length s + hex_value s"
  using hex_value_acc [of "the (digit_value 16 c)" s] by (simp add: hex_value_def)

lemma hexdigit_digit: "is_ascii_hexdigit c \<Longrightarrow> \<exists>d < 16. digit_value 16 c = Some d"
  by (auto simp: is_ascii_hexdigit_def digit_value_def Let_def)

lemma hex_value_bound: "list_all is_ascii_hexdigit s \<Longrightarrow> hex_value s < 16 ^ length s"
proof (induction s)
  case Nil
  then show ?case by simp
next
  case (Cons c s)
  then obtain d where d: "digit_value 16 c = Some d" "d < 16" using hexdigit_digit by auto
  have "d * 16 ^ length s + hex_value s < (d + 1) * 16 ^ length s" using Cons by simp
  also have "\<dots> \<le> 16 * 16 ^ length s" using d(2) by (intro mult_right_mono) auto
  finally show ?case using d(1) by (simp add: hex_value_Cons)
qed

lemma hex_value_trim [simp]: "hex_value (trim_start_zeros s) = hex_value s"
  by (induction s) (auto simp: trim_start_zeros_def hex_value_Cons digit_value_def)

lemma hex_value_lowercase [simp]: "hex_value (to_ascii_lowercase s) = hex_value s"
  by (induction s) (auto simp: hex_value_Cons to_ascii_lowercase_def)

lemma is_ascii_hexdigit_lower [simp]: "is_ascii_hexdigit (ascii_lower c) = is_ascii_hexdigit c"
  by (auto simp: is_ascii_hexdigit_def Let_def of_char_ascii_lower is_ascii_upper_def)

text \<open>Lower-case digits are ordered like the values they stand for.\<close>

definition lower_hex :: "string \<Rightarrow> bool" where
  "lower_hex s \<longleftrightarrow> list_all (\<lambda>c. is_ascii_hexdigit c \<and> \<not> is_ascii_upper c) s"

lemma lower_digit:
  assumes "is_ascii_hexdigit c" "\<not> is_ascii_upper c"
  shows "\<exists>n. of_char c = (n :: nat) \<and> (48 \<le> n \<and> n \<le> 57 \<and> the (digit_value 16 c) = n - 48
    \<or> 97 \<le> n \<and> n \<le> 102 \<and> the (digit_value 16 c) = n - 87)"
  using assms by (auto simp: is_ascii_hexdigit_def is_ascii_upper_def digit_value_def Let_def)

lemma digit_less:
  assumes "is_ascii_hexdigit c" "\<not> is_ascii_upper c" "is_ascii_hexdigit d" "\<not> is_ascii_upper d"
  shows "c < d \<longleftrightarrow> the (digit_value 16 c) < the (digit_value 16 d)"
  using lower_digit [OF assms(1,2)] lower_digit [OF assms(3,4)] unfolding less_char_def
  by (elim exE conjE disjE) linarith+

lemma hex_value_le_iff:
  "length s = length t \<Longrightarrow> lower_hex s \<Longrightarrow> lower_hex t \<Longrightarrow> s \<le> t \<longleftrightarrow> hex_value s \<le> hex_value t"
proof (induction s arbitrary: t)
  case Nil
  then show ?case by simp
next
  case (Cons c s)
  then obtain d u where t: "t = d # u" and len: "length s = length u" by (cases t) auto
  let ?v = "\<lambda>c. the (digit_value 16 c)"
  have lows: "lower_hex s" "lower_hex u" using Cons.prems by (simp_all add: t lower_hex_def)
  have b: "hex_value s < 16 ^ length u" "hex_value u < 16 ^ length u"
    using hex_value_bound [of s] hex_value_bound [of u] lows len
    by (simp_all add: lower_hex_def list_all_iff)
  have less: "x < y \<longleftrightarrow> ?v x < ?v y" if "x \<in> {c, d}" "y \<in> {c, d}" for x y
    using that Cons.prems by (intro digit_less) (auto simp: t lower_hex_def)
  consider (lt) "c < d" | (eq) "c = d" | (gt) "d < c" by (rule linorder_cases)
  then show ?case
  proof cases
    case lt
    then have "?v c + 1 \<le> ?v d" using less by simp
    then have "(?v c + 1) * 16 ^ length u \<le> ?v d * 16 ^ length u" by (rule mult_right_mono) simp
    with b lt show ?thesis by (simp add: t hex_value_Cons len)
  next
    case eq
    with Cons.IH [OF len lows] show ?thesis by (simp add: t hex_value_Cons len)
  next
    case gt
    then have "?v d + 1 \<le> ?v c" using less by simp
    then have "(?v d + 1) * 16 ^ length u \<le> ?v c * 16 ^ length u" by (rule mult_right_mono) simp
    with b gt show ?thesis by (auto simp: t hex_value_Cons len)
  qed
qed

lemma hex_value_longer:
  assumes "length t < length s" and "list_all is_ascii_hexdigit s" and "list_all is_ascii_hexdigit t"
    and "s \<noteq> [] \<longrightarrow> hd s \<noteq> CHR ''0''"
  shows "hex_value t < hex_value s"
proof (cases s)
  case Nil
  with assms show ?thesis by simp
next
  case (Cons c u)
  then obtain d where d: "digit_value 16 c = Some d" using assms(2) hexdigit_digit by auto
  have "d \<noteq> 0"
  proof
    assume "d = 0"
    with d have "of_char c = (48 :: nat)" by (auto simp: digit_value_def Let_def split: if_splits)
    moreover have "of_char (CHR ''0'') = (48 :: nat)" by simp
    ultimately have "c = CHR ''0''" by (metis of_char_eq_iff)
    with assms(4) Cons show False by simp
  qed
  have "hex_value t < 16 ^ length t" by (rule hex_value_bound [OF assms(3)])
  also have "\<dots> \<le> 16 ^ length u" using assms(1) Cons by (intro power_increasing) auto
  also have "\<dots> \<le> d * 16 ^ length u" using \<open>d \<noteq> 0\<close> by simp
  finally show ?thesis using d by (simp add: Cons hex_value_Cons)
qed

lemma trim_start_zeros_hd: "trim_start_zeros s \<noteq> [] \<longrightarrow> hd (trim_start_zeros s) \<noteq> CHR ''0''"
  unfolding trim_start_zeros_def by (metis (mono_tags, lifting) hd_dropWhile)

lemma list_all_trim: "list_all P s \<Longrightarrow> list_all P (trim_start_zeros s)"
  by (auto simp: trim_start_zeros_def list_all_iff dest: set_dropWhileD)

lemma canonical_chainwork_value:
  assumes "canonical_chainwork v = Inr x"
  shows "lower_hex x \<and> hex_value x = hex_value (strip_0x v)"
proof -
  let ?n = "trim_start_zeros (strip_0x v)"
  from assms have h: "list_all is_ascii_hexdigit (strip_0x v)"
    and x: "x = (if ?n = [] then ''0'' else to_ascii_lowercase ?n)"
    by (auto simp: canonical_chainwork_def Let_def split: if_splits)
  have "list_all is_ascii_hexdigit ?n" using h by (rule list_all_trim)
  then have "lower_hex (to_ascii_lowercase ?n)"
    by (induction ?n arbitrary: v) (auto simp: lower_hex_def to_ascii_lowercase_def list_all_iff
        is_ascii_upper_def of_char_ascii_lower Let_def)
  moreover have "lower_hex ''0''" by code_simp
  moreover have "hex_value ?n = hex_value (strip_0x v)" by simp
  then have "?n = [] \<Longrightarrow> hex_value (strip_0x v) = 0" by simp
  moreover have "hex_value ''0'' = 0" by (simp add: hex_value_def digit_value_def)
  ultimately show ?thesis unfolding x by simp
qed

text \<open>
  Chain work is compared as a number: for two values that were accepted as chain work,
  \<open>chainwork_at_least\<close> on their canonical texts says which of the two numbers is larger, whatever
  their case, prefix and leading zeros were.
\<close>
theorem chainwork_numeric:
  assumes "canonical_chainwork a = Inr x" and "canonical_chainwork b = Inr y"
  shows "chainwork_at_least x y \<longleftrightarrow> hex_value (strip_0x b) \<le> hex_value (strip_0x a)"
proof -
  let ?x = "trim_start_zeros x" and ?y = "trim_start_zeros y"
  note cx = canonical_chainwork_value [OF assms(1)] and cy = canonical_chainwork_value [OF assms(2)]
  have low: "lower_hex ?x" "lower_hex ?y"
    using cx cy by (simp_all add: lower_hex_def list_all_trim)
  then have hex: "list_all is_ascii_hexdigit ?x" "list_all is_ascii_hexdigit ?y"
    by (simp_all add: lower_hex_def list_all_iff)
  have "chainwork_at_least x y \<longleftrightarrow> hex_value ?y \<le> hex_value ?x"
  proof (cases "length ?x" "length ?y" rule: linorder_cases)
    case less
    from hex_value_longer [OF less hex(2,1) trim_start_zeros_hd] less show ?thesis
      by (simp add: chainwork_at_least_def Let_def del: hex_value_trim)
  next
    case equal
    from hex_value_le_iff [OF equal [symmetric] low(2,1)] equal show ?thesis
      by (simp add: chainwork_at_least_def Let_def del: hex_value_trim)
  next
    case greater
    from hex_value_longer [OF greater hex trim_start_zeros_hd] greater show ?thesis
      by (simp add: chainwork_at_least_def Let_def del: hex_value_trim)
  qed
  then show ?thesis using cx cy by simp
qed

theorem chainwork_numeric_witness: "chainwork_at_least ''a1'' ''9f''"
proof -
  have s: "strip_0x ''0x00A1'' = ''00A1''" "strip_0x ''9F'' = ''9F''" by code_simp+
  have "canonical_chainwork ''0x00A1'' = Inr ''a1''" "canonical_chainwork ''9F'' = Inr ''9f''"
    by code_simp+
  from chainwork_numeric [OF this] show ?thesis by (simp add: s hex_value_def digit_value_def)
qed

end
