(* ===== verification/Csd_Claims.thy ===== *)
theory Csd_Claims
  imports Csd_Json
begin

text \<open>
  Crate \<open>csd-pool-bridge\<close>: the persistent claims that bound what is sent to the secondary node. A
  claim creates a file that must not exist (\<open>O_CREAT | O_EXCL\<close>, one step of the file system); the
  latch has one file for all candidates, the journal one per candidate hash. The interface
  \<open>exclusive_grant\<close> states what both promise; its clients learn that, over any sequence of claims
  and failures, a slot is granted at most once.
\<close>

section \<open>Files\<close>

text \<open>
  The file system, seen through the paths the claims use: a path is absent or a file with some
  contents. The outcome of the other input and output calls is the argument \<open>claim_io\<close>: the open
  call itself may fail for another reason, or writing and syncing the new file may fail.
\<close>

type_synonym claim_files = "string \<rightharpoonup> string"

datatype claim_io = IoOk | IoOpenFails string | IoPersistFails string

text \<open>Decimal text of a number, as \<open>format!\<close> prints it.\<close>

fun decimal_digits :: "nat \<Rightarrow> string" where
  "decimal_digits n = (if n < 10 then [char_of (48 + n)]
     else decimal_digits (n div 10) @ [char_of (48 + n mod 10)])"

declare decimal_digits.simps [simp del]

definition nl :: string where
  "nl = [char_of (10 :: nat)]"

definition claim_marker :: "u64 \<Rightarrow> string \<Rightarrow> string" where
  "claim_marker unix_ms candidate_hash =
     ''version=1'' @ nl @ ''claimed_unix_ms='' @ decimal_digits (unat unix_ms) @ nl
     @ ''candidate_hash='' @ candidate_hash @ nl"

section \<open>Claims\<close>

record secondary_claim =
  cl_mode :: string
  cl_configured :: "u64 option"
  cl_before :: "u64 option"
  cl_claimed :: bool
  cl_remaining :: "u64 option"
  cl_claim_key :: string
  cl_persistence :: string
  cl_error :: "string option"

definition claim_not_attempted :: "string \<Rightarrow> u64 option \<Rightarrow> u64 option \<Rightarrow> secondary_claim" where
  "claim_not_attempted mode configured remaining =
     \<lparr>cl_mode = mode, cl_configured = configured, cl_before = configured, cl_claimed = False,
      cl_remaining = remaining, cl_claim_key = [], cl_persistence = ''not_attempted'',
      cl_error = None\<rparr>"

definition claim_failed :: "string \<Rightarrow> string \<Rightarrow> string \<Rightarrow> secondary_claim" where
  "claim_failed mode candidate_hash error =
     \<lparr>cl_mode = mode, cl_configured = None, cl_before = None, cl_claimed = False,
      cl_remaining = None, cl_claim_key = candidate_hash,
      cl_persistence = ''o_excl_per_candidate'', cl_error = Some error\<rparr>"

definition claim_failed_one_shot :: "u64 \<Rightarrow> string \<Rightarrow> string \<Rightarrow> secondary_claim" where
  "claim_failed_one_shot configured candidate_hash error =
     \<lparr>cl_mode = ''one_shot'', cl_configured = Some configured, cl_before = Some configured,
      cl_claimed = False, cl_remaining = Some 0, cl_claim_key = candidate_hash,
      cl_persistence = ''o_excl_file'', cl_error = Some error\<rparr>"

definition latch_claim ::
  "string \<Rightarrow> u64 \<Rightarrow> claim_io \<Rightarrow> u64 \<Rightarrow> string \<Rightarrow> claim_files \<Rightarrow> claim_files \<times> secondary_claim" where
  "latch_claim path configured io unix_ms candidate_hash files =
     (let before = (if files path \<noteq> None then 0 else 1);
          answer = (\<lambda>before claimed error.
             \<lparr>cl_mode = ''one_shot'', cl_configured = Some configured, cl_before = Some before,
              cl_claimed = claimed, cl_remaining = Some 0, cl_claim_key = candidate_hash,
              cl_persistence = ''o_excl_file'', cl_error = error\<rparr>)
      in case io of
           IoOpenFails error \<Rightarrow>
             (files, answer before False (Some (''persistent latch claim failed: '' @ error)))
         | _ \<Rightarrow>
             if files path \<noteq> None then (files, answer 0 False None)
             else
               (let files = files(path \<mapsto> claim_marker unix_ms candidate_hash) in
                case io of
                  IoPersistFails error \<Rightarrow>
                    (files, answer before False (Some (''persistent latch write failed: '' @ error)))
                | _ \<Rightarrow> (files, answer before True None)))"

text \<open>\<open>Path::join\<close> with a relative name.\<close>

definition path_join :: "string \<Rightarrow> string \<Rightarrow> string" where
  "path_join directory name =
     (if directory = [] \<or> last directory = CHR ''/'' then directory @ name
      else directory @ ''/'' @ name)"

definition claim_path :: "string \<Rightarrow> string \<Rightarrow> string" where
  "claim_path directory claim_key = path_join directory (claim_key @ ''.claim'')"

definition journal_claim ::
  "string \<Rightarrow> claim_io \<Rightarrow> u64 \<Rightarrow> string \<Rightarrow> claim_files \<Rightarrow> claim_files \<times> secondary_claim" where
  "journal_claim directory io unix_ms candidate_hash files =
     (if length candidate_hash \<noteq> 64 \<or> \<not> list_all is_ascii_hexdigit candidate_hash
      then (files, claim_failed ''continuous_bounded'' candidate_hash
                     ''candidate hash is not canonical 32-byte hex'')
      else
        let claim_key = to_ascii_lowercase candidate_hash;
            path = claim_path directory claim_key;
            answer = (\<lambda>claimed.
               \<lparr>cl_mode = ''continuous_bounded'', cl_configured = None, cl_before = None,
                cl_claimed = claimed, cl_remaining = None, cl_claim_key = claim_key,
                cl_persistence = ''o_excl_per_candidate'', cl_error = None\<rparr>)
        in case io of
             IoOpenFails error \<Rightarrow>
               (files, claim_failed ''continuous_bounded'' claim_key
                         (''persistent candidate journal claim failed: '' @ error))
           | _ \<Rightarrow>
               if files path \<noteq> None then (files, answer False)
               else
                 (let files = files(path \<mapsto> claim_marker unix_ms claim_key) in
                  case io of
                    IoPersistFails error \<Rightarrow>
                      (files, claim_failed ''continuous_bounded'' claim_key
                                (''persistent candidate journal write failed: '' @ error))
                  | _ \<Rightarrow> (files, answer True)))"

section \<open>The interface\<close>

text \<open>
  A step either is granted its slot, which was free and is taken from then on, or is not; a slot
  that is taken stays taken.
\<close>

fun grant_run :: "('i \<Rightarrow> 's \<Rightarrow> 's \<times> bool) \<Rightarrow> 'i list \<Rightarrow> 's \<Rightarrow> ('i \<times> bool) list" where
  "grant_run step [] s = []"
| "grant_run step (i # is) s = (case step i s of (s', g) \<Rightarrow> (i, g) # grant_run step is s')"

definition grants :: "('i \<Rightarrow> 'k) \<Rightarrow> 'k \<Rightarrow> ('i \<times> bool) list \<Rightarrow> nat" where
  "grants slot k rs = length (filter (\<lambda>(i, g). slot i = k \<and> g) rs)"

locale exclusive_grant =
  fixes step :: "'i \<Rightarrow> 's \<Rightarrow> 's \<times> bool"
    and slot :: "'i \<Rightarrow> 'k"
    and taken :: "'s \<Rightarrow> 'k \<Rightarrow> bool"
  assumes granted_free: "step i s = (s', True) \<Longrightarrow> \<not> taken s (slot i)"
    and granted_takes: "step i s = (s', True) \<Longrightarrow> taken s' (slot i)"
    and taken_stays: "step i s = (s', g) \<Longrightarrow> taken s k \<Longrightarrow> taken s' k"
begin

lemma none_when_taken: "taken s k \<Longrightarrow> grants slot k (grant_run step is s) = 0"
proof (induction "is" arbitrary: s)
  case Nil
  then show ?case by (simp add: grants_def)
next
  case (Cons i "is")
  obtain s' g where st: "step i s = (s', g)" by fastforce
  with Cons.IH taken_stays [OF st Cons.prems] granted_free Cons.prems show ?case
    by (cases g) (auto simp: grants_def)
qed

lemma at_most_once: "grants slot k (grant_run step is s) \<le> 1"
proof (induction "is" arbitrary: s)
  case Nil
  then show ?case by (simp add: grants_def)
next
  case (Cons i "is")
  obtain s' g where st: "step i s = (s', g)" by fastforce
  show ?case
  proof (cases "slot i = k \<and> g")
    case True
    with st have "step i s = (s', True)" by simp
    from granted_takes [OF this] True have "taken s' k" by simp
    from none_when_taken [OF this, of "is"] True show ?thesis by (simp add: grants_def st)
  next
    case False
    with Cons [of s'] st show ?thesis by (auto simp: grants_def)
  qed
qed

end

section \<open>The control of the secondary submission\<close>

datatype candidate_control = OneShot u64 string | ContinuousBounded string

fun control_mode :: "candidate_control \<Rightarrow> string" where
  "control_mode (OneShot _ _) = ''one_shot''"
| "control_mode (ContinuousBounded _) = ''continuous_bounded''"

fun control_not_attempted :: "candidate_control \<Rightarrow> secondary_claim" where
  "control_not_attempted (OneShot budget _) = claim_not_attempted ''one_shot'' (Some budget) (Some budget)"
| "control_not_attempted (ContinuousBounded _) = claim_not_attempted ''continuous_bounded'' None None"

fun control_failed :: "candidate_control \<Rightarrow> string \<Rightarrow> string \<Rightarrow> secondary_claim" where
  "control_failed (OneShot budget _) candidate_hash error =
     claim_failed_one_shot budget candidate_hash error"
| "control_failed (ContinuousBounded _) candidate_hash error =
     claim_failed ''continuous_bounded'' candidate_hash error"

fun control_claim ::
  "candidate_control \<Rightarrow> claim_io \<Rightarrow> u64 \<Rightarrow> string \<Rightarrow> claim_files \<Rightarrow> claim_files \<times> secondary_claim" where
  "control_claim (OneShot budget path) io unix_ms candidate_hash files =
     latch_claim path budget io unix_ms candidate_hash files"
| "control_claim (ContinuousBounded directory) io unix_ms candidate_hash files =
     journal_claim directory io unix_ms candidate_hash files"

fun exhausted_reason :: "candidate_control \<Rightarrow> string" where
  "exhausted_reason (OneShot _ _) = ''candidate_budget_exhausted''"
| "exhausted_reason (ContinuousBounded _) = ''candidate_already_submitted_to_secondary''"

fun persistence_failure_reason :: "candidate_control \<Rightarrow> string" where
  "persistence_failure_reason (OneShot _ _) = ''candidate_budget_persistence_failed''"
| "persistence_failure_reason (ContinuousBounded _) = ''candidate_control_persistence_failed''"

text \<open>What a control counts as one candidate: everything, or the hash without its case.\<close>

fun control_slot :: "candidate_control \<Rightarrow> string \<Rightarrow> string" where
  "control_slot (OneShot _ _) candidate_hash = []"
| "control_slot (ContinuousBounded _) candidate_hash = to_ascii_lowercase candidate_hash"

fun slot_taken :: "candidate_control \<Rightarrow> claim_files \<Rightarrow> string \<Rightarrow> bool" where
  "slot_taken (OneShot _ path) files s = (files path \<noteq> None)"
| "slot_taken (ContinuousBounded directory) files s = (files (claim_path directory s) \<noteq> None)"

fun claim_step ::
  "candidate_control \<Rightarrow> claim_io \<times> u64 \<times> string \<Rightarrow> claim_files \<Rightarrow> claim_files \<times> bool" where
  "claim_step control (io, unix_ms, candidate_hash) files =
     (case control_claim control io unix_ms candidate_hash files of (files', c) \<Rightarrow> (files', cl_claimed c))"

lemma control_claim_granted:
  assumes "control_claim control io ms h files = (files', c)" and "cl_claimed c"
  shows "\<not> slot_taken control files (control_slot control h) \<and> slot_taken control files' (control_slot control h)"
  using assms
  by (cases control) (auto simp: latch_claim_def journal_claim_def Let_def claim_failed_def
      split: claim_io.splits if_splits)

lemma control_claim_stays:
  assumes "control_claim control io ms h files = (files', c)" and "slot_taken control files s"
  shows "slot_taken control files' s"
  using assms
  by (cases control) (auto simp: latch_claim_def journal_claim_def Let_def split: claim_io.splits if_splits)

interpretation ctl: exclusive_grant "claim_step control" "\<lambda>(_, _, h). control_slot control h"
  "slot_taken control" for control
proof unfold_locales
  fix i s s'
  assume "claim_step control i s = (s', True)"
  then show "\<not> slot_taken control s (case i of (_, _, h) \<Rightarrow> control_slot control h)"
    and "slot_taken control s' (case i of (_, _, h) \<Rightarrow> control_slot control h)"
    using control_claim_granted by (cases i; fastforce split: prod.splits)+
next
  fix i s s' g k
  assume "claim_step control i s = (s', g)" and "slot_taken control s k"
  then show "slot_taken control s' k"
    using control_claim_stays by (cases i) (fastforce split: prod.splits)
qed

text \<open>
  C28. At most one claim is ever granted for a slot: the one-shot latch grants one candidate in
  its whole life, the journal grants each candidate hash (in whatever case it is written) once,
  whatever claims run in whatever order and however their file operations fail.
\<close>
theorem claims_at_most_once:
  "length (filter (\<lambda>((_, _, h), granted). control_slot control h = s \<and> granted)
     (grant_run (claim_step control) attempts files)) \<le> 1"
  using ctl.at_most_once [of control s attempts files] by (simp add: grants_def split_def)

text \<open>
  A failure never grants and never frees: a claim whose file operation failed is not granted
  and carries its error, and after a granted or half-written claim the slot is closed for good.
\<close>
theorem claim_failures_closed:
  assumes "control_claim control io ms h files = (files', c)"
  shows "(cl_error c \<noteq> None \<longrightarrow> \<not> cl_claimed c)
    \<and> (io \<noteq> IoOk \<longrightarrow> \<not> cl_claimed c)
    \<and> (slot_taken control files s \<longrightarrow> slot_taken control files' s)
    \<and> (cl_claimed c \<longrightarrow> slot_taken control files' (control_slot control h))"
proof -
  have "cl_error c \<noteq> None \<longrightarrow> \<not> cl_claimed c" "io \<noteq> IoOk \<longrightarrow> \<not> cl_claimed c"
    using assms
    by (cases control; cases io; auto simp: latch_claim_def journal_claim_def Let_def claim_failed_def
        split: if_splits)+
  then show ?thesis
    using control_claim_stays [OF assms] control_claim_granted [OF assms] by blast
qed

theorem claim_failures_closed_witness:
  "\<not> cl_claimed (snd (control_claim (OneShot 1 ''/l'') (IoPersistFails ''disk full'') 7 ''ab'' Map.empty))"
  using claim_failures_closed [of "OneShot 1 ''/l''" "IoPersistFails ''disk full''" 7 "''ab''" Map.empty]
  by (metis claim_io.distinct(3) prod.collapse)

end
