(* ===== verification/Csd_Parallel.thy ===== *)
theory Csd_Parallel
  imports Csd_Claims Csd_Jobs
begin

text \<open>
  Crate \<open>csd-pool-bridge\<close>: the submission of a block candidate to the authority node and, as a best
  effort, to a secondary node (\<open>ParallelNodeBlockSubmitter\<close>), with its circuit breaker, its health
  snapshot and its eligibility rules. What the nodes, the clock, the semaphore and the file system
  answer during a call is its input; the persistent state is the claim files and the breaker.
\<close>

section \<open>Data\<close>

record submit_block_response =
  sb_ok :: bool
  sb_hash :: "string option"
  sb_extra :: json

record candidate_request =
  cr_job_id :: string
  cr_worker_name :: string
  cr_header_hex :: string
  cr_hash_hex :: string
  cr_coinbase_txid_hex :: string
  cr_coinbase_hex :: string
  cr_merkle_root_hex :: string
  cr_extranonce2_hex :: string
  cr_ntime_hex :: string
  cr_nonce_hex :: string

record candidate_material =
  cm_block_template_hex :: string
  cm_block_template_sha256_hex :: string
  cm_block_template_bytes :: u64

record candidate_submission =
  cs_candidate :: candidate_request
  cs_material :: "candidate_material option"

record audit_times =
  at_started_unix_ms :: u64
  at_finished_unix_ms :: u64
  at_elapsed_us :: u64

record health_audit =
  ha_node :: string
  ha_times :: audit_times
  ha_outcome :: string
  ha_snapshot :: "node_health option"
  ha_error :: "string option"

record parallel_health =
  ph_primary :: health_audit
  ph_secondary :: health_audit
  ph_observed_at :: instant
  ph_observed_unix_ms :: u64
  ph_primary_tip_since :: "u64 option"
  ph_secondary_tip_since :: "u64 option"

record submit_audit =
  sa_node :: string
  sa_role :: string
  sa_times :: audit_times
  sa_outcome :: string
  sa_response :: "submit_block_response option"
  sa_error :: "string option"
  sa_skip_reason :: "string option"

text \<open>What a node call under \<open>tokio::time::timeout\<close> came to.\<close>

datatype 'a endpoint_result = Answered 'a | EndpointError string | TimedOut nat

definition timeout_text :: "string \<Rightarrow> nat \<Rightarrow> string" where
  "timeout_text what ms = what @ '' timeout after '' @ decimal_digits ms @ '' ms''"

section \<open>Outcomes of node calls\<close>

definition local_canonical_relay_failure :: "submit_block_response \<Rightarrow> bool" where
  "local_canonical_relay_failure response =
     (Option.bind (json_get (sb_extra response) ''status'') json_as_str = Some ''accepted_local_relay_failed''
      \<or> Option.bind (Option.bind (json_get (sb_extra response) ''node_observability'')
            (\<lambda>v. json_get v ''local_canonical'')) json_as_bool = Some True
        \<and> Option.bind (Option.bind (Option.bind (json_get (sb_extra response) ''node_observability'')
            (\<lambda>v. json_get v ''relay_ack'')) (\<lambda>v. json_get v ''ok'')) json_as_bool = Some False)"

definition submit_outcome :: "submit_block_response \<Rightarrow> string" where
  "submit_outcome response =
     (if sb_ok response then ''accepted''
      else if local_canonical_relay_failure response then ''local_canonical_relay_failed''
      else ''rejected'')"

text \<open>\<open>submit_cached_to_node\<close> and \<open>submit_full_to_node\<close>: they differ in the endpoint's call only.\<close>

definition submit_to_node ::
  "string \<Rightarrow> submit_block_response endpoint_result \<Rightarrow> audit_times \<Rightarrow> string \<Rightarrow> submit_audit" where
  "submit_to_node name result tms role =
     (case result of
        Answered response \<Rightarrow>
          \<lparr>sa_node = name, sa_role = role, sa_times = tms, sa_outcome = submit_outcome response,
           sa_response = Some response, sa_error = None, sa_skip_reason = None\<rparr>
      | EndpointError error \<Rightarrow>
          \<lparr>sa_node = name, sa_role = role, sa_times = tms, sa_outcome = ''transport_error'',
           sa_response = None, sa_error = Some error, sa_skip_reason = None\<rparr>
      | TimedOut ms \<Rightarrow>
          \<lparr>sa_node = name, sa_role = role, sa_times = tms, sa_outcome = ''timeout'',
           sa_response = None, sa_error = Some (timeout_text ''submit'' ms), sa_skip_reason = None\<rparr>)"

definition health_with_timeout ::
  "string \<Rightarrow> node_health endpoint_result \<Rightarrow> audit_times \<Rightarrow> health_audit" where
  "health_with_timeout name result tms =
     (case result of
        Answered snapshot \<Rightarrow>
          \<lparr>ha_node = name, ha_times = tms, ha_outcome = ''ok'', ha_snapshot = Some snapshot,
           ha_error = None\<rparr>
      | EndpointError error \<Rightarrow>
          \<lparr>ha_node = name, ha_times = tms, ha_outcome = ''error'', ha_snapshot = None,
           ha_error = Some error\<rparr>
      | TimedOut ms \<Rightarrow>
          \<lparr>ha_node = name, ha_times = tms, ha_outcome = ''timeout'', ha_snapshot = None,
           ha_error = Some (timeout_text ''health'' ms)\<rparr>)"

definition skipped_submit_audit :: "string \<Rightarrow> string \<Rightarrow> string \<Rightarrow> u64 \<Rightarrow> submit_audit" where
  "skipped_submit_audit node role reason now =
     \<lparr>sa_node = node, sa_role = role,
      sa_times = \<lparr>at_started_unix_ms = now, at_finished_unix_ms = now, at_elapsed_us = 0\<rparr>,
      sa_outcome = ''skipped'', sa_response = None, sa_error = None, sa_skip_reason = Some reason\<rparr>"

definition unavailable_health_audit :: "string \<Rightarrow> u64 \<Rightarrow> health_audit" where
  "unavailable_health_audit node now =
     \<lparr>ha_node = node,
      ha_times = \<lparr>at_started_unix_ms = now, at_finished_unix_ms = now, at_elapsed_us = 0\<rparr>,
      ha_outcome = ''not_observed'', ha_snapshot = None, ha_error = None\<rparr>"

section \<open>The health snapshot\<close>

definition health_tip_identity :: "health_audit \<Rightarrow> (u64 \<times> string \<times> string) option" where
  "health_tip_identity audit =
     (case ha_snapshot audit of
        None \<Rightarrow> None
      | Some s \<Rightarrow>
          (case (nh_height s, nh_tip s, nh_chainwork s) of
             (Some height, Some tip, Some work) \<Rightarrow>
               (case (canonical_health_hash tip, canonical_chainwork work) of
                  (Inr tip, Inr work) \<Rightarrow> Some (height, tip, work)
                | _ \<Rightarrow> None)
           | _ \<Rightarrow> None))"

definition tip_observed_since ::
  "health_audit option \<Rightarrow> u64 option \<Rightarrow> health_audit \<Rightarrow> u64 \<Rightarrow> u64 option" where
  "tip_observed_since previous previous_since current observed_unix_ms =
     (case health_tip_identity current of
        None \<Rightarrow> None
      | Some identity \<Rightarrow>
          if Option.bind previous health_tip_identity = Some identity
          then Some (case previous_since of None \<Rightarrow> observed_unix_ms | Some since \<Rightarrow> since)
          else Some observed_unix_ms)"

definition refresh_health ::
  "parallel_health option \<Rightarrow> health_audit \<Rightarrow> health_audit \<Rightarrow> u64 \<Rightarrow> instant \<Rightarrow> parallel_health" where
  "refresh_health previous primary secondary observed_unix_ms now =
     \<lparr>ph_primary = primary, ph_secondary = secondary, ph_observed_at = now,
      ph_observed_unix_ms = observed_unix_ms,
      ph_primary_tip_since = tip_observed_since (map_option ph_primary previous)
        (Option.bind previous ph_primary_tip_since) primary observed_unix_ms,
      ph_secondary_tip_since = tip_observed_since (map_option ph_secondary previous)
        (Option.bind previous ph_secondary_tip_since) secondary observed_unix_ms\<rparr>"

definition from_display_hex :: "(string \<Rightarrow> bytes option) \<Rightarrow> string \<Rightarrow> hash32 option" where
  "from_display_hex hexd value =
     (case hexd (strip_0x value) of
        None \<Rightarrow> None | Some bytes \<Rightarrow> if length bytes = 32 then Some bytes else None)"

definition from_candidate_header :: "(string \<Rightarrow> bytes option) \<Rightarrow> candidate_request \<Rightarrow> hash32 option" where
  "from_candidate_header hexd candidate =
     (case hexd (cr_header_hex candidate) of
        None \<Rightarrow> None
      | Some header \<Rightarrow> if length header \<noteq> 84 then None else Some (take 32 (drop 4 header)))"

definition nonempty_text :: "string option \<Rightarrow> bool" where
  "nonempty_text s = (case s of None \<Rightarrow> False | Some v \<Rightarrow> v \<noteq> [])"

definition secondary_submit_eligibility ::
  "(string \<Rightarrow> bytes option) \<Rightarrow> parallel_health option \<Rightarrow> instant \<Rightarrow> nat \<Rightarrow> candidate_request
    \<Rightarrow> string + unit" where
  "secondary_submit_eligibility hexd health now max_age candidate =
     (case health of
        None \<Rightarrow> Inl ''health_not_ready''
      | Some health \<Rightarrow>
          if max_age < now - ph_observed_at health then Inl ''health_stale''
          else
            (case (ha_snapshot (ph_primary health), ha_snapshot (ph_secondary health)) of
               (Some primary, Some secondary) \<Rightarrow>
                 let primary_complete = (nh_height primary \<noteq> None \<and> nonempty_text (nh_tip primary)
                       \<and> nonempty_text (nh_chainwork primary));
                     secondary_complete = (nh_height secondary \<noteq> None \<and> nonempty_text (nh_tip secondary)
                       \<and> nonempty_text (nh_chainwork secondary) \<and> nh_peers secondary \<noteq> None)
                 in
                 if \<not> primary_complete \<or> \<not> secondary_complete then Inl ''health_incomplete''
                 else if nh_peers secondary = Some 0 then Inl ''secondary_no_peers''
                 else
                   result_bind (result_bind (ok_or ''health_incomplete'' (nh_tip primary))
                     (\<lambda>t. ok_or ''health_incomplete'' (from_display_hex hexd t))) (\<lambda>primary_tip.
                   result_bind (result_bind (ok_or ''health_incomplete'' (nh_tip secondary))
                     (\<lambda>t. ok_or ''health_incomplete'' (from_display_hex hexd t))) (\<lambda>secondary_tip.
                   if nh_height primary \<noteq> nh_height secondary \<or> primary_tip \<noteq> secondary_tip
                      \<or> nh_chainwork primary \<noteq> nh_chainwork secondary
                   then Inl ''chain_state_mismatch''
                   else
                     result_bind (ok_or ''candidate_parent_unavailable''
                       (from_candidate_header hexd candidate)) (\<lambda>candidate_parent.
                     if primary_tip \<noteq> candidate_parent then Inl ''candidate_parent_mismatch''
                     else Inr ())))
             | _ \<Rightarrow> Inl ''health_unavailable''))"

section \<open>The circuit breaker\<close>

record circuit =
  ck_failure_threshold :: u64
  ck_cooldown :: nat
  ck_consecutive_failures :: u64
  ck_open_until :: "instant option"

definition circuit_new :: "u64 \<Rightarrow> nat \<Rightarrow> circuit" where
  "circuit_new threshold cooldown =
     \<lparr>ck_failure_threshold = threshold, ck_cooldown = cooldown, ck_consecutive_failures = 0,
      ck_open_until = None\<rparr>"

definition circuit_eligibility :: "instant \<Rightarrow> circuit \<Rightarrow> circuit \<times> (string + unit)" where
  "circuit_eligibility now c =
     (if (case ck_open_until c of None \<Rightarrow> False | Some deadline \<Rightarrow> now < deadline)
      then (c, Inl ''secondary_circuit_open'')
      else (c\<lparr>ck_open_until := None\<rparr>, Inr ()))"

definition circuit_record :: "instant \<Rightarrow> submit_audit \<Rightarrow> circuit \<Rightarrow> circuit" where
  "circuit_record now audit c =
     (if sa_outcome audit = ''accepted'' then c\<lparr>ck_consecutive_failures := 0, ck_open_until := None\<rparr>
      else if sa_outcome audit = ''skipped'' then c
      else
        let c = c\<lparr>ck_consecutive_failures := sat_add (ck_consecutive_failures c) 1\<rparr> in
        if ck_failure_threshold c \<le> ck_consecutive_failures c
        then c\<lparr>ck_open_until := Some (now + ck_cooldown c)\<rparr> else c)"

text \<open>Milliseconds left, at most \<open>u64::MAX\<close>.\<close>

definition circuit_open_remaining_ms :: "instant \<Rightarrow> circuit \<Rightarrow> u64" where
  "circuit_open_remaining_ms now c =
     (case ck_open_until c of
        None \<Rightarrow> 0
      | Some deadline \<Rightarrow> word_of_nat (min ((deadline - now) div 10 ^ 6) (2 ^ 64 - 1)))"

section \<open>The secondary submission\<close>

text \<open>
  The claim runs as a blocking task under a timeout: it may finish, die, or still be running when
  the timeout fires (it then completes on its own, with its effect on the files).
\<close>

datatype claim_task =
    ClaimDone claim_io u64
  | ClaimDied string "(claim_io \<times> u64) option"
  | ClaimLate nat "(claim_io \<times> u64) option"

fun run_claim_task ::
  "candidate_control \<Rightarrow> claim_task \<Rightarrow> string \<Rightarrow> claim_files \<Rightarrow> claim_files \<times> secondary_claim" where
  "run_claim_task control (ClaimDone io ms) candidate_hash files =
     control_claim control io ms candidate_hash files"
| "run_claim_task control (ClaimDied error effect) candidate_hash files =
     ((case effect of None \<Rightarrow> files
       | Some (io, ms) \<Rightarrow> fst (control_claim control io ms candidate_hash files)),
      control_failed control candidate_hash (''persistent latch task failed: '' @ error))"
| "run_claim_task control (ClaimLate timeout_ms effect) candidate_hash files =
     ((case effect of None \<Rightarrow> files
       | Some (io, ms) \<Rightarrow> fst (control_claim control io ms candidate_hash files)),
      control_failed control candidate_hash
        (''persistent secondary claim timed out after '' @ decimal_digits timeout_ms @ '' ms''))"

record parallel_config =
  pc_primary_name :: string
  pc_secondary_name :: string
  pc_health_max_age :: nat
  pc_control :: candidate_control

record parallel_state =
  pl_files :: claim_files
  pl_circuit :: circuit

record parallel_input =
  in_submission :: candidate_submission
  in_health :: "parallel_health option"
  in_circuit_now :: instant
  in_permit :: bool
  in_eligible_now :: instant
  in_claim :: claim_task
  in_health_after :: "parallel_health option"
  in_eligible_after_now :: instant
  in_secondary :: "submit_block_response endpoint_result"
  in_secondary_times :: audit_times
  in_skip_unix_ms :: u64
  in_record_now :: instant
  in_primary :: "submit_block_response endpoint_result"
  in_primary_times :: audit_times
  in_snapshot_now :: instant

definition secondary_submit ::
  "(string \<Rightarrow> bytes option) \<Rightarrow> parallel_config \<Rightarrow> parallel_input \<Rightarrow> parallel_state
    \<Rightarrow> parallel_state \<times> secondary_claim \<times> submit_audit" where
  "secondary_submit hexd cfg inp s =
     (let candidate = cs_candidate (in_submission inp);
          control = pc_control cfg;
          skip = (\<lambda>reason. skipped_submit_audit (pc_secondary_name cfg) ''best_effort'' reason
                    (in_skip_unix_ms inp))
      in if cs_material (in_submission inp) = None
         then (s, control_not_attempted control, skip ''stateless_candidate_material_missing'')
         else
           (case circuit_eligibility (in_circuit_now inp) (pl_circuit s) of
              (c, Inl reason) \<Rightarrow> (s\<lparr>pl_circuit := c\<rparr>, control_not_attempted control, skip reason)
            | (c, Inr _) \<Rightarrow>
                let s = s\<lparr>pl_circuit := c\<rparr> in
                if control_mode control = ''continuous_bounded'' \<and> \<not> in_permit inp
                then (s, control_not_attempted control, skip ''secondary_concurrency_limit'')
                else
                  (case secondary_submit_eligibility hexd (in_health inp) (in_eligible_now inp)
                          (pc_health_max_age cfg) candidate of
                     Inl reason \<Rightarrow> (s, control_not_attempted control, skip reason)
                   | Inr _ \<Rightarrow>
                       (case run_claim_task control (in_claim inp) (cr_hash_hex candidate) (pl_files s) of
                          (files, claim) \<Rightarrow>
                            let eligibility =
                                  (if cl_error claim \<noteq> None then Inl (persistence_failure_reason control)
                                   else if \<not> cl_claimed claim then Inl (exhausted_reason control)
                                   else secondary_submit_eligibility hexd (in_health_after inp)
                                          (in_eligible_after_now inp) (pc_health_max_age cfg) candidate);
                                audit = (case eligibility of
                                    Inr _ \<Rightarrow> submit_to_node (pc_secondary_name cfg) (in_secondary inp)
                                               (in_secondary_times inp) ''best_effort''
                                  | Inl reason \<Rightarrow> skip reason)
                            in (\<lparr>pl_files = files,
                                 pl_circuit = circuit_record (in_record_now inp) audit (pl_circuit s)\<rparr>,
                                claim, audit)))))"

section \<open>The answer\<close>

definition parallel_submit_status :: "bool \<Rightarrow> bool \<Rightarrow> submit_audit \<Rightarrow> submit_audit \<Rightarrow> string" where
  "parallel_submit_status primary_ok secondary_ok primary secondary =
     (let p = (sa_outcome primary = ''local_canonical_relay_failed'');
          s = (sa_outcome secondary = ''local_canonical_relay_failed'');
          skipped = (sa_outcome secondary = ''skipped'')
      in if primary_ok \<and> secondary_ok then ''both_accepted''
         else if primary_ok then
           (if skipped then ''authority_accepted_secondary_skipped''
            else if s then ''authority_accepted_secondary_local_canonical_relay_failed''
            else ''authority_accepted_secondary_failed'')
         else if secondary_ok then
           (if p then ''secondary_accepted_authority_local_canonical_relay_failed''
            else ''secondary_accepted_authority_failed'')
         else if s \<and> p then ''both_local_canonical_relay_failed''
         else if p then ''authority_local_canonical_relay_failed''
         else if s then ''secondary_local_canonical_relay_failed''
         else if skipped then ''authority_failed_secondary_skipped''
         else ''both_failed'')"

definition accepted_by :: "bool \<Rightarrow> bool \<Rightarrow> string" where
  "accepted_by primary_ok secondary_ok =
     (if primary_ok \<and> secondary_ok then ''both'' else if primary_ok then ''authority''
      else if secondary_ok then ''secondary'' else ''none'')"

definition json_opt :: "('a \<Rightarrow> json) \<Rightarrow> 'a option \<Rightarrow> json" where
  "json_opt f x = (case x of None \<Rightarrow> JNull | Some v \<Rightarrow> f v)"

definition submit_audit_json :: "(submit_block_response \<Rightarrow> json) \<Rightarrow> submit_audit \<Rightarrow> json" where
  "submit_audit_json resp_json a = JObject
     [(''node'', JString (sa_node a)), (''role'', JString (sa_role a)),
      (''started_unix_ms'', JPos (at_started_unix_ms (sa_times a))),
      (''finished_unix_ms'', JPos (at_finished_unix_ms (sa_times a))),
      (''elapsed_us'', JPos (at_elapsed_us (sa_times a))),
      (''outcome'', JString (sa_outcome a)), (''response'', json_opt resp_json (sa_response a)),
      (''error'', json_opt JString (sa_error a)), (''skip_reason'', json_opt JString (sa_skip_reason a))]"

definition health_audit_json :: "health_audit \<Rightarrow> json" where
  "health_audit_json a = JObject
     [(''node'', JString (ha_node a)),
      (''started_unix_ms'', JPos (at_started_unix_ms (ha_times a))),
      (''finished_unix_ms'', JPos (at_finished_unix_ms (ha_times a))),
      (''elapsed_us'', JPos (at_elapsed_us (ha_times a))),
      (''outcome'', JString (ha_outcome a)),
      (''height'', json_opt JPos (Option.bind (ha_snapshot a) nh_height)),
      (''tip'', json_opt JString (Option.bind (ha_snapshot a) nh_tip)),
      (''chainwork'', json_opt JString (Option.bind (ha_snapshot a) nh_chainwork)),
      (''peers'', json_opt JPos (Option.bind (ha_snapshot a) nh_peers)),
      (''error'', json_opt JString (ha_error a))]"

definition candidate_parent_health_json ::
  "(string \<Rightarrow> bytes option) \<Rightarrow> parallel_health \<Rightarrow> candidate_request \<Rightarrow> json" where
  "candidate_parent_health_json hexd h candidate =
     (let candidate_parent = from_candidate_header hexd candidate;
          tip = (\<lambda>a. Option.bind (Option.bind (ha_snapshot a) nh_tip) (from_display_hex hexd));
          primary_tip = tip (ph_primary h);
          secondary_tip = tip (ph_secondary h);
          age = (\<lambda>since. JPos (sat_sub (ph_observed_unix_ms h) since))
      in JObject
        [(''health_observed_unix_ms'', JPos (ph_observed_unix_ms h)),
         (''primary_tip_observed_since_unix_ms'', json_opt JPos (ph_primary_tip_since h)),
         (''primary_tip_age_ms'', json_opt age (ph_primary_tip_since h)),
         (''secondary_tip_observed_since_unix_ms'', json_opt JPos (ph_secondary_tip_since h)),
         (''secondary_tip_age_ms'', json_opt age (ph_secondary_tip_since h)),
         (''candidate_parent_matches_primary'',
            JBool (candidate_parent \<noteq> None \<and> candidate_parent = primary_tip)),
         (''candidate_parent_matches_secondary'',
            JBool (candidate_parent \<noteq> None \<and> candidate_parent = secondary_tip)),
         (''nodes_same_tip'', JBool (primary_tip \<noteq> None \<and> primary_tip = secondary_tip)),
         (''scope'', JString ''local_node_tip_observation''),
         (''global_freshness_proven'', JBool False)])"

definition response_ok_of :: "submit_audit \<Rightarrow> bool" where
  "response_ok_of audit = (case sa_response audit of None \<Rightarrow> False | Some r \<Rightarrow> sb_ok r)"

definition relay_failure_of :: "submit_audit \<Rightarrow> bool" where
  "relay_failure_of audit =
     (case sa_response audit of None \<Rightarrow> False | Some r \<Rightarrow> local_canonical_relay_failure r)"

definition age_ms :: "instant \<Rightarrow> parallel_health \<Rightarrow> u64" where
  "age_ms now h = word_of_nat (min ((now - ph_observed_at h) div 10 ^ 6) (2 ^ 64 - 1))"

definition parallel_submit_json ::
  "(string \<Rightarrow> bytes option) \<Rightarrow> (submit_block_response \<Rightarrow> json) \<Rightarrow> parallel_config \<Rightarrow> parallel_input
    \<Rightarrow> circuit \<Rightarrow> submit_audit \<Rightarrow> submit_audit \<Rightarrow> secondary_claim \<Rightarrow> json" where
  "parallel_submit_json hexd resp_json cfg inp c primary secondary claim =
     (let primary_ok = response_ok_of primary; secondary_ok = response_ok_of secondary;
          health = in_health inp;
          primary_health = (case health of
              None \<Rightarrow> unavailable_health_audit (pc_primary_name cfg) (in_skip_unix_ms inp)
            | Some h \<Rightarrow> ph_primary h);
          secondary_health = (case health of
              None \<Rightarrow> unavailable_health_audit (pc_secondary_name cfg) (in_skip_unix_ms inp)
            | Some h \<Rightarrow> ph_secondary h)
      in JObject
       [(''enabled'', JBool True),
        (''authority'', JString (pc_primary_name cfg)), (''secondary'', JString (pc_secondary_name cfg)),
        (''status'', JString (parallel_submit_status primary_ok secondary_ok primary secondary)),
        (''authority_ok'', JBool primary_ok), (''secondary_ok'', JBool secondary_ok),
        (''accepted_by'', JString (accepted_by primary_ok secondary_ok)),
        (''local_canonical_nodes'', JObject
           [(''authority'', JBool (relay_failure_of primary)),
            (''secondary'', JBool (relay_failure_of secondary))]),
        (''secondary_candidate_control'', JObject
           [(''mode'', JString (cl_mode claim)),
            (''persistent_global_switch'',
               JString ''CSD_POOL_STATELESS_PARALLEL_CANDIDATE_SUBMIT_ENABLED''),
            (''claim_key'', JString (cl_claim_key claim)), (''claimed'', JBool (cl_claimed claim)),
            (''persistence'', JString (cl_persistence claim)),
            (''error'', json_opt JString (cl_error claim)),
            (''circuit'', JObject
               [(''failure_threshold'', JPos (ck_failure_threshold c)),
                (''consecutive_failures'', JPos (ck_consecutive_failures c)),
                (''open_remaining_ms'', JPos (circuit_open_remaining_ms (in_snapshot_now inp) c))])]),
        (''secondary_candidate_budget'', JObject
           [(''configured'', json_opt JPos (cl_configured claim)),
            (''before'', json_opt JPos (cl_before claim)), (''claimed'', JBool (cl_claimed claim)),
            (''remaining'', json_opt JPos (cl_remaining claim)),
            (''persistence'', JString (cl_persistence claim)),
            (''error'', json_opt JString (cl_error claim))]),
        (''health_age_ms'', json_opt (\<lambda>h. JPos (age_ms (in_snapshot_now inp) h)) health),
        (''candidate_parent_health'', json_opt (\<lambda>h. candidate_parent_health_json hexd h
             (cs_candidate (in_submission inp))) health),
        (''primary_health'', health_audit_json primary_health),
        (''secondary_health'', health_audit_json secondary_health),
        (''primary_submit'', submit_audit_json resp_json primary),
        (''secondary_submit'', submit_audit_json resp_json secondary)])"

text \<open>\<open>extra.as_object().cloned().unwrap_or_default()\<close> and \<open>insert\<close>.\<close>

definition json_set :: "string \<Rightarrow> json \<Rightarrow> json \<Rightarrow> json" where
  "json_set k v extra =
     JObject (bt_insert k v (case extra of JObject kvs \<Rightarrow> kvs | _ \<Rightarrow> []))"

definition authority_failed_response :: "candidate_request \<Rightarrow> submit_block_response" where
  "authority_failed_response candidate =
     \<lparr>sb_ok = False, sb_hash = Some (cr_hash_hex candidate),
      sb_extra = JObject [(''retryable'', JBool True), (''status'', JString ''authority_submit_failed'')]\<rparr>"

definition submit_candidate ::
  "(string \<Rightarrow> bytes option) \<Rightarrow> (submit_block_response \<Rightarrow> json) \<Rightarrow> parallel_config \<Rightarrow> parallel_input
    \<Rightarrow> parallel_state \<Rightarrow> parallel_state \<times> submit_block_response \<times> submit_audit \<times> submit_audit" where
  "submit_candidate hexd resp_json cfg inp s =
     (let primary = submit_to_node (pc_primary_name cfg) (in_primary inp) (in_primary_times inp) ''authority''
      in case secondary_submit hexd cfg inp s of
           (s', claim, secondary) \<Rightarrow>
             let primary_ok = response_ok_of primary;
                 secondary_ok = response_ok_of secondary;
                 response = (if secondary_ok \<and> \<not> primary_ok then the (sa_response secondary)
                   else (case sa_response primary of
                           Some r \<Rightarrow> r
                         | None \<Rightarrow> authority_failed_response (cs_candidate (in_submission inp))));
                 response = response\<lparr>sb_ok := primary_ok \<or> secondary_ok,
                   sb_extra := json_set ''parallel_submit''
                     (parallel_submit_json hexd resp_json cfg inp (pl_circuit s') primary secondary claim)
                     (sb_extra response)\<rparr>
             in (s', response, primary, secondary))"

section \<open>When the secondary node is contacted\<close>

lemma submit_to_node_not_skipped: "sa_outcome (submit_to_node name result tms role) \<noteq> ''skipped''"
  by (cases result) (simp_all add: submit_to_node_def submit_outcome_def)

lemma skipped_is_skipped [simp]:
  "sa_outcome (skipped_submit_audit node role reason now) = ''skipped''"
  "sa_response (skipped_submit_audit node role reason now) = None"
  by (simp_all add: skipped_submit_audit_def)

lemma submit_candidate_secondary:
  assumes "submit_candidate hexd resp_json cfg inp s = (s', r, primary, secondary)"
  obtains claim where "secondary_submit hexd cfg inp s = (s', claim, secondary)"
  using assms by (auto simp: submit_candidate_def Let_def split: prod.splits)

lemma secondary_submit_contacted:
  assumes "secondary_submit hexd cfg inp s = (s', claim, audit)" and "sa_outcome audit \<noteq> ''skipped''"
  shows "cs_material (in_submission inp) \<noteq> None"
    and "snd (circuit_eligibility (in_circuit_now inp) (pl_circuit s)) = Inr ()"
    and "control_mode (pc_control cfg) = ''continuous_bounded'' \<Longrightarrow> in_permit inp"
    and "secondary_submit_eligibility hexd (in_health inp) (in_eligible_now inp) (pc_health_max_age cfg)
           (cs_candidate (in_submission inp)) = Inr ()"
    and "run_claim_task (pc_control cfg) (in_claim inp) (cr_hash_hex (cs_candidate (in_submission inp)))
           (pl_files s) = (pl_files s', claim)"
    and "cl_claimed claim" and "cl_error claim = None"
    and "secondary_submit_eligibility hexd (in_health_after inp) (in_eligible_after_now inp)
           (pc_health_max_age cfg) (cs_candidate (in_submission inp)) = Inr ()"
    and "audit = submit_to_node (pc_secondary_name cfg) (in_secondary inp) (in_secondary_times inp) ''best_effort''"
  using assms
  by (auto simp: secondary_submit_def Let_def split: if_splits prod.splits sum.splits)

lemma claimed_task_done:
  assumes "run_claim_task control task h files = (files', claim)" and "cl_claimed claim"
  obtains io ms where "task = ClaimDone io ms" and "control_claim control io ms h files = (files', claim)"
proof (cases task)
  case (ClaimDone io ms)
  with assms that show ?thesis by simp
next
  case (ClaimDied e f)
  with assms show ?thesis by (cases control) (auto simp: claim_failed_def claim_failed_one_shot_def)
next
  case (ClaimLate e f)
  with assms show ?thesis by (cases control) (auto simp: claim_failed_def claim_failed_one_shot_def)
qed

lemma run_claim_task_stays:
  assumes "slot_taken control files k"
  shows "slot_taken control (fst (run_claim_task control task h files)) k"
proof -
  have st: "slot_taken control (fst (control_claim control io ms h files)) k" for io ms
    using control_claim_stays [OF _ assms] by (metis prod.collapse)
  show ?thesis using st assms by (cases task) (auto split: option.splits)
qed

lemma secondary_submit_stays:
  assumes "secondary_submit hexd cfg inp s = (s', claim, audit)"
    and "slot_taken (pc_control cfg) (pl_files s) k"
  shows "slot_taken (pc_control cfg) (pl_files s') k"
proof -
  let ?h = "cr_hash_hex (cs_candidate (in_submission inp))"
  have "pl_files s' = pl_files s
      \<or> pl_files s' = fst (run_claim_task (pc_control cfg) (in_claim inp) ?h (pl_files s))"
    using assms(1) by (auto simp: secondary_submit_def Let_def split: if_splits prod.splits sum.splits)
  with assms(2) run_claim_task_stays [OF assms(2)] show ?thesis by auto
qed

text \<open>One submission as a step of the shared interface: granted means that the node was contacted.\<close>

definition contact_step ::
  "(string \<Rightarrow> bytes option) \<Rightarrow> (submit_block_response \<Rightarrow> json) \<Rightarrow> parallel_config \<Rightarrow> parallel_input
    \<Rightarrow> parallel_state \<Rightarrow> parallel_state \<times> bool" where
  "contact_step hexd resp_json cfg inp s =
     (case submit_candidate hexd resp_json cfg inp s of
        (s', _, _, secondary) \<Rightarrow> (s', sa_outcome secondary \<noteq> ''skipped''))"

definition contact_slot :: "parallel_config \<Rightarrow> parallel_input \<Rightarrow> string" where
  "contact_slot cfg inp = control_slot (pc_control cfg) (cr_hash_hex (cs_candidate (in_submission inp)))"

lemma contact_step_cases:
  assumes "contact_step hexd resp_json cfg inp s = (s', g)"
  obtains claim audit where "secondary_submit hexd cfg inp s = (s', claim, audit)"
    and "g = (sa_outcome audit \<noteq> ''skipped'')"
  using assms unfolding contact_step_def
  by (auto split: prod.splits elim: submit_candidate_secondary)

interpretation contact: exclusive_grant "contact_step hexd resp_json cfg" "contact_slot cfg"
  "\<lambda>s. slot_taken (pc_control cfg) (pl_files s)" for hexd resp_json cfg
proof unfold_locales
  fix i s s'
  assume "contact_step hexd resp_json cfg i s = (s', True)"
  then obtain claim audit where st: "secondary_submit hexd cfg i s = (s', claim, audit)"
    and out: "sa_outcome audit \<noteq> ''skipped''" by (rule contact_step_cases) simp
  note c = secondary_submit_contacted [OF st out]
  obtain io ms where
    "control_claim (pc_control cfg) io ms (cr_hash_hex (cs_candidate (in_submission i))) (pl_files s)
       = (pl_files s', claim)" by (rule claimed_task_done [OF c(5,6)])
  from control_claim_granted [OF this c(6)]
  show "\<not> slot_taken (pc_control cfg) (pl_files s) (contact_slot cfg i)"
    and "slot_taken (pc_control cfg) (pl_files s') (contact_slot cfg i)"
    by (simp_all add: contact_slot_def)
next
  fix i s s' g k
  assume "contact_step hexd resp_json cfg i s = (s', g)" and t: "slot_taken (pc_control cfg) (pl_files s) k"
  then show "slot_taken (pc_control cfg) (pl_files s') k"
    by (auto elim!: contact_step_cases dest: secondary_submit_stays)
qed

text \<open>
  C7. The secondary node sees each candidate at most once: in any run of submissions, whatever
  the nodes, the clocks, the file system and the claim tasks (lost and late ones included) do, at
  most one submission per slot of the control contacts it. One slot is the whole life of a one-shot
  latch, or one block hash of the journal.
\<close>
theorem secondary_contacted_once:
  "length (filter (\<lambda>(inp, contacted). contact_slot cfg inp = k \<and> contacted)
     (grant_run (contact_step hexd resp_json cfg) submissions s)) \<le> 1"
  using contact.at_most_once [of cfg k hexd resp_json submissions s] by (simp add: grants_def)

lemma eligible_iff:
  "secondary_submit_eligibility hexd health now max_age candidate = Inr ()
    \<longleftrightarrow> (\<exists>h p q height work peers tip tip' parent. health = Some h \<and> now - ph_observed_at h \<le> max_age
          \<and> ha_snapshot (ph_primary h) = Some p \<and> ha_snapshot (ph_secondary h) = Some q
          \<and> nh_height p = Some height \<and> nh_height q = Some height
          \<and> nh_chainwork p = Some work \<and> nh_chainwork q = Some work \<and> work \<noteq> []
          \<and> nh_peers q = Some peers \<and> peers \<noteq> 0
          \<and> nh_tip p = Some tip \<and> nh_tip q = Some tip' \<and> tip \<noteq> [] \<and> tip' \<noteq> []
          \<and> from_display_hex hexd tip = Some parent \<and> from_display_hex hexd tip' = Some parent
          \<and> from_candidate_header hexd candidate = Some parent)"
  (is "?l \<longleftrightarrow> ?r")
proof
  assume l: ?l
  obtain h where h: "health = Some h" using l by (auto simp: secondary_submit_eligibility_def split: option.splits)
  obtain p where p: "ha_snapshot (ph_primary h) = Some p"
    using l by (auto simp: secondary_submit_eligibility_def h split: option.splits if_splits)
  obtain q where q: "ha_snapshot (ph_secondary h) = Some q"
    using l by (auto simp: secondary_submit_eligibility_def h split: option.splits if_splits)
  show ?r
    using l unfolding secondary_submit_eligibility_def Let_def nonempty_text_def h
    by (auto simp: p q result_bind_eq_Inr not_less split: option.splits if_splits)
next
  assume ?r
  then show ?l
    by (elim exE conjE)
      (simp add: secondary_submit_eligibility_def Let_def nonempty_text_def not_less)
qed

text \<open>
  What makes a secondary node eligible: exactly a health snapshot that is fresh enough, in
  which both nodes answered completely, the secondary has peers, and both are at one height, one
  chainwork and one tip, which is the parent of the candidate.
\<close>
theorem eligibility_exact:
  "secondary_submit_eligibility hexd health now max_age candidate = Inr ()
    \<longleftrightarrow> (\<exists>h p q height work peers tip tip' parent. health = Some h \<and> now - ph_observed_at h \<le> max_age
          \<and> ha_snapshot (ph_primary h) = Some p \<and> ha_snapshot (ph_secondary h) = Some q
          \<and> nh_height p = Some height \<and> nh_height q = Some height
          \<and> nh_chainwork p = Some work \<and> nh_chainwork q = Some work \<and> work \<noteq> []
          \<and> nh_peers q = Some peers \<and> peers \<noteq> 0
          \<and> nh_tip p = Some tip \<and> nh_tip q = Some tip' \<and> tip \<noteq> [] \<and> tip' \<noteq> []
          \<and> from_display_hex hexd tip = Some parent \<and> from_display_hex hexd tip' = Some parent
          \<and> from_candidate_header hexd candidate = Some parent)"
  by (rule eligible_iff)

text \<open>
  The secondary node is contacted only when everything that guards it holds: the full material
  of the candidate is there, the circuit breaker is closed, a permit is held in the continuous mode,
  this very submission was granted the persistent claim, and the health rules held both before and
  after the claim.
\<close>
theorem secondary_contact_guarded:
  assumes "submit_candidate hexd resp_json cfg inp s = (s', r, primary, secondary)"
    and "sa_outcome secondary \<noteq> ''skipped''"
  shows "cs_material (in_submission inp) \<noteq> None
    \<and> (case ck_open_until (pl_circuit s) of None \<Rightarrow> True | Some deadline \<Rightarrow> deadline \<le> in_circuit_now inp)
    \<and> (control_mode (pc_control cfg) = ''continuous_bounded'' \<longrightarrow> in_permit inp)
    \<and> (\<exists>io ms claim. in_claim inp = ClaimDone io ms \<and> cl_claimed claim
         \<and> control_claim (pc_control cfg) io ms (cr_hash_hex (cs_candidate (in_submission inp))) (pl_files s)
             = (pl_files s', claim))
    \<and> secondary_submit_eligibility hexd (in_health inp) (in_eligible_now inp) (pc_health_max_age cfg)
         (cs_candidate (in_submission inp)) = Inr ()
    \<and> secondary_submit_eligibility hexd (in_health_after inp) (in_eligible_after_now inp)
         (pc_health_max_age cfg) (cs_candidate (in_submission inp)) = Inr ()"
proof -
  obtain claim where st: "secondary_submit hexd cfg inp s = (s', claim, secondary)"
    by (rule submit_candidate_secondary [OF assms(1)])
  note c = secondary_submit_contacted [OF st assms(2)]
  obtain io ms where "in_claim inp = ClaimDone io ms"
    and "control_claim (pc_control cfg) io ms (cr_hash_hex (cs_candidate (in_submission inp))) (pl_files s)
       = (pl_files s', claim)" by (rule claimed_task_done [OF c(5,6)])
  moreover from c(2) have
    "case ck_open_until (pl_circuit s) of None \<Rightarrow> True | Some deadline \<Rightarrow> deadline \<le> in_circuit_now inp"
    by (auto simp: circuit_eligibility_def split: if_splits option.splits)
  ultimately show ?thesis using c by blast
qed

section \<open>The answer to the caller\<close>

lemma response_ok_of_submit [simp]:
  "response_ok_of (submit_to_node name result tms role)
     = (case result of Answered r \<Rightarrow> sb_ok r | _ \<Rightarrow> False)"
  by (cases result) (simp_all add: submit_to_node_def response_ok_of_def)

lemma sa_response_submit [simp]:
  "sa_response (submit_to_node name result tms role) = (case result of Answered r \<Rightarrow> Some r | _ \<Rightarrow> None)"
  by (cases result) (simp_all add: submit_to_node_def)

lemma secondary_submit_response:
  assumes "secondary_submit hexd cfg inp s = (s', claim, audit)"
  shows "sa_response audit = (if sa_outcome audit = ''skipped'' then None
           else (case in_secondary inp of Answered r \<Rightarrow> Some r | _ \<Rightarrow> None))"
proof (cases "sa_outcome audit = ''skipped''")
  case False
  with secondary_submit_contacted(9) [OF assms False] show ?thesis by simp
next
  case True
  with assms show ?thesis
    by (auto simp: secondary_submit_def Let_def submit_to_node_not_skipped
        split: if_splits prod.splits sum.splits)
qed

text \<open>
  The authority decides as if the secondary were not there: when it accepts, its answer is the
  answer, whatever happened on the other path; when neither accepts, its answer (or a retryable
  failure) is; and only when it does not accept and the secondary does is the secondary's answer
  given. The answer is positive exactly when one of the two nodes that were contacted accepted.
\<close>
theorem submission_answer:
  assumes "submit_candidate hexd resp_json cfg inp s = (s', r, primary, secondary)"
  defines "authority_ok \<equiv> (case in_primary inp of Answered x \<Rightarrow> sb_ok x | _ \<Rightarrow> False)"
    and "secondary_ok \<equiv> sa_outcome secondary \<noteq> ''skipped''
           \<and> (case in_secondary inp of Answered y \<Rightarrow> sb_ok y | _ \<Rightarrow> False)"
  shows "(sb_ok r \<longleftrightarrow> authority_ok \<or> secondary_ok)
    \<and> (authority_ok \<or> \<not> secondary_ok \<longrightarrow>
         (\<forall>x. in_primary inp = Answered x \<longrightarrow> sb_hash r = sb_hash x))
    \<and> (\<not> authority_ok \<and> secondary_ok \<longrightarrow>
         (\<forall>y. in_secondary inp = Answered y \<longrightarrow> sb_hash r = sb_hash y))
    \<and> (\<not> secondary_ok \<and> (\<forall>x. in_primary inp \<noteq> Answered x) \<longrightarrow>
         sb_hash r = Some (cr_hash_hex (cs_candidate (in_submission inp)))
         \<and> json_get (sb_extra r) ''retryable'' = Some (JBool True))"
proof -
  obtain claim where st: "secondary_submit hexd cfg inp s = (s', claim, secondary)"
    by (rule submit_candidate_secondary [OF assms(1)])
  note resp = secondary_submit_response [OF st]
  have ok: "response_ok_of secondary = secondary_ok"
    using resp by (auto simp: response_ok_of_def secondary_ok_def split: endpoint_result.splits)
  let ?p = "submit_to_node (pc_primary_name cfg) (in_primary inp) (in_primary_times inp) ''authority''"
  have okp: "response_ok_of ?p = authority_ok" by (simp add: authority_ok_def)
  let ?base = "if secondary_ok \<and> \<not> authority_ok then the (sa_response secondary)
       else (case sa_response ?p of Some x \<Rightarrow> x
             | None \<Rightarrow> authority_failed_response (cs_candidate (in_submission inp)))"
  obtain js where r: "r = ?base\<lparr>sb_ok := authority_ok \<or> secondary_ok,
      sb_extra := json_set ''parallel_submit'' js (sb_extra ?base)\<rparr>"
  proof
    let ?js = "parallel_submit_json hexd resp_json cfg inp (pl_circuit s') ?p secondary claim"
    have "r = fst (snd (submit_candidate hexd resp_json cfg inp s))"
      by (simp only: assms(1) fst_conv snd_conv)
    also have "\<dots> = ?base\<lparr>sb_ok := authority_ok \<or> secondary_ok,
        sb_extra := json_set ''parallel_submit'' ?js (sb_extra ?base)\<rparr>"
      by (simp only: submit_candidate_def Let_def st prod.case ok okp fst_conv snd_conv)
    finally show "r = ?base\<lparr>sb_ok := authority_ok \<or> secondary_ok,
        sb_extra := json_set ''parallel_submit'' ?js (sb_extra ?base)\<rparr>" .
  qed
  show ?thesis
    using resp unfolding r
    by (auto simp: secondary_ok_def authority_ok_def authority_failed_response_def json_set_def
        split: endpoint_result.splits)
qed

section \<open>The circuit breaker against its contract\<close>

text \<open>
  The history of a breaker: submissions that asked it and outcomes that were recorded. The contract
  looks at the history alone, latest event first: the failures since the last acceptance and the
  instant of the latest of them.
\<close>

datatype circuit_event = Asked instant | Recorded instant submit_audit

fun event_instant :: "circuit_event \<Rightarrow> instant" where
  "event_instant (Asked t) = t"
| "event_instant (Recorded t _) = t"

fun circuit_step :: "circuit_event \<Rightarrow> circuit \<Rightarrow> circuit" where
  "circuit_step (Asked t) c = fst (circuit_eligibility t c)"
| "circuit_step (Recorded t audit) c = circuit_record t audit c"

fun failure_streak :: "circuit_event list \<Rightarrow> nat \<times> instant" where
  "failure_streak [] = (0, 0)"
| "failure_streak (Asked _ # es) = failure_streak es"
| "failure_streak (Recorded t audit # es) =
     (if sa_outcome audit = ''accepted'' then (0, 0)
      else if sa_outcome audit = ''skipped'' then failure_streak es
      else (Suc (fst (failure_streak es)), t))"

lemma unat_lt_64: "unat a < 2 ^ 64" for a :: u64
  using unsigned_less [of a, where 'a = nat] by simp

lemma unat_sat_add_one: "unat (sat_add a 1) = min (Suc (unat a)) (2 ^ 64 - 1)" for a :: u64
proof (cases "a = - 1")
  case True
  then show ?thesis by (simp add: sat_add_def unsigned_minus_1_eq_mask mask_eq_exp_minus_1)
next
  case False
  then have "unat a \<noteq> unat (- 1 :: u64)" by (simp add: word_unat_eq_iff)
  then have "unat (a + 1) = Suc (unat a)"
    using unat_lt_64 [of a] by (simp add: unsigned_minus_1_eq_mask mask_eq_exp_minus_1 unat_word_ariths)
  moreover have "unat (a + 1) \<le> 2 ^ 64 - 1" using unat_lt_64 [of "a + 1"] by simp
  ultimately show ?thesis by (simp add: sat_add_def word_le_nat_alt)
qed

definition circuit_tracks :: "u64 \<Rightarrow> nat \<Rightarrow> circuit_event list \<Rightarrow> instant \<Rightarrow> circuit \<Rightarrow> bool" where
  "circuit_tracks threshold cooldown past now c \<longleftrightarrow>
     ck_failure_threshold c = threshold \<and> ck_cooldown c = cooldown
     \<and> unat (ck_consecutive_failures c) = min (fst (failure_streak past)) (2 ^ 64 - 1)
     \<and> (let (n, t) = failure_streak past;
            must_open = (0 < n \<and> unat threshold \<le> n)
        in case ck_open_until c of
             None \<Rightarrow> must_open \<longrightarrow> t + cooldown \<le> now
           | Some deadline \<Rightarrow> must_open \<and> deadline = t + cooldown)"

lemma circuit_tracks_step:
  assumes "circuit_tracks threshold cooldown past now c" and "now \<le> event_instant e"
  shows "circuit_tracks threshold cooldown (e # past) (event_instant e) (circuit_step e c)"
proof (cases e)
  case (Asked t)
  with assms show ?thesis
    by (auto simp: circuit_tracks_def circuit_eligibility_def not_less split: option.splits prod.splits)
next
  case (Recorded t audit)
  have thr: "unat threshold \<le> 2 ^ 64 - 1" using unat_lt_64 [of threshold] by simp
  have sat: "unat (sat_add (ck_consecutive_failures c) 1)
      = min (Suc (fst (failure_streak past))) (2 ^ 64 - 1)"
    using assms(1) by (auto simp: circuit_tracks_def unat_sat_add_one)
  obtain n t0 where st: "failure_streak past = (n, t0)" by fastforce
  consider (acc) "sa_outcome audit = ''accepted''" | (skip) "sa_outcome audit = ''skipped''"
    | (fail) "sa_outcome audit \<noteq> ''accepted''" "sa_outcome audit \<noteq> ''skipped''" by blast
  then show ?thesis
  proof cases
    case acc
    with Recorded assms show ?thesis by (simp add: circuit_tracks_def circuit_record_def)
  next
    case skip
    with Recorded assms show ?thesis
      by (auto simp: circuit_tracks_def circuit_record_def split: option.splits prod.splits)
  next
    case fail
    have le: "ck_failure_threshold c \<le> sat_add (ck_consecutive_failures c) 1 \<longleftrightarrow> unat threshold \<le> Suc n"
      using thr assms(1) by (auto simp: word_le_nat_alt sat st circuit_tracks_def min_def)
    have mono: "\<not> unat threshold \<le> Suc n \<Longrightarrow> ck_open_until c = None"
      using assms(1) by (auto simp: circuit_tracks_def st split: option.splits)
    show ?thesis
      using fail Recorded assms le mono sat
      by (auto simp: circuit_tracks_def circuit_record_def Let_def st)
  qed
qed

lemma circuit_tracks_run:
  assumes "sorted (map event_instant es)"
  shows "circuit_tracks threshold cooldown (rev es) (if es = [] then 0 else event_instant (last es))
           (fold circuit_step es (circuit_new threshold cooldown))"
  using assms
proof (induction es rule: rev_induct)
  case Nil
  then show ?case by (simp add: circuit_tracks_def circuit_new_def)
next
  case (snoc e es)
  then have "circuit_tracks threshold cooldown (rev es) (if es = [] then 0 else event_instant (last es))
      (fold circuit_step es (circuit_new threshold cooldown))" by (simp add: sorted_append)
  moreover have "(if es = [] then 0 else event_instant (last es)) \<le> event_instant e"
    using snoc.prems by (auto simp: sorted_append)
  ultimately show ?case using circuit_tracks_step by fastforce
qed

text \<open>
  C32. The breaker refines its contract: after any history of questions and outcomes in time order
  it refuses exactly when at least the threshold of failures were recorded since the last
  acceptance (and at least one) and the cooldown after the latest of them has not passed. So one
  acceptance closes it, skipped submissions do not count, and after the cooldown a single failure
  opens it again; the saturation of the counter is never seen.
\<close>
theorem circuit_breaker_contract:
  assumes "sorted (map event_instant (es @ [Asked now]))"
  shows "snd (circuit_eligibility now (fold circuit_step es (circuit_new threshold cooldown)))
      = (let (n, t) = failure_streak (rev es) in
         if 0 < n \<and> unat threshold \<le> n \<and> now < t + cooldown
         then Inl ''secondary_circuit_open'' else Inr ())"
proof -
  have "circuit_tracks threshold cooldown (rev es) (if es = [] then 0 else event_instant (last es))
      (fold circuit_step es (circuit_new threshold cooldown))"
    using assms by (intro circuit_tracks_run) (simp add: sorted_append)
  moreover have "(if es = [] then 0 else event_instant (last es)) \<le> now"
    using assms by (auto simp: sorted_append)
  ultimately show ?thesis
    by (auto simp: circuit_tracks_def circuit_eligibility_def Let_def split: option.splits prod.splits)
qed

section \<open>A submission on concrete data\<close>

definition sample_request :: candidate_request where
  "sample_request =
     \<lparr>cr_job_id = ''j1'', cr_worker_name = ''w'', cr_header_hex = hex_encode (replicate 84 7),
      cr_hash_hex = replicate 64 (CHR ''A''), cr_coinbase_txid_hex = [], cr_coinbase_hex = [],
      cr_merkle_root_hex = [], cr_extranonce2_hex = [], cr_ntime_hex = [], cr_nonce_hex = []\<rparr>"

definition sample_node :: "node_health" where
  "sample_node = \<lparr>nh_height = Some 9, nh_tip = Some (hex_encode (replicate 32 7)),
     nh_chainwork = Some ''ff'', nh_peers = Some 3\<rparr>"

definition zero_times :: audit_times where
  "zero_times = \<lparr>at_started_unix_ms = 0, at_finished_unix_ms = 0, at_elapsed_us = 0\<rparr>"

definition sample_parallel_health :: parallel_health where
  "sample_parallel_health =
     refresh_health None (health_with_timeout ''a'' (Answered sample_node) zero_times)
       (health_with_timeout ''b'' (Answered sample_node) zero_times) 5 100"

definition sample_parallel_config :: parallel_config where
  "sample_parallel_config = \<lparr>pc_primary_name = ''a'', pc_secondary_name = ''b'', pc_health_max_age = 1000,
     pc_control = ContinuousBounded ''/claims''\<rparr>"

definition sample_answer :: submit_block_response where
  "sample_answer = \<lparr>sb_ok = True, sb_hash = Some ''h'', sb_extra = JNull\<rparr>"

definition sample_submission_input :: parallel_input where
  "sample_submission_input =
     \<lparr>in_submission = \<lparr>cs_candidate = sample_request,
        cs_material = Some \<lparr>cm_block_template_hex = ''00'', cm_block_template_sha256_hex = [],
          cm_block_template_bytes = 1\<rparr>\<rparr>,
      in_health = Some sample_parallel_health, in_circuit_now = 200, in_permit = True,
      in_eligible_now = 300, in_claim = ClaimDone IoOk 5, in_health_after = Some sample_parallel_health,
      in_eligible_after_now = 400, in_secondary = Answered sample_answer,
      in_secondary_times = zero_times, in_skip_unix_ms = 5, in_record_now = 500,
      in_primary = TimedOut 2000, in_primary_times = zero_times, in_snapshot_now = 600\<rparr>"

definition sample_parallel_state :: parallel_state where
  "sample_parallel_state = \<lparr>pl_files = Map.empty, pl_circuit = circuit_new 3 1000\<rparr>"

lemma hex_32_sevens: "strip_0x (hex_encode (replicate 32 7)) = hex_encode (replicate 32 7)"
  "hex_encode (replicate 32 7) \<noteq> []"
  by code_simp+

lemma sample_eligible:
  "now - 100 \<le> (1000::nat) \<Longrightarrow>
   secondary_submit_eligibility hex_decode (Some sample_parallel_health) now 1000 sample_request = Inr ()"
  unfolding eligible_iff
  by (auto simp: sample_parallel_health_def refresh_health_def health_with_timeout_def sample_node_def
      sample_request_def from_display_hex_def from_candidate_header_def hex_32_sevens)

lemma sample_contacts:
  obtains s' r primary secondary where "submit_candidate hex_decode (\<lambda>_. JNull) sample_parallel_config
      sample_submission_input sample_parallel_state = (s', r, primary, secondary)"
    and "sa_outcome secondary \<noteq> ''skipped''"
proof -
  have h: "length (replicate 64 (CHR ''A'')) = 64 \<and> list_all is_ascii_hexdigit (replicate 64 (CHR ''A''))"
    by code_simp
  have c: "\<exists>files claim. control_claim (ContinuousBounded ''/claims'') IoOk 5 (replicate 64 (CHR ''A'')) Map.empty
      = (files, claim) \<and> cl_claimed claim \<and> cl_error claim = None"
    using h by (simp add: journal_claim_def Let_def)
  then obtain files claim where cl: "control_claim (ContinuousBounded ''/claims'') IoOk 5
      (replicate 64 (CHR ''A'')) Map.empty = (files, claim)" "cl_claimed claim" "cl_error claim = None"
    by blast
  have "\<exists>s' c. secondary_submit hex_decode sample_parallel_config sample_submission_input sample_parallel_state
      = (s', c, submit_to_node ''b'' (Answered sample_answer) zero_times ''best_effort'')"
    using cl sample_eligible [of 300] sample_eligible [of 400]
    by (simp add: secondary_submit_def Let_def sample_submission_input_def sample_parallel_config_def
        sample_parallel_state_def circuit_eligibility_def circuit_new_def sample_request_def del: control_claim.simps)
  then show ?thesis
    using that unfolding submit_candidate_def Let_def
    by (elim exE) (auto simp: submit_to_node_not_skipped)
qed

theorem secondary_contact_guarded_witness:
  "secondary_submit_eligibility hex_decode (Some sample_parallel_health) 400 1000 sample_request = Inr ()
   \<and> (\<exists>claim. cl_claimed claim \<and> (\<exists>files. control_claim (ContinuousBounded ''/claims'') IoOk 5
        (replicate 64 (CHR ''A'')) Map.empty = (files, claim)))"
proof -
  obtain s' r p q where run: "submit_candidate hex_decode (\<lambda>_. JNull) sample_parallel_config
      sample_submission_input sample_parallel_state = (s', r, p, q)" and out: "sa_outcome q \<noteq> ''skipped''"
    by (rule sample_contacts)
  show ?thesis
    using secondary_contact_guarded [OF run out]
    by (auto simp: sample_submission_input_def sample_parallel_config_def sample_parallel_state_def
        sample_request_def simp del: control_claim.simps)
qed

theorem submission_answer_witness:
  "\<exists>s' r p q. submit_candidate hex_decode (\<lambda>_. JNull) sample_parallel_config sample_submission_input
     sample_parallel_state = (s', r, p, q) \<and> sb_ok r \<and> sb_hash r = Some ''h''"
proof -
  obtain s' r p q where run: "submit_candidate hex_decode (\<lambda>_. JNull) sample_parallel_config
      sample_submission_input sample_parallel_state = (s', r, p, q)" and out: "sa_outcome q \<noteq> ''skipped''"
    by (rule sample_contacts)
  show ?thesis
    using submission_answer [OF run] run out
    by (auto simp: sample_submission_input_def sample_answer_def)
qed

theorem circuit_breaker_contract_witness:
  "snd (circuit_eligibility 7 (fold circuit_step
      [Recorded 1 (skipped_submit_audit ''b'' ''best_effort'' ''x'' 0),
       Recorded 2 (submit_to_node ''b'' (TimedOut 5) zero_times ''best_effort''),
       Recorded 3 (submit_to_node ''b'' (TimedOut 5) zero_times ''best_effort'')]
      (circuit_new 2 10))) = Inl ''secondary_circuit_open''"
  by (subst circuit_breaker_contract)
    (simp_all add: skipped_submit_audit_def submit_to_node_def)

end
