(* ===== verification/Csd_Submit.thy ===== *)
theory Csd_Submit
  imports Csd_Parallel Csd_State Csd_Vardiff Csd_Protocol
begin

text \<open>
  Crate \<open>csd-pool-bridge\<close>: how a miner's words become records. The names of workers, the share
  that a submit message claims and its verification, the records written to the repository
  (the data types of \<open>csd-pool-db\<close>) and the submission of a block candidate.
\<close>

section \<open>Records\<close>

record job_record =
  jr_job_id :: string
  jr_prev_hash_be_hex :: string
  jr_version_hex :: string
  jr_nbits_hex :: string
  jr_ntime_hex :: string
  jr_network_target :: hash32
  jr_share_target :: hash32
  jr_coinb1_hex :: string
  jr_coinb2_hex :: string
  jr_merkle_branches_hex :: "string list"
  jr_clean_jobs :: bool
  jr_job_reason :: string

record share_record =
  sh_session_id :: "string option"
  sh_miner :: string
  sh_worker_name :: string
  sh_job_id :: string
  sh_difficulty :: f64
  sh_hash :: hash32
  sh_extranonce2_hex :: string
  sh_ntime_hex :: string
  sh_nonce_hex :: string
  sh_is_block_candidate :: bool

record share_event_record =
  ev_session_id :: "string option"
  ev_miner :: string
  ev_worker_name :: string
  ev_job_id :: "string option"
  ev_kind :: string
  ev_reason :: string

record session_record =
  so_id :: string
  so_miner :: string
  so_worker_name :: string
  so_remote_addr :: string
  so_remote_port :: "16 word"
  so_user_agent :: "string option"
  so_extranonce1 :: string
  so_server_session_id :: u64
  so_server_release :: string
  so_server_instance :: string
  so_assigned_difficulty :: f64

record block_candidate_record =
  bc_hash_hex :: string
  bc_job_id :: string
  bc_miner :: string
  bc_worker_name :: string
  bc_reward_base_units :: u128
  bc_effort_pct :: f64
  bc_candidate_payload_json :: json
  bc_submit_response_json :: json

section \<open>Names\<close>

text \<open>\<open>str::split_once\<close> with a character.\<close>

definition split_once :: "char \<Rightarrow> string \<Rightarrow> (string \<times> string) option" where
  "split_once c s =
     (case dropWhile (\<lambda>x. x \<noteq> c) s of
        [] \<Rightarrow> None
      | _ # rest \<Rightarrow> Some (takeWhile (\<lambda>x. x \<noteq> c) s, rest))"

definition strip_hex_prefix :: "string \<Rightarrow> string" where
  "strip_hex_prefix s =
     (case strip_prefix ''0x'' s of
        Some v \<Rightarrow> v
      | None \<Rightarrow> (case strip_prefix ''0X'' s of Some v \<Rightarrow> v | None \<Rightarrow> s))"

definition valid_addr20 :: "string \<Rightarrow> bool" where
  "valid_addr20 addr \<longleftrightarrow> length addr = 40 \<and> list_all is_ascii_hexdigit addr"

definition valid_worker_name :: "string \<Rightarrow> bool" where
  "valid_worker_name name \<longleftrightarrow>
     name \<noteq> [] \<and> length name \<le> 64
     \<and> list_all (\<lambda>c. is_ascii_alnum c \<or> c \<in> {CHR ''_'', CHR ''-'', CHR ''.''}) name"

definition worker_name_from_submit :: "string \<Rightarrow> string \<Rightarrow> string" where
  "worker_name_from_submit miner submit_worker_name =
     (case Option.bind (strip_prefix miner submit_worker_name) (strip_prefix ''.'') of
        None \<Rightarrow> ''default''
      | Some suffix \<Rightarrow> if suffix = [] then ''default'' else suffix)"

definition authorized_submit_worker :: "string \<Rightarrow> string \<Rightarrow> bool" where
  "authorized_submit_worker miner submitted =
     (let normalized = to_ascii_lowercase (strip_hex_prefix submitted) in
      normalized = miner
      \<or> (case strip_prefix (miner @ ''.'') normalized of
           None \<Rightarrow> False | Some name \<Rightarrow> valid_worker_name name))"

text \<open>The first parameter of a request, when it is a text, without surrounding white space.\<close>

definition first_text :: "json \<Rightarrow> string option" where
  "first_text params =
     map_option trim (Option.bind (Option.bind (json_as_array params)
       (\<lambda>arr. case arr of [] \<Rightarrow> None | v # _ \<Rightarrow> Some v)) json_as_str)"

definition parse_authorize_worker :: "json \<Rightarrow> string option" where
  "parse_authorize_worker params =
     (case first_text params of
        None \<Rightarrow> None
      | Some username \<Rightarrow>
          let username = to_ascii_lowercase (strip_hex_prefix username);
              (address, worker) = (case split_once (CHR ''.'') username of
                  None \<Rightarrow> (username, None)
                | Some (address, worker) \<Rightarrow> (address, Some worker))
          in if \<not> valid_addr20 address
                \<or> (case worker of None \<Rightarrow> False | Some name \<Rightarrow> \<not> valid_worker_name name)
             then None else Some address)"

definition parse_authorize_worker_name :: "json \<Rightarrow> string" where
  "parse_authorize_worker_name params =
     (case Option.bind (first_text params) (split_once (CHR ''.'')) of
        None \<Rightarrow> ''default''
      | Some (_, worker) \<Rightarrow> if valid_worker_name worker then worker else ''default'')"

text \<open>\<open>chars().take(n)\<close>: the bytes before the start of character number \<open>n\<close> (UTF-8).\<close>

fun take_chars :: "nat \<Rightarrow> string \<Rightarrow> string" where
  "take_chars n [] = []"
| "take_chars n (c # cs) =
     (let b = (of_char c :: nat) in
      if 128 \<le> b \<and> b < 192 then c # take_chars n cs
      else if n = 0 then [] else c # take_chars (n - 1) cs)"

definition parse_subscribe_user_agent :: "json \<Rightarrow> string option" where
  "parse_subscribe_user_agent params =
     (case first_text params of
        None \<Rightarrow> None | Some value \<Rightarrow> if value = [] then None else Some (take_chars 256 value))"

section \<open>Decimal numbers\<close>

text \<open>\<open>f64::from_str\<close>: a sign, then a word for a special value or digits, a point and an exponent.\<close>

definition digits_value :: "string \<Rightarrow> nat" where
  "digits_value ds = foldl (\<lambda>a c. 10 * a + (of_char c - 48)) 0 ds"

definition parse_exponent :: "string \<Rightarrow> int option" where
  "parse_exponent s =
     (let (sign, ds) = (case s of
          [] \<Rightarrow> (1, [])
        | c # cs \<Rightarrow> if c = CHR ''-'' then (- 1, cs) else if c = CHR ''+'' then (1, cs) else (1, s))
      in if ds \<noteq> [] \<and> list_all is_ascii_digit ds then Some (sign * int (digits_value ds)) else None)"

definition parse_magnitude :: "string \<Rightarrow> f64 option" where
  "parse_magnitude s =
     (if eq_ignore_ascii_case s ''inf'' \<or> eq_ignore_ascii_case s ''infinity'' then Some (Inf False)
      else if eq_ignore_ascii_case s ''nan'' then Some NaN
      else
        let ip = takeWhile is_ascii_digit s;
            s = dropWhile is_ascii_digit s;
            (fp, s) = (case s of
                [] \<Rightarrow> ([], s)
              | c # cs \<Rightarrow> if c = CHR ''.'' then (takeWhile is_ascii_digit cs, dropWhile is_ascii_digit cs)
                          else ([], s));
            m = (of_nat (digits_value (ip @ fp)) :: rat)
        in if ip = [] \<and> fp = [] then None
           else (case s of
                   [] \<Rightarrow> Some (fround (m * 10 powi (- int (length fp))))
                 | c # cs \<Rightarrow>
                     if c = CHR ''e'' \<or> c = CHR ''E''
                     then map_option (\<lambda>e. fround (m * 10 powi (e - int (length fp)))) (parse_exponent cs)
                     else None))"

definition parse_f64 :: "string \<Rightarrow> f64 option" where
  "parse_f64 s =
     (case s of
        [] \<Rightarrow> None
      | c # cs \<Rightarrow>
          if c = CHR ''-'' then map_option fneg (parse_magnitude cs)
          else if c = CHR ''+'' then parse_magnitude cs else parse_magnitude s)"

definition parse_suggested_difficulty :: "json \<Rightarrow> f64 option" where
  "parse_suggested_difficulty params =
     (case json_as_array params of
        Some (value # _) \<Rightarrow>
          (case (case json_as_f64 value of
                   Some d \<Rightarrow> Some d
                 | None \<Rightarrow> Option.bind (json_as_str value) parse_f64) of
             Some d \<Rightarrow> if fis_finite d \<and> flt (Fin 0) d then Some d else None
           | None \<Rightarrow> None)
      | _ \<Rightarrow> None)"

section \<open>The share a message claims\<close>

record share_key =
  sk_job_id :: string
  sk_extranonce2_hex :: string
  sk_ntime_hex :: string
  sk_nonce_hex :: string

definition share_key_from_submit :: "submit_params \<Rightarrow> share_key" where
  "share_key_from_submit submit =
     \<lparr>sk_job_id = sp_job_id submit, sk_extranonce2_hex = sp_extranonce2_hex submit,
      sk_ntime_hex = sp_ntime_hex submit, sk_nonce_hex = sp_nonce_hex submit\<rparr>"

definition verify_submit ::
  "(bytes \<Rightarrow> bytes) \<Rightarrow> (string \<Rightarrow> bytes option) \<Rightarrow> work_template \<Rightarrow> bytes \<Rightarrow> submit_params \<Rightarrow> f64
    \<Rightarrow> consensus_error + verified_share" where
  "verify_submit sha256 hexd template extranonce1_le submit difficulty =
     result_bind (parse_le_u32_hex_bytes hexd ''extranonce2_hex'' (sp_extranonce2_hex submit)) (\<lambda>extranonce2_le.
     result_bind (parse_u32_hex ''ntime_hex'' (sp_ntime_hex submit)) (\<lambda>ntime.
     result_bind (parse_u32_hex ''nonce_hex'' (sp_nonce_hex submit)) (\<lambda>nonce.
       verify_share_with_difficulty sha256 template extranonce1_le
         \<lparr>sol_extranonce2_le = extranonce2_le, sol_ntime = ntime, sol_nonce = nonce\<rparr> difficulty)))"

definition verify_submit_for_vardiff ::
  "(bytes \<Rightarrow> bytes) \<Rightarrow> (string \<Rightarrow> bytes option) \<Rightarrow> work_template \<Rightarrow> bytes \<Rightarrow> submit_params
    \<Rightarrow> vardiff_state \<Rightarrow> instant \<Rightarrow> consensus_error + (verified_share \<times> f64)" where
  "verify_submit_for_vardiff sha256 hexd template extranonce1_le submit vardiff now =
     (let current_difficulty = vd_current_difficulty vardiff in
      case verify_submit sha256 hexd template extranonce1_le submit current_difficulty of
        Inr share \<Rightarrow> Inr (share, current_difficulty)
      | Inl current_error \<Rightarrow>
          (case previous_difficulty_in_grace now vardiff of
             None \<Rightarrow> Inl current_error
           | Some previous_difficulty \<Rightarrow>
               (case verify_submit sha256 hexd template extranonce1_le submit previous_difficulty of
                  Inr share \<Rightarrow> Inr (share, previous_difficulty)
                | Inl _ \<Rightarrow> Inl current_error)))"

definition job_record_from_pool_job :: "pool_job \<Rightarrow> job_reason \<Rightarrow> job_record" where
  "job_record_from_pool_job job reason =
     (let n = pj_notify job; t = pj_template job in
      \<lparr>jr_job_id = np_job_id n, jr_prev_hash_be_hex = np_prev_hash_be_hex n,
       jr_version_hex = np_version_hex n, jr_nbits_hex = np_nbits_hex n, jr_ntime_hex = np_ntime_hex n,
       jr_network_target = wt_network_target t, jr_share_target = wt_share_target t,
       jr_coinb1_hex = np_coinb1_hex n, jr_coinb2_hex = np_coinb2_hex n,
       jr_merkle_branches_hex = np_merkle_branches_hex n, jr_clean_jobs = np_clean_jobs n,
       jr_job_reason = job_reason_as_str reason\<rparr>)"

definition share_record_from_submit ::
  "string option \<Rightarrow> string \<Rightarrow> submit_params \<Rightarrow> verified_share \<Rightarrow> f64 \<Rightarrow> share_record" where
  "share_record_from_submit session_id miner submit share difficulty =
     \<lparr>sh_session_id = session_id, sh_miner = miner,
      sh_worker_name = worker_name_from_submit miner (sp_worker_name submit),
      sh_job_id = sp_job_id submit, sh_difficulty = difficulty, sh_hash = vs_hash share,
      sh_extranonce2_hex = sp_extranonce2_hex submit, sh_ntime_hex = sp_ntime_hex submit,
      sh_nonce_hex = sp_nonce_hex submit, sh_is_block_candidate = vs_is_block_candidate share\<rparr>"

definition share_event_from_submit ::
  "string option \<Rightarrow> string \<Rightarrow> submit_params \<Rightarrow> string \<Rightarrow> string \<Rightarrow> share_event_record" where
  "share_event_from_submit session_id miner submit kind reason =
     \<lparr>ev_session_id = session_id, ev_miner = miner,
      ev_worker_name = worker_name_from_submit miner (sp_worker_name submit),
      ev_job_id = Some (sp_job_id submit), ev_kind = kind, ev_reason = reason\<rparr>"

definition subscribe_response :: "u64 option \<Rightarrow> string \<Rightarrow> response" where
  "subscribe_response rid extranonce1 =
     \<lparr>rs_id = rid, rs_result = JArray [JArray [], JString extranonce1, JPos 4], rs_error = None\<rparr>"

section \<open>The submission of a block candidate\<close>

text \<open>\<open>serde_json::to_value\<close> of a node's response: its flattened extra fields are the last word.\<close>

definition response_to_json :: "submit_block_response \<Rightarrow> json" where
  "response_to_json r =
     (let base = [(''hash'', json_opt JString (sb_hash r)), (''ok'', JBool (sb_ok r))] in
      case sb_extra r of
        JObject kvs \<Rightarrow> JObject (foldl (\<lambda>m (k, v). bt_insert k v m) base kvs)
      | _ \<Rightarrow> JObject base)"

definition attach_candidate_observability ::
  "u64 \<Rightarrow> u64 \<Rightarrow> u64 \<Rightarrow> submit_block_response \<Rightarrow> submit_block_response" where
  "attach_candidate_observability detected_unix_ms detected_to_submit_start_us node_roundtrip_us r =
     r\<lparr>sb_extra := json_set ''pool_observability'' (JObject
         [(''candidate_detected_to_submit_start_us'', JPos detected_to_submit_start_us),
          (''candidate_detected_unix_ms'', JPos detected_unix_ms),
          (''node_roundtrip_us'', JPos node_roundtrip_us)]) (sb_extra r)\<rparr>"

text \<open>A duration of some microseconds, in seconds.\<close>

definition from_micros :: "u64 \<Rightarrow> f64" where
  "from_micros us = as_secs_f64 (unat us * 1000)"

definition candidate_node_duration :: "submit_block_response \<Rightarrow> string \<Rightarrow> f64 option" where
  "candidate_node_duration r field =
     map_option from_micros (Option.bind (Option.bind (json_get (sb_extra r) ''node_observability'')
       (\<lambda>v. json_get v field)) json_as_u64)"

definition block_effort_pct :: "pool_job \<Rightarrow> pool_state \<Rightarrow> f64 \<Rightarrow> f64" where
  "block_effort_pct job pool current_difficulty =
     (let expected_difficulty = difficulty_for_target (wt_share_target (pj_template job))
                                  (wt_network_target (pj_template job));
          round_difficulty = fadd (to_round_share_difficulty_sum (snapshot_totals pool))
                               (fmax current_difficulty (Fin 0))
      in if fle expected_difficulty (Fin 0) \<or> fle round_difficulty (Fin 0) then Fin 0
         else fmul (fdiv round_difficulty expected_difficulty) (Fin 100))"

text \<open>None is the panic of the \<open>expect\<close>.\<close>

definition block_candidate_submit_request ::
  "(string \<Rightarrow> bytes option) \<Rightarrow> (bytes \<Rightarrow> string) \<Rightarrow> pool_job \<Rightarrow> string \<Rightarrow> submit_params
    \<Rightarrow> verified_share \<Rightarrow> bytes \<Rightarrow> candidate_request option" where
  "block_candidate_submit_request hexd hexe job miner submit share extranonce1_le =
     (case parse_le_u32_hex_bytes hexd ''extranonce2'' (sp_extranonce2_hex submit) of
        Inl _ \<Rightarrow> None
      | Inr extranonce2_le \<Rightarrow>
          let extranonce = compose_extranonce extranonce1_le extranonce2_le in
          Some \<lparr>cr_job_id = sp_job_id submit,
            cr_worker_name = worker_name_from_submit miner (sp_worker_name submit),
            cr_header_hex = hexe (vs_header share), cr_hash_hex = hexe (vs_hash share),
            cr_coinbase_txid_hex = hexe (vs_coinbase_txid share),
            cr_coinbase_hex = hexe (coinbase_bytes (wt_coinbase_prefix (pj_template job)) extranonce
                                      (wt_coinbase_suffix (pj_template job))),
            cr_merkle_root_hex = hexe (vs_merkle_root share),
            cr_extranonce2_hex = sp_extranonce2_hex submit, cr_ntime_hex = sp_ntime_hex submit,
            cr_nonce_hex = sp_nonce_hex submit\<rparr>)"

definition block_candidate_record ::
  "string \<Rightarrow> candidate_submission \<Rightarrow> submit_block_response \<Rightarrow> f64 \<Rightarrow> block_candidate_record" where
  "block_candidate_record miner submission response effort_pct =
     (let request = cs_candidate submission; material = cs_material submission in
      \<lparr>bc_hash_hex = (case sb_hash response of Some h \<Rightarrow> h | None \<Rightarrow> cr_hash_hex request),
       bc_job_id = cr_job_id request, bc_miner = miner, bc_worker_name = cr_worker_name request,
       bc_reward_base_units = 0, bc_effort_pct = effort_pct,
       bc_candidate_payload_json = JObject
         [(''block_template_bytes'', json_opt (\<lambda>m. JPos (cm_block_template_bytes m)) material),
          (''block_template_sha256_hex'',
             json_opt (\<lambda>m. JString (cm_block_template_sha256_hex m)) material),
          (''extranonce2_hex'', JString (cr_extranonce2_hex request)),
          (''hash_hex'', JString (cr_hash_hex request)), (''job_id'', JString (cr_job_id request)),
          (''nonce_hex'', JString (cr_nonce_hex request)),
          (''worker_name'', JString (cr_worker_name request))],
       bc_submit_response_json = response_to_json response\<rparr>)"

text \<open>What the submitter, the repository and the clocks answer during the submission.\<close>

record candidate_env =
  ce_submitter :: bool
  ce_repository :: bool
  ce_material :: "candidate_material option"
  ce_submit :: "string + submit_block_response"
  ce_recorded :: bool
  ce_detected_unix_ms :: u64
  ce_detected_to_submit_us :: u64
  ce_roundtrip_us :: u64
  ce_record_us :: u64
  ce_total_us :: u64
  ce_now :: u64

record candidate_result =
  co_pool :: pool_state
  co_submission :: "candidate_submission option"
  co_record :: "block_candidate_record option"
  co_ok :: bool

definition failed_transport_response :: "string \<Rightarrow> candidate_request \<Rightarrow> submit_block_response" where
  "failed_transport_response err request =
     \<lparr>sb_ok = False, sb_hash = Some (cr_hash_hex request),
      sb_extra = JObject [(''retryable'', JBool True), (''transport_error'', JString err)]\<rparr>"

definition submit_block_candidate ::
  "(string \<Rightarrow> bytes option) \<Rightarrow> (bytes \<Rightarrow> string) \<Rightarrow> candidate_env \<Rightarrow> pool_job \<Rightarrow> pool_state \<Rightarrow> string
    \<Rightarrow> submit_params \<Rightarrow> verified_share \<Rightarrow> bytes \<Rightarrow> f64 \<Rightarrow> candidate_result option" where
  "submit_block_candidate hexd hexe env job pool miner submit share extranonce1_le difficulty =
     (if \<not> ce_submitter env
      then Some \<lparr>co_pool = pool, co_submission = None, co_record = None, co_ok = True\<rparr>
      else
        (case block_candidate_submit_request hexd hexe job miner submit share extranonce1_le of
           None \<Rightarrow> None
         | Some request \<Rightarrow>
             let effort_pct = block_effort_pct job pool difficulty;
                 submission = \<lparr>cs_candidate = request, cs_material = ce_material env\<rparr>;
                 attach = attach_candidate_observability (ce_detected_unix_ms env)
                            (ce_detected_to_submit_us env) (ce_roundtrip_us env);
                 response = attach (case ce_submit env of
                     Inr response \<Rightarrow> response
                   | Inl err \<Rightarrow> failed_transport_response err request);
                 recorded = (if ce_repository env
                   then Some (block_candidate_record miner submission response effort_pct) else None);
                 record_us = (case ce_submit env of
                     Inr _ \<Rightarrow> ce_record_us env
                   | Inl _ \<Rightarrow> if ce_repository env then ce_record_us env else 0);
                 node_duration = (\<lambda>field. case ce_submit env of
                     Inr _ \<Rightarrow> candidate_node_duration response field | Inl _ \<Rightarrow> None)
             in if ce_repository env \<and> \<not> ce_recorded env
                then Some \<lparr>co_pool = pool, co_submission = Some submission, co_record = recorded,
                           co_ok = False\<rparr>
                else Some \<lparr>co_pool = record_candidate_propagation (ce_now env)
                              (from_micros (ce_detected_to_submit_us env))
                              (from_micros (ce_roundtrip_us env)) (from_micros record_us)
                              (from_micros (ce_total_us env)) (node_duration ''accept_elapsed_us'')
                              (node_duration ''relay_enqueue_elapsed_us'') pool,
                            co_submission = Some submission, co_record = recorded, co_ok = True\<rparr>))"

section \<open>Spellings\<close>

lemma ascii_lower_other:
  "(of_char d :: nat) < 65 \<Longrightarrow> ascii_lower c = d \<longleftrightarrow> c = d"
  using of_char_ascii_lower [of c]
  by (auto simp: ascii_lower_def is_ascii_upper_def Let_def)

lemma ascii_lower_sign [simp]:
  "ascii_lower c = CHR ''+'' \<longleftrightarrow> c = CHR ''+''" "ascii_lower c = CHR ''-'' \<longleftrightarrow> c = CHR ''-''"
  by (rule ascii_lower_other; simp)+

lemma parse_uint_lowercase [simp]:
  "parse_uint radix bound (to_ascii_lowercase s) = parse_uint radix bound s"
proof (cases s)
  case (Cons c cs)
  have "to_ascii_lowercase s = ascii_lower c # to_ascii_lowercase cs"
    by (simp add: Cons to_ascii_lowercase_def)
  moreover have "to_ascii_lowercase cs = [] \<longleftrightarrow> cs = []"
    by (simp add: to_ascii_lowercase_def)
  moreover have "parse_digits radix bound 0 (ascii_lower c # to_ascii_lowercase cs) = parse_digits radix bound 0 s"
    using parse_digits_lowercase [of radix bound 0 s] by (simp only: calculation(1))
  ultimately show ?thesis
    unfolding parse_uint_def by (simp only: Cons list.simps list.sel ascii_lower_sign parse_digits_lowercase simp_thms)
qed (simp add: parse_uint_def to_ascii_lowercase_def)

definition lowercase_submit :: "submit_params \<Rightarrow> submit_params" where
  "lowercase_submit submit = submit
     \<lparr>sp_extranonce2_hex := to_ascii_lowercase (sp_extranonce2_hex submit),
      sp_ntime_hex := to_ascii_lowercase (sp_ntime_hex submit),
      sp_nonce_hex := to_ascii_lowercase (sp_nonce_hex submit)\<rparr>"

text \<open>
  The verification of a share does not see the case of its hex fields, but its key and its
  record do: a submission and its lower-case spelling claim one and the same share, yet pass
  for two shares where keys are compared (and the upper-case one is none to a table that checks
  for lower-case digits).
\<close>
theorem respelled_share_verifies:
  assumes "hex_decoder hexd"
  shows "verify_submit sha256 hexd template e1 (lowercase_submit submit) d
      = verify_submit sha256 hexd template e1 submit d
    \<and> (share_key_from_submit (lowercase_submit submit) = share_key_from_submit submit
       \<longleftrightarrow> lowercase_submit submit = submit)"
proof -
  have "share_key_from_submit (lowercase_submit submit) = share_key_from_submit submit
      \<longleftrightarrow> lowercase_submit submit = submit"
    by (cases submit) (auto simp: share_key_from_submit_def lowercase_submit_def)
  then show ?thesis
    by (simp add: verify_submit_def lowercase_submit_def parse_le_u32_hex_bytes_def parse_u32_hex_def
        hex_decoder.decode_lowercase [OF assms])
qed

theorem respelled_share_verifies_witness:
  "verify_submit (\<lambda>_. replicate 32 0) hex_decode sample_template [1, 0, 0, 0]
       \<lparr>sp_worker_name = ''w'', sp_job_id = ''1'', sp_extranonce2_hex = ''000000ab'',
        sp_ntime_hex = ''0000000a'', sp_nonce_hex = ''00000000''\<rparr> (Fin 1)
     = verify_submit (\<lambda>_. replicate 32 0) hex_decode sample_template [1, 0, 0, 0]
       \<lparr>sp_worker_name = ''w'', sp_job_id = ''1'', sp_extranonce2_hex = ''000000AB'',
        sp_ntime_hex = ''0000000A'', sp_nonce_hex = ''00000000''\<rparr> (Fin 1)"
proof -
  let ?s = "\<lparr>sp_worker_name = ''w'', sp_job_id = ''1'', sp_extranonce2_hex = ''000000AB'',
        sp_ntime_hex = ''0000000A'', sp_nonce_hex = ''00000000''\<rparr>"
  have l: "lowercase_submit ?s = \<lparr>sp_worker_name = ''w'', sp_job_id = ''1'',
        sp_extranonce2_hex = ''000000ab'', sp_ntime_hex = ''0000000a'', sp_nonce_hex = ''00000000''\<rparr>"
    by code_simp
  from respelled_share_verifies [OF hexd.hex_decoder_axioms,
      of "\<lambda>_. replicate 32 0" sample_template "[1, 0, 0, 0]" ?s "Fin 1"]
  show ?thesis by (simp add: l)
qed

text \<open>
  The names of a submission: an authorized one names the miner, in any case and with or without the
  prefix, or one of its workers. The recorded name is read from the text as it was sent.
\<close>

lemma strip_prefix_append [simp]: "strip_prefix p (p @ s) = Some s"
  by (simp add: strip_prefix_def)

text \<open>
  A submission for a worker of the miner is booked under that worker only when it spells the
  address as the miner is recorded; with the \<open>0x\<close> prefix (or other letter case) it is authorized just
  the same, but booked under \<open>default\<close>.
\<close>
theorem prefixed_worker_booked_as_default:
  assumes "valid_addr20 miner" and "to_ascii_lowercase miner = miner"
    and "valid_worker_name w" and "to_ascii_lowercase w = w"
  shows "authorized_submit_worker miner (miner @ ''.'' @ w)
    \<and> worker_name_from_submit miner (miner @ ''.'' @ w) = w
    \<and> authorized_submit_worker miner (''0x'' @ miner @ ''.'' @ w)
    \<and> worker_name_from_submit miner (''0x'' @ miner @ ''.'' @ w) = ''default''"
proof -
  have hexd: "list_all is_ascii_hexdigit miner" and len: "length miner = 40"
    using assms(1) by (simp_all add: valid_addr20_def)
  then obtain a b cs where m: "miner = a # b # cs" and "is_ascii_hexdigit a" and "is_ascii_hexdigit b"
    by (cases miner; cases "tl miner") auto
  then have x: "b \<noteq> CHR ''x''" "b \<noteq> CHR ''X''"
    by (auto simp: is_ascii_hexdigit_def Let_def is_ascii_digit_def)
  have w: "w \<noteq> []" using assms(3) by (simp add: valid_worker_name_def)
  have raw: "strip_hex_prefix (miner @ ''.'' @ w) = miner @ ''.'' @ w"
    using x by (simp add: strip_hex_prefix_def strip_prefix_def m)
  have low: "to_ascii_lowercase (miner @ ''.'' @ w) = (miner @ ''.'') @ w"
    using assms(2,4) by (simp add: to_ascii_lowercase_def ascii_lower_def)
      (simp add: is_ascii_upper_def Let_def)
  have pre: "strip_hex_prefix (''0x'' @ miner @ ''.'' @ w) = miner @ ''.'' @ w"
    by (simp only: strip_hex_prefix_def strip_prefix_append option.case)
  have other: "strip_prefix miner (''0x'' @ miner @ ''.'' @ w) = None"
    using x by (simp add: strip_prefix_def m)
  show ?thesis
    unfolding authorized_submit_worker_def worker_name_from_submit_def raw pre low Let_def
      strip_prefix_append other
    using assms(3) w by (simp add: strip_prefix_def)
qed

theorem prefixed_worker_booked_as_default_witness:
  "worker_name_from_submit (replicate 40 (CHR ''a'')) (''0x'' @ replicate 40 (CHR ''a'') @ ''.'' @ ''rig'')
     = ''default''"
proof -
  have "valid_addr20 (replicate 40 (CHR ''a''))" "to_ascii_lowercase (replicate 40 (CHR ''a'')) = replicate 40 (CHR ''a'')"
    "valid_worker_name ''rig''" "to_ascii_lowercase ''rig'' = ''rig''" by code_simp+
  from prefixed_worker_booked_as_default [OF this] show ?thesis by simp
qed

section \<open>The candidate that is submitted\<close>

lemma verify_submit_Inr:
  assumes "verify_submit sha256 hexd template e1 submit d = Inr share"
  obtains e2 ntime nonce where "parse_le_u32_hex_bytes hexd ''extranonce2_hex'' (sp_extranonce2_hex submit) = Inr e2"
    and "parse_u32_hex ''ntime_hex'' (sp_ntime_hex submit) = Inr ntime"
    and "parse_u32_hex ''nonce_hex'' (sp_nonce_hex submit) = Inr nonce"
    and "verify_share_with_difficulty sha256 template e1
      \<lparr>sol_extranonce2_le = e2, sol_ntime = ntime, sol_nonce = nonce\<rparr> d = Inr share"
  using assms by (auto simp: verify_submit_def result_bind_eq_Inr)

lemma parse_le_field: "parse_le_u32_hex_bytes hexd f v = Inr bytes \<Longrightarrow> parse_le_u32_hex_bytes hexd g v = Inr bytes"
  by (auto simp: parse_le_u32_hex_bytes_def split: option.splits if_splits)

text \<open>
  A verified share never makes the submission of its candidate panic, and the request is a
  block the node can rebuild: the coinbase it carries hashes to the share's transaction id, that id
  and the job's branch give the merkle root, the root is in the header and the header hashes to the
  hash, which meets the difficulty.
\<close>
theorem candidate_request_complete:
  assumes "verify_submit sha256 hexd (pj_template job) e1 submit d = Inr share"
  shows "\<exists>r coinbase ntime nonce.
    block_candidate_submit_request hexd hexe job miner submit share e1 = Some r
    \<and> cr_coinbase_hex r = hexe coinbase \<and> sha256d sha256 coinbase = vs_coinbase_txid share
    \<and> cr_coinbase_txid_hex r = hexe (vs_coinbase_txid share)
    \<and> cr_merkle_root_hex r = hexe (merkle_root_from_branch sha256 (vs_coinbase_txid share)
          (wt_merkle_branch (pj_template job)))
    \<and> cr_header_hex r = hexe (header_84 (wt_version (pj_template job)) (wt_prev (pj_template job))
          (vs_merkle_root share) ntime (wt_bits (pj_template job)) nonce)
    \<and> cr_hash_hex r = hexe (header_hash sha256 (vs_header share))
    \<and> vs_hash share \<le> target_for_difficulty (wt_share_target (pj_template job)) d"
proof -
  obtain e2 ntime nonce where e2: "parse_le_u32_hex_bytes hexd ''extranonce2_hex'' (sp_extranonce2_hex submit) = Inr e2"
    and v: "verify_share_with_difficulty sha256 (pj_template job) e1
      \<lparr>sol_extranonce2_le = e2, sol_ntime = ntime, sol_nonce = nonce\<rparr> d = Inr share"
    by (rule verify_submit_Inr [OF assms])
  let ?x = "compose_extranonce e1 e2"
  let ?coinbase = "coinbase_bytes (wt_coinbase_prefix (pj_template job)) ?x (wt_coinbase_suffix (pj_template job))"
  note parsed = parse_le_field [OF e2, of "''extranonce2''"]
  show ?thesis
    using v
    by (intro exI [of _ "the (block_candidate_submit_request hexd hexe job miner submit share e1)"]
          exI [of _ ?coinbase] exI [of _ "ucast ntime"] exI [of _ nonce])
      (auto simp: block_candidate_submit_request_def parsed Let_def coinbase_txid_def hash_leq_target_def
        verify_share_with_difficulty_def verify_share_against_target_def split: if_splits)
qed

definition sample_submit :: submit_params where
  "sample_submit = \<lparr>sp_worker_name = ''w'', sp_job_id = ''1'', sp_extranonce2_hex = ''00000000'',
     sp_ntime_hex = ''00000000'', sp_nonce_hex = ''00000000''\<rparr>"

lemma sample_submit_parses:
  "parse_le_u32_hex_bytes hex_decode f (sp_extranonce2_hex sample_submit) = Inr [0, 0, 0, 0]"
  "parse_u32_hex f (sp_ntime_hex sample_submit) = Inr 0"
  "parse_u32_hex f (sp_nonce_hex sample_submit) = Inr 0"
proof -
  have "hex_decode ''00000000'' = Some [0, 0, 0, 0]" by (simp add: digit_value_def)
  moreover have "parse_uint 16 (2 ^ 32) ''00000000'' = Some 0"
    by (simp add: parse_uint_def digit_value_def)
  ultimately show "parse_le_u32_hex_bytes hex_decode f (sp_extranonce2_hex sample_submit) = Inr [0, 0, 0, 0]"
    "parse_u32_hex f (sp_ntime_hex sample_submit) = Inr 0"
    "parse_u32_hex f (sp_nonce_hex sample_submit) = Inr 0"
    by (simp_all add: parse_le_u32_hex_bytes_def parse_u32_hex_def sample_submit_def)
qed

lemma sample_submit_verifies:
  "\<exists>v. verify_submit (\<lambda>_. replicate 32 0) hex_decode (pj_template sample_job) e1 sample_submit (Fin 1) = Inr v
     \<and> vs_is_block_candidate v"
  using sample_template_verifies by (simp add: verify_submit_def sample_submit_parses sample_job_def)

theorem candidate_request_complete_witness:
  "\<exists>share r. block_candidate_submit_request hex_decode hex_encode sample_job ''w'' sample_submit share
     [1, 0, 0, 0] = Some r"
proof -
  obtain share where "verify_submit (\<lambda>_. replicate 32 0) hex_decode (pj_template sample_job) [1, 0, 0, 0]
      sample_submit (Fin 1) = Inr share" using sample_submit_verifies by blast
  from candidate_request_complete [OF this] show ?thesis by blast
qed

end
