(* ===== verification/Csd_Session.thy ===== *)
theory Csd_Session
  imports Csd_Submit Csd_Abuse
begin

text \<open>
  Crate \<open>csd-pool-bridge\<close>: a client session (\<open>handle_client\<close>). A session is a state of its own and
  a share of the pool's state and of the abuse manager; it reacts to jobs and to the requests of
  its client. What the repository, the nodes, the socket and the clocks answer is the
  environment of a step; the calls and frames of a step are its effects, in order. A step ends
  the session or goes on.
\<close>

section \<open>State\<close>

record session =
  ss_authorized :: "string option"
  ss_user_agent :: "string option"
  ss_persisted :: bool
  ss_address_permit :: "string option"
  ss_seen_shares :: "share_key set"
  ss_vardiff :: vardiff_state
  ss_suggestion_seen :: bool
  ss_accepted_share_seen :: bool
  ss_unknown_job_streak :: u32
  ss_last_clean_generation :: u64

record session_config =
  sc_ip :: ip_addr
  sc_port :: "16 word"
  sc_session_id :: u64
  sc_session_uuid :: string
  sc_extranonce1_le :: bytes
  sc_repository :: bool
  sc_submitter :: bool
  sc_abuse :: abuse_config
  sc_release :: string
  sc_instance :: string

text \<open>The answers during one step; \<open>en_write_ok k\<close> is the fate of its frame number k.\<close>

record session_env =
  en_jobs :: job_watch
  en_write_ok :: "nat \<Rightarrow> bool"
  en_open_ok :: bool
  en_event_ok :: bool
  en_upsert_ok :: bool
  en_insert :: "bool option"
  en_candidate :: candidate_env
  en_validation :: f64
  en_suggest_at :: instant
  en_validate_at :: instant
  en_accept_at :: instant
  en_abuse_at :: instant
  en_ban_at :: instant
  en_ban_at' :: instant
  en_now :: u64
  en_now' :: u64

datatype session_effect =
    SentResponse response
  | SentRequest request
  | OpenedSession session_record
  | ShareEvent share_event_record
  | UpsertedJob job_record
  | InsertedShare share_record "bool option"
  | CandidateSubmitted candidate_submission "block_candidate_record option"
  | UpdatedDifficulty string f64
  | ClosedSession string

datatype session_end = EndedOk | EndedError | EndedPanic

record session_run =
  rn_session :: session
  rn_pool :: pool_state
  rn_abuse :: abuse_manager
  rn_effects :: "session_effect list"
  rn_frames :: nat

definition session_start :: "vardiff_state \<Rightarrow> session" where
  "session_start vardiff =
     \<lparr>ss_authorized = None, ss_user_agent = None, ss_persisted = False, ss_address_permit = None,
      ss_seen_shares = {}, ss_vardiff = vardiff, ss_suggestion_seen = False,
      ss_accepted_share_seen = False, ss_unknown_job_streak = 0, ss_last_clean_generation = 0\<rparr>"

definition stale_job_reconnect_threshold :: u32 where
  "stale_job_reconnect_threshold = 3"

section \<open>Actions\<close>

text \<open>An action changes the run and goes on with a value, or ends the session.\<close>

type_synonym 'a action = "session_run \<Rightarrow> session_run \<times> (session_end + 'a)"

definition act_return :: "'a \<Rightarrow> 'a action" where
  "act_return x r = (r, Inr x)"

definition act_end :: "session_end \<Rightarrow> 'a action" where
  "act_end e r = (r, Inl e)"

definition act_bind :: "'a action \<Rightarrow> ('a \<Rightarrow> 'b action) \<Rightarrow> 'b action" where
  "act_bind m f r = (case m r of (r', Inl e) \<Rightarrow> (r', Inl e) | (r', Inr x) \<Rightarrow> f x r')"

definition act_get :: "session_run action" where
  "act_get r = (r, Inr r)"

definition act_modify :: "(session_run \<Rightarrow> session_run) \<Rightarrow> unit action" where
  "act_modify f r = (f r, Inr ())"

definition on_session :: "(session \<Rightarrow> session) \<Rightarrow> unit action" where
  "on_session f = act_modify (\<lambda>r. r\<lparr>rn_session := f (rn_session r)\<rparr>)"

definition on_pool :: "(pool_state \<Rightarrow> pool_state) \<Rightarrow> unit action" where
  "on_pool f = act_modify (\<lambda>r. r\<lparr>rn_pool := f (rn_pool r)\<rparr>)"

definition emit :: "session_effect \<Rightarrow> unit action" where
  "emit e = act_modify (\<lambda>r. r\<lparr>rn_effects := rn_effects r @ [e]\<rparr>)"

text \<open>A frame that cannot be written ends the session (\<open>write_client_frame\<close>).\<close>

definition send :: "session_env \<Rightarrow> session_effect \<Rightarrow> unit action" where
  "send env e r =
     (if en_write_ok env (rn_frames r)
      then (r\<lparr>rn_frames := rn_frames r + 1, rn_effects := rn_effects r @ [e]\<rparr>, Inr ())
      else (r, Inl EndedError))"

definition offend_action :: "session_config \<Rightarrow> session_env \<Rightarrow> offense_kind \<Rightarrow> bool action" where
  "offend_action cfg env kind r =
     (case record_offense (sc_abuse cfg) (en_abuse_at env) (sc_ip cfg) kind (rn_abuse r) of
        (m, banned) \<Rightarrow> (r\<lparr>rn_abuse := m\<rparr>, Inr banned))"

definition persist_share_event :: "session_config \<Rightarrow> session_env \<Rightarrow> share_event_record \<Rightarrow> unit action" where
  "persist_share_event cfg env event =
     (if sc_repository cfg
      then act_bind (emit (ShareEvent event)) (\<lambda>_.
             if en_event_ok env then act_return () else act_end EndedError)
      else act_return ())"

definition persist_accepted_share ::
  "session_config \<Rightarrow> session_env \<Rightarrow> pool_job \<Rightarrow> share_record \<Rightarrow> bool action" where
  "persist_accepted_share cfg env job record =
     (if sc_repository cfg
      then act_bind (emit (UpsertedJob (job_record_from_pool_job job (job_reason_from_job job)))) (\<lambda>_.
             if \<not> en_upsert_ok env then act_end EndedError
             else act_bind (emit (InsertedShare record (en_insert env))) (\<lambda>_.
               case en_insert env of None \<Rightarrow> act_end EndedError | Some inserted \<Rightarrow> act_return inserted))
      else act_return True)"

definition raise_streak :: "session \<Rightarrow> session" where
  "raise_streak s = s\<lparr>ss_unknown_job_streak := sat_add (ss_unknown_job_streak s) 1\<rparr>"

text \<open>The job as it goes to the client, if it may still be mined, and the generation it brings.\<close>

definition note_generation :: "session_env \<Rightarrow> pool_job \<Rightarrow> unit action" where
  "note_generation env job =
     on_session (\<lambda>s. case clean_generation (jw_retained (en_jobs env)) (job_id_of job) of
         None \<Rightarrow> s
       | Some generation \<Rightarrow> s\<lparr>ss_last_clean_generation := max (ss_last_clean_generation s) generation\<rparr>)"

definition deliver_job :: "session_env \<Rightarrow> pool_job \<Rightarrow> unit action" where
  "deliver_job env job =
     (if get_for_submit (jw_retained (en_jobs env)) (job_id_of job) \<noteq> None
      then act_bind (send env (SentRequest (notify (pj_notify job)))) (\<lambda>_. note_generation env job)
      else act_return ())"

section \<open>Requests\<close>

text \<open>A handler answers with the response, a difficulty to announce and the wish to resynchronise.\<close>

type_synonym answer = "response \<times> f64 option \<times> bool"

definition answer_ok :: "u64 \<Rightarrow> answer action" where
  "answer_ok rid = act_return (response_ok rid, None, False)"

definition answer_error :: "u64 \<Rightarrow> int \<Rightarrow> string \<Rightarrow> answer action" where
  "answer_error rid code message = act_return (response_error rid code message, None, False)"

definition request_number :: "request \<Rightarrow> u64" where
  "request_number req = (case rq_id req of None \<Rightarrow> 0 | Some n \<Rightarrow> n)"

definition session_reference :: "session_config \<Rightarrow> session \<Rightarrow> string option" where
  "session_reference cfg s = (if ss_persisted s then Some (sc_session_uuid cfg) else None)"

definition open_session :: "(bytes \<Rightarrow> string) \<Rightarrow> session_config \<Rightarrow> session_env \<Rightarrow> json \<Rightarrow> string \<Rightarrow> unit action" where
  "open_session hexe cfg env params worker =
     act_bind act_get (\<lambda>r. let s = rn_session r in
       if ss_persisted s \<or> \<not> sc_repository cfg then act_return ()
       else act_bind (emit (OpenedSession
           \<lparr>so_id = sc_session_uuid cfg, so_miner = worker,
            so_worker_name = parse_authorize_worker_name params, so_remote_addr = sc_ip cfg,
            so_remote_port = sc_port cfg, so_user_agent = ss_user_agent s,
            so_extranonce1 = hexe (sc_extranonce1_le cfg),
            so_server_session_id = sc_session_id cfg, so_server_release = sc_release cfg,
            so_server_instance = sc_instance cfg,
            so_assigned_difficulty = vd_current_difficulty (ss_vardiff s)\<rparr>)) (\<lambda>_.
         on_session (\<lambda>s. s\<lparr>ss_persisted := en_open_ok env\<rparr>)))"

text \<open>The new permit is held before the old one is dropped.\<close>

definition take_address_permit :: "string \<Rightarrow> unit action" where
  "take_address_permit worker =
     act_modify (\<lambda>r. let s = rn_session r in
       r\<lparr>rn_abuse := (case ss_address_permit s of
            None \<Rightarrow> rn_abuse r | Some old \<Rightarrow> close_address_session old (rn_abuse r)),
         rn_session := s\<lparr>ss_authorized := Some worker, ss_address_permit := Some worker\<rparr>\<rparr>)"

definition authorize_action :: "(bytes \<Rightarrow> string) \<Rightarrow> session_config \<Rightarrow> session_env \<Rightarrow> request \<Rightarrow> answer action" where
  "authorize_action hexe cfg env req =
     (let rid = request_number req in
      case parse_authorize_worker (rq_params req) of
        Some worker \<Rightarrow>
          if \<not> valid_addr20 worker
          then act_bind (offend_action cfg env AuthFailure) (\<lambda>_. answer_error rid 20 ''invalid address'')
          else act_bind act_get (\<lambda>r.
            if ss_authorized (rn_session r) = Some worker then answer_ok rid
            else (case try_open_address_session (sc_abuse cfg) worker (rn_abuse r) of
              (m, result) \<Rightarrow> act_bind (act_modify (\<lambda>r. r\<lparr>rn_abuse := m\<rparr>)) (\<lambda>_.
                case result of
                  Inr _ \<Rightarrow>
                    act_bind (on_pool (record_authorized_worker (en_now env) (en_now' env) worker)) (\<lambda>_.
                    act_bind (open_session hexe cfg env (rq_params req) worker) (\<lambda>_.
                    act_bind (take_address_permit worker) (\<lambda>_. answer_ok rid)))
                | Inl TooManyAddressSessions \<Rightarrow>
                    answer_error rid 25 ''too many sessions for address''
                | Inl _ \<Rightarrow> answer_error rid 20 ''invalid address'')))
      | None \<Rightarrow> act_bind (offend_action cfg env AuthFailure) (\<lambda>_. answer_error rid 20 ''invalid address''))"

definition suggest_action :: "session_env \<Rightarrow> request \<Rightarrow> answer action" where
  "suggest_action env req =
     (let rid = request_number req in
      case parse_suggested_difficulty (rq_params req) of
        None \<Rightarrow> answer_error rid 20 ''invalid suggested difficulty''
      | Some suggested \<Rightarrow> act_bind act_get (\<lambda>r. let s = rn_session r in
          if ss_suggestion_seen s \<or> ss_accepted_share_seen s then answer_ok rid
          else (case apply_suggested_difficulty suggested (en_suggest_at env) (ss_vardiff s) of
              None \<Rightarrow> act_end EndedPanic
            | Some (vardiff, pending) \<Rightarrow>
                act_bind (on_session (\<lambda>s. s\<lparr>ss_suggestion_seen := True, ss_vardiff := vardiff\<rparr>)) (\<lambda>_.
                  act_return (response_ok rid, pending, False)))))"

section \<open>Submissions\<close>

text \<open>A submission that is refused: it is counted, its event is persisted and it is answered.\<close>

definition refuse_share ::
  "session_config \<Rightarrow> session_env \<Rightarrow> (pool_state \<Rightarrow> pool_state) \<Rightarrow> share_event_record \<Rightarrow> u64 \<Rightarrow> int \<Rightarrow> string
    \<Rightarrow> bool \<Rightarrow> answer action" where
  "refuse_share cfg env tally event rid code message resync =
     act_bind (on_pool tally) (\<lambda>_.
     act_bind (persist_share_event cfg env event) (\<lambda>_.
       act_return (response_error rid code message, None, resync)))"

definition share_event_of :: "session_config \<Rightarrow> session \<Rightarrow> string \<Rightarrow> submit_params \<Rightarrow> string \<Rightarrow> string \<Rightarrow> share_event_record" where
  "share_event_of cfg s miner submit kind reason =
     share_event_from_submit (session_reference cfg s) miner submit kind reason"

definition malformed_event :: "session_config \<Rightarrow> session \<Rightarrow> string \<Rightarrow> share_event_record" where
  "malformed_event cfg s miner =
     \<lparr>ev_session_id = session_reference cfg s, ev_miner = miner, ev_worker_name = ''default'',
      ev_job_id = None, ev_kind = ''rejected'', ev_reason = ''malformed_submit''\<rparr>"

definition submit_candidate_action ::
  "(string \<Rightarrow> bytes option) \<Rightarrow> (bytes \<Rightarrow> string) \<Rightarrow> session_config \<Rightarrow> session_env \<Rightarrow> pool_job \<Rightarrow> string
    \<Rightarrow> submit_params \<Rightarrow> verified_share \<Rightarrow> f64 \<Rightarrow> unit action" where
  "submit_candidate_action hexd hexe cfg env job miner submit share difficulty =
     act_bind act_get (\<lambda>r.
       let ce = (en_candidate env)\<lparr>ce_submitter := sc_submitter cfg, ce_repository := sc_repository cfg\<rparr> in
       case submit_block_candidate hexd hexe ce job (rn_pool r) miner submit share
              (sc_extranonce1_le cfg) difficulty of
         None \<Rightarrow> act_end EndedPanic
       | Some result \<Rightarrow>
           act_bind (on_pool (\<lambda>_. co_pool result)) (\<lambda>_.
           act_bind (case co_submission result of
               None \<Rightarrow> act_return ()
             | Some submission \<Rightarrow> emit (CandidateSubmitted submission (co_record result))) (\<lambda>_.
             if co_ok result then act_return () else act_end EndedError)))"

definition credit_share ::
  "(string \<Rightarrow> bytes option) \<Rightarrow> (bytes \<Rightarrow> string) \<Rightarrow> session_config \<Rightarrow> session_env \<Rightarrow> u64 \<Rightarrow> pool_job \<Rightarrow> string
    \<Rightarrow> submit_params \<Rightarrow> verified_share \<Rightarrow> f64 \<Rightarrow> answer action" where
  "credit_share hexd hexe cfg env rid job miner submit share difficulty =
     act_bind (on_session (\<lambda>s. s\<lparr>ss_accepted_share_seen := True\<rparr>)) (\<lambda>_.
     act_bind (if vs_is_block_candidate share
               then submit_candidate_action hexd hexe cfg env job miner submit share difficulty
               else act_return ()) (\<lambda>_.
     act_bind (on_pool (record_share_accepted (en_now env) miner difficulty
                          (vs_is_block_candidate share))) (\<lambda>_.
     act_bind act_get (\<lambda>r.
       case record_accepted_share (en_accept_at env) (ss_vardiff (rn_session r)) of
         None \<Rightarrow> act_end EndedPanic
       | Some (vardiff, pending) \<Rightarrow>
           act_bind (on_session (\<lambda>s. s\<lparr>ss_vardiff := vardiff\<rparr>)) (\<lambda>_.
             act_return (response_ok rid, pending, False))))))"

definition accept_share ::
  "(string \<Rightarrow> bytes option) \<Rightarrow> (bytes \<Rightarrow> string) \<Rightarrow> session_config \<Rightarrow> session_env \<Rightarrow> u64 \<Rightarrow> pool_job \<Rightarrow> string
    \<Rightarrow> submit_params \<Rightarrow> verified_share \<Rightarrow> f64 \<Rightarrow> answer action" where
  "accept_share hexd hexe cfg env rid job miner submit share difficulty =
     act_bind act_get (\<lambda>r.
     act_bind (persist_accepted_share cfg env job (share_record_from_submit
         (session_reference cfg (rn_session r)) miner submit share difficulty)) (\<lambda>persisted.
       if persisted then credit_share hexd hexe cfg env rid job miner submit share difficulty
       else refuse_share cfg env (record_share_rejected (en_now env) (en_now' env) miner)
              (share_event_of cfg (rn_session r) miner submit ''rejected'' ''duplicate_share'')
              rid 22 ''duplicate share'' False))"

definition validate_share ::
  "(bytes \<Rightarrow> bytes) \<Rightarrow> (string \<Rightarrow> bytes option) \<Rightarrow> (bytes \<Rightarrow> string) \<Rightarrow> session_config \<Rightarrow> session_env \<Rightarrow> u64
    \<Rightarrow> string \<Rightarrow> submit_params \<Rightarrow> pool_job \<Rightarrow> answer action" where
  "validate_share sha256 hexd hexe cfg env rid miner submit job =
     act_bind (on_pool (record_share_validation (en_now env) (en_validation env))) (\<lambda>_.
     act_bind act_get (\<lambda>r.
       case verify_submit_for_vardiff sha256 hexd (pj_template job) (sc_extranonce1_le cfg) submit
              (ss_vardiff (rn_session r)) (en_validate_at env) of
         Inr (share, difficulty) \<Rightarrow>
           accept_share hexd hexe cfg env rid job miner submit share difficulty
       | Inl _ \<Rightarrow>
           refuse_share cfg env (record_share_rejected (en_now env) (en_now' env) miner)
             (share_event_of cfg (rn_session r) miner submit ''rejected'' ''low_difficulty'')
             rid 23 ''low difficulty share'' False))"

definition note_share_key :: "share_key \<Rightarrow> session \<Rightarrow> session" where
  "note_share_key key s =
     s\<lparr>ss_seen_shares := insert key (ss_seen_shares s), ss_unknown_job_streak := 0\<rparr>"

definition submit_for_job ::
  "(bytes \<Rightarrow> bytes) \<Rightarrow> (string \<Rightarrow> bytes option) \<Rightarrow> (bytes \<Rightarrow> string) \<Rightarrow> session_config \<Rightarrow> session_env \<Rightarrow> u64
    \<Rightarrow> string \<Rightarrow> submit_params \<Rightarrow> pool_job \<Rightarrow> answer action" where
  "submit_for_job sha256 hexd hexe cfg env rid miner submit job =
     act_bind act_get (\<lambda>r.
       let key = share_key_from_submit submit;
           fresh = key \<notin> ss_seen_shares (rn_session r)
       in act_bind (on_session (note_share_key key)) (\<lambda>_.
          if fresh then validate_share sha256 hexd hexe cfg env rid miner submit job
          else refuse_share cfg env (record_share_rejected (en_now env) (en_now' env) miner)
                 (share_event_of cfg (rn_session r) miner submit ''rejected'' ''duplicate_share'')
                 rid 22 ''duplicate share'' False))"

definition refuse_worker ::
  "session_config \<Rightarrow> session_env \<Rightarrow> u64 \<Rightarrow> string \<Rightarrow> share_event_record \<Rightarrow> string \<Rightarrow> answer action" where
  "refuse_worker cfg env rid miner event message =
     act_bind (on_pool (record_share_rejected (en_now env) (en_now' env) miner)) (\<lambda>_.
     act_bind (offend_action cfg env InvalidShare) (\<lambda>_.
       refuse_share cfg env (\<lambda>p. p) event rid 20 message False))"

definition refuse_stale ::
  "session_config \<Rightarrow> session_env \<Rightarrow> u64 \<Rightarrow> (pool_state \<Rightarrow> pool_state) \<Rightarrow> share_event_record \<Rightarrow> string
    \<Rightarrow> answer action" where
  "refuse_stale cfg env rid tally event message =
     act_bind (on_session raise_streak) (\<lambda>_. refuse_share cfg env tally event rid 21 message True)"

definition submit_parsed ::
  "(bytes \<Rightarrow> bytes) \<Rightarrow> (string \<Rightarrow> bytes option) \<Rightarrow> (bytes \<Rightarrow> string) \<Rightarrow> session_config \<Rightarrow> session_env \<Rightarrow> u64
    \<Rightarrow> string \<Rightarrow> submit_params \<Rightarrow> answer action" where
  "submit_parsed sha256 hexd hexe cfg env rid miner submit =
     act_bind act_get (\<lambda>r.
       let s = rn_session r;
           retained = jw_retained (en_jobs env);
           submitted_job = get_for_submit retained (sp_job_id submit);
           stale = record_share_stale (en_now env) (en_now' env) miner
       in if \<not> authorized_submit_worker miner (sp_worker_name submit)
          then refuse_worker cfg env rid miner
                 (share_event_of cfg s miner submit ''rejected'' ''unauthorized_worker'') ''invalid worker''
          else if job_parent_is_invalidated retained (sp_job_id submit)
          then refuse_stale cfg env rid (record_stale_generation_fence (en_now env)
                   (stale_generation_class_as_str (stale_generation_class retained (sp_job_id submit)
                      (ss_last_clean_generation s))) \<circ> stale)
                 (share_event_of cfg s miner submit ''stale'' ''invalidated_parent'') ''stale job''
          else (case submitted_job of
              None \<Rightarrow> refuse_stale cfg env rid stale
                 (share_event_of cfg s miner submit ''stale'' ''unknown_job'') ''unknown job''
            | Some job \<Rightarrow> submit_for_job sha256 hexd hexe cfg env rid miner submit job))"

definition submit_action ::
  "(bytes \<Rightarrow> bytes) \<Rightarrow> (string \<Rightarrow> bytes option) \<Rightarrow> (bytes \<Rightarrow> string) \<Rightarrow> session_config \<Rightarrow> session_env
    \<Rightarrow> request \<Rightarrow> answer action" where
  "submit_action sha256 hexd hexe cfg env req =
     (let rid = request_number req in
      act_bind act_get (\<lambda>r.
        case ss_authorized (rn_session r) of
          None \<Rightarrow> answer_error rid 24 ''unauthorized''
        | Some miner \<Rightarrow>
            (case submit_params_parse hexd (rq_params req) of
               Inr submit \<Rightarrow> submit_parsed sha256 hexd hexe cfg env rid miner submit
             | Inl _ \<Rightarrow>
                 refuse_worker cfg env rid miner (malformed_event cfg (rn_session r) miner)
                   ''malformed submit'')))"

section \<open>Steps\<close>

definition dispatch ::
  "(bytes \<Rightarrow> bytes) \<Rightarrow> (string \<Rightarrow> bytes option) \<Rightarrow> (bytes \<Rightarrow> string) \<Rightarrow> session_config \<Rightarrow> session_env
    \<Rightarrow> request \<Rightarrow> answer action" where
  "dispatch sha256 hexd hexe cfg env req =
     (if rq_method req = ''mining.subscribe'' then
        act_bind (on_session (\<lambda>s. s\<lparr>ss_user_agent := parse_subscribe_user_agent (rq_params req)\<rparr>)) (\<lambda>_.
          act_return (subscribe_response (rq_id req) (hexe (sc_extranonce1_le cfg)), None, False))
      else if rq_method req = ''mining.authorize'' then authorize_action hexe cfg env req
      else if rq_method req = ''mining.suggest_difficulty'' then suggest_action env req
      else if rq_method req = ''mining.submit'' then submit_action sha256 hexd hexe cfg env req
      else answer_error (request_number req) 20 ''unknown method'')"

text \<open>After a stale submission: the current job again, as a clean one, and an end to a long streak.\<close>

definition resync_action :: "session_env \<Rightarrow> unit action" where
  "resync_action env =
     act_bind (deliver_job env (set_clean_jobs True (jw_current (en_jobs env)))) (\<lambda>_.
     act_bind act_get (\<lambda>r.
       if stale_job_reconnect_threshold \<le> ss_unknown_job_streak (rn_session r)
       then act_end EndedOk else act_return ()))"

definition check_ban :: "session_config \<Rightarrow> session_env \<Rightarrow> unit action" where
  "check_ban cfg env r =
     (case is_banned (en_ban_at env) (en_ban_at' env) (sc_ip cfg) (rn_abuse r) of
        (m, banned) \<Rightarrow> (r\<lparr>rn_abuse := m\<rparr>, if banned then Inl EndedOk else Inr ()))"

definition announce_action :: "session_config \<Rightarrow> session_env \<Rightarrow> string \<Rightarrow> f64 option \<Rightarrow> unit action" where
  "announce_action cfg env rmethod pending =
     act_bind act_get (\<lambda>r. let s = rn_session r in
       if rmethod = ''mining.authorize'' \<and> ss_authorized s \<noteq> None
       then act_bind (send env (SentRequest (set_difficulty_request (vd_current_difficulty (ss_vardiff s))))) (\<lambda>_.
              deliver_job env (jw_current (en_jobs env)))
       else (case pending of
           None \<Rightarrow> act_return ()
         | Some difficulty \<Rightarrow>
             act_bind (send env (SentRequest (set_difficulty_request difficulty))) (\<lambda>_.
             act_bind (deliver_job env (set_clean_jobs False (jw_current (en_jobs env)))) (\<lambda>_.
               if ss_persisted s \<and> sc_repository cfg
               then emit (UpdatedDifficulty (sc_session_uuid cfg) difficulty) else act_return ()))))"

definition on_request ::
  "(bytes \<Rightarrow> bytes) \<Rightarrow> (string \<Rightarrow> bytes option) \<Rightarrow> (bytes \<Rightarrow> string) \<Rightarrow> session_config \<Rightarrow> session_env
    \<Rightarrow> request \<Rightarrow> unit action" where
  "on_request sha256 hexd hexe cfg env req =
     act_bind (dispatch sha256 hexd hexe cfg env req) (\<lambda>(response, pending, resync).
     act_bind (send env (SentResponse response)) (\<lambda>_.
     act_bind (if resync then resync_action env else act_return ()) (\<lambda>_.
     act_bind (check_ban cfg env) (\<lambda>_. announce_action cfg env (rq_method req) pending))))"

text \<open>
  What a session waits for: a job (only once it is authorized; None when the watch is gone) or a
  line of its client, which is the end of the stream, an error, a frame that is no request, or a
  request.
\<close>

datatype session_event = JobEvent "pool_job option" | EndOfStream | ReadFailure | MalformedLine | Request request

fun session_action ::
  "(bytes \<Rightarrow> bytes) \<Rightarrow> (string \<Rightarrow> bytes option) \<Rightarrow> (bytes \<Rightarrow> string) \<Rightarrow> session_config \<Rightarrow> session_env
    \<Rightarrow> session_event \<Rightarrow> unit action" where
  "session_action sha256 hexd hexe cfg env (JobEvent None) = act_end EndedOk"
| "session_action sha256 hexd hexe cfg env (JobEvent (Some job)) = deliver_job env job"
| "session_action sha256 hexd hexe cfg env EndOfStream = act_end EndedOk"
| "session_action sha256 hexd hexe cfg env ReadFailure = act_end EndedError"
| "session_action sha256 hexd hexe cfg env MalformedLine =
     act_bind (offend_action cfg env MalformedFrame) (\<lambda>banned.
       if banned then act_end EndedOk else act_return ())"
| "session_action sha256 hexd hexe cfg env (Request req) = on_request sha256 hexd hexe cfg env req"

definition session_step ::
  "(bytes \<Rightarrow> bytes) \<Rightarrow> (string \<Rightarrow> bytes option) \<Rightarrow> (bytes \<Rightarrow> string) \<Rightarrow> session_config
    \<Rightarrow> session_env \<times> session_event \<Rightarrow> unit action" where
  "session_step sha256 hexd hexe cfg = (\<lambda>(env, event) r.
     (case event of
        JobEvent _ \<Rightarrow> if ss_authorized (rn_session r) = None then (r, Inr ())
          else session_action sha256 hexd hexe cfg env event (r\<lparr>rn_frames := 0\<rparr>)
      | _ \<Rightarrow> session_action sha256 hexd hexe cfg env event (r\<lparr>rn_frames := 0\<rparr>)))"

text \<open>The end of a session: its row is closed, and what it held is released as its values drop.\<close>

definition close_session :: "session_config \<Rightarrow> u64 \<Rightarrow> session_run \<Rightarrow> session_run" where
  "close_session cfg now r =
     (let s = rn_session r;
          m = (case ss_address_permit s of
                 None \<Rightarrow> rn_abuse r | Some address \<Rightarrow> close_address_session address (rn_abuse r))
      in r\<lparr>rn_effects := rn_effects r @
             (if ss_persisted s \<and> sc_repository cfg then [ClosedSession (sc_session_uuid cfg)] else []),
           rn_session := s\<lparr>ss_address_permit := None\<rparr>,
           rn_pool := connection_closed now (rn_pool r),
           rn_abuse := close_connection (sc_ip cfg) m\<rparr>)"

fun run_session ::
  "(bytes \<Rightarrow> bytes) \<Rightarrow> (string \<Rightarrow> bytes option) \<Rightarrow> (bytes \<Rightarrow> string) \<Rightarrow> session_config
    \<Rightarrow> (session_env \<times> session_event) list \<Rightarrow> session_run \<Rightarrow> session_run \<times> session_end option" where
  "run_session sha256 hexd hexe cfg [] r = (r, None)"
| "run_session sha256 hexd hexe cfg ((env, event) # events) r =
     (case session_step sha256 hexd hexe cfg (env, event) r of
        (r', Inr _) \<Rightarrow> run_session sha256 hexd hexe cfg events r'
      | (r', Inl e) \<Rightarrow> (close_session cfg (en_now env) r', Some e))"

section \<open>Reasoning about actions\<close>

text \<open>An action keeps what a function reads from the run, however it ends.\<close>

named_theorems csd_keeps

definition keeps :: "(session_run \<Rightarrow> 'x) \<Rightarrow> 'a action \<Rightarrow> bool" where
  "keeps f m \<longleftrightarrow> (\<forall>r. f (fst (m r)) = f r)"

lemma keepsD: "keeps f m \<Longrightarrow> m r = (r', x) \<Longrightarrow> f r' = f r"
  unfolding keeps_def by (metis fst_conv)

lemma keeps_return [csd_keeps]: "keeps f (act_return x)"
  by (simp add: keeps_def act_return_def)

lemma keeps_end [csd_keeps]: "keeps f (act_end e)"
  by (simp add: keeps_def act_end_def)

lemma keeps_get [csd_keeps]: "keeps f act_get"
  by (simp add: keeps_def act_get_def)

lemma keeps_bind [csd_keeps]: "keeps f m \<Longrightarrow> (\<And>x. keeps f (g x)) \<Longrightarrow> keeps f (act_bind m g)"
  by (auto simp: keeps_def act_bind_def split: prod.split sum.split) (metis fst_conv)+

lemma keeps_modify [csd_keeps]: "(\<And>r. f (g r) = f r) \<Longrightarrow> keeps f (act_modify g)"
  by (simp add: keeps_def act_modify_def)

lemma keeps_if [csd_keeps]: "(b \<Longrightarrow> keeps f m) \<Longrightarrow> (\<not> b \<Longrightarrow> keeps f n) \<Longrightarrow> keeps f (if b then m else n)"
  by simp

lemma keeps_option [csd_keeps]:
  "(x = None \<Longrightarrow> keeps f m) \<Longrightarrow> (\<And>a. x = Some a \<Longrightarrow> keeps f (g a))
    \<Longrightarrow> keeps f (case x of None \<Rightarrow> m | Some a \<Rightarrow> g a)"
  by (cases x) auto

lemma keeps_prod [csd_keeps]: "(\<And>a b. x = (a, b) \<Longrightarrow> keeps f (g a b)) \<Longrightarrow> keeps f (case x of (a, b) \<Rightarrow> g a b)"
  by (cases x) auto

lemma keeps_sum [csd_keeps]:
  "(\<And>a. x = Inl a \<Longrightarrow> keeps f (g a)) \<Longrightarrow> (\<And>b. x = Inr b \<Longrightarrow> keeps f (h b))
    \<Longrightarrow> keeps f (case x of Inl a \<Rightarrow> g a | Inr b \<Rightarrow> h b)"
  by (cases x) auto

lemma act_bind_cases:
  assumes "act_bind m g r = (r'', y)"
  obtains r' e where "m r = (r', Inl e)" and "r'' = r'" and "y = Inl e"
  | r' x where "m r = (r', Inr x)" and "g x r' = (r'', y)"
  using assms by (auto simp: act_bind_def split: prod.splits sum.splits)

text \<open>The shares a session asked the repository to insert, and the keys they came with.\<close>

fun inserted_share :: "session_effect \<Rightarrow> share_record option" where
  "inserted_share (InsertedShare record _) = Some record"
| "inserted_share _ = None"

definition inserted_shares :: "session_run \<Rightarrow> share_record list" where
  "inserted_shares r = List.map_filter inserted_share (rn_effects r)"

definition record_key :: "share_record \<Rightarrow> share_key" where
  "record_key record =
     \<lparr>sk_job_id = sh_job_id record, sk_extranonce2_hex = sh_extranonce2_hex record,
      sk_ntime_hex = sh_ntime_hex record, sk_nonce_hex = sh_nonce_hex record\<rparr>"

definition share_history :: "session_run \<Rightarrow> share_record list \<times> share_key set" where
  "share_history r = (inserted_shares r, ss_seen_shares (rn_session r))"

lemma record_key_from_submit [simp]:
  "record_key (share_record_from_submit sid miner submit share d) = share_key_from_submit submit"
  by (simp add: record_key_def share_record_from_submit_def share_key_from_submit_def)

lemma share_history_emit [csd_keeps]:
  "inserted_share e = None \<Longrightarrow> keeps share_history (emit e)"
  unfolding emit_def
  by (rule keeps_modify) (simp add: share_history_def inserted_shares_def List.map_filter_def)

lemma share_history_send [csd_keeps]:
  "inserted_share e = None \<Longrightarrow> keeps share_history (send env e)"
  by (simp add: keeps_def send_def share_history_def inserted_shares_def List.map_filter_def)

lemma share_history_session [csd_keeps]:
  "(\<And>s. ss_seen_shares (f s) = ss_seen_shares s) \<Longrightarrow> keeps share_history (on_session f)"
  unfolding on_session_def by (rule keeps_modify) (simp add: share_history_def inserted_shares_def)

lemma share_history_pool [csd_keeps]: "keeps share_history (on_pool f)"
  unfolding on_pool_def by (rule keeps_modify) (simp add: share_history_def inserted_shares_def)

lemma share_history_offend [csd_keeps]: "keeps share_history (offend_action cfg env kind)"
  by (simp add: keeps_def offend_action_def share_history_def inserted_shares_def split: prod.split)

lemma share_history_ban [csd_keeps]: "keeps share_history (check_ban cfg env)"
  by (simp add: keeps_def check_ban_def share_history_def inserted_shares_def split: prod.split)

lemma share_history_event [csd_keeps]: "keeps share_history (persist_share_event cfg env event)"
  unfolding persist_share_event_def by (intro csd_keeps) simp

lemma share_history_refuse [csd_keeps]:
  "keeps share_history (refuse_share cfg env tally event rid code message resync)"
  unfolding refuse_share_def by (intro csd_keeps)

lemma share_history_deliver [csd_keeps]: "keeps share_history (deliver_job env job)"
  unfolding deliver_job_def note_generation_def by (intro csd_keeps) (auto split: option.split)

lemma share_history_authorize [csd_keeps]: "keeps share_history (authorize_action hexe cfg env req)"
proof -
  have permit: "keeps share_history (take_address_permit worker)" for worker
    unfolding take_address_permit_def
    by (rule keeps_modify) (simp add: share_history_def inserted_shares_def Let_def)
  have opened: "keeps share_history (open_session hexe cfg env params worker)" for params worker
    unfolding open_session_def Let_def by (intro csd_keeps) auto
  have reject: "(\<And>x. keeps share_history (g x)) \<Longrightarrow> keeps share_history h
      \<Longrightarrow> keeps share_history (case (e :: abuse_reject) of TooManyAddressSessions \<Rightarrow> h | _ \<Rightarrow> g e)" for g h e
    by (cases e) auto
  show ?thesis
    unfolding authorize_action_def Let_def answer_ok_def answer_error_def
    by (intro csd_keeps permit opened)
      (auto simp: share_history_def inserted_shares_def intro: csd_keeps split: abuse_reject.split)
qed

lemma share_history_suggest [csd_keeps]: "keeps share_history (suggest_action env req)"
  unfolding suggest_action_def Let_def answer_ok_def answer_error_def by (intro csd_keeps) auto

lemma share_history_candidate [csd_keeps]:
  "keeps share_history (submit_candidate_action hexd hexe cfg env job miner submit share d)"
  unfolding submit_candidate_action_def Let_def by (intro csd_keeps) auto

lemma share_history_resync [csd_keeps]: "keeps share_history (resync_action env)"
  unfolding resync_action_def by (intro csd_keeps)

lemma share_history_announce [csd_keeps]: "keeps share_history (announce_action cfg env meth pending)"
  unfolding announce_action_def Let_def by (intro csd_keeps) auto

section \<open>What a session credits\<close>

lemma inserted_emit: "inserted_shares (fst (emit e r))
    = inserted_shares r @ (case inserted_share e of None \<Rightarrow> [] | Some record \<Rightarrow> [record])"
  by (simp add: emit_def act_modify_def inserted_shares_def List.map_filter_def split: option.split)

lemma seen_emit: "snd (share_history (fst (emit e r))) = snd (share_history r)"
  by (simp add: emit_def act_modify_def share_history_def)

lemma persist_accepted_history:
  "snd (share_history (fst (persist_accepted_share cfg env job record r))) = snd (share_history r)
   \<and> (inserted_shares (fst (persist_accepted_share cfg env job record r)) = inserted_shares r
      \<or> inserted_shares (fst (persist_accepted_share cfg env job record r)) = inserted_shares r @ [record])"
  by (auto simp: persist_accepted_share_def act_bind_def act_return_def act_end_def emit_def act_modify_def
      share_history_def inserted_shares_def List.map_filter_def split: prod.split sum.split option.split)

lemma share_history_credit [csd_keeps]:
  "keeps share_history (credit_share hexd hexe cfg env rid job miner submit share d)"
  unfolding credit_share_def by (intro csd_keeps) auto

lemma accept_share_history:
  assumes "accept_share hexd hexe cfg env rid job miner submit share d r = (r', x)"
  shows "snd (share_history r') = snd (share_history r)
    \<and> (inserted_shares r' = inserted_shares r
       \<or> inserted_shares r' = inserted_shares r
           @ [share_record_from_submit (session_reference cfg (rn_session r)) miner submit share d])"
proof -
  let ?offered = "share_record_from_submit (session_reference cfg (rn_session r)) miner submit share d"
  let ?g = "\<lambda>persisted. if persisted then credit_share hexd hexe cfg env rid job miner submit share d
       else refuse_share cfg env (record_share_rejected (en_now env) (en_now' env) miner)
              (share_event_of cfg (rn_session r) miner submit ''rejected'' ''duplicate_share'')
              rid 22 ''duplicate share'' False"
  have g: "keeps share_history (?g p)" for p by (intro csd_keeps)
  have "act_bind (persist_accepted_share cfg env job ?offered) ?g r = (r', x)"
    using assms by (simp add: accept_share_def act_bind_def act_get_def)
  then show ?thesis
  proof (rule act_bind_cases)
    fix r1 e
    assume "persist_accepted_share cfg env job ?offered r = (r1, Inl e)" and "r' = r1"
    then show ?thesis using persist_accepted_history [of cfg env job ?offered r] by simp
  next
    fix r1 p
    assume "persist_accepted_share cfg env job ?offered r = (r1, Inr p)" and "?g p r1 = (r', x)"
    moreover from keepsD [OF g this(2)] have "share_history r' = share_history r1" .
    ultimately show ?thesis
      using persist_accepted_history [of cfg env job ?offered r] by (simp add: share_history_def)
  qed
qed

text \<open>One step of the history: nothing happens, a key is seen, or a fresh share is offered too.\<close>

definition share_claim ::
  "(bytes \<Rightarrow> bytes) \<Rightarrow> (string \<Rightarrow> bytes option) \<Rightarrow> session_config \<Rightarrow> session_env \<Rightarrow> session \<Rightarrow> session_event
    \<Rightarrow> string \<Rightarrow> submit_params \<Rightarrow> pool_job \<Rightarrow> verified_share \<Rightarrow> f64 \<Rightarrow> bool" where
  "share_claim sha256 hexd cfg env s event miner submit job share d \<longleftrightarrow>
     (\<exists>req. event = Request req \<and> rq_method req = ''mining.submit''
        \<and> submit_params_parse hexd (rq_params req) = Inr submit)
     \<and> ss_authorized s = Some miner \<and> authorized_submit_worker miner (sp_worker_name submit)
     \<and> get_for_submit (jw_retained (en_jobs env)) (sp_job_id submit) = Some job
     \<and> share_key_from_submit submit \<notin> ss_seen_shares s
     \<and> verify_submit_for_vardiff sha256 hexd (pj_template job) (sc_extranonce1_le cfg) submit
         (ss_vardiff s) (en_validate_at env) = Inr (share, d)"

definition history_step ::
  "(bytes \<Rightarrow> bytes) \<Rightarrow> (string \<Rightarrow> bytes option) \<Rightarrow> session_config \<Rightarrow> session_env \<Rightarrow> session_event
    \<Rightarrow> session_run \<Rightarrow> session_run \<Rightarrow> bool" where
  "history_step sha256 hexd cfg env event r r' \<longleftrightarrow>
     ss_seen_shares (rn_session r) \<subseteq> ss_seen_shares (rn_session r')
     \<and> (inserted_shares r' = inserted_shares r
        \<or> (\<exists>miner submit job share d. share_claim sha256 hexd cfg env (rn_session r) event miner submit job share d
             \<and> share_key_from_submit submit \<in> ss_seen_shares (rn_session r')
             \<and> inserted_shares r' = inserted_shares r
                 @ [share_record_from_submit (session_reference cfg (rn_session r)) miner submit share d]))"

lemma history_step_keeps: "share_history r' = share_history r \<Longrightarrow> history_step sha256 hexd cfg env event r r'"
  by (simp add: history_step_def share_history_def)

lemma history_step_then_keeps:
  "history_step sha256 hexd cfg env event r r1 \<Longrightarrow> share_history r' = share_history r1
    \<Longrightarrow> history_step sha256 hexd cfg env event r r'"
  by (simp add: history_step_def share_history_def)

lemma act_get_bind [simp]: "act_bind act_get g r = g r r"
  by (simp add: act_bind_def act_get_def)

lemma on_pool_bind [simp]: "act_bind (on_pool f) g r = g () (r\<lparr>rn_pool := f (rn_pool r)\<rparr>)"
  by (simp add: act_bind_def on_pool_def act_modify_def)

lemma on_session_bind [simp]: "act_bind (on_session f) g r = g () (r\<lparr>rn_session := f (rn_session r)\<rparr>)"
  by (simp add: act_bind_def on_session_def act_modify_def)

lemma share_history_worker [csd_keeps]: "keeps share_history (refuse_worker cfg env rid miner event message)"
  unfolding refuse_worker_def by (intro csd_keeps)

lemma share_history_stale [csd_keeps]: "keeps share_history (refuse_stale cfg env rid tally event message)"
  unfolding refuse_stale_def by (intro csd_keeps) (simp add: raise_streak_def)

lemma submit_for_job_history:
  assumes "submit_for_job sha256 hexd hexe cfg env rid miner submit job r = (r', x)"
    and "ss_authorized (rn_session r) = Some miner"
    and "rq_method req = ''mining.submit''" and "submit_params_parse hexd (rq_params req) = Inr submit"
    and "authorized_submit_worker miner (sp_worker_name submit)"
    and "get_for_submit (jw_retained (en_jobs env)) (sp_job_id submit) = Some job"
  shows "history_step sha256 hexd cfg env (Request req) r r'"
proof -
  let ?key = "share_key_from_submit submit"
  let ?s1 = "note_share_key ?key (rn_session r)"
  let ?v = "verify_submit_for_vardiff sha256 hexd (pj_template job) (sc_extranonce1_le cfg) submit
     (ss_vardiff (rn_session r)) (en_validate_at env)"
  have noted: "history_step sha256 hexd cfg env (Request req) r r1"
    if "share_history r1 = (inserted_shares r, ss_seen_shares ?s1)" for r1
    using that by (auto simp: history_step_def share_history_def note_share_key_def)
  have refused: "history_step sha256 hexd cfg env (Request req) r r'"
    if "refuse_share cfg env tally event rid c msg b r1 = (r', x)"
      and "share_history r1 = (inserted_shares r, ss_seen_shares ?s1)" for tally event c msg b r1
    by (rule history_step_then_keeps [OF noted [OF that(2)] keepsD [OF share_history_refuse that(1)]])
  show ?thesis
  proof (cases "?key \<in> ss_seen_shares (rn_session r)")
    case True
    with assms(1) have "refuse_share cfg env (record_share_rejected (en_now env) (en_now' env) miner)
        (share_event_of cfg (rn_session r) miner submit ''rejected'' ''duplicate_share'')
        rid 22 ''duplicate share'' False (r\<lparr>rn_session := ?s1\<rparr>) = (r', x)"
      unfolding submit_for_job_def by (simp add: Let_def)
    then show ?thesis by (rule refused) (simp add: share_history_def inserted_shares_def)
  next
    case fresh: False
    with assms(1) have v: "validate_share sha256 hexd hexe cfg env rid miner submit job
        (r\<lparr>rn_session := ?s1\<rparr>) = (r', x)"
      unfolding submit_for_job_def by (simp add: Let_def)
    have vd: "ss_vardiff ?s1 = ss_vardiff (rn_session r)" "session_reference cfg ?s1 = session_reference cfg (rn_session r)"
      by (simp_all add: note_share_key_def session_reference_def)
    show ?thesis
    proof (cases ?v)
      case (Inl e)
      with v vd have "refuse_share cfg env (record_share_rejected (en_now env) (en_now' env) miner)
          (share_event_of cfg ?s1 miner submit ''rejected'' ''low_difficulty'') rid 23 ''low difficulty share'' False
          (r\<lparr>rn_session := ?s1, rn_pool := record_share_validation (en_now env) (en_validation env) (rn_pool r)\<rparr>)
          = (r', x)" unfolding validate_share_def by simp
      then show ?thesis by (rule refused) (simp add: share_history_def inserted_shares_def)
    next
      case (Inr sd)
      obtain share d where sd: "sd = (share, d)" by fastforce
      with v vd Inr have "accept_share hexd hexe cfg env rid job miner submit share d
          (r\<lparr>rn_session := ?s1, rn_pool := record_share_validation (en_now env) (en_validation env) (rn_pool r)\<rparr>)
          = (r', x)"
        unfolding validate_share_def by simp
      from accept_share_history [OF this] vd
      have "ss_seen_shares (rn_session r') = insert ?key (ss_seen_shares (rn_session r))"
        and "inserted_shares r' = inserted_shares r \<or> inserted_shares r' = inserted_shares r
          @ [share_record_from_submit (session_reference cfg (rn_session r)) miner submit share d]"
        by (simp_all add: share_history_def inserted_shares_def note_share_key_def)
      moreover have "share_claim sha256 hexd cfg env (rn_session r) (Request req) miner submit job share d"
        using assms(2-6) fresh Inr sd by (auto simp: share_claim_def)
      ultimately show ?thesis unfolding history_step_def by blast
    qed
  qed
qed

lemma submit_action_history:
  assumes "submit_action sha256 hexd hexe cfg env req r = (r', x)" and "rq_method req = ''mining.submit''"
  shows "history_step sha256 hexd cfg env (Request req) r r'"
proof (cases "ss_authorized (rn_session r)")
  case None
  with assms show ?thesis
    by (auto simp: submit_action_def Let_def answer_error_def act_return_def intro: history_step_keeps)
next
  case (Some miner)
  show ?thesis
  proof (cases "submit_params_parse hexd (rq_params req)")
    case (Inl e)
    with Some assms have "refuse_worker cfg env (request_number req) miner
        (malformed_event cfg (rn_session r) miner) ''malformed submit'' r = (r', x)"
      by (simp add: submit_action_def Let_def)
    then show ?thesis by (intro history_step_keeps keepsD [OF share_history_worker])
  next
    case (Inr submit)
    with Some assms have run: "submit_parsed sha256 hexd hexe cfg env (request_number req) miner submit r = (r', x)"
      by (simp add: submit_action_def Let_def)
    show ?thesis
    proof (cases "get_for_submit (jw_retained (en_jobs env)) (sp_job_id submit)")
      case None
      with run show ?thesis
        unfolding submit_parsed_def
        by (auto simp: Let_def split: if_splits
            intro!: history_step_keeps elim: keepsD [OF share_history_worker] keepsD [OF share_history_stale])
    next
      case job: (Some job)
      with run show ?thesis
        using submit_for_job_history [OF _ Some assms(2) Inr _ job]
        unfolding submit_parsed_def
        by (auto simp: Let_def split: if_splits
            intro: history_step_keeps elim: keepsD [OF share_history_worker] keepsD [OF share_history_stale])
    qed
  qed
qed

lemma history_step_frames [simp]:
  "history_step sha256 hexd cfg env event (r\<lparr>rn_frames := n\<rparr>) r' = history_step sha256 hexd cfg env event r r'"
  by (simp add: history_step_def inserted_shares_def)

lemma on_request_history:
  assumes "on_request sha256 hexd hexe cfg env req r = (r', x)"
  shows "history_step sha256 hexd cfg env (Request req) r r'"
proof -
  obtain g where g: "on_request sha256 hexd hexe cfg env req = act_bind (dispatch sha256 hexd hexe cfg env req) g"
    and kg: "\<And>a. keeps share_history (g a)"
  proof
    show "on_request sha256 hexd hexe cfg env req = act_bind (dispatch sha256 hexd hexe cfg env req)
        (\<lambda>(response, pending, resync).
          act_bind (send env (SentResponse response)) (\<lambda>_.
          act_bind (if resync then resync_action env else act_return ()) (\<lambda>_.
          act_bind (check_ban cfg env) (\<lambda>_. announce_action cfg env (rq_method req) pending))))"
      by (simp add: on_request_def)
  qed (intro csd_keeps; simp)
  have d: "history_step sha256 hexd cfg env (Request req) r r1"
    if "dispatch sha256 hexd hexe cfg env req r = (r1, y)" for r1 y
  proof (cases "rq_method req = ''mining.submit''")
    case True
    with that submit_action_history show ?thesis by (simp add: dispatch_def)
  next
    case False
    then have "keeps share_history (dispatch sha256 hexd hexe cfg env req)"
      unfolding dispatch_def answer_error_def by (intro csd_keeps) auto
    from keepsD [OF this that] show ?thesis by (rule history_step_keeps)
  qed
  from assms [unfolded g] show ?thesis
    by (rule act_bind_cases) (auto dest: d intro: history_step_then_keeps keepsD [OF kg])
qed

lemma session_step_history:
  assumes "session_step sha256 hexd hexe cfg (env, event) r = (r', x)"
  shows "history_step sha256 hexd cfg env event r r'"
proof (cases event)
  case (Request req)
  with assms on_request_history [of sha256 hexd hexe cfg env req "r\<lparr>rn_frames := 0\<rparr>"]
  show ?thesis by (simp add: session_step_def)
next
  case (JobEvent j)
  have "keeps share_history (session_action sha256 hexd hexe cfg env (JobEvent j))"
    by (cases j) (auto intro: csd_keeps)
  from keepsD [OF this] JobEvent assms show ?thesis
    by (cases "ss_authorized (rn_session r) = None")
      (auto simp: session_step_def share_history_def inserted_shares_def intro!: history_step_keeps)
next
  case MalformedLine
  have "keeps share_history (session_action sha256 hexd hexe cfg env MalformedLine)"
    by (auto intro!: csd_keeps)
  from keepsD [OF this] MalformedLine assms show ?thesis
    by (auto simp: session_step_def share_history_def inserted_shares_def intro!: history_step_keeps)
qed (use assms in \<open>auto simp: session_step_def act_end_def history_step_def inserted_shares_def\<close>)

text \<open>
  C2. A session offers a share to the repository only as the outcome of one submission of its
  authorized miner, under a worker name of that miner, for a retained job of a parent that is not
  fenced, with a key not seen before in the session, and verified by the consensus rules at the
  difficulty that is credited; what it offers is the record of exactly that share.
\<close>
theorem session_credits_sound:
  "let r' = fst (session_step sha256 hexd hexe cfg (env, event) r) in
    inserted_shares r' = inserted_shares r
    \<or> (\<exists>req miner submit job share d. event = Request req \<and> rq_method req = ''mining.submit''
         \<and> submit_params_parse hexd (rq_params req) = Inr submit
         \<and> ss_authorized (rn_session r) = Some miner
         \<and> authorized_submit_worker miner (sp_worker_name submit)
         \<and> get_for_submit (jw_retained (en_jobs env)) (sp_job_id submit) = Some job
         \<and> share_key_from_submit submit \<notin> ss_seen_shares (rn_session r)
         \<and> verify_submit_for_vardiff sha256 hexd (pj_template job) (sc_extranonce1_le cfg) submit
             (ss_vardiff (rn_session r)) (en_validate_at env) = Inr (share, d)
         \<and> inserted_shares r' = inserted_shares r
             @ [share_record_from_submit (session_reference cfg (rn_session r)) miner submit share d])"
  using session_step_history [OF surjective_pairing]
  unfolding Let_def history_step_def share_claim_def by blast

definition run_start :: "vardiff_state \<Rightarrow> pool_state \<Rightarrow> abuse_manager \<Rightarrow> session_run" where
  "run_start vardiff pool abuse =
     \<lparr>rn_session = session_start vardiff, rn_pool = pool, rn_abuse = abuse, rn_effects = [], rn_frames = 0\<rparr>"

definition keys_ok :: "session_run \<Rightarrow> bool" where
  "keys_ok r \<longleftrightarrow> distinct (map record_key (inserted_shares r))
     \<and> record_key ` set (inserted_shares r) \<subseteq> ss_seen_shares (rn_session r)"

lemma keys_ok_step:
  assumes "session_step sha256 hexd hexe cfg (env, event) r = (r', x)" and "keys_ok r"
  shows "keys_ok r'"
  using session_step_history [OF assms(1)] assms(2)
  by (fastforce simp: history_step_def keys_ok_def share_claim_def)

lemma close_session_history [simp]: "share_history (close_session cfg now r) = share_history r"
  by (simp add: close_session_def Let_def share_history_def inserted_shares_def List.map_filter_def)

lemma keys_ok_history: "share_history r' = share_history r \<Longrightarrow> keys_ok r' = keys_ok r"
  by (simp add: keys_ok_def share_history_def)

lemma keys_ok_run:
  "keys_ok r \<Longrightarrow> keys_ok (fst (run_session sha256 hexd hexe cfg events r))"
proof (induction events arbitrary: r)
  case (Cons ev events)
  obtain env event where ev: "ev = (env, event)" by fastforce
  obtain r1 x where st: "session_step sha256 hexd hexe cfg (env, event) r = (r1, x)" by fastforce
  from keys_ok_step [OF st Cons.prems] have k: "keys_ok r1" .
  with Cons.IH show ?case
    by (cases x) (simp_all add: ev st keys_ok_history [OF close_session_history])
qed simp

text \<open>
  C15. However a session runs, it offers no two shares with the same key (job, extranonce, time
  and nonce as the miner wrote them) to the repository.
\<close>
theorem session_shares_once:
  "distinct (map record_key (inserted_shares
     (fst (run_session sha256 hexd hexe cfg events (run_start vardiff pool abuse)))))"
  using keys_ok_run [of "run_start vardiff pool abuse" sha256 hexd hexe cfg events]
  by (simp add: keys_ok_def run_start_def inserted_shares_def List.map_filter_def)

section \<open>The verdict on a submission\<close>

text \<open>
  The contract of a submission: a verdict on the session, the jobs and the repository's answer,
  and what each verdict means for the miner, the statistics and the abuse manager.
\<close>

datatype verdict =
    NotAuthorized | Malformed | WrongWorker | FencedParent | UnknownJob | DuplicateKey
  | LowDifficulty | AlreadyStored | Credited

definition share_verdict ::
  "(bytes \<Rightarrow> bytes) \<Rightarrow> (string \<Rightarrow> bytes option) \<Rightarrow> session_config \<Rightarrow> session_env \<Rightarrow> session \<Rightarrow> string
    \<Rightarrow> submit_params \<Rightarrow> verdict" where
  "share_verdict sha256 hexd cfg env s miner submit =
     (let retained = jw_retained (en_jobs env) in
      if \<not> authorized_submit_worker miner (sp_worker_name submit) then WrongWorker
      else if job_parent_is_invalidated retained (sp_job_id submit) then FencedParent
      else case get_for_submit retained (sp_job_id submit) of
          None \<Rightarrow> UnknownJob
        | Some job \<Rightarrow>
            if share_key_from_submit submit \<in> ss_seen_shares s then DuplicateKey
            else (case verify_submit_for_vardiff sha256 hexd (pj_template job) (sc_extranonce1_le cfg)
                     submit (ss_vardiff s) (en_validate_at env) of
                Inl _ \<Rightarrow> LowDifficulty
              | Inr _ \<Rightarrow> if sc_repository cfg \<and> en_insert env = Some False then AlreadyStored else Credited))"

definition submit_verdict ::
  "(bytes \<Rightarrow> bytes) \<Rightarrow> (string \<Rightarrow> bytes option) \<Rightarrow> session_config \<Rightarrow> session_env \<Rightarrow> session \<Rightarrow> request
    \<Rightarrow> verdict" where
  "submit_verdict sha256 hexd cfg env s req =
     (case ss_authorized s of
        None \<Rightarrow> NotAuthorized
      | Some miner \<Rightarrow>
          (case submit_params_parse hexd (rq_params req) of
             Inl _ \<Rightarrow> Malformed
           | Inr submit \<Rightarrow> share_verdict sha256 hexd cfg env s miner submit))"

fun verdict_response :: "u64 \<Rightarrow> verdict \<Rightarrow> response" where
  "verdict_response rid NotAuthorized = response_error rid 24 ''unauthorized''"
| "verdict_response rid Malformed = response_error rid 20 ''malformed submit''"
| "verdict_response rid WrongWorker = response_error rid 20 ''invalid worker''"
| "verdict_response rid FencedParent = response_error rid 21 ''stale job''"
| "verdict_response rid UnknownJob = response_error rid 21 ''unknown job''"
| "verdict_response rid DuplicateKey = response_error rid 22 ''duplicate share''"
| "verdict_response rid AlreadyStored = response_error rid 22 ''duplicate share''"
| "verdict_response rid LowDifficulty = response_error rid 23 ''low difficulty share''"
| "verdict_response rid Credited = response_ok rid"

definition is_stale :: "verdict \<Rightarrow> bool" where
  "is_stale v \<longleftrightarrow> v \<in> {FencedParent, UnknownJob}"

definition is_rejected :: "verdict \<Rightarrow> bool" where
  "is_rejected v \<longleftrightarrow> v \<in> {Malformed, WrongWorker, DuplicateKey, LowDifficulty, AlreadyStored}"

definition is_offence :: "verdict \<Rightarrow> bool" where
  "is_offence v \<longleftrightarrow> v \<in> {Malformed, WrongWorker}"

fun verdict_streak :: "verdict \<Rightarrow> u32 \<Rightarrow> u32" where
  "verdict_streak v n = (if is_stale v then sat_add n 1
     else if v \<in> {NotAuthorized, Malformed, WrongWorker} then n else 0)"

text \<open>What a run looks like after a submission was judged.\<close>

definition judged ::
  "session_config \<Rightarrow> session_env \<Rightarrow> u64 \<Rightarrow> verdict \<Rightarrow> session_run \<Rightarrow> session_run \<Rightarrow> answer \<Rightarrow> bool" where
  "judged cfg env rid v r r' answer \<longleftrightarrow>
     fst answer = verdict_response rid v \<and> snd (snd answer) = is_stale v
     \<and> ss_unknown_job_streak (rn_session r') = verdict_streak v (ss_unknown_job_streak (rn_session r))
     \<and> st_shares_accepted (rn_pool r') = st_shares_accepted (rn_pool r) + (if v = Credited then 1 else 0)
     \<and> st_shares_rejected (rn_pool r') = st_shares_rejected (rn_pool r) + (if is_rejected v then 1 else 0)
     \<and> st_shares_stale (rn_pool r') = st_shares_stale (rn_pool r) + (if is_stale v then 1 else 0)
     \<and> rn_abuse r' = (if is_offence v
         then fst (record_offense (sc_abuse cfg) (en_abuse_at env) (sc_ip cfg) InvalidShare (rn_abuse r))
         else rn_abuse r)"

lemmas verdict_simps = is_stale_def is_rejected_def is_offence_def judged_def

lemma pool_counts [simp]:
  "st_shares_accepted (record_share_validation a b p) = st_shares_accepted p"
  "st_shares_rejected (record_share_validation a b p) = st_shares_rejected p"
  "st_shares_stale (record_share_validation a b p) = st_shares_stale p"
  "st_shares_accepted (record_stale_generation_fence a c p) = st_shares_accepted p"
  "st_shares_rejected (record_stale_generation_fence a c p) = st_shares_rejected p"
  "st_shares_stale (record_stale_generation_fence a c p) = st_shares_stale p"
  by (simp_all add: record_share_validation_def record_stale_generation_fence_def)

lemma pool_counts_shares [simp]:
  "st_shares_accepted (record_share_rejected a b m p) = st_shares_accepted p"
  "st_shares_rejected (record_share_rejected a b m p) = st_shares_rejected p + 1"
  "st_shares_stale (record_share_rejected a b m p) = st_shares_stale p"
  "st_shares_accepted (record_share_stale a b m p) = st_shares_accepted p"
  "st_shares_rejected (record_share_stale a b m p) = st_shares_rejected p"
  "st_shares_stale (record_share_stale a b m p) = st_shares_stale p + 1"
  "st_shares_accepted (record_share_accepted a m d c p) = st_shares_accepted p + 1"
  "st_shares_rejected (record_share_accepted a m d c p) = st_shares_rejected p"
  "st_shares_stale (record_share_accepted a m d c p) = st_shares_stale p"
  by (simp_all add: record_share_rejected_def record_share_stale_def record_share_accepted_def Let_def
      put_worker_def)

lemma pool_counts_candidate [simp]:
  "st_shares_accepted (record_candidate_propagation n a b c d e f p) = st_shares_accepted p"
  "st_shares_rejected (record_candidate_propagation n a b c d e f p) = st_shares_rejected p"
  "st_shares_stale (record_candidate_propagation n a b c d e f p) = st_shares_stale p"
  by (simp_all add: record_candidate_propagation_def Let_def split: option.split)

lemma persist_share_event_ok:
  assumes "persist_share_event cfg env event r = (r', Inr u)"
  shows "rn_session r' = rn_session r \<and> rn_pool r' = rn_pool r \<and> rn_abuse r' = rn_abuse r"
  using assms by (auto simp: persist_share_event_def act_bind_def emit_def act_modify_def act_return_def
      act_end_def split: if_splits)

lemma refuse_share_ok:
  assumes "refuse_share cfg env tally event rid code message resync r = (r', Inr a)"
  shows "a = (response_error rid code message, None, resync) \<and> rn_session r' = rn_session r
    \<and> rn_pool r' = tally (rn_pool r) \<and> rn_abuse r' = rn_abuse r"
proof -
  obtain r1 where "persist_share_event cfg env event (r\<lparr>rn_pool := tally (rn_pool r)\<rparr>) = (r1, Inr ())"
    and "a = (response_error rid code message, None, resync)" and "r' = r1"
    using assms by (auto simp: refuse_share_def act_return_def elim!: act_bind_cases)
  with persist_share_event_ok [OF this(1)] show ?thesis by simp
qed

lemma refuse_worker_ok:
  assumes "refuse_worker cfg env rid miner event message r = (r', Inr a)"
  shows "a = (response_error rid 20 message, None, False) \<and> rn_session r' = rn_session r
    \<and> rn_pool r' = record_share_rejected (en_now env) (en_now' env) miner (rn_pool r)
    \<and> rn_abuse r' = fst (record_offense (sc_abuse cfg) (en_abuse_at env) (sc_ip cfg) InvalidShare (rn_abuse r))"
  using assms
  by (auto simp: refuse_worker_def act_bind_def [of "offend_action _ _ _"] offend_action_def
      split: prod.splits dest!: refuse_share_ok)

lemma refuse_stale_ok:
  assumes "refuse_stale cfg env rid tally event message r = (r', Inr a)"
  shows "a = (response_error rid 21 message, None, True) \<and> rn_session r' = raise_streak (rn_session r)
    \<and> rn_pool r' = tally (rn_pool r) \<and> rn_abuse r' = rn_abuse r"
  using assms by (auto simp: refuse_stale_def dest!: refuse_share_ok)

lemma persist_accepted_ok:
  assumes "persist_accepted_share cfg env job record r = (r', Inr stored)"
  shows "rn_session r' = rn_session r \<and> rn_pool r' = rn_pool r \<and> rn_abuse r' = rn_abuse r
    \<and> (stored \<longleftrightarrow> \<not> (sc_repository cfg \<and> en_insert env = Some False))"
  using assms by (auto simp: persist_accepted_share_def act_bind_def emit_def act_modify_def act_return_def
      act_end_def split: if_splits option.splits)

lemma submit_block_candidate_counts:
  assumes "submit_block_candidate hexd hexe ce job pool miner submit share e1 d = Some result"
  shows "st_shares_accepted (co_pool result) = st_shares_accepted pool
    \<and> st_shares_rejected (co_pool result) = st_shares_rejected pool
    \<and> st_shares_stale (co_pool result) = st_shares_stale pool"
  using assms by (auto simp: submit_block_candidate_def Let_def split: if_splits option.splits)

lemma submit_candidate_action_ok:
  assumes "submit_candidate_action hexd hexe cfg env job miner submit share d r = (r', Inr u)"
  shows "rn_session r' = rn_session r \<and> rn_abuse r' = rn_abuse r
    \<and> st_shares_accepted (rn_pool r') = st_shares_accepted (rn_pool r)
    \<and> st_shares_rejected (rn_pool r') = st_shares_rejected (rn_pool r)
    \<and> st_shares_stale (rn_pool r') = st_shares_stale (rn_pool r)"
  using assms
  by (auto simp: submit_candidate_action_def Let_def act_bind_def emit_def act_modify_def act_return_def
      act_end_def act_get_def on_pool_def split: if_splits option.splits prod.splits sum.splits dest!: submit_block_candidate_counts)

lemma credit_share_ok:
  assumes "credit_share hexd hexe cfg env rid job miner submit share d r = (r', Inr a)"
  shows "\<exists>pending. a = (response_ok rid, pending, False)
    \<and> ss_unknown_job_streak (rn_session r') = ss_unknown_job_streak (rn_session r)
    \<and> rn_abuse r' = rn_abuse r
    \<and> st_shares_accepted (rn_pool r') = st_shares_accepted (rn_pool r) + 1
    \<and> st_shares_rejected (rn_pool r') = st_shares_rejected (rn_pool r)
    \<and> st_shares_stale (rn_pool r') = st_shares_stale (rn_pool r)"
proof -
  let ?r2 = "r\<lparr>rn_session := (rn_session r)\<lparr>ss_accepted_share_seen := True\<rparr>\<rparr>"
  let ?c = "if vs_is_block_candidate share
     then submit_candidate_action hexd hexe cfg env job miner submit share d else act_return ()"
  from assms obtain r3 u where c: "?c ?r2 = (r3, Inr u)"
    and rest: "act_bind (on_pool (record_share_accepted (en_now env) miner d (vs_is_block_candidate share))) (\<lambda>_.
     act_bind act_get (\<lambda>r.
       case record_accepted_share (en_accept_at env) (ss_vardiff (rn_session r)) of
         None \<Rightarrow> act_end EndedPanic
       | Some (vardiff, pending) \<Rightarrow>
           act_bind (on_session (\<lambda>s. s\<lparr>ss_vardiff := vardiff\<rparr>)) (\<lambda>_.
             act_return (response_ok rid, pending, False)))) r3 = (r', Inr a)"
    unfolding credit_share_def on_session_bind by (rule act_bind_cases) auto
  have "rn_session r3 = rn_session ?r2 \<and> rn_abuse r3 = rn_abuse ?r2
        \<and> st_shares_accepted (rn_pool r3) = st_shares_accepted (rn_pool ?r2)
        \<and> st_shares_rejected (rn_pool r3) = st_shares_rejected (rn_pool ?r2)
        \<and> st_shares_stale (rn_pool r3) = st_shares_stale (rn_pool ?r2)"
    using c submit_candidate_action_ok [of hexd hexe cfg env job miner submit share d ?r2 r3 u]
    by (auto simp: act_return_def split: if_splits)
  with rest show ?thesis
    by (auto simp: act_return_def act_end_def split: option.splits)
qed

lemma accept_share_ok:
  assumes "accept_share hexd hexe cfg env rid job miner submit share d r = (r', Inr a)"
    and "ss_unknown_job_streak (rn_session r) = 0"
  shows "judged cfg env rid (if sc_repository cfg \<and> en_insert env = Some False then AlreadyStored else Credited)
      r r' a \<and> ss_unknown_job_streak (rn_session r') = 0"
proof -
  from assms(1) obtain r1 stored where p: "persist_accepted_share cfg env job (share_record_from_submit
        (session_reference cfg (rn_session r)) miner submit share d) r = (r1, Inr stored)"
    and g: "(if stored then credit_share hexd hexe cfg env rid job miner submit share d
       else refuse_share cfg env (record_share_rejected (en_now env) (en_now' env) miner)
              (share_event_of cfg (rn_session r) miner submit ''rejected'' ''duplicate_share'')
              rid 22 ''duplicate share'' False) r1 = (r', Inr a)"
    unfolding accept_share_def act_get_bind by (rule act_bind_cases) auto
  from g show ?thesis
    using persist_accepted_ok [OF p] assms(2)
    by (auto simp: verdict_simps split: if_splits dest!: credit_share_ok refuse_share_ok)
qed

lemma submit_for_job_ok:
  assumes "submit_for_job sha256 hexd hexe cfg env rid miner submit job r = (r', Inr a)"
    and "authorized_submit_worker miner (sp_worker_name submit)"
    and "\<not> job_parent_is_invalidated (jw_retained (en_jobs env)) (sp_job_id submit)"
    and "get_for_submit (jw_retained (en_jobs env)) (sp_job_id submit) = Some job"
  shows "judged cfg env rid (share_verdict sha256 hexd cfg env (rn_session r) miner submit) r r' a"
proof -
  let ?key = "share_key_from_submit submit"
  let ?s1 = "note_share_key ?key (rn_session r)"
  have s1: "ss_vardiff ?s1 = ss_vardiff (rn_session r)" "ss_unknown_job_streak ?s1 = 0"
    by (simp_all add: note_share_key_def)
  show ?thesis
  proof (cases "?key \<in> ss_seen_shares (rn_session r)")
    case True
    with assms(1) have "refuse_share cfg env (record_share_rejected (en_now env) (en_now' env) miner)
        (share_event_of cfg (rn_session r) miner submit ''rejected'' ''duplicate_share'')
        rid 22 ''duplicate share'' False (r\<lparr>rn_session := ?s1\<rparr>) = (r', Inr a)"
      unfolding submit_for_job_def by (simp add: Let_def)
    from refuse_share_ok [OF this] True assms(2-4) s1 show ?thesis
      by (auto simp: verdict_simps share_verdict_def Let_def)
  next
    case False
    let ?r1 = "r\<lparr>rn_session := ?s1, rn_pool := record_share_validation (en_now env) (en_validation env) (rn_pool r)\<rparr>"
    let ?v = "verify_submit_for_vardiff sha256 hexd (pj_template job) (sc_extranonce1_le cfg) submit
       (ss_vardiff (rn_session r)) (en_validate_at env)"
    from False assms(1) have run: "(case ?v of
          Inr (share, difficulty) \<Rightarrow> accept_share hexd hexe cfg env rid job miner submit share difficulty
        | Inl _ \<Rightarrow> refuse_share cfg env (record_share_rejected (en_now env) (en_now' env) miner)
            (share_event_of cfg ?s1 miner submit ''rejected'' ''low_difficulty'')
            rid 23 ''low difficulty share'' False) ?r1 = (r', Inr a)"
      unfolding submit_for_job_def validate_share_def by (cases ?v) (auto simp: Let_def s1)
    show ?thesis
    proof (cases ?v)
      case (Inl e)
      with run have "refuse_share cfg env (record_share_rejected (en_now env) (en_now' env) miner)
            (share_event_of cfg ?s1 miner submit ''rejected'' ''low_difficulty'')
            rid 23 ''low difficulty share'' False ?r1 = (r', Inr a)" by simp
      from refuse_share_ok [OF this] False Inl assms(2-4) s1 show ?thesis
        by (auto simp: verdict_simps share_verdict_def Let_def)
    next
      case (Inr sd)
      obtain share d where sd: "sd = (share, d)" by fastforce
      with run Inr have "accept_share hexd hexe cfg env rid job miner submit share d ?r1 = (r', Inr a)" by simp
      from accept_share_ok [OF this] s1 False Inr assms(2-4) show ?thesis
        by (auto simp: verdict_simps share_verdict_def Let_def)
    qed
  qed
qed

lemma submission_judged:
  assumes "submit_action sha256 hexd hexe cfg env req r = (r', Inr answer)"
  shows "judged cfg env (request_number req) (submit_verdict sha256 hexd cfg env (rn_session r) req) r r' answer"
proof (cases "ss_authorized (rn_session r)")
  case None
  with assms show ?thesis
    by (auto simp: submit_action_def Let_def answer_error_def act_return_def submit_verdict_def verdict_simps)
next
  case auth: (Some miner)
  show ?thesis
  proof (cases "submit_params_parse hexd (rq_params req)")
    case (Inl e)
    with auth assms have "refuse_worker cfg env (request_number req) miner
        (malformed_event cfg (rn_session r) miner) ''malformed submit'' r = (r', Inr answer)"
      by (simp add: submit_action_def Let_def)
    from refuse_worker_ok [OF this] auth Inl show ?thesis
      by (auto simp: submit_verdict_def verdict_simps)
  next
    case (Inr submit)
    let ?job = "get_for_submit (jw_retained (en_jobs env)) (sp_job_id submit)"
    have v: "submit_verdict sha256 hexd cfg env (rn_session r) req
        = share_verdict sha256 hexd cfg env (rn_session r) miner submit"
      using auth Inr by (simp add: submit_verdict_def)
    from auth Inr assms
    have run: "submit_parsed sha256 hexd hexe cfg env (request_number req) miner submit r = (r', Inr answer)"
      by (simp add: submit_action_def Let_def)
    consider (worker) "\<not> authorized_submit_worker miner (sp_worker_name submit)"
      | (fenced) "authorized_submit_worker miner (sp_worker_name submit)"
          "job_parent_is_invalidated (jw_retained (en_jobs env)) (sp_job_id submit)"
      | (gone) "authorized_submit_worker miner (sp_worker_name submit)" "?job = None"
          "\<not> job_parent_is_invalidated (jw_retained (en_jobs env)) (sp_job_id submit)"
      | (job) job where "authorized_submit_worker miner (sp_worker_name submit)" "?job = Some job"
          "\<not> job_parent_is_invalidated (jw_retained (en_jobs env)) (sp_job_id submit)"
      by fastforce
    then show ?thesis
    proof cases
      case job
      with run show ?thesis
        unfolding v by (intro submit_for_job_ok) (auto simp: submit_parsed_def Let_def)
    qed (use run in \<open>auto simp: v submit_parsed_def Let_def share_verdict_def verdict_simps raise_streak_def
        dest!: refuse_worker_ok refuse_stale_ok\<close>)
  qed
qed

text \<open>
  C18. A submission that the session survives is treated as its verdict says, and the verdicts are
  decided in this order: not authorized (24), malformed (20), a worker of someone else (20), a job of
  a fenced parent or an unknown job (21), a key seen before (22), too low a difficulty (23), already
  stored (22), credited. The answer, the request for a clean job, the streak of stale submissions,
  the counters of accepted, rejected and stale shares and the offence of the address all follow it.
  This is the order of the code; docs/protocol-spec.md differs in two places: its section 4 answers a
  stale submission with "stale share" where the code says "stale job" or "unknown job", and its section 7
  compares the hash with the target before it looks for a duplicate, where the code looks for a duplicate
  in the session first, so that a share of too low a difficulty is a duplicate when sent again.
\<close>
theorem submission_verdict:
  assumes "submit_action sha256 hexd hexe cfg env req r = (r', Inr (response, pending, resync))"
    and "v = submit_verdict sha256 hexd cfg env (rn_session r) req"
  shows "response = verdict_response (request_number req) v \<and> resync = is_stale v
     \<and> ss_unknown_job_streak (rn_session r') = verdict_streak v (ss_unknown_job_streak (rn_session r))
     \<and> st_shares_accepted (rn_pool r') = st_shares_accepted (rn_pool r) + (if v = Credited then 1 else 0)
     \<and> st_shares_rejected (rn_pool r') = st_shares_rejected (rn_pool r) + (if is_rejected v then 1 else 0)
     \<and> st_shares_stale (rn_pool r') = st_shares_stale (rn_pool r) + (if is_stale v then 1 else 0)
     \<and> rn_abuse r' = (if is_offence v
         then fst (record_offense (sc_abuse cfg) (en_abuse_at env) (sc_ip cfg) InvalidShare (rn_abuse r))
         else rn_abuse r)"
  using submission_judged [OF assms(1)] assms(2) by (simp add: judged_def)

section \<open>Streaks of stale submissions\<close>

definition streak :: "session_run \<Rightarrow> u32" where
  "streak r = ss_unknown_job_streak (rn_session r)"

lemma streak_emit [csd_keeps]: "keeps streak (emit e)"
  unfolding emit_def by (rule keeps_modify) (simp add: streak_def)

lemma streak_send [csd_keeps]: "keeps streak (send env e)"
  by (simp add: keeps_def send_def streak_def)

lemma streak_session [csd_keeps]:
  "(\<And>s. ss_unknown_job_streak (f s) = ss_unknown_job_streak s) \<Longrightarrow> keeps streak (on_session f)"
  unfolding on_session_def by (rule keeps_modify) (simp add: streak_def)

lemma streak_pool [csd_keeps]: "keeps streak (on_pool f)"
  unfolding on_pool_def by (rule keeps_modify) (simp add: streak_def)

lemma streak_offend [csd_keeps]: "keeps streak (offend_action cfg env kind)"
  by (simp add: keeps_def offend_action_def streak_def split: prod.split)

lemma streak_ban [csd_keeps]: "keeps streak (check_ban cfg env)"
  by (simp add: keeps_def check_ban_def streak_def split: prod.split)

lemma streak_deliver [csd_keeps]: "keeps streak (deliver_job env job)"
  unfolding deliver_job_def note_generation_def by (intro csd_keeps) (auto split: option.split)

lemma streak_authorize [csd_keeps]: "keeps streak (authorize_action hexe cfg env req)"
proof -
  have permit: "keeps streak (take_address_permit worker)" for worker
    unfolding take_address_permit_def by (rule keeps_modify) (simp add: streak_def Let_def)
  have opened: "keeps streak (open_session hexe cfg env params worker)" for params worker
    unfolding open_session_def Let_def by (intro csd_keeps) auto
  show ?thesis
    unfolding authorize_action_def Let_def answer_ok_def answer_error_def
    by (intro csd_keeps permit opened) (auto simp: streak_def intro: csd_keeps split: abuse_reject.split)
qed

lemma streak_suggest [csd_keeps]: "keeps streak (suggest_action env req)"
  unfolding suggest_action_def Let_def answer_ok_def answer_error_def by (intro csd_keeps) auto

lemma streak_announce [csd_keeps]: "keeps streak (announce_action cfg env meth pending)"
  unfolding announce_action_def Let_def by (intro csd_keeps)

lemma streak_resync: "resync_action env r = (r', Inr u) \<Longrightarrow> streak r' < 3"
  unfolding resync_action_def stale_job_reconnect_threshold_def
  by (auto simp: streak_def act_end_def act_return_def act_get_def not_le split: if_splits elim!: act_bind_cases
      dest: keepsD [OF streak_deliver])

lemma on_request_streak:
  assumes "on_request sha256 hexd hexe cfg env req r = (r', Inr u)" and "streak r < 3"
  shows "streak r' < 3"
proof -
  from assms(1) obtain r1 r2 response pending resync
    where d: "dispatch sha256 hexd hexe cfg env req r = (r1, Inr (response, pending, resync))"
      and s: "streak r2 = streak r1"
      and rest: "act_bind (if resync then resync_action env else act_return ()) (\<lambda>_.
        act_bind (check_ban cfg env) (\<lambda>_. announce_action cfg env (rq_method req) pending)) r2 = (r', Inr u)"
  proof -
    from assms(1) obtain r1 a where d: "dispatch sha256 hexd hexe cfg env req r = (r1, Inr a)"
      and g: "(\<lambda>(response, pending, resync). act_bind (send env (SentResponse response)) (\<lambda>_.
        act_bind (if resync then resync_action env else act_return ()) (\<lambda>_.
        act_bind (check_ban cfg env) (\<lambda>_. announce_action cfg env (rq_method req) pending)))) a r1 = (r', Inr u)"
      unfolding on_request_def by (rule act_bind_cases) auto
    obtain response pending resync where a: "a = (response, pending, resync)" by (cases a)
    from g [unfolded a prod.case] obtain r2 where "send env (SentResponse response) r1 = (r2, Inr ())"
      and "act_bind (if resync then resync_action env else act_return ()) (\<lambda>_.
        act_bind (check_ban cfg env) (\<lambda>_. announce_action cfg env (rq_method req) pending)) r2 = (r', Inr u)"
      by (rule act_bind_cases) auto
    with that d a keepsD [OF streak_send] show ?thesis by blast
  qed
  have tl: "streak r' = streak r3"
    if "act_bind (check_ban cfg env) (\<lambda>_. announce_action cfg env (rq_method req) pending) r3 = (r', Inr u)" for r3
  proof -
    have "keeps streak (act_bind (check_ban cfg env) (\<lambda>_. announce_action cfg env (rq_method req) pending))"
      by (intro csd_keeps)
    from keepsD [OF this that] show ?thesis .
  qed
  show ?thesis
  proof (cases resync)
    case True
    with rest obtain r3 where "resync_action env r2 = (r3, Inr ())"
      and "act_bind (check_ban cfg env) (\<lambda>_. announce_action cfg env (rq_method req) pending) r3 = (r', Inr u)"
      by (auto elim: act_bind_cases)
    with streak_resync tl show ?thesis by metis
  next
    case False
    with rest have "streak r' = streak r2" by (intro tl) (simp add: act_bind_def [of "act_return _"] act_return_def)
    moreover have "streak r1 < 3"
    proof (cases "rq_method req = ''mining.submit''")
      case True
      with d have "submit_action sha256 hexd hexe cfg env req r = (r1, Inr (response, pending, resync))"
        by (simp add: dispatch_def)
      from submission_judged [OF this] False assms(2) show ?thesis by (auto simp: judged_def streak_def)
    next
      case False
      then have "keeps streak (dispatch sha256 hexd hexe cfg env req)"
        unfolding dispatch_def answer_error_def by (intro csd_keeps) auto
      from keepsD [OF this d] assms(2) show ?thesis by simp
    qed
    ultimately show ?thesis using s by simp
  qed
qed

lemma session_step_streak:
  assumes "session_step sha256 hexd hexe cfg (env, event) r = (r', Inr u)" and "streak r < 3"
  shows "streak r' < 3"
proof -
  have f: "streak (r\<lparr>rn_frames := 0\<rparr>) = streak r" by (simp add: streak_def)
  show ?thesis
  proof (cases event)
    case (Request req)
    with assms f on_request_streak [of sha256 hexd hexe cfg env req "r\<lparr>rn_frames := 0\<rparr>"] show ?thesis
      by (simp add: session_step_def)
  next
    case (JobEvent j)
    have "keeps streak (session_action sha256 hexd hexe cfg env (JobEvent j))"
      by (cases j) (auto intro: csd_keeps)
    from keepsD [OF this] JobEvent assms f show ?thesis
      by (auto simp: session_step_def split: if_splits)
  next
    case MalformedLine
    have "keeps streak (session_action sha256 hexd hexe cfg env MalformedLine)"
      by (auto intro!: csd_keeps)
    from keepsD [OF this] MalformedLine assms f show ?thesis by (simp add: session_step_def)
  qed (use assms f in \<open>auto simp: session_step_def act_end_def\<close>)
qed

lemma run_session_streak:
  "run_session sha256 hexd hexe cfg events r = (r', None) \<Longrightarrow> streak r < 3 \<Longrightarrow> streak r' < 3"
proof (induction events arbitrary: r)
  case (Cons ev events)
  obtain env event where ev: "ev = (env, event)" by fastforce
  obtain r1 x where st: "session_step sha256 hexd hexe cfg (env, event) r = (r1, x)" by fastforce
  from Cons.prems(1) st ev have "x = Inr ()" by (cases x) auto
  with Cons st ev session_step_streak [of sha256 hexd hexe cfg env event r r1 "()"] show ?case by simp
qed simp

text \<open>
  A session does not outlive its third stale submission in a row: after any run that has not
  ended the session, the streak (which a submission for a live job resets and every other event
  keeps) is below the threshold of three; its saturating counter never saturates.
\<close>
theorem stale_streak_bounded:
  "case run_session sha256 hexd hexe cfg events (run_start vardiff pool abuse) of
     (r, None) \<Rightarrow> ss_unknown_job_streak (rn_session r) < stale_job_reconnect_threshold
   | (r, Some _) \<Rightarrow> True"
  using run_session_streak [of sha256 hexd hexe cfg events "run_start vardiff pool abuse"]
  by (auto simp: streak_def run_start_def session_start_def stale_job_reconnect_threshold_def
      split: prod.split option.split)

section \<open>A submission on concrete data\<close>

definition sample_session_config :: session_config where
  "sample_session_config =
     \<lparr>sc_ip = ''10.0.0.1'', sc_port = 3333, sc_session_id = 1, sc_session_uuid = ''u'',
      sc_extranonce1_le = [1, 0, 0, 0], sc_repository = True, sc_submitter = True,
      sc_abuse = sample_abuse_config, sc_release = ''r'', sc_instance = ''i''\<rparr>"

definition sample_candidate_env :: candidate_env where
  "sample_candidate_env =
     \<lparr>ce_submitter = True, ce_repository = True, ce_material = None, ce_submit = Inl ''refused'',
      ce_recorded = True, ce_detected_unix_ms = 0, ce_detected_to_submit_us = 0, ce_roundtrip_us = 0,
      ce_record_us = 0, ce_total_us = 0, ce_now = 0\<rparr>"

definition sample_env :: session_env where
  "sample_env =
     \<lparr>en_jobs = job_watch_start 0 sample_job, en_write_ok = (\<lambda>_. True), en_open_ok = True,
      en_event_ok = True, en_upsert_ok = True, en_insert = Some True, en_candidate = sample_candidate_env,
      en_validation = Fin 0, en_suggest_at = 1, en_validate_at = 1, en_accept_at = 1, en_abuse_at = 1,
      en_ban_at = 1, en_ban_at' = 1, en_now = 1, en_now' = 1\<rparr>"

definition sample_run :: session_run where
  "sample_run = run_start sample_vardiff_state pool_state_default abuse_new"

definition authorized_run :: session_run where
  "authorized_run = sample_run\<lparr>rn_session := (rn_session sample_run)\<lparr>ss_authorized := Some ''ab''\<rparr>\<rparr>"

definition unknown_job_request :: request where
  "unknown_job_request = submit_request 7
     \<lparr>sp_worker_name = ''ab'', sp_job_id = ''9'', sp_extranonce2_hex = ''00000000'',
      sp_ntime_hex = ''00000000'', sp_nonce_hex = ''00000000''\<rparr>"

theorem submission_verdict_witness:
  "ss_unknown_job_streak (rn_session (fst (submit_action (\<lambda>_. []) hex_decode hex_encode
      sample_session_config sample_env unknown_job_request authorized_run))) = 1"
proof -
  have v: "submit_verdict (\<lambda>_. []) hex_decode sample_session_config sample_env
      (rn_session authorized_run) unknown_job_request = UnknownJob"
    by code_simp
  have "case snd (submit_action (\<lambda>_. []) hex_decode hex_encode sample_session_config sample_env
      unknown_job_request authorized_run) of Inr _ \<Rightarrow> True | Inl _ \<Rightarrow> False"
    by code_simp
  then have "\<exists>r' a. submit_action (\<lambda>_. []) hex_decode hex_encode sample_session_config sample_env
      unknown_job_request authorized_run = (r', Inr a)"
    by (auto split: sum.splits) (metis prod.collapse)
  then obtain r' response pending resync where run: "submit_action (\<lambda>_. []) hex_decode hex_encode
      sample_session_config sample_env unknown_job_request authorized_run
      = (r', Inr (response, pending, resync))" by (metis prod_cases3)
  have start: "ss_unknown_job_streak (rn_session authorized_run) = 0"
    by (simp add: authorized_run_def sample_run_def run_start_def session_start_def)
  from submission_verdict [OF run v [symmetric]] have "ss_unknown_job_streak (rn_session r') = 1"
    by (simp add: start is_stale_def sat_add_def)
  then show ?thesis by (simp only: run fst_conv)
qed

end
