(* ===== verification/Csd_Payouts.thy ===== *)
theory Csd_Payouts
  imports Csd_Ledger Csd_Claims
begin

text \<open>
  What the payout workers (csd-pool-workers) and the signer service (csd-pool-signer) say to each
  other and to a node: amounts as decimal text, the request for a batch and its checks on both sides,
  the checks of a signed transaction, and the exported ledger. JSON text, the hexadecimal encoder and
  SHA-256 are parameters.
\<close>

unbundle bit_operations_syntax

section \<open>Amounts\<close>

definition base_units_per_csd :: nat where
  "base_units_per_csd = 100000000"

datatype worker_error = InvalidAmount string

fun split_char :: "char \<Rightarrow> string \<Rightarrow> string list" where
  "split_char c [] = [[]]"
| "split_char c (x # xs) =
     (if x = c then [] # split_char c xs
      else case split_char c xs of p # ps \<Rightarrow> (x # p) # ps | [] \<Rightarrow> [[x]])"

text \<open>\<open>frac_padded.push('0')\<close> while it is shorter than eight.\<close>

definition pad_right :: "nat \<Rightarrow> string \<Rightarrow> string" where
  "pad_right n s = s @ replicate (n - length s) (CHR ''0'')"

text \<open>The last addition has no overflow check.\<close>

definition parse_csd_base_units :: "string \<Rightarrow> worker_error + u128" where
  "parse_csd_base_units value =
     (let trimmed = trim value;
          parts = split_char (CHR ''.'') trimmed;
          whole = hd parts;
          frac = (case tl parts of [] \<Rightarrow> [] | f # _ \<Rightarrow> f) in
      if 2 < length parts \<or> whole = [] \<or> \<not> list_all is_ascii_digit whole
         \<or> \<not> list_all is_ascii_digit frac \<or> 8 < length frac
      then Inl (InvalidAmount trimmed)
      else case parse_uint 10 (2 ^ 128) whole of
          None \<Rightarrow> Inl (InvalidAmount trimmed)
        | Some w \<Rightarrow>
            (case checked_mul (word_of_nat w) (word_of_nat base_units_per_csd) of
               None \<Rightarrow> Inl (InvalidAmount trimmed)
             | Some whole_units \<Rightarrow>
                 (case parse_uint 10 (2 ^ 128) (pad_right 8 frac) of
                    None \<Rightarrow> Inl (InvalidAmount trimmed)
                  | Some frac_units \<Rightarrow> Inr (whole_units + word_of_nat frac_units))))"

text \<open>\<open>{:08}\<close>\<close>

definition pad_left :: "nat \<Rightarrow> string \<Rightarrow> string" where
  "pad_left n s = replicate (n - length s) (CHR ''0'') @ s"

definition format_unsigned_csd :: "u128 \<Rightarrow> string" where
  "format_unsigned_csd amount =
     decimal_digits (unat (amount div word_of_nat base_units_per_csd)) @ ''.''
       @ pad_left 8 (decimal_digits (unat (amount mod word_of_nat base_units_per_csd)))"

text \<open>\<open>unsigned_abs\<close> of the least value is its bit pattern.\<close>

definition format_signed_csd :: "i128 \<Rightarrow> string" where
  "format_signed_csd amount =
     (if sint amount < 0 then ''-'' else []) @ format_unsigned_csd (if sint amount < 0 then - amount else amount)"

definition pool_fee_bps :: "f64 \<Rightarrow> u16" where
  "pool_fee_bps fee_percent =
     (case fclamp (fround_int (fmul (fmax fee_percent (Fin 0)) (Fin 100))) (Fin 0) (Fin 10000) of
        Some (Fin q) \<Rightarrow> word_of_int \<lfloor>q\<rfloor>
      | _ \<Rightarrow> 0)"

section \<open>The exported ledger\<close>

definition csv_cell :: "string \<Rightarrow> string" where
  "csv_cell value =
     (if CHR '','' \<in> set value \<or> CHR 0x22 \<in> set value \<or> char_of (10 :: nat) \<in> set value
         \<or> char_of (13 :: nat) \<in> set value
      then [CHR 0x22] @ concat (map (\<lambda>c. if c = CHR 0x22 then [c, c] else [c]) value) @ [CHR 0x22]
      else value)"

text \<open>\<open>{}\<close> of an \<open>i128\<close>\<close>

definition show_i128 :: "i128 \<Rightarrow> string" where
  "show_i128 w = (if sint w < 0 then ''-'' @ decimal_digits (nat (- sint w)) else decimal_digits (nat (sint w)))"

definition ledger_csv_cells :: "nat \<Rightarrow> ledger_entry \<Rightarrow> string list" where
  "ledger_csv_cells index entry =
     [decimal_digits (index + 1), csv_cell (coalesce (le_miner entry) ''pool''),
      show_i128 (le_amount_base_units entry), format_signed_csd (le_amount_base_units entry),
      csv_cell (ledger_kind_as_str (le_kind entry)), csv_cell (le_ref_type entry),
      csv_cell (le_ref_id entry)]"

fun join_cells :: "string list \<Rightarrow> string" where
  "join_cells [] = []"
| "join_cells [c] = c"
| "join_cells (c # cs) = c @ '','' @ join_cells cs"

definition ledger_entries_csv :: "ledger_entry list \<Rightarrow> string" where
  "ledger_entries_csv entries =
     ''entry_index,miner,amount_base_units,amount_csd,kind,ref_type,ref_id'' @ [char_of (10 :: nat)]
       @ concat (map (\<lambda>(i, e). join_cells (ledger_csv_cells i e) @ [char_of (10 :: nat)])
           (List.enumerate 0 entries))"

section \<open>Addresses and roles\<close>

definition is_addr20_hex :: "string \<Rightarrow> bool" where
  "is_addr20_hex value \<longleftrightarrow> length value = 40 \<and> list_all is_ascii_hexdigit value"

definition normalize_addr20 :: "string \<Rightarrow> string option" where
  "normalize_addr20 value =
     (let trimmed = trim value;
          normalized = to_ascii_lowercase (coalesce (strip_prefix ''0x'' trimmed) trimmed)
      in if is_addr20_hex normalized then Some normalized else None)"

definition role_includes :: "string \<Rightarrow> string \<Rightarrow> bool" where
  "role_includes value role =
     list_ex (\<lambda>candidate. eq_ignore_ascii_case (trim candidate) role) (split_char (CHR '','') value)"

section \<open>The request to the signer\<close>

record sign_payout_output =
  so_address :: string
  so_amount_base_units :: u128

record sign_payout_request =
  sq_batch_id :: string
  sq_total_base_units :: u128
  sq_outputs :: "sign_payout_output list"

record signed_payout_response =
  sd_raw_tx_hex :: "string option"
  sd_node_tx :: "json option"
  sd_txid :: string

definition sign_request_of_batch :: "payout_batch_record \<Rightarrow> sign_payout_request" where
  "sign_request_of_batch batch =
     \<lparr>sq_batch_id = pr_batch_id batch, sq_total_base_units = pr_total_base_units batch,
      sq_outputs = map (\<lambda>r. \<lparr>so_address = rc_address r, so_amount_base_units = rc_amount_base_units r\<rparr>)
        (pr_recipients batch)\<rparr>"

text \<open>What the signer service checks: its token, compared without an early exit, and the request.\<close>

definition constant_time_eq :: "bytes \<Rightarrow> bytes \<Rightarrow> bool" where
  "constant_time_eq left right =
     (let byte_at = (\<lambda>bs i. if i < length bs then bs ! i else 0)
      in foldl (\<lambda>diff i. diff OR unat (byte_at left i XOR byte_at right i))
           (length left XOR length right) [0..<max (length left) (length right)] = 0)"

datatype signer_error = Unauthorized | BadRequest string

definition authorize_signer :: "bytes option \<Rightarrow> bytes option \<Rightarrow> signer_error + unit" where
  "authorize_signer header token =
     (case token of
        None \<Rightarrow> Inr ()
      | Some expected \<Rightarrow>
          (case header of
             None \<Rightarrow> Inl Unauthorized
           | Some value \<Rightarrow>
               if take 7 value = map of_char ''Bearer ''
                  \<and> constant_time_eq (drop 7 value) expected
               then Inr () else Inl Unauthorized))"

fun sum_outputs :: "u128 \<Rightarrow> sign_payout_output list \<Rightarrow> signer_error + u128" where
  "sum_outputs total_units [] = Inr total_units"
| "sum_outputs total_units (output # outputs) =
     (if \<not> is_addr20_hex (so_address output) then Inl (BadRequest ''output address must be 40 hex chars'')
      else if so_amount_base_units output = 0 then Inl (BadRequest ''output amount must be positive'')
      else if unat total_units + unat (so_amount_base_units output) < 2 ^ 128
      then sum_outputs (total_units + so_amount_base_units output) outputs
      else Inl (BadRequest ''output total overflow''))"

definition validate_sign_request :: "sign_payout_request \<Rightarrow> signer_error + unit" where
  "validate_sign_request request =
     (if trim (sq_batch_id request) = [] then Inl (BadRequest ''batch_id is required'')
      else if sq_outputs request = [] then Inl (BadRequest ''outputs are required'')
      else result_bind (sum_outputs 0 (sq_outputs request)) (\<lambda>total_units.
        if total_units \<noteq> sq_total_base_units request
        then Inl (BadRequest ''output total does not match batch total'') else Inr ()))"

definition sign_payout ::
  "(bytes \<Rightarrow> bytes) \<Rightarrow> (bytes \<Rightarrow> string) \<Rightarrow> (sign_payout_request \<Rightarrow> bytes) \<Rightarrow> bytes option \<Rightarrow> bytes option
    \<Rightarrow> sign_payout_request \<Rightarrow> signer_error + signed_payout_response" where
  "sign_payout sha256 hexe json_bytes header token request =
     result_bind (authorize_signer header token) (\<lambda>_.
     result_bind (validate_sign_request request) (\<lambda>_.
       let raw_tx_hex = hexe (map of_char ''csd-payout-mock-v1:'' @ json_bytes request) in
       Inr \<lparr>sd_raw_tx_hex = Some raw_tx_hex, sd_node_tx = None,
            sd_txid = hexe (sha256 (sha256 (map of_char raw_tx_hex)))\<rparr>))"

section \<open>The checks of a signed transaction\<close>

record signed_payout_validation =
  sv_node_tx_present :: bool
  sv_node_tx_valid :: bool
  sv_node_tx_outputs_match_request :: bool

definition byte_array :: "json option \<Rightarrow> nat \<Rightarrow> bool" where
  "byte_array value expected_len =
     (case Option.bind value json_as_array of
        None \<Rightarrow> False
      | Some items \<Rightarrow> length items = expected_len
          \<and> list_all (\<lambda>item. case json_as_u64 item of Some b \<Rightarrow> b \<le> 255 | None \<Rightarrow> False) items)"

definition u64_field_at_most :: "u64 \<Rightarrow> json \<Rightarrow> string \<Rightarrow> bool" where
  "u64_field_at_most bound v field =
     (case Option.bind (json_get v field) json_as_u64 of Some n \<Rightarrow> n \<le> bound | None \<Rightarrow> False)"

definition tx_entries :: "string \<Rightarrow> json \<Rightarrow> json list option" where
  "tx_entries field tx =
     (case Option.bind (json_get tx field) json_as_array of
        Some entries \<Rightarrow> if entries \<noteq> [] \<and> length entries \<le> 512 then Some entries else None
      | None \<Rightarrow> None)"

definition check_tx_input :: "json \<Rightarrow> string + unit" where
  "check_tx_input input =
     (case json_get input ''prevout'' of
        None \<Rightarrow> Inl ''node_tx input prevout is required''
      | Some prevout \<Rightarrow>
          if \<not> byte_array (json_get prevout ''txid'') 32 \<or> \<not> u64_field_at_most (2 ^ 32 - 1) prevout ''vout''
             \<or> \<not> byte_array (json_get input ''script_sig'') 99
          then Inl ''node_tx input must have a 32-byte txid, u32 vout, and 99-byte script_sig''
          else Inr ())"

definition check_tx_output :: "json \<Rightarrow> string + unit" where
  "check_tx_output output =
     (if coalesce (Option.bind (json_get output ''value'') json_as_u64) 0 = 0
         \<or> \<not> byte_array (json_get output ''script_pubkey'') 20
      then Inl ''node_tx output must have positive u64 value and 20-byte script_pubkey''
      else Inr ())"

definition validate_official_node_tx :: "json \<Rightarrow> string + unit" where
  "validate_official_node_tx tx =
     (case tx of
        JObject _ \<Rightarrow>
          if Option.bind (json_get tx ''version'') json_as_u64 \<noteq> Some 1 then Inl ''node_tx version must be 1''
          else
            result_bind (ok_or ''node_tx inputs must contain 1..512 entries'' (tx_entries ''inputs'' tx)) (\<lambda>inputs.
            result_bind (check_all check_tx_input inputs) (\<lambda>_.
            result_bind (ok_or ''node_tx outputs must contain 1..512 entries'' (tx_entries ''outputs'' tx)) (\<lambda>outputs.
            result_bind (check_all check_tx_output outputs) (\<lambda>_.
              if \<not> u64_field_at_most (2 ^ 32 - 1) tx ''locktime''
                 \<or> Option.bind (json_get tx ''app'') json_as_str \<noteq> Some ''None''
              then Inl ''node_tx must have u32 locktime and app=None'' else Inr ()))))
      | _ \<Rightarrow> Inl ''node_tx must be an object'')"

text \<open>The address and value of an output; None drops the output from the list.\<close>

fun bytes_of_json :: "json list \<Rightarrow> bytes option" where
  "bytes_of_json [] = Some []"
| "bytes_of_json (b # bs) =
     (case json_as_u64 b of
        None \<Rightarrow> None
      | Some n \<Rightarrow> if n \<le> 255 then map_option (\<lambda>rest. ucast n # rest) (bytes_of_json bs) else None)"

definition tx_output :: "(bytes \<Rightarrow> string) \<Rightarrow> json \<Rightarrow> (string \<times> u128) option" where
  "tx_output hexe output =
     Option.bind (Option.bind (Option.bind (json_get output ''script_pubkey'') json_as_array) bytes_of_json)
       (\<lambda>address. map_option (\<lambda>value. (hexe address, ucast value))
          (Option.bind (json_get output ''value'') json_as_u64))"

lemma strip_prefix_Some: "strip_prefix p s = Some r \<longleftrightarrow> s = p @ r"
proof -
  have "take (length p) s = p \<and> drop (length p) s = r \<longleftrightarrow> s = p @ r"
    by (metis append_eq_conv_conj)
  then show ?thesis by (auto simp: strip_prefix_def)
qed

function trim_start_0x :: "string \<Rightarrow> string" where
  "trim_start_0x s = (case strip_prefix ''0x'' s of None \<Rightarrow> s | Some rest \<Rightarrow> trim_start_0x rest)"
  by pat_completeness auto
termination
  by (relation "measure length") (auto simp: strip_prefix_Some)

declare trim_start_0x.simps [simp del]

fun position :: "('a \<Rightarrow> bool) \<Rightarrow> 'a list \<Rightarrow> nat option" where
  "position P [] = None"
| "position P (x # xs) = (if P x then Some 0 else map_option Suc (position P xs))"

definition swap_remove :: "'a list \<Rightarrow> nat \<Rightarrow> 'a list" where
  "swap_remove xs i =
     (if Suc i = length xs then butlast xs else (butlast xs)[i := last xs])"

definition output_matches :: "sign_payout_output \<Rightarrow> string \<times> u128 \<Rightarrow> bool" where
  "output_matches expected actual \<longleftrightarrow>
     eq_ignore_ascii_case (fst actual) (trim_start_0x (so_address expected))
     \<and> snd actual = so_amount_base_units expected"

fun match_outputs :: "(string \<times> u128) list \<Rightarrow> sign_payout_output list \<Rightarrow> bool" where
  "match_outputs available [] = True"
| "match_outputs available (expected # rest) =
     (case position (output_matches expected) available of
        None \<Rightarrow> False
      | Some i \<Rightarrow> match_outputs (swap_remove available i) rest)"

definition node_tx_outputs_match_request :: "(bytes \<Rightarrow> string) \<Rightarrow> json \<Rightarrow> sign_payout_request \<Rightarrow> bool" where
  "node_tx_outputs_match_request hexe tx request =
     (case Option.bind (json_get tx ''outputs'') json_as_array of
        None \<Rightarrow> False
      | Some outputs \<Rightarrow> match_outputs (List.map_filter (tx_output hexe) outputs) (sq_outputs request))"

definition validate_signed_payout_response ::
  "(bytes \<Rightarrow> string) \<Rightarrow> signed_payout_response \<Rightarrow> sign_payout_request \<Rightarrow> string + signed_payout_validation" where
  "validate_signed_payout_response hexe response request =
     (let txid = coalesce (strip_prefix ''0x'' (sd_txid response)) (sd_txid response) in
      if length txid \<noteq> 64 \<or> \<not> list_all is_ascii_hexdigit txid then Inl ''txid must be 64 hex chars''
      else case sd_node_tx response of
          Some tx \<Rightarrow>
            result_bind (validate_official_node_tx tx) (\<lambda>_.
              if \<not> node_tx_outputs_match_request hexe tx request
              then Inl ''node_tx outputs do not match payout request''
              else Inr \<lparr>sv_node_tx_present = True, sv_node_tx_valid = True,
                        sv_node_tx_outputs_match_request = True\<rparr>)
        | None \<Rightarrow>
            let raw_tx_hex = coalesce (sd_raw_tx_hex response) [] in
            if raw_tx_hex = [] then Inl ''signed response must include node_tx or raw_tx_hex''
            else if odd (length raw_tx_hex) \<or> \<not> list_all is_ascii_hexdigit raw_tx_hex
            then Inl ''raw_tx_hex must be even-length hex''
            else Inr \<lparr>sv_node_tx_present = False, sv_node_tx_valid = False,
                      sv_node_tx_outputs_match_request = False\<rparr>)"

definition node_tx_storage_prefix :: string where
  "node_tx_storage_prefix = ''csd-node-json-v1:''"

definition signed_payout_storage_value ::
  "(json \<Rightarrow> string) \<Rightarrow> signed_payout_response \<Rightarrow> string + string" where
  "signed_payout_storage_value json_text response =
     (case sd_node_tx response of
        Some tx \<Rightarrow> Inr (node_tx_storage_prefix @ json_text tx)
      | None \<Rightarrow>
          (case sd_raw_tx_hex response of
             Some raw \<Rightarrow> if raw \<noteq> [] then Inr raw else Inl ''signed response has no transaction payload''
           | None \<Rightarrow> Inl ''signed response has no transaction payload''))"

record submit_tx_response =
  st_ok :: bool
  st_txid :: "string option"
  st_extra :: json

text \<open>\<open>str::contains\<close>\<close>

fun contains_text :: "string \<Rightarrow> string \<Rightarrow> bool" where
  "contains_text needle [] = (needle = [])"
| "contains_text needle (c # cs) =
     (take (length needle) (c # cs) = needle \<or> contains_text needle cs)"

definition possible_prior_submit :: "submit_tx_response \<Rightarrow> string option \<Rightarrow> bool" where
  "possible_prior_submit response expected_txid =
     (case (st_txid response, expected_txid) of
        (Some response_txid, Some expected) \<Rightarrow>
          let strip = (\<lambda>s. coalesce (strip_prefix ''0x'' s) s);
              txid_matches = eq_ignore_ascii_case (strip response_txid) (strip expected);
              already_present = (case Option.bind (json_get (st_extra response) ''err'') json_as_str of
                  Some e \<Rightarrow> contains_text ''already present'' (to_ascii_lowercase e) | None \<Rightarrow> False)
          in \<not> st_ok response \<and> txid_matches \<and> already_present
      | _ \<Rightarrow> False)"

section \<open>Matching outputs\<close>

lemma position_Some:
  "position P xs = Some i \<Longrightarrow> i < length xs \<and> P (xs ! i)"
  by (induction xs arbitrary: i) (auto split: if_splits)

lemma position_None: "position P xs = None \<longleftrightarrow> (\<forall>x \<in> set xs. \<not> P x)"
  by (induction xs) auto

lemma mset_swap_remove:
  assumes "i < length xs"
  shows "mset (swap_remove xs i) = mset xs - {#xs ! i#}"
proof -
  have xs: "xs = butlast xs @ [last xs]" using assms by (cases xs) auto
  show ?thesis
  proof (cases "Suc i = length xs")
    case True
    then have "xs ! i = last xs" by (simp add: last_conv_nth assms flip: True) (metis True diff_Suc_1 last_conv_nth list.size(3) nat.distinct(1))
    moreover have "mset xs = add_mset (last xs) (mset (butlast xs))"
      by (subst xs) simp
    ultimately show ?thesis using True by (simp add: swap_remove_def)
  next
    case False
    then have i: "i < length (butlast xs)" using assms by simp
    then have "xs ! i = butlast xs ! i" by (simp add: nth_butlast)
    moreover have "mset xs = add_mset (last xs) (mset (butlast xs))"
      by (subst xs) simp
    ultimately show ?thesis using False i
      by (simp add: swap_remove_def mset_update)
  qed
qed

text \<open>What matching compares: the address in lower case and without prefix, and the amount.\<close>

definition output_key :: "string \<times> u128 \<Rightarrow> string \<times> u128" where
  "output_key actual = (to_ascii_lowercase (fst actual), snd actual)"

definition request_key :: "sign_payout_output \<Rightarrow> string \<times> u128" where
  "request_key expected =
     (to_ascii_lowercase (trim_start_0x (so_address expected)), so_amount_base_units expected)"

lemma output_matches_key: "output_matches e a \<longleftrightarrow> output_key a = request_key e"
  by (auto simp: output_matches_def output_key_def request_key_def eq_ignore_ascii_case_def)

lemma match_outputs_iff:
  "match_outputs available es \<longleftrightarrow> mset (map request_key es) \<subseteq># mset (map output_key available)"
proof (induction es arbitrary: available)
  case Nil
  then show ?case by simp
next
  case (Cons e es)
  show ?case
  proof (cases "position (output_matches e) available")
    case None
    then have "request_key e \<notin> set (map output_key available)"
      by (auto simp: position_None output_matches_key)
    then have "\<not> mset (map request_key (e # es)) \<subseteq># mset (map output_key available)"
      by (auto dest!: mset_subset_eqD [where x = "request_key e"])
    with None show ?thesis by simp
  next
    case (Some i)
    have i: "i < length available" "output_key (available ! i) = request_key e"
      using position_Some [OF Some] by (auto simp: output_matches_key)
    have keys: "mset (map output_key (swap_remove available i)) = mset (map output_key available) - {#request_key e#}"
      using i by (simp add: mset_swap_remove image_mset_Diff)
    have "request_key e \<in># mset (map output_key available)"
      using i by (metis in_multiset_in_set length_map nth_map nth_mem)
    then show ?thesis
      using Some Cons.IH [of "swap_remove available i"] keys
      by (simp add: insert_subset_eq_iff)
  qed
qed

section \<open>Who may ask for a signature\<close>

text \<open>A fold of \<open>OR\<close> is zero when every term is.\<close>

lemma foldl_or_zero: "foldl (\<lambda>d i. d OR f i) d xs = 0 \<longleftrightarrow> d = 0 \<and> (\<forall>i \<in> set xs. f i = 0)" for d :: nat
  by (induction xs arbitrary: d) (auto simp: or_eq_0_iff)

lemma xor_eq_zero:
  "(a :: nat) XOR b = 0 \<longleftrightarrow> a = b" "(v :: 'a::len word) XOR w = 0 \<longleftrightarrow> v = w"
  by (metis xor.assoc xor.comm_neutral xor_self_eq xor.left_neutral)+

lemma constant_time_eq_iff: "constant_time_eq left right \<longleftrightarrow> left = right"
proof -
  have eq: "constant_time_eq left right \<longleftrightarrow> length left = length right
      \<and> (\<forall>i \<in> {0..<max (length left) (length right)}.
          (if i < length left then left ! i else 0) = (if i < length right then right ! i else 0))"
    by (simp only: constant_time_eq_def Let_def foldl_or_zero unsigned_eq_0_iff xor_eq_zero set_upt)
  show ?thesis
  proof
    assume "constant_time_eq left right"
    then have same: "length left = length right \<and> (\<forall>i \<in> {0..<max (length left) (length right)}.
        (if i < length left then left ! i else 0) = (if i < length right then right ! i else 0))"
      by (rule eq [THEN iffD1])
    have "left ! i = right ! i" if "i < length left" for i
      using bspec [OF same [THEN conjunct2], of i] that same by simp
    with same show "left = right" by (intro nth_equalityI) simp_all
  qed (use eq in simp)
qed

lemma take_drop_eq: "length p = n \<Longrightarrow> take n v = p \<and> drop n v = e \<longleftrightarrow> v = p @ e"
  by (metis append_eq_conv_conj)

lemma authorize_signer_iff:
  "authorize_signer header token = Inr () \<longleftrightarrow>
     (case token of None \<Rightarrow> True | Some expected \<Rightarrow> header = Some (map of_char ''Bearer '' @ expected))"
proof (cases token)
  case (Some expected)
  have "take 7 v = map of_char ''Bearer '' \<and> drop 7 v = expected \<longleftrightarrow> v = map of_char ''Bearer '' @ expected"
    for v :: bytes
    by (rule take_drop_eq) simp
  with Some show ?thesis
    by (cases header) (auto simp: authorize_signer_def constant_time_eq_iff simp del: list.map)
qed (simp add: authorize_signer_def)

text \<open>The fold over the outputs: every output is sound and the exact sum is the total, within its type.\<close>

lemma sum_outputs_Inr:
  "sum_outputs acc outputs = Inr total_units \<longleftrightarrow>
     (\<forall>output \<in> set outputs. is_addr20_hex (so_address output) \<and> so_amount_base_units output \<noteq> 0)
     \<and> unat acc + sum_list (map (unat \<circ> so_amount_base_units) outputs) = unat total_units"
proof (induction outputs arbitrary: acc)
  case (Cons paid outputs)
  show ?case
  proof (cases "unat acc + unat (so_amount_base_units paid) < 2 ^ 128")
    case True
    then have "unat (acc + so_amount_base_units paid) = unat acc + unat (so_amount_base_units paid)"
      by (simp add: unat_word_ariths(1))
    then show ?thesis using True Cons [of "acc + so_amount_base_units paid"] by auto
  next
    case False
    have "unat total_units < 2 ^ 128" using unsigned_less [of total_units] by simp
    with False have "unat acc + (unat (so_amount_base_units paid) + n) \<noteq> unat total_units" for n by linarith
    then show ?thesis using False by simp
  qed
qed (auto simp: word_unat_eq_iff)


section \<open>Decimal text\<close>

lemma digit_value_10: "is_ascii_digit c \<Longrightarrow> digit_value 10 c = Some (of_char c - 48)"
  by (auto simp: is_ascii_digit_def digit_value_def Let_def)

lemma digits_value_acc:
  "foldl (\<lambda>a c. 10 * a + (of_char c - 48)) acc s = 10 ^ length s * acc + digits_value s"
proof (induction s rule: rev_induct)
  case (snoc c s)
  then show ?case by (simp add: digits_value_def algebra_simps)
qed (simp add: digits_value_def)

lemma digits_value_Nil [simp]: "digits_value [] = 0"
  by (simp add: digits_value_def)

lemma digits_value_Cons: "digits_value (c # s) = 10 ^ length s * (of_char c - 48) + digits_value s"
  using digits_value_acc [of "of_char c - 48" s] by (simp add: digits_value_def)

lemma digits_value_append: "digits_value (s @ t) = 10 ^ length t * digits_value s + digits_value t"
  using digits_value_acc [of "digits_value s" t] by (simp add: digits_value_def)

lemma parse_digits_decimal:
  "list_all is_ascii_digit s \<Longrightarrow> acc < bound \<Longrightarrow> parse_digits 10 bound acc s
    = (if 10 ^ length s * acc + digits_value s < bound then Some (10 ^ length s * acc + digits_value s) else None)"
proof (induction s arbitrary: acc)
  case (Cons c s)
  let ?a = "acc * 10 + (of_char c - 48)"
  have "?a \<le> 10 ^ length s * ?a" by simp
  then have "?a < bound" if "10 ^ length s * ?a + digits_value s < bound" using that by linarith
  moreover have "10 ^ length (c # s) * acc + digits_value (c # s) = 10 ^ length s * ?a + digits_value s"
    by (simp add: digits_value_Cons algebra_simps)
  ultimately show ?case using Cons by (auto simp: digit_value_10)
qed simp

lemma parse_uint_decimal:
  assumes "list_all is_ascii_digit s" and "s \<noteq> []" and "0 < bound"
  shows "parse_uint 10 bound s = (if digits_value s < bound then Some (digits_value s) else None)"
proof -
  obtain c cs where s: "s = c # cs" using assms(2) by (cases s) auto
  then have "is_ascii_digit c" using assms(1) by simp
  then have "c \<noteq> CHR ''+''" "c \<noteq> CHR ''-''" by (auto simp: is_ascii_digit_def Let_def)
  then have "parse_uint 10 bound s = parse_digits 10 bound 0 s" by (simp add: parse_uint_def s)
  then show ?thesis using parse_digits_decimal [OF assms(1,3)] by simp
qed

lemma split_char_none: "c \<notin> set s \<Longrightarrow> split_char c s = [s]"
  by (induction s) auto

lemma split_char_append: "c \<notin> set s \<Longrightarrow> split_char c (s @ c # t) = s # split_char c t"
  by (induction s) auto

text \<open>Text whose ends are visible characters has nothing to trim.\<close>

definition visible :: "char \<Rightarrow> bool" where
  "visible c \<longleftrightarrow> (33 :: nat) \<le> of_char c \<and> (of_char c :: nat) < 128"

lemma ws_prefix_visible: "33 \<le> a \<Longrightarrow> a < 128 \<Longrightarrow> ws_prefix (a # xs) = 0"
  by (cases "a # xs" rule: ws_prefix.cases) auto

lemma ws_suffix_visible: "33 \<le> a \<Longrightarrow> a < 128 \<Longrightarrow> ws_suffix (a # xs) = 0"
  by (cases "a # xs" rule: ws_suffix.cases) auto

lemma trim_visible:
  assumes "s \<noteq> []" and "visible (hd s)" and "visible (last s)"
  shows "trim s = s"
proof -
  obtain c cs where s: "s = c # cs" using assms(1) by (cases s) auto
  have "strip_while ws_prefix s = s"
    using assms(2) by (subst strip_while.simps) (simp add: s visible_def ws_prefix_visible)
  moreover obtain d ds where r: "rev s = d # ds" using assms(1) by (cases "rev s") auto
  moreover from r have "last s = d" by (metis hd_rev list.sel(1))
  then have "strip_while ws_suffix (d # ds) = d # ds"
    using assms(3) by (subst strip_while.simps) (simp add: visible_def ws_suffix_visible)
  ultimately show ?thesis by (simp add: trim_def flip: r)
qed

lemma digit_visible: "is_ascii_digit c \<Longrightarrow> visible c"
  by (auto simp: is_ascii_digit_def visible_def Let_def)

lemma pad_right_digits [simp]: "list_all is_ascii_digit f \<Longrightarrow> list_all is_ascii_digit (pad_right n f)"
  by (auto simp: pad_right_def list_all_iff is_ascii_digit_def)

text \<open>The value of an amount that is written with digits, a point and at most eight digits.\<close>

lemma parse_csd_decimal:
  assumes w: "list_all is_ascii_digit w" "w \<noteq> []" and f: "list_all is_ascii_digit f" "length f \<le> 8"
    and fits: "digits_value w * base_units_per_csd < 2 ^ 128"
  shows "parse_csd_base_units (w @ ''.'' @ f) =
    Inr (word_of_nat (digits_value w * base_units_per_csd + digits_value (pad_right 8 f)))"
proof -
  have point: "CHR ''.'' \<notin> set w" "CHR ''.'' \<notin> set f"
    using w f by (auto simp: list_all_iff is_ascii_digit_def Let_def)
  have "visible (hd (w @ ''.'' @ f))" using w by (cases w) (auto intro: digit_visible)
  moreover have "visible (last (w @ ''.'' @ f))"
    using f by (cases f rule: rev_cases) (auto simp: visible_def is_ascii_digit_def Let_def)
  ultimately have t: "trim (w @ ''.'' @ f) = w @ ''.'' @ f" using w(2) by (intro trim_visible) auto
  have parts: "split_char (CHR ''.'') (w @ ''.'' @ f) = [w, f]"
    using split_char_append [OF point(1), of f] split_char_none [OF point(2)] by simp
  have pad: "pad_right 8 f \<noteq> []" "length (pad_right 8 f) = 8"
    using f(2) by (auto simp: pad_right_def)
  have small: "digits_value s < 10 ^ length s" if "list_all is_ascii_digit s" for s
    using that
  proof (induction s)
    case (Cons c s)
    then have "of_char c - (48 :: nat) \<le> 9" by (auto simp: is_ascii_digit_def Let_def)
    then have "10 ^ length s * (of_char c - 48) + digits_value s < (10 ^ length s * 9 + 10 ^ length s :: nat)"
      using Cons by (intro add_le_less_mono mult_le_mono2) simp_all
    then show ?case by (simp add: digits_value_Cons)
  qed simp
  have wv: "digits_value w < 2 ^ 128" using fits by (simp add: base_units_per_csd_def)
  have fv: "digits_value (pad_right 8 f) < 2 ^ 128"
    using small [OF pad_right_digits [OF f(1)], of 8] pad(2) by simp
  have mult: "checked_mul (word_of_nat (digits_value w)) (word_of_nat base_units_per_csd :: u128)
      = Some (word_of_nat (digits_value w * base_units_per_csd))"
    using wv fits by (simp add: checked_mul_def base_units_per_csd_def unsigned_of_nat take_bit_nat_eq_self)
  show ?thesis
    unfolding parse_csd_base_units_def Let_def t parts
    using w f(1) f(2) wv fv pad(1) mult
    by (simp add: parse_uint_decimal)
qed

text \<open>
  The overflow of the final addition: an amount just above what an unsigned 128-bit number of base
  units can hold is read as a small one.
\<close>

lemma parse_csd_wraps:
  "parse_csd_base_units ''3402823669209384634633746074317.99999999'' = Inr 31788543"
proof -
  have "parse_csd_base_units (''3402823669209384634633746074317'' @ ''.'' @ ''99999999'') =
    Inr (word_of_nat (digits_value ''3402823669209384634633746074317'' * base_units_per_csd
                       + digits_value (pad_right 8 ''99999999'')))"
    by (rule parse_csd_decimal) (simp_all add: is_ascii_digit_def base_units_per_csd_def digits_value_def)
  then show ?thesis by (simp add: base_units_per_csd_def digits_value_def pad_right_def)
qed

lemma decimal_digit: "d < 10 \<Longrightarrow> is_ascii_digit (char_of (48 + d)) \<and> (of_char (char_of (48 + d)) :: nat) = 48 + d"
  by (simp add: is_ascii_digit_def Let_def)

lemma decimal_digits_props:
  "list_all is_ascii_digit (decimal_digits n) \<and> decimal_digits n \<noteq> [] \<and> digits_value (decimal_digits n) = n"
proof (induction n rule: decimal_digits.induct)
  case (1 n)
  show ?case
  proof (cases "n < 10")
    case True
    then show ?thesis
      using decimal_digit [of n] by (subst (1 2 3) decimal_digits.simps) (simp add: digits_value_Cons)
  next
    case False
    then have IH: "list_all is_ascii_digit (decimal_digits (n div 10))" "digits_value (decimal_digits (n div 10)) = n div 10"
      using 1 by auto
    have d: "n mod 10 < 10" by simp
    then show ?thesis
      using False IH decimal_digit [OF d]
      by (subst (1 2 3) decimal_digits.simps) (simp add: digits_value_append digits_value_Cons)
  qed
qed

lemma length_decimal_digits: "n < 10 ^ k \<Longrightarrow> 0 < k \<Longrightarrow> length (decimal_digits n) \<le> k"
proof (induction n arbitrary: k rule: decimal_digits.induct)
  case (1 n)
  show ?case
  proof (cases "n < 10")
    case True
    with 1 show ?thesis by (subst decimal_digits.simps) simp
  next
    case False
    then obtain j where k: "k = Suc j" "0 < j" using 1 by (cases k; cases "k - 1") auto
    then have "n div 10 < 10 ^ j" using 1 by (simp add: div_less_iff_less_mult mult.commute)
    with 1 False k show ?thesis by (subst decimal_digits.simps) simp
  qed
qed

lemma digits_value_zeros [simp]: "digits_value (replicate k (CHR ''0'') @ s) = digits_value s"
  by (induction k) (simp_all add: digits_value_Cons)

text \<open>
  C36. Amounts keep their value through text: what \<open>format_unsigned_csd\<close> prints for an amount of
  base units, \<open>parse_csd_base_units\<close> reads back, for every amount of the type.
\<close>

theorem csd_amount_roundtrip: "parse_csd_base_units (format_unsigned_csd amount) = Inr amount"
proof -
  let ?b = "word_of_nat base_units_per_csd :: u128"
  let ?w = "decimal_digits (unat (amount div ?b))"
  let ?m = "decimal_digits (unat (amount mod ?b))"
  have b: "unat ?b = base_units_per_csd" by (simp add: base_units_per_csd_def)
  have m: "unat (amount mod ?b) = unat amount mod base_units_per_csd"
    and d: "unat (amount div ?b) = unat amount div base_units_per_csd"
    by (simp_all add: unat_mod_distrib unat_div_distrib b)
  have len: "length ?m \<le> 8"
    unfolding m by (rule length_decimal_digits) (simp_all add: base_units_per_csd_def)
  let ?f = "pad_left 8 ?m"
  have f: "length ?f = 8" "list_all is_ascii_digit ?f" "digits_value ?f = unat amount mod base_units_per_csd"
    using len decimal_digits_props [of "unat (amount mod ?b)"] m
    by (auto simp: pad_left_def list_all_iff is_ascii_digit_def)
  then have pad: "pad_right 8 ?f = ?f" by (simp add: pad_right_def)
  have w: "list_all is_ascii_digit ?w" "?w \<noteq> []" "digits_value ?w = unat amount div base_units_per_csd"
    using decimal_digits_props [of "unat (amount div ?b)"] d by auto
  have "unat amount div base_units_per_csd * base_units_per_csd < 2 ^ LENGTH(128)"
    by (rule le_less_trans [OF _ unsigned_less [of amount, where 'a = nat]]) simp
  then have fits: "digits_value ?w * base_units_per_csd < 2 ^ 128" unfolding w(3) by simp
  have "parse_csd_base_units (format_unsigned_csd amount)
      = Inr (word_of_nat (digits_value ?w * base_units_per_csd + digits_value (pad_right 8 ?f)))"
    unfolding format_unsigned_csd_def
    by (rule parse_csd_decimal) (use w f fits in simp_all)
  also have "\<dots> = Inr (word_of_nat (unat amount))"
    unfolding pad w(3) f(3) div_mult_mod_eq ..
  finally show ?thesis by simp
qed


section \<open>What a signature guarantees\<close>

lemma outputs_match_request:
  "node_tx_outputs_match_request hexe tx request \<longleftrightarrow>
     (\<exists>outputs. Option.bind (json_get tx ''outputs'') json_as_array = Some outputs
        \<and> mset (map request_key (sq_outputs request))
          \<subseteq># mset (map output_key (List.map_filter (tx_output hexe) outputs)))"
  by (simp add: node_tx_outputs_match_request_def match_outputs_iff split: option.split)

text \<open>
  C30. A signed transaction is taken exactly when its identifier is 32 bytes of hexadecimal text and
  either its transaction is well formed and its outputs, as a multiset of lower-case addresses with
  amounts, include every output of the request as often as the request has it, or, without one, it
  has a raw transaction of whole bytes. The greedy matching with \<open>swap_remove\<close> never misses a match.
\<close>

theorem signed_transaction_pays_request:
  "(\<exists>v. validate_signed_payout_response hexe response request = Inr v) \<longleftrightarrow>
     (let txid = coalesce (strip_prefix ''0x'' (sd_txid response)) (sd_txid response)
      in length txid = 64 \<and> list_all is_ascii_hexdigit txid)
     \<and> (case sd_node_tx response of
          Some tx \<Rightarrow> validate_official_node_tx tx = Inr ()
            \<and> (\<exists>outputs. Option.bind (json_get tx ''outputs'') json_as_array = Some outputs
                 \<and> mset (map request_key (sq_outputs request))
                   \<subseteq># mset (map output_key (List.map_filter (tx_output hexe) outputs)))
        | None \<Rightarrow> (case sd_raw_tx_hex response of
            None \<Rightarrow> False
          | Some raw \<Rightarrow> raw \<noteq> [] \<and> even (length raw) \<and> list_all is_ascii_hexdigit raw))"
proof -
  have none: "(\<exists>v. (if b then Inl e else (r :: string + signed_payout_validation)) = Inr v)
      \<longleftrightarrow> \<not> b \<and> (\<exists>v. r = Inr v)" for b e r by simp
  show ?thesis
    unfolding validate_signed_payout_response_def Let_def none outputs_match_request [symmetric]
    by (cases "sd_node_tx response"; cases "sd_raw_tx_hex response")
      (auto simp: coalesce_def result_bind_eq_Inr)
qed

text \<open>
  The two ends agree: whatever the signer service answers, the worker accepts and stores the raw
  transaction, for any encoder that writes two hexadecimal digits for a byte and any hash of 32 bytes.
\<close>

theorem signer_answer_accepted:
  assumes hexe: "\<And>bs. length (hexe bs) = 2 * length bs \<and> list_all is_ascii_hexdigit (hexe bs)"
    and sha: "\<And>bs. length (sha256 bs) = 32"
    and signed: "sign_payout sha256 hexe json_bytes header token request = Inr response"
  shows "\<exists>v raw. validate_signed_payout_response hexe response request = Inr v \<and> \<not> sv_node_tx_present v
    \<and> signed_payout_storage_value json_text response = Inr raw \<and> sd_raw_tx_hex response = Some raw"
proof -
  let ?raw = "hexe (map of_char ''csd-payout-mock-v1:'' @ json_bytes request)"
  let ?txid = "hexe (sha256 (sha256 (map of_char ?raw)))"
  have response: "response = \<lparr>sd_raw_tx_hex = Some ?raw, sd_node_tx = None, sd_txid = ?txid\<rparr>"
    using signed by (auto simp: sign_payout_def result_bind_eq_Inr Let_def)
  have txid: "length ?txid = 64" "list_all is_ascii_hexdigit ?txid"
    using hexe sha by simp_all
  have "strip_prefix ''0x'' ?txid = None"
  proof (rule ccontr)
    assume "strip_prefix ''0x'' ?txid \<noteq> None"
    then obtain r where "?txid = ''0x'' @ r" by (auto simp: strip_prefix_Some)
    then have "list_all is_ascii_hexdigit (''0x'' @ r)" using txid(2) by (simp only:)
    then show False by (simp add: is_ascii_hexdigit_def)
  qed
  moreover have "even (length ?raw)" "list_all is_ascii_hexdigit ?raw" using hexe by simp_all
  moreover have "length ?raw = 38 + 2 * length (json_bytes request)" using hexe by simp
  then have "?raw \<noteq> []" by (cases ?raw) simp_all
  ultimately show ?thesis
    using txid by (simp add: response validate_signed_payout_response_def signed_payout_storage_value_def coalesce_def)
qed

definition sample_sign_request :: sign_payout_request where
  "sample_sign_request = \<lparr>sq_batch_id = ''batch-1'', sq_total_base_units = 5,
     sq_outputs = [\<lparr>so_address = replicate 40 (CHR ''a''), so_amount_base_units = 5\<rparr>]\<rparr>"

lemma sample_sign_request_valid: "validate_sign_request sample_sign_request = Inr ()"
proof -
  have "trim ''batch-1'' = ''batch-1''" by (rule trim_visible) (simp_all add: visible_def)
  then show ?thesis
    by (simp add: validate_sign_request_def sample_sign_request_def is_addr20_hex_def is_ascii_hexdigit_def
        list_all_iff)
qed

lemma hex_digit_hexdigit: "n < 16 \<Longrightarrow> is_ascii_hexdigit (hex_digit n)"
proof -
  assume "n < 16"
  then have "n \<in> set [0..<16]" by simp
  moreover have "\<forall>n \<in> set [0..<16]. is_ascii_hexdigit (hex_digit n)" by code_simp
  ultimately show ?thesis by blast
qed

lemma hex_encode_hexdigits: "list_all is_ascii_hexdigit (hex_encode bs)"
  by (auto simp: hex_encode_def list_all_iff intro!: hex_digit_hexdigit)
    (simp add: div_less_iff_less_mult)

theorem signer_answer_accepted_witness:
  "\<exists>response v raw. sign_payout (\<lambda>_. replicate 32 7) hex_encode (\<lambda>_. [1, 2]) None None sample_sign_request = Inr response
     \<and> validate_signed_payout_response hex_encode response sample_sign_request = Inr v
     \<and> signed_payout_storage_value (\<lambda>_. []) response = Inr raw"
proof -
  obtain response where r: "sign_payout (\<lambda>_. replicate 32 7) hex_encode (\<lambda>_. [1, 2]) None None sample_sign_request = Inr response"
    by (simp add: sign_payout_def authorize_signer_def sample_sign_request_valid Let_def)
  show ?thesis
    using r signer_answer_accepted [OF _ _ r, of "\<lambda>_. []"] hex_encode_hexdigits by fastforce
qed


end
