(* ===== verification/Csd_Workers.thy ===== *)
theory Csd_Workers
  imports Csd_Payouts
begin

text \<open>
  The jobs that move the pool's money (csd-pool-workers and the operator routes of csd-pool-api):
  reconcile blocks, settle and mature rewards, reverse orphans, and create, sign, submit and reconcile
  payout batches. A job is a function on the tables of the ledger; the node, the signer, the clocks
  and the configuration answer as inputs, and an error ends a job with the transactions it has
  committed so far. The lemmas show that over any sequence of jobs the books balance.
\<close>

section \<open>Inputs\<close>

record worker_config =
  wc_fee_bps :: u16
  wc_confirm_depth :: u64
  wc_minimum_payout :: u128
  wc_max_payout_batch :: u128
  wc_max_daily_payout :: u128
  wc_manual_payout_approval :: u128

record block_status_response =
  bs_status :: string
  bs_height :: "u64 option"
  bs_confirmations :: u64
  bs_reward_base_units :: "u128 option"

record transaction_status_response =
  ts_status :: string
  ts_confirmations :: u64

datatype run_error = RunDbError db_error | RunNodeError string | MissingNodeUrl

type_synonym 'a run = "pool_db \<times> (run_error + 'a)"

text \<open>One iteration of a loop that collects outcomes, and the rest of the loop.\<close>

definition run_cons :: "'a \<Rightarrow> 'a list run \<Rightarrow> 'a list run" where
  "run_cons x r = (case r of (db, Inl e) \<Rightarrow> (db, Inl e) | (db, Inr xs) \<Rightarrow> (db, Inr (x # xs)))"

definition run_query :: "db_error + 'q \<Rightarrow> pool_db \<Rightarrow> ('q \<Rightarrow> 'a run) \<Rightarrow> 'a run" where
  "run_query q db f = (case q of Inl e \<Rightarrow> (db, Inl (RunDbError e)) | Inr x \<Rightarrow> f x)"

definition run_map :: "('a \<Rightarrow> 'b) \<Rightarrow> 'a run \<Rightarrow> 'b run" where
  "run_map f r = (case r of (db, Inl e) \<Rightarrow> (db, Inl e) | (db, Inr x) \<Rightarrow> (db, Inr (f x)))"

section \<open>Blocks\<close>

definition normalize_block_status :: "string \<Rightarrow> u64 \<Rightarrow> u64 \<Rightarrow> string" where
  "normalize_block_status status confirmations required =
     (if status = ''orphan'' \<or> status = ''orphaned'' then ''orphaned''
      else if required \<le> confirmations then ''confirmed''
      else if 0 < confirmations then ''immature''
      else if status = ''seen'' \<or> status = ''seen_on_chain'' then ''seen_on_chain''
      else ''submitted'')"

definition block_update_from_status ::
  "string \<Rightarrow> block_status_response \<Rightarrow> u64 \<Rightarrow> block_status_update" where
  "block_update_from_status hash_hex status required =
     \<lparr>bu_hash_hex = hash_hex,
      bu_status = normalize_block_status (bs_status status) (bs_confirmations status) required,
      bu_height = bs_height status, bu_confirmations = bs_confirmations status,
      bu_reward_base_units = coalesce (bs_reward_base_units status) 0\<rparr>"

record reconciled_block =
  rk_update :: block_status_update
  rk_updated :: bool

fun reconcile_block_list ::
  "nat \<Rightarrow> u64 \<Rightarrow> (string \<Rightarrow> string + block_status_response) \<Rightarrow> block_row list \<Rightarrow> pool_db
    \<Rightarrow> reconciled_block list run" where
  "reconcile_block_list now required node [] db = (db, Inr [])"
| "reconcile_block_list now required node (b # bs) db =
     (case node (bk_hash_hex b) of
        Inl e \<Rightarrow> (db, Inl (RunNodeError e))
      | Inr status \<Rightarrow>
          let update = block_update_from_status (bk_hash_hex b) status required in
          run_query (update_block_status now update db) db (\<lambda>(db', updated).
            run_cons \<lparr>rk_update = update, rk_updated = updated\<rparr>
              (reconcile_block_list now required node bs db')))"

definition reconcile_blocks ::
  "nat \<Rightarrow> worker_config \<Rightarrow> (string \<Rightarrow> string + block_status_response) \<Rightarrow> pool_db
    \<Rightarrow> reconciled_block list run" where
  "reconcile_blocks now cfg node db =
     reconcile_block_list now (wc_confirm_depth cfg) node (list_blocks_to_reconcile 100 db) db"

section \<open>Rewards\<close>

record settled_reward_block =
  sr_block_hash :: string
  sr_job_id :: string
  sr_reward_base_units :: u128
  sr_share_count :: nat
  sr_result :: pplns_result
  sr_ledger_entries :: "ledger_entry list"

datatype settle_outcome = Settled settled_reward_block | Skipped string accounting_error

definition settle_reward_block ::
  "reward_block \<Rightarrow> u16 \<Rightarrow> share_weight list \<Rightarrow> accounting_error + settled_reward_block" where
  "settle_reward_block block fee_bps shares =
     result_bind (allocate_pplns (rb_reward_base_units block) fee_bps shares) (\<lambda>result.
       Inr \<lparr>sr_block_hash = rb_hash_hex block, sr_job_id = rb_job_id block,
            sr_reward_base_units = rb_reward_base_units block, sr_share_count = length shares,
            sr_result = result,
            sr_ledger_entries = reward_ledger_entries (rb_hash_hex block) result\<rparr>)"

text \<open>The weights of a job's shares are a query on tables that are not modelled; it answers per job.\<close>

fun settle_blocks ::
  "u16 \<Rightarrow> (string \<Rightarrow> db_error + share_weight list) \<Rightarrow> reward_block list \<Rightarrow> pool_db \<Rightarrow> settle_outcome list run" where
  "settle_blocks fee_bps weights [] db = (db, Inr [])"
| "settle_blocks fee_bps weights (b # bs) db =
     run_query (weights (rb_job_id b)) db (\<lambda>shares.
       case settle_reward_block b fee_bps shares of
         Inr settlement \<Rightarrow>
           run_cons (Settled settlement)
             (settle_blocks fee_bps weights bs (append_ledger_entries (sr_ledger_entries settlement) db))
       | Inl err \<Rightarrow>
           run_cons (Skipped (rb_hash_hex b) err) (settle_blocks fee_bps weights bs db))"

definition settle_rewards ::
  "worker_config \<Rightarrow> (string \<Rightarrow> db_error + share_weight list) \<Rightarrow> pool_db \<Rightarrow> settle_outcome list run" where
  "settle_rewards cfg weights db =
     run_query (list_confirmed_unsettled_blocks 100 db) db (\<lambda>blocks.
       settle_blocks (wc_fee_bps cfg) weights blocks db)"

record ledger_run =
  lg_count :: nat
  lg_total_base_units :: u128
  lg_ledger_entries :: "ledger_entry list"

definition mature_rewards :: "worker_config \<Rightarrow> pool_db \<Rightarrow> ledger_run run" where
  "mature_rewards cfg db =
     run_query (list_mature_reward_entries (wc_confirm_depth cfg) 1000 db) db (\<lambda>entries.
       (append_ledger_entries entries db,
        Inr \<lparr>lg_count = length entries,
             lg_total_base_units = sum_list (map le_amount_base_units
               (filter (\<lambda>e. 0 < sint (le_amount_base_units e)) entries)),
             lg_ledger_entries = entries\<rparr>))"

definition reverse_orphans :: "pool_db \<Rightarrow> ledger_run run" where
  "reverse_orphans db =
     run_query (list_orphan_reversal_entries 1000 db) db (\<lambda>entries.
       (append_ledger_entries entries db,
        Inr \<lparr>lg_count = length entries,
             lg_total_base_units = sum_list (map (\<lambda>e. - le_amount_base_units e)
               (filter (\<lambda>e. sint (le_amount_base_units e) < 0) entries)),
             lg_ledger_entries = entries\<rparr>))"

section \<open>Creating payouts\<close>

definition audit :: "string \<Rightarrow> string \<Rightarrow> string \<Rightarrow> json \<Rightarrow> pool_db \<Rightarrow> pool_db" where
  "audit batch_id actor action details =
     append_payout_audit_event \<lparr>pa_batch_id = batch_id, pa_actor = actor, pa_action = action,
       pa_details = details\<rparr>"

definition u128_text :: "u128 \<Rightarrow> string" where
  "u128_text n = decimal_digits (unat n)"

definition payout_batch_id :: "nat \<Rightarrow> string" where
  "payout_batch_id ts_millis = ''payout-'' @ decimal_digits ts_millis"

record create_payouts_run =
  cp_daily_payout_used :: u128
  cp_payouts_enabled :: bool
  cp_created :: bool
  cp_selected_recipients :: nat
  cp_total_base_units :: u128
  cp_batch :: "payout_batch_draft option"
  cp_skipped_reason :: "string option"

definition skipped_payouts :: "u128 \<Rightarrow> nat \<Rightarrow> u128 \<Rightarrow> string \<Rightarrow> create_payouts_run" where
  "skipped_payouts used recipients total_units reason =
     \<lparr>cp_daily_payout_used = used, cp_payouts_enabled = True, cp_created = False,
      cp_selected_recipients = recipients, cp_total_base_units = total_units, cp_batch = None,
      cp_skipped_reason = Some reason\<rparr>"

text \<open>A batch above the approval limit: it is locked, and waits for an operator.\<close>

definition create_for_approval ::
  "nat \<Rightarrow> worker_config \<Rightarrow> u128 \<Rightarrow> payout_batch_draft \<Rightarrow> pool_db \<Rightarrow> create_payouts_run run" where
  "create_for_approval now cfg used draft db =
     run_query (create_locked_payout_batch_with_status now draft ''needs_approval'' db) db (\<lambda>(db', created).
       (if created
        then audit (pd_batch_id draft) ''worker:create-payouts'' ''needs_approval'' (JObject
          [(''manual_payout_approval_base_units'', JString (u128_text (wc_manual_payout_approval cfg))),
           (''total_base_units'', JString (u128_text (pd_total_base_units draft)))]) db'
        else db',
        Inr \<lparr>cp_daily_payout_used = used, cp_payouts_enabled = True, cp_created = created,
             cp_selected_recipients = length (pd_recipients draft),
             cp_total_base_units = pd_total_base_units draft,
             cp_batch = (if created then Some draft else None),
             cp_skipped_reason = Some ''manual payout approval required before signing''\<rparr>))"

definition create_for_signing ::
  "nat \<Rightarrow> u128 \<Rightarrow> payout_batch_draft \<Rightarrow> pool_db \<Rightarrow> create_payouts_run run" where
  "create_for_signing now used draft db =
     run_query (create_locked_payout_batch now draft db) db (\<lambda>(db', created).
       (if created
        then audit (pd_batch_id draft) ''worker:create-payouts'' ''create'' (JObject
          [(''recipient_count'', JPos (word_of_nat (length (pd_recipients draft)))),
           (''total_base_units'', JString (u128_text (pd_total_base_units draft)))]) db'
        else db',
        Inr \<lparr>cp_daily_payout_used = used, cp_payouts_enabled = True, cp_created = created,
             cp_selected_recipients = length (pd_recipients draft),
             cp_total_base_units = pd_total_base_units draft, cp_batch = Some draft,
             cp_skipped_reason = None\<rparr>))"

text \<open>The clock of the database, its midnight, and the clock of the batch's name.\<close>

record payout_clock =
  pk_now :: nat
  pk_midnight :: nat
  pk_millis :: nat

definition create_payouts :: "payout_clock \<Rightarrow> worker_config \<Rightarrow> pool_db \<Rightarrow> create_payouts_run run" where
  "create_payouts clk cfg db =
     run_query (active_payout_total_today (pk_midnight clk) db) db (\<lambda>used.
       if \<not> payouts_enabled db
       then (db, Inr \<lparr>cp_daily_payout_used = used, cp_payouts_enabled = False, cp_created = False,
                     cp_selected_recipients = 0, cp_total_base_units = 0, cp_batch = None,
                     cp_skipped_reason = Some ''payouts paused''\<rparr>)
       else run_query (list_payable_balances (wc_minimum_payout cfg) 1000 db) db (\<lambda>balances.
         let selection = select_payouts balances (wc_minimum_payout cfg) 100;
             n = length (ps_recipients selection); total_units = ps_total_base_units selection in
         if ps_recipients selection = []
         then (db, Inr (skipped_payouts used 0 0 ''no payable balances above threshold''))
         else if wc_max_payout_batch cfg < total_units
         then (db, Inr (skipped_payouts used n total_units ''payout batch exceeds configured cap''))
         else if wc_max_daily_payout cfg < sat_add used total_units
         then (db, Inr (skipped_payouts used n total_units ''payout batch exceeds daily cap''))
         else let draft = make_payout_batch_draft (payout_batch_id (pk_millis clk)) selection in
           if wc_manual_payout_approval cfg < total_units
           then create_for_approval (pk_now clk) cfg used draft db
           else create_for_signing (pk_now clk) used draft db))"

record payout_preview_run =
  pv_payouts_enabled :: bool
  pv_daily_used :: u128
  pv_daily_remaining :: u128
  pv_recipients :: "payout_recipient list"
  pv_total_base_units :: u128
  pv_would_create_batch :: bool
  pv_cap_exceeded :: bool
  pv_daily_cap_exceeded :: bool
  pv_manual_approval_required :: bool

definition payout_preview :: "nat \<Rightarrow> worker_config \<Rightarrow> pool_db \<Rightarrow> payout_preview_run run" where
  "payout_preview midnight cfg db =
     run_query (list_payable_balances (wc_minimum_payout cfg) 1000 db) db (\<lambda>balances.
     run_query (active_payout_total_today midnight db) db (\<lambda>used.
       let selection = select_payouts balances (wc_minimum_payout cfg) 100;
           total_units = ps_total_base_units selection;
           cap_exceeded = (wc_max_payout_batch cfg < total_units);
           daily_cap_exceeded = (wc_max_daily_payout cfg < sat_add used total_units);
           manual = (wc_manual_payout_approval cfg < total_units)
       in (db, Inr \<lparr>pv_payouts_enabled = payouts_enabled db, pv_daily_used = used,
            pv_daily_remaining = sat_sub (wc_max_daily_payout cfg) used,
            pv_recipients = ps_recipients selection, pv_total_base_units = total_units,
            pv_would_create_batch = (ps_recipients selection \<noteq> [] \<and> \<not> cap_exceeded
              \<and> \<not> daily_cap_exceeded \<and> \<not> manual),
            pv_cap_exceeded = cap_exceeded, pv_daily_cap_exceeded = daily_cap_exceeded,
            pv_manual_approval_required = manual\<rparr>)))"

section \<open>Signing, submitting and reconciling payouts\<close>

record payout_outcome =
  oc_batch_id :: string
  oc_status :: string
  oc_txid :: "string option"
  oc_confirmations :: u64
  oc_updated :: bool
  oc_reason :: "string option"

definition reason_json :: "string \<Rightarrow> json" where
  "reason_json reason = JObject [(''reason'', JString reason)]"

text \<open>The branches that give a batch up: neither answer of the two statements is looked at.\<close>

definition fail_batch :: "string \<Rightarrow> json \<Rightarrow> payout_batch_record \<Rightarrow> string \<Rightarrow> pool_db \<Rightarrow> pool_db" where
  "fail_batch actor details batch reason db =
     audit (pr_batch_id batch) actor ''fail'' details
       (fst (unlock_failed_payout batch (fst (mark_payout_failed (pr_batch_id batch) reason db))))"

definition failed_outcome :: "payout_batch_record \<Rightarrow> string option \<Rightarrow> string \<Rightarrow> payout_outcome" where
  "failed_outcome batch txid reason =
     \<lparr>oc_batch_id = pr_batch_id batch, oc_status = ''failed'', oc_txid = txid, oc_confirmations = 0,
      oc_updated = True, oc_reason = Some reason\<rparr>"

definition sign_batch ::
  "(bytes \<Rightarrow> string) \<Rightarrow> (json \<Rightarrow> string) \<Rightarrow> (sign_payout_request \<Rightarrow> string + signed_payout_response)
    \<Rightarrow> payout_batch_record \<Rightarrow> pool_db \<Rightarrow> pool_db \<times> payout_outcome" where
  "sign_batch hexe json_text sign batch db =
     (let request = sign_request_of_batch batch;
          actor = ''worker:sign-payouts'';
          fail = (\<lambda>reason. (fail_batch actor (reason_json reason) batch reason db,
                            failed_outcome batch None reason))
      in case sign request of
           Inl err \<Rightarrow> fail err
         | Inr answer \<Rightarrow>
             (case result_bind (validate_signed_payout_response hexe answer request)
                     (\<lambda>_. signed_payout_storage_value json_text answer) of
                Inl reason \<Rightarrow> fail reason
              | Inr storage_value \<Rightarrow>
                  let (db', updated) = mark_payout_signed (pr_batch_id batch) (sd_txid answer) storage_value db
                  in (if updated
                      then audit (pr_batch_id batch) actor ''sign''
                             (JObject [(''txid'', JString (sd_txid answer))]) db'
                      else db',
                      \<lparr>oc_batch_id = pr_batch_id batch, oc_status = ''signed'',
                       oc_txid = Some (sd_txid answer), oc_confirmations = 0, oc_updated = updated,
                       oc_reason = None\<rparr>)))"

fun each_batch ::
  "(payout_batch_record \<Rightarrow> pool_db \<Rightarrow> pool_db \<times> payout_outcome) \<Rightarrow> payout_batch_record list \<Rightarrow> pool_db
    \<Rightarrow> payout_outcome list run" where
  "each_batch f [] db = (db, Inr [])"
| "each_batch f (b # bs) db = (let (db', outcome) = f b db in run_cons outcome (each_batch f bs db'))"

record payouts_run =
  py_payouts_enabled :: bool
  py_blocked_by :: "string option"
  py_outcomes :: "payout_outcome list"

definition sign_payouts ::
  "(bytes \<Rightarrow> string) \<Rightarrow> (json \<Rightarrow> string) \<Rightarrow> (sign_payout_request \<Rightarrow> string + signed_payout_response)
    \<Rightarrow> pool_db \<Rightarrow> payouts_run run" where
  "sign_payouts hexe json_text sign db =
     (if \<not> payouts_enabled db
      then (db, Inr \<lparr>py_payouts_enabled = False, py_blocked_by = None, py_outcomes = []\<rparr>)
      else run_query (list_payout_batches_by_status [''signed'', ''submitted''] 1 db) db (\<lambda>inflight.
        case inflight of
          b # _ \<Rightarrow> (db, Inr \<lparr>py_payouts_enabled = True, py_blocked_by = Some (pr_batch_id b), py_outcomes = []\<rparr>)
        | [] \<Rightarrow> run_query (list_payout_batches_by_status [''created''] 1 db) db (\<lambda>batches.
            run_map (\<lambda>outcomes. \<lparr>py_payouts_enabled = True, py_blocked_by = None, py_outcomes = outcomes\<rparr>)
              (each_batch (sign_batch hexe json_text sign) batches db))))"

text \<open>The endpoints of a submission; a text that is no JSON, and a JSON's debug form, are parameters.\<close>

record submit_nodes =
  sn_official :: "(json \<Rightarrow> string + submit_tx_response) option"
  sn_adapter :: "((json \<Rightarrow> string + submit_tx_response) \<times> (string \<Rightarrow> string + submit_tx_response)) option"
  sn_parse :: "string \<Rightarrow> string + json"
  sn_debug :: "json \<Rightarrow> string"

text \<open>What the stored payload leads to: a reason to give up (Inl), or a submission and its result.\<close>

definition submit_stored :: "submit_nodes \<Rightarrow> string \<Rightarrow> string + (string + submit_tx_response)" where
  "submit_stored nodes stored_tx =
     (case strip_prefix node_tx_storage_prefix stored_tx of
        Some node_tx_json \<Rightarrow>
          (case sn_parse nodes node_tx_json of
             Inl err \<Rightarrow> Inl (''invalid stored node_tx JSON: '' @ err)
           | Inr tx \<Rightarrow>
               Inr (case sn_official nodes of
                      Some submit \<Rightarrow> submit tx
                    | None \<Rightarrow> (case sn_adapter nodes of
                        Some (submit, _) \<Rightarrow> submit tx
                      | None \<Rightarrow> Inl ''no payout transaction submit endpoint configured'')))
      | None \<Rightarrow>
          Inr (case sn_adapter nodes of
                 Some (_, submit_raw) \<Rightarrow> submit_raw stored_tx
               | None \<Rightarrow> Inl ''legacy raw transaction requires the pool node adapter''))"

definition submitted_batch ::
  "payout_batch_record \<Rightarrow> string \<Rightarrow> string \<Rightarrow> json \<Rightarrow> string option \<Rightarrow> pool_db \<Rightarrow> pool_db \<times> payout_outcome" where
  "submitted_batch batch txid action details reason db =
     (let (db', updated) = mark_payout_submitted (pr_batch_id batch) txid db
      in (if updated then audit (pr_batch_id batch) ''worker:submit-payouts'' action details db' else db',
          \<lparr>oc_batch_id = pr_batch_id batch, oc_status = ''submitted'', oc_txid = Some txid,
           oc_confirmations = 0, oc_updated = updated, oc_reason = reason\<rparr>))"

definition deferred_batch :: "payout_batch_record \<Rightarrow> string \<Rightarrow> pool_db \<Rightarrow> pool_db \<times> payout_outcome" where
  "deferred_batch batch reason db =
     (audit (pr_batch_id batch) ''worker:submit-payouts'' ''submit_deferred'' (reason_json reason) db,
      \<lparr>oc_batch_id = pr_batch_id batch, oc_status = ''signed'', oc_txid = pr_txid batch,
       oc_confirmations = 0, oc_updated = False, oc_reason = Some reason\<rparr>)"

definition submit_batch ::
  "submit_nodes \<Rightarrow> payout_batch_record \<Rightarrow> pool_db \<Rightarrow> pool_db \<times> payout_outcome" where
  "submit_batch nodes batch db =
     (let fail = (\<lambda>reason. (fail_batch ''worker:submit-payouts'' (reason_json reason) batch reason db,
                            failed_outcome batch (pr_txid batch) reason)) in
      case pr_raw_tx_hash batch of
        None \<Rightarrow> fail ''missing signed transaction payload''
      | Some stored_tx \<Rightarrow>
          (case submit_stored nodes stored_tx of
             Inl reason \<Rightarrow> fail reason
           | Inr (Inl err) \<Rightarrow> deferred_batch batch (''transaction submission uncertain: '' @ err) db
           | Inr (Inr response) \<Rightarrow>
               let txid = (case st_txid response of Some t \<Rightarrow> t | None \<Rightarrow> coalesce (pr_txid batch) []) in
               if st_ok response
               then submitted_batch batch txid ''submit'' (JObject [(''txid'', JString txid)]) None db
               else if possible_prior_submit response (pr_txid batch)
               then let reason = ''node reports transaction already present or conflicting; reconciliation required'' in
                 submitted_batch batch txid ''submit_ambiguous''
                   (JObject [(''reason'', JString reason), (''txid'', JString txid)]) (Some reason) db
               else deferred_batch batch (''node rejected transaction: '' @ sn_debug nodes (st_extra response)) db))"

definition submit_payouts :: "submit_nodes \<Rightarrow> pool_db \<Rightarrow> payouts_run run" where
  "submit_payouts nodes db =
     (if sn_official nodes = None \<and> sn_adapter nodes = None then (db, Inl MissingNodeUrl)
      else if \<not> payouts_enabled db
      then (db, Inr \<lparr>py_payouts_enabled = False, py_blocked_by = None, py_outcomes = []\<rparr>)
      else run_query (list_payout_batches_by_status [''signed''] 10 db) db (\<lambda>batches.
        run_map (\<lambda>outcomes. \<lparr>py_payouts_enabled = True, py_blocked_by = None, py_outcomes = outcomes\<rparr>)
          (each_batch (submit_batch nodes) batches db)))"

definition reconciled_payout ::
  "payout_batch_record \<Rightarrow> transaction_status_response \<Rightarrow> pool_db \<Rightarrow> pool_db \<times> payout_outcome" where
  "reconciled_payout batch status db =
     (let outcome = (\<lambda>st updated reason. \<lparr>oc_batch_id = pr_batch_id batch, oc_status = st, oc_txid = None,
            oc_confirmations = ts_confirmations status, oc_updated = updated, oc_reason = reason\<rparr>) in
      if ts_status status = ''confirmed'' \<and> 0 < ts_confirmations status
      then let (db', paid_entries) = mark_payout_paid batch (fst (mark_payout_confirmed (pr_batch_id batch) db))
        in (if 0 < paid_entries
            then audit (pr_batch_id batch) ''worker:reconcile-payouts'' ''confirm''
                   (JObject [(''confirmations'', JPos (ts_confirmations status))]) db'
            else db', outcome ''confirmed'' (0 < paid_entries) None)
      else if ts_status status = ''failed'' \<or> ts_status status = ''rejected''
      then let reason = ''transaction status '' @ ts_status status
        in (fail_batch ''worker:reconcile-payouts''
              (JObject [(''confirmations'', JPos (ts_confirmations status)), (''reason'', JString reason)])
              batch reason db, outcome ''failed'' True (Some reason))
      else (db, outcome (ts_status status) False None))"

fun reconcile_payout_list ::
  "(string \<Rightarrow> string + transaction_status_response) \<Rightarrow> payout_batch_record list \<Rightarrow> pool_db
    \<Rightarrow> payout_outcome list run" where
  "reconcile_payout_list node [] db = (db, Inr [])"
| "reconcile_payout_list node (b # bs) db =
     (case pr_txid b of
        None \<Rightarrow> run_cons (failed_outcome b None ''missing txid'')
          (reconcile_payout_list node bs
            (fail_batch ''worker:reconcile-payouts'' (reason_json ''missing txid'') b ''missing txid'' db))
      | Some txid \<Rightarrow>
          (case node txid of
             Inl e \<Rightarrow> (db, Inl (RunNodeError e))
           | Inr status \<Rightarrow>
               let (db', outcome) = reconciled_payout b status db in
               run_cons outcome (reconcile_payout_list node bs db')))"

definition reconcile_payouts ::
  "(string \<Rightarrow> string + transaction_status_response) \<Rightarrow> pool_db \<Rightarrow> payout_outcome list run" where
  "reconcile_payouts node db =
     run_query (list_payout_batches_by_status [''submitted''] 100 db) db (\<lambda>batches.
       reconcile_payout_list node batches db)"

section \<open>The operator's routes\<close>

definition operator_pause_payouts :: "pool_db \<Rightarrow> pool_db" where
  "operator_pause_payouts db = audit ''pool'' ''operator'' ''pause_payouts'' (JObject []) (set_payouts_enabled False db)"

definition operator_resume_payouts :: "pool_db \<Rightarrow> pool_db" where
  "operator_resume_payouts db = audit ''pool'' ''operator'' ''resume_payouts'' (JObject []) (set_payouts_enabled True db)"

definition retry_batch_id :: "string \<Rightarrow> nat \<Rightarrow> string" where
  "retry_batch_id batch_id millis = ''retry-'' @ batch_id @ ''-'' @ decimal_digits millis"

definition operator_retry_payout ::
  "nat \<Rightarrow> nat \<Rightarrow> string \<Rightarrow> pool_db \<Rightarrow> payout_batch_record option run" where
  "operator_retry_payout now millis batch_id db =
     (let new_batch_id = retry_batch_id batch_id millis in
      run_query (retry_failed_payout now batch_id new_batch_id db) db (\<lambda>(db', batch).
        (case batch of
           Some _ \<Rightarrow> audit new_batch_id ''operator'' ''retry''
             (JObject [(''source_batch_id'', JString batch_id)]) db'
         | None \<Rightarrow> db', Inr batch)))"

definition operator_approve_payout :: "string \<Rightarrow> pool_db \<Rightarrow> pool_db \<times> bool" where
  "operator_approve_payout batch_id db =
     (let (db', approved) = mark_payout_approved batch_id db
      in (if approved then audit batch_id ''operator'' ''approve'' (JObject []) db' else db', approved))"

definition operator_cancel_payout ::
  "string \<Rightarrow> string option \<Rightarrow> pool_db \<Rightarrow> payout_batch_record option run" where
  "operator_cancel_payout batch_id body_reason db =
     (let reason = coalesce body_reason ''operator cancelled payout'' in
      run_query (cancel_payout batch_id reason db) db (\<lambda>(db', batch).
        (case batch of
           Some _ \<Rightarrow> audit batch_id ''operator'' ''cancel'' (JObject [(''reason'', JString reason)]) db'
         | None \<Rightarrow> db', Inr batch)))"

end
