(* ===== verification/Csd_Books.thy ===== *)
theory Csd_Books
  imports Csd_Workers
begin

text \<open>
  The books of the pool: what the ledger says about each miner, and the proof that the balance cache
  says the same after any sequence of jobs, that no column goes below zero, that every reward is
  immature, confirmed, locked or paid, that what is locked is what the open batches hold, and what is
  paid is what the confirmed batches paid.
\<close>

section \<open>What a row moves\<close>

definition row_effect :: "ledger_row \<Rightarrow> balance_row" where
  "row_effect r =
     (let credit = max (lr_amount r) 0; debit = max (- lr_amount r) 0 in
      case lr_kind r of
        RewardImmature \<Rightarrow> no_balance\<lparr>bl_immature := credit\<rparr>
      | RewardMature \<Rightarrow> no_balance\<lparr>bl_immature := - credit, bl_confirmed := credit\<rparr>
      | PayoutLock \<Rightarrow> no_balance\<lparr>bl_confirmed := - debit, bl_locked := debit\<rparr>
      | PayoutSent \<Rightarrow> no_balance\<lparr>bl_locked := - debit, bl_paid := debit\<rparr>
      | PayoutFailedUnlock \<Rightarrow> no_balance\<lparr>bl_locked := - credit, bl_confirmed := credit\<rparr>
      | _ \<Rightarrow> no_balance)"

definition column :: "(balance_row \<Rightarrow> int) \<Rightarrow> string \<Rightarrow> ledger_row list \<Rightarrow> int" where
  "column f m L = sum_list (map (\<lambda>r. f (row_effect r)) (filter (\<lambda>r. lr_miner r = Some m) L))"

definition book :: "string \<Rightarrow> ledger_row list \<Rightarrow> balance_row" where
  "book m L = \<lparr>bl_immature = column bl_immature m L, bl_confirmed = column bl_confirmed m L,
     bl_locked = column bl_locked m L, bl_paid = column bl_paid m L\<rparr>"

text \<open>All that a miner has been credited.\<close>

definition reward_sum :: "string \<Rightarrow> ledger_row list \<Rightarrow> int" where
  "reward_sum m L = sum_list (map (\<lambda>r. max (lr_amount r) 0)
     (filter (\<lambda>r. lr_miner r = Some m \<and> lr_kind r = RewardImmature) L))"

definition balance_of :: "pool_db \<Rightarrow> string \<Rightarrow> balance_row" where
  "balance_of db m = (case bt_get (db_balances db) m of Some b \<Rightarrow> b | None \<Rightarrow> no_balance)"

definition nonneg :: "balance_row \<Rightarrow> bool" where
  "nonneg b \<longleftrightarrow> 0 \<le> bl_immature b \<and> 0 \<le> bl_confirmed b \<and> 0 \<le> bl_locked b \<and> 0 \<le> bl_paid b"

definition exact :: "pool_db \<Rightarrow> bool" where
  "exact db \<longleftrightarrow> bt_wf (db_balances db) \<and> (\<forall>m. balance_of db m = book m (db_ledger db))"

lemma column_Nil [simp]: "column f m [] = 0"
  by (simp add: column_def)

lemma column_append [simp]: "column f m (L @ L') = column f m L + column f m L'"
  by (simp add: column_def)

lemma column_Cons [simp]:
  "column f m (r # L) = (if lr_miner r = Some m then f (row_effect r) else 0) + column f m L"
  by (simp add: column_def)

lemma book_Nil [simp]: "book m [] = no_balance"
  by (simp add: book_def no_balance_def)

lemma no_balance_simps [simp]:
  "bl_immature no_balance = 0" "bl_confirmed no_balance = 0" "bl_locked no_balance = 0" "bl_paid no_balance = 0"
  by (simp_all add: no_balance_def)

text \<open>Every row moves money between the columns, apart from rewards, which come from outside.\<close>

lemma effect_total:
  "bl_immature (row_effect r) + bl_confirmed (row_effect r) + bl_locked (row_effect r) + bl_paid (row_effect r)
    = (if lr_kind r = RewardImmature then max (lr_amount r) 0 else 0)"
  by (cases "lr_kind r") (simp_all add: row_effect_def Let_def)

lemma book_total:
  "bl_immature (book m L) + bl_confirmed (book m L) + bl_locked (book m L) + bl_paid (book m L) = reward_sum m L"
proof (induction L)
  case (Cons r L)
  then show ?case
    using effect_total [of r] by (auto simp: book_def reward_sum_def split: if_splits)
qed (simp add: reward_sum_def)

lemma effect_sign:
  assumes "f \<in> {bl_immature, bl_confirmed, bl_locked, bl_paid}"
    and "\<forall>r \<in> set rows. lr_kind r = k \<or> lr_kind r = PoolFee"
  shows "(\<forall>r \<in> set rows. 0 \<le> f (row_effect r)) \<or> (\<forall>r \<in> set rows. f (row_effect r) \<le> 0)"
proof -
  have fee: "f (row_effect r) = 0" if "lr_kind r = PoolFee" for r
    using assms(1) that by (auto simp: row_effect_def)
  have "(\<forall>r. lr_kind r = k \<longrightarrow> 0 \<le> f (row_effect r)) \<or> (\<forall>r. lr_kind r = k \<longrightarrow> f (row_effect r) \<le> 0)"
    using assms(1) by (cases k) (auto simp: row_effect_def Let_def)
  then show ?thesis using assms(2) fee by (metis order_refl)
qed

lemma column_sign:
  "\<forall>r \<in> set rows. 0 \<le> f (row_effect r) \<Longrightarrow> 0 \<le> column f m rows"
  "\<forall>r \<in> set rows. f (row_effect r) \<le> 0 \<Longrightarrow> column f m rows \<le> 0"
  by (induction rows) auto

text \<open>Between two states of the books in which no column is negative, none is in between.\<close>

lemma nonneg_between:
  assumes kind: "\<forall>r \<in> set (rows @ rows'). lr_kind r = k \<or> lr_kind r = PoolFee"
    and low: "nonneg (book m L)" and high: "nonneg (book m (L @ rows @ rows'))"
  shows "nonneg (book m (L @ rows))"
proof -
  have "0 \<le> column f m (L @ rows)" if f: "f \<in> {bl_immature, bl_confirmed, bl_locked, bl_paid}"
  for f
  proof -
    have ends: "0 \<le> column f m L" "0 \<le> column f m (L @ rows @ rows')"
      using f low high by (auto simp: nonneg_def book_def)
    from effect_sign [OF f kind] show ?thesis
    proof
      assume "\<forall>r \<in> set (rows @ rows'). 0 \<le> f (row_effect r)"
      then have "0 \<le> column f m rows" by (intro column_sign) auto
      with ends show ?thesis by simp
    next
      assume "\<forall>r \<in> set (rows @ rows'). f (row_effect r) \<le> 0"
      then have "column f m rows' \<le> 0" by (intro column_sign) auto
      with ends show ?thesis by simp
    qed
  qed
  then show ?thesis by (simp add: nonneg_def book_def)
qed

section \<open>Appending is exact\<close>

lemma balance_upsert:
  "bt_wf (db_balances db) \<Longrightarrow>
     balance_of (db\<lparr>db_ledger := L, db_balances := upsert_balance m f (db_balances db)\<rparr>) m'
       = (if m' = m then f (balance_of db m) else balance_of db m')"
  by (simp add: balance_of_def upsert_balance_def bt_get_insert)

lemma balance_update:
  "bt_wf (db_balances db) \<Longrightarrow> (f no_balance = no_balance \<or> bt_get (db_balances db) m \<noteq> None) \<Longrightarrow>
     balance_of (db\<lparr>db_ledger := L, db_balances := update_balance m f (db_balances db)\<rparr>) m'
       = (if m' = m then f (balance_of db m) else balance_of db m')"
  by (auto simp: balance_of_def update_balance_def bt_get_insert split: option.splits)

lemma wf_post_entry: "bt_wf bs \<Longrightarrow> bt_wf (post_entry L r bs)"
  by (auto simp: post_entry_def upsert_balance_def update_balance_def Let_def
      split: option.splits ledger_kind.splits)

lemma balance_of_balances [simp]:
  "balance_of (db\<lparr>db_ledger := L, db_balances := db_balances db\<rparr>) m = balance_of db m"
  by (simp add: balance_of_def)

lemma balance_of_ledger [simp]: "balance_of (db\<lparr>db_ledger := L\<rparr>) m = balance_of db m"
  by (simp add: balance_of_def)

lemma append_row_exact:
  assumes exact: "exact db" and new: "ledger_key r \<notin> ledger_key ` set (db_ledger db)"
    and kind: "lr_kind r \<noteq> RewardOrphanReversal"
    and amount: "lr_kind r \<in> {PayoutLock, PayoutSent} \<longrightarrow> - (2 ^ 127) < lr_amount r"
    and after: "\<forall>m. nonneg (book m (db_ledger db @ [r]))"
  shows "exact (append_row r db) \<and> db_ledger (append_row r db) = db_ledger db @ [r]"
proof -
  let ?L = "db_ledger db @ [r]"
  have wf: "bt_wf (db_balances db)" and bal: "balance_of db m = book m (db_ledger db)" for m
    using exact by (simp_all add: exact_def)
  have step: "append_row r db = db\<lparr>db_ledger := ?L, db_balances := post_entry ?L r (db_balances db)\<rparr>"
    using new by (simp add: append_row_def Let_def)
  have neg: "i128_neg (lr_amount r) = - lr_amount r" if "lr_kind r \<in> {PayoutLock, PayoutSent}"
    using amount that by (auto simp: i128_neg_def)
  have "balance_of (append_row r db) m = book m ?L" for m
  proof (cases "lr_miner r")
    case None
    then show ?thesis using bal by (simp add: step post_entry_def book_def)
  next
    case (Some w)
    have nn: "nonneg (book w ?L)" using after by blast
    show ?thesis
    proof (cases "lr_kind r")
      case RewardImmature
      then show ?thesis
        using Some bal balance_upsert [OF wf]
        by (auto simp: step post_entry_def Let_def row_effect_def book_def)
    next
      case RewardMature
      then show ?thesis
        using Some bal balance_upsert [OF wf] nn
        by (auto simp: step post_entry_def Let_def row_effect_def book_def nonneg_def)
    next
      case PayoutLock
      then show ?thesis
        using Some bal balance_upsert [OF wf] nn neg
        by (auto simp: step post_entry_def Let_def row_effect_def book_def nonneg_def)
    next
      case PayoutSent
      have "bt_get (db_balances db) w \<noteq> None" if "lr_amount r < 0"
      proof
        assume "bt_get (db_balances db) w = None"
        then have "book w (db_ledger db) = no_balance" using bal [of w] by (simp add: balance_of_def)
        then show False using nn that Some PayoutSent
          by (simp add: nonneg_def book_def row_effect_def Let_def no_balance_def)
      qed
      then show ?thesis
        using PayoutSent Some bal balance_update [OF wf] nn neg
        by (auto simp: step post_entry_def Let_def row_effect_def book_def nonneg_def)
    next
      case PayoutFailedUnlock
      have "bt_get (db_balances db) w \<noteq> None" if "0 < lr_amount r"
      proof
        assume "bt_get (db_balances db) w = None"
        then have "book w (db_ledger db) = no_balance" using bal [of w] by (simp add: balance_of_def)
        then show False using nn that Some PayoutFailedUnlock
          by (simp add: nonneg_def book_def row_effect_def Let_def no_balance_def)
      qed
      then show ?thesis
        using PayoutFailedUnlock Some bal balance_update [OF wf] nn
        by (auto simp: step post_entry_def Let_def row_effect_def book_def nonneg_def)
    next
      case PoolFee
      then show ?thesis using Some bal by (simp add: step post_entry_def Let_def row_effect_def book_def)
    next
      case ManualAdjustment
      then show ?thesis using Some bal by (simp add: step post_entry_def Let_def row_effect_def book_def)
    qed (use kind in simp)
  qed
  moreover have "bt_wf (db_balances (append_row r db))" by (simp add: step wf_post_entry [OF wf])
  ultimately show ?thesis by (simp add: exact_def step)
qed

lemma append_rows_exact:
  assumes "exact db" and "distinct (map ledger_key (db_ledger db @ rows))"
    and "\<forall>r \<in> set rows. lr_kind r = k \<or> lr_kind r = PoolFee"
    and "\<forall>r \<in> set rows. lr_kind r \<in> {PayoutLock, PayoutSent} \<longrightarrow> - (2 ^ 127) < lr_amount r"
    and "k \<noteq> RewardOrphanReversal"
    and "\<forall>m. nonneg (book m (db_ledger db))" and "\<forall>m. nonneg (book m (db_ledger db @ rows))"
  shows "exact (foldl (\<lambda>db r. append_row r db) db rows)
    \<and> db_ledger (foldl (\<lambda>db r. append_row r db) db rows) = db_ledger db @ rows"
  using assms
proof (induction rows arbitrary: db)
  case (Cons r rows)
  have new: "ledger_key r \<notin> ledger_key ` set (db_ledger db)" using Cons.prems(2) by auto
  have "nonneg (book m (db_ledger db @ [r]))" for m
    by (rule nonneg_between [where rows' = rows and k = k]) (use Cons.prems in auto)
  then have 1: "exact (append_row r db) \<and> db_ledger (append_row r db) = db_ledger db @ [r]"
    using Cons.prems(1,3,4,5) new by (intro append_row_exact) auto
  then have "exact (foldl (\<lambda>db r. append_row r db) (append_row r db) rows)
    \<and> db_ledger (foldl (\<lambda>db r. append_row r db) (append_row r db) rows) = db_ledger (append_row r db) @ rows"
    using Cons.prems \<open>\<And>m. nonneg (book m (db_ledger db @ [r]))\<close> by (intro Cons.IH) auto
  with 1 show ?case by simp
qed simp

lemma append_entries_rows:
  "append_ledger_entries entries db = foldl (\<lambda>db r. append_row r db) db (map ledger_row_of_entry entries)"
  by (simp add: append_ledger_entries_def foldl_map)

text \<open>What appending leaves alone.\<close>

lemma append_row_tables [simp]:
  "db_blocks (append_row r db) = db_blocks db" "db_batches (append_row r db) = db_batches db"
  by (simp_all add: append_row_def Let_def)

lemma append_entries_tables [simp]:
  "db_blocks (append_ledger_entries entries db) = db_blocks db"
  "db_batches (append_ledger_entries entries db) = db_batches db"
  unfolding append_ledger_entries_def by (induction entries arbitrary: db) simp_all

section \<open>Rewards\<close>

definition reward_kinds :: "ledger_kind set" where
  "reward_kinds = {RewardImmature, PoolFee}"

text \<open>
  Every reward entry is of a confirmed block, and every matured one repeats an immature one.
\<close>

definition rewards_ok :: "pool_db \<Rightarrow> bool" where
  "rewards_ok db \<longleftrightarrow> distinct (map bk_hash_hex (db_blocks db))
     \<and> (\<forall>r \<in> set (db_ledger db). lr_kind r \<in> reward_kinds \<longrightarrow> lr_ref_type r = ''block''
          \<and> (\<exists>b \<in> set (db_blocks db). bk_hash_hex b = lr_ref_id r \<and> bk_status b = ''confirmed''))
     \<and> (\<forall>r \<in> set (db_ledger db). lr_kind r = RewardMature \<longrightarrow>
          r\<lparr>lr_kind := RewardImmature\<rparr> \<in> set (db_ledger db))"

lemma column_sum:
  assumes "distinct (map ledger_key L)"
  shows "column f m L = (\<Sum>r | r \<in> set L \<and> lr_miner r = Some m. f (row_effect r))"
proof -
  have "distinct (filter (\<lambda>r. lr_miner r = Some m) L)"
    using assms by (simp add: distinct_map)
  then show ?thesis by (simp add: column_def sum_list_distinct_conv_sum_set)
qed

lemma immature_nonneg:
  assumes keys: "distinct (map ledger_key L)"
    and mature: "\<forall>r \<in> set L. lr_kind r = RewardMature \<longrightarrow> r\<lparr>lr_kind := RewardImmature\<rparr> \<in> set L"
  shows "0 \<le> column bl_immature m L"
proof -
  let ?amount = "\<lambda>r. max (lr_amount r) 0"
  let ?A = "{r \<in> set L. lr_miner r = Some m \<and> lr_kind r = RewardImmature}"
  let ?B = "{r \<in> set L. lr_miner r = Some m \<and> lr_kind r = RewardMature}"
  let ?h = "\<lambda>r. r\<lparr>lr_kind := RewardImmature\<rparr> :: ledger_row"
  have eff: "bl_immature (row_effect r) = (if lr_kind r = RewardImmature then ?amount r else 0)
      - (if lr_kind r = RewardMature then ?amount r else 0)" for r
    by (cases "lr_kind r") (simp_all add: row_effect_def Let_def)
  have "column bl_immature m L = sum ?amount ?A - sum ?amount ?B"
    unfolding column_sum [OF keys] eff sum_subtractf
    by (simp add: sum.If_cases Collect_conj_eq Int_ac flip: sum.inter_filter)
  moreover have "sum ?amount ?B \<le> sum ?amount ?A"
  proof -
    have inj: "inj_on ?h ?B"
    proof (rule inj_onI)
      fix r s
      assume "r \<in> ?B" and "s \<in> ?B" and "?h r = ?h s"
      then show "r = s" by (cases r; cases s) simp
    qed
    have "sum ?amount ?B = sum ?amount (?h ` ?B)" by (simp add: sum.reindex [OF inj])
    also have "\<dots> \<le> sum ?amount ?A" using mature by (intro sum_mono2) auto
    finally show ?thesis .
  qed
  ultimately show ?thesis by simp
qed

section \<open>Batches\<close>

definition open_statuses :: "string set" where
  "open_statuses = {''needs_approval'', ''created'', ''signed'', ''submitted''}"

definition failed_statuses :: "string set" where
  "failed_statuses = {''failed'', ''cancelled''}"

definition unlock_row :: "string \<Rightarrow> payout_recipient \<Rightarrow> ledger_row" where
  "unlock_row batch_id r = ledger_row_of_entry (payout_entry PayoutFailedUnlock (\<lambda>a. a) batch_id r)"

definition sent_row :: "string \<Rightarrow> payout_recipient \<Rightarrow> ledger_row" where
  "sent_row batch_id r = ledger_row_of_entry (payout_entry PayoutSent uminus batch_id r)"

text \<open>The entries a batch has left in the ledger, by its status.\<close>

definition batch_rows :: "batch_row \<Rightarrow> ledger_row list" where
  "batch_rows b = map (payout_lock_row (pb_id b)) (pb_recipients b)
     @ (if pb_status b \<in> failed_statuses then map (unlock_row (pb_id b)) (pb_recipients b) else [])
     @ (if pb_status b = ''confirmed'' then map (sent_row (pb_id b)) (pb_recipients b) else [])"

definition payout_row :: "ledger_row \<Rightarrow> bool" where
  "payout_row r \<longleftrightarrow> lr_kind r \<in> {PayoutLock, PayoutSent, PayoutFailedUnlock}"

definition small_amounts :: "payout_recipient list \<Rightarrow> bool" where
  "small_amounts rs \<longleftrightarrow> (\<forall>r \<in> set rs. uint (rc_amount_base_units r) < 2 ^ 127)"

definition batch_ok :: "batch_row \<Rightarrow> bool" where
  "batch_ok b \<longleftrightarrow> distinct (map rc_miner (pb_recipients b)) \<and> small_amounts (pb_recipients b)
     \<and> pb_status b \<in> open_statuses \<union> failed_statuses \<union> {''confirmed''}"

definition batches_ok :: "pool_db \<Rightarrow> bool" where
  "batches_ok db \<longleftrightarrow> distinct (map pb_id (db_batches db)) \<and> (\<forall>b \<in> set (db_batches db). batch_ok b)
     \<and> mset (filter payout_row (db_ledger db)) = mset (concat (map batch_rows (db_batches db)))"

definition batch_amount :: "string \<Rightarrow> batch_row \<Rightarrow> int" where
  "batch_amount m b = sum_list (map (\<lambda>r. uint (rc_amount_base_units r))
     (filter (\<lambda>r. rc_miner r = m) (pb_recipients b)))"

lemma sint_amount:
  fixes a :: u128
  assumes "uint a < 2 ^ 127"
  shows "sint a = uint a" and "sint (- a) = - uint a"
proof -
  have u: "int (unat a) = uint a" by simp
  have "int (unat a) < int (2 ^ 127)" using assms by (simp only: u of_nat_power of_nat_numeral)
  then have small: "unat a < 2 ^ 127" by (rule of_nat_less_iff [THEN iffD1])
  show "sint a = uint a" "sint (- a) = - uint a"
    by (simp_all only: sint_small [OF small] sint_neg_small [OF small] u)
qed

lemma row_fields [simp]:
  "lr_miner (payout_lock_row i r) = Some (rc_miner r)" "lr_kind (payout_lock_row i r) = PayoutLock"
  "lr_miner (unlock_row i r) = Some (rc_miner r)" "lr_kind (unlock_row i r) = PayoutFailedUnlock"
  "lr_miner (sent_row i r) = Some (rc_miner r)" "lr_kind (sent_row i r) = PayoutSent"
  "lr_ref_id (payout_lock_row i r) = i" "lr_ref_id (unlock_row i r) = i" "lr_ref_id (sent_row i r) = i"
  "lr_ref_type (payout_lock_row i r) = ''payout_batch''" "lr_ref_type (unlock_row i r) = ''payout_batch''"
  "lr_ref_type (sent_row i r) = ''payout_batch''" "lr_amount (payout_lock_row i r) = - uint (rc_amount_base_units r)"
  by (simp_all add: payout_lock_row_def unlock_row_def sent_row_def payout_entry_def ledger_row_of_entry_def)

lemma row_amounts:
  assumes "uint (rc_amount_base_units r) < 2 ^ 127"
  shows "lr_amount (unlock_row i r) = uint (rc_amount_base_units r)"
    "lr_amount (sent_row i r) = - uint (rc_amount_base_units r)"
  using sint_amount [OF assms]
  by (simp_all add: unlock_row_def sent_row_def payout_entry_def ledger_row_of_entry_def)

lemma column_mset: "mset L = mset L' \<Longrightarrow> column f m L = column f m L'"
proof -
  assume "mset L = mset L'"
  then have "mset (map (\<lambda>r. f (row_effect r)) (filter (\<lambda>r. lr_miner r = Some m) L))
      = mset (map (\<lambda>r. f (row_effect r)) (filter (\<lambda>r. lr_miner r = Some m) L'))" by simp
  then show ?thesis unfolding column_def by (metis sum_mset_sum_list)
qed

lemma column_filter:
  "\<forall>r \<in> set L. \<not> P r \<longrightarrow> f (row_effect r) = 0 \<Longrightarrow> column f m (filter P L) = column f m L"
  by (induction L) auto

lemma column_concat: "column f m (concat Ls) = sum_list (map (column f m) Ls)"
  by (induction Ls) auto

lemma column_lock:
  "column bl_locked m (map (payout_lock_row i) rs)
     = sum_list (map (\<lambda>r. uint (rc_amount_base_units r)) (filter (\<lambda>r. rc_miner r = m) rs))"
  "column bl_paid m (map (payout_lock_row i) rs) = 0"
  by (induction rs) (auto simp: row_effect_def Let_def)

lemma column_unlock:
  "small_amounts rs \<Longrightarrow> column bl_locked m (map (unlock_row i) rs)
     = - sum_list (map (\<lambda>r. uint (rc_amount_base_units r)) (filter (\<lambda>r. rc_miner r = m) rs))"
  "column bl_paid m (map (unlock_row i) rs) = 0"
  by (induction rs) (auto simp: row_effect_def Let_def small_amounts_def row_amounts)

lemma column_sent:
  "small_amounts rs \<Longrightarrow> column bl_locked m (map (sent_row i) rs)
     = - sum_list (map (\<lambda>r. uint (rc_amount_base_units r)) (filter (\<lambda>r. rc_miner r = m) rs))"
  "small_amounts rs \<Longrightarrow> column bl_paid m (map (sent_row i) rs)
     = sum_list (map (\<lambda>r. uint (rc_amount_base_units r)) (filter (\<lambda>r. rc_miner r = m) rs))"
  by (induction rs) (auto simp: row_effect_def Let_def small_amounts_def row_amounts)

lemma column_batch:
  assumes "batch_ok b"
  shows "column bl_locked m (batch_rows b) = (if pb_status b \<in> open_statuses then batch_amount m b else 0)"
    and "column bl_paid m (batch_rows b) = (if pb_status b = ''confirmed'' then batch_amount m b else 0)"
  using assms
  by (auto simp: batch_rows_def batch_ok_def batch_amount_def column_lock column_unlock column_sent
      open_statuses_def failed_statuses_def)

lemma batch_amount_nonneg: "0 \<le> batch_amount m b"
  by (auto simp: batch_amount_def intro!: sum_list_nonneg)

text \<open>What is locked is what the open batches hold; what is paid, what the confirmed ones paid.\<close>

lemma book_batches:
  assumes "batches_ok db"
  shows "bl_locked (book m (db_ledger db))
      = sum_list (map (batch_amount m) (filter (\<lambda>b. pb_status b \<in> open_statuses) (db_batches db)))"
    and "bl_paid (book m (db_ledger db))
      = sum_list (map (batch_amount m) (filter (\<lambda>b. pb_status b = ''confirmed'') (db_batches db)))"
proof -
  have ok: "\<forall>b \<in> set (db_batches db). batch_ok b"
    and rows: "mset (filter payout_row (db_ledger db)) = mset (concat (map batch_rows (db_batches db)))"
    using assms by (simp_all add: batches_ok_def)
  have split: "column f m (db_ledger db) = sum_list (map (\<lambda>b. column f m (batch_rows b)) (db_batches db))"
    if "f \<in> {bl_locked, bl_paid}" for f
  proof -
    have "column f m (filter payout_row (db_ledger db)) = column f m (db_ledger db)"
      using that by (intro column_filter) (auto simp: payout_row_def row_effect_def Let_def split: ledger_kind.splits)
    then show ?thesis using column_mset [OF rows, of f m] by (simp add: column_concat comp_def)
  qed
  have filtered: "sum_list (map (\<lambda>b. if P b then batch_amount m b else 0) bs)
      = sum_list (map (batch_amount m) (filter P bs))" for P bs
    by (induction bs) auto
  have of_batches: "column f m (db_ledger db) = sum_list (map (batch_amount m) (filter P (db_batches db)))"
    if "f \<in> {bl_locked, bl_paid}"
      and "\<And>b. batch_ok b \<Longrightarrow> column f m (batch_rows b) = (if P b then batch_amount m b else 0)" for f P
  proof -
    have "map (\<lambda>b. column f m (batch_rows b)) (db_batches db) = map (\<lambda>b. if P b then batch_amount m b else 0) (db_batches db)"
      using ok that(2) by (intro map_cong) auto
    then show ?thesis unfolding split [OF that(1)] by (simp only: filtered)
  qed
  show "bl_locked (book m (db_ledger db))
      = sum_list (map (batch_amount m) (filter (\<lambda>b. pb_status b \<in> open_statuses) (db_batches db)))"
    "bl_paid (book m (db_ledger db))
      = sum_list (map (batch_amount m) (filter (\<lambda>b. pb_status b = ''confirmed'') (db_batches db)))"
    unfolding book_def using column_batch by (simp_all add: of_batches)
qed

lemma books_nonneg:
  assumes "distinct (map ledger_key (db_ledger db))" and "rewards_ok db" and "batches_ok db"
    and "0 \<le> column bl_confirmed m (db_ledger db)"
  shows "nonneg (book m (db_ledger db))"
proof -
  have "0 \<le> bl_locked (book m (db_ledger db))" "0 \<le> bl_paid (book m (db_ledger db))"
    unfolding book_batches [OF assms(3)] by (auto intro!: sum_list_nonneg simp: batch_amount_nonneg)
  moreover have "0 \<le> column bl_immature m (db_ledger db)"
    using assms(1,2) by (intro immature_nonneg) (simp_all add: rewards_ok_def)
  ultimately show ?thesis using assms(4) by (simp add: nonneg_def book_def)
qed

section \<open>The invariant\<close>

definition books_ok :: "pool_db \<Rightarrow> bool" where
  "books_ok db \<longleftrightarrow> exact db \<and> distinct (map ledger_key (db_ledger db)) \<and> rewards_ok db \<and> batches_ok db
     \<and> (\<forall>m. 0 \<le> column bl_confirmed m (db_ledger db))"

lemma books_okD:
  assumes "books_ok db"
  shows "exact db" "distinct (map ledger_key (db_ledger db))" "rewards_ok db" "batches_ok db"
    "nonneg (book m (db_ledger db))" "balance_of db m = book m (db_ledger db)"
  using assms books_nonneg [of db m] by (simp_all add: books_ok_def exact_def)

lemma rewards_ok_cong:
  "db_ledger db' = db_ledger db \<Longrightarrow> db_blocks db' = db_blocks db \<Longrightarrow> rewards_ok db' = rewards_ok db"
  by (simp add: rewards_ok_def)

lemma batches_ok_cong:
  "db_ledger db' = db_ledger db \<Longrightarrow> db_batches db' = db_batches db \<Longrightarrow> batches_ok db' = batches_ok db"
  by (simp add: batches_ok_def)

lemma exact_cong:
  "db_ledger db' = db_ledger db \<Longrightarrow> db_balances db' = db_balances db \<Longrightarrow> exact db' = exact db"
  by (simp add: exact_def balance_of_def)

text \<open>A transaction that appends entries of one kind, other than a lock, to books that balance.\<close>

lemma books_append:
  assumes books: "books_ok db" and rows: "rows = map ledger_row_of_entry entries"
    and same: "db_ledger db1 = db_ledger db" "db_balances db1 = db_balances db"
    and keys: "distinct (map ledger_key (db_ledger db @ rows))"
    and kinds: "\<forall>r \<in> set rows. lr_kind r = k \<or> lr_kind r = PoolFee"
    and k: "k \<noteq> PayoutLock" "k \<noteq> RewardOrphanReversal"
    and amounts: "\<forall>r \<in> set rows. lr_kind r = PayoutSent \<longrightarrow> - (2 ^ 127) < lr_amount r"
    and rewards: "rewards_ok (db1\<lparr>db_ledger := db_ledger db @ rows\<rparr>)"
    and batches: "batches_ok (db1\<lparr>db_ledger := db_ledger db @ rows\<rparr>)"
  shows "books_ok (append_ledger_entries entries db1)
    \<and> db_ledger (append_ledger_entries entries db1) = db_ledger db @ rows"
proof -
  let ?db2 = "db1\<lparr>db_ledger := db_ledger db @ rows\<rparr>"
  let ?db' = "append_ledger_entries entries db1"
  have exact1: "exact db1" using books_okD(1) [OF books] exact_cong [OF same] by simp
  have lock: "lr_kind r \<noteq> PayoutLock" if "r \<in> set rows" for r
    using bspec [OF kinds that] k by auto
  have "0 \<le> bl_confirmed (row_effect r)" if "r \<in> set rows" for r
    using lock [OF that] by (cases "lr_kind r") (simp_all add: row_effect_def Let_def)
  then have "0 \<le> column bl_confirmed m rows" for m by (intro column_sign) blast
  then have confirmed: "0 \<le> column bl_confirmed m (db_ledger db @ rows)" for m
    using books by (simp add: books_ok_def)
  have after: "nonneg (book m (db_ledger db @ rows))" for m
    using books_nonneg [of ?db2 m] keys rewards batches confirmed by simp
  have step: "exact ?db' \<and> db_ledger ?db' = db_ledger db1 @ rows"
    unfolding append_entries_rows rows [symmetric]
  proof (rule append_rows_exact [where k = k])
    show "\<forall>r \<in> set rows. lr_kind r \<in> {PayoutLock, PayoutSent} \<longrightarrow> - (2 ^ 127) < lr_amount r"
      using amounts lock by blast
    show "\<forall>m. nonneg (book m (db_ledger db1))" using books_okD(5) [OF books] same by simp
    show "\<forall>m. nonneg (book m (db_ledger db1 @ rows))" using after same by simp
    show "k \<noteq> RewardOrphanReversal" by (rule k(2))
  qed (use exact1 keys same kinds in \<open>simp_all only:\<close>)
  have ledger: "db_ledger ?db' = db_ledger ?db2" using step same by simp
  have "rewards_ok ?db'" using rewards rewards_ok_cong [OF ledger] by simp
  moreover have "batches_ok ?db'" using batches batches_ok_cong [OF ledger] by simp
  ultimately show ?thesis
    using step keys confirmed same unfolding books_ok_def by simp
qed

section \<open>Settlement\<close>

lemma distinct_Some: "distinct xs \<Longrightarrow> distinct (map Some xs @ (if c then [None] else []))"
  by (auto simp: distinct_map)

lemma distinct_keys_of_miners: "distinct (map lr_miner rows) \<Longrightarrow> distinct (map ledger_key rows)"
  by (auto simp: distinct_map inj_on_def ledger_key_def)

lemma settle_rows:
  assumes "settle_reward_block b fee shares = Inr s"
  shows "\<forall>r \<in> set (map ledger_row_of_entry (sr_ledger_entries s)).
      lr_kind r \<in> reward_kinds \<and> lr_ref_type r = ''block'' \<and> lr_ref_id r = rb_hash_hex b"
    and "distinct (map lr_miner (map ledger_row_of_entry (sr_ledger_entries s)))"
proof -
  obtain result where alloc: "allocate_pplns (rb_reward_base_units b) fee shares = Inr result"
    and s: "sr_ledger_entries s = reward_ledger_entries (rb_hash_hex b) result"
    using assms by (auto simp: settle_reward_block_def result_bind_eq_Inr)
  show "\<forall>r \<in> set (map ledger_row_of_entry (sr_ledger_entries s)).
      lr_kind r \<in> reward_kinds \<and> lr_ref_type r = ''block'' \<and> lr_ref_id r = rb_hash_hex b"
    by (auto simp: s reward_ledger_entries_def ledger_row_of_entry_def reward_kinds_def)
  have "map ra_miner (pr_allocations result) = map fst (pplns_weights shares)"
    using alloc by (auto simp: allocate_pplns_def Let_def pplns_loop_miners split: if_splits)
  then have "distinct (map ra_miner (pr_allocations result))"
    using bt_wf_distinct [OF wf_pplns_weights [of shares]] by simp
  moreover have "map lr_miner (map ledger_row_of_entry (sr_ledger_entries s))
      = map Some (map ra_miner (pr_allocations result)) @ (if 0 < pr_fee_base_units result then [None] else [])"
    by (simp add: s reward_ledger_entries_def ledger_row_of_entry_def)
  ultimately show "distinct (map lr_miner (map ledger_row_of_entry (sr_ledger_entries s)))"
    by (simp only: distinct_Some)
qed

lemma distinct_map_appendI:
  "distinct (map f A) \<Longrightarrow> distinct (map f B) \<Longrightarrow> (\<And>r r'. r \<in> set A \<Longrightarrow> r' \<in> set B \<Longrightarrow> f r \<noteq> f r')
    \<Longrightarrow> distinct (map f (A @ B))"
  by fastforce

lemma not_payout_reward: "lr_kind r \<in> reward_kinds \<Longrightarrow> \<not> payout_row r"
  by (auto simp: reward_kinds_def payout_row_def)

lemma books_settle_block:
  assumes books: "books_ok db" and s: "settle_reward_block b fee shares = Inr s"
    and fresh: "\<not> has_reward_entry (db_ledger db) (rb_hash_hex b)"
    and block: "\<exists>row \<in> set (db_blocks db). bk_hash_hex row = rb_hash_hex b \<and> bk_status row = ''confirmed''"
  shows "books_ok (append_ledger_entries (sr_ledger_entries s) db)
    \<and> db_ledger (append_ledger_entries (sr_ledger_entries s) db)
      = db_ledger db @ map ledger_row_of_entry (sr_ledger_entries s)"
proof -
  let ?rows = "map ledger_row_of_entry (sr_ledger_entries s)"
  note rows = settle_rows [OF s]
  have new: "ledger_key r \<noteq> ledger_key r'" if "r \<in> set (db_ledger db)" "r' \<in> set ?rows" for r r'
  proof
    assume "ledger_key r = ledger_key r'"
    with bspec [OF rows(1) that(2)] have "lr_kind r \<in> reward_kinds" "lr_ref_type r = ''block''"
      "lr_ref_id r = rb_hash_hex b" by (simp_all add: ledger_key_def)
    with that(1) have "has_reward_entry (db_ledger db) (rb_hash_hex b)"
      unfolding has_reward_entry_def list_ex_iff by (auto simp: reward_kinds_def)
    with fresh show False by simp
  qed
  have keys: "distinct (map ledger_key (db_ledger db @ ?rows))"
    by (rule distinct_map_appendI [OF books_okD(2) [OF books] distinct_keys_of_miners [OF rows(2)] new])
  have "rewards_ok (db\<lparr>db_ledger := db_ledger db @ ?rows\<rparr>)"
    using books_okD(3) [OF books] rows(1) block unfolding rewards_ok_def
    by (auto simp: reward_kinds_def simp del: set_map)
  moreover have "filter payout_row ?rows = []"
    using rows(1) not_payout_reward by (auto simp: filter_empty_conv simp del: set_map)
  then have "batches_ok (db\<lparr>db_ledger := db_ledger db @ ?rows\<rparr>)"
    using books_okD(4) [OF books] unfolding batches_ok_def by simp
  ultimately show ?thesis
    using rows(1) keys
    by (intro books_append [where k = RewardImmature and db = db]) (auto simp: books reward_kinds_def simp del: set_map)
qed

text \<open>Rows that a query selects, orders and limits are distinct rows of the table.\<close>

lemma set_query: "set (take n (sort_key k (filter P xs))) \<subseteq> {x \<in> set xs. P x}"
  using set_take_subset [of n "sort_key k (filter P xs)"] by auto

lemma distinct_query: "distinct (map h xs) \<Longrightarrow> distinct (map h (take n (sort_key k (filter P xs))))"
proof -
  assume "distinct (map h xs)"
  then have "distinct (map h (filter P xs))" by (rule distinct_map_filter)
  then have "distinct (map h (sort_key k (filter P xs)))" by (simp add: distinct_map)
  then show ?thesis by (simp add: distinct_take flip: take_map)
qed

lemma map_result_map:
  "map_result f xs = Inr ys \<Longrightarrow> (\<And>x y. f x = Inr y \<Longrightarrow> g y = h x) \<Longrightarrow> map g ys = map h xs"
  unfolding map_result_Inr by (induction xs ys rule: list_all2_induct) auto

lemma map_result_set:
  "map_result f xs = Inr ys \<Longrightarrow> y \<in> set ys \<Longrightarrow> \<exists>x \<in> set xs. f x = Inr y"
  unfolding map_result_Inr by (induction xs ys rule: list_all2_induct) auto

lemma fst_run_cons [simp]: "fst (run_cons x r) = fst r"
  by (auto simp: run_cons_def split: prod.split sum.split)

lemma fst_run_map [simp]: "fst (run_map f r) = fst r"
  by (auto simp: run_map_def split: prod.split sum.split)

lemma fst_run_query:
  "fst (run_query q db f) = (case q of Inl e \<Rightarrow> db | Inr x \<Rightarrow> fst (f x))"
  by (cases q) (simp_all add: run_query_def)

lemma books_settle_list:
  assumes "books_ok db"
    and "\<forall>b \<in> set bs. \<not> has_reward_entry (db_ledger db) (rb_hash_hex b)
      \<and> (\<exists>row \<in> set (db_blocks db). bk_hash_hex row = rb_hash_hex b \<and> bk_status row = ''confirmed'')"
    and "distinct (map rb_hash_hex bs)"
  shows "books_ok (fst (settle_blocks fee weights bs db))"
  using assms
proof (induction bs arbitrary: db)
  case (Cons b bs)
  show ?case
  proof (cases "weights (rb_job_id b)")
    case (Inr shares)
    show ?thesis
    proof (cases "settle_reward_block b fee shares")
      case (Inl err)
      with Inr Cons show ?thesis by (simp add: fst_run_query)
    next
      case settled: (Inr s)
      let ?db1 = "append_ledger_entries (sr_ledger_entries s) db"
      let ?rows = "map ledger_row_of_entry (sr_ledger_entries s)"
      have step: "books_ok ?db1 \<and> db_ledger ?db1 = db_ledger db @ ?rows"
        using Cons.prems by (intro books_settle_block [OF _ settled]) auto
      have "\<not> has_reward_entry (db_ledger ?db1) (rb_hash_hex b')
          \<and> (\<exists>row \<in> set (db_blocks ?db1). bk_hash_hex row = rb_hash_hex b' \<and> bk_status row = ''confirmed'')"
        if "b' \<in> set bs" for b'
      proof -
        have other: "rb_hash_hex b' \<noteq> rb_hash_hex b" using Cons.prems(3) that by (metis distinct.simps(2) imageI list.set_map list.simps(9))
        have "\<not> has_reward_entry ?rows (rb_hash_hex b')"
          using settle_rows(1) [OF settled] other unfolding has_reward_entry_def list_ex_iff by fastforce
        then show ?thesis using Cons.prems(2) that step by (auto simp: has_reward_entry_def)
      qed
      then have "books_ok (fst (settle_blocks fee weights bs ?db1))"
        using step Cons.prems(3) by (intro Cons.IH) simp_all
      with Inr settled show ?thesis by (simp add: fst_run_query)
    qed
  qed (use Cons in \<open>simp add: fst_run_query\<close>)
qed simp

lemma books_settle_rewards:
  assumes "books_ok db"
  shows "books_ok (fst (settle_rewards cfg weights db))"
proof (cases "list_confirmed_unsettled_blocks 100 db")
  case (Inr blocks)
  let ?P = "\<lambda>b. bk_status b = ''confirmed'' \<and> 0 < bk_reward_base_units b \<and> bk_job_id b \<noteq> None
                    \<and> \<not> has_reward_entry (db_ledger db) (bk_hash_hex b)"
  let ?rows = "take 100 (sort_key (nulls_last \<circ> bk_confirmed_at) (filter ?P (db_blocks db)))"
  have "map rb_hash_hex blocks = map bk_hash_hex ?rows"
    by (rule map_result_map [OF Inr [unfolded list_confirmed_unsettled_blocks_def]])
      (auto simp: result_bind_eq_Inr)
  moreover have "distinct (map bk_hash_hex ?rows)"
    using books_okD(3) [OF assms] by (intro distinct_query) (simp add: rewards_ok_def)
  moreover have "\<not> has_reward_entry (db_ledger db) (rb_hash_hex b)
      \<and> (\<exists>row \<in> set (db_blocks db). bk_hash_hex row = rb_hash_hex b \<and> bk_status row = ''confirmed'')"
    if "b \<in> set blocks" for b
  proof -
    have "rb_hash_hex b \<in> set (map bk_hash_hex ?rows)"
      using that calculation(1) by (metis image_eqI list.set_map)
    then obtain row where row: "rb_hash_hex b = bk_hash_hex row" "row \<in> set ?rows" by auto
    then have "row \<in> set (db_blocks db)" "?P row"
      using set_query [of 100 "nulls_last \<circ> bk_confirmed_at" ?P "db_blocks db"] by blast+
    then show ?thesis using row by auto
  qed
  ultimately show ?thesis
    using assms Inr by (simp add: settle_rewards_def fst_run_query books_settle_list)
qed (simp add: settle_rewards_def fst_run_query assms)

section \<open>Maturity\<close>

lemma sint_parse_i128:
  assumes "parse_i128 a = Inr w"
  shows "sint w = a"
proof -
  have a: "- (2 ^ 127) \<le> a" "a < 2 ^ 127" and w: "w = word_of_int a"
    using assms by (auto simp: parse_i128_def split: if_splits)
  have "sint w = signed_take_bit 127 a"
    unfolding w sint_uint uint_word_of_int_eq by (simp add: signed_take_bit_take_bit)
  also have "\<dots> = a" using a by (intro signed_take_bit_int_eq_self) simp_all
  finally show ?thesis .
qed

lemma books_mature_rewards:
  assumes books: "books_ok db"
  shows "books_ok (fst (mature_rewards cfg db))"
proof (cases "list_mature_reward_entries (wc_confirm_depth cfg) 1000 db")
  case (Inr entries)
  let ?of = "\<lambda>b. bk_status b = ''confirmed'' \<and> uint (wc_confirm_depth cfg) \<le> bk_confirmations b"
  let ?source = "reward_rows ?of RewardMature bk_confirmed_at 1000 db"
  let ?mature = "\<lambda>r. r\<lparr>lr_kind := RewardMature\<rparr> :: ledger_row"
  let ?rows = "map ledger_row_of_entry entries"
  have result: "map_result (\<lambda>r. reward_entry RewardMature (lr_amount r) r) ?source = Inr entries"
    using Inr by (auto simp: list_mature_reward_entries_def split: if_splits)
  have in_L: "r \<in> set (db_ledger db)" "lr_kind r = RewardImmature" "lr_ref_type r = ''block''"
    "\<not> has_entry_like (db_ledger db) RewardMature r" if "r \<in> set ?source" for r
    using subsetD [OF set_query that [unfolded reward_rows_def]] by simp_all
  have rows: "?rows = map ?mature ?source"
  proof -
    have "list_all2 (\<lambda>r e. ledger_row_of_entry e = ?mature r) ?source entries"
      using result [unfolded map_result_Inr]
    proof (rule list.rel_mono_strong, goal_cases)
      case (1 r e)
      then show ?case
        using in_L(3) [of r]
        by (cases r) (auto simp: reward_entry_def result_bind_eq_Inr ledger_row_of_entry_def sint_parse_i128)
    qed
    then show ?thesis by (induction rule: list_all2_induct) auto
  qed
  have source_keys: "distinct (map ledger_key ?source)"
    using books_okD(2) [OF books] unfolding reward_rows_def by (rule distinct_query)
  have keys_rows: "distinct (map ledger_key ?rows)"
  proof -
    have "map (\<lambda>r. (lr_miner r, lr_ref_type r, lr_ref_id r)) ?source
        = map (\<lambda>k. (fst k, snd (snd k))) (map ledger_key ?source)" by (simp add: ledger_key_def)
    show ?thesis
      unfolding rows map_map
      using source_keys in_L(2) by (auto simp: distinct_map inj_on_def ledger_key_def)
  qed
  have keys: "distinct (map ledger_key (db_ledger db @ ?rows))"
  proof (rule distinct_map_appendI [OF books_okD(2) [OF books] keys_rows])
    fix r r'
    assume r: "r \<in> set (db_ledger db)" and "r' \<in> set ?rows"
    then obtain s where s: "s \<in> set ?source" "r' = ?mature s" unfolding rows by auto
    show "ledger_key r \<noteq> ledger_key r'"
    proof
      assume "ledger_key r = ledger_key r'"
      with r s(2) have "has_entry_like (db_ledger db) RewardMature s"
        unfolding has_entry_like_def list_ex_iff by (intro bexI [of _ r]) (simp_all add: ledger_key_def)
      with in_L(4) [OF s(1)] show False by simp
    qed
  qed
  have partner: "r\<lparr>lr_kind := RewardImmature\<rparr> \<in> set (db_ledger db)" if "r \<in> set ?rows" for r
  proof -
    obtain s where s: "s \<in> set ?source" "r = ?mature s" using \<open>r \<in> set ?rows\<close> unfolding rows by auto
    have "r\<lparr>lr_kind := RewardImmature\<rparr> = s" using in_L(2) [OF s(1)] s(2) by (cases s) simp
    then show ?thesis using in_L(1) [OF s(1)] by simp
  qed
  have kinds: "lr_kind r = RewardMature" if "r \<in> set ?rows" for r
    using that unfolding rows by auto
  have "rewards_ok (db\<lparr>db_ledger := db_ledger db @ ?rows\<rparr>)"
    using books_okD(3) [OF books] partner kinds unfolding rewards_ok_def
    by (auto simp: reward_kinds_def simp del: set_map)
  moreover have "filter payout_row ?rows = []"
    using kinds by (auto simp: filter_empty_conv payout_row_def simp del: set_map)
  then have "batches_ok (db\<lparr>db_ledger := db_ledger db @ ?rows\<rparr>)"
    using books_okD(4) [OF books] unfolding batches_ok_def by simp
  ultimately have "books_ok (append_ledger_entries entries db)"
    using keys kinds by (intro conjunct1 [OF books_append [where k = RewardMature and db = db]])
      (auto simp: books simp del: set_map)
  then show ?thesis using Inr by (simp add: mature_rewards_def fst_run_query)
qed (simp add: mature_rewards_def fst_run_query books)

section \<open>Blocks\<close>

text \<open>Transactions that leave the ledger, the balances and the batches alone.\<close>

lemma books_blocks:
  assumes "books_ok db" and "db_ledger db' = db_ledger db" and "db_balances db' = db_balances db"
    and "db_batches db' = db_batches db" and "rewards_ok db'"
  shows "books_ok db'"
  using assms exact_cong [of db' db] batches_ok_cong [of db' db] by (simp add: books_ok_def)

lemma rewards_okD:
  "rewards_ok db \<Longrightarrow> r \<in> set (db_ledger db) \<Longrightarrow> lr_kind r \<in> reward_kinds
    \<Longrightarrow> \<exists>b \<in> set (db_blocks db). bk_hash_hex b = lr_ref_id r \<and> bk_status b = ''confirmed''"
  by (simp add: rewards_ok_def)

definition unrewarded :: "pool_db \<Rightarrow> string \<Rightarrow> bool" where
  "unrewarded db hash \<longleftrightarrow> (\<forall>r \<in> set (db_ledger db). lr_kind r \<in> reward_kinds \<longrightarrow> lr_ref_id r \<noteq> hash)"

lemma books_update_block:
  assumes books: "books_ok db" and hash: "unrewarded db (bu_hash_hex u)"
    and ok: "update_block_status now u db = Inr (db', updated)"
  shows "books_ok db' \<and> db_ledger db' = db_ledger db"
proof -
  define f where "f = (\<lambda>b. if bk_hash_hex b = bu_hash_hex u then updated_block now u b else b)"
  have db': "db' = db\<lparr>db_blocks := map f (db_blocks db)\<rparr>"
    using ok by (auto simp: update_block_status_def f_def split: if_splits)
  have hashes: "bk_hash_hex (f b) = bk_hash_hex b" for b by (simp add: f_def updated_block_def)
  have kept: "\<exists>b \<in> set (map f (db_blocks db)). bk_hash_hex b = lr_ref_id r \<and> bk_status b = ''confirmed''"
    if r: "r \<in> set (db_ledger db)" "lr_kind r \<in> reward_kinds" for r
  proof -
    obtain b where b: "b \<in> set (db_blocks db)" "bk_hash_hex b = lr_ref_id r" "bk_status b = ''confirmed''"
      using rewards_okD [OF books_okD(3) [OF books] r] by blast
    have "f b = b" using hash r b(2) by (simp add: f_def unrewarded_def)
    moreover have "f b \<in> set (map f (db_blocks db))" using b(1) by simp
    ultimately show ?thesis using b(2,3) by (intro bexI [of _ b]) simp_all
  qed
  have "rewards_ok db'"
    unfolding rewards_ok_def
  proof (intro conjI ballI impI)
    show "distinct (map bk_hash_hex (db_blocks db'))"
      using books_okD(3) [OF books] by (simp add: db' comp_def hashes rewards_ok_def)
    show "\<exists>b \<in> set (db_blocks db'). bk_hash_hex b = lr_ref_id r \<and> bk_status b = ''confirmed''"
      if "r \<in> set (db_ledger db')" "lr_kind r \<in> reward_kinds" for r
      unfolding db' using kept [of r] that by (simp add: db' del: set_map)
  qed (use books_okD(3) [OF books] in \<open>simp_all add: db' rewards_ok_def\<close>)
  then show ?thesis using books_blocks [OF books, of db'] by (simp add: db')
qed

lemma books_reconcile_list:
  "books_ok db \<Longrightarrow> \<forall>b \<in> set bs. unrewarded db (bk_hash_hex b)
    \<Longrightarrow> books_ok (fst (reconcile_block_list now required node bs db))"
proof (induction bs arbitrary: db)
  case (Cons b bs)
  show ?case
  proof (cases "node (bk_hash_hex b)")
    case (Inr status)
    let ?u = "block_update_from_status (bk_hash_hex b) status required"
    show ?thesis
    proof (cases "update_block_status now ?u db")
      case ok: (Inr r)
      obtain db' updated where r: "r = (db', updated)" by (cases r)
      have "books_ok db' \<and> db_ledger db' = db_ledger db"
        using Cons.prems by (intro books_update_block [OF _ _ ok [unfolded r]]) (simp_all add: block_update_from_status_def)
      then have "books_ok (fst (reconcile_block_list now required node bs db'))"
        using Cons.prems(2) by (intro Cons.IH) (auto simp: unrewarded_def)
      with Inr ok r show ?thesis by (simp add: fst_run_query)
    qed (use Inr Cons.prems in \<open>simp add: fst_run_query\<close>)
  qed (use Cons.prems in simp)
qed simp

text \<open>A block that is still to be reconciled is not confirmed, so nothing has been credited for it.\<close>

lemma pending_unrewarded:
  assumes "books_ok db" and "b \<in> set (list_blocks_to_reconcile limit db)"
  shows "unrewarded db (bk_hash_hex b)"
proof -
  have b: "b \<in> set (db_blocks db)" "bk_status b \<in> set pending_block_statuses"
    using subsetD [OF set_query assms(2) [unfolded list_blocks_to_reconcile_def]] by simp_all
  have "lr_ref_id r \<noteq> bk_hash_hex b" if r: "r \<in> set (db_ledger db)" "lr_kind r \<in> reward_kinds" for r
  proof
    assume eq: "lr_ref_id r = bk_hash_hex b"
    obtain b' where b': "b' \<in> set (db_blocks db)" "bk_hash_hex b' = lr_ref_id r" "bk_status b' = ''confirmed''"
      using rewards_okD [OF books_okD(3) [OF assms(1)] r] by blast
    have "inj_on bk_hash_hex (set (db_blocks db))"
      using books_okD(3) [OF assms(1)] by (simp add: rewards_ok_def distinct_map)
    with b b' eq have "b' = b" by (auto dest: inj_onD)
    with b(2) b'(3) show False by (simp add: pending_block_statuses_def)
  qed
  then show ?thesis by (simp add: unrewarded_def)
qed

lemma books_reconcile_blocks: "books_ok db \<Longrightarrow> books_ok (fst (reconcile_blocks now cfg node db))"
  unfolding reconcile_blocks_def by (intro books_reconcile_list ballI pending_unrewarded)

lemma books_record_candidate:
  assumes "books_ok db"
  shows "books_ok (fst (record_block_candidate now block db))"
proof (cases "list_ex (\<lambda>b. bk_hash_hex b = bc_hash_hex block) (db_blocks db)")
  case False
  let ?db' = "fst (record_block_candidate now block db)"
  obtain row where db': "?db' = db\<lparr>db_blocks := db_blocks db @ [row]\<rparr>" "bk_hash_hex row = bc_hash_hex block"
    using False by (auto simp: record_block_candidate_def Let_def)
  have "bk_hash_hex row \<notin> bk_hash_hex ` set (db_blocks db)"
    using False db'(2) by (auto simp: list_ex_iff)
  then have "rewards_ok ?db'"
    using books_okD(3) [OF assms] unfolding rewards_ok_def db'(1) by auto
  then show ?thesis using assms by (rule books_blocks [rotated -1]) (simp_all add: db'(1))
qed (simp add: record_block_candidate_def assms)

text \<open>No reward is ever reversed.\<close>

lemma no_orphan_rewards:
  assumes "books_ok db"
  shows "list_orphan_reversal_entries limit db = Inr []"
proof -
  have "\<not> (lr_kind r = RewardImmature \<and> lr_ref_type r = ''block'' \<and> lr_miner r \<noteq> None
          \<and> (case block_of db (lr_ref_id r) of Some b \<Rightarrow> bk_status b = ''orphaned'' | None \<Rightarrow> False)
          \<and> \<not> has_entry_like (db_ledger db) RewardOrphanReversal r)" if r: "r \<in> set (db_ledger db)" for r
  proof
    assume a: "lr_kind r = RewardImmature \<and> lr_ref_type r = ''block'' \<and> lr_miner r \<noteq> None
          \<and> (case block_of db (lr_ref_id r) of Some b \<Rightarrow> bk_status b = ''orphaned'' | None \<Rightarrow> False)
          \<and> \<not> has_entry_like (db_ledger db) RewardOrphanReversal r"
    then obtain b where b: "block_of db (lr_ref_id r) = Some b" "bk_status b = ''orphaned''"
      by (auto split: option.splits)
    then have "b \<in> set (db_blocks db)" "bk_hash_hex b = lr_ref_id r"
      by (auto simp: block_of_def find_Some_iff)
    moreover obtain b' where "b' \<in> set (db_blocks db)" "bk_hash_hex b' = lr_ref_id r" "bk_status b' = ''confirmed''"
      using rewards_okD [OF books_okD(3) [OF assms] r] a by (auto simp: reward_kinds_def)
    moreover have "inj_on bk_hash_hex (set (db_blocks db))"
      using books_okD(3) [OF assms] by (simp add: rewards_ok_def distinct_map)
    ultimately have "b' = b" by (metis inj_onD)
    with b(2) \<open>bk_status b' = _\<close> show False by simp
  qed
  then have "filter (\<lambda>r. lr_kind r = RewardImmature \<and> lr_ref_type r = ''block'' \<and> lr_miner r \<noteq> None
          \<and> (case block_of db (lr_ref_id r) of Some b \<Rightarrow> bk_status b = ''orphaned'' | None \<Rightarrow> False)
          \<and> \<not> has_entry_like (db_ledger db) RewardOrphanReversal r) (db_ledger db) = []"
    unfolding filter_empty_conv by blast
  then show ?thesis by (simp add: list_orphan_reversal_entries_def reward_rows_def)
qed

lemma reverse_orphans_idle: "books_ok db \<Longrightarrow> fst (reverse_orphans db) = db"
  by (simp add: reverse_orphans_def fst_run_query no_orphan_rewards append_ledger_entries_def)

section \<open>Batches of the books\<close>

lemma audit_tables [simp]:
  "db_ledger (audit i a c d db) = db_ledger db" "db_balances (audit i a c d db) = db_balances db"
  "db_blocks (audit i a c d db) = db_blocks db" "db_batches (audit i a c d db) = db_batches db"
  by (simp_all add: audit_def append_payout_audit_event_def)

lemma books_cong:
  "db_ledger db' = db_ledger db \<Longrightarrow> db_balances db' = db_balances db \<Longrightarrow> db_blocks db' = db_blocks db
    \<Longrightarrow> db_batches db' = db_batches db \<Longrightarrow> books_ok db' = books_ok db"
  using exact_cong [of db' db] rewards_ok_cong [of db' db] batches_ok_cong [of db' db] by (simp add: books_ok_def)

lemma books_audit [simp]: "books_ok (audit i a c d db) = books_ok db"
  by (intro books_cong) simp_all

lemma update_batch_tables [simp]:
  "db_ledger (fst (update_batch i sts f db)) = db_ledger db"
  "db_balances (fst (update_batch i sts f db)) = db_balances db"
  "db_blocks (fst (update_batch i sts f db)) = db_blocks db"
  by (simp_all add: update_batch_def)

text \<open>Moving a batch from an open status to an open one.\<close>

lemma books_mark:
  assumes books: "books_ok db"
    and f: "\<And>b. pb_status b \<in> set sts \<Longrightarrow> pb_status b \<in> open_statuses \<and> pb_status (f b) \<in> open_statuses
      \<and> pb_id (f b) = pb_id b \<and> pb_recipients (f b) = pb_recipients b"
  shows "books_ok (fst (update_batch i sts f db))"
proof -
  define g where "g = (\<lambda>b. if pb_id b = i \<and> pb_status b \<in> set sts then f b else b)"
  have batches: "db_batches (fst (update_batch i sts f db)) = map g (db_batches db)"
    by (simp add: update_batch_def g_def)
  have open_closed: "s \<in> open_statuses \<Longrightarrow> s \<notin> failed_statuses \<and> s \<noteq> ''confirmed''" for s
    by (auto simp: open_statuses_def failed_statuses_def)
  have g: "pb_id (g b) = pb_id b" "batch_rows (g b) = batch_rows b" "batch_ok (g b) = batch_ok b" for b
    using f [of b] open_closed by (auto simp: g_def batch_rows_def batch_ok_def)
  have "batches_ok (fst (update_batch i sts f db))"
    using books_okD(4) [OF books] unfolding batches_ok_def batches by (simp add: comp_def g)
  moreover have "rewards_ok (fst (update_batch i sts f db))"
    using books_okD(3) [OF books] rewards_ok_cong [of "fst (update_batch i sts f db)" db] by simp
  moreover have "exact (fst (update_batch i sts f db))"
    using books_okD(1) [OF books] exact_cong [of "fst (update_batch i sts f db)" db] by simp
  ultimately show ?thesis using books by (simp add: books_ok_def)
qed

lemma update_one:
  assumes "distinct (map pb_id bs)" and "b \<in> set bs" and "pb_id b = i" and "P b"
  obtains ys zs where "bs = ys @ b # zs" and "map (\<lambda>b. if pb_id b = i \<and> P b then f b else b) bs = ys @ f b # zs"
proof -
  obtain ys zs where bs: "bs = ys @ b # zs" using split_list [OF assms(2)] by blast
  then have "i \<notin> pb_id ` set ys" "i \<notin> pb_id ` set zs" using assms(1,3) by auto
  then have "map (\<lambda>b. if pb_id b = i \<and> P b then f b else b) bs = ys @ f b # zs"
    using assms(3,4) unfolding bs by (auto simp: image_iff intro!: map_idI)
  with bs that show thesis by blast
qed

lemma payout_row_of_batch:
  assumes "batches_ok db" and "r \<in> set (db_ledger db)" and "payout_row r"
  shows "\<exists>b \<in> set (db_batches db). r \<in> set (batch_rows b)"
proof -
  have "set (filter payout_row (db_ledger db)) = set (concat (map batch_rows (db_batches db)))"
    using assms(1) unfolding batches_ok_def by (metis mset_eq_setD)
  then show ?thesis using assms(2,3) by auto
qed

lemma batch_rows_ref: "r \<in> set (batch_rows b) \<Longrightarrow> lr_ref_id r = pb_id b"
  by (auto simp: batch_rows_def split: if_splits)

lemma open_batch_rows:
  "pb_status b \<in> open_statuses \<Longrightarrow> batch_rows b = map (payout_lock_row (pb_id b)) (pb_recipients b)"
  by (auto simp: batch_rows_def open_statuses_def failed_statuses_def)

text \<open>
  Closing an open batch: its status becomes final, and the entries that unlock its amounts, or record
  them as sent, are appended.
\<close>

definition close_row :: "ledger_kind \<Rightarrow> string \<Rightarrow> payout_recipient \<Rightarrow> ledger_row" where
  "close_row k i = (if k = PayoutSent then sent_row i else unlock_row i)"

lemma books_close:
  assumes books: "books_ok db" and b: "b \<in> set (db_batches db)" "pb_id b = i" "pb_status b \<in> set sts"
    and open': "pb_status b \<in> open_statuses"
    and fb: "pb_id (f b) = i" "pb_recipients (f b) = pb_recipients b"
    and k: "k = PayoutFailedUnlock \<and> pb_status (f b) \<in> failed_statuses
      \<or> k = PayoutSent \<and> pb_status (f b) = ''confirmed''"
    and rows: "map ledger_row_of_entry entries = map (close_row k i) recipients"
    and recipients: "mset recipients = mset (pb_recipients b)"
  shows "books_ok (append_ledger_entries entries (fst (update_batch i sts f db)))"
proof -
  let ?db1 = "fst (update_batch i sts f db)"
  let ?rows = "map (close_row k i) recipients"
  have ok: "batch_ok b" and ids: "distinct (map pb_id (db_batches db))"
    using books_okD(4) [OF books] b(1) by (simp_all add: batches_ok_def)
  have set_rs: "set recipients = set (pb_recipients b)" using recipients by (metis mset_eq_setD)
  have "distinct recipients" "inj_on rc_miner (set recipients)"
    using ok mset_eq_imp_distinct_iff [OF recipients] by (simp_all add: batch_ok_def distinct_map set_rs)
  then have miners: "distinct (map rc_miner recipients)" by (simp add: distinct_map)
  have row: "lr_kind (close_row k i r) = k" "lr_ref_id (close_row k i r) = i" "lr_miner (close_row k i r) = Some (rc_miner r)"
    for r using k by (auto simp: close_row_def)
  have "distinct (map ledger_key ?rows)"
  proof (rule distinct_keys_of_miners)
    show "distinct (map lr_miner ?rows)" using miners by (simp add: comp_def row distinct_map inj_on_def)
  qed
  moreover have "ledger_key r \<noteq> ledger_key r'" if r: "r \<in> set (db_ledger db)" "r' \<in> set ?rows" for r r'
  proof
    assume "ledger_key r = ledger_key r'"
    then have r': "lr_kind r = k" "lr_ref_id r = i" using r(2) row by (auto simp: ledger_key_def)
    have "payout_row r" using r'(1) k by (auto simp: payout_row_def)
    then obtain b0 where b0: "b0 \<in> set (db_batches db)" "r \<in> set (batch_rows b0)"
      using payout_row_of_batch [OF books_okD(4) [OF books] r(1)] by blast
    have "inj_on pb_id (set (db_batches db))" using ids by (simp add: distinct_map)
    then have "b0 = b" using b0(1) b(1,2) batch_rows_ref [OF b0(2)] r'(2) by (metis inj_onD)
    then have "lr_kind r = PayoutLock" using b0(2) open_batch_rows [OF open'] by auto
    then show False using r'(1) k by auto
  qed
  ultimately have keys: "distinct (map ledger_key (db_ledger db @ ?rows))"
    using distinct_map_appendI [OF books_okD(2) [OF books]] by blast
  obtain ys zs where yz: "db_batches db = ys @ b # zs"
    and new: "map (\<lambda>b. if pb_id b = i \<and> pb_status b \<in> set sts then f b else b) (db_batches db) = ys @ f b # zs"
    using update_one [where P = "\<lambda>b. pb_status b \<in> set sts", OF ids b(1,2,3)] by blast
  have batches1: "db_batches ?db1 = ys @ f b # zs" using new by (simp add: update_batch_def)
  have closed: "mset (batch_rows (f b)) = mset (batch_rows b) + mset ?rows"
    using k open_batch_rows [OF open'] fb recipients b(2)
    by (auto simp: batch_rows_def close_row_def failed_statuses_def)
  have payout: "filter payout_row ?rows = ?rows"
    using k row(1) by (intro filter_True) (auto simp: payout_row_def)
  have "batch_ok (f b)" using ok k fb by (auto simp: batch_ok_def)
  then have "batches_ok (?db1\<lparr>db_ledger := db_ledger db @ ?rows\<rparr>)"
    using books_okD(4) [OF books] closed b(2) fb(1) payout
    unfolding batches_ok_def yz by (simp add: batches1 del: mset_map)
  moreover have "rewards_ok (?db1\<lparr>db_ledger := db_ledger db @ ?rows\<rparr>)"
    using books_okD(3) [OF books] row(1) k unfolding rewards_ok_def by (auto simp: reward_kinds_def)
  moreover have "\<forall>r \<in> set ?rows. lr_kind r = PayoutSent \<longrightarrow> - (2 ^ 127) < lr_amount r"
    using ok set_rs by (auto simp: close_row_def batch_ok_def small_amounts_def row_amounts)
  ultimately show ?thesis
    using keys k row(1)
    by (intro conjunct1 [OF books_append [where k = k and db = db and rows = ?rows]]) (auto simp: books rows)
qed

text \<open>What a worker knows of a batch is still so: its row has one of the statuses.\<close>

definition current :: "string set \<Rightarrow> pool_db \<Rightarrow> payout_batch_record \<Rightarrow> bool" where
  "current S db rec \<longleftrightarrow> (\<exists>b \<in> set (db_batches db). pb_id b = pr_batch_id rec \<and> pb_status b \<in> S
     \<and> mset (pr_recipients rec) = mset (pb_recipients b))"

lemma current_other:
  assumes "current S db rec" and "\<And>b. b \<in> set (db_batches db) \<Longrightarrow> pb_id b = pr_batch_id rec \<Longrightarrow> b \<in> set (db_batches db')"
  shows "current S db' rec"
  using assms by (auto simp: current_def)

lemma update_batch_other:
  "b \<in> set (db_batches db) \<Longrightarrow> pb_id b \<noteq> i \<Longrightarrow> b \<in> set (db_batches (fst (update_batch i sts f db)))"
  by (auto simp: update_batch_def image_iff)

lemma hydrate_batch_Inr:
  "hydrate_batch b = Inr rec \<Longrightarrow> pr_batch_id rec = pb_id b \<and> pr_recipients rec = sort_key rc_miner (pb_recipients b)
    \<and> pr_status rec = pb_status b \<and> pr_txid rec = pb_txid b"
  by (auto simp: hydrate_batch_def result_bind_eq_Inr)

lemma current_hydrated:
  "b \<in> set (db_batches db) \<Longrightarrow> pb_status b \<in> S \<Longrightarrow> hydrate_batch b = Inr rec \<Longrightarrow> current S db rec"
  unfolding current_def by (intro bexI [of _ b]) (auto dest: hydrate_batch_Inr)

lemma listed_batches:
  assumes books: "books_ok db" and listed: "list_payout_batches_by_status sts n db = Inr recs"
  shows "\<forall>rec \<in> set recs. current (set sts) db rec" and "distinct (map pr_batch_id recs)"
proof -
  let ?rows = "take n (sort_key (\<lambda>b. (pb_created_at b, pb_id b)) (filter (\<lambda>b. pb_status b \<in> set sts) (db_batches db)))"
  have result: "map_result hydrate_batch ?rows = Inr recs"
    using listed by (simp add: list_payout_batches_by_status_def batch_order_def)
  have rows: "b \<in> set (db_batches db)" "pb_status b \<in> set sts" if "b \<in> set ?rows" for b
    using subsetD [OF set_query that] by simp_all
  show "\<forall>rec \<in> set recs. current (set sts) db rec"
  proof
    fix rec assume "rec \<in> set recs"
    then obtain b where "b \<in> set ?rows" "hydrate_batch b = Inr rec"
      using map_result_set [OF result] by blast
    then show "current (set sts) db rec" using rows by (intro current_hydrated)
  qed
  have "map pr_batch_id recs = map pb_id ?rows"
    by (rule map_result_map [OF result]) (simp add: hydrate_batch_Inr)
  moreover have "distinct (map pb_id ?rows)"
    using books_okD(4) [OF books] by (intro distinct_query) (simp add: batches_ok_def)
  ultimately show "distinct (map pr_batch_id recs)" by simp
qed

lemma batch_by_id:
  "payout_batch_by_id_and_statuses i sts db = Inr (Some rec) \<Longrightarrow> current (set sts) db rec \<and> pr_batch_id rec = i"
  unfolding payout_batch_by_id_and_statuses_def
  by (auto split: option.splits simp: result_bind_eq_Inr find_Some_iff intro!: current_hydrated dest: hydrate_batch_Inr)

section \<open>The payout jobs\<close>

definition failable_statuses :: "string list" where
  "failable_statuses = [''needs_approval'', ''created'', ''signed'', ''submitted'']"

lemma set_failable: "set failable_statuses = open_statuses"
  by (simp add: failable_statuses_def open_statuses_def)

lemma unlock_entries:
  "map ledger_row_of_entry (map (payout_entry PayoutFailedUnlock (\<lambda>a. a) i) rs) = map (close_row PayoutFailedUnlock i) rs"
  "map ledger_row_of_entry (map (payout_entry PayoutSent uminus i) rs) = map (close_row PayoutSent i) rs"
  by (simp_all add: close_row_def unlock_row_def sent_row_def)

lemma books_fail_batch:
  assumes books: "books_ok db" and rec: "current S db rec" and S: "S \<subseteq> open_statuses"
  shows "books_ok (fail_batch actor details rec reason db)"
proof -
  obtain b where b: "b \<in> set (db_batches db)" "pb_id b = pr_batch_id rec" "pb_status b \<in> S"
    and rs: "mset (pr_recipients rec) = mset (pb_recipients b)"
    using rec by (auto simp: current_def)
  have "books_ok (append_ledger_entries (map (payout_entry PayoutFailedUnlock (\<lambda>a. a) (pr_batch_id rec)) (pr_recipients rec))
     (fst (update_batch (pr_batch_id rec) failable_statuses
        (\<lambda>b. b\<lparr>pb_status := ''failed'', pb_failure_reason := Some reason\<rparr>) db)))"
    by (rule books_close [OF books b(1,2) _ _ _ _ _ unlock_entries(1) rs])
      (use b S in \<open>auto simp: set_failable failed_statuses_def\<close>)
  then show ?thesis
    by (simp add: fail_batch_def unlock_failed_payout_def mark_payout_failed_def failable_statuses_def Let_def)
qed

lemma books_pay_batch:
  assumes books: "books_ok db" and rec: "current {''submitted''} db rec"
  shows "books_ok (fst (mark_payout_paid rec (fst (mark_payout_confirmed (pr_batch_id rec) db))))"
proof -
  obtain b where b: "b \<in> set (db_batches db)" "pb_id b = pr_batch_id rec" "pb_status b = ''submitted''"
    and rs: "mset (pr_recipients rec) = mset (pb_recipients b)"
    using rec by (auto simp: current_def)
  have "books_ok (append_ledger_entries (map (payout_entry PayoutSent uminus (pr_batch_id rec)) (pr_recipients rec))
     (fst (update_batch (pr_batch_id rec) [''submitted'', ''signed''] (\<lambda>b. b\<lparr>pb_status := ''confirmed''\<rparr>) db)))"
    by (rule books_close [OF books b(1,2) _ _ _ _ _ unlock_entries(2) rs])
      (use b in \<open>auto simp: open_statuses_def\<close>)
  then show ?thesis by (simp add: mark_payout_paid_def mark_payout_confirmed_def Let_def)
qed

lemma books_cancel_payout:
  assumes books: "books_ok db" and ok: "cancel_payout i reason db = Inr (db', batch)"
  shows "books_ok db'"
proof -
  let ?sts = "[''needs_approval'', ''created'', ''signed'']"
  let ?f = "\<lambda>b. b\<lparr>pb_status := ''cancelled'', pb_failure_reason := Some reason\<rparr>"
  obtain found where found: "payout_batch_by_id_and_statuses i ?sts db = Inr found"
    and rest: "(case found of None \<Rightarrow> Inr (db, None)
        | Some batch \<Rightarrow> let (db', updated) = update_batch i ?sts ?f db
            in if updated then Inr (fst (unlock_failed_payout batch db'), Some (batch\<lparr>pr_status := ''cancelled''\<rparr>))
               else Inr (db', None)) = (Inr (db', batch) :: db_error + _)"
    using ok by (auto simp: cancel_payout_def result_bind_eq_Inr)
  show ?thesis
  proof (cases found)
    case None
    with rest books show ?thesis by simp
  next
    case (Some rec)
    have rec: "current (set ?sts) db rec" "pr_batch_id rec = i" using batch_by_id found Some by blast+
    then obtain b where b: "b \<in> set (db_batches db)" "pb_id b = i" "pb_status b \<in> set ?sts"
      and rs: "mset (pr_recipients rec) = mset (pb_recipients b)"
      by (auto simp: current_def)
    have "books_ok (append_ledger_entries (map (payout_entry PayoutFailedUnlock (\<lambda>a. a) i) (pr_recipients rec))
       (fst (update_batch i ?sts ?f db)))"
      by (rule books_close [OF books b(1,2,3) _ _ _ _ unlock_entries(1) rs])
        (use b in \<open>auto simp: open_statuses_def failed_statuses_def\<close>)
    moreover have "snd (update_batch i ?sts ?f db)"
      using b by (auto simp: update_batch_def list_ex_iff)
    ultimately show ?thesis
      using rest Some rec(2) by (auto simp: unlock_failed_payout_def Let_def split: prod.splits)
  qed
qed

text \<open>A step on one batch: it keeps the books, and the other batches.\<close>

definition batch_step :: "string set \<Rightarrow> payout_batch_record \<Rightarrow> pool_db \<Rightarrow> pool_db \<Rightarrow> bool" where
  "batch_step S rec db db' \<longleftrightarrow> books_ok db' \<and> (\<forall>b \<in> set (db_batches db). pb_id b \<noteq> pr_batch_id rec \<longrightarrow> b \<in> set (db_batches db'))"

lemma fail_batch_tables [simp]:
  "db_blocks (fail_batch actor details rec reason db) = db_blocks db"
  by (simp add: fail_batch_def unlock_failed_payout_def mark_payout_failed_def Let_def)

lemma step_fail:
  assumes "books_ok db" and "current S db rec" and "S \<subseteq> open_statuses"
  shows "batch_step S rec db (fail_batch actor details rec reason db)"
  using books_fail_batch [OF assms] update_batch_other
  by (simp add: batch_step_def) (simp add: fail_batch_def unlock_failed_payout_def mark_payout_failed_def Let_def)

lemma step_mark:
  assumes "books_ok db" and "S \<subseteq> open_statuses"
    and "\<And>b. pb_status b \<in> set sts \<Longrightarrow> pb_status b \<in> open_statuses \<and> pb_status (f b) \<in> open_statuses
      \<and> pb_id (f b) = pb_id b \<and> pb_recipients (f b) = pb_recipients b"
  shows "batch_step S rec db (fst (update_batch (pr_batch_id rec) sts f db))"
  using books_mark [OF assms(1,3)] update_batch_other by (simp add: batch_step_def)

lemma step_audit: "batch_step S rec db db' \<Longrightarrow> batch_step S rec db (audit i a c d db')"
  by (simp add: batch_step_def)

lemma step_refl: "books_ok db \<Longrightarrow> batch_step S rec db db"
  by (simp add: batch_step_def)

lemma step_sign:
  assumes books: "books_ok db" and rec: "current {''created''} db rec"
  shows "batch_step {''created''} rec db (fst (sign_batch hexe json_text sign rec db))"
proof -
  have sub: "{''created''} \<subseteq> open_statuses" by (simp add: open_statuses_def)
  have mark: "batch_step {''created''} rec db (fst (mark_payout_signed (pr_batch_id rec) txid raw db))" for txid raw
    unfolding mark_payout_signed_def by (rule step_mark [OF books sub]) (auto simp: open_statuses_def)
  show ?thesis
    using step_fail [OF books rec sub] mark step_audit
    by (simp add: sign_batch_def Let_def split: sum.split prod.split) (metis fst_conv)
qed

lemma step_submit:
  assumes books: "books_ok db" and rec: "current {''signed''} db rec"
  shows "batch_step {''signed''} rec db (fst (submit_batch nodes rec db))"
proof -
  have sub: "{''signed''} \<subseteq> open_statuses" by (simp add: open_statuses_def)
  have mark: "batch_step {''signed''} rec db (fst (mark_payout_submitted (pr_batch_id rec) txid db))" for txid
    unfolding mark_payout_submitted_def by (rule step_mark [OF books sub]) (auto simp: open_statuses_def)
  then have submitted: "batch_step {''signed''} rec db (fst (submitted_batch rec txid action details reason db))"
    for txid action details reason
    using step_audit by (simp add: submitted_batch_def split: prod.split) (metis fst_conv)
  have deferred: "batch_step {''signed''} rec db (fst (deferred_batch rec reason db))" for reason
    by (simp add: deferred_batch_def step_audit step_refl [OF books])
  show ?thesis
    using step_fail [OF books rec sub] submitted deferred
    by (simp add: submit_batch_def Let_def split: sum.split option.split)
qed

lemma step_reconcile:
  assumes books: "books_ok db" and rec: "current {''submitted''} db rec"
  shows "batch_step {''submitted''} rec db (fst (reconciled_payout rec status db))"
proof -
  have sub: "{''submitted''} \<subseteq> open_statuses" by (simp add: open_statuses_def)
  have "batch_step {''submitted''} rec db (fst (mark_payout_paid rec (fst (mark_payout_confirmed (pr_batch_id rec) db))))"
    using books_pay_batch [OF books rec] update_batch_other
    by (simp add: batch_step_def) (simp add: mark_payout_paid_def mark_payout_confirmed_def Let_def)
  then show ?thesis
    using step_fail [OF books rec sub] step_refl [OF books] step_audit
    by (auto simp: reconciled_payout_def Let_def split: prod.split)
qed

lemma current_step:
  assumes "batch_step S rec db db'" and "current S db rec'" and "pr_batch_id rec' \<noteq> pr_batch_id rec"
  shows "current S db' rec'"
  using assms(1,3) by (intro current_other [OF assms(2)]) (auto simp: batch_step_def)

lemma distinct_map_Cons: "distinct (map f (x # xs)) \<Longrightarrow> y \<in> set xs \<Longrightarrow> f y \<noteq> f x"
  by (metis distinct.simps(2) imageI list.set_map list.simps(9))

lemma books_each_batch:
  assumes "\<And>rec db. books_ok db \<Longrightarrow> current S db rec \<Longrightarrow> batch_step S rec db (fst (f rec db))"
  shows "books_ok db \<Longrightarrow> \<forall>rec \<in> set recs. current S db rec \<Longrightarrow> distinct (map pr_batch_id recs)
    \<Longrightarrow> books_ok (fst (each_batch f recs db))"
proof (induction recs arbitrary: db)
  case (Cons rec recs)
  obtain db' outcome where f: "f rec db = (db', outcome)" by (cases "f rec db")
  have step: "batch_step S rec db db'" using assms [of db rec] Cons.prems f by simp
  then have "current S db' rec'" if "rec' \<in> set recs" for rec'
    using Cons.prems(2) that by (intro current_step [OF step] distinct_map_Cons [OF Cons.prems(3)]) simp_all
  then have "books_ok (fst (each_batch f recs db'))"
    using step Cons.prems(3) by (intro Cons.IH) (simp_all add: batch_step_def)
  then show ?case by (simp add: f)
qed simp

lemma books_reconcile_payouts_list:
  "books_ok db \<Longrightarrow> \<forall>rec \<in> set recs. current {''submitted''} db rec \<Longrightarrow> distinct (map pr_batch_id recs)
    \<Longrightarrow> books_ok (fst (reconcile_payout_list node recs db))"
proof (induction recs arbitrary: db)
  case (Cons rec recs)
  have rest: "books_ok (fst (reconcile_payout_list node recs db'))"
    if step: "batch_step {''submitted''} rec db db'" for db'
  proof -
    have "current {''submitted''} db' rec'" if "rec' \<in> set recs" for rec'
      using Cons.prems(2) that by (intro current_step [OF step] distinct_map_Cons [OF Cons.prems(3)]) simp_all
    then show ?thesis using step Cons.prems(3) by (intro Cons.IH) (simp_all add: batch_step_def)
  qed
  have rec: "current {''submitted''} db rec" using Cons.prems(2) by simp
  have "batch_step {''submitted''} rec db (fail_batch actor details rec reason db)" for actor details reason
    using Cons.prems(1) rec by (rule step_fail) (simp add: open_statuses_def)
  moreover have "batch_step {''submitted''} rec db (fst (reconciled_payout rec status db))" for status
    using Cons.prems(1) rec by (rule step_reconcile)
  ultimately show ?case
    using rest Cons.prems(1) by (auto split: option.split sum.split prod.split) (metis fst_conv)
qed simp

lemma books_listed:
  assumes "books_ok db" and "list_payout_batches_by_status [s] n db = Inr recs"
  shows "(\<And>rec db. books_ok db \<Longrightarrow> current {s} db rec \<Longrightarrow> batch_step {s} rec db (fst (f rec db)))
      \<Longrightarrow> books_ok (fst (each_batch f recs db))"
    and "s = ''submitted'' \<Longrightarrow> books_ok (fst (reconcile_payout_list node recs db))"
  using listed_batches [OF assms] assms(1)
  by (auto intro: books_each_batch books_reconcile_payouts_list)

lemma books_sign_payouts: "books_ok db \<Longrightarrow> books_ok (fst (sign_payouts hexe json_text sign db))"
  unfolding sign_payouts_def
  by (auto simp: fst_run_query split: sum.split list.split intro!: books_listed(1) step_sign)

lemma books_submit_payouts: "books_ok db \<Longrightarrow> books_ok (fst (submit_payouts nodes db))"
  unfolding submit_payouts_def
  by (auto simp: fst_run_query split: sum.split intro!: books_listed(1) step_submit)

lemma books_reconcile_payouts: "books_ok db \<Longrightarrow> books_ok (fst (reconcile_payouts node db))"
  unfolding reconcile_payouts_def
  by (auto simp: fst_run_query split: sum.split intro!: books_listed(2))

text \<open>Locking a batch moves covered amounts, of distinct miners, from confirmed to locked.\<close>

lemma lock_effect:
  "row_effect (payout_lock_row i r) = no_balance\<lparr>bl_confirmed := - uint (rc_amount_base_units r),
     bl_locked := uint (rc_amount_base_units r)\<rparr>"
  by (simp add: row_effect_def Let_def)

lemma lock_one:
  assumes exact: "exact db" and b: "bt_get (db_balances db) (rc_miner r) = Some b"
    and covered: "uint (rc_amount_base_units r) \<le> bl_confirmed b"
    and db1: "db1 = db\<lparr>db_ledger := db_ledger db @ [payout_lock_row i r],
      db_balances := bt_insert (rc_miner r) (b\<lparr>bl_confirmed := max (bl_confirmed b - uint (rc_amount_base_units r)) 0,
         bl_locked := bl_locked b + uint (rc_amount_base_units r)\<rparr>) (db_balances db)\<rparr>"
  shows "exact db1" and "bl_confirmed b = column bl_confirmed (rc_miner r) (db_ledger db)"
proof -
  have wf: "bt_wf (db_balances db)" and bal: "balance_of db m = book m (db_ledger db)" for m
    using exact by (simp_all add: exact_def)
  have bb: "b = book (rc_miner r) (db_ledger db)" using bal [of "rc_miner r"] b by (simp add: balance_of_def)
  then show "bl_confirmed b = column bl_confirmed (rc_miner r) (db_ledger db)" by (simp add: book_def)
  have "balance_of db1 m = book m (db_ledger db1)" for m
  proof (cases "m = rc_miner r")
    case True
    then show ?thesis
      using wf covered by (simp add: balance_of_def db1 bt_get_insert book_def lock_effect bb)
  next
    case False
    then show ?thesis
      using wf bal [of m] by (simp add: balance_of_def db1 bt_get_insert book_def)
  qed
  then show "exact db1" using wf by (simp add: exact_def db1)
qed

lemma lock_recipients_books:
  assumes "lock_recipients i ins rs db = Inr db'" and "exact db" and "distinct (map ledger_key (db_ledger db))"
    and "\<forall>r \<in> set (db_ledger db). lr_kind r = PayoutLock \<and> lr_ref_id r = i \<longrightarrow> lr_miner r \<in> Some ` set ins"
    and "\<forall>m. 0 \<le> column bl_confirmed m (db_ledger db)"
  shows "exact db' \<and> db_ledger db' = db_ledger db @ map (payout_lock_row i) rs
    \<and> distinct (map ledger_key (db_ledger db')) \<and> (\<forall>m. 0 \<le> column bl_confirmed m (db_ledger db'))
    \<and> distinct (map rc_miner rs) \<and> set ins \<inter> rc_miner ` set rs = {}
    \<and> (\<forall>r \<in> set rs. uint (rc_amount_base_units r) \<le> column bl_confirmed (rc_miner r) (db_ledger db))
    \<and> db_blocks db' = db_blocks db \<and> db_batches db' = db_batches db"
  using assms
proof (induction rs arbitrary: ins db)
  case (Cons r rs)
  let ?m = "rc_miner r" and ?a = "uint (rc_amount_base_units r)" and ?row = "payout_lock_row i r"
  obtain b where b: "bt_get (db_balances db) ?m = Some b" "?m \<notin> set ins" "?a \<le> bl_confirmed b"
    using Cons.prems(1) by (auto simp: Let_def split: if_splits option.splits)
  define db1 where "db1 = db\<lparr>db_ledger := db_ledger db @ [?row],
      db_balances := bt_insert ?m (b\<lparr>bl_confirmed := max (bl_confirmed b - ?a) 0, bl_locked := bl_locked b + ?a\<rparr>) (db_balances db)\<rparr>"
  have new: "ledger_key ?row \<notin> ledger_key ` set (db_ledger db)"
  proof
    assume "ledger_key ?row \<in> ledger_key ` set (db_ledger db)"
    then obtain r' where "r' \<in> set (db_ledger db)" "ledger_key r' = ledger_key ?row" by auto
    then have "Some ?m \<in> Some ` set ins" using Cons.prems(4) by (auto simp: ledger_key_def)
    with b(2) show False by auto
  qed
  have rest: "lock_recipients i (?m # ins) rs db1 = Inr db'"
    using Cons.prems(1) b new by (simp add: Let_def db1_def)
  note one = lock_one [where i = i, OF Cons.prems(2) b(1,3) db1_def]
  have tables: "db_ledger db1 = db_ledger db @ [?row]" "db_blocks db1 = db_blocks db" "db_batches db1 = db_batches db"
    by (simp_all add: db1_def)
  have conf: "column bl_confirmed m (db_ledger db1) = column bl_confirmed m (db_ledger db) - (if m = ?m then ?a else 0)" for m
    by (simp add: tables lock_effect)
  have IH: "exact db' \<and> db_ledger db' = db_ledger db1 @ map (payout_lock_row i) rs
    \<and> distinct (map ledger_key (db_ledger db')) \<and> (\<forall>m. 0 \<le> column bl_confirmed m (db_ledger db'))
    \<and> distinct (map rc_miner rs) \<and> set (?m # ins) \<inter> rc_miner ` set rs = {}
    \<and> (\<forall>r \<in> set rs. uint (rc_amount_base_units r) \<le> column bl_confirmed (rc_miner r) (db_ledger db1))
    \<and> db_blocks db' = db_blocks db1 \<and> db_batches db' = db_batches db1"
  proof (rule Cons.IH [OF rest one(1)])
    show "distinct (map ledger_key (db_ledger db1))" using Cons.prems(3) new by (simp add: tables)
    show "\<forall>r \<in> set (db_ledger db1). lr_kind r = PayoutLock \<and> lr_ref_id r = i \<longrightarrow> lr_miner r \<in> Some ` set (?m # ins)"
      using Cons.prems(4) by (auto simp: tables)
    show "\<forall>m. 0 \<le> column bl_confirmed m (db_ledger db1)"
      unfolding conf using Cons.prems(5) b(3) one(2) by simp
  qed
  have le: "column bl_confirmed m (db_ledger db1) \<le> column bl_confirmed m (db_ledger db)" for m
    unfolding conf by simp
  have "\<forall>r' \<in> set (r # rs). uint (rc_amount_base_units r') \<le> column bl_confirmed (rc_miner r') (db_ledger db)"
    using IH b(3) one(2) le by (auto intro: order_trans)
  moreover have "distinct (map rc_miner (r # rs))" "set ins \<inter> rc_miner ` set (r # rs) = {}"
    using IH b(2) by auto
  moreover have "db_ledger db' = db_ledger db @ map (payout_lock_row i) (r # rs)"
    "db_blocks db' = db_blocks db" "db_batches db' = db_batches db"
    using IH by (simp_all add: tables)
  moreover have "exact db'" "distinct (map ledger_key (db_ledger db'))"
    "\<forall>m. 0 \<le> column bl_confirmed m (db_ledger db')" using IH by blast+
  ultimately show ?case by blast
qed simp

text \<open>Credits so far stay below what a signed amount can hold.\<close>

definition rewards_bounded :: "pool_db \<Rightarrow> bool" where
  "rewards_bounded db \<longleftrightarrow> (\<forall>m. reward_sum m (db_ledger db) < 2 ^ 127)"

lemma confirmed_le_rewards:
  assumes "books_ok db"
  shows "column bl_confirmed m (db_ledger db) \<le> reward_sum m (db_ledger db)"
  using books_okD(5) [OF assms, of m] book_total [of m "db_ledger db"] by (simp add: nonneg_def book_def)

lemma books_create_locked:
  assumes books: "books_ok db" and bounded: "rewards_bounded db" and status: "status \<in> open_statuses"
    and ok: "create_locked_payout_batch_with_status now draft status db = Inr (db', created)"
  shows "books_ok db'"
proof (cases "list_ex (\<lambda>b. pb_id b = pd_batch_id draft) (db_batches db)")
  case True
  with ok books show ?thesis by (simp add: create_locked_payout_batch_with_status_def)
next
  case False
  let ?i = "pd_batch_id draft" and ?rs = "pd_recipients draft"
  define row where "row = \<lparr>pb_id = ?i, pb_status = status, pb_total_base_units = uint (pd_total_base_units draft),
    pb_txid = None, pb_raw_tx_hash = None, pb_recipients = ?rs, pb_created_at = now, pb_failure_reason = None\<rparr>"
  let ?db0 = "db\<lparr>db_batches := db_batches db @ [row]\<rparr>"
  have lock: "lock_recipients ?i [] ?rs ?db0 = Inr db'"
    using ok False by (auto simp: create_locked_payout_batch_with_status_def result_bind_eq_Inr row_def)
  have new_id: "?i \<notin> pb_id ` set (db_batches db)" using False by (auto simp: list_ex_iff)
  have no_lock: "\<not> (lr_kind r = PayoutLock \<and> lr_ref_id r = ?i)" if in_L: "r \<in> set (db_ledger db)" for r
  proof
    assume r: "lr_kind r = PayoutLock \<and> lr_ref_id r = ?i"
    then obtain b where "b \<in> set (db_batches db)" "r \<in> set (batch_rows b)"
      using payout_row_of_batch [OF books_okD(4) [OF books] in_L] by (auto simp: payout_row_def)
    with r new_id show False using batch_rows_ref [of r] by (metis imageI)
  qed
  have db0: "db_ledger ?db0 = db_ledger db" "db_blocks ?db0 = db_blocks db" "db_batches ?db0 = db_batches db @ [row]"
    by simp_all
  have locked: "exact db' \<and> db_ledger db' = db_ledger db @ map (payout_lock_row ?i) ?rs
    \<and> distinct (map ledger_key (db_ledger db')) \<and> (\<forall>m. 0 \<le> column bl_confirmed m (db_ledger db'))
    \<and> distinct (map rc_miner ?rs) \<and> set [] \<inter> rc_miner ` set ?rs = {}
    \<and> (\<forall>r \<in> set ?rs. uint (rc_amount_base_units r) \<le> column bl_confirmed (rc_miner r) (db_ledger db))
    \<and> db_blocks db' = db_blocks db \<and> db_batches db' = db_batches db @ [row]"
  proof (rule lock_recipients_books [OF lock, unfolded db0])
    show "exact ?db0" using books_okD(1) [OF books] exact_cong [of ?db0 db] by simp
    show "\<forall>r \<in> set (db_ledger db). lr_kind r = PayoutLock \<and> lr_ref_id r = ?i \<longrightarrow> lr_miner r \<in> Some ` set []"
      using no_lock by blast
  qed (use books in \<open>simp_all add: books_ok_def\<close>)
  then have "small_amounts ?rs"
    using confirmed_le_rewards [OF books] bounded unfolding small_amounts_def rewards_bounded_def
    by (meson le_less_trans order_trans)
  then have row: "batch_ok row" "pb_id row = ?i" "batch_rows row = map (payout_lock_row ?i) ?rs"
    using status locked by (auto simp: batch_ok_def row_def batch_rows_def open_statuses_def failed_statuses_def)
  have "filter payout_row (map (payout_lock_row ?i) ?rs) = map (payout_lock_row ?i) ?rs"
    by (intro filter_True) (auto simp: payout_row_def)
  then have "batches_ok db'"
    using books_okD(4) [OF books] locked row new_id unfolding batches_ok_def by auto
  moreover have "rewards_ok db'"
    using books_okD(3) [OF books] locked unfolding rewards_ok_def by (auto simp: reward_kinds_def)
  ultimately show ?thesis using locked unfolding books_ok_def by blast
qed

end
