(* ===== verification/Csd_Runs.thy ===== *)
theory Csd_Runs
  imports Csd_Books
begin

text \<open>
  Runs of the jobs of csd-pool-workers and of the operator routes over the tables of the ledger: each
  keeps the books and removes no entry of the ledger, so the books balance in every reachable state.
  Appending entries and recording candidates are idempotent: both are logs with a unique key.
\<close>

section \<open>The remaining jobs\<close>

lemma books_settings [simp]: "books_ok (set_payouts_enabled e db) = books_ok db"
  by (intro books_cong) (simp_all add: set_payouts_enabled_def)

lemma books_create_payouts:
  assumes books: "books_ok db" and bounded: "rewards_bounded db"
  shows "books_ok (fst (create_payouts clk cfg db))"
proof -
  have status: "''needs_approval'' \<in> open_statuses" "''created'' \<in> open_statuses"
    by (simp_all add: open_statuses_def)
  have 1: "books_ok (fst (create_for_approval now cfg used draft db))" for now used draft
    using books_create_locked [OF books bounded status(1)] books
    by (auto simp: create_for_approval_def fst_run_query split: sum.split)
  have 2: "books_ok (fst (create_for_signing now used draft db))" for now used draft
    using books_create_locked [OF books bounded status(2)] books
    by (auto simp: create_for_signing_def create_locked_payout_batch_def fst_run_query split: sum.split)
  show ?thesis
    using 1 2 books by (simp add: create_payouts_def fst_run_query Let_def split: sum.split)
qed

lemma books_retry:
  assumes books: "books_ok db" and bounded: "rewards_bounded db"
  shows "books_ok (fst (operator_retry_payout now millis i db))"
proof -
  have "books_ok db'" if "retry_failed_payout now i j db = Inr (db', batch)" for j db' batch
    using that books books_create_locked [OF books bounded, of "''created''" now]
    by (auto simp: retry_failed_payout_def create_locked_payout_batch_def result_bind_eq_Inr Let_def open_statuses_def
        split: option.splits if_splits)
  then show ?thesis
    using books by (auto simp: operator_retry_payout_def fst_run_query Let_def split: sum.split option.split)
qed

lemma books_cancel: "books_ok db \<Longrightarrow> books_ok (fst (operator_cancel_payout i reason db))"
  using books_cancel_payout
  by (auto simp: operator_cancel_payout_def fst_run_query Let_def split: sum.split option.split)

lemma books_approve: "books_ok db \<Longrightarrow> books_ok (fst (operator_approve_payout i db))"
  using books_mark [of db "[''needs_approval'']" "\<lambda>b. b\<lparr>pb_status := ''created''\<rparr>" i]
  by (auto simp: operator_approve_payout_def mark_payout_approved_def open_statuses_def split: prod.split)

section \<open>What a job may do to the tables\<close>

text \<open>The life of a batch; what a batch pays, and to whom, never changes.\<close>

inductive batch_edge :: "string \<Rightarrow> string \<Rightarrow> bool" where
  approve: "batch_edge ''needs_approval'' ''created''"
| sign: "batch_edge ''created'' ''signed''"
| submit: "batch_edge ''signed'' ''submitted''"
| confirm: "s \<in> {''signed'', ''submitted''} \<Longrightarrow> batch_edge s ''confirmed''"
| give_up: "s \<in> open_statuses \<Longrightarrow> batch_edge s ''failed''"
| cancel: "s \<in> open_statuses - {''submitted''} \<Longrightarrow> batch_edge s ''cancelled''"

inductive_cases batch_edgeE: "batch_edge s t"

inductive_simps batch_edge_final:
  "batch_edge ''confirmed'' t" "batch_edge ''failed'' t" "batch_edge ''cancelled'' t"

definition batch_follows :: "batch_row \<Rightarrow> batch_row \<Rightarrow> bool" where
  "batch_follows b b' \<longleftrightarrow> pb_id b' = pb_id b \<and> pb_recipients b' = pb_recipients b
     \<and> pb_total_base_units b' = pb_total_base_units b \<and> pb_created_at b' = pb_created_at b
     \<and> batch_edge\<^sup>*\<^sup>* (pb_status b) (pb_status b')"

lemma batch_follows_refl [simp]: "batch_follows b b"
  by (simp add: batch_follows_def)

lemma batch_kept: "b \<in> set bs \<Longrightarrow> \<exists>b' \<in> set bs. batch_follows b b'"
  using batch_follows_refl by blast

lemma batch_follows_trans: "batch_follows b b' \<Longrightarrow> batch_follows b' b'' \<Longrightarrow> batch_follows b b''"
  by (auto simp: batch_follows_def)

lemma batch_stays:
  "batch_edge\<^sup>*\<^sup>* s t \<Longrightarrow> s \<in> {''confirmed'', ''failed'', ''cancelled''} \<Longrightarrow> t = s"
  by (induction rule: rtranclp_induct) (auto simp: batch_edge_final open_statuses_def)

definition block_statuses :: "string set" where
  "block_statuses = set pending_block_statuses \<union> {''confirmed'', ''orphaned''}"

lemma block_statuses_written:
  "block_candidate_initial_status response \<in> block_statuses"
  "normalize_block_status status confirmations required \<in> block_statuses"
  by (simp_all add: block_statuses_def pending_block_statuses_def block_candidate_initial_status_def
      normalize_block_status_def Let_def)

text \<open>No job removes an entry or a batch, or writes a status of a block that the queries do not know.\<close>

definition advances :: "pool_db \<Rightarrow> pool_db \<Rightarrow> bool" where
  "advances db db' \<longleftrightarrow> (\<exists>rows. db_ledger db' = db_ledger db @ rows)
     \<and> (\<forall>b \<in> set (db_batches db). \<exists>b' \<in> set (db_batches db'). batch_follows b b')
     \<and> (\<forall>b \<in> set (db_blocks db'). b \<in> set (db_blocks db) \<or> bk_status b \<in> block_statuses)"

lemma advances_same:
  "db_ledger db' = db_ledger db \<Longrightarrow> db_batches db' = db_batches db \<Longrightarrow> db_blocks db' = db_blocks db
    \<Longrightarrow> advances db db'"
  by (auto simp: advances_def intro: batch_kept)

lemma advances_trans: "advances db db' \<Longrightarrow> advances db' db'' \<Longrightarrow> advances db db''"
  unfolding advances_def by (elim conjE, intro conjI) (metis append.assoc, metis batch_follows_trans, blast)

lemma advances_audit [simp]: "advances db (audit i a c d db') = advances db db'"
  by (simp add: advances_def)

lemma advances_row: "advances db (append_row r db)"
  by (auto simp: advances_def append_row_def Let_def intro: batch_kept)

lemma advances_append: "advances db (append_ledger_entries entries db)"
proof (induction entries arbitrary: db)
  case (Cons e entries)
  show ?case
    using Cons [of "append_row (ledger_row_of_entry e) db"] advances_trans [OF advances_row]
    by (auto simp: append_ledger_entries_def)
qed (simp add: append_ledger_entries_def advances_same)

lemma advances_update:
  assumes "\<And>b. pb_status b \<in> set sts \<Longrightarrow> batch_follows b (f b)"
  shows "advances db (fst (update_batch i sts f db))"
proof -
  have "\<exists>b' \<in> set (db_batches (fst (update_batch i sts f db))). batch_follows b b'"
    if "b \<in> set (db_batches db)" for b
    using that assms [of b] batch_follows_refl [of b] unfolding update_batch_def
    by (intro bexI [where x = "if pb_id b = i \<and> pb_status b \<in> set sts then f b else b"]) auto
  then show ?thesis by (simp add: advances_def)
qed

text \<open>One edge.\<close>

lemma edge_follows:
  "batch_edge (pb_status b) t \<Longrightarrow> pb_status b' = t \<Longrightarrow> pb_id b' = pb_id b \<Longrightarrow> pb_recipients b' = pb_recipients b
    \<Longrightarrow> pb_total_base_units b' = pb_total_base_units b \<Longrightarrow> pb_created_at b' = pb_created_at b
    \<Longrightarrow> batch_follows b b'"
  by (simp add: batch_follows_def r_into_rtranclp)

lemma open_edges:
  "s \<in> {''needs_approval'', ''created'', ''signed'', ''submitted''} \<Longrightarrow> batch_edge s ''failed''"
  "s \<in> {''needs_approval'', ''created'', ''signed''} \<Longrightarrow> batch_edge s ''cancelled''"
  by (auto simp: open_statuses_def intro: batch_edge.intros)

lemma advances_unlock: "advances db (fst (unlock_failed_payout rec db))" "advances db (fst (mark_payout_paid rec db))"
  by (simp_all add: unlock_failed_payout_def mark_payout_paid_def advances_append Let_def)

lemma advances_marks:
  "advances db (fst (mark_payout_failed i r db))" "advances db (fst (mark_payout_confirmed i db))"
  "advances db (fst (mark_payout_signed i t w db))" "advances db (fst (mark_payout_submitted i t db))"
  "advances db (fst (mark_payout_approved i db))"
proof -
  show "advances db (fst (mark_payout_failed i r db))" unfolding mark_payout_failed_def
    by (rule advances_update, rule edge_follows [OF open_edges(1)]) auto
  show "advances db (fst (mark_payout_confirmed i db))" unfolding mark_payout_confirmed_def
    by (rule advances_update, rule edge_follows [OF batch_edge.confirm]) auto
  show "advances db (fst (mark_payout_signed i t w db))" unfolding mark_payout_signed_def
    by (rule advances_update, rule edge_follows [where t = "''signed''"]) (auto intro: batch_edge.sign)
  show "advances db (fst (mark_payout_approved i db))" unfolding mark_payout_approved_def
    by (rule advances_update, rule edge_follows [where t = "''created''"]) (auto intro: batch_edge.approve)
  show "advances db (fst (mark_payout_submitted i t db))" unfolding mark_payout_submitted_def
  proof (rule advances_update)
    fix b :: batch_row
    assume "pb_status b \<in> set [''signed'', ''submitted'']"
    then consider "pb_status b = ''signed''" | "pb_status b = ''submitted''" by auto
    then show "batch_follows b (b\<lparr>pb_status := ''submitted'', pb_txid := Some (coalesce (pb_txid b) t)\<rparr>)"
      by cases (simp_all add: batch_follows_def r_into_rtranclp batch_edge.submit)
  qed
qed

lemma advances_fail: "advances db (fail_batch actor details rec reason db)"
  unfolding fail_batch_def advances_audit by (rule advances_trans [OF advances_marks(1) advances_unlock(1)])

lemma advances_sign: "advances db (fst (sign_batch hexe json_text sign rec db))"
  using advances_marks(3) by (auto simp: sign_batch_def Let_def advances_fail split: sum.split prod.split) (metis fst_conv)+

lemma advances_submit: "advances db (fst (submit_batch nodes rec db))"
  using advances_marks(4)
  by (auto simp: submit_batch_def submitted_batch_def deferred_batch_def Let_def advances_fail advances_same
      split: sum.split option.split prod.split) (metis fst_conv)+

lemma advances_reconciled: "advances db (fst (reconciled_payout rec status db))"
  using advances_trans [OF advances_marks(2) advances_unlock(2)]
  by (auto simp: reconciled_payout_def Let_def advances_fail advances_same split: prod.split) (metis fst_conv)+

lemma advances_each: "(\<And>rec db. advances db (fst (f rec db))) \<Longrightarrow> advances db (fst (each_batch f recs db))"
proof (induction recs arbitrary: db)
  case (Cons rec recs)
  obtain db' outcome where f: "f rec db = (db', outcome)" by (cases "f rec db")
  have "advances db db'" using Cons.prems [of db rec] f by simp
  then show ?case using Cons.IH [OF Cons.prems, of db'] f by (auto intro: advances_trans)
qed (simp add: advances_same)

lemma advances_reconcile_list: "advances db (fst (reconcile_payout_list node recs db))"
proof (induction recs arbitrary: db)
  case (Cons rec recs)
  have "advances db (fst (reconcile_payout_list node recs db'))" if "advances db db'" for db'
    using that Cons.IH by (rule advances_trans)
  then show ?case
    using advances_fail advances_reconciled [of db rec]
    by (auto simp: advances_same split: option.split sum.split prod.split) (metis fst_conv)
qed (simp add: advances_same)

lemma advances_blocks: "advances db (fst (reconcile_block_list now required node bs db))"
proof (induction bs arbitrary: db)
  case (Cons b bs)
  have "advances db (fst (reconcile_block_list now required node bs db'))"
    if "update_block_status now (block_update_from_status h status required) db = Inr (db', updated)"
    for db' h status updated
  proof (rule advances_trans [OF _ Cons.IH])
    show "advances db db'"
      using that block_statuses_written(2)
      by (auto simp: update_block_status_def advances_def updated_block_def block_update_from_status_def
          intro: batch_kept split: if_splits)
  qed
  then show ?case by (auto simp: fst_run_query advances_same Let_def split: sum.split)
qed (simp add: advances_same)

lemma advances_settle: "advances db (fst (settle_blocks fee weights bs db))"
proof (induction bs arbitrary: db)
  case (Cons b bs)
  show ?case
    using Cons.IH advances_trans [OF advances_append Cons.IH]
    by (auto simp: fst_run_query advances_same split: sum.split)
qed (simp add: advances_same)

lemma advances_lock: "lock_recipients i ins rs db = Inr db' \<Longrightarrow> advances db db'"
proof (induction rs arbitrary: ins db)
  case (Cons r rs)
  obtain db1 where rest: "lock_recipients i (rc_miner r # ins) rs db1 = Inr db'"
    and one: "\<exists>rows. db_ledger db1 = db_ledger db @ rows" "db_batches db1 = db_batches db"
      "db_blocks db1 = db_blocks db"
    using Cons.prems by (fastforce simp: Let_def split: if_splits option.splits)
  have "advances db db1" using one by (auto simp: advances_def intro: batch_kept)
  then show ?case using Cons.IH [OF rest] by (rule advances_trans)
qed (simp add: advances_same)

lemma advances_create_locked:
  "create_locked_payout_batch_with_status now draft status db = Inr (db', created) \<Longrightarrow> advances db db'"
  by (auto simp: create_locked_payout_batch_with_status_def result_bind_eq_Inr advances_same split: if_splits
      dest!: advances_lock) (simp add: advances_def)

lemma advances_create: "advances db (fst (create_payouts clk cfg db))"
proof -
  have 1: "advances db (fst (create_for_approval now cfg used draft db))" for now used draft
    by (auto simp: create_for_approval_def fst_run_query advances_same intro: advances_create_locked split: sum.split)
  have 2: "advances db (fst (create_for_signing now used draft db))" for now used draft
    by (auto simp: create_for_signing_def create_locked_payout_batch_def fst_run_query advances_same
        intro: advances_create_locked split: sum.split)
  show ?thesis
    using 1 2 by (simp add: create_payouts_def fst_run_query advances_same Let_def split: sum.split)
qed

lemma advances_retry: "advances db (fst (operator_retry_payout now millis i db))"
proof -
  have "advances db db'" if "retry_failed_payout now i j db = Inr (db', batch)" for j db' batch
    using that
    by (auto simp: retry_failed_payout_def create_locked_payout_batch_def result_bind_eq_Inr Let_def
        advances_same intro: advances_create_locked split: option.splits if_splits)
  then show ?thesis
    by (auto simp: operator_retry_payout_def fst_run_query Let_def advances_same split: sum.split option.split)
qed

lemma advances_cancel: "advances db (fst (operator_cancel_payout i reason db))"
proof -
  have "advances db db'" if cancel: "cancel_payout i why db = Inr (db', found)" for db' found why
  proof (cases "payout_batch_by_id_and_statuses i [''needs_approval'', ''created'', ''signed''] db")
    case (Inr found)
    define db1 where "db1 = fst (update_batch i [''needs_approval'', ''created'', ''signed'']
        (\<lambda>b. b\<lparr>pb_status := ''cancelled'', pb_failure_reason := Some why\<rparr>) db)"
    have "advances db db1" unfolding db1_def
      by (rule advances_update, rule edge_follows [OF open_edges(2)]) auto
    then show ?thesis
      using cancel Inr advances_trans [OF _ advances_unlock(1)]
      by (auto simp: cancel_payout_def result_bind_def case_prod_unfold Let_def advances_same
          split: option.splits if_splits simp flip: db1_def)
  qed (use cancel in \<open>simp add: cancel_payout_def result_bind_def\<close>)
  then show ?thesis
    by (auto simp: operator_cancel_payout_def fst_run_query Let_def advances_same split: sum.split option.split)
qed

lemma advances_approve: "advances db (fst (operator_approve_payout i db))"
  using advances_marks(5) [of db i]
  by (auto simp: operator_approve_payout_def advances_same split: prod.split)
lemma reward_sum_append: "reward_sum m (L @ L') = reward_sum m L + reward_sum m L'"
  by (simp add: reward_sum_def)

lemma reward_sum_nonneg: "0 \<le> reward_sum m L"
  unfolding reward_sum_def by (rule sum_list_nonneg) auto


lemma advances_jobs:
  "advances db (fst (record_block_candidate now block db))"
  "advances db (fst (reconcile_blocks now cfg node db))"
  "advances db (fst (settle_rewards cfg weights db))"
  "advances db (fst (mature_rewards cfg db))"
  "advances db (fst (reverse_orphans db))"
  "advances db (fst (sign_payouts hexe json_text sign db))"
  "advances db (fst (submit_payouts nodes db))"
  "advances db (fst (reconcile_payouts tx_node db))"
  "advances db (operator_pause_payouts db)"
  "advances db (operator_resume_payouts db)"
proof -
  show "advances db (fst (record_block_candidate now block db))"
    using block_statuses_written(1)
    by (auto simp: record_block_candidate_def advances_def Let_def intro: batch_kept)
  show "advances db (fst (reconcile_blocks now cfg node db))"
    by (simp add: reconcile_blocks_def advances_blocks)
  show "advances db (fst (settle_rewards cfg weights db))"
    by (simp add: settle_rewards_def fst_run_query advances_settle advances_same split: sum.split)
  show "advances db (fst (mature_rewards cfg db))" "advances db (fst (reverse_orphans db))"
    by (simp_all add: mature_rewards_def reverse_orphans_def fst_run_query advances_append advances_same split: sum.split)
  show "advances db (fst (sign_payouts hexe json_text sign db))"
    by (simp add: sign_payouts_def fst_run_query advances_each advances_sign advances_same split: sum.split list.split)
  show "advances db (fst (submit_payouts nodes db))"
    by (simp add: submit_payouts_def fst_run_query advances_each advances_submit advances_same split: sum.split)
  show "advances db (fst (reconcile_payouts tx_node db))"
    by (simp add: reconcile_payouts_def fst_run_query advances_reconcile_list advances_same split: sum.split)
  show "advances db (operator_pause_payouts db)" "advances db (operator_resume_payouts db)"
    by (simp_all add: operator_pause_payouts_def operator_resume_payouts_def set_payouts_enabled_def advances_same)
qed


section \<open>Jobs\<close>

text \<open>What every job promises, and what follows for any of them.\<close>

locale pool_job =
  fixes job :: "pool_db \<Rightarrow> pool_db"
  assumes keeps_books: "books_ok db \<Longrightarrow> rewards_bounded db \<Longrightarrow> books_ok (job db)"
    and keeps_entries: "advances db (job db)"
begin

lemma rewards_grow: "reward_sum m (db_ledger db) \<le> reward_sum m (db_ledger (job db))"
  using keeps_entries [of db] by (auto simp: advances_def reward_sum_append reward_sum_nonneg)

lemma bounded_before: "rewards_bounded (job db) \<Longrightarrow> rewards_bounded db"
  using rewards_grow le_less_trans unfolding rewards_bounded_def by blast

lemma books_kept:
  "(rewards_bounded db \<longrightarrow> books_ok db) \<Longrightarrow> rewards_bounded (job db) \<Longrightarrow> books_ok (job db)"
  using keeps_books bounded_before by blast

end
interpretation record_candidate_job: pool_job "\<lambda>db. fst (record_block_candidate now block db)" for now block
  by unfold_locales (simp_all add: books_record_candidate advances_jobs)

interpretation reconcile_blocks_job: pool_job "\<lambda>db. fst (reconcile_blocks now cfg node db)" for now cfg node
  by unfold_locales (simp_all add: books_reconcile_blocks advances_jobs)

interpretation settle_job: pool_job "\<lambda>db. fst (settle_rewards cfg weights db)" for cfg weights
  by unfold_locales (simp_all add: books_settle_rewards advances_jobs)

interpretation mature_job: pool_job "\<lambda>db. fst (mature_rewards cfg db)" for cfg
  by unfold_locales (simp_all add: books_mature_rewards advances_jobs)

interpretation reverse_job: pool_job "\<lambda>db. fst (reverse_orphans db)"
  by unfold_locales (simp_all add: reverse_orphans_idle advances_jobs)

interpretation create_job: pool_job "\<lambda>db. fst (create_payouts clk cfg db)" for clk cfg
  by unfold_locales (simp_all add: books_create_payouts advances_create)

interpretation sign_job: pool_job "\<lambda>db. fst (sign_payouts hexe json_text sign db)" for hexe json_text sign
  by unfold_locales (simp_all add: books_sign_payouts advances_jobs)

interpretation submit_job: pool_job "\<lambda>db. fst (submit_payouts nodes db)" for nodes
  by unfold_locales (simp_all add: books_submit_payouts advances_jobs)

interpretation reconcile_job: pool_job "\<lambda>db. fst (reconcile_payouts tx_node db)" for tx_node
  by unfold_locales (simp_all add: books_reconcile_payouts advances_jobs)

interpretation pause_job: pool_job "operator_pause_payouts"
  by unfold_locales (simp_all add: advances_jobs, simp add: operator_pause_payouts_def)

interpretation resume_job: pool_job "operator_resume_payouts"
  by unfold_locales (simp_all add: advances_jobs, simp add: operator_resume_payouts_def)

interpretation approve_job: pool_job "\<lambda>db. fst (operator_approve_payout i db)" for i
  by unfold_locales (simp_all add: books_approve advances_approve)

interpretation cancel_job: pool_job "\<lambda>db. fst (operator_cancel_payout i reason db)" for i reason
  by unfold_locales (simp_all add: books_cancel advances_cancel)

interpretation retry_job: pool_job "\<lambda>db. fst (operator_retry_payout now millis i db)" for now millis i
  by unfold_locales (simp_all add: books_retry advances_retry)

section \<open>Runs\<close>

text \<open>
  One run of a job, or one request of an operator, on the tables; clocks, node, signer, share weights
  and configuration are free, and may be different each time.
\<close>

inductive job_step :: "pool_db \<Rightarrow> pool_db \<Rightarrow> bool" where
  "job_step db (fst (record_block_candidate now block db))"
| "job_step db (fst (reconcile_blocks now cfg node db))"
| "job_step db (fst (settle_rewards cfg weights db))"
| "job_step db (fst (mature_rewards cfg db))"
| "job_step db (fst (reverse_orphans db))"
| "job_step db (fst (create_payouts clk cfg db))"
| "job_step db (fst (sign_payouts hexe json_text sign db))"
| "job_step db (fst (submit_payouts nodes db))"
| "job_step db (fst (reconcile_payouts tx_node db))"
| "job_step db (operator_pause_payouts db)"
| "job_step db (operator_resume_payouts db)"
| "job_step db (fst (operator_approve_payout i db))"
| "job_step db (fst (operator_cancel_payout i reason db))"
| "job_step db (fst (operator_retry_payout now millis i db))"

inductive pool_reachable :: "pool_db \<Rightarrow> bool" where
  "pool_reachable empty_db"
| "pool_reachable db \<Longrightarrow> job_step db db' \<Longrightarrow> pool_reachable db'"

lemma books_empty: "books_ok empty_db"
  by (simp add: books_ok_def empty_db_def exact_def balance_of_def rewards_ok_def batches_ok_def)

lemmas jobs_keep_books =
  record_candidate_job.books_kept reconcile_blocks_job.books_kept settle_job.books_kept mature_job.books_kept
  reverse_job.books_kept create_job.books_kept sign_job.books_kept submit_job.books_kept
  reconcile_job.books_kept pause_job.books_kept resume_job.books_kept approve_job.books_kept
  cancel_job.books_kept retry_job.books_kept

inductive_cases job_stepE: "job_step db db'"

lemmas jobs_advance =
  record_candidate_job.keeps_entries reconcile_blocks_job.keeps_entries settle_job.keeps_entries
  mature_job.keeps_entries reverse_job.keeps_entries create_job.keeps_entries
  sign_job.keeps_entries submit_job.keeps_entries reconcile_job.keeps_entries
  pause_job.keeps_entries resume_job.keeps_entries approve_job.keeps_entries
  cancel_job.keeps_entries retry_job.keeps_entries

lemma job_step_advances: "job_step db db' \<Longrightarrow> advances db db'"
  by (erule job_stepE) (simp_all add: jobs_advance)

lemma books_job_step:
  assumes "job_step db db'" and "rewards_bounded db \<longrightarrow> books_ok db" and "rewards_bounded db'"
  shows "books_ok db'"
  using assms(1)
  by (rule job_stepE) (use assms(2,3) in \<open>simp_all add: jobs_keep_books\<close>)

lemma pool_reachable_books:
  "pool_reachable db \<Longrightarrow> rewards_bounded db \<Longrightarrow> books_ok db"
proof (induction rule: pool_reachable.induct)
  case (2 db db')
  then show ?case using books_job_step by blast
qed (rule books_empty)

section \<open>Logs with a unique key\<close>

text \<open>
  A log that leaves what it has as it is, and keeps it: adding a batch of elements again, or any part
  of it, changes nothing.
\<close>

locale idempotent_log =
  fixes add :: "'e \<Rightarrow> 's \<Rightarrow> 's" and present :: "'e \<Rightarrow> 's \<Rightarrow> bool"
  assumes add_present: "present e s \<Longrightarrow> add e s = s"
    and present_add: "present e (add e s)"
    and present_kept: "present e s \<Longrightarrow> present e (add e' s)"
begin

lemma add_all_kept: "present e s \<Longrightarrow> present e (foldl (\<lambda>s e. add e s) s es)"
  by (induction es arbitrary: s) (simp_all add: present_kept)

lemma add_all_present: "e \<in> set es \<Longrightarrow> present e (foldl (\<lambda>s e. add e s) s es)"
  by (induction es arbitrary: s) (auto simp: present_add add_all_kept)

lemma add_none: "\<forall>e \<in> set es. present e s \<Longrightarrow> foldl (\<lambda>s e. add e s) s es = s"
  by (induction es) (simp_all add: add_present)

lemma replay: "set es' \<subseteq> set es \<Longrightarrow> foldl (\<lambda>s e. add e s) (foldl (\<lambda>s e. add e s) s es) es'
    = foldl (\<lambda>s e. add e s) s es"
  by (rule add_none) (auto intro: add_all_present)

end

interpretation ledger_log: idempotent_log
  "\<lambda>e. append_row (ledger_row_of_entry e)"
  "\<lambda>e db. ledger_key (ledger_row_of_entry e) \<in> ledger_key ` set (db_ledger db)"
  by unfold_locales (auto simp: append_row_def Let_def)

interpretation candidate_log: idempotent_log
  "\<lambda>block db. fst (record_block_candidate now block db)"
  "\<lambda>block db. list_ex (\<lambda>b. bk_hash_hex b = bc_hash_hex block) (db_blocks db)" for now
  by unfold_locales (auto simp: record_block_candidate_def Let_def)

section \<open>An example run\<close>

text \<open>One block is found, confirmed, settled and matured, and its miner gets a batch.\<close>

definition example_config :: worker_config where
  "example_config = \<lparr>wc_fee_bps = 100, wc_confirm_depth = 6, wc_minimum_payout = 10,
     wc_max_payout_batch = 5000, wc_max_daily_payout = 5000, wc_manual_payout_approval = 5000\<rparr>"

definition example_candidate :: block_candidate_record where
  "example_candidate = \<lparr>bc_hash_hex = ''b1'', bc_job_id = ''j'', bc_miner = ''a'', bc_worker_name = ''w'',
     bc_reward_base_units = 1000, bc_effort_pct = NaN, bc_candidate_payload_json = JNull,
     bc_submit_response_json = JObject [(''ok'', JBool True)]\<rparr>"

definition example_status :: block_status_response where
  "example_status = \<lparr>bs_status = ''seen'', bs_height = Some 5, bs_confirmations = 9, bs_reward_base_units = Some 1000\<rparr>"


definition example_block :: "string \<Rightarrow> block_row" where
  "example_block status = \<lparr>bk_hash_hex = ''b1'', bk_job_id = Some ''j'', bk_status = status,
     bk_height = (if status = ''confirmed'' then Some 5 else None),
     bk_confirmations = (if status = ''confirmed'' then 9 else 0), bk_reward_base_units = 1000,
     bk_effort_pct = NaN, bk_submitted_at = Some 1,
     bk_confirmed_at = (if status = ''confirmed'' then Some 2 else None), bk_orphaned_at = None\<rparr>"

lemma example_recorded:
  "fst (record_block_candidate 1 example_candidate empty_db)
     = empty_db\<lparr>db_blocks := [example_block ''submitted'']\<rparr>"
  by (simp add: record_block_candidate_def example_candidate_def empty_db_def block_candidate_initial_status_def
      example_block_def candidate_relay_failure_def node_response_relay_failure_def candidate_ambiguous_def Let_def)

lemma example_confirmed:
  "fst (reconcile_blocks 2 example_config (\<lambda>_. Inr example_status)
       (empty_db\<lparr>db_blocks := [example_block ''submitted'']\<rparr>))
     = empty_db\<lparr>db_blocks := [example_block ''confirmed'']\<rparr>"
  by (simp add: reconcile_blocks_def list_blocks_to_reconcile_def pending_block_statuses_def run_query_def
    run_cons_def update_block_status_def block_update_from_status_def normalize_block_status_def
    example_config_def example_status_def example_block_def updated_block_def Let_def empty_db_def coalesce_def)

definition example_row :: "string option \<Rightarrow> int \<Rightarrow> ledger_kind \<Rightarrow> string \<Rightarrow> string \<Rightarrow> ledger_row" where
  "example_row m a k t i = \<lparr>lr_miner = m, lr_amount = a, lr_kind = k, lr_ref_type = t, lr_ref_id = i\<rparr>"

definition example_rewards :: "ledger_row list" where
  "example_rewards = [example_row (Some ''a'') 990 RewardImmature ''block'' ''b1'',
     example_row None 10 PoolFee ''block'' ''b1'']"

definition example_settled :: pool_db where
  "example_settled = empty_db\<lparr>db_blocks := [example_block ''confirmed''], db_ledger := example_rewards,
     db_balances := [(''a'', no_balance\<lparr>bl_immature := 990\<rparr>)]\<rparr>"

definition example_matured :: pool_db where
  "example_matured = empty_db\<lparr>db_blocks := [example_block ''confirmed''],
     db_ledger := example_rewards @ [example_row (Some ''a'') 990 RewardMature ''block'' ''b1''],
     db_balances := [(''a'', no_balance\<lparr>bl_confirmed := 990\<rparr>)]\<rparr>"

definition example_batch :: pool_db where
  "example_batch = fst (create_payouts \<lparr>pk_now = 3, pk_midnight = 0, pk_millis = 7\<rparr> example_config
     (operator_resume_payouts example_matured))"

lemma example_settle:
  "fst (settle_rewards example_config (\<lambda>_. Inr [\<lparr>sw_miner = ''a'', sw_difficulty = 1\<rparr>])
     (empty_db\<lparr>db_blocks := [example_block ''confirmed'']\<rparr>)) = example_settled"
  by code_simp

lemma example_mature: "fst (mature_rewards example_config example_settled) = example_matured"
  unfolding example_settled_def example_matured_def example_rewards_def
  by (simp add: mature_rewards_def list_mature_reward_entries_def run_query_def example_config_def
     reward_rows_def example_row_def empty_db_def no_balance_def block_of_def example_block_def
     has_entry_like_def parse_i128_def result_bind_def reward_entry_def append_ledger_entries_def
     append_row_def ledger_key_def ledger_row_of_entry_def post_entry_def Let_def
     upsert_balance_def list_ex_iff bt_get_def)

lemma example_ledger:
  "db_ledger example_batch = example_rewards @ [example_row (Some ''a'') 990 RewardMature ''block'' ''b1'',
     example_row (Some ''a'') (- 990) PayoutLock ''payout_batch'' ''payout-7'']"
  unfolding example_batch_def example_matured_def by code_simp

lemma example_reachable: "pool_reachable example_batch"
proof -
  have step: "pool_reachable db \<Longrightarrow> job_step db db' \<Longrightarrow> db' = db'' \<Longrightarrow> pool_reachable db''" for db db' db''
    by (auto intro: pool_reachable.intros)
  have "pool_reachable (empty_db\<lparr>db_blocks := [example_block ''submitted'']\<rparr>)"
    by (rule step [OF pool_reachable.intros(1) job_step.intros(1) example_recorded])
  from step [OF this job_step.intros(2) example_confirmed]
  have "pool_reachable (empty_db\<lparr>db_blocks := [example_block ''confirmed'']\<rparr>)" .
  from step [OF this job_step.intros(3) example_settle] have "pool_reachable example_settled" .
  from step [OF this job_step.intros(4) example_mature] have "pool_reachable example_matured" .
  from pool_reachable.intros(2) [OF this job_step.intros(11)]
  have "pool_reachable (operator_resume_payouts example_matured)" .
  from pool_reachable.intros(2) [OF this job_step.intros(6)] show ?thesis
    unfolding example_batch_def .
qed

lemma example_bounded: "rewards_bounded example_batch"
  by (simp add: rewards_bounded_def reward_sum_def example_ledger example_rewards_def example_row_def)

section \<open>Properties of the books\<close>

lemma pool_reachable_blocks: "pool_reachable db \<Longrightarrow> \<forall>b \<in> set (db_blocks db). bk_status b \<in> block_statuses"
proof (induction rule: pool_reachable.induct)
  case (2 db db')
  from job_step_advances [OF 2(2)] 2(3) show ?case unfolding advances_def by blast
qed (simp add: empty_db_def)

text \<open>
  C1. In every state that any sequence of jobs and operator requests reaches, the cached balance
  of a miner is what the ledger says, no column is negative, the columns add up to the rewards the
  miner was credited with, what is locked is what the open payout batches pay the miner, and what is
  paid is what the confirmed batches paid.
\<close>
theorem books_balance:
  assumes "pool_reachable db" and "rewards_bounded db"
  shows "balance_of db m = book m (db_ledger db) \<and> nonneg (balance_of db m)
    \<and> bl_immature (balance_of db m) + bl_confirmed (balance_of db m) + bl_locked (balance_of db m)
        + bl_paid (balance_of db m) = reward_sum m (db_ledger db)
    \<and> bl_locked (balance_of db m) = sum_list (map (batch_amount m)
        (filter (\<lambda>b. pb_status b \<in> open_statuses) (db_batches db)))
    \<and> bl_paid (balance_of db m) = sum_list (map (batch_amount m)
        (filter (\<lambda>b. pb_status b = ''confirmed'') (db_batches db)))"
proof -
  note books = pool_reachable_books [OF assms]
  show ?thesis
    unfolding books_okD(6) [OF books]
    using books_okD(5) [OF books] book_total book_batches [OF books_okD(4) [OF books]] by blast
qed

theorem books_balance_witness:
  "balance_of example_batch ''a'' = no_balance\<lparr>bl_locked := 990\<rparr>"
proof -
  have "book ''a'' (db_ledger example_batch) = no_balance\<lparr>bl_locked := 990\<rparr>"
    by (simp add: example_ledger example_rewards_def example_row_def book_def row_effect_def Let_def no_balance_def)
  then show ?thesis using books_balance [OF example_reachable example_bounded, of "''a''"] by simp
qed

text \<open>
  C13. A payout batch moves only along the edges of its state machine: whatever jobs and operator requests
  run, its status later is reached from its status now by approving, signing, submitting, confirming,
  failing and cancelling, each only where \<open>batch_edge\<close> allows it. It never disappears, and its recipients
  and its total never change. Once it is confirmed, failed or cancelled its status stays.
\<close>
theorem final_batches_stay:
  assumes "job_step\<^sup>*\<^sup>* db db'" and "b \<in> set (db_batches db)"
  shows "\<exists>b' \<in> set (db_batches db'). pb_id b' = pb_id b
    \<and> pb_recipients b' = pb_recipients b \<and> pb_total_base_units b' = pb_total_base_units b
    \<and> batch_edge\<^sup>*\<^sup>* (pb_status b) (pb_status b')
    \<and> (pb_status b \<in> {''confirmed'', ''failed'', ''cancelled''} \<longrightarrow> pb_status b' = pb_status b)"
proof -
  have "advances db db'"
    using assms(1) by (induction) (auto intro: advances_same advances_trans job_step_advances)
  then obtain b' where b': "b' \<in> set (db_batches db')" "batch_follows b b'"
    using assms(2) unfolding advances_def by blast
  with batch_stays show ?thesis unfolding batch_follows_def by blast
qed

definition confirmed_row :: batch_row where
  "confirmed_row = \<lparr>pb_id = ''p'', pb_status = ''confirmed'', pb_total_base_units = 5, pb_txid = None,
     pb_raw_tx_hash = None, pb_recipients = [], pb_created_at = 0, pb_failure_reason = None\<rparr>"

theorem final_batches_stay_witness:
  "\<exists>b' \<in> set (db_batches (operator_pause_payouts (empty_db\<lparr>db_batches := [confirmed_row]\<rparr>))).
     pb_id b' = ''p'' \<and> pb_status b' = ''confirmed'' \<and> pb_total_base_units b' = 5"
proof -
  have "job_step\<^sup>*\<^sup>* (empty_db\<lparr>db_batches := [confirmed_row]\<rparr>)
      (operator_pause_payouts (empty_db\<lparr>db_batches := [confirmed_row]\<rparr>))"
    by (rule r_into_rtranclp) (rule job_step.intros(10))
  from final_batches_stay [OF this, of confirmed_row] show ?thesis by (auto simp: confirmed_row_def)
qed

text \<open>
  C38. In every reachable state the tables are well-typed: no two entries of the ledger have one
  idempotency key, no two blocks one hash and no two batches one id, every block and batch has a
  status the queries know, and no batch pays a miner twice.
\<close>
theorem tables_typed:
  assumes "pool_reachable db" and "rewards_bounded db"
  shows "distinct (map ledger_key (db_ledger db)) \<and> distinct (map bk_hash_hex (db_blocks db))
    \<and> distinct (map pb_id (db_batches db))
    \<and> (\<forall>b \<in> set (db_blocks db). bk_status b \<in> block_statuses)
    \<and> (\<forall>b \<in> set (db_batches db). pb_status b \<in> open_statuses \<union> failed_statuses \<union> {''confirmed''}
         \<and> distinct (map rc_miner (pb_recipients b)))"
proof -
  note books = pool_reachable_books [OF assms]
  show ?thesis
    using books_okD(2-4) [OF books] pool_reachable_blocks [OF assms(1)]
    unfolding rewards_ok_def batches_ok_def batch_ok_def by blast
qed

theorem tables_typed_witness: "distinct (map ledger_key (db_ledger example_batch))"
  using tables_typed [OF example_reachable example_bounded] by blast

text \<open>
  C37. The reversal of orphaned rewards is dead code: in every reachable state the job finds no entry to
  reverse and leaves the tables as they are. This is not what the documents say: by README.md,
  docs/architecture.md and docs/implementation-plan.md the job takes the reward of a block back that
  becomes orphaned after it was rewarded. It never does, since a block is rewarded only once it is
  confirmed, and a confirmed block is not looked at again.
\<close>
theorem reversals_never_fire:
  assumes "pool_reachable db" and "rewards_bounded db"
  shows "reverse_orphans db
    = (db, Inr \<lparr>lg_count = 0, lg_total_base_units = 0, lg_ledger_entries = []\<rparr>)"
  using no_orphan_rewards [OF pool_reachable_books [OF assms]]
  by (simp add: reverse_orphans_def run_query_def append_ledger_entries_def)

theorem reversals_never_fire_witness:
  "fst (reverse_orphans example_batch) = example_batch"
  using reversals_never_fire [OF example_reachable example_bounded] by simp

text \<open>
  Replaying work is harmless: appending a list of ledger entries and then any part of it again
  leaves the tables as the first time left them, balances included, and a block candidate that is
  recorded twice keeps its first row.
\<close>
theorem replay_harmless:
  "append_ledger_entries (filter P entries) (append_ledger_entries entries db) = append_ledger_entries entries db
   \<and> record_block_candidate now' block (fst (record_block_candidate now block db))
       = (fst (record_block_candidate now block db), False)"
proof -
  have "list_ex (\<lambda>b. bk_hash_hex b = bc_hash_hex block) (db_blocks (fst (record_block_candidate now block db)))"
    by (rule candidate_log.present_add)
  then have "record_block_candidate now' block (fst (record_block_candidate now block db))
      = (fst (record_block_candidate now block db), False)"
    unfolding record_block_candidate_def [of now'] by simp
  then show ?thesis
    using ledger_log.replay [of "filter P entries" entries db] by (simp add: append_ledger_entries_def)
qed

end
