(* ===== verification/Csd_Pipeline.thy ===== *)
theory Csd_Pipeline
  imports Csd_Runs
begin

text \<open>
  The payout pipeline makes progress: a batch that has been created is paid by one run each of the
  signing, the submission and the reconciliation job, when the signer signs it, the node takes the
  transaction and reports it confirmed. The batches are followed through the three jobs.
\<close>

section \<open>One batch in the pipeline\<close>

definition pipeline_statuses :: "string set" where
  "pipeline_statuses = {''created'', ''signed'', ''submitted''}"

definition alone :: "batch_row \<Rightarrow> pool_db \<Rightarrow> bool" where
  "alone b db \<longleftrightarrow> filter (\<lambda>x. pb_status x \<in> pipeline_statuses) (db_batches db) = [b]
     \<and> distinct (map pb_id (db_batches db))"

definition replace_batch :: "batch_row \<Rightarrow> batch_row \<Rightarrow> batch_row list \<Rightarrow> batch_row list" where
  "replace_batch b b' bs = map (\<lambda>x. if x = b then b' else x) bs"

lemma alone_listed:
  assumes "alone b db" and "set sts \<subseteq> pipeline_statuses" and "0 < n"
  shows "list_payout_batches_by_status sts n db
    = (if pb_status b \<in> set sts then map_result hydrate_batch [b] else Inr [])"
proof -
  have "filter (\<lambda>x. pb_status x \<in> set sts) (db_batches db)
      = filter (\<lambda>x. pb_status x \<in> set sts) (filter (\<lambda>x. pb_status x \<in> pipeline_statuses) (db_batches db))"
    using assms(2) by (auto intro!: filter_cong)
  also have "\<dots> = (if pb_status b \<in> set sts then [b] else [])"
    using assms(1) by (simp add: alone_def)
  finally show ?thesis
    using assms(3) by (cases n) (simp_all add: list_payout_batches_by_status_def batch_order_def)
qed

lemma alone_member:
  assumes "alone b db"
  shows "b \<in> set (db_batches db)" and "pb_status b \<in> pipeline_statuses"
proof -
  have "b \<in> set (filter (\<lambda>x. pb_status x \<in> pipeline_statuses) (db_batches db))"
    using assms by (simp add: alone_def)
  then show "b \<in> set (db_batches db)" "pb_status b \<in> pipeline_statuses" by simp_all
qed

lemma alone_update:
  assumes alone: "alone b db" and status: "pb_status b \<in> set sts"
  shows "db_batches (fst (update_batch (pb_id b) sts f db)) = replace_batch b (f b) (db_batches db)"
    and "snd (update_batch (pb_id b) sts f db)"
proof -
  have "x = b" if "x \<in> set (db_batches db)" "pb_id x = pb_id b" for x
    using alone that alone_member(1) [OF alone] unfolding alone_def distinct_map by (auto dest: inj_onD)
  then show "db_batches (fst (update_batch (pb_id b) sts f db)) = replace_batch b (f b) (db_batches db)"
    using status by (auto simp: update_batch_def replace_batch_def)
  show "snd (update_batch (pb_id b) sts f db)"
    using alone_member(1) [OF alone] status by (auto simp: update_batch_def list_ex_iff)
qed

lemma alone_replace:
  assumes alone: "alone b db" and batches: "db_batches db' = replace_batch b b' (db_batches db)"
    and same: "pb_id b' = pb_id b" and status: "pb_status b' \<in> pipeline_statuses"
  shows "alone b' db'"
proof -
  let ?P = "\<lambda>x. pb_status x \<in> pipeline_statuses"
  have b: "?P b" using alone_member [OF alone] by simp
  have "filter ?P (db_batches db') = map (\<lambda>x. if x = b then b' else x) (filter ?P (db_batches db))"
    using status b by (auto simp: batches replace_batch_def filter_map comp_def intro!: arg_cong [where f = "map _"] filter_cong)
  moreover have "map pb_id (db_batches db') = map pb_id (db_batches db)"
    using same by (simp add: batches replace_batch_def)
  ultimately show ?thesis using alone by (simp add: alone_def)
qed

section \<open>The three jobs\<close>

text \<open>The answers that move a batch on, in the order of the jobs.\<close>

record payout_answers =
  an_signed :: signed_payout_response
  an_stored :: string
  an_submitted :: submit_tx_response
  an_status :: transaction_status_response

definition helpful ::
  "(bytes \<Rightarrow> string) \<Rightarrow> (json \<Rightarrow> string) \<Rightarrow> (sign_payout_request \<Rightarrow> string + signed_payout_response)
    \<Rightarrow> submit_nodes \<Rightarrow> (string \<Rightarrow> string + transaction_status_response) \<Rightarrow> payout_batch_record
    \<Rightarrow> payout_answers \<Rightarrow> bool" where
  "helpful hexe json_text sign nodes tx_node rec a \<longleftrightarrow>
     (let request = sign_request_of_batch rec in
      sign request = Inr (an_signed a)
      \<and> (\<exists>v. validate_signed_payout_response hexe (an_signed a) request = Inr v)
      \<and> signed_payout_storage_value json_text (an_signed a) = Inr (an_stored a)
      \<and> (sn_official nodes \<noteq> None \<or> sn_adapter nodes \<noteq> None)
      \<and> submit_stored nodes (an_stored a) = Inr (Inr (an_submitted a)) \<and> st_ok (an_submitted a)
      \<and> tx_node (sd_txid (an_signed a)) = Inr (an_status a)
      \<and> ts_status (an_status a) = ''confirmed'' \<and> 0 < ts_confirmations (an_status a))"

definition signed_row :: "payout_answers \<Rightarrow> batch_row \<Rightarrow> batch_row" where
  "signed_row a b = b\<lparr>pb_status := ''signed'', pb_txid := Some (sd_txid (an_signed a)),
     pb_raw_tx_hash := Some (an_stored a)\<rparr>"

definition submitted_row :: "payout_answers \<Rightarrow> batch_row \<Rightarrow> batch_row" where
  "submitted_row a b = (signed_row a b)\<lparr>pb_status := ''submitted''\<rparr>"

definition paid_row :: "payout_answers \<Rightarrow> batch_row \<Rightarrow> batch_row" where
  "paid_row a b = (signed_row a b)\<lparr>pb_status := ''confirmed''\<rparr>"

lemma payouts_enabled_audit [simp]: "payouts_enabled (audit i ac d c db) = payouts_enabled db"
  by (simp add: payouts_enabled_def audit_def append_payout_audit_event_def)

lemma payouts_enabled_update [simp]: "payouts_enabled (fst (update_batch i sts f db)) = payouts_enabled db"
  by (simp add: payouts_enabled_def update_batch_def)

lemma pipeline_sign:
  assumes alone: "alone b db" and created: "pb_status b = ''created''" and rec: "hydrate_batch b = Inr rec"
    and enabled: "payouts_enabled db" and helpful: "helpful hexe json_text sign nodes tx_node rec a"
  shows "db_batches (fst (sign_payouts hexe json_text sign db)) = replace_batch b (signed_row a b) (db_batches db)"
    and "payouts_enabled (fst (sign_payouts hexe json_text sign db))"
proof -
  have inflight: "list_payout_batches_by_status [''signed'', ''submitted''] 1 db = Inr []"
    and listed: "list_payout_batches_by_status [''created''] 1 db = Inr [rec]"
    using created rec by (simp_all add: alone_listed [OF alone] pipeline_statuses_def)
  have i: "pr_batch_id rec = pb_id b" using hydrate_batch_Inr [OF rec] by simp
  have step: "fst (sign_batch hexe json_text sign rec db) = audit (pr_batch_id rec) ''worker:sign-payouts'' ''sign''
      (JObject [(''txid'', JString (sd_txid (an_signed a)))])
      (fst (mark_payout_signed (pr_batch_id rec) (sd_txid (an_signed a)) (an_stored a) db))"
    using helpful alone_update(2) [OF alone, of "[''created'']"] created
    by (auto simp: helpful_def sign_batch_def Let_def i mark_payout_signed_def case_prod_unfold)
  show "db_batches (fst (sign_payouts hexe json_text sign db)) = replace_batch b (signed_row a b) (db_batches db)"
    "payouts_enabled (fst (sign_payouts hexe json_text sign db))"
    using enabled inflight listed step alone_update(1) [OF alone, of "[''created'']"] created
    by (simp_all add: sign_payouts_def run_query_def case_prod_unfold i mark_payout_signed_def signed_row_def)
qed

lemma pipeline_submit:
  assumes alone: "alone (signed_row a b) db" and rec: "hydrate_batch b = Inr rec"
    and enabled: "payouts_enabled db" and helpful: "helpful hexe json_text sign nodes tx_node rec a"
  shows "db_batches (fst (submit_payouts nodes db))
    = replace_batch (signed_row a b) (submitted_row a b) (db_batches db)"
proof -
  obtain rec' where rec': "hydrate_batch (signed_row a b) = Inr rec'"
    using rec by (auto simp: hydrate_batch_def signed_row_def result_bind_eq_Inr)
  have fields: "pr_batch_id rec' = pb_id b" "pr_raw_tx_hash rec' = Some (an_stored a)"
    "pr_txid rec' = Some (sd_txid (an_signed a))"
    using rec' by (auto simp: hydrate_batch_def signed_row_def result_bind_eq_Inr)
  have listed: "list_payout_batches_by_status [''signed''] 10 db = Inr [rec']"
    using rec' by (simp add: alone_listed [OF alone] pipeline_statuses_def) (simp add: signed_row_def)
  have i: "pb_id (signed_row a b) = pb_id b" by (simp add: signed_row_def)
  note update = alone_update(1) [OF alone, of "[''signed'', ''submitted'']", unfolded i]
  have "db_batches (fst (submit_batch nodes rec' db))
      = replace_batch (signed_row a b) (submitted_row a b) (db_batches db)"
    using helpful update
    by (cases b) (simp add: helpful_def submit_batch_def submitted_batch_def fields mark_payout_submitted_def
        case_prod_unfold Let_def signed_row_def submitted_row_def coalesce_def)
  then show ?thesis
    using enabled listed helpful
    by (auto simp: submit_payouts_def run_query_def case_prod_unfold helpful_def Let_def)
qed

lemma pipeline_reconcile:
  assumes alone: "alone (submitted_row a b) db" and rec: "hydrate_batch b = Inr rec"
    and helpful: "helpful hexe json_text sign nodes tx_node rec a"
  shows "db_batches (fst (reconcile_payouts tx_node db))
    = replace_batch (submitted_row a b) (paid_row a b) (db_batches db)"
proof -
  obtain rec' where rec': "hydrate_batch (submitted_row a b) = Inr rec'"
    using rec by (auto simp: hydrate_batch_def submitted_row_def signed_row_def result_bind_eq_Inr)
  have fields: "pr_batch_id rec' = pb_id b" "pr_txid rec' = Some (sd_txid (an_signed a))"
    using rec' by (auto simp: hydrate_batch_def submitted_row_def signed_row_def result_bind_eq_Inr)
  have listed: "list_payout_batches_by_status [''submitted''] 100 db = Inr [rec']"
    using rec' by (simp add: alone_listed [OF alone] pipeline_statuses_def) (simp add: submitted_row_def)
  have i: "pb_id (submitted_row a b) = pb_id b" by (simp add: submitted_row_def signed_row_def)
  note update = alone_update(1) [OF alone, of "[''submitted'', ''signed'']", unfolded i]
  have "db_batches (fst (reconciled_payout rec' (an_status a) db))
      = replace_batch (submitted_row a b) (paid_row a b) (db_batches db)"
    using helpful update
    by (simp add: helpful_def reconciled_payout_def fields mark_payout_confirmed_def mark_payout_paid_def
        case_prod_unfold Let_def signed_row_def submitted_row_def paid_row_def)
  then show ?thesis
    using listed helpful
    by (auto simp: reconcile_payouts_def run_query_def case_prod_unfold helpful_def Let_def fields)
qed

lemma replace_replace:
  "b' \<notin> set bs \<Longrightarrow> replace_batch b' b'' (replace_batch b b' bs) = replace_batch b b'' bs"
  by (auto simp: replace_batch_def)

lemma replace_paid:
  assumes "distinct bs" and "b \<in> set bs" and "\<not> P b" and "P b'" and "h b' = h b"
  shows "sum_list (map h (filter P (replace_batch b b' bs))) = sum_list (map h (filter P bs)) + (h b :: int)"
  using assms
proof (induction bs)
  case (Cons x bs)
  have same: "replace_batch b b' bs = bs" if "b \<notin> set bs"
    using that unfolding replace_batch_def by (intro map_idI) auto
  show ?case using Cons same by (auto simp: replace_batch_def)
qed simp

section \<open>Progress\<close>

text \<open>Answers for the batch of the example run.\<close>

definition example_answers :: payout_answers where
  "example_answers = \<lparr>an_signed = \<lparr>sd_raw_tx_hex = Some ''ab'', sd_node_tx = None, sd_txid = replicate 64 CHR ''a''\<rparr>,
     an_stored = ''ab'', an_submitted = \<lparr>st_ok = True, st_txid = None, st_extra = JNull\<rparr>,
     an_status = \<lparr>ts_status = ''confirmed'', ts_confirmations = 1\<rparr>\<rparr>"

definition example_nodes :: submit_nodes where
  "example_nodes = \<lparr>sn_official = None,
     sn_adapter = Some (\<lambda>_. Inl [], \<lambda>_. Inr (an_submitted example_answers)),
     sn_parse = \<lambda>_. Inl [], sn_debug = \<lambda>_. []\<rparr>"

definition example_row_created :: batch_row where
  "example_row_created = \<lparr>pb_id = ''payout-7'', pb_status = ''created'', pb_total_base_units = 990, pb_txid = None,
     pb_raw_tx_hash = None, pb_recipients = [\<lparr>rc_miner = ''a'', rc_address = ''a'', rc_amount_base_units = 990\<rparr>],
     pb_created_at = 3, pb_failure_reason = None\<rparr>"

lemma example_tables: "db_batches example_batch = [example_row_created]" "payouts_enabled example_batch"
  unfolding example_batch_def example_matured_def by code_simp+

lemma example_hydrated: "\<exists>rec. hydrate_batch example_row_created = Inr rec"
  by (simp add: hydrate_batch_def example_row_created_def parse_u128_def)

lemma example_helpful:
  "helpful hexe json_text (\<lambda>_. Inr (an_signed example_answers)) example_nodes
     (\<lambda>_. Inr (an_status example_answers)) rec example_answers"
  by (simp add: helpful_def example_answers_def example_nodes_def validate_signed_payout_response_def
      signed_payout_storage_value_def submit_stored_def node_tx_storage_prefix_def Let_def
      is_ascii_hexdigit_def strip_prefix_def coalesce_def list_all_iff)

text \<open>
  C12. Payouts make progress: when a created batch is the only one in the pipeline, payouts are
  enabled, the signer answers with a transaction that pays the batch, the node takes it and reports
  it confirmed, then one run each of the signing, submission and reconciliation jobs pays every miner
  of the batch its amount, and the batch is confirmed.
\<close>
theorem payouts_progress:
  assumes books: "pool_reachable db" "rewards_bounded db" and enabled: "payouts_enabled db"
    and pipeline: "filter (\<lambda>x. pb_status x \<in> pipeline_statuses) (db_batches db) = [b]"
    and created: "pb_status b = ''created''" and rec: "hydrate_batch b = Inr rec"
    and helpful: "helpful hexe json_text sign nodes tx_node rec a"
  shows "let db' = fst (reconcile_payouts tx_node (fst (submit_payouts nodes (fst (sign_payouts hexe json_text sign db))))) in
    bl_paid (balance_of db' m) = bl_paid (balance_of db m) + batch_amount m b
    \<and> (\<exists>b' \<in> set (db_batches db'). pb_id b' = pb_id b \<and> pb_status b' = ''confirmed'')"
proof -
  let ?db1 = "fst (sign_payouts hexe json_text sign db)"
  let ?db2 = "fst (submit_payouts nodes ?db1)"
  let ?db3 = "fst (reconcile_payouts tx_node ?db2)"
  have ok: "books_ok db" by (rule pool_reachable_books [OF books])
  then have ok3: "books_ok ?db3"
    by (intro books_reconcile_payouts books_submit_payouts books_sign_payouts)
  have ids: "distinct (map pb_id (db_batches db))"
    using books_okD(4) [OF ok] by (simp add: batches_ok_def)
  then have alone: "alone b db" using pipeline by (simp add: alone_def)
  have b: "b \<in> set (db_batches db)" using alone_member(1) [OF alone] .
  note one = pipeline_sign [OF alone created rec enabled helpful]
  have alone1: "alone (signed_row a b) ?db1"
    by (rule alone_replace [OF alone one(1)]) (simp_all add: signed_row_def pipeline_statuses_def)
  note two = pipeline_submit [OF alone1 rec one(2) helpful]
  have alone2: "alone (submitted_row a b) ?db2"
    by (rule alone_replace [OF alone1 two]) (simp_all add: submitted_row_def signed_row_def pipeline_statuses_def)
  note three = pipeline_reconcile [OF alone2 rec helpful]
  have unique: "x = b" if "x \<in> set (db_batches db)" "pb_id x = pb_id b" for x
    using ids that b by (auto simp: distinct_map dest: inj_onD)
  have "pb_status (signed_row a b) \<noteq> pb_status b" "pb_status (submitted_row a b) \<noteq> pb_status b"
    "pb_id (signed_row a b) = pb_id b" "pb_id (submitted_row a b) = pb_id b"
    using created by (simp_all add: signed_row_def submitted_row_def)
  then have "signed_row a b \<notin> set (db_batches db)" "submitted_row a b \<notin> set (db_batches db)"
    using unique by metis+
  then have batches: "db_batches ?db3 = replace_batch b (paid_row a b) (db_batches db)"
    using one(1) two three by (simp add: replace_replace)
  have "bl_paid (balance_of ?db3 m) = bl_paid (balance_of db m) + batch_amount m b"
    unfolding books_okD(6) [OF ok] books_okD(6) [OF ok3] book_batches(2) [OF books_okD(4) [OF ok]]
      book_batches(2) [OF books_okD(4) [OF ok3]] batches
    using ids b created
    by (intro replace_paid) (auto simp: distinct_map paid_row_def signed_row_def batch_amount_def)
  moreover have "paid_row a b \<in> set (db_batches ?db3)"
    using b by (auto simp: batches replace_batch_def)
  ultimately show ?thesis
    unfolding Let_def by (intro conjI bexI [where x = "paid_row a b"]) (simp_all add: paid_row_def signed_row_def)
qed

theorem payouts_progress_witness:
  "bl_paid (balance_of (fst (reconcile_payouts (\<lambda>_. Inr (an_status example_answers)) (fst (submit_payouts example_nodes
      (fst (sign_payouts hex_encode (\<lambda>_. []) (\<lambda>_. Inr (an_signed example_answers)) example_batch)))))) ''a'') = 990"
proof -
  obtain rec where rec: "hydrate_batch example_row_created = Inr rec" using example_hydrated by blast
  have row: "filter (\<lambda>x. pb_status x \<in> pipeline_statuses) (db_batches example_batch) = [example_row_created]"
    "pb_status example_row_created = ''created''" "batch_amount ''a'' example_row_created = 990"
    by (simp_all add: example_tables example_row_created_def pipeline_statuses_def batch_amount_def)
  have "book ''a'' (db_ledger example_batch) = no_balance\<lparr>bl_locked := 990\<rparr>"
    by (simp add: example_ledger example_rewards_def example_row_def book_def row_effect_def Let_def no_balance_def)
  then have "bl_paid (balance_of example_batch ''a'') = 0"
    using books_okD(6) [OF pool_reachable_books [OF example_reachable example_bounded]] by simp
  then show ?thesis
    using payouts_progress [OF example_reachable example_bounded example_tables(2) row(1,2) rec example_helpful, where m = "''a''"]
    by (simp add: Let_def row(3))
qed

end
