(* ===== verification/Csd_Latency.thy ===== *)
theory Csd_Latency
  imports Csd_Json Csd_Abuse
begin

text \<open>
  Crate \<open>csd-pool-bridge\<close>, module \<open>replacement_latency\<close>: the telemetry that follows a replacement of
  the fast tip from the upstream observation to the last session that was notified. Its tables stand
  behind a mutex that is only tried, so every call has an input that says whether the lock was free;
  the counters are atomics outside the mutex, and the two halves of opening and closing a session are
  separate steps. The order in which a hash map is walked is an input of each call.
\<close>

section \<open>Data\<close>

datatype upstream_class = PrimaryAlreadyReady | IndependentSentinelAhead

fun upstream_class_as_str :: "upstream_class \<Rightarrow> string" where
  "upstream_class_as_str PrimaryAlreadyReady = ''primary_already_ready''"
| "upstream_class_as_str IndependentSentinelAhead = ''independent_sentinel_ahead''"

datatype fanout_outcome = FanoutSuccess | FanoutFailed | FanoutSkipped

definition max_in_flight_events :: nat where "max_in_flight_events = 16"
definition max_tracked_sessions :: nat where "max_tracked_sessions = 1024"
definition max_completed_summaries :: nat where "max_completed_summaries = 16"
definition max_logs_per_minute :: u32 where "max_logs_per_minute = 120"
definition max_log_queue :: nat where "max_log_queue = 16"
definition max_correlation_key_bytes :: nat where "max_correlation_key_bytes = 128"
definition event_timeout :: nat where "event_timeout = secs 30"

record latency_summary =
  sm_correlation_id :: string
  sm_source :: string
  sm_status :: string
  sm_reason :: string
  sm_observed_to_a_ready_ms :: "u64 option"
  sm_a_ready_to_published_ms :: "u64 option"
  sm_published_to_fanout_ms :: "u64 option"
  sm_total_ms :: "u64 option"
  sm_target_sessions :: u64
  sm_notify_success :: u64
  sm_notify_failed :: u64
  sm_notify_skipped :: u64
  sm_tracking_gap_sessions :: u64
  sm_stale_roster_sessions :: u64
  sm_dropped_events_total :: u64
  sm_dropped_sessions_total :: u64
  sm_untracked_sessions_total :: u64
  sm_untracked_active_sessions :: u64
  sm_roster_cleanup_failures_total :: u64
  sm_stale_tracked_sessions :: u64
  sm_dropped_logs_total :: u64
  sm_lock_failures_total :: u64
  sm_lock_contention_total :: u64
  sm_lock_poisoned_total :: u64
  sm_out_of_order_total :: u64

record latency_event =
  lv_id :: u64
  lv_source :: upstream_class
  lv_dedupe_key :: string
  lv_replacement_key :: "string option"
  lv_observed_at :: instant
  lv_a_ready_at :: "instant option"
  lv_published_at :: "instant option"
  lv_target_sessions :: u64
  lv_pending_sessions :: "u64 set"
  lv_notify_success :: u64
  lv_notify_failed :: u64
  lv_notify_skipped :: u64
  lv_tracking_gap_sessions :: u64
  lv_stale_roster_sessions :: u64

record latency_state =
  ls_active_sessions :: "u64 set"
  ls_events :: "(u64, latency_event) btree"
  ls_dedupe :: "string \<rightharpoonup> u64"
  ls_published_jobs :: "string \<rightharpoonup> u64"
  ls_completed :: "latency_summary list"
  ls_log_window_started :: instant
  ls_logs_in_window :: u32

text \<open>The channel of the logger: none, or the summaries it has not taken yet.\<close>

record latency_telemetry =
  lt_enabled :: bool
  lt_run_id :: u32
  lt_next_id :: u64
  lt_dropped_events :: u64
  lt_dropped_sessions :: u64
  lt_untracked_sessions :: u64
  lt_untracked_active_sessions :: u64
  lt_roster_cleanup_failures :: u64
  lt_stale_tracked_sessions :: u64
  lt_dropped_logs :: u64
  lt_active_session_total :: u64
  lt_lock_contention :: u64
  lt_lock_poisoned :: u64
  lt_out_of_order :: u64
  lt_log_sender :: "latency_summary list option"
  lt_state :: latency_state

definition latency_new :: "bool \<Rightarrow> u32 \<Rightarrow> instant \<Rightarrow> bool \<Rightarrow> latency_telemetry" where
  "latency_new enabled run_id now sender =
     \<lparr>lt_enabled = enabled, lt_run_id = run_id, lt_next_id = 1, lt_dropped_events = 0,
      lt_dropped_sessions = 0, lt_untracked_sessions = 0, lt_untracked_active_sessions = 0,
      lt_roster_cleanup_failures = 0, lt_stale_tracked_sessions = 0, lt_dropped_logs = 0,
      lt_active_session_total = 0, lt_lock_contention = 0, lt_lock_poisoned = 0, lt_out_of_order = 0,
      lt_log_sender = (if sender then Some [] else None),
      lt_state = \<lparr>ls_active_sessions = {}, ls_events = [], ls_dedupe = Map.empty,
        ls_published_jobs = Map.empty, ls_completed = [], ls_log_window_started = now,
        ls_logs_in_window = 0\<rparr>\<rparr>"

section \<open>Helpers\<close>

text \<open>\<open>checked_duration_since\<close>, and the milliseconds between two readings of the clock.\<close>

definition checked_since :: "instant \<Rightarrow> instant \<Rightarrow> nat option" where
  "checked_since now earlier = (if earlier \<le> now then Some (now - earlier) else None)"

definition elapsed_ms_pair :: "instant option \<Rightarrow> instant option \<Rightarrow> u64 option" where
  "elapsed_ms_pair started ended =
     (case ended of None \<Rightarrow> None | Some e \<Rightarrow>
        (case started of None \<Rightarrow> None | Some s \<Rightarrow>
           map_option (\<lambda>d. word_of_nat (min (d div 10 ^ 6) (2 ^ 64 - 1))) (checked_since e s)))"

definition elapsed_ms :: "instant \<Rightarrow> instant option \<Rightarrow> u64 option" where
  "elapsed_ms started ended = elapsed_ms_pair (Some started) ended"

definition correlation_id :: "u64 \<Rightarrow> latency_telemetry \<Rightarrow> string" where
  "correlation_id event_id t = hex08 (unat (lt_run_id t)) @ ''-'' @ hex08 (unat event_id)"

definition lock_failures_total :: "latency_telemetry \<Rightarrow> u64" where
  "lock_failures_total t = sat_add (lt_lock_contention t) (lt_lock_poisoned t)"

definition log_allowed :: "latency_state \<Rightarrow> instant \<Rightarrow> latency_state \<times> bool" where
  "log_allowed st now =
     (let st' = (if (case checked_since now (ls_log_window_started st) of
                       Some elapsed \<Rightarrow> secs 60 \<le> elapsed | None \<Rightarrow> False)
                 then st\<lparr>ls_log_window_started := now, ls_logs_in_window := 0\<rparr> else st)
      in if max_logs_per_minute \<le> ls_logs_in_window st' then (st', False)
         else (st'\<lparr>ls_logs_in_window := ls_logs_in_window st' + 1\<rparr>, True))"

section \<open>Calls\<close>

datatype lock_result = LockFree | LockWouldBlock | LockPoisoned

record latency_call =
  lc_now :: instant
  lc_lock :: lock_result
  lc_order :: "u64 list \<Rightarrow> u64 list"

definition try_state :: "latency_call \<Rightarrow> latency_telemetry \<Rightarrow> latency_telemetry \<times> bool" where
  "try_state c t =
     (case lc_lock c of
        LockFree \<Rightarrow> (t, True)
      | LockWouldBlock \<Rightarrow> (t\<lparr>lt_lock_contention := lt_lock_contention t + 1\<rparr>, False)
      | LockPoisoned \<Rightarrow> (t\<lparr>lt_lock_poisoned := lt_lock_poisoned t + 1\<rparr>, False))"

definition dropped_log :: "latency_telemetry \<Rightarrow> latency_telemetry" where
  "dropped_log t = t\<lparr>lt_dropped_logs := lt_dropped_logs t + 1\<rparr>"

definition set_state :: "(latency_state \<Rightarrow> latency_state) \<Rightarrow> latency_telemetry \<Rightarrow> latency_telemetry" where
  "set_state f t = t\<lparr>lt_state := f (lt_state t)\<rparr>"

definition set_event :: "u64 \<Rightarrow> (latency_event \<Rightarrow> latency_event) \<Rightarrow> latency_telemetry \<Rightarrow> latency_telemetry" where
  "set_event event_id f = set_state (\<lambda>st. st\<lparr>ls_events :=
     map (\<lambda>(k, e). (k, if k = event_id then f e else e)) (ls_events st)\<rparr>)"

definition event_of :: "u64 \<Rightarrow> latency_telemetry \<Rightarrow> latency_event option" where
  "event_of event_id t = bt_get (ls_events (lt_state t)) event_id"

definition latency_summary_of ::
  "latency_event \<Rightarrow> string \<Rightarrow> string \<Rightarrow> instant \<Rightarrow> latency_telemetry \<Rightarrow> latency_summary" where
  "latency_summary_of e status reason finished_at t =
     (let fanout_unobservable = (status = ''tracking_gap'') in
      \<lparr>sm_correlation_id = correlation_id (lv_id e) t, sm_source = upstream_class_as_str (lv_source e),
       sm_status = status, sm_reason = reason,
       sm_observed_to_a_ready_ms = elapsed_ms (lv_observed_at e) (lv_a_ready_at e),
       sm_a_ready_to_published_ms = elapsed_ms_pair (lv_a_ready_at e) (lv_published_at e),
       sm_published_to_fanout_ms =
         (if fanout_unobservable then None else elapsed_ms_pair (lv_published_at e) (Some finished_at)),
       sm_total_ms = (if fanout_unobservable then None else elapsed_ms (lv_observed_at e) (Some finished_at)),
       sm_target_sessions = lv_target_sessions e, sm_notify_success = lv_notify_success e,
       sm_notify_failed = lv_notify_failed e,
       sm_notify_skipped = sat_add (lv_notify_skipped e) (word_of_nat (card (lv_pending_sessions e))),
       sm_tracking_gap_sessions = lv_tracking_gap_sessions e,
       sm_stale_roster_sessions = lv_stale_roster_sessions e,
       sm_dropped_events_total = lt_dropped_events t, sm_dropped_sessions_total = lt_dropped_sessions t,
       sm_untracked_sessions_total = lt_untracked_sessions t,
       sm_untracked_active_sessions = lt_untracked_active_sessions t,
       sm_roster_cleanup_failures_total = lt_roster_cleanup_failures t,
       sm_stale_tracked_sessions = lt_stale_tracked_sessions t,
       sm_dropped_logs_total = lt_dropped_logs t, sm_lock_failures_total = lock_failures_total t,
       sm_lock_contention_total = lt_lock_contention t, sm_lock_poisoned_total = lt_lock_poisoned t,
       sm_out_of_order_total = lt_out_of_order t\<rparr>)"

text \<open>\<open>try_send\<close> into the bounded channel of the logger.\<close>

definition send_summary :: "latency_summary \<Rightarrow> latency_telemetry \<Rightarrow> latency_telemetry" where
  "send_summary summary t =
     (case lt_log_sender t of
        None \<Rightarrow> t
      | Some queue \<Rightarrow> if length queue < max_log_queue
                      then t\<lparr>lt_log_sender := Some (queue @ [summary])\<rparr> else dropped_log t)"

definition push_completed :: "latency_summary \<Rightarrow> latency_summary list \<Rightarrow> latency_summary list" where
  "push_completed summary completed =
     (if max_completed_summaries \<le> length completed then tl completed else completed) @ [summary]"

definition finish_locked ::
  "u64 \<Rightarrow> string \<Rightarrow> string \<Rightarrow> instant \<Rightarrow> latency_telemetry \<Rightarrow> latency_telemetry" where
  "finish_locked event_id status reason finished_at t =
     (case event_of event_id t of
        None \<Rightarrow> t
      | Some e \<Rightarrow>
          let summary = latency_summary_of e status reason finished_at t;
              st = lt_state t;
              st = st\<lparr>ls_events := bt_remove event_id (ls_events st),
                      ls_dedupe := (ls_dedupe st)(lv_dedupe_key e := None),
                      ls_published_jobs := (case lv_replacement_key e of
                          Some k \<Rightarrow> (ls_published_jobs st)(k := None) | None \<Rightarrow> ls_published_jobs st),
                      ls_completed := push_completed summary (ls_completed st)\<rparr>;
              (st, allowed) = log_allowed st finished_at;
              t = t\<lparr>lt_state := st\<rparr>
          in if allowed then send_summary summary t else dropped_log t)"

definition finish_fanout_locked ::
  "u64 \<Rightarrow> string \<Rightarrow> instant \<Rightarrow> latency_telemetry \<Rightarrow> latency_telemetry" where
  "finish_fanout_locked event_id complete_reason finished_at t =
     (if (case event_of event_id t of Some e \<Rightarrow> 0 < lv_tracking_gap_sessions e | None \<Rightarrow> False)
      then finish_locked event_id ''tracking_gap'' ''untracked_sessions'' finished_at t
      else finish_locked event_id ''complete'' complete_reason finished_at t)"

definition event_expired :: "instant \<Rightarrow> latency_event \<Rightarrow> bool" where
  "event_expired now e =
     (case checked_since now (lv_observed_at e) of Some elapsed \<Rightarrow> event_timeout \<le> elapsed | None \<Rightarrow> False)"

definition expire_locked :: "latency_call \<Rightarrow> latency_telemetry \<Rightarrow> latency_telemetry" where
  "expire_locked c t =
     foldl (\<lambda>t event_id. finish_locked event_id ''timeout'' ''stage_timeout'' (lc_now c) t) t
       (lc_order c (map fst (filter (\<lambda>(k, e). event_expired (lc_now c) e) (ls_events (lt_state t)))))"

definition observe_upstream ::
  "latency_call \<Rightarrow> string \<Rightarrow> upstream_class \<Rightarrow> latency_telemetry \<Rightarrow> latency_telemetry \<times> u64 option" where
  "observe_upstream c dedupe_key source t =
     (if \<not> lt_enabled t then (t, None)
      else if max_correlation_key_bytes < length dedupe_key
      then (t\<lparr>lt_dropped_events := lt_dropped_events t + 1\<rparr>, None)
      else let (t, locked) = try_state c t in
        if \<not> locked then (t, None)
        else let t = expire_locked c t in
          case Option.bind (ls_dedupe (lt_state t) dedupe_key)
                 (\<lambda>k. if event_of k t = None then None else Some k) of
            Some k \<Rightarrow> (t, Some k)
          | None \<Rightarrow>
              let t = set_state (\<lambda>st. st\<lparr>ls_dedupe := (ls_dedupe st)(dedupe_key := None)\<rparr>) t in
              if max_in_flight_events \<le> length (ls_events (lt_state t))
              then (t\<lparr>lt_dropped_events := lt_dropped_events t + 1\<rparr>, None)
              else let event_id = lt_next_id t;
                  event = \<lparr>lv_id = event_id, lv_source = source, lv_dedupe_key = dedupe_key,
                    lv_replacement_key = None, lv_observed_at = lc_now c, lv_a_ready_at = None,
                    lv_published_at = None, lv_target_sessions = 0, lv_pending_sessions = {},
                    lv_notify_success = 0, lv_notify_failed = 0, lv_notify_skipped = 0,
                    lv_tracking_gap_sessions = 0, lv_stale_roster_sessions = 0\<rparr>
                in (set_state (\<lambda>st. st\<lparr>ls_dedupe := (ls_dedupe st)(dedupe_key \<mapsto> event_id),
                      ls_events := bt_insert event_id event (ls_events st)\<rparr>)
                      (t\<lparr>lt_next_id := event_id + 1\<rparr>), Some event_id))"

definition out_of_order ::
  "latency_call \<Rightarrow> u64 \<Rightarrow> latency_telemetry \<Rightarrow> latency_telemetry" where
  "out_of_order c event_id t =
     finish_locked event_id ''failed'' ''out_of_order'' (lc_now c) (t\<lparr>lt_out_of_order := lt_out_of_order t + 1\<rparr>)"

definition mark_a_ready :: "latency_call \<Rightarrow> u64 \<Rightarrow> latency_telemetry \<Rightarrow> latency_telemetry" where
  "mark_a_ready c event_id t =
     (if \<not> lt_enabled t then t
      else let (t, locked) = try_state c t in
        if \<not> locked then t
        else let t = expire_locked c t in
          if (case event_of event_id t of
                Some e \<Rightarrow> lv_published_at e \<noteq> None \<or> checked_since (lc_now c) (lv_observed_at e) = None
              | None \<Rightarrow> False)
          then out_of_order c event_id t
          else set_event event_id (\<lambda>e. if lv_a_ready_at e = None
                 then e\<lparr>lv_a_ready_at := Some (lc_now c)\<rparr> else e) t)"

definition publish_gap ::
  "latency_call \<Rightarrow> u64 \<Rightarrow> string \<Rightarrow> latency_telemetry \<Rightarrow> latency_telemetry" where
  "publish_gap c event_id replacement_key t =
     (let active_total = lt_active_session_total t;
          tracked_total = word_of_nat (card (ls_active_sessions (lt_state t)));
          stale_tracked = lt_stale_tracked_sessions t in
      if event_of event_id t = None then t
      else finish_locked event_id ''tracking_gap''
        (if 0 < stale_tracked \<or> active_total < tracked_total
         then ''stale_session_roster'' else ''session_roster_inconsistent'') (lc_now c)
        (set_event event_id (\<lambda>e. e\<lparr>lv_published_at := Some (lc_now c),
            lv_replacement_key := Some replacement_key, lv_target_sessions := active_total,
            lv_notify_skipped := active_total, lv_tracking_gap_sessions := active_total,
            lv_stale_roster_sessions := max stale_tracked (sat_sub tracked_total active_total)\<rparr>) t))"

definition publish_fanout ::
  "latency_call \<Rightarrow> u64 \<Rightarrow> string \<Rightarrow> latency_telemetry \<Rightarrow> latency_telemetry" where
  "publish_fanout c event_id replacement_key t =
     (let active_total = lt_active_session_total t;
          untracked_active = lt_untracked_active_sessions t;
          active_sessions = ls_active_sessions (lt_state t) in
      if event_of event_id t = None then t
      else let t = set_state (\<lambda>st. st\<lparr>ls_published_jobs := (ls_published_jobs st)(replacement_key \<mapsto> event_id)\<rparr>)
            (set_event event_id (\<lambda>e. e\<lparr>lv_published_at := Some (lc_now c),
              lv_replacement_key := Some replacement_key, lv_target_sessions := active_total,
              lv_pending_sessions := active_sessions, lv_notify_skipped := untracked_active,
              lv_tracking_gap_sessions := untracked_active\<rparr>) t)
        in if (case event_of event_id t of Some e \<Rightarrow> lv_pending_sessions e = {} | None \<Rightarrow> False)
           then if active_total = 0 then finish_locked event_id ''complete'' ''zero_sessions'' (lc_now c) t
                else finish_locked event_id ''tracking_gap'' ''untracked_sessions'' (lc_now c) t
           else t)"

definition mark_published ::
  "latency_call \<Rightarrow> u64 \<Rightarrow> string \<Rightarrow> latency_telemetry \<Rightarrow> latency_telemetry" where
  "mark_published c event_id replacement_key t =
     (if \<not> lt_enabled t then t
      else let (t, locked) = try_state c t in
        if \<not> locked then t
        else let t = expire_locked c t in
          if max_correlation_key_bytes < length replacement_key
          then finish_locked event_id ''failed'' ''replacement_key_oversize'' (lc_now c)
                 (t\<lparr>lt_dropped_events := lt_dropped_events t + 1\<rparr>)
          else if (case event_of event_id t of
                Some e \<Rightarrow> lv_a_ready_at e = None \<or> lv_published_at e \<noteq> None
                  \<or> Option.bind (lv_a_ready_at e) (checked_since (lc_now c)) = None
              | None \<Rightarrow> False)
          then out_of_order c event_id t
          else let tracked_total = word_of_nat (card (ls_active_sessions (lt_state t)));
              expected_tracked = sat_sub (lt_active_session_total t) (lt_untracked_active_sessions t)
            in if 0 < lt_stale_tracked_sessions t \<or> tracked_total \<noteq> expected_tracked
               then publish_gap c event_id replacement_key t
               else publish_fanout c event_id replacement_key t)"

definition fail_event :: "latency_call \<Rightarrow> u64 \<Rightarrow> string \<Rightarrow> latency_telemetry \<Rightarrow> latency_telemetry" where
  "fail_event c event_id reason t =
     (if \<not> lt_enabled t then t
      else let (t, locked) = try_state c t in
        if \<not> locked then t else finish_locked event_id ''failed'' reason (lc_now c) t)"

definition latency_expire :: "latency_call \<Rightarrow> latency_telemetry \<Rightarrow> latency_telemetry" where
  "latency_expire c t =
     (if \<not> lt_enabled t then t
      else let (t, locked) = try_state c t in if \<not> locked then t else expire_locked c t)"

section \<open>Sessions\<close>

definition count_untracked_session :: "latency_telemetry \<Rightarrow> latency_telemetry" where
  "count_untracked_session t =
     t\<lparr>lt_dropped_sessions := lt_dropped_sessions t + 1,
       lt_untracked_sessions := lt_untracked_sessions t + 1,
       lt_untracked_active_sessions := lt_untracked_active_sessions t + 1\<rparr>"

text \<open>Opening: the total is counted first, the roster is changed under the lock.\<close>

definition activate_count :: "latency_telemetry \<Rightarrow> latency_telemetry" where
  "activate_count t = t\<lparr>lt_active_session_total := lt_active_session_total t + 1\<rparr>"

definition activate_track ::
  "latency_call \<Rightarrow> u64 \<Rightarrow> latency_telemetry \<Rightarrow> latency_telemetry \<times> (bool \<times> bool)" where
  "activate_track c session_id t =
     (let (t, locked) = try_state c t in
      if \<not> locked then (count_untracked_session t, True, False)
      else if max_tracked_sessions \<le> card (ls_active_sessions (lt_state t))
      then (count_untracked_session t, True, False)
      else let tracked = session_id \<notin> ls_active_sessions (lt_state t);
               t = set_state (\<lambda>st. st\<lparr>ls_active_sessions := insert session_id (ls_active_sessions st)\<rparr>) t
           in (if tracked then t else count_untracked_session t, True, tracked))"

definition activate_session ::
  "latency_call \<Rightarrow> u64 \<Rightarrow> latency_telemetry \<Rightarrow> latency_telemetry \<times> (bool \<times> bool)" where
  "activate_session c session_id t =
     (if \<not> lt_enabled t then (t, False, False) else activate_track c session_id (activate_count t))"

text \<open>A session leaves the pending sets of the events that \<open>P\<close> selects; which of them are done.\<close>

definition drop_pending ::
  "(u64 \<Rightarrow> bool) \<Rightarrow> u64 \<Rightarrow> latency_telemetry \<Rightarrow> latency_telemetry" where
  "drop_pending P session_id = set_state (\<lambda>st. st\<lparr>ls_events := map (\<lambda>(k, e). (k,
     if P k \<and> session_id \<in> lv_pending_sessions e
     then e\<lparr>lv_pending_sessions := lv_pending_sessions e - {session_id},
            lv_notify_skipped := sat_add (lv_notify_skipped e) 1\<rparr>
     else e)) (ls_events st)\<rparr>)"

definition drop_done :: "(u64 \<Rightarrow> bool) \<Rightarrow> u64 \<Rightarrow> latency_telemetry \<Rightarrow> u64 list" where
  "drop_done P session_id t = map fst (filter (\<lambda>(k, e). P k \<and> session_id \<in> lv_pending_sessions e
     \<and> lv_published_at e \<noteq> None \<and> lv_pending_sessions e - {session_id} = {}) (ls_events (lt_state t)))"

definition finish_done ::
  "latency_call \<Rightarrow> string \<Rightarrow> u64 list \<Rightarrow> latency_telemetry \<Rightarrow> latency_telemetry" where
  "finish_done c reason ids t =
     foldl (\<lambda>t event_id. finish_fanout_locked event_id reason (lc_now c) t) t (lc_order c ids)"

definition deactivate_count :: "latency_telemetry \<Rightarrow> latency_telemetry" where
  "deactivate_count t = t\<lparr>lt_active_session_total := sat_sub (lt_active_session_total t) 1\<rparr>"

definition deactivate_untracked :: "latency_telemetry \<Rightarrow> latency_telemetry" where
  "deactivate_untracked t =
     t\<lparr>lt_untracked_active_sessions := sat_sub (lt_untracked_active_sessions t) 1\<rparr>"

definition deactivate_tracked :: "latency_call \<Rightarrow> u64 \<Rightarrow> latency_telemetry \<Rightarrow> latency_telemetry" where
  "deactivate_tracked c session_id t =
     (let (t, locked) = try_state c t in
      if \<not> locked
      then t\<lparr>lt_roster_cleanup_failures := lt_roster_cleanup_failures t + 1,
             lt_stale_tracked_sessions := lt_stale_tracked_sessions t + 1\<rparr>
      else let present = session_id \<in> ls_active_sessions (lt_state t);
          t = set_state (\<lambda>st. st\<lparr>ls_active_sessions := ls_active_sessions st - {session_id}\<rparr>) t;
          t = (if present then t
               else t\<lparr>lt_roster_cleanup_failures := lt_roster_cleanup_failures t + 1\<rparr>)
        in finish_done c ''session_disconnected'' (drop_done (\<lambda>_. True) session_id t)
             (drop_pending (\<lambda>_. True) session_id t))"

definition deactivate_session ::
  "latency_call \<Rightarrow> u64 \<Rightarrow> bool \<Rightarrow> bool \<Rightarrow> latency_telemetry \<Rightarrow> latency_telemetry" where
  "deactivate_session c session_id counted tracked t =
     (if \<not> lt_enabled t \<or> \<not> counted then t
      else let t = deactivate_count t in
        if \<not> tracked then deactivate_untracked t else deactivate_tracked c session_id t)"

definition count_outcome :: "fanout_outcome \<Rightarrow> latency_event \<Rightarrow> latency_event" where
  "count_outcome outcome e =
     (case outcome of
        FanoutSuccess \<Rightarrow> e\<lparr>lv_notify_success := sat_add (lv_notify_success e) 1\<rparr>
      | FanoutFailed \<Rightarrow> e\<lparr>lv_notify_failed := sat_add (lv_notify_failed e) 1\<rparr>
      | FanoutSkipped \<Rightarrow> e\<lparr>lv_notify_skipped := sat_add (lv_notify_skipped e) 1\<rparr>)"

definition fanout_reason :: "latency_event \<Rightarrow> string" where
  "fanout_reason e =
     (if 0 < lv_notify_failed e then ''partial_notify_failure''
      else if 0 < lv_notify_skipped e then ''partial_notify_skip'' else ''all_notified'')"

definition record_fanout ::
  "latency_call \<Rightarrow> u64 \<Rightarrow> string \<Rightarrow> fanout_outcome \<Rightarrow> latency_telemetry \<Rightarrow> latency_telemetry" where
  "record_fanout c session_id replacement_key outcome t =
     (if \<not> lt_enabled t then t
      else let (t, locked) = try_state c t in
        if \<not> locked then t
        else let t = expire_locked c t in
          case ls_published_jobs (lt_state t) replacement_key of
            None \<Rightarrow> t
          | Some event_id \<Rightarrow>
              let other = (\<lambda>k. k \<noteq> event_id);
                  t = finish_done c ''superseded'' (drop_done other session_id t) (drop_pending other session_id t)
              in case event_of event_id t of
                   None \<Rightarrow> t
                 | Some e \<Rightarrow>
                     if session_id \<notin> lv_pending_sessions e then t
                     else let e' = count_outcome outcome
                              (e\<lparr>lv_pending_sessions := lv_pending_sessions e - {session_id}\<rparr>);
                          t = set_event event_id (\<lambda>_. e') t
                       in if lv_pending_sessions e' = {}
                          then finish_fanout_locked event_id (fanout_reason e') (lc_now c) t else t)"

record telemetry_session =
  tl_session_id :: u64
  tl_authorized :: bool
  tl_counted :: bool
  tl_tracked :: bool

definition telemetry_session_new :: "u64 \<Rightarrow> telemetry_session" where
  "telemetry_session_new session_id =
     \<lparr>tl_session_id = session_id, tl_authorized = False, tl_counted = False, tl_tracked = False\<rparr>"

definition telemetry_authorize ::
  "latency_call \<Rightarrow> telemetry_session \<Rightarrow> latency_telemetry \<Rightarrow> telemetry_session \<times> latency_telemetry" where
  "telemetry_authorize c s t =
     (if tl_authorized s then (s, t)
      else let (t, counted, tracked) = activate_session c (tl_session_id s) t
        in (s\<lparr>tl_authorized := True, tl_counted := counted, tl_tracked := tracked\<rparr>, t))"

definition telemetry_record_notify ::
  "latency_call \<Rightarrow> telemetry_session \<Rightarrow> string \<Rightarrow> fanout_outcome \<Rightarrow> latency_telemetry \<Rightarrow> latency_telemetry" where
  "telemetry_record_notify c s replacement_key outcome t =
     (if tl_authorized s then record_fanout c (tl_session_id s) replacement_key outcome t else t)"

definition telemetry_drop :: "latency_call \<Rightarrow> telemetry_session \<Rightarrow> latency_telemetry \<Rightarrow> latency_telemetry" where
  "telemetry_drop c s t =
     (if tl_authorized s then deactivate_session c (tl_session_id s) (tl_counted s) (tl_tracked s) t else t)"

text \<open>The logger takes the oldest summary.\<close>

definition log_drain :: "latency_telemetry \<Rightarrow> latency_telemetry" where
  "log_drain t = t\<lparr>lt_log_sender := map_option tl (lt_log_sender t)\<rparr>"

definition json_u64_option :: "u64 option \<Rightarrow> json" where
  "json_u64_option x = (case x of None \<Rightarrow> JNull | Some n \<Rightarrow> JPos n)"

text \<open>The document of a summary, its members in the order of their names.\<close>

definition safe_json :: "latency_summary \<Rightarrow> json" where
  "safe_json s = JObject [
      (''a_ready_to_published_ms'', json_u64_option (sm_a_ready_to_published_ms s)),
      (''addresses_recorded'', JBool False),
      (''chain_values_recorded'', JBool False),
      (''correlation_id'', JString (sm_correlation_id s)),
      (''credentials_recorded'', JBool False),
      (''dropped_events_total'', JPos (sm_dropped_events_total s)),
      (''dropped_logs_total'', JPos (sm_dropped_logs_total s)),
      (''dropped_sessions_total'', JPos (sm_dropped_sessions_total s)),
      (''lock_contention_total'', JPos (sm_lock_contention_total s)),
      (''lock_failures_total'', JPos (sm_lock_failures_total s)),
      (''lock_poisoned_total'', JPos (sm_lock_poisoned_total s)),
      (''notify_failed'', JPos (sm_notify_failed s)),
      (''notify_skipped'', JPos (sm_notify_skipped s)),
      (''notify_success'', JPos (sm_notify_success s)),
      (''observed_to_a_ready_ms'', json_u64_option (sm_observed_to_a_ready_ms s)),
      (''out_of_order_total'', JPos (sm_out_of_order_total s)),
      (''published_to_fanout_ms'', json_u64_option (sm_published_to_fanout_ms s)),
      (''reason'', JString (sm_reason s)),
      (''roster_cleanup_failures_total'', JPos (sm_roster_cleanup_failures_total s)),
      (''schema'', JString ''fast_tip_replacement_latency/v1u2''),
      (''session_identities_recorded'', JBool False),
      (''source'', JString (sm_source s)),
      (''stale_roster_sessions'', JPos (sm_stale_roster_sessions s)),
      (''stale_tracked_sessions'', JPos (sm_stale_tracked_sessions s)),
      (''status'', JString (sm_status s)),
      (''target_sessions'', JPos (sm_target_sessions s)),
      (''total_ms'', json_u64_option (sm_total_ms s)),
      (''tracking_gap_sessions'', JPos (sm_tracking_gap_sessions s)),
      (''untracked_active_sessions'', JPos (sm_untracked_active_sessions s)),
      (''untracked_sessions_total'', JPos (sm_untracked_sessions_total s))]"

section \<open>The invariant of the tables\<close>

definition event_accounts :: "latency_event \<Rightarrow> bool" where
  "event_accounts e \<longleftrightarrow> unat (lv_notify_success e) + unat (lv_notify_failed e) + unat (lv_notify_skipped e)
     + card (lv_pending_sessions e) = max (unat (lv_target_sessions e)) (unat (lv_tracking_gap_sessions e))"

text \<open>The stages of an event are in order, and nothing is counted before the last of them.\<close>

definition event_stages :: "latency_event \<Rightarrow> bool" where
  "event_stages e \<longleftrightarrow>
     (case lv_a_ready_at e of None \<Rightarrow> lv_published_at e = None | Some r \<Rightarrow> lv_observed_at e \<le> r
        \<and> (case lv_published_at e of None \<Rightarrow> True | Some p \<Rightarrow> r \<le> p))
     \<and> (lv_published_at e = None \<longrightarrow> lv_target_sessions e = 0 \<and> lv_tracking_gap_sessions e = 0)"

definition event_ok :: "latency_event \<Rightarrow> bool" where
  "event_ok e \<longleftrightarrow> event_accounts e \<and> event_stages e"

definition summary_ok :: "latency_summary \<Rightarrow> bool" where
  "summary_ok s \<longleftrightarrow>
     unat (sm_notify_success s) + unat (sm_notify_failed s) + unat (sm_notify_skipped s)
       = max (unat (sm_target_sessions s)) (unat (sm_tracking_gap_sessions s))
     \<and> (sm_status s = ''complete'' \<longrightarrow> sm_observed_to_a_ready_ms s \<noteq> None \<and> sm_a_ready_to_published_ms s \<noteq> None
         \<and> (sm_target_sessions s = 0 \<or> sm_tracking_gap_sessions s = 0))"

definition state_ok :: "latency_state \<Rightarrow> bool" where
  "state_ok st \<longleftrightarrow> bt_wf (ls_events st) \<and> length (ls_events st) \<le> max_in_flight_events
     \<and> (\<forall>(k, e) \<in> set (ls_events st). event_ok e) \<and> card (ls_active_sessions st) \<le> max_tracked_sessions
     \<and> length (ls_completed st) \<le> max_completed_summaries \<and> (\<forall>s \<in> set (ls_completed st). summary_ok s)
     \<and> ls_logs_in_window st \<le> max_logs_per_minute"

definition latency_ok :: "latency_telemetry \<Rightarrow> bool" where
  "latency_ok t \<longleftrightarrow> state_ok (lt_state t)
     \<and> (case lt_log_sender t of None \<Rightarrow> True | Some queue \<Rightarrow> length queue \<le> max_log_queue)"

lemma latency_ok_cong:
  "lt_state t' = lt_state t \<Longrightarrow> lt_log_sender t' = lt_log_sender t \<Longrightarrow> latency_ok t' = latency_ok t"
  by (simp add: latency_ok_def)

lemma latency_new_ok: "latency_ok (latency_new enabled run_id now sender)"
  by (simp add: latency_ok_def state_ok_def latency_new_def max_logs_per_minute_def)

lemma event_of_ok: "latency_ok t \<Longrightarrow> event_of k t = Some e \<Longrightarrow> event_ok e"
  by (auto simp: latency_ok_def state_ok_def event_of_def bt_get_in_set)

lemma logs_bounded:
  assumes "log_allowed st now = (st', allowed)"
  shows "ls_logs_in_window st \<le> max_logs_per_minute \<Longrightarrow> ls_logs_in_window st' \<le> max_logs_per_minute"
    and "ls_events st' = ls_events st" "ls_completed st' = ls_completed st"
    "ls_active_sessions st' = ls_active_sessions st"
    "ls_dedupe st' = ls_dedupe st" "ls_published_jobs st' = ls_published_jobs st"
  using assms
  by (auto simp: log_allowed_def Let_def max_logs_per_minute_def word_le_nat_alt unat_word_ariths
      split: if_splits option.splits)

lemma length_push_completed: "length (push_completed s ss) \<le> max max_completed_summaries (length ss)"
  by (cases ss) (auto simp: push_completed_def max_completed_summaries_def)

lemma set_push_completed: "set (push_completed s ss) \<subseteq> insert s (set ss)"
  by (cases ss) (auto simp: push_completed_def)

lemma sat_add_exact:
  fixes a :: u64
  shows "unat a + unat b < 2 ^ 64 \<Longrightarrow> unat (sat_add a b) = unat a + unat b"
  by (simp add: sat_add_def unat_plus_eq word_le_nat_alt)

lemma summary_of_ok:
  assumes "event_ok e" and "status = ''complete'' \<longrightarrow> lv_published_at e \<noteq> None
    \<and> (lv_target_sessions e = 0 \<or> lv_tracking_gap_sessions e = 0)"
  shows "summary_ok (latency_summary_of e status reason now t)"
proof -
  have accounts: "event_accounts e" and stages: "event_stages e" using assms(1) by (simp_all add: event_ok_def)
  let ?n = "card (lv_pending_sessions e)"
  have bound: "unat (lv_notify_skipped e) + ?n < 2 ^ 64"
    using accounts unsigned_less [of "lv_target_sessions e", where ?'a = nat] unsigned_less [of "lv_tracking_gap_sessions e", where ?'a = nat]
    by (simp add: event_accounts_def)
  then have "unat (sat_add (lv_notify_skipped e) (word_of_nat ?n :: u64)) = unat (lv_notify_skipped e) + ?n"
    by (subst sat_add_exact) (simp_all add: unat_of_nat take_bit_nat_eq_self)
  then show ?thesis
    using accounts stages assms(2)
    by (auto simp: summary_ok_def latency_summary_of_def event_accounts_def Let_def event_stages_def
        elapsed_ms_def elapsed_ms_pair_def checked_since_def split: option.splits)
qed

lemma send_ok: "latency_ok t \<Longrightarrow> latency_ok (send_summary s t)" "latency_ok t \<Longrightarrow> latency_ok (dropped_log t)"
  by (auto simp: latency_ok_def send_summary_def dropped_log_def split: option.splits)

lemma send_state [simp]: "lt_state (send_summary s t) = lt_state t" "lt_state (dropped_log t) = lt_state t"
  by (simp_all add: send_summary_def dropped_log_def split: option.split)

lemma event_of_finish:
  "event_of k (finish_locked event_id status reason now t) = (if k = event_id then None else event_of k t)"
proof (cases "event_of event_id t")
  case (Some e)
  then show ?thesis
    unfolding finish_locked_def
    by (auto simp: Let_def event_of_def bt_get_remove logs_bounded split: prod.split)
qed (auto simp: finish_locked_def)

lemma finish_ok:
  assumes ok: "latency_ok t"
    and complete: "\<And>e. status = ''complete'' \<Longrightarrow> event_of event_id t = Some e \<Longrightarrow> lv_published_at e \<noteq> None
      \<and> (lv_target_sessions e = 0 \<or> lv_tracking_gap_sessions e = 0)"
  shows "latency_ok (finish_locked event_id status reason now t)"
proof (cases "event_of event_id t")
  case (Some e)
  let ?s = "latency_summary_of e status reason now t"
  have s: "summary_ok ?s"
    using complete [OF _ Some] by (intro summary_of_ok event_of_ok [OF ok Some]) blast
  let ?st = "(lt_state t)\<lparr>ls_events := bt_remove event_id (ls_events (lt_state t)),
      ls_dedupe := (ls_dedupe (lt_state t))(lv_dedupe_key e := None),
      ls_published_jobs := (case lv_replacement_key e of
          Some k \<Rightarrow> (ls_published_jobs (lt_state t))(k := None) | None \<Rightarrow> ls_published_jobs (lt_state t)),
      ls_completed := push_completed ?s (ls_completed (lt_state t))\<rparr>"
  obtain st' allowed where log: "log_allowed ?st now = (st', allowed)" by (cases "log_allowed ?st now")
  have old: "state_ok (lt_state t)" using ok by (simp add: latency_ok_def)
  have "length (bt_remove event_id (ls_events (lt_state t))) \<le> length (ls_events (lt_state t))"
    "set (bt_remove event_id (ls_events (lt_state t))) \<subseteq> set (ls_events (lt_state t))"
    by (auto simp: bt_remove_def)
  then have "length (bt_remove event_id (ls_events (lt_state t))) \<le> max_in_flight_events"
    "\<forall>(k, e) \<in> set (bt_remove event_id (ls_events (lt_state t))). event_ok e"
    using old unfolding state_ok_def by (meson le_trans, blast)
  moreover have "\<forall>s \<in> set (push_completed ?s (ls_completed (lt_state t))). summary_ok s"
    using set_push_completed [of ?s "ls_completed (lt_state t)"] s old unfolding state_ok_def by blast
  moreover have "length (push_completed ?s (ls_completed (lt_state t))) \<le> max_completed_summaries"
    using length_push_completed [of ?s "ls_completed (lt_state t)"] old unfolding state_ok_def by simp
  ultimately have "state_ok ?st" using old unfolding state_ok_def by simp
  then have "state_ok st'"
    using logs_bounded [OF log] by (simp add: state_ok_def)
  then have "latency_ok (t\<lparr>lt_state := st'\<rparr>)" using ok by (simp add: latency_ok_def)
  then show ?thesis
    using Some log send_ok by (simp add: finish_locked_def Let_def)
qed (simp add: finish_locked_def ok)


section \<open>The calls keep the invariant\<close>

lemma try_state_ok [simp]: "latency_ok (fst (try_state c t)) = latency_ok t"
  by (auto simp: try_state_def latency_ok_def split: lock_result.split)

lemma try_state_state [simp]: "lt_state (fst (try_state c t)) = lt_state t"
  by (auto simp: try_state_def split: lock_result.split)

lemma event_of_cong: "lt_state t' = lt_state t \<Longrightarrow> event_of k t' = event_of k t"
  by (simp add: event_of_def)

lemma map_entries_get:
  "bt_get (map (\<lambda>(k, e). (k, f k e)) m) k = map_option (f k) (bt_get m k)"
  by (induction m) (auto simp: bt_get_def)

lemma map_entries_wf: "bt_wf (map (\<lambda>(k, e). (k, f k e)) m) = bt_wf m"
  by (simp add: bt_wf_def comp_def case_prod_unfold)

lemma event_of_map:
  "event_of k (set_state (\<lambda>st. st\<lparr>ls_events := map (\<lambda>(k, e). (k, f k e)) (ls_events st)\<rparr>) t)
    = map_option (f k) (event_of k t)"
  by (simp add: event_of_def set_state_def map_entries_get)

lemma map_events_ok:
  assumes ok: "latency_ok t" and f: "\<And>k e. event_of k t = Some e \<Longrightarrow> event_ok (f k e)"
  shows "latency_ok (set_state (\<lambda>st. st\<lparr>ls_events := map (\<lambda>(k, e). (k, f k e)) (ls_events st)\<rparr>) t)"
  using ok f
  by (auto simp: latency_ok_def state_ok_def set_state_def map_entries_wf event_of_def bt_get_in_set)

lemma event_of_set_event:
  "event_of k (set_event event_id f t) = (if k = event_id then map_option f (event_of k t) else event_of k t)"
  unfolding set_event_def event_of_map by (cases "event_of k t") auto

lemma set_event_ok:
  "latency_ok t \<Longrightarrow> (\<And>e. event_of event_id t = Some e \<Longrightarrow> event_ok (f e)) \<Longrightarrow> latency_ok (set_event event_id f t)"
  unfolding set_event_def by (rule map_events_ok) (auto intro: event_of_ok)

lemma event_of_finish_all:
  "event_of k (foldl (\<lambda>t i. finish_locked i status reason now t) t ids)
     = (if k \<in> set ids then None else event_of k t)"
  by (induction ids arbitrary: t) (auto simp: event_of_finish)

lemma finish_other_ok:
  "latency_ok t \<Longrightarrow> status \<noteq> ''complete'' \<Longrightarrow> latency_ok (finish_locked event_id status reason now t)"
  by (rule finish_ok) simp_all

lemma expire_ok:
  assumes "latency_ok t"
  shows "latency_ok (expire_locked c t)"
proof -
  have "latency_ok (foldl (\<lambda>t i. finish_locked i ''timeout'' ''stage_timeout'' (lc_now c) t) t ids)" for ids
    using assms by (induction ids arbitrary: t) (simp_all add: finish_other_ok)
  then show ?thesis by (simp add: expire_locked_def)
qed

lemma out_of_order_ok: "latency_ok t \<Longrightarrow> latency_ok (out_of_order c event_id t)"
  unfolding out_of_order_def
  by (rule finish_other_ok) (simp_all add: latency_ok_cong [of "t\<lparr>lt_out_of_order := lt_out_of_order t + 1\<rparr>" t])

definition published_ids :: "u64 list \<Rightarrow> latency_telemetry \<Rightarrow> bool" where
  "published_ids ids t \<longleftrightarrow> (\<forall>k \<in> set ids. \<forall>e. event_of k t = Some e \<longrightarrow> lv_published_at e \<noteq> None)"

lemma finish_fanout_ok:
  assumes "latency_ok t" and "published_ids [event_id] t"
  shows "latency_ok (finish_fanout_locked event_id reason now t)"
  using assms by (auto simp: finish_fanout_locked_def published_ids_def word_gt_0 intro!: finish_ok split: if_splits)

lemma event_of_finish_fanout:
  "event_of k (finish_fanout_locked event_id reason now t) = (if k = event_id then None else event_of k t)"
  by (simp add: finish_fanout_locked_def event_of_finish)

text \<open>The order in which a map is walked is some order of its keys.\<close>

definition walks :: "latency_call \<Rightarrow> bool" where
  "walks c \<longleftrightarrow> (\<forall>ids. set (lc_order c ids) = set ids)"

lemma finish_done_ok:
  assumes "latency_ok t" and "published_ids ids t" and "walks c"
  shows "latency_ok (finish_done c reason ids t)"
proof -
  have "latency_ok (foldl (\<lambda>t i. finish_fanout_locked i reason (lc_now c) t) t ks)" if "published_ids ks t" for ks
    using assms(1) that
  proof (induction ks arbitrary: t)
    case (Cons k ks)
    have "published_ids ks (finish_fanout_locked k reason (lc_now c) t)"
      using Cons.prems(2) by (auto simp: published_ids_def event_of_finish_fanout split: if_splits)
    moreover have "latency_ok (finish_fanout_locked k reason (lc_now c) t)"
      using Cons.prems by (intro finish_fanout_ok) (auto simp: published_ids_def)
    ultimately show ?case using Cons.IH by simp
  qed simp
  moreover have "published_ids (lc_order c ids) t"
    using assms(2,3) by (simp add: published_ids_def walks_def)
  ultimately show ?thesis by (simp add: finish_done_def)
qed

lemma event_of_finish_done:
  "walks c \<Longrightarrow> event_of k (finish_done c reason ids t) = (if k \<in> set ids then None else event_of k t)"
proof -
  assume "walks c"
  moreover have "event_of k (foldl (\<lambda>t i. finish_fanout_locked i reason (lc_now c) t) t ks)
      = (if k \<in> set ks then None else event_of k t)" for ks
    by (induction ks arbitrary: t) (auto simp: event_of_finish_fanout)
  ultimately show ?thesis by (simp add: finish_done_def walks_def)
qed

lemma unpublished_empty:
  assumes "event_ok e" and "lv_published_at e = None"
  shows "lv_notify_success e = 0" "lv_notify_failed e = 0" "lv_pending_sessions e = {}"
proof -
  have "unat (lv_notify_success e) + unat (lv_notify_failed e) + unat (lv_notify_skipped e)
      + card (lv_pending_sessions e) = 0"
    using assms by (simp add: event_ok_def event_accounts_def event_stages_def)
  then show "lv_notify_success e = 0" "lv_notify_failed e = 0" "lv_pending_sessions e = {}"
    by (simp_all add: unat_eq_zero)
qed

lemma count_one:
  fixes e :: latency_event
  assumes "event_ok e" and "s \<in> lv_pending_sessions e"
  shows "event_ok (e\<lparr>lv_pending_sessions := lv_pending_sessions e - {s}, lv_notify_skipped := sat_add (lv_notify_skipped e) 1\<rparr>)"
    and "event_ok (count_outcome outcome (e\<lparr>lv_pending_sessions := lv_pending_sessions e - {s}\<rparr>))"
proof -
  have card: "card (lv_pending_sessions e) = Suc (card (lv_pending_sessions e - {s}))"
    using assms(2) by (intro card.remove) simp_all
  have accounts: "event_accounts e" and stages: "event_stages e" using assms(1) by (simp_all add: event_ok_def)
  have "unat (lv_notify_success e) + unat (lv_notify_failed e) + unat (lv_notify_skipped e)
      + card (lv_pending_sessions e) < 2 ^ 64"
    using accounts unsigned_less [of "lv_target_sessions e", where ?'a = nat]
      unsigned_less [of "lv_tracking_gap_sessions e", where ?'a = nat]
    by (simp add: event_accounts_def)
  then have add: "unat (sat_add (lv_notify_success e) 1) = Suc (unat (lv_notify_success e))"
    "unat (sat_add (lv_notify_failed e) 1) = Suc (unat (lv_notify_failed e))"
    "unat (sat_add (lv_notify_skipped e) 1) = Suc (unat (lv_notify_skipped e))"
    unfolding card by (subst sat_add_exact; simp)+
  show "event_ok (e\<lparr>lv_pending_sessions := lv_pending_sessions e - {s}, lv_notify_skipped := sat_add (lv_notify_skipped e) 1\<rparr>)"
    using accounts stages add card
    by (simp add: event_ok_def event_accounts_def event_stages_def split: option.splits)
  show "event_ok (count_outcome outcome (e\<lparr>lv_pending_sessions := lv_pending_sessions e - {s}\<rparr>))"
    using accounts stages add card
    by (cases outcome)
      (simp_all add: event_ok_def event_accounts_def event_stages_def count_outcome_def split: option.splits)
qed

lemma event_of_drop_pending:
  "event_of k (drop_pending P s t) = map_option (\<lambda>e. if P k \<and> s \<in> lv_pending_sessions e
     then e\<lparr>lv_pending_sessions := lv_pending_sessions e - {s},
            lv_notify_skipped := sat_add (lv_notify_skipped e) 1\<rparr> else e) (event_of k t)"
  unfolding drop_pending_def by (rule event_of_map)

lemma drop_pending_ok: "latency_ok t \<Longrightarrow> latency_ok (drop_pending P s t)"
  unfolding drop_pending_def
  by (rule map_events_ok) (auto intro: event_of_ok count_one(1))

lemma drop_done_published:
  assumes "latency_ok t"
  shows "published_ids (drop_done P s t) (drop_pending P s t)"
proof -
  have wf: "bt_wf (ls_events (lt_state t))" using assms by (simp add: latency_ok_def state_ok_def)
  show ?thesis
    unfolding published_ids_def drop_done_def event_of_drop_pending
    by (auto simp: event_of_def bt_get_in_set [OF wf, symmetric] split: if_splits)
qed

lemma record_fanout_ok:
  assumes ok: "latency_ok t" and c: "walks c"
  shows "latency_ok (record_fanout c s key outcome t)"
proof -
  let ?t1 = "expire_locked c (fst (try_state c t))"
  have ok1: "latency_ok ?t1" using ok by (simp add: expire_ok)
  have "latency_ok (let other = (\<lambda>k. k \<noteq> i);
                  t = finish_done c ''superseded'' (drop_done other s ?t1) (drop_pending other s ?t1)
              in case event_of i t of
                   None \<Rightarrow> t
                 | Some e \<Rightarrow>
                     if s \<notin> lv_pending_sessions e then t
                     else let e' = count_outcome outcome
                              (e\<lparr>lv_pending_sessions := lv_pending_sessions e - {s}\<rparr>);
                          t = set_event i (\<lambda>_. e') t
                       in if lv_pending_sessions e' = {}
                          then finish_fanout_locked i (fanout_reason e') (lc_now c) t else t)" for i
  proof -
    define t2 where "t2 = finish_done c ''superseded'' (drop_done (\<lambda>k. k \<noteq> i) s ?t1) (drop_pending (\<lambda>k. k \<noteq> i) s ?t1)"
    have ok2: "latency_ok t2"
      unfolding t2_def by (rule finish_done_ok [OF drop_pending_ok [OF ok1] drop_done_published [OF ok1] c])
    have "latency_ok (set_event i (\<lambda>_. e') t2)" "published_ids [i] (set_event i (\<lambda>_. e') t2)"
      if e: "event_of i t2 = Some e" "s \<in> lv_pending_sessions e"
        and e': "e' = count_outcome outcome (e\<lparr>lv_pending_sessions := lv_pending_sessions e - {s}\<rparr>)" for e e'
    proof -
      note eok = event_of_ok [OF ok2 e(1)]
      show "latency_ok (set_event i (\<lambda>_. e') t2)"
        using count_one(2) [OF eok e(2)] by (intro set_event_ok [OF ok2]) (simp add: e')
      have "lv_published_at e \<noteq> None" using unpublished_empty(3) [OF eok] e(2) by auto
      then have "lv_published_at e' \<noteq> None" by (cases outcome) (simp_all add: e' count_outcome_def)
      then show "published_ids [i] (set_event i (\<lambda>_. e') t2)"
        by (auto simp: published_ids_def event_of_set_event)
    qed
    then show ?thesis
      using ok2 by (auto simp: Let_def t2_def [symmetric] intro!: finish_fanout_ok split: option.split)
  qed
  then show ?thesis
    using ok ok1 by (auto simp: record_fanout_def case_prod_unfold Let_def split: option.split)
qed


lemma mark_a_ready_ok:
  assumes "latency_ok t"
  shows "latency_ok (mark_a_ready c event_id t)"
proof -
  let ?t1 = "expire_locked c (fst (try_state c t))"
  have ok1: "latency_ok ?t1" using assms by (simp add: expire_ok)
  have "event_ok (if lv_a_ready_at e = None then e\<lparr>lv_a_ready_at := Some (lc_now c)\<rparr> else e)"
    if e: "event_of event_id ?t1 = Some e" and order: "lv_published_at e = None" "lv_observed_at e \<le> lc_now c" for e
    using event_of_ok [OF ok1 e] order
    by (simp add: event_ok_def event_accounts_def event_stages_def split: option.splits)
  then have "latency_ok (set_event event_id (\<lambda>e. if lv_a_ready_at e = None
        then e\<lparr>lv_a_ready_at := Some (lc_now c)\<rparr> else e) ?t1)"
    if "\<not> (case event_of event_id ?t1 of
          Some e \<Rightarrow> lv_published_at e \<noteq> None \<or> checked_since (lc_now c) (lv_observed_at e) = None | None \<Rightarrow> False)"
    using that by (intro set_event_ok [OF ok1]) (auto simp: checked_since_def split: if_splits)
  then show ?thesis
    using assms ok1 out_of_order_ok [OF ok1]
    by (auto simp: mark_a_ready_def case_prod_unfold Let_def)
qed

lemma publish_gap_ok:
  assumes ok: "latency_ok t" and e: "event_of event_id t = Some e"
    and order: "lv_published_at e = None" "lv_a_ready_at e = Some r" "r \<le> lc_now c"
  shows "latency_ok (publish_gap c event_id key t)"
proof -
  let ?f = "\<lambda>e. e\<lparr>lv_published_at := Some (lc_now c),
      lv_replacement_key := Some key, lv_target_sessions := lt_active_session_total t,
      lv_notify_skipped := lt_active_session_total t, lv_tracking_gap_sessions := lt_active_session_total t,
      lv_stale_roster_sessions := max (lt_stale_tracked_sessions t)
        (sat_sub (word_of_nat (card (ls_active_sessions (lt_state t)))) (lt_active_session_total t))\<rparr>"
  have "event_ok (?f e)"
    using event_of_ok [OF ok e] order unpublished_empty [OF event_of_ok [OF ok e] order(1)]
    by (simp add: event_ok_def event_accounts_def event_stages_def)
  then have "latency_ok (set_event event_id ?f t)" by (intro set_event_ok [OF ok]) (simp add: e)
  then show ?thesis
    unfolding publish_gap_def Let_def by (simp add: e finish_other_ok)
qed

lemma publish_fanout_ok:
  assumes ok: "latency_ok t" and e: "event_of event_id t = Some e"
    and order: "lv_published_at e = None" "lv_a_ready_at e = Some r" "r \<le> lc_now c"
    and roster: "word_of_nat (card (ls_active_sessions (lt_state t)))
      = sat_sub (lt_active_session_total t) (lt_untracked_active_sessions t)"
  shows "latency_ok (publish_fanout c event_id key t)"
proof -
  have small: "card (ls_active_sessions (lt_state t)) < 2 ^ 64"
    using ok by (auto simp: latency_ok_def state_ok_def max_tracked_sessions_def)
  have "card (ls_active_sessions (lt_state t))
      = unat (lt_active_session_total t) - unat (lt_untracked_active_sessions t)"
    using arg_cong [OF roster, of unat] small
    by (simp add: unat_sat_sub unat_of_nat take_bit_nat_eq_self)
  then have card: "unat (lt_untracked_active_sessions t) + card (ls_active_sessions (lt_state t))
      = max (unat (lt_active_session_total t)) (unat (lt_untracked_active_sessions t))" by simp
  let ?f = "\<lambda>e. e\<lparr>lv_published_at := Some (lc_now c), lv_replacement_key := Some key,
     lv_target_sessions := lt_active_session_total t, lv_pending_sessions := ls_active_sessions (lt_state t),
     lv_notify_skipped := lt_untracked_active_sessions t, lv_tracking_gap_sessions := lt_untracked_active_sessions t\<rparr>"
  define t1 where "t1 = set_state (\<lambda>st. st\<lparr>ls_published_jobs := (ls_published_jobs st)(key \<mapsto> event_id)\<rparr>) (set_event event_id ?f t)"
  have "latency_ok (set_event event_id ?f t)"
    using event_of_ok [OF ok e] order unpublished_empty [OF event_of_ok [OF ok e] order(1)] card
    by (intro set_event_ok [OF ok]) (simp add: e event_ok_def event_accounts_def event_stages_def)
  then have ok1: "latency_ok t1" by (simp add: t1_def latency_ok_def state_ok_def set_state_def)
  have e1: "event_of event_id t1 = Some (?f e)"
    using e event_of_set_event [of event_id event_id ?f t] by (simp add: t1_def event_of_def set_state_def)
  have "latency_ok (finish_locked event_id ''complete'' ''zero_sessions'' (lc_now c) t1)"
    if "lt_active_session_total t = 0"
    using that by (intro finish_ok [OF ok1]) (auto simp: e1)
  then show ?thesis
    using ok ok1 finish_other_ok [OF ok1]
    unfolding publish_fanout_def Let_def t1_def [symmetric] by simp
qed

lemma mark_published_ok:
  assumes "latency_ok t"
  shows "latency_ok (mark_published c event_id key t)"
proof -
  let ?t1 = "expire_locked c (fst (try_state c t))"
  have ok1: "latency_ok ?t1" using assms by (simp add: expire_ok)
  have oversize: "latency_ok (finish_locked event_id ''failed'' ''replacement_key_oversize'' (lc_now c)
      (?t1\<lparr>lt_dropped_events := lt_dropped_events ?t1 + 1\<rparr>))"
    using ok1 by (intro finish_other_ok) (simp_all add: latency_ok_def)
  have gone: "publish_gap c event_id key ?t1 = ?t1" "publish_fanout c event_id key ?t1 = ?t1"
    if "event_of event_id ?t1 = None"
    using that by (simp_all add: publish_gap_def publish_fanout_def Let_def)
  have gap: "latency_ok (publish_gap c event_id key ?t1)"
    and fanout: "word_of_nat (card (ls_active_sessions (lt_state ?t1)))
      = sat_sub (lt_active_session_total ?t1) (lt_untracked_active_sessions ?t1)
      \<longrightarrow> latency_ok (publish_fanout c event_id key ?t1)"
    if order: "\<not> (case event_of event_id ?t1 of
          Some e \<Rightarrow> lv_a_ready_at e = None \<or> lv_published_at e \<noteq> None
            \<or> Option.bind (lv_a_ready_at e) (checked_since (lc_now c)) = None | None \<Rightarrow> False)"
  proof -
    have "latency_ok (publish_gap c event_id key ?t1) \<and> (word_of_nat (card (ls_active_sessions (lt_state ?t1)))
      = sat_sub (lt_active_session_total ?t1) (lt_untracked_active_sessions ?t1)
      \<longrightarrow> latency_ok (publish_fanout c event_id key ?t1))"
    proof (cases "event_of event_id ?t1")
      case (Some e)
      then obtain r where "lv_published_at e = None" "lv_a_ready_at e = Some r" "r \<le> lc_now c"
        using order by (auto simp: checked_since_def split: if_splits)
      then show ?thesis
        using publish_gap_ok [OF ok1 Some] publish_fanout_ok [OF ok1 Some] by blast
    qed (use gone ok1 in simp)
    then show "latency_ok (publish_gap c event_id key ?t1)"
      "word_of_nat (card (ls_active_sessions (lt_state ?t1)))
      = sat_sub (lt_active_session_total ?t1) (lt_untracked_active_sessions ?t1)
      \<longrightarrow> latency_ok (publish_fanout c event_id key ?t1)" by blast+
  qed
  show ?thesis
    using assms oversize gap fanout out_of_order_ok [OF ok1]
    unfolding mark_published_def case_prod_unfold Let_def by simp
qed

definition fresh_event :: "latency_call \<Rightarrow> string \<Rightarrow> upstream_class \<Rightarrow> u64 \<Rightarrow> latency_event" where
  "fresh_event c dedupe_key source event_id =
     \<lparr>lv_id = event_id, lv_source = source, lv_dedupe_key = dedupe_key,
      lv_replacement_key = None, lv_observed_at = lc_now c, lv_a_ready_at = None,
      lv_published_at = None, lv_target_sessions = 0, lv_pending_sessions = {},
      lv_notify_success = 0, lv_notify_failed = 0, lv_notify_skipped = 0,
      lv_tracking_gap_sessions = 0, lv_stale_roster_sessions = 0\<rparr>"

lemma fresh_event_ok: "event_ok (fresh_event c key source i)"
  by (simp add: fresh_event_def event_ok_def event_accounts_def event_stages_def)

lemma bt_insert_size:
  "length (bt_insert k v m) \<le> Suc (length m)" "set (bt_insert k v m) \<subseteq> insert (k, v) (set m)"
  by (induction k v m rule: bt_insert.induct) auto

lemma insert_event_ok:
  assumes ok: "latency_ok t" and e: "event_ok e" and room: "length (ls_events (lt_state t)) < max_in_flight_events"
  shows "latency_ok (set_state (\<lambda>st. st\<lparr>ls_dedupe := f st, ls_events := bt_insert i e (ls_events st)\<rparr>)
    (t\<lparr>lt_next_id := n\<rparr>))"
proof -
  let ?es = "bt_insert i e (ls_events (lt_state t))"
  have "length ?es \<le> max_in_flight_events" using bt_insert_size(1) [of i e "ls_events (lt_state t)"] room by simp
  moreover have "\<forall>(k, e) \<in> set ?es. event_ok e"
    using bt_insert_size(2) [of i e "ls_events (lt_state t)"] e ok unfolding latency_ok_def state_ok_def by blast
  ultimately show ?thesis using ok by (simp add: latency_ok_def state_ok_def set_state_def)
qed

lemma dropped_events_ok [simp]: "latency_ok (t\<lparr>lt_dropped_events := n\<rparr>) = latency_ok t"
  by (simp add: latency_ok_def)

lemma observe_upstream_ok:
  assumes "latency_ok t"
  shows "latency_ok (fst (observe_upstream c key source t))"
proof -
  define t1 where "t1 = expire_locked c (fst (try_state c t))"
  define t2 where "t2 = set_state (\<lambda>st. st\<lparr>ls_dedupe := (ls_dedupe st)(key := None)\<rparr>) t1"
  have ok1: "latency_ok t1" using assms by (simp add: t1_def expire_ok)
  then have ok2: "latency_ok t2" by (simp add: t2_def latency_ok_def state_ok_def set_state_def)
  have "latency_ok (set_state (\<lambda>st. st\<lparr>ls_dedupe := (ls_dedupe st)(key \<mapsto> lt_next_id t2),
        ls_events := bt_insert (lt_next_id t2) (fresh_event c key source (lt_next_id t2)) (ls_events st)\<rparr>)
        (t2\<lparr>lt_next_id := lt_next_id t2 + 1\<rparr>))"
    if "\<not> max_in_flight_events \<le> length (ls_events (lt_state t2))"
    using that by (intro insert_event_ok [OF ok2 fresh_event_ok]) simp
  then show ?thesis
    using assms ok1 ok2
    unfolding observe_upstream_def case_prod_unfold Let_def t1_def [symmetric] t2_def [symmetric]
      fresh_event_def [symmetric]
    by (simp split: option.split)
qed

lemma fail_event_ok: "latency_ok t \<Longrightarrow> latency_ok (fail_event c event_id reason t)"
  by (auto simp: fail_event_def case_prod_unfold Let_def intro: finish_other_ok)

lemma latency_expire_ok: "latency_ok t \<Longrightarrow> latency_ok (latency_expire c t)"
  by (simp add: latency_expire_def case_prod_unfold Let_def expire_ok)

lemma activate_track_ok: "latency_ok t \<Longrightarrow> latency_ok (fst (activate_track c s t))"
  by (auto simp: activate_track_def case_prod_unfold Let_def count_untracked_session_def set_state_def
      latency_ok_def state_ok_def try_state_def card_insert_if split: lock_result.split)

lemma deactivate_tracked_ok:
  assumes ok: "latency_ok t" and c: "walks c"
  shows "latency_ok (deactivate_tracked c s t)"
proof -
  let ?t1 = "set_state (\<lambda>st. st\<lparr>ls_active_sessions := ls_active_sessions st - {s}\<rparr>) (fst (try_state c t))"
  let ?t2 = "if s \<in> ls_active_sessions (lt_state t) then ?t1
               else ?t1\<lparr>lt_roster_cleanup_failures := lt_roster_cleanup_failures ?t1 + 1\<rparr>"
  have "card (ls_active_sessions (lt_state t) - {s}) \<le> card (ls_active_sessions (lt_state t))"
    by (rule card_Diff1_le)
  then have "latency_ok ?t1" using ok by (simp add: latency_ok_def state_ok_def set_state_def try_state_def split: lock_result.split)
  then have ok2: "latency_ok ?t2" by (simp add: latency_ok_def)
  have failed: "latency_ok (t'\<lparr>lt_roster_cleanup_failures := x, lt_stale_tracked_sessions := y\<rparr>) = latency_ok t'" for t' x y
    by (simp add: latency_ok_def)
  show ?thesis
    using ok finish_done_ok [OF drop_pending_ok [OF ok2] drop_done_published [OF ok2] c]
    unfolding deactivate_tracked_def case_prod_unfold Let_def by (simp add: failed)
qed

lemma counters_ok:
  "latency_ok (activate_count t) = latency_ok t" "latency_ok (deactivate_count t) = latency_ok t"
  "latency_ok (deactivate_untracked t) = latency_ok t" "latency_ok t \<Longrightarrow> latency_ok (log_drain t)"
  by (auto simp: latency_ok_def activate_count_def deactivate_count_def deactivate_untracked_def
      log_drain_def split: option.splits)


section \<open>Interleavings\<close>

text \<open>One step of any thread: a call under the lock, or an atomic change outside it.\<close>

inductive latency_step :: "latency_telemetry \<Rightarrow> latency_telemetry \<Rightarrow> bool" where
  "walks c \<Longrightarrow> latency_step t (fst (observe_upstream c key source t))"
| "walks c \<Longrightarrow> latency_step t (mark_a_ready c event_id t)"
| "walks c \<Longrightarrow> latency_step t (mark_published c event_id key t)"
| "latency_step t (fail_event c event_id reason t)"
| "walks c \<Longrightarrow> latency_step t (latency_expire c t)"
| "walks c \<Longrightarrow> latency_step t (record_fanout c s key outcome t)"
| "lt_enabled t \<Longrightarrow> latency_step t (activate_count t)"
| "lt_enabled t \<Longrightarrow> latency_step t (fst (activate_track c s t))"
| "lt_enabled t \<Longrightarrow> latency_step t (deactivate_count t)"
| "lt_enabled t \<Longrightarrow> latency_step t (deactivate_untracked t)"
| "lt_enabled t \<Longrightarrow> walks c \<Longrightarrow> latency_step t (deactivate_tracked c s t)"
| "latency_step t (log_drain t)"

inductive latency_reachable :: "latency_telemetry \<Rightarrow> bool" where
  "latency_reachable (latency_new enabled run_id now sender)"
| "latency_reachable t \<Longrightarrow> latency_step t t' \<Longrightarrow> latency_reachable t'"

inductive_cases latency_stepE: "latency_step t t'"

lemmas latency_calls_ok =
  observe_upstream_ok mark_a_ready_ok mark_published_ok fail_event_ok latency_expire_ok record_fanout_ok
  activate_track_ok deactivate_tracked_ok counters_ok

lemma latency_step_ok: "latency_step t t' \<Longrightarrow> latency_ok t \<Longrightarrow> latency_ok t'"
  by (erule latency_stepE) (simp_all add: latency_calls_ok)

lemma latency_reachable_ok: "latency_reachable t \<Longrightarrow> latency_ok t"
  by (induction rule: latency_reachable.induct) (auto intro: latency_new_ok latency_step_ok)

lemma session_steps:
  "lt_enabled t \<Longrightarrow> latency_reachable t \<Longrightarrow> latency_reachable (activate_count t)"
  by (auto intro: latency_reachable.intros latency_step.intros)

text \<open>An example: a replacement that is observed.\<close>

definition example_call :: "instant \<Rightarrow> latency_call" where
  "example_call now = \<lparr>lc_now = now, lc_lock = LockFree, lc_order = (\<lambda>ids. ids)\<rparr>"

definition example_observed :: latency_telemetry where
  "example_observed = fst (observe_upstream (example_call 2) ''k'' PrimaryAlreadyReady (latency_new True 7 0 True))"

lemma example_walks: "walks (example_call n)"
  by (simp add: walks_def example_call_def)

lemma example_observed_reachable: "latency_reachable example_observed"
  unfolding example_observed_def
  by (rule latency_reachable.intros(2) [OF latency_reachable.intros(1) latency_step.intros(1) [OF example_walks]])

lemma example_observed_event:
  "event_of 1 example_observed = Some (fresh_event (example_call 2) ''k'' PrimaryAlreadyReady 1)"
  "lt_enabled example_observed"
  by (simp_all add: example_observed_def observe_upstream_def latency_new_def example_call_def try_state_def
      expire_locked_def max_correlation_key_bytes_def max_in_flight_events_def set_state_def event_of_def
      bt_get_def fresh_event_def Let_def)

section \<open>Properties of the telemetry\<close>

text \<open>
  Under any interleaving the telemetry stays within its bounds: at most 16 replacements are
  followed, 1024 sessions tracked, 16 summaries kept, 120 summaries logged per window and 16 of them
  queued for the logger.
\<close>
theorem latency_bounded:
  assumes "latency_reachable t"
  shows "length (ls_events (lt_state t)) \<le> 16 \<and> card (ls_active_sessions (lt_state t)) \<le> 1024
    \<and> length (ls_completed (lt_state t)) \<le> 16 \<and> ls_logs_in_window (lt_state t) \<le> 120
    \<and> (\<forall>queue. lt_log_sender t = Some queue \<longrightarrow> length queue \<le> 16)"
  using latency_reachable_ok [OF assms]
  by (auto simp: latency_ok_def state_ok_def max_in_flight_events_def max_tracked_sessions_def
      max_completed_summaries_def max_logs_per_minute_def max_log_queue_def)

theorem latency_bounded_witness: "length (ls_events (lt_state example_observed)) \<le> 16"
  using latency_bounded [OF example_observed_reachable] by blast

text \<open>
  C19. Every summary accounts for its sessions: those notified, failed and skipped add up to the
  larger of the sessions that were targeted and the sessions that could not be tracked, so to
  the targeted ones unless the tracking gap is larger; and a summary is complete only when the
  replacement was made ready and published, in this order. That the gap can be larger, in a summary
  that is complete, shows \<open>gap_above_target\<close>.
\<close>
theorem latency_accounts:
  assumes "latency_reachable t" and "s \<in> set (ls_completed (lt_state t))"
  shows "unat (sm_notify_success s) + unat (sm_notify_failed s) + unat (sm_notify_skipped s)
      = max (unat (sm_target_sessions s)) (unat (sm_tracking_gap_sessions s))
    \<and> (sm_tracking_gap_sessions s \<le> sm_target_sessions s \<longrightarrow>
        unat (sm_notify_success s) + unat (sm_notify_failed s) + unat (sm_notify_skipped s) = unat (sm_target_sessions s))
    \<and> (sm_status s = ''complete'' \<longrightarrow> sm_observed_to_a_ready_ms s \<noteq> None
        \<and> sm_a_ready_to_published_ms s \<noteq> None
        \<and> (sm_target_sessions s = 0 \<or> sm_tracking_gap_sessions s = 0))"
proof -
  have "summary_ok s" using latency_reachable_ok [OF assms(1)] assms(2) unfolding latency_ok_def state_ok_def by blast
  then show ?thesis by (simp add: summary_ok_def word_le_nat_alt max_absorb1)
qed

text \<open>Two sessions are tracked, a replacement is observed, ready and published; one is notified, the other fails.\<close>

definition example_tracked :: latency_telemetry where
  "example_tracked = fst (activate_track (example_call 1) 6 (activate_count
     (fst (activate_track (example_call 1) 5 (activate_count (latency_new True 7 0 True))))))"

definition example_published :: latency_telemetry where
  "example_published = mark_published (example_call 4) 1 ''r'' (mark_a_ready (example_call 3) 1
     (fst (observe_upstream (example_call 2) ''k'' PrimaryAlreadyReady example_tracked)))"

definition example_notified :: latency_telemetry where
  "example_notified = record_fanout (example_call 6) 6 ''r'' FanoutFailed
     (record_fanout (example_call 5) 5 ''r'' FanoutSuccess example_published)"

lemmas example_run_defs =
  observe_upstream_def mark_a_ready_def mark_published_def publish_fanout_def record_fanout_def activate_track_def
  activate_count_def deactivate_count_def count_untracked_session_def latency_new_def example_call_def try_state_def
  expire_locked_def max_correlation_key_bytes_def max_in_flight_events_def max_tracked_sessions_def set_state_def
  set_event_def event_of_def bt_get_def Let_def finish_done_def drop_done_def drop_pending_def event_expired_def
  checked_since_def event_timeout_def secs_def sat_sub_def

lemmas example_finish_defs =
  finish_fanout_locked_def finish_locked_def logs_bounded(3) [OF prod.collapse [symmetric]] case_prod_unfold
  push_completed_def latency_summary_of_def max_completed_summaries_def sat_add_def count_outcome_def

lemmas latency_example_steps = latency_step.intros(1-3,6-9) [THEN latency_reachable.intros(2) [rotated]]

lemma example_tracked_sessions:
  "example_tracked = (latency_new True 7 0 True)\<lparr>lt_active_session_total := 2,
     lt_state := (lt_state (latency_new True 7 0 True))\<lparr>ls_active_sessions := {5, 6}\<rparr>\<rparr>"
  by (auto simp: example_tracked_def example_run_defs)

definition example_event :: latency_event where
  "example_event = \<lparr>lv_id = 1, lv_source = PrimaryAlreadyReady, lv_dedupe_key = ''k'', lv_replacement_key = Some ''r'',
     lv_observed_at = 2, lv_a_ready_at = Some 3, lv_published_at = Some 4, lv_target_sessions = 2,
     lv_pending_sessions = {5, 6}, lv_notify_success = 0, lv_notify_failed = 0, lv_notify_skipped = 0,
     lv_tracking_gap_sessions = 0, lv_stale_roster_sessions = 0\<rparr>"

lemma example_published_event:
  "example_published = (latency_new True 7 0 True)\<lparr>lt_next_id := 2, lt_active_session_total := 2,
     lt_state := (lt_state (latency_new True 7 0 True))\<lparr>ls_active_sessions := {5, 6}, ls_events := [(1, example_event)],
       ls_dedupe := [''k'' \<mapsto> 1], ls_published_jobs := [''r'' \<mapsto> 1]\<rparr>\<rparr>"
  unfolding example_published_def example_tracked_sessions by (simp add: example_run_defs example_event_def)

lemma example_notified_reachable: "latency_reachable example_notified"
  unfolding example_notified_def example_published_def example_tracked_def
  by (intro latency_example_steps latency_reachable.intros(1) example_walks) (simp_all add: example_run_defs)

lemma example_notified_counts:
  "map (\<lambda>s. (sm_status s, sm_target_sessions s, sm_notify_success s, sm_notify_failed s)) (ls_completed (lt_state example_notified))
     = [(''complete'', 2, 1, 1)]"
  unfolding example_notified_def example_published_event
  by (simp add: example_run_defs example_event_def example_finish_defs)

theorem latency_accounts_witness:
  "\<exists>s \<in> set (ls_completed (lt_state example_notified)). sm_target_sessions s = 2 \<and> sm_notify_success s = 1
    \<and> sm_notify_failed s = 1 \<and> sm_notify_skipped s = 0 \<and> sm_tracking_gap_sessions s = 0"
proof -
  obtain s where s: "s \<in> set (ls_completed (lt_state example_notified))" "sm_status s = ''complete''"
    "sm_target_sessions s = 2" "sm_notify_success s = 1" "sm_notify_failed s = 1"
    using example_notified_counts by (auto simp: map_eq_Cons_conv)
  then show ?thesis
    using latency_accounts [OF example_notified_reachable s(1)] by (intro bexI [OF _ s(1)]) (auto simp: unat_eq_zero)
qed

text \<open>
  A session that could not be tracked leaves: it is taken out of the total first and of the untracked
  ones afterwards, and a replacement that is published in between is complete with no targeted
  session and one that was skipped.
\<close>

definition example_leaving :: latency_telemetry where
  "example_leaving = deactivate_count (mark_a_ready (example_call 3) 1
     (fst (observe_upstream (example_call 2) ''k'' PrimaryAlreadyReady
       (fst (activate_track ((example_call 1)\<lparr>lc_lock := LockWouldBlock\<rparr>) 5 (activate_count (latency_new True 7 0 True)))))))"

lemma gap_above_target:
  "latency_reachable (mark_published (example_call 4) 1 ''r'' example_leaving)
    \<and> map (\<lambda>s. (sm_status s, sm_target_sessions s, sm_notify_skipped s))
        (ls_completed (lt_state (mark_published (example_call 4) 1 ''r'' example_leaving))) = [(''complete'', 0, 1)]"
proof
  show "latency_reachable (mark_published (example_call 4) 1 ''r'' example_leaving)"
    unfolding example_leaving_def
    by (intro latency_example_steps latency_reachable.intros(1) example_walks) (simp_all add: example_run_defs)
  show "map (\<lambda>s. (sm_status s, sm_target_sessions s, sm_notify_skipped s))
      (ls_completed (lt_state (mark_published (example_call 4) 1 ''r'' example_leaving))) = [(''complete'', 0, 1)]"
    unfolding example_leaving_def by (simp add: example_run_defs example_finish_defs)
qed

text \<open>
  No replacement is followed for ever: a call that gets the lock removes exactly the
  replacements that were observed 30 seconds ago or earlier.
\<close>
theorem latency_times_out:
  assumes "latency_reachable t" and "lt_enabled t" and "lc_lock c = LockFree" and "walks c"
  shows "event_of k (latency_expire c t) = (case event_of k t of
     Some e \<Rightarrow> if lv_observed_at e + 30 * 10 ^ 9 \<le> lc_now c then None else Some e | None \<Rightarrow> None)"
proof -
  let ?ids = "map fst (filter (\<lambda>(k, e). event_expired (lc_now c) e) (ls_events (lt_state t)))"
  have wf: "bt_wf (ls_events (lt_state t))"
    using latency_reachable_ok [OF assms(1)] by (simp add: latency_ok_def state_ok_def)
  have "latency_expire c t = expire_locked c t"
    using assms(2,3) by (simp add: latency_expire_def try_state_def)
  then have "event_of k (latency_expire c t) = (if k \<in> set ?ids then None else event_of k t)"
    using assms(4) by (simp add: expire_locked_def event_of_finish_all walks_def)
  moreover have "k \<in> set ?ids \<longleftrightarrow> (\<exists>e. event_of k t = Some e \<and> event_expired (lc_now c) e)"
    by (force simp: event_of_def bt_get_in_set [OF wf])
  moreover have "event_expired now e \<longleftrightarrow> lv_observed_at e + 30 * 10 ^ 9 \<le> now" for now e
    by (auto simp: event_expired_def checked_since_def event_timeout_def secs_def)
  ultimately show ?thesis by (auto split: option.split)
qed

theorem latency_times_out_witness:
  "event_of 1 (latency_expire (example_call (30 * 10 ^ 9 + 2)) example_observed) = None
   \<and> event_of 1 (latency_expire (example_call (30 * 10 ^ 9 + 1)) example_observed) \<noteq> None"
proof -
  have free: "lc_lock (example_call n) = LockFree" "lc_now (example_call n) = n" for n
    by (simp_all add: example_call_def)
  show ?thesis
    using latency_times_out [OF example_observed_reachable example_observed_event(2) free(1) example_walks, where k = 1]
    by (simp add: example_observed_event(1) free(2) fresh_event_def)
qed

text \<open>
  The telemetry fails open: a call that finds the lock taken or poisoned returns at once, leaves
  the tables as they are, and at most counts what it could not record.
\<close>
theorem latency_fails_open:
  assumes "lc_lock c \<noteq> LockFree"
  shows "lt_state (fst (observe_upstream c key source t)) = lt_state t
    \<and> lt_state (mark_a_ready c event_id t) = lt_state t
    \<and> lt_state (mark_published c event_id key t) = lt_state t
    \<and> lt_state (fail_event c event_id reason t) = lt_state t
    \<and> lt_state (record_fanout c s key outcome t) = lt_state t
    \<and> lt_state (fst (activate_session c s t)) = lt_state t
    \<and> lt_state (deactivate_session c s counted tracked t) = lt_state t"
  using assms
  by (auto simp: observe_upstream_def mark_a_ready_def mark_published_def fail_event_def record_fanout_def
      activate_session_def activate_track_def activate_count_def count_untracked_session_def
      deactivate_session_def deactivate_count_def deactivate_untracked_def deactivate_tracked_def
      try_state_def Let_def split: lock_result.split)

theorem latency_fails_open_witness:
  "lt_state (fail_event \<lparr>lc_now = 0, lc_lock = LockPoisoned, lc_order = (\<lambda>ids. ids)\<rparr> 1 ''x'' example_observed)
    = lt_state example_observed"
  using latency_fails_open [where c = "\<lparr>lc_now = 0, lc_lock = LockPoisoned, lc_order = (\<lambda>ids. ids)\<rparr>"] by simp

end
