(* ===== verification/Csd_Search.thy ===== *)
theory Csd_Search
  imports Csd_Submit
begin

text \<open>
  Crate \<open>csd-pool-workers\<close>: \<open>search_candidate_nonce\<close>, which divides a range of nonces among threads
  that stop as soon as one of them has found a block, and the request of the canary that submits it.
  The threads are interleaved at their atomic operations by an arbitrary schedule. The lemmas show
  that every schedule ends, that what is found is a block, and that nothing is found only when the
  range has none.
\<close>

section \<open>The range of a thread\<close>

definition sat64 :: "nat \<Rightarrow> nat" where
  "sat64 n = min n (2 ^ 64 - 1)"

definition search_end :: "u32 \<Rightarrow> u64 \<Rightarrow> nat" where
  "search_end start_nonce max_attempts = min (sat64 (unat start_nonce + unat max_attempts)) (2 ^ 32)"

text \<open>\<open>div_ceil\<close> panics on zero threads, which its caller rules out.\<close>

definition search_chunk :: "u32 \<Rightarrow> u64 \<Rightarrow> nat \<Rightarrow> nat" where
  "search_chunk start_nonce max_attempts threads =
     (let width = search_end start_nonce max_attempts - unat start_nonce
      in (width + threads - 1) div threads)"

definition search_range :: "u32 \<Rightarrow> u64 \<Rightarrow> nat \<Rightarrow> nat \<Rightarrow> nat \<times> nat" where
  "search_range start_nonce max_attempts threads thread_index =
     (let chunk = search_chunk start_nonce max_attempts threads;
          from_nonce = sat64 (unat start_nonce + sat64 (chunk * thread_index))
      in (from_nonce, min (sat64 (from_nonce + chunk)) (search_end start_nonce max_attempts)))"

definition search_ranges :: "u32 \<Rightarrow> u64 \<Rightarrow> nat \<Rightarrow> (nat \<times> nat) list" where
  "search_ranges start_nonce max_attempts threads =
     filter (\<lambda>(a, b). a < b) (map (search_range start_nonce max_attempts threads) [0..<threads])"

section \<open>A thread\<close>

text \<open>Where a thread is in its loop: its next atomic operation.\<close>

datatype search_pc = LoadStop | HashNonce | SwapStop hash32 | StoreResult hash32 | SearchDone

record search_worker =
  sw_from :: nat
  sw_next :: nat
  sw_to :: nat
  sw_pc :: search_pc

record search_shared =
  sh_stop :: bool
  sh_attempts :: u64
  sh_result :: "(u32 \<times> hash32) option"

definition candidate_header :: "bytes \<Rightarrow> nat \<Rightarrow> bytes" where
  "candidate_header header nonce =
     take 80 header @ le_bytes 4 (word_of_nat nonce :: u32) @ drop 84 header"

definition candidate_hash :: "(bytes \<Rightarrow> bytes) \<Rightarrow> bytes \<Rightarrow> nat \<Rightarrow> hash32" where
  "candidate_hash sha256 header nonce = header_hash sha256 (candidate_header header nonce)"

definition worker_step ::
  "(bytes \<Rightarrow> bytes) \<Rightarrow> bytes \<Rightarrow> hash32 \<Rightarrow> search_worker \<Rightarrow> search_shared \<Rightarrow> search_worker \<times> search_shared" where
  "worker_step sha256 header target w sh =
     (case sw_pc w of
        LoadStop \<Rightarrow>
          (w\<lparr>sw_pc := if sw_next w < sw_to w \<and> \<not> sh_stop sh then HashNonce else SearchDone\<rparr>, sh)
      | HashNonce \<Rightarrow>
          let hash = candidate_hash sha256 header (sw_next w);
              sh = sh\<lparr>sh_attempts := sh_attempts sh + 1\<rparr>
          in if hash_leq_target hash target then (w\<lparr>sw_pc := SwapStop hash\<rparr>, sh)
             else (w\<lparr>sw_next := sw_next w + 1, sw_pc := LoadStop\<rparr>, sh)
      | SwapStop hash \<Rightarrow>
          (w\<lparr>sw_pc := if sh_stop sh then SearchDone else StoreResult hash\<rparr>, sh\<lparr>sh_stop := True\<rparr>)
      | StoreResult hash \<Rightarrow>
          (w\<lparr>sw_pc := SearchDone\<rparr>, sh\<lparr>sh_result := Some (word_of_nat (sw_next w), hash)\<rparr>)
      | SearchDone \<Rightarrow> (w, sh))"

section \<open>All threads\<close>

record search_state =
  se_shared :: search_shared
  se_workers :: "search_worker list"

definition search_start :: "u32 \<Rightarrow> u64 \<Rightarrow> nat \<Rightarrow> search_state" where
  "search_start start_nonce max_attempts threads =
     \<lparr>se_shared = \<lparr>sh_stop = False, sh_attempts = 0, sh_result = None\<rparr>,
      se_workers = map (\<lambda>(a, b). \<lparr>sw_from = a, sw_next = a, sw_to = b, sw_pc = LoadStop\<rparr>)
        (search_ranges start_nonce max_attempts threads)\<rparr>"

definition search_step ::
  "(bytes \<Rightarrow> bytes) \<Rightarrow> bytes \<Rightarrow> hash32 \<Rightarrow> nat \<Rightarrow> search_state \<Rightarrow> search_state" where
  "search_step sha256 header target i st =
     (let (w, sh) = worker_step sha256 header target (se_workers st ! i) (se_shared st)
      in \<lparr>se_shared = sh, se_workers = (se_workers st)[i := w]\<rparr>)"

definition search_joined :: "search_state \<Rightarrow> bool" where
  "search_joined st = list_all (\<lambda>w. sw_pc w = SearchDone) (se_workers st)"

text \<open>What the caller reads after the last thread has been joined.\<close>

definition search_candidate_nonce :: "search_state \<Rightarrow> (u32 \<times> hash32 \<times> u64) option" where
  "search_candidate_nonce st =
     map_option (\<lambda>(nonce, hash). (nonce, hash, sh_attempts (se_shared st))) (sh_result (se_shared st))"

text \<open>A step of a thread that is still running.\<close>

inductive search_runs ::
  "(bytes \<Rightarrow> bytes) \<Rightarrow> bytes \<Rightarrow> hash32 \<Rightarrow> search_state \<Rightarrow> search_state \<Rightarrow> bool"
  for sha256 header target where
  "i < length (se_workers st) \<Longrightarrow> sw_pc (se_workers st ! i) \<noteq> SearchDone
    \<Longrightarrow> search_runs sha256 header target st (search_step sha256 header target i st)"

inductive_cases search_runsE: "search_runs sha256 header target st st'"

section \<open>The canary's candidate\<close>

definition canary_header :: "(bytes \<Rightarrow> bytes) \<Rightarrow> work_template \<Rightarrow> bytes \<Rightarrow> bytes \<Rightarrow> bytes" where
  "canary_header sha256 template extranonce1_le extranonce2_le =
     (let txid = coinbase_txid sha256 (wt_coinbase_prefix template)
            (compose_extranonce extranonce1_le extranonce2_le) (wt_coinbase_suffix template)
      in header_84 (wt_version template) (wt_prev template)
           (merkle_root_from_branch sha256 txid (wt_merkle_branch template))
           (wt_time template) (wt_bits template) 0)"

definition canary_request ::
  "(bytes \<Rightarrow> bytes) \<Rightarrow> (bytes \<Rightarrow> string) \<Rightarrow> work_template \<Rightarrow> bytes \<Rightarrow> bytes \<Rightarrow> u32 \<Rightarrow> hash32
    \<Rightarrow> candidate_request" where
  "canary_request sha256 hexe template extranonce1_le extranonce2_le nonce hash =
     (let extranonce = compose_extranonce extranonce1_le extranonce2_le;
          txid = coinbase_txid sha256 (wt_coinbase_prefix template) extranonce (wt_coinbase_suffix template)
      in \<lparr>cr_job_id = wt_job_id template, cr_worker_name = ''node-candidate-canary'',
          cr_header_hex = hexe (candidate_header (canary_header sha256 template extranonce1_le extranonce2_le) (unat nonce)),
          cr_hash_hex = hexe hash, cr_coinbase_txid_hex = hexe txid,
          cr_coinbase_hex = hexe (coinbase_bytes (wt_coinbase_prefix template) extranonce (wt_coinbase_suffix template)),
          cr_merkle_root_hex = hexe (merkle_root_from_branch sha256 txid (wt_merkle_branch template)),
          cr_extranonce2_hex = hexe extranonce2_le, cr_ntime_hex = hex08 (unat (wt_time template)),
          cr_nonce_hex = hex08 (unat nonce)\<rparr>)"

section \<open>The ranges partition the nonces\<close>

lemma search_end_le: "unat start_nonce \<le> search_end start_nonce n" "search_end start_nonce n \<le> 2 ^ 32"
  using unsigned_less [of start_nonce, where ?'a = nat] by (auto simp: search_end_def sat64_def)

lemma div_ceil_le: "(width + threads - 1) div threads \<le> (width :: nat)" if "0 < threads"
proof (cases width)
  case (Suc k)
  have "k \<le> k * threads" using that by simp
  moreover have "(width + 1) * threads = 2 * threads + k * threads" by (simp add: Suc)
  ultimately have "width + threads - 1 < (width + 1) * threads" using that Suc by linarith
  then have "(width + threads - 1) div threads < width + 1" using that by (simp add: less_mult_imp_div_less)
  then show ?thesis by simp
qed (use that in simp)

lemma div_ceil_cover: "width \<le> (width + threads - 1) div threads * (threads :: nat)" if "0 < threads"
proof -
  have "(width + threads - 1) mod threads < threads" using that by simp
  moreover have "(width + threads - 1) div threads * threads + (width + threads - 1) mod threads = width + threads - 1"
    by simp
  ultimately show ?thesis using that by linarith
qed

lemma search_chunk_le:
  assumes "0 < threads"
  shows "search_chunk s n threads \<le> 2 ^ 32"
    and "search_end s n - unat s \<le> search_chunk s n threads * threads"
  using div_ceil_le [OF assms, of "search_end s n - unat s"] div_ceil_cover [OF assms, of "search_end s n - unat s"]
    search_end_le(2) [of s n]
  by (simp_all add: search_chunk_def Let_def)

lemma search_range_eq:
  assumes "i < threads" and "threads \<le> 256"
  shows "search_range s n threads i = (unat s + search_chunk s n threads * i,
    min (unat s + search_chunk s n threads * Suc i) (search_end s n))"
proof -
  let ?c = "search_chunk s n threads"
  have c: "?c \<le> 2 ^ 32" using search_chunk_le(1) [of threads s n] assms by simp
  then have "?c * i \<le> 2 ^ 32 * 256" using assms by (intro mult_le_mono) simp_all
  then show ?thesis
    using c unsigned_less [of s, where ?'a = nat] search_end_le [of s n]
    by (simp add: search_range_def Let_def sat64_def)
qed

lemma search_ranges_cover:
  assumes threads: "0 < threads" "threads \<le> 256" and n: "unat s \<le> m" "m < search_end s n"
  shows "\<exists>(a, b) \<in> set (search_ranges s n threads). a \<le> m \<and> m < b"
proof -
  let ?c = "search_chunk s n threads" and ?i = "(m - unat s) div search_chunk s n threads"
  have c: "0 < ?c"
    using search_chunk_le(2) [OF threads(1), of s n] n by (cases "?c = 0") auto
  have "m - unat s < ?c * threads" using search_chunk_le(2) [OF threads(1), of s n] n by linarith
  then have i: "?i < threads" using c by (simp add: div_less_iff_less_mult mult.commute)
  have "?c * ?i \<le> m - unat s" "m - unat s < ?c * Suc ?i"
    using c dividend_less_times_div [of ?c "m - unat s"] by simp_all
  then have in_range: "unat s + ?c * ?i \<le> m" "m < min (unat s + ?c * Suc ?i) (search_end s n)"
    using n by linarith+
  moreover obtain a b where ab: "search_range s n threads ?i = (a, b)" by (cases "search_range s n threads ?i")
  ultimately have "a \<le> m" "m < b"
    using search_range_eq [OF i threads(2), of s n] by (simp_all only: prod.inject)
  moreover from this have "(a, b) \<in> set (search_ranges s n threads)"
    using i ab by (auto simp: search_ranges_def image_iff intro!: bexI [where x = ?i])
  ultimately show ?thesis by blast
qed

lemma search_ranges_within:
  assumes "(a, b) \<in> set (search_ranges s n threads)" and "threads \<le> 256"
  shows "unat s \<le> a \<and> a < b \<and> b \<le> search_end s n"
  using assms by (auto simp: search_ranges_def search_range_eq)

section \<open>The invariant of a search\<close>

definition candidate_ok :: "(bytes \<Rightarrow> bytes) \<Rightarrow> bytes \<Rightarrow> hash32 \<Rightarrow> nat \<Rightarrow> bool" where
  "candidate_ok sha256 header target nonce = hash_leq_target (candidate_hash sha256 header nonce) target"

definition found_by :: "(bytes \<Rightarrow> bytes) \<Rightarrow> bytes \<Rightarrow> hash32 \<Rightarrow> search_worker \<Rightarrow> hash32 \<Rightarrow> bool" where
  "found_by sha256 header target w hash \<longleftrightarrow> sw_next w < sw_to w
     \<and> hash = candidate_hash sha256 header (sw_next w) \<and> candidate_ok sha256 header target (sw_next w)"

definition worker_ok :: "(bytes \<Rightarrow> bytes) \<Rightarrow> bytes \<Rightarrow> hash32 \<Rightarrow> bool \<Rightarrow> search_worker \<Rightarrow> bool" where
  "worker_ok sha256 header target stopped w \<longleftrightarrow>
     sw_from w \<le> sw_next w \<and> sw_next w \<le> sw_to w
     \<and> (\<forall>n. sw_from w \<le> n \<and> n < sw_next w \<longrightarrow> \<not> candidate_ok sha256 header target n)
     \<and> (case sw_pc w of
          LoadStop \<Rightarrow> True
        | HashNonce \<Rightarrow> sw_next w < sw_to w
        | SwapStop hash \<Rightarrow> found_by sha256 header target w hash
        | StoreResult hash \<Rightarrow> found_by sha256 header target w hash \<and> stopped
        | SearchDone \<Rightarrow> stopped \<or> sw_next w = sw_to w)"

text \<open>The hashes a thread may still compute.\<close>

definition remaining :: "search_worker \<Rightarrow> nat" where
  "remaining w = (if sw_pc w \<in> {LoadStop, HashNonce} then sw_to w - sw_next w else 0)"

definition search_inv ::
  "(bytes \<Rightarrow> bytes) \<Rightarrow> bytes \<Rightarrow> hash32 \<Rightarrow> (nat \<times> nat) list \<Rightarrow> nat \<Rightarrow> search_state \<Rightarrow> bool" where
  "search_inv sha256 header target ranges budget st \<longleftrightarrow>
     map (\<lambda>w. (sw_from w, sw_to w)) (se_workers st) = ranges
     \<and> (\<forall>w \<in> set (se_workers st). worker_ok sha256 header target (sh_stop (se_shared st)) w)
     \<and> (\<forall>nonce hash. sh_result (se_shared st) = Some (nonce, hash) \<longrightarrow>
          (\<exists>(a, b) \<in> set ranges. \<exists>n. a \<le> n \<and> n < b \<and> nonce = word_of_nat n
             \<and> hash = candidate_hash sha256 header n \<and> candidate_ok sha256 header target n))
     \<and> (sh_stop (se_shared st) \<longrightarrow> sh_result (se_shared st) \<noteq> None
          \<or> (\<exists>w \<in> set (se_workers st). \<exists>hash. sw_pc w = StoreResult hash))
     \<and> unat (sh_attempts (se_shared st)) + sum_list (map remaining (se_workers st)) \<le> budget"

lemma worker_ok_stopped: "worker_ok sha256 header target False w \<Longrightarrow> worker_ok sha256 header target stopped w"
  by (auto simp: worker_ok_def split: search_pc.splits)

lemma worker_step_ok:
  assumes "worker_ok sha256 header target (sh_stop sh) w"
    and "worker_step sha256 header target w sh = (w', sh')"
  shows "worker_ok sha256 header target (sh_stop sh') w'" and "sh_stop sh \<Longrightarrow> sh_stop sh'"
    and "sw_from w' = sw_from w" and "sw_to w' = sw_to w"
  using assms
  by (auto simp: worker_step_def worker_ok_def found_by_def candidate_ok_def Let_def less_Suc_eq
      split: search_pc.splits if_splits)

lemma worker_step_result:
  assumes "worker_step sha256 header target w sh = (w', sh')"
  shows "sh_result sh' = (case sw_pc w of StoreResult hash \<Rightarrow> Some (word_of_nat (sw_next w), hash) | _ \<Rightarrow> sh_result sh)"
    and "sh_stop sh' \<Longrightarrow> \<not> sh_stop sh \<Longrightarrow> \<exists>hash. sw_pc w' = StoreResult hash"
    and "sw_pc w = StoreResult hash \<Longrightarrow> sh_result sh' \<noteq> None"
  using assms by (auto simp: worker_step_def Let_def split: search_pc.splits if_splits)

lemma worker_step_attempts:
  assumes "worker_step sha256 header target w sh = (w', sh')" and "worker_ok sha256 header target (sh_stop sh) w"
    and "unat (sh_attempts sh) < 2 ^ 64 - 1"
  shows "unat (sh_attempts sh') + remaining w' \<le> unat (sh_attempts sh) + remaining w"
  using assms
  by (auto simp: worker_step_def Let_def remaining_def worker_ok_def unat_plus_eq split: search_pc.splits if_splits)

lemma sum_list_update_nat:
  "i < length xs \<Longrightarrow> sum_list (map f (xs[i := x])) + f (xs ! i) = sum_list (map f xs) + (f x :: nat)"
  by (induction xs arbitrary: i) (auto split: nat.splits)

lemma search_inv_step:
  assumes inv: "search_inv sha256 header target ranges budget st" and i: "i < length (se_workers st)"
    and budget: "budget < 2 ^ 64 - 1"
  shows "search_inv sha256 header target ranges budget (search_step sha256 header target i st)"
proof -
  let ?ws = "se_workers st" and ?sh = "se_shared st"
  obtain w' sh' where step: "worker_step sha256 header target (?ws ! i) ?sh = (w', sh')" by fastforce
  have w: "?ws ! i \<in> set ?ws" using i by simp
  have ok: "worker_ok sha256 header target (sh_stop ?sh) v" if "v \<in> set ?ws" for v
    using inv that by (simp add: search_inv_def)
  note new = worker_step_ok [OF ok [OF w] step]
  have others: "worker_ok sha256 header target (sh_stop sh') v" if "v \<in> set ?ws" for v
    using ok [OF that] new(2) worker_ok_stopped [of sha256 header target v "sh_stop sh'"]
    by (cases "sh_stop ?sh") auto
  have set: "v \<in> set (?ws[i := w']) \<Longrightarrow> v = w' \<or> v \<in> set ?ws" for v
    using set_update_subset_insert [of ?ws i w'] by auto
  have "map (\<lambda>w. (sw_from w, sw_to w)) (?ws[i := w']) = ranges"
  proof -
    have "map (\<lambda>w. (sw_from w, sw_to w)) (?ws[i := w']) = (map (\<lambda>w. (sw_from w, sw_to w)) ?ws)[i := (sw_from (?ws ! i), sw_to (?ws ! i))]"
      using new(3,4) by (simp add: map_update)
    also have "\<dots> = map (\<lambda>w. (sw_from w, sw_to w)) ?ws"
      using i list_update_id [of "map (\<lambda>w. (sw_from w, sw_to w)) ?ws" i] by simp
    finally show ?thesis using inv by (simp add: search_inv_def)
  qed
  moreover have "\<forall>v \<in> set (?ws[i := w']). worker_ok sha256 header target (sh_stop sh') v"
    using set others new(1) by blast
  moreover have "\<exists>(a, b) \<in> set ranges. \<exists>n. a \<le> n \<and> n < b \<and> nonce = word_of_nat n
      \<and> hash = candidate_hash sha256 header n \<and> candidate_ok sha256 header target n"
    if found: "sh_result sh' = Some (nonce, hash)" for nonce hash
  proof (cases "\<exists>h. sw_pc (?ws ! i) = StoreResult h")
    case True
    then obtain h where h: "sw_pc (?ws ! i) = StoreResult h" by blast
    then have "nonce = word_of_nat (sw_next (?ws ! i))" "hash = h"
      using found worker_step_result(1) [OF step] by simp_all
    moreover have "(sw_from (?ws ! i), sw_to (?ws ! i)) \<in> set ranges"
      using inv i by (auto simp: search_inv_def)
    ultimately show ?thesis
      using ok [OF w] h by (auto simp: worker_ok_def found_by_def intro!: bexI)
  next
    case False
    then have "sh_result ?sh = Some (nonce, hash)"
      using found worker_step_result(1) [OF step] by (auto split: search_pc.splits)
    then show ?thesis using inv by (simp add: search_inv_def)
  qed
  moreover have "sh_result sh' \<noteq> None \<or> (\<exists>v \<in> set (?ws[i := w']). \<exists>hash. sw_pc v = StoreResult hash)" if "sh_stop sh'"
  proof (cases "sh_stop ?sh")
    case False
    then show ?thesis using worker_step_result(2) [OF step that] i set_update_memI by metis
  next
    case True
    then consider "sh_result ?sh \<noteq> None" | v h where "v \<in> set ?ws" "sw_pc v = StoreResult h"
      using inv unfolding search_inv_def by blast
    then show ?thesis
    proof cases
      case 1
      then show ?thesis using worker_step_result(1) [OF step] by (auto split: search_pc.splits)
    next
      case 2
      then obtain j where j: "j < length ?ws" "?ws ! j = v" by (auto simp: in_set_conv_nth)
      show ?thesis
      proof (cases "j = i")
        case True
        then show ?thesis using worker_step_result(3) [OF step] 2(2) j by blast
      next
        case False
        then have "v \<in> set (?ws[i := w'])" using j by (metis length_list_update nth_list_update_neq nth_mem)
        then show ?thesis using 2(2) by blast
      qed
    qed
  qed
  moreover have "unat (sh_attempts sh') + sum_list (map remaining (?ws[i := w'])) \<le> budget"
  proof -
    have old: "unat (sh_attempts ?sh) + sum_list (map remaining ?ws) \<le> budget"
      using inv by (simp add: search_inv_def)
    then have "unat (sh_attempts ?sh) < 2 ^ 64 - 1" using budget by simp
    from worker_step_attempts [OF step ok [OF w] this] sum_list_update_nat [OF i, of remaining w'] old
    show ?thesis by linarith
  qed
  ultimately show ?thesis by (simp add: search_inv_def search_step_def step)
qed

section \<open>Runs of a search\<close>

lemma range_widths:
  assumes "threads \<le> 256"
  shows "sum_list (map (\<lambda>(a, b). b - a) (search_ranges s n threads)) \<le> search_end s n - unat s"
    and "length (search_ranges s n threads) \<le> threads"
proof -
  let ?c = "search_chunk s n threads" and ?e = "search_end s n"
  have "sum_list (map (\<lambda>(a, b). b - a) (filter (\<lambda>(a, b). a < b) rs)) = sum_list (map (\<lambda>(a, b). b - a) rs)"
    for rs :: "(nat \<times> nat) list"
    by (induction rs) auto
  then have "sum_list (map (\<lambda>(a, b). b - a) (search_ranges s n threads))
      = sum_list (map (\<lambda>i. min (unat s + ?c * Suc i) ?e - (unat s + ?c * i)) [0..<threads])"
    using search_range_eq [OF _ assms, of _ s n]
    by (auto simp: search_ranges_def comp_def intro!: arg_cong [where f = sum_list])
  moreover have "sum_list (map (\<lambda>i. min (unat s + ?c * Suc i) ?e - (unat s + ?c * i)) [0..<k])
      \<le> min (unat s + ?c * k) ?e - unat s" for k
    by (induction k) auto
  ultimately show "sum_list (map (\<lambda>(a, b). b - a) (search_ranges s n threads)) \<le> ?e - unat s"
    by (metis (no_types, lifting) diff_le_mono le_trans min.cobounded2)
  show "length (search_ranges s n threads) \<le> threads"
    unfolding search_ranges_def by (rule le_trans [OF length_filter_le]) simp
qed

lemma search_start_inv:
  assumes "threads \<le> 256"
  shows "search_inv sha256 header target (search_ranges s n threads) (search_end s n - unat s) (search_start s n threads)"
proof -
  have "map remaining (se_workers (search_start s n threads)) = map (\<lambda>(a, b). b - a) (search_ranges s n threads)"
    by (auto simp: search_start_def remaining_def)
  moreover have "map (\<lambda>w. (sw_from w, sw_to w)) (se_workers (search_start s n threads)) = search_ranges s n threads"
    by (simp add: search_start_def comp_def case_prod_unfold)
  moreover have "worker_ok sha256 header target stopped w" if w: "w \<in> set (se_workers (search_start s n threads))" for w stopped
  proof -
    obtain a b where ab: "(a, b) \<in> set (search_ranges s n threads)"
      and "w = \<lparr>sw_from = a, sw_next = a, sw_to = b, sw_pc = LoadStop\<rparr>"
      using w by (auto simp: search_start_def)
    then show ?thesis using search_ranges_within [OF ab assms] by (auto simp: worker_ok_def)
  qed
  moreover have "\<not> sh_stop (se_shared (search_start s n threads))" "sh_result (se_shared (search_start s n threads)) = None"
    "sh_attempts (se_shared (search_start s n threads)) = 0"
    by (simp_all add: search_start_def)
  ultimately show ?thesis
    using range_widths(1) [OF assms, of s n] unfolding search_inv_def by simp
qed

lemma search_reached_inv:
  assumes "threads \<le> 256" and "(search_runs sha256 header target)\<^sup>*\<^sup>* (search_start s n threads) st"
  shows "search_inv sha256 header target (search_ranges s n threads) (search_end s n - unat s) st"
  using assms(2)
proof (induction rule: rtranclp_induct)
  case (step st st')
  have "search_end s n - unat s < 2 ^ 64 - 1" using search_end_le(2) [of s n] by simp
  then show ?case
    using step(2,3) by (auto elim!: search_runsE intro: search_inv_step)
qed (rule search_start_inv [OF assms(1)])

definition worker_fuel :: "search_worker \<Rightarrow> nat" where
  "worker_fuel w = (let d = sw_to w - sw_next w in
     case sw_pc w of
       LoadStop \<Rightarrow> 2 * d + 3
     | HashNonce \<Rightarrow> max (2 * d + 2) 4
     | SwapStop _ \<Rightarrow> 2
     | StoreResult _ \<Rightarrow> 1
     | SearchDone \<Rightarrow> 0)"

definition search_fuel :: "search_state \<Rightarrow> nat" where
  "search_fuel st = sum_list (map worker_fuel (se_workers st))"

lemma worker_fuel_step:
  "sw_pc w \<noteq> SearchDone \<Longrightarrow> worker_fuel (fst (worker_step sha256 header target w sh)) < worker_fuel w"
  by (auto simp: worker_step_def worker_fuel_def Let_def split: search_pc.splits)

lemma search_fuel_step: "search_runs sha256 header target st st' \<Longrightarrow> search_fuel st' < search_fuel st"
proof (erule search_runsE)
  fix i
  assume st': "st' = search_step sha256 header target i st"
    and i: "i < length (se_workers st)" "sw_pc (se_workers st ! i) \<noteq> SearchDone"
  let ?w = "fst (worker_step sha256 header target (se_workers st ! i) (se_shared st))"
  have "se_workers st' = (se_workers st)[i := ?w]"
    by (simp add: st' search_step_def case_prod_unfold Let_def)
  then show "search_fuel st' < search_fuel st"
    using sum_list_update_nat [OF i(1), of worker_fuel ?w] worker_fuel_step [OF i(2), of sha256 header target "se_shared st"]
    unfolding search_fuel_def by simp
qed

lemma search_fuel_start:
  assumes "threads \<le> 256"
  shows "search_fuel (search_start s n threads) \<le> 2 * (search_end s n - unat s) + 3 * threads"
proof -
  have "sum_list (map (\<lambda>(a, b). 2 * (b - a) + 3) rs) = 2 * sum_list (map (\<lambda>(a, b). b - a) rs) + 3 * length rs"
    for rs :: "(nat \<times> nat) list"
    by (induction rs) auto
  moreover have "map worker_fuel (se_workers (search_start s n threads)) = map (\<lambda>(a, b). 2 * (b - a) + 3) (search_ranges s n threads)"
    by (auto simp: search_start_def worker_fuel_def)
  ultimately show ?thesis
    using range_widths [OF assms, of s n] by (simp add: search_fuel_def)
qed

lemma search_progress:
  assumes "\<not> search_joined st"
  shows "\<exists>st'. search_runs sha256 header target st st'"
proof -
  obtain i where "i < length (se_workers st)" "sw_pc (se_workers st ! i) \<noteq> SearchDone"
    using assms by (auto simp: search_joined_def list_all_length)
  then show ?thesis by (blast intro: search_runs.intros)
qed

text \<open>
  C34. The search ends under every schedule of its threads: no run takes more than two steps for each
  nonce of the range and three for each thread, and until every thread is done one of them can go on.
\<close>
theorem search_terminates:
  assumes "threads \<le> 256"
    and "(search_runs sha256 header target ^^ k) (search_start s n threads) st"
  shows "k \<le> 2 * (search_end s n - unat s) + 3 * threads
    \<and> (search_joined st \<or> (\<exists>st'. search_runs sha256 header target st st'))"
proof -
  have "k + search_fuel st \<le> search_fuel (search_start s n threads)"
    using assms(2)
  proof (induction k arbitrary: st)
    case (Suc k)
    then obtain st1 where "(search_runs sha256 header target ^^ k) (search_start s n threads) st1"
      "search_runs sha256 header target st1 st" by (auto elim: relpowp_Suc_E)
    then show ?case using Suc.IH search_fuel_step by fastforce
  qed simp
  then show ?thesis
    using search_fuel_start [OF assms(1), of s n] search_progress by fastforce
qed

lemma search_result_found:
  assumes "0 < threads" and "threads \<le> 256"
    and "(search_runs sha256 header target)\<^sup>*\<^sup>* (search_start s n threads) st" and "search_joined st"
    and "search_candidate_nonce st = Some (nonce, hash, attempts)"
  shows "unat s \<le> unat nonce \<and> unat nonce < search_end s n
    \<and> hash = header_hash sha256 (candidate_header header (unat nonce)) \<and> hash_leq_target hash target
    \<and> unat attempts \<le> search_end s n - unat s"
proof -
  have inv: "search_inv sha256 header target (search_ranges s n threads) (search_end s n - unat s) st"
    by (rule search_reached_inv [OF assms(2,3)])
  obtain a b m where m: "(a, b) \<in> set (search_ranges s n threads)" "a \<le> m" "m < b" "nonce = word_of_nat m"
    "hash = candidate_hash sha256 header m" "candidate_ok sha256 header target m"
    using inv assms(5) by (auto simp: search_inv_def search_candidate_nonce_def)
  have within: "unat s \<le> m" "m < search_end s n"
    using search_ranges_within [OF m(1) assms(2)] m(2,3) by auto
  then have "unat nonce = m" using search_end_le(2) [of s n] by (simp add: m(4) unat_of_nat take_bit_nat_eq_self)
  then show ?thesis
    using assms(5) m(5,6) within inv
    by (auto simp: search_candidate_nonce_def candidate_hash_def candidate_ok_def search_inv_def)
qed

text \<open>
  C17. When all threads are done, whatever their schedule was, a nonce that is reported lies in the
  range, its header hashes to the reported hash, and the hash meets the target; when none is
  reported, no nonce of the range meets it; the hashes counted are at most one for each nonce.
\<close>
theorem search_correct:
  assumes "0 < threads" and "threads \<le> 256"
    and "(search_runs sha256 header target)\<^sup>*\<^sup>* (search_start s n threads) st" and "search_joined st"
  shows "case search_candidate_nonce st of
      Some (nonce, hash, attempts) \<Rightarrow> unat s \<le> unat nonce \<and> unat nonce < search_end s n
        \<and> hash = header_hash sha256 (candidate_header header (unat nonce)) \<and> hash_leq_target hash target
        \<and> unat attempts \<le> search_end s n - unat s
    | None \<Rightarrow> \<forall>m. unat s \<le> m \<and> m < search_end s n \<longrightarrow> \<not> candidate_ok sha256 header target m"
proof -
  have inv: "search_inv sha256 header target (search_ranges s n threads) (search_end s n - unat s) st"
    by (rule search_reached_inv [OF assms(2,3)])
  have done_all: "sw_pc w = SearchDone" if "w \<in> set (se_workers st)" for w
    using assms(4) that by (simp add: search_joined_def list_all_iff)
  show ?thesis
  proof (cases "sh_result (se_shared st)")
    case (Some r)
    then show ?thesis
      using search_result_found [OF assms] by (cases r) (simp add: search_candidate_nonce_def)
  next
    case None
    then have running: "\<not> sh_stop (se_shared st)"
      using inv done_all unfolding search_inv_def by fastforce
    have "\<not> candidate_ok sha256 header target m" if m: "unat s \<le> m" "m < search_end s n" for m
    proof -
      obtain a b where ab: "(a, b) \<in> set (search_ranges s n threads)" "a \<le> m" "m < b"
        using search_ranges_cover [OF assms(1,2) m] by blast
      then obtain w where w: "w \<in> set (se_workers st)" "sw_from w = a" "sw_to w = b"
      proof -
        have "(a, b) \<in> set (map (\<lambda>w. (sw_from w, sw_to w)) (se_workers st))"
          using inv ab(1) by (simp add: search_inv_def)
        then show thesis using that by auto
      qed
      then show ?thesis
        using inv running done_all [OF w(1)] ab unfolding search_inv_def worker_ok_def by force
    qed
    then show ?thesis using None by (simp add: search_candidate_nonce_def)
  qed
qed

text \<open>An example: one thread, and a first nonce that is good.\<close>

definition example_start :: search_state where
  "example_start = \<lparr>se_shared = \<lparr>sh_stop = False, sh_attempts = 0, sh_result = None\<rparr>,
     se_workers = [\<lparr>sw_from = 0, sw_next = 0, sw_to = 1, sw_pc = LoadStop\<rparr>]\<rparr>"

definition zero_hash :: hash32 where
  "zero_hash = replicate 32 0"

definition example_step :: "bytes \<Rightarrow> search_state \<Rightarrow> search_state" where
  "example_step header = search_step (\<lambda>_. zero_hash) header zero_hash 0"

lemma example_start_eq: "search_start 0 1 1 = example_start"
  by (simp add: search_start_def example_start_def search_ranges_def search_range_def search_chunk_def
      search_end_def sat64_def Let_def)

lemmas example_steps = example_start_def example_step_def search_step_def worker_step_def Let_def
  candidate_hash_def header_hash_def sha256d_def hash_leq_target_def

lemma example_runs:
  "(search_runs (\<lambda>_. zero_hash) header zero_hash ^^ 4) (search_start 0 1 1) ((example_step header ^^ 4) example_start)"
proof -
  have "search_runs (\<lambda>_. zero_hash) header zero_hash ((example_step header ^^ k) example_start) ((example_step header ^^ Suc k) example_start)"
    if "k \<in> {0, 1, 2, 3}" for k
    using that search_runs.intros [of 0 "(example_step header ^^ k) example_start" "\<lambda>_. zero_hash" header zero_hash]
    by (auto simp: example_steps numeral_eq_Suc)
  then have "(search_runs (\<lambda>_. zero_hash) header zero_hash ^^ k) example_start ((example_step header ^^ k) example_start)"
    if "k \<le> 4" for k
    using that
  proof (induction k)
    case (Suc k)
    then have "k \<in> {0, 1, 2, 3}" by auto
    then show ?case using Suc by (auto intro: relpowp_Suc_I)
  qed simp
  then show ?thesis unfolding example_start_eq by simp
qed

lemma example_joined:
  "search_joined ((example_step header ^^ 4) example_start)"
  "search_candidate_nonce ((example_step header ^^ 4) example_start) = Some (0, zero_hash, 1)"
  by (simp_all add: example_steps search_joined_def search_candidate_nonce_def numeral_eq_Suc)

theorem search_terminates_witness: "(4 :: nat) \<le> 2 * (search_end 0 1 - unat (0 :: u32)) + 3 * 1"
  using search_terminates [OF _ example_runs [of "[]"]] by simp

theorem search_correct_witness:
  "\<exists>nonce hash attempts. search_candidate_nonce ((example_step [] ^^ 4) example_start) = Some (nonce, hash, attempts)
     \<and> hash = header_hash (\<lambda>_. zero_hash) (candidate_header [] (unat nonce)) \<and> hash_leq_target hash zero_hash"
  using search_correct [OF _ _ relpowp_imp_rtranclp [OF example_runs [of "[]"]] example_joined(1)]
  by (simp add: example_joined(2))

section \<open>The canary's candidate verifies\<close>

lemma candidate_header_84:
  assumes "length prev = 32" and "length merkle = 32"
  shows "candidate_header (header_84 version prev merkle time bits nonce0) (unat nonce)
    = header_84 version prev merkle time bits nonce"
  using assms by (simp add: candidate_header_def header_84_def)

text \<open>
  C33. The block that the canary submits is one the pool itself would accept: a nonce that the search
  reports, with the extranonces of the canary, verifies as a share against the network target, as a
  block candidate, and the request carries the header, the hash, the coinbase and the merkle root
  that the verification reconstructs.
\<close>
theorem canary_verifies:
  assumes "0 < threads" and "threads \<le> 256" and "digest32 sha256" and "wf_template template"
    and "wt_time template < 2 ^ 32"
    and "(search_runs sha256 (canary_header sha256 template en1 en2) (wt_network_target template))\<^sup>*\<^sup>*
      (search_start s n threads) st" and "search_joined st"
    and "search_candidate_nonce st = Some (nonce, hash, attempts)"
  shows "\<exists>v. verify_share_against_target sha256 template en1
        \<lparr>sol_extranonce2_le = en2, sol_ntime = ucast (wt_time template), sol_nonce = nonce\<rparr> (wt_network_target template) = Inr v
    \<and> vs_is_block_candidate v
    \<and> cr_header_hex (canary_request sha256 hexe template en1 en2 nonce hash) = hexe (vs_header v)
    \<and> cr_hash_hex (canary_request sha256 hexe template en1 en2 nonce hash) = hexe (vs_hash v)
    \<and> cr_coinbase_txid_hex (canary_request sha256 hexe template en1 en2 nonce hash) = hexe (vs_coinbase_txid v)
    \<and> cr_merkle_root_hex (canary_request sha256 hexe template en1 en2 nonce hash) = hexe (vs_merkle_root v)"
proof -
  let ?H = "canary_header sha256 template en1 en2"
  let ?txid = "coinbase_txid sha256 (wt_coinbase_prefix template) (compose_extranonce en1 en2) (wt_coinbase_suffix template)"
  let ?root = "merkle_root_from_branch sha256 ?txid (wt_merkle_branch template)"
  have found: "hash = header_hash sha256 (candidate_header ?H (unat nonce))" "hash_leq_target hash (wt_network_target template)"
    using search_result_found [OF assms(1,2,6,7,8)] by blast+
  have "length ?root = 32" using assms(3) by (simp add: coinbase_txid_def)
  then have header: "candidate_header ?H (unat nonce)
      = header_84 (wt_version template) (wt_prev template) ?root (wt_time template) (wt_bits template) nonce"
    using assms(4) by (simp add: canary_header_def Let_def candidate_header_84 wf_template_def)
  have "ucast (ucast (wt_time template) :: u32) = wt_time template"
    using assms(5) by (simp add: word_unat_eq_iff unsigned_ucast_eq unsigned_take_bit_eq word_less_nat_alt take_bit_nat_eq_self)
  then show ?thesis
    using found header by (simp add: verify_share_against_target_def canary_request_def Let_def)
qed

definition example_template :: work_template where
  "example_template = \<lparr>wt_job_id = ''j'', wt_version = 1, wt_prev = zero_hash, wt_time = 7, wt_bits = 0,
     wt_share_target = zero_hash, wt_network_target = zero_hash, wt_coinbase_prefix = [], wt_coinbase_suffix = [],
     wt_merkle_branch = []\<rparr>"

theorem canary_verifies_witness:
  "\<exists>v. verify_share_against_target (\<lambda>_. zero_hash) example_template [] \<lparr>sol_extranonce2_le = [],
     sol_ntime = ucast (wt_time example_template), sol_nonce = 0\<rparr> (wt_network_target example_template) = Inr v
   \<and> vs_is_block_candidate v"
proof -
  have t: "wf_template example_template" "digest32 (\<lambda>_. zero_hash)" "wt_time example_template < 2 ^ 32"
    "wt_network_target example_template = zero_hash"
    by (simp_all add: wf_template_def example_template_def digest32_def zero_hash_def)
  show ?thesis
    using canary_verifies [OF _ _ t(2,1,3), unfolded t(4),
        OF _ _ relpowp_imp_rtranclp [OF example_runs] example_joined, of "[]" "[]"]
    unfolding t(4) by fastforce
qed

end
