(* ===== verification/Csd_Relay.thy ===== *)
theory Csd_Relay
  imports Csd_Prelude "HOL-Library.AList"
begin

text \<open>
  Crate \<open>csd-node-adapter/v15\<close> (\<open>ops/\<close>): the receipts of the external relays. A node announces a
  candidate to the relays D and E; a relay validates and applies the block and signs an application
  receipt; the node verifies it, guards against replays, and counts each delivery in a matrix of
  lanes. SHA-256, the signing key, the parsing and the checking of signatures and the relay's
  application hook are parameters. Hash maps are association lists (\<open>AList\<close>), whose order no
  operation looks at.
\<close>

section \<open>Roles and capabilities\<close>

datatype node_role = NodeA | NodeB
datatype relay_slot = RelayD | RelayE
datatype delivery_mode = PushMode | AnnounceThenPull

definition relay_protocol_version :: u16 where "relay_protocol_version = 15"
definition min_mature_candidates :: u64 where "min_mature_candidates = 10"
definition max_tracked_deliveries :: nat where "max_tracked_deliveries = 512"
definition max_replay_tokens :: nat where "max_replay_tokens = 1024"

definition ack_domain :: bytes where
  "ack_domain = map of_char ''csd/external-relay-application-ack/v15''"

record adapter_capabilities =
  cap_push_full_block :: bool
  cap_pull_get_block :: bool
  cap_delayed_response_channel :: bool
  cap_application_accept_hook :: bool

definition current_official_v13 :: adapter_capabilities where
  "current_official_v13 = \<lparr>cap_push_full_block = False, cap_pull_get_block = True,
     cap_delayed_response_channel = False, cap_application_accept_hook = False\<rparr>"

datatype capability_decision = CapabilityReady delivery_mode | CapabilityBlocked string

definition select_delivery_mode :: "adapter_capabilities \<Rightarrow> capability_decision" where
  "select_delivery_mode c =
     (if cap_push_full_block c \<and> cap_application_accept_hook c then CapabilityReady PushMode
      else if cap_pull_get_block c \<and> cap_delayed_response_channel c \<and> cap_application_accept_hook c
      then CapabilityReady AnnounceThenPull
      else CapabilityBlocked ''OFFICIAL_ADAPTER_MISSING_APPLICATION_ACK_INTERFACE'')"

record feature_config =
  ft_enabled :: bool
  ft_relay_d_configured :: bool
  ft_relay_e_configured :: bool

definition feature_active :: "feature_config \<Rightarrow> bool" where
  "feature_active c \<longleftrightarrow> ft_enabled c \<and> ft_relay_d_configured c \<and> ft_relay_e_configured c"

datatype mature_gate_state = PendingNotEnoughMatureCandidates | BoundedObservationNoCausalClaim

definition mature_gate :: "u64 \<Rightarrow> mature_gate_state" where
  "mature_gate mature_candidates =
     (if mature_candidates < min_mature_candidates then PendingNotEnoughMatureCandidates
      else BoundedObservationNoCausalClaim)"

section \<open>Announcements and their scheduler\<close>

record relay_announcement =
  an_protocol_version :: u16
  an_mode :: delivery_mode
  an_sender :: node_role
  an_relay :: relay_slot
  an_correlation :: bytes
  an_generation :: u64
  an_content_digest :: bytes
  an_nonce :: bytes
  an_expires_unix_ms :: u64

definition announcement_new ::
  "(bytes \<Rightarrow> bytes) \<Rightarrow> delivery_mode \<Rightarrow> node_role \<Rightarrow> relay_slot \<Rightarrow> bytes \<Rightarrow> u64 \<Rightarrow> bytes \<Rightarrow> bytes \<Rightarrow> u64
    \<Rightarrow> relay_announcement" where
  "announcement_new sha256 mode sender relay correlation generation block_bytes nonce expires =
     \<lparr>an_protocol_version = relay_protocol_version, an_mode = mode, an_sender = sender, an_relay = relay,
      an_correlation = correlation, an_generation = generation, an_content_digest = sha256 block_bytes,
      an_nonce = nonce, an_expires_unix_ms = expires\<rparr>"

definition derive_correlation :: "(bytes \<Rightarrow> bytes) \<Rightarrow> bytes \<Rightarrow> u64 \<Rightarrow> bytes \<Rightarrow> bytes" where
  "derive_correlation sha256 correlation_secret generation content_digest =
     take 16 (sha256 (map of_char ''csd/external-relay-correlation/v15'' @ correlation_secret
       @ le_bytes 8 generation @ content_digest))"

record candidate_ready =
  cd_sender :: node_role
  cd_generation :: u64
  cd_block_bytes :: bytes
  cd_local_canonical :: bool
  cd_persisted :: bool
  cd_block_bytes_available :: bool
  cd_expires_unix_ms :: u64

datatype schedule_result =
  ScheduleDisabled | PrerequisiteMissing | ScheduleDuplicate | CapacityDropFailOpen | QueuedBothRelays

record relay_scheduler =
  rs_config :: feature_config
  rs_correlation_secret :: bytes
  rs_capacity :: nat
  rs_queue :: "relay_announcement list"
  rs_scheduled :: "(bytes \<times> u64) set"
  rs_capacity_drops :: u64

definition scheduler_new :: "feature_config \<Rightarrow> bytes \<Rightarrow> nat \<Rightarrow> relay_scheduler" where
  "scheduler_new config correlation_secret capacity =
     \<lparr>rs_config = config, rs_correlation_secret = correlation_secret, rs_capacity = capacity,
      rs_queue = [], rs_scheduled = {}, rs_capacity_drops = 0\<rparr>"

definition try_schedule ::
  "(bytes \<Rightarrow> bytes) \<Rightarrow> candidate_ready \<Rightarrow> bytes \<Rightarrow> bytes \<Rightarrow> relay_scheduler \<Rightarrow> relay_scheduler \<times> schedule_result" where
  "try_schedule sha256 candidate relay_d_nonce relay_e_nonce s =
     (if \<not> feature_active (rs_config s) then (s, ScheduleDisabled)
      else if \<not> cd_local_canonical candidate \<or> \<not> cd_persisted candidate
        \<or> \<not> cd_block_bytes_available candidate \<or> cd_block_bytes candidate = []
      then (s, PrerequisiteMissing)
      else
        let content_digest = sha256 (cd_block_bytes candidate);
            correlation = derive_correlation sha256 (rs_correlation_secret s) (cd_generation candidate) content_digest;
            announce = (\<lambda>(relay, nonce).
              \<lparr>an_protocol_version = relay_protocol_version, an_mode = AnnounceThenPull,
               an_sender = cd_sender candidate, an_relay = relay, an_correlation = correlation,
               an_generation = cd_generation candidate, an_content_digest = content_digest,
               an_nonce = nonce, an_expires_unix_ms = cd_expires_unix_ms candidate\<rparr>)
        in if (correlation, cd_generation candidate) \<in> rs_scheduled s then (s, ScheduleDuplicate)
           else if rs_capacity s < length (rs_queue s) + 2
           then (s\<lparr>rs_capacity_drops := sat_add (rs_capacity_drops s) 1\<rparr>, CapacityDropFailOpen)
           else (s\<lparr>rs_queue := rs_queue s @ map announce [(RelayD, relay_d_nonce), (RelayE, relay_e_nonce)],
                   rs_scheduled := insert (correlation, cd_generation candidate) (rs_scheduled s)\<rparr>,
                 QueuedBothRelays))"

definition scheduler_pop :: "relay_scheduler \<Rightarrow> relay_scheduler \<times> relay_announcement option" where
  "scheduler_pop s =
     (case rs_queue s of [] \<Rightarrow> (s, None) | a # rest \<Rightarrow> (s\<lparr>rs_queue := rest\<rparr>, Some a))"

section \<open>Receipts\<close>

record application_ack =
  ak_protocol_version :: u16
  ak_mode :: delivery_mode
  ak_sender :: node_role
  ak_relay :: relay_slot
  ak_correlation :: bytes
  ak_generation :: u64
  ak_content_digest :: bytes
  ak_nonce :: bytes
  ak_expires_unix_ms :: u64
  ak_block_validated :: bool
  ak_application_accepted :: bool
  ak_signature :: bytes

definition ack_unsigned :: "relay_announcement \<Rightarrow> application_ack" where
  "ack_unsigned a =
     \<lparr>ak_protocol_version = relay_protocol_version, ak_mode = an_mode a, ak_sender = an_sender a,
      ak_relay = an_relay a, ak_correlation = an_correlation a, ak_generation = an_generation a,
      ak_content_digest = an_content_digest a, ak_nonce = an_nonce a,
      ak_expires_unix_ms = an_expires_unix_ms a, ak_block_validated = True,
      ak_application_accepted = True, ak_signature = replicate 64 0\<rparr>"

fun role_byte :: "node_role \<Rightarrow> u8" where
  "role_byte NodeA = 1" | "role_byte NodeB = 2"

fun relay_byte :: "relay_slot \<Rightarrow> u8" where
  "relay_byte RelayD = 4" | "relay_byte RelayE = 5"

fun mode_byte :: "delivery_mode \<Rightarrow> u8" where
  "mode_byte PushMode = 1" | "mode_byte AnnounceThenPull = 2"

definition ack_signing_bytes :: "application_ack \<Rightarrow> bytes" where
  "ack_signing_bytes ack =
     ack_domain @ le_bytes 2 (ak_protocol_version ack)
     @ [mode_byte (ak_mode ack), role_byte (ak_sender ack), relay_byte (ak_relay ack)]
     @ ak_correlation ack @ le_bytes 8 (ak_generation ack) @ ak_content_digest ack @ ak_nonce ack
     @ le_bytes 8 (ak_expires_unix_ms ack)
     @ [if ak_block_validated ack then 1 else 0, if ak_application_accepted ack then 1 else 0]"

definition replay_token :: "(bytes \<Rightarrow> bytes) \<Rightarrow> application_ack \<Rightarrow> bytes" where
  "replay_token sha256 ack = sha256 (ack_signing_bytes ack)"

datatype receiver_error = RcvWrongProtocol | RcvExpired | ContentMismatch | StructuralValidation | ApplicationRejected

definition receive_validate_accept_and_sign ::
  "(bytes \<Rightarrow> bytes) \<Rightarrow> (bytes \<Rightarrow> 's \<Rightarrow> 's \<times> (receiver_error + unit)) \<Rightarrow> (bytes \<Rightarrow> bytes)
    \<Rightarrow> relay_announcement \<Rightarrow> bytes \<Rightarrow> u64 \<Rightarrow> 's \<Rightarrow> 's \<times> (receiver_error + application_ack)" where
  "receive_validate_accept_and_sign sha256 accept sign announcement block_bytes now_unix_ms st =
     (if an_protocol_version announcement \<noteq> relay_protocol_version then (st, Inl RcvWrongProtocol)
      else if an_expires_unix_ms announcement < now_unix_ms then (st, Inl RcvExpired)
      else if sha256 block_bytes \<noteq> an_content_digest announcement then (st, Inl ContentMismatch)
      else case accept block_bytes st of
          (st', Inl e) \<Rightarrow> (st', Inl e)
        | (st', Inr _) \<Rightarrow>
            let ack = ack_unsigned announcement
            in (st', Inr (ack\<lparr>ak_signature := sign (ack_signing_bytes ack)\<rparr>)))"

section \<open>Verification and the replay guard\<close>

datatype verify_error =
  WrongProtocol | WrongMode | WrongDirection | WrongCorrelation | WrongGeneration | WrongContent
  | WrongNonce | AckExpired | NotApplicationAccepted | BadSignature | Replay | ReplayGuardFull

record replay_guard =
  rg_seen :: "(bytes \<times> u64) list"
  rg_order :: "bytes list"

definition empty_guard :: replay_guard where
  "empty_guard = \<lparr>rg_seen = [], rg_order = []\<rparr>"

text \<open>The loop that keeps the tokens whose expiry has not passed, and drops the others.\<close>

fun sweep_guard :: "u64 \<Rightarrow> bytes list \<Rightarrow> (bytes \<times> u64) list \<Rightarrow> bytes list \<times> (bytes \<times> u64) list" where
  "sweep_guard now [] seen = ([], seen)"
| "sweep_guard now (existing # order) seen =
     (if (case map_of seen existing of Some expiry \<Rightarrow> now \<le> expiry | None \<Rightarrow> False)
      then (let (active, seen') = sweep_guard now order seen in (existing # active, seen'))
      else sweep_guard now order (AList.delete existing seen))"

definition guard_insert :: "bytes \<Rightarrow> u64 \<Rightarrow> u64 \<Rightarrow> replay_guard \<Rightarrow> replay_guard \<times> (verify_error + unit)" where
  "guard_insert token expires_unix_ms now_unix_ms g =
     (let (active, seen) = sweep_guard now_unix_ms (rg_order g) (rg_seen g) in
      if map_of seen token \<noteq> None then (\<lparr>rg_seen = seen, rg_order = active\<rparr>, Inl Replay)
      else if max_replay_tokens \<le> length seen then (\<lparr>rg_seen = seen, rg_order = active\<rparr>, Inl ReplayGuardFull)
      else (\<lparr>rg_seen = AList.update token expires_unix_ms seen, rg_order = active @ [token]\<rparr>, Inr ()))"

definition verify_application_ack ::
  "(bytes \<Rightarrow> bytes) \<Rightarrow> (bytes \<Rightarrow> 'sig option) \<Rightarrow> (bytes \<Rightarrow> 'sig \<Rightarrow> bool) \<Rightarrow> relay_announcement
    \<Rightarrow> application_ack \<Rightarrow> u64 \<Rightarrow> replay_guard \<Rightarrow> replay_guard \<times> (verify_error + unit)" where
  "verify_application_ack sha256 signature_of verifies expected ack now_unix_ms g =
     (if ak_protocol_version ack \<noteq> relay_protocol_version then (g, Inl WrongProtocol)
      else if ak_mode ack \<noteq> an_mode expected then (g, Inl WrongMode)
      else if ak_sender ack \<noteq> an_sender expected \<or> ak_relay ack \<noteq> an_relay expected
      then (g, Inl WrongDirection)
      else if ak_correlation ack \<noteq> an_correlation expected then (g, Inl WrongCorrelation)
      else if ak_generation ack \<noteq> an_generation expected then (g, Inl WrongGeneration)
      else if ak_content_digest ack \<noteq> an_content_digest expected then (g, Inl WrongContent)
      else if ak_nonce ack \<noteq> an_nonce expected then (g, Inl WrongNonce)
      else if ak_expires_unix_ms ack < now_unix_ms \<or> ak_expires_unix_ms ack \<noteq> an_expires_unix_ms expected
      then (g, Inl AckExpired)
      else if \<not> ak_block_validated ack \<or> \<not> ak_application_accepted ack
      then (g, Inl NotApplicationAccepted)
      else case signature_of (ak_signature ack) of
          None \<Rightarrow> (g, Inl BadSignature)
        | Some signature \<Rightarrow>
            if \<not> verifies (ack_signing_bytes ack) signature then (g, Inl BadSignature)
            else guard_insert (replay_token sha256 ack) (ak_expires_unix_ms ack) now_unix_ms g)"

section \<open>The receipt matrix\<close>

record latency_buckets =
  le_50ms :: u64
  le_100ms :: u64
  le_250ms :: u64
  le_500ms :: u64
  le_1000ms :: u64
  le_2000ms :: u64
  gt_2000ms :: u64

definition note_latency :: "u64 \<Rightarrow> latency_buckets \<Rightarrow> latency_buckets" where
  "note_latency latency_ms b =
     (if latency_ms \<le> 50 then b\<lparr>le_50ms := le_50ms b + 1\<rparr>
      else if latency_ms \<le> 100 then b\<lparr>le_100ms := le_100ms b + 1\<rparr>
      else if latency_ms \<le> 250 then b\<lparr>le_250ms := le_250ms b + 1\<rparr>
      else if latency_ms \<le> 500 then b\<lparr>le_500ms := le_500ms b + 1\<rparr>
      else if latency_ms \<le> 1000 then b\<lparr>le_1000ms := le_1000ms b + 1\<rparr>
      else if latency_ms \<le> 2000 then b\<lparr>le_2000ms := le_2000ms b + 1\<rparr>
      else b\<lparr>gt_2000ms := gt_2000ms b + 1\<rparr>)"

record lane_counters =
  ln_scheduled :: u64
  ln_announce :: u64
  ln_request :: u64
  ln_payload :: u64
  ln_app_accept :: u64
  ln_ack_verified :: u64
  ln_negative :: u64
  ln_timeout :: u64
  ln_transport :: u64
  ln_drop :: u64
  ln_abnormal :: u64
  ln_outstanding :: u64
  ln_latency :: latency_buckets

definition lane_default :: lane_counters where
  "lane_default =
     \<lparr>ln_scheduled = 0, ln_announce = 0, ln_request = 0, ln_payload = 0, ln_app_accept = 0,
      ln_ack_verified = 0, ln_negative = 0, ln_timeout = 0, ln_transport = 0, ln_drop = 0,
      ln_abnormal = 0, ln_outstanding = 0,
      ln_latency = \<lparr>le_50ms = 0, le_100ms = 0, le_250ms = 0, le_500ms = 0, le_1000ms = 0,
        le_2000ms = 0, gt_2000ms = 0\<rparr>\<rparr>"

definition conservation_ok :: "lane_counters \<Rightarrow> bool" where
  "conservation_ok l \<longleftrightarrow>
     ln_scheduled l = ln_ack_verified l + ln_negative l + ln_timeout l + ln_transport l + ln_drop l
       + ln_abnormal l + ln_outstanding l"

datatype terminal =
  TerminalAckVerified u64 | TerminalNegative | TerminalTimeout | TerminalTransport | TerminalDrop | TerminalAbnormal

type_synonym delivery_key = "node_role \<times> relay_slot \<times> bytes \<times> u64"

record delivery_state =
  dv_terminal :: bool
  dv_pull_request_seen :: bool
  dv_payload_complete_seen :: bool
  dv_application_accept_seen :: bool

definition delivery_default :: delivery_state where
  "delivery_default = \<lparr>dv_terminal = False, dv_pull_request_seen = False,
     dv_payload_complete_seen = False, dv_application_accept_seen = False\<rparr>"

record receipt_matrix =
  rm_lanes :: "node_role \<times> relay_slot \<rightharpoonup> lane_counters"
  rm_deliveries :: "(delivery_key \<times> delivery_state) list"
  rm_order :: "delivery_key list"

definition empty_matrix :: receipt_matrix where
  "empty_matrix = \<lparr>rm_lanes = Map.empty, rm_deliveries = [], rm_order = []\<rparr>"

definition delivery_key :: "relay_announcement \<Rightarrow> delivery_key" where
  "delivery_key a = (an_sender a, an_relay a, an_correlation a, an_generation a)"

definition lane :: "node_role \<times> relay_slot \<Rightarrow> receipt_matrix \<Rightarrow> lane_counters" where
  "lane l m = (case rm_lanes m l of Some c \<Rightarrow> c | None \<Rightarrow> lane_default)"

definition lane_update ::
  "node_role \<times> relay_slot \<Rightarrow> (lane_counters \<Rightarrow> lane_counters) \<Rightarrow> receipt_matrix \<Rightarrow> receipt_matrix" where
  "lane_update l f m = m\<lparr>rm_lanes := (rm_lanes m)(l \<mapsto> f (lane l m))\<rparr>"

definition all_conserved :: "receipt_matrix \<Rightarrow> bool" where
  "all_conserved m = list_all (\<lambda>sender. list_all (\<lambda>relay. conservation_ok (lane (sender, relay) m))
     [RelayD, RelayE]) [NodeA, NodeB]"

definition lane_of :: "delivery_key \<Rightarrow> node_role \<times> relay_slot" where
  "lane_of k = (fst k, fst (snd k))"

text \<open>The loop that makes room: the oldest deliveries leave, those still open as drops.\<close>

fun evict_deliveries :: "delivery_key list \<Rightarrow> receipt_matrix \<Rightarrow> receipt_matrix" where
  "evict_deliveries [] m = m\<lparr>rm_order := []\<rparr>"
| "evict_deliveries (old # order) m =
     (if max_tracked_deliveries \<le> length (rm_deliveries m)
      then evict_deliveries order
        (let m' = m\<lparr>rm_deliveries := AList.delete old (rm_deliveries m)\<rparr> in
         case map_of (rm_deliveries m) old of
           Some state \<Rightarrow>
             if \<not> dv_terminal state
             then lane_update (lane_of old) (\<lambda>l. l\<lparr>ln_outstanding := sat_sub (ln_outstanding l) 1,
                                                ln_drop := ln_drop l + 1\<rparr>) m'
             else m'
         | None \<Rightarrow> m')
      else m\<lparr>rm_order := old # order\<rparr>)"

definition matrix_schedule :: "relay_announcement \<Rightarrow> receipt_matrix \<Rightarrow> receipt_matrix \<times> bool" where
  "matrix_schedule a m =
     (let key = delivery_key a in
      if map_of (rm_deliveries m) key \<noteq> None then (m, False)
      else let m = evict_deliveries (rm_order m) m;
               m = m\<lparr>rm_deliveries := AList.update key delivery_default (rm_deliveries m),
                     rm_order := rm_order m @ [key]\<rparr>
           in (lane_update (an_sender a, an_relay a) (\<lambda>l. l\<lparr>ln_scheduled := ln_scheduled l + 1,
                 ln_announce := ln_announce l + 1, ln_outstanding := ln_outstanding l + 1\<rparr>) m, True))"

text \<open>\<open>note_stage\<close>: the field of a stage, and the state with that field set.\<close>

definition note_stage ::
  "relay_announcement \<Rightarrow> (delivery_state \<Rightarrow> bool) \<Rightarrow> (delivery_state \<Rightarrow> delivery_state) \<Rightarrow> receipt_matrix
    \<Rightarrow> receipt_matrix \<times> bool" where
  "note_stage a seen mark m =
     (case map_of (rm_deliveries m) (delivery_key a) of
        None \<Rightarrow> (m, False)
      | Some state \<Rightarrow>
          if dv_terminal state \<or> seen state then (m, False)
          else (m\<lparr>rm_deliveries := AList.update (delivery_key a) (mark state) (rm_deliveries m)\<rparr>, True))"

definition note_pull_request :: "relay_announcement \<Rightarrow> receipt_matrix \<Rightarrow> receipt_matrix \<times> bool" where
  "note_pull_request a m =
     (case note_stage a dv_pull_request_seen (\<lambda>s. s\<lparr>dv_pull_request_seen := True\<rparr>) m of
        (m, True) \<Rightarrow> (lane_update (an_sender a, an_relay a) (\<lambda>l. l\<lparr>ln_request := ln_request l + 1\<rparr>) m, True)
      | (m, False) \<Rightarrow> (m, False))"

definition note_payload_complete :: "relay_announcement \<Rightarrow> receipt_matrix \<Rightarrow> receipt_matrix \<times> bool" where
  "note_payload_complete a m =
     (case note_stage a dv_payload_complete_seen (\<lambda>s. s\<lparr>dv_payload_complete_seen := True\<rparr>) m of
        (m, True) \<Rightarrow> (lane_update (an_sender a, an_relay a) (\<lambda>l. l\<lparr>ln_payload := ln_payload l + 1\<rparr>) m, True)
      | (m, False) \<Rightarrow> (m, False))"

definition note_application_accept :: "relay_announcement \<Rightarrow> receipt_matrix \<Rightarrow> receipt_matrix \<times> bool" where
  "note_application_accept a m =
     (case note_stage a dv_application_accept_seen (\<lambda>s. s\<lparr>dv_application_accept_seen := True\<rparr>) m of
        (m, True) \<Rightarrow> (lane_update (an_sender a, an_relay a) (\<lambda>l. l\<lparr>ln_app_accept := ln_app_accept l + 1\<rparr>) m, True)
      | (m, False) \<Rightarrow> (m, False))"

fun count_terminal :: "terminal \<Rightarrow> lane_counters \<Rightarrow> lane_counters" where
  "count_terminal (TerminalAckVerified latency_ms) l =
     l\<lparr>ln_ack_verified := ln_ack_verified l + 1, ln_latency := note_latency latency_ms (ln_latency l)\<rparr>"
| "count_terminal TerminalNegative l = l\<lparr>ln_negative := ln_negative l + 1\<rparr>"
| "count_terminal TerminalTimeout l = l\<lparr>ln_timeout := ln_timeout l + 1\<rparr>"
| "count_terminal TerminalTransport l = l\<lparr>ln_transport := ln_transport l + 1\<rparr>"
| "count_terminal TerminalDrop l = l\<lparr>ln_drop := ln_drop l + 1\<rparr>"
| "count_terminal TerminalAbnormal l = l\<lparr>ln_abnormal := ln_abnormal l + 1\<rparr>"

definition matrix_finish :: "relay_announcement \<Rightarrow> terminal \<Rightarrow> receipt_matrix \<Rightarrow> receipt_matrix \<times> bool" where
  "matrix_finish a terminal m =
     (case map_of (rm_deliveries m) (delivery_key a) of
        None \<Rightarrow> (m, False)
      | Some state \<Rightarrow>
          if dv_terminal state then (m, False)
          else (lane_update (an_sender a, an_relay a)
                  (\<lambda>l. count_terminal terminal (l\<lparr>ln_outstanding := sat_sub (ln_outstanding l) 1\<rparr>))
                  (m\<lparr>rm_deliveries := AList.update (delivery_key a) (state\<lparr>dv_terminal := True\<rparr>)
                       (rm_deliveries m)\<rparr>), True))"


section \<open>What a receipt binds\<close>

text \<open>The array fields of a receipt have the lengths of their types.\<close>

definition ack_wf :: "application_ack \<Rightarrow> bool" where
  "ack_wf a \<longleftrightarrow> length (ak_correlation a) = 16 \<and> length (ak_content_digest a) = 32 \<and> length (ak_nonce a) = 32"

lemma mode_byte_inj [simp]: "mode_byte m = mode_byte m' \<longleftrightarrow> m = m'"
  by (cases m; cases m') simp_all

lemma role_byte_inj [simp]: "role_byte r = role_byte r' \<longleftrightarrow> r = r'"
  by (cases r; cases r') simp_all

lemma relay_byte_inj [simp]: "relay_byte d = relay_byte d' \<longleftrightarrow> d = d'"
  by (cases d; cases d') simp_all

lemma ack_signing_inj:
  assumes "ack_wf a" and "ack_wf b"
  shows "ack_signing_bytes a = ack_signing_bytes b \<longleftrightarrow> a\<lparr>ak_signature := []\<rparr> = b\<lparr>ak_signature := []\<rparr>"
  using assms
  by (cases a; cases b) (auto simp: ack_signing_bytes_def ack_wf_def le_bytes_inj split: if_splits)

lemma verify_ack_Inr:
  "verify_application_ack sha256 signature_of verifies expected ack now g = (g', Inr ()) \<longleftrightarrow>
     ack\<lparr>ak_signature := replicate 64 0\<rparr> = ack_unsigned expected \<and> now \<le> ak_expires_unix_ms ack
     \<and> (\<exists>signature. signature_of (ak_signature ack) = Some signature \<and> verifies (ack_signing_bytes ack) signature)
     \<and> guard_insert (replay_token sha256 ack) (ak_expires_unix_ms ack) now g = (g', Inr ())"
  by (cases ack) (auto simp: verify_application_ack_def ack_unsigned_def not_less split: option.splits if_splits)

lemma verify_ack_Inl:
  assumes "verify_application_ack sha256 signature_of verifies expected ack now g = (g', Inl e)"
  shows "g' = g \<or> guard_insert (replay_token sha256 ack) (ak_expires_unix_ms ack) now g = (g', Inl e)"
  using assms by (auto simp: verify_application_ack_def split: option.splits if_splits)

lemma receive_Inr:
  "receive_validate_accept_and_sign sha256 accept sign announcement block now st = (st', Inr ack) \<longleftrightarrow>
     an_protocol_version announcement = relay_protocol_version \<and> now \<le> an_expires_unix_ms announcement
     \<and> sha256 block = an_content_digest announcement \<and> accept block st = (st', Inr ())
     \<and> ack = (ack_unsigned announcement)\<lparr>ak_signature := sign (ack_signing_bytes (ack_unsigned announcement))\<rparr>"
  by (auto simp: receive_validate_accept_and_sign_def Let_def not_less split: prod.splits sum.splits)

lemma signing_ignores_signature [simp]: "ack_signing_bytes (a\<lparr>ak_signature := s\<rparr>) = ack_signing_bytes a"
  by (simp add: ack_signing_bytes_def)

section \<open>The replay guard\<close>

definition guard_inv :: "replay_guard \<Rightarrow> bool" where
  "guard_inv g \<longleftrightarrow> distinct (map fst (rg_seen g)) \<and> distinct (rg_order g)
     \<and> set (rg_order g) = fst ` set (rg_seen g) \<and> length (rg_seen g) \<le> max_replay_tokens"

definition token_live :: "u64 \<Rightarrow> (bytes \<times> u64) list \<Rightarrow> bytes \<Rightarrow> bool" where
  "token_live now seen t = (case map_of seen t of Some expiry \<Rightarrow> now \<le> expiry | None \<Rightarrow> False)"

lemma length_delete_le: "length (AList.delete k al) \<le> length al"
  by (simp add: AList.delete_eq)

lemma sweep_guard_spec:
  assumes "sweep_guard now order seen = (active, seen')" and "distinct order"
  shows "active = filter (token_live now seen) order"
    and "map_of seen' t = (if t \<in> set order \<and> \<not> token_live now seen t then None else map_of seen t)"
    and "distinct (map fst seen) \<Longrightarrow> distinct (map fst seen')" and "length seen' \<le> length seen"
proof -
  have "active = filter (token_live now seen) order
      \<and> (\<forall>t. map_of seen' t = (if t \<in> set order \<and> \<not> token_live now seen t then None else map_of seen t))
      \<and> (distinct (map fst seen) \<longrightarrow> distinct (map fst seen')) \<and> length seen' \<le> length seen"
    using assms
  proof (induction now order seen arbitrary: active rule: sweep_guard.induct)
    case (1 now seen)
    then show ?case by simp
  next
    case (2 now existing order seen)
    show ?case
    proof (cases "token_live now seen existing")
      case True
      then obtain rest where "sweep_guard now order seen = (rest, seen')" "active = existing # rest"
        using 2(3) by (auto simp: token_live_def split: prod.splits)
      with 2(1) [of rest] True 2(4) show ?thesis by (auto simp: token_live_def [symmetric])
    next
      case False
      let ?seen = "AList.delete existing seen"
      have "sweep_guard now order ?seen = (active, seen')" using 2(3) False by (simp add: token_live_def)
      with 2(2) [of active] False 2(4)
      have IH: "active = filter (token_live now ?seen) order"
        "\<And>t. map_of seen' t = (if t \<in> set order \<and> \<not> token_live now ?seen t then None else map_of ?seen t)"
        "distinct (map fst ?seen) \<Longrightarrow> distinct (map fst seen')" "length seen' \<le> length ?seen"
        by (simp_all add: token_live_def [symmetric])
      have live: "token_live now ?seen t = token_live now seen t" if "t \<noteq> existing" for t
        using that by (simp add: token_live_def AList.delete_conv)
      have "active = filter (token_live now seen) order"
        unfolding IH(1) by (rule filter_cong [OF refl]) (metis 2(4) distinct.simps(2) live)
      moreover have "map_of seen' t = (if t \<in> set (existing # order) \<and> \<not> token_live now seen t then None else map_of seen t)" for t
        using False 2(4) live [of t] by (auto simp: IH(2) AList.delete_conv token_live_def)
      moreover have "length seen' \<le> length seen"
        using IH(4) length_delete_le [of existing seen] by linarith
      ultimately show ?thesis
        using False IH(3) AList.distinct_delete [of seen existing] by simp
    qed
  qed
  then show "active = filter (token_live now seen) order"
    and "map_of seen' t = (if t \<in> set order \<and> \<not> token_live now seen t then None else map_of seen t)"
    and "distinct (map fst seen) \<Longrightarrow> distinct (map fst seen')" and "length seen' \<le> length seen"
    by blast+
qed

lemma map_of_swept:
  assumes "guard_inv g" and "sweep_guard now (rg_order g) (rg_seen g) = (active, seen)"
  shows "map_of seen t = (if token_live now (rg_seen g) t then map_of (rg_seen g) t else None)"
    and "guard_inv \<lparr>rg_seen = seen, rg_order = active\<rparr>"
proof -
  have d: "distinct (rg_order g)" and keys: "set (rg_order g) = fst ` set (rg_seen g)"
    using assms(1) by (simp_all add: guard_inv_def)
  note spec = sweep_guard_spec [OF assms(2) d]
  show get: "map_of seen t = (if token_live now (rg_seen g) t then map_of (rg_seen g) t else None)" for t
    using map_of_eq_None_iff [of "rg_seen g" t]
    unfolding spec(2) keys by (cases "map_of (rg_seen g) t") (simp_all add: token_live_def)
  have "fst ` set seen = set active"
  proof (intro set_eqI iffI)
    fix t
    assume "t \<in> fst ` set seen"
    then have "map_of seen t \<noteq> None" by (simp add: map_of_eq_None_iff)
    then have "token_live now (rg_seen g) t" "map_of (rg_seen g) t \<noteq> None" using get [of t] by (simp_all split: if_splits)
    then show "t \<in> set active" by (simp add: spec(1) keys map_of_eq_None_iff)
  next
    fix t
    assume "t \<in> set active"
    then have "token_live now (rg_seen g) t" "map_of (rg_seen g) t \<noteq> None"
      by (auto simp: spec(1) keys map_of_eq_None_iff)
    then have "map_of seen t \<noteq> None" using get [of t] by simp
    then show "t \<in> fst ` set seen" by (simp add: map_of_eq_None_iff)
  qed
  with assms(1) spec d show "guard_inv \<lparr>rg_seen = seen, rg_order = active\<rparr>"
    by (auto simp: guard_inv_def)
qed

lemma length_update: "length (AList.update k v al) = (if k \<in> fst ` set al then length al else Suc (length al))"
  by (induction al) auto

lemma guard_insert_Inr:
  assumes "guard_inv g" and "guard_insert token expires now g = (g', Inr ())"
  shows "guard_inv g'" and "\<not> token_live now (rg_seen g) token"
    and "map_of (rg_seen g') t = (if t = token then Some expires
      else if token_live now (rg_seen g) t then map_of (rg_seen g) t else None)"
proof -
  obtain active seen where sweep: "sweep_guard now (rg_order g) (rg_seen g) = (active, seen)" by fastforce
  note swept = map_of_swept [OF assms(1) sweep]
  have g': "g' = \<lparr>rg_seen = AList.update token expires seen, rg_order = active @ [token]\<rparr>"
    and new: "map_of seen token = None" and room: "length seen < max_replay_tokens"
    using assms(2) sweep by (auto simp: guard_insert_def split: if_splits)
  have "token \<notin> fst ` set seen" using new by (simp add: map_of_eq_None_iff)
  with swept(2) room show "guard_inv g'"
    by (auto simp: g' guard_inv_def AList.distinct_update length_update AList.dom_update)
  show "\<not> token_live now (rg_seen g) token"
    using new swept(1) [of token] by (auto simp: token_live_def split: option.splits)
  show "map_of (rg_seen g') t = (if t = token then Some expires
      else if token_live now (rg_seen g) t then map_of (rg_seen g) t else None)"
    using swept(1) [of t] by (simp add: g' AList.update_conv)
qed

lemma guard_insert_Inl:
  assumes "guard_inv g" and "guard_insert token expires now g = (g', Inl e)"
  shows "guard_inv g'"
    and "map_of (rg_seen g') t = (if token_live now (rg_seen g) t then map_of (rg_seen g) t else None)"
proof -
  obtain active seen where sweep: "sweep_guard now (rg_order g) (rg_seen g) = (active, seen)" by fastforce
  have "g' = \<lparr>rg_seen = seen, rg_order = active\<rparr>"
    using assms(2) sweep by (auto simp: guard_insert_def split: if_splits)
  then show "guard_inv g'"
    and "map_of (rg_seen g') t = (if token_live now (rg_seen g) t then map_of (rg_seen g) t else None)"
    using map_of_swept [OF assms(1) sweep] by simp_all
qed

text \<open>Receipts that arrive one after the other, with what each is expected to answer and the clock.\<close>

fun verify_run ::
  "(bytes \<Rightarrow> bytes) \<Rightarrow> (bytes \<Rightarrow> 'sig option) \<Rightarrow> (bytes \<Rightarrow> 'sig \<Rightarrow> bool)
    \<Rightarrow> (relay_announcement \<times> application_ack \<times> u64) list \<Rightarrow> replay_guard \<Rightarrow> replay_guard \<times> application_ack list" where
  "verify_run sha256 signature_of verifies [] g = (g, [])"
| "verify_run sha256 signature_of verifies ((expected, ack, now) # es) g =
     (let (g', answer) = verify_application_ack sha256 signature_of verifies expected ack now g;
          (g'', acks) = verify_run sha256 signature_of verifies es g'
      in (g'', case answer of Inr _ \<Rightarrow> ack # acks | Inl _ \<Rightarrow> acks))"

text \<open>The tokens of the receipts \<open>A\<close> are remembered as long as they could be accepted again.\<close>

definition remembers :: "(bytes \<Rightarrow> bytes) \<Rightarrow> u64 \<Rightarrow> application_ack set \<Rightarrow> replay_guard \<Rightarrow> bool" where
  "remembers sha256 now A g \<longleftrightarrow> (\<forall>a \<in> A. now \<le> ak_expires_unix_ms a
     \<longrightarrow> map_of (rg_seen g) (replay_token sha256 a) = Some (ak_expires_unix_ms a))"

lemma remembers_later: "remembers sha256 now A g \<Longrightarrow> now \<le> now' \<Longrightarrow> remembers sha256 now' A g"
  unfolding remembers_def by (meson order_trans)

lemma verify_step:
  assumes "guard_inv g" and "remembers sha256 now A g"
    and "verify_application_ack sha256 signature_of verifies expected ack now g = (g', answer)"
  shows "guard_inv g'"
    and "remembers sha256 now (case answer of Inr _ \<Rightarrow> insert ack A | Inl _ \<Rightarrow> A) g'"
    and "answer = Inr () \<Longrightarrow> a \<in> A \<Longrightarrow> ack_wf a \<Longrightarrow> ack_wf ack \<Longrightarrow> ack_signing_bytes a \<noteq> ack_signing_bytes ack"
proof -
  have live: "token_live now (rg_seen g) (replay_token sha256 a)"
      "map_of (rg_seen g) (replay_token sha256 a) = Some (ak_expires_unix_ms a)"
    if "a \<in> A" "now \<le> ak_expires_unix_ms a" for a
    using assms(2) that by (simp_all add: remembers_def token_live_def)
  have "guard_inv g' \<and> remembers sha256 now (case answer of Inr _ \<Rightarrow> insert ack A | Inl _ \<Rightarrow> A) g'"
  proof (cases answer)
    case (Inl e)
    show ?thesis
      using verify_ack_Inl [OF assms(3) [unfolded Inl]]
    proof
      assume "g' = g"
      then show ?thesis using assms(1,2) Inl by simp
    next
      assume "guard_insert (replay_token sha256 ack) (ak_expires_unix_ms ack) now g = (g', Inl e)"
      note guard_insert_Inl [OF assms(1) this]
      then show ?thesis using live Inl by (simp add: remembers_def)
    qed
  next
    case (Inr u)
    then have "guard_insert (replay_token sha256 ack) (ak_expires_unix_ms ack) now g = (g', Inr ())"
      using assms(3) by (simp add: verify_ack_Inr)
    note inserted = guard_insert_Inr [OF assms(1) this]
    have "map_of (rg_seen g') (replay_token sha256 a) = Some (ak_expires_unix_ms a)"
      if "a \<in> A" "now \<le> ak_expires_unix_ms a" for a
      using inserted(2) inserted(3) [of "replay_token sha256 a"] live [OF that] by auto
    then show ?thesis using inserted(1) inserted(3) Inr by (simp add: remembers_def)
  qed
  then show "guard_inv g'" "remembers sha256 now (case answer of Inr _ \<Rightarrow> insert ack A | Inl _ \<Rightarrow> A) g'"
    by blast+
  show "ack_signing_bytes a \<noteq> ack_signing_bytes ack"
    if "answer = Inr ()" "a \<in> A" "ack_wf a" "ack_wf ack"
  proof
    assume eq: "ack_signing_bytes a = ack_signing_bytes ack"
    then have "ak_expires_unix_ms a = ak_expires_unix_ms ack"
      using ack_signing_inj [OF that(3,4)] by (metis application_ack.select_convs(9) application_ack.surjective application_ack.update_convs(12))
    moreover have "replay_token sha256 a = replay_token sha256 ack" using eq by (simp add: replay_token_def)
    moreover have "now \<le> ak_expires_unix_ms ack"
        "guard_insert (replay_token sha256 ack) (ak_expires_unix_ms ack) now g = (g', Inr ())"
      using assms(3) that(1) by (simp_all add: verify_ack_Inr)
    ultimately show False
      using live(1) [OF that(2)] guard_insert_Inr(2) [OF assms(1)] by auto
  qed
qed

lemma verify_run_fresh:
  assumes "guard_inv g" and "remembers sha256 t A g" and "\<forall>a \<in> A. ack_wf a"
    and "sorted (t # map (snd \<circ> snd) es)" and "\<forall>(expected, ack, now) \<in> set es. ack_wf ack"
    and "verify_run sha256 signature_of verifies es g = (g', acks)"
  shows "distinct (map ack_signing_bytes acks) \<and> guard_inv g'
    \<and> ack_signing_bytes ` A \<inter> ack_signing_bytes ` set acks = {} \<and> (\<forall>a \<in> set acks. ack_wf a)"
  using assms
proof (induction es arbitrary: g t A acks)
  case Nil
  then show ?case by simp
next
  case (Cons e es)
  obtain expected ack now where e: "e = (expected, ack, now)" by (cases e)
  obtain g1 answer where step: "verify_application_ack sha256 signature_of verifies expected ack now g = (g1, answer)"
    by fastforce
  obtain acks1 where run: "verify_run sha256 signature_of verifies es g1 = (g', acks1)"
    and acks: "acks = (case answer of Inr _ \<Rightarrow> ack # acks1 | Inl _ \<Rightarrow> acks1)"
    using Cons.prems(6) step by (auto simp: e split: prod.splits)
  have now: "t \<le> now" "sorted (now # map (snd \<circ> snd) es)" using Cons.prems(4) by (auto simp: e comp_def)
  note stepped = verify_step [OF Cons.prems(1) remembers_later [OF Cons.prems(2) now(1)] step]
  let ?A = "case answer of Inr _ \<Rightarrow> insert ack A | Inl _ \<Rightarrow> A"
  have wf: "ack_wf ack" "\<forall>a \<in> ?A. ack_wf a" "\<forall>(expected, ack, now) \<in> set es. ack_wf ack"
    using Cons.prems(3,5) by (auto simp: e split: sum.splits)
  have IH: "distinct (map ack_signing_bytes acks1) \<and> guard_inv g'
    \<and> ack_signing_bytes ` ?A \<inter> ack_signing_bytes ` set acks1 = {} \<and> (\<forall>a \<in> set acks1. ack_wf a)"
    by (rule Cons.IH [OF stepped(1,2) wf(2) now(2) wf(3) run])
  show ?case
  proof (cases answer)
    case (Inl err)
    then show ?thesis using IH acks by simp
  next
    case (Inr u)
    then have "ack_signing_bytes ack \<notin> ack_signing_bytes ` A"
      using stepped(3) Cons.prems(3) wf(1) by (auto simp: image_iff) metis
    then show ?thesis using IH acks Inr wf(1) by auto
  qed
qed

section \<open>What holds of receipts\<close>

text \<open>
  A relay at work: its routine is called with announcements, the bytes it got for them and the time it
  got them; the log has each call with the state of the application before it and the answer.
\<close>

type_synonym 's relay_call = "relay_announcement \<times> bytes \<times> u64 \<times> 's \<times> (receiver_error + application_ack)"

fun relay_log ::
  "(bytes \<Rightarrow> bytes) \<Rightarrow> (bytes \<Rightarrow> 's \<Rightarrow> 's \<times> (receiver_error + unit)) \<Rightarrow> (bytes \<Rightarrow> bytes)
    \<Rightarrow> (relay_announcement \<times> bytes \<times> u64) list \<Rightarrow> 's \<Rightarrow> 's relay_call list" where
  "relay_log sha256 accept sign [] st = []"
| "relay_log sha256 accept sign ((announcement, block, received) # calls) st =
     (let (st', answer) = receive_validate_accept_and_sign sha256 accept sign announcement block received st
      in (announcement, block, received, st, answer) # relay_log sha256 accept sign calls st')"

definition signed_in :: "'s relay_call list \<Rightarrow> bytes set" where
  "signed_in calls = {ack_signing_bytes issued | announcement block received st issued.
     (announcement, block, received, st, Inr issued) \<in> set calls}"

text \<open>The array fields of an announcement have the lengths of their types.\<close>

definition announcement_wf :: "relay_announcement \<Rightarrow> bool" where
  "announcement_wf a \<longleftrightarrow> length (an_correlation a) = 16 \<and> length (an_content_digest a) = 32 \<and> length (an_nonce a) = 32"

lemma relay_log_call:
  "(announcement, block, received, st, answer) \<in> set (relay_log sha256 accept sign calls st0) \<Longrightarrow>
     (announcement, block, received) \<in> set calls
     \<and> snd (receive_validate_accept_and_sign sha256 accept sign announcement block received st) = answer"
  by (induction sha256 accept sign calls st0 rule: relay_log.induct) (auto split: prod.splits dest: arg_cong [where f = snd])

text \<open>
  C24. A receipt certifies acceptance. Take any run of a relay, and a receipt that was not forged: if its
  signature verifies, what it signs was signed by the relay's routine in that run. Then a receipt
  that verifies for an announcement stands for a call of this run, for the same relay, correlation,
  generation and nonce, whose block has the announced digest, was accepted by the application in the state
  of that call, and was received, by the clock of that call, no later than the announced expiry.
\<close>

theorem relay_ack_certifies:
  assumes "verify_application_ack sha256 signature_of verifies expected ack now g = (g', Inr ())"
    and unforged: "\<And>signature. signature_of (ak_signature ack) = Some signature \<Longrightarrow> verifies (ack_signing_bytes ack) signature
      \<Longrightarrow> ack_signing_bytes ack \<in> signed_in (relay_log sha256 accept sign calls st0)"
    and "ack_wf ack" and wf: "\<forall>(announcement, block, received) \<in> set calls. announcement_wf announcement"
  shows "\<exists>(announcement, block, received, st, answer) \<in> set (relay_log sha256 accept sign calls st0).
    an_relay announcement = an_relay expected \<and> an_correlation announcement = an_correlation expected
    \<and> an_generation announcement = an_generation expected \<and> an_nonce announcement = an_nonce expected
    \<and> sha256 block = an_content_digest expected \<and> snd (accept block st) = Inr ()
    \<and> received \<le> an_expires_unix_ms expected"
proof -
  obtain signature where verified: "signature_of (ak_signature ack) = Some signature" "verifies (ack_signing_bytes ack) signature"
    and ack: "ack\<lparr>ak_signature := replicate 64 0\<rparr> = ack_unsigned expected"
    using assms(1) unfolding verify_ack_Inr by blast
  obtain announcement block received st issued where
    call: "(announcement, block, received, st, Inr issued) \<in> set (relay_log sha256 accept sign calls st0)"
    and bytes: "ack_signing_bytes issued = ack_signing_bytes ack"
    using unforged [OF verified] unfolding signed_in_def by force
  have known: "(announcement, block, received) \<in> set calls" using relay_log_call [OF call] by blast
  obtain st' where "receive_validate_accept_and_sign sha256 accept sign announcement block received st = (st', Inr issued)"
    using relay_log_call [OF call] by (metis prod.collapse)
  note got = this [unfolded receive_Inr]
  have "ack_wf issued" using wf known got by (auto simp: ack_wf_def announcement_wf_def ack_unsigned_def)
  then have "issued\<lparr>ak_signature := []\<rparr> = ack\<lparr>ak_signature := []\<rparr>"
    using ack_signing_inj [OF _ assms(3)] bytes by simp
  moreover have "issued\<lparr>ak_signature := []\<rparr> = (ack_unsigned announcement)\<lparr>ak_signature := []\<rparr>"
    using got by simp
  moreover have "ack\<lparr>ak_signature := []\<rparr> = (ack_unsigned expected)\<lparr>ak_signature := []\<rparr>"
    by (simp flip: ack)
  ultimately have "an_relay announcement = an_relay expected \<and> an_correlation announcement = an_correlation expected
      \<and> an_generation announcement = an_generation expected \<and> an_nonce announcement = an_nonce expected
      \<and> an_content_digest announcement = an_content_digest expected
      \<and> an_expires_unix_ms announcement = an_expires_unix_ms expected"
    by (simp add: ack_unsigned_def)
  then show ?thesis using got by (intro bexI [OF _ call]) simp
qed

text \<open>
  C25. No receipt counts twice: however receipts arrive, as long as the clock does not run backwards,
  those that verify are pairwise different in what they sign, although the guard forgets tokens; and
  it never holds more than its 1024 tokens.
\<close>

theorem relay_replay_rejected:
  assumes "sorted (map (snd \<circ> snd) es)" and "\<forall>(expected, ack, now) \<in> set es. ack_wf ack"
    and "verify_run sha256 signature_of verifies es empty_guard = (g', acks)"
  shows "distinct (map ack_signing_bytes acks) \<and> length (rg_seen g') \<le> max_replay_tokens"
proof -
  have "guard_inv empty_guard" "remembers sha256 0 {} empty_guard"
    by (simp_all add: guard_inv_def empty_guard_def remembers_def)
  moreover have "sorted (0 # map (snd \<circ> snd) es)" using assms(1) by simp
  ultimately show ?thesis
    using verify_run_fresh [of empty_guard sha256 0 "{}" es signature_of verifies g' acks] assms(2,3)
    by (simp add: guard_inv_def)
qed

definition sample_announcement :: relay_announcement where
  "sample_announcement = announcement_new (\<lambda>_. replicate 32 0) AnnounceThenPull NodeA RelayD
     (replicate 16 1) 1 (map of_char ''block'') (replicate 32 2) 20000"

definition sample_acceptor :: "bytes \<Rightarrow> unit \<Rightarrow> unit \<times> (receiver_error + unit)" where
  "sample_acceptor block st = (st, if length block < 4 then Inl StructuralValidation else Inr ())"

definition sample_ack :: application_ack where
  "sample_ack = (ack_unsigned sample_announcement)\<lparr>ak_signature := replicate 64 7\<rparr>"

lemma sample_ack_verifies:
  "\<exists>g. verify_application_ack (\<lambda>_. replicate 32 0) Some
     (\<lambda>message signature. message = ack_signing_bytes sample_ack \<and> signature = replicate 64 7)
     sample_announcement sample_ack 10000 empty_guard = (g, Inr ())"
  by (simp add: verify_application_ack_def sample_ack_def ack_unsigned_def sample_announcement_def announcement_new_def
      guard_insert_def empty_guard_def max_replay_tokens_def)

lemma sample_ack_wf: "ack_wf sample_ack"
  by (simp add: ack_wf_def sample_ack_def ack_unsigned_def sample_announcement_def announcement_new_def)

definition sample_call :: "relay_announcement \<times> bytes \<times> u64" where
  "sample_call = (sample_announcement, map of_char ''block'', 9000)"

lemma sample_log:
  "relay_log (\<lambda>_. replicate 32 0) sample_acceptor (\<lambda>_. replicate 64 7) [sample_call] () =
     [(sample_announcement, map of_char ''block'', 9000, (), Inr sample_ack)]"
proof -
  have "receive_validate_accept_and_sign (\<lambda>_. replicate 32 0) sample_acceptor (\<lambda>_. replicate 64 7)
      sample_announcement (map of_char ''block'') 9000 () = ((), Inr sample_ack)"
    by (simp add: receive_Inr sample_ack_def sample_announcement_def announcement_new_def sample_acceptor_def)
  then show ?thesis by (simp add: sample_call_def)
qed

theorem relay_ack_certifies_witness:
  "\<exists>(announcement, block, received, st, answer) \<in> set [(sample_announcement, map of_char ''block'', 9000 :: u64, (),
       Inr sample_ack :: receiver_error + application_ack)].
    replicate 32 0 = an_content_digest sample_announcement \<and> snd (sample_acceptor block st) = Inr ()
    \<and> received \<le> an_expires_unix_ms sample_announcement"
proof -
  obtain g where g: "verify_application_ack (\<lambda>_. replicate 32 0) Some
     (\<lambda>message signature. message = ack_signing_bytes sample_ack \<and> signature = replicate 64 7)
     sample_announcement sample_ack 10000 empty_guard = (g, Inr ())"
    using sample_ack_verifies by blast
  have "announcement_wf sample_announcement"
    by (simp add: announcement_wf_def sample_announcement_def announcement_new_def)
  then have wf: "\<forall>(announcement, block, received) \<in> set [sample_call]. announcement_wf announcement"
    by (simp add: sample_call_def)
  have "ack_signing_bytes sample_ack
      \<in> signed_in (relay_log (\<lambda>_. replicate 32 0) sample_acceptor (\<lambda>_. replicate 64 7) [sample_call] ())"
    by (simp add: sample_log signed_in_def)
  from relay_ack_certifies [OF g this sample_ack_wf wf] show ?thesis unfolding sample_log by auto
qed

theorem relay_replay_rejected_witness:
  "length (snd (verify_run (\<lambda>_. replicate 32 0) Some
      (\<lambda>message signature. message = ack_signing_bytes sample_ack \<and> signature = replicate 64 7)
      [(sample_announcement, sample_ack, 10000), (sample_announcement, sample_ack, 10001)] empty_guard)) \<le> 1"
proof -
  let ?V = "\<lambda>message signature. message = ack_signing_bytes sample_ack \<and> signature = replicate 64 (7 :: u8)"
  let ?es = "[(sample_announcement, sample_ack, 10000 :: u64), (sample_announcement, sample_ack, 10001)]"
  obtain g acks where run: "verify_run (\<lambda>_. replicate 32 0) Some ?V ?es empty_guard = (g, acks)" by fastforce
  have "distinct (map ack_signing_bytes acks)"
    using relay_replay_rejected [OF _ _ run] sample_ack_wf by simp
  moreover have "set acks \<subseteq> {sample_ack}"
    using run by (auto split: prod.splits sum.splits)
  ultimately show ?thesis
    unfolding run using distinct_length_2_or_more by (cases acks rule: remdups_adj.cases) auto
qed

section \<open>The matrix is conserved\<close>

lemma alist_sum_delete:
  "distinct (map fst al) \<Longrightarrow> sum_list (map f al)
     = sum_list (map f (AList.delete k al)) + (case map_of al k of None \<Rightarrow> 0 | Some v \<Rightarrow> f (k, v))"
  for f :: "_ \<Rightarrow> nat"
proof (induction al)
  case (Cons e al)
  obtain k' v' where e: "e = (k', v')" by (cases e)
  show ?case
  proof (cases "k = k'")
    case True
    then have "k \<notin> fst ` set al" using Cons.prems by (simp add: e)
    then show ?thesis using True by (simp add: e AList.delete_idem)
  next
    case False
    then show ?thesis using Cons by (simp add: e)
  qed
qed simp

lemma alist_sum_update:
  "distinct (map fst al) \<Longrightarrow> sum_list (map f (AList.update k v al))
     + (case map_of al k of None \<Rightarrow> 0 | Some v' \<Rightarrow> f (k, v')) = sum_list (map f al) + f (k, v)"
  for f :: "_ \<Rightarrow> nat"
  by (induction al) (auto split: option.splits)

lemma length_delete:
  "distinct (map fst al) \<Longrightarrow> length al = length (AList.delete k al) + (if map_of al k = None then 0 else 1)"
  using alist_sum_delete [of al "\<lambda>_. 1" k] by (cases "map_of al k") (simp_all add: sum_list_triv)

text \<open>The tracked deliveries of a lane that satisfy \<open>P\<close>.\<close>

definition tracked :: "(delivery_state \<Rightarrow> bool) \<Rightarrow> node_role \<times> relay_slot \<Rightarrow> receipt_matrix \<Rightarrow> nat" where
  "tracked P l m = sum_list (map (\<lambda>d. of_bool (lane_of (fst d) = l \<and> P (snd d))) (rm_deliveries m))"

abbreviation outstanding :: "node_role \<times> relay_slot \<Rightarrow> receipt_matrix \<Rightarrow> nat" where
  "outstanding \<equiv> tracked (\<lambda>s. \<not> dv_terminal s)"

definition stage_ok ::
  "(lane_counters \<Rightarrow> u64) \<Rightarrow> (delivery_state \<Rightarrow> bool) \<Rightarrow> node_role \<times> relay_slot \<Rightarrow> receipt_matrix \<Rightarrow> bool" where
  "stage_ok counted seen l m \<longleftrightarrow>
     unat (counted (lane l m)) + tracked (\<lambda>s. \<not> seen s) l m \<le> unat (ln_scheduled (lane l m))"

definition lane_ok :: "nat \<Rightarrow> receipt_matrix \<Rightarrow> node_role \<times> relay_slot \<Rightarrow> bool" where
  "lane_ok n m l \<longleftrightarrow> conservation_ok (lane l m) \<and> unat (ln_outstanding (lane l m)) = outstanding l m
     \<and> unat (ln_scheduled (lane l m)) \<le> n
     \<and> stage_ok ln_request dv_pull_request_seen l m \<and> stage_ok ln_payload dv_payload_complete_seen l m
     \<and> stage_ok ln_app_accept dv_application_accept_seen l m"

definition matrix_ok :: "nat \<Rightarrow> receipt_matrix \<Rightarrow> bool" where
  "matrix_ok n m \<longleftrightarrow> distinct (map fst (rm_deliveries m)) \<and> distinct (rm_order m)
     \<and> set (rm_order m) = fst ` set (rm_deliveries m) \<and> length (rm_deliveries m) \<le> max_tracked_deliveries
     \<and> (\<forall>l. lane_ok n m l)"

lemma lane_tables [simp]: "lane l (rm_deliveries_update f m) = lane l m" "lane l (rm_order_update g m) = lane l m"
  by (simp_all add: lane_def)

lemma lane_lane_update [simp]: "lane l (lane_update l' f m) = (if l = l' then f (lane l m) else lane l m)"
  by (simp add: lane_def lane_update_def)

lemma lane_update_tables [simp]:
  "rm_deliveries (lane_update l f m) = rm_deliveries m" "rm_order (lane_update l f m) = rm_order m"
  by (simp_all add: lane_update_def)

lemma tracked_cong: "rm_deliveries m = rm_deliveries m' \<Longrightarrow> tracked P l m = tracked P l m'"
  by (simp add: tracked_def)

lemma lane_of_delivery_key [simp]: "lane_of (delivery_key a) = (an_sender a, an_relay a)"
  by (simp add: lane_of_def delivery_key_def)

lemma tracked_delete:
  assumes "distinct (map fst (rm_deliveries m))" and "rm_deliveries m' = AList.delete k (rm_deliveries m)"
  shows "tracked P l m = tracked P l m'
    + (case map_of (rm_deliveries m) k of None \<Rightarrow> 0 | Some s \<Rightarrow> of_bool (lane_of k = l \<and> P s))"
  unfolding tracked_def assms(2)
  using alist_sum_delete [OF assms(1), of "\<lambda>d. of_bool (lane_of (fst d) = l \<and> P (snd d))" k]
  by (simp only: fst_conv snd_conv)

lemma tracked_update:
  assumes "distinct (map fst (rm_deliveries m))" and "rm_deliveries m' = AList.update k s (rm_deliveries m)"
  shows "tracked P l m' + (case map_of (rm_deliveries m) k of None \<Rightarrow> 0 | Some s' \<Rightarrow> of_bool (lane_of k = l \<and> P s'))
    = tracked P l m + of_bool (lane_of k = l \<and> P s)"
  unfolding tracked_def assms(2)
  using alist_sum_update [OF assms(1), of "\<lambda>d. of_bool (lane_of (fst d) = l \<and> P (snd d))" k s]
  by (simp only: fst_conv snd_conv)

lemma tracked_le: "tracked P l m \<le> length (rm_deliveries m)"
proof -
  have "sum_list (map (\<lambda>d. of_bool (lane_of (fst d) = l \<and> P (snd d))) al) \<le> length al" for al :: "(delivery_key \<times> delivery_state) list"
    by (induction al) auto
  then show ?thesis by (simp add: tracked_def)
qed

lemma count_terminal_fields [simp]:
  "ln_scheduled (count_terminal t l) = ln_scheduled l" "ln_outstanding (count_terminal t l) = ln_outstanding l"
  "ln_request (count_terminal t l) = ln_request l" "ln_payload (count_terminal t l) = ln_payload l"
  "ln_app_accept (count_terminal t l) = ln_app_accept l"
  by (cases t; simp)+

lemma close_conserves:
  assumes "conservation_ok l" and "0 < unat (ln_outstanding l)"
  shows "conservation_ok (count_terminal t (l\<lparr>ln_outstanding := sat_sub (ln_outstanding l) 1\<rparr>))"
proof -
  have "sat_sub (ln_outstanding l) 1 = ln_outstanding l - 1"
    using assms(2) by (simp add: sat_sub_def word_le_nat_alt)
  then show ?thesis using assms(1) by (cases t) (simp_all add: conservation_ok_def)
qed

text \<open>A delivery that is open ends, and stays tracked or leaves.\<close>

lemma lane_ok_close:
  assumes ok: "lane_ok n m l" and lane: "lane l m' = (if l = l' then count_terminal t ((lane l m)\<lparr>ln_outstanding :=
      sat_sub (ln_outstanding (lane l m)) 1\<rparr>) else lane l m)"
    and out: "outstanding l m = outstanding l m' + of_bool (l = l')"
    and less: "\<And>P. P \<in> {\<lambda>s. \<not> dv_pull_request_seen s, \<lambda>s. \<not> dv_payload_complete_seen s,
      \<lambda>s. \<not> dv_application_accept_seen s} \<Longrightarrow> tracked P l m' \<le> tracked P l m"
  shows "lane_ok n m' l"
proof -
  note le = less [of "\<lambda>s. \<not> dv_pull_request_seen s"] less [of "\<lambda>s. \<not> dv_payload_complete_seen s"]
    less [of "\<lambda>s. \<not> dv_application_accept_seen s"]
  show ?thesis
  proof (cases "l = l'")
    case True
    then have "0 < unat (ln_outstanding (lane l m))" using ok out by (simp add: lane_ok_def)
    then show ?thesis
      using ok out le True lane close_conserves [of "lane l m" t]
      by (simp add: lane_ok_def stage_ok_def unat_sat_sub)
  next
    case False
    then show ?thesis using ok out le lane by (simp add: lane_ok_def stage_ok_def)
  qed
qed

lemma matrix_okD:
  "matrix_ok n m \<Longrightarrow> distinct (map fst (rm_deliveries m))" "matrix_ok n m \<Longrightarrow> lane_ok n m l"
  unfolding matrix_ok_def by blast+

lemma evict_one:
  assumes "matrix_ok n (m\<lparr>rm_order := old # order\<rparr>)" and "map_of (rm_deliveries m) old = Some s"
    and "m' = m\<lparr>rm_deliveries := AList.delete old (rm_deliveries m)\<rparr>"
  shows "matrix_ok n ((if \<not> dv_terminal s then lane_update (lane_of old)
      (\<lambda>l. l\<lparr>ln_outstanding := sat_sub (ln_outstanding l) 1, ln_drop := ln_drop l + 1\<rparr>) m' else m')\<lparr>rm_order := order\<rparr>)"
    (is "matrix_ok n ?m")
proof -
  have d: "distinct (map fst (rm_deliveries (m\<lparr>rm_order := old # order\<rparr>)))" using assms(1) by (rule matrix_okD)
  have del: "rm_deliveries ?m = AList.delete old (rm_deliveries (m\<lparr>rm_order := old # order\<rparr>))"
    by (simp add: assms(3))
  note track = tracked_delete [OF d del, simplified, unfolded assms(2), simplified]
  have "lane_ok n ?m l" for l
  proof (cases "dv_terminal s")
    case True
    then show ?thesis
      using matrix_okD(2) [OF assms(1), of l] track [of _ l]
      by (fastforce simp: lane_ok_def stage_ok_def assms(3))
  next
    case False
    show ?thesis
      by (rule lane_ok_close [OF matrix_okD(2) [OF assms(1), of l], where l' = "lane_of old" and t = TerminalDrop])
        (use False track [of _ l] in \<open>auto simp: assms(3)\<close>)
  qed
  moreover have "length (AList.delete old (rm_deliveries m)) \<le> length (rm_deliveries m)" by (rule length_delete_le)
  moreover have "fst ` set (AList.delete old (rm_deliveries m)) = fst ` set (rm_deliveries m) - {old}"
    by (auto simp: AList.delete_eq)
  ultimately show ?thesis
    using assms(1,3) by (auto simp: matrix_ok_def AList.distinct_delete)
qed

lemma evict_ok:
  assumes "matrix_ok n (m\<lparr>rm_order := order\<rparr>)"
  shows "matrix_ok n (evict_deliveries order m) \<and> length (rm_deliveries (evict_deliveries order m)) < max_tracked_deliveries
    \<and> (map_of (rm_deliveries m) k = None \<longrightarrow> map_of (rm_deliveries (evict_deliveries order m)) k = None)"
  using assms
proof (induction order m rule: evict_deliveries.induct)
  case (1 m)
  then show ?case by (simp add: matrix_ok_def max_tracked_deliveries_def)
next
  case (2 old order m)
  show ?case
  proof (cases "max_tracked_deliveries \<le> length (rm_deliveries m)")
    case True
    have "old \<in> fst ` set (rm_deliveries m)" using 2(2) by (auto simp: matrix_ok_def)
    then obtain s where s: "map_of (rm_deliveries m) old = Some s"
      by (metis map_of_eq_None_iff not_None_eq)
    let ?m = "if \<not> dv_terminal s then lane_update (lane_of old)
        (\<lambda>l. l\<lparr>ln_outstanding := sat_sub (ln_outstanding l) 1, ln_drop := ln_drop l + 1\<rparr>)
        (m\<lparr>rm_deliveries := AList.delete old (rm_deliveries m)\<rparr>) else m\<lparr>rm_deliveries := AList.delete old (rm_deliveries m)\<rparr>"
    have evict: "evict_deliveries (old # order) m = evict_deliveries order ?m" using True s by simp
    have "map_of (rm_deliveries ?m) k = None" if "map_of (rm_deliveries m) k = None"
      using that by (simp add: AList.delete_conv')
    then show ?thesis
      using 2(1) [OF True] evict_one [OF 2(2) s refl] s unfolding evict by (simp add: Let_def)
  next
    case False
    then show ?thesis using 2(2) by simp
  qed
qed

lemma unat_succ: "unat c + k < 2 ^ 64 \<Longrightarrow> 0 < k \<Longrightarrow> unat (c + 1) = Suc (unat c)" for c :: u64
  by (simp add: unat_plus_eq)

lemma tracked_small: "matrix_ok n m \<Longrightarrow> tracked P l m \<le> 512"
  using tracked_le [of P l m] by (simp add: matrix_ok_def max_tracked_deliveries_def)

lemma schedule_ok:
  assumes ok: "matrix_ok n m" and n: "Suc n < 2 ^ 64"
  shows "matrix_ok (Suc n) (fst (matrix_schedule a m))"
proof (cases "map_of (rm_deliveries m) (delivery_key a)")
  case (Some s)
  have "lane_ok (Suc n) m l" for l using matrix_okD(2) [OF ok, of l] by (simp add: lane_ok_def)
  moreover have "matrix_schedule a m = (m, False)" using Some by (simp add: matrix_schedule_def Let_def)
  ultimately show ?thesis using ok unfolding matrix_ok_def by simp
next
  case None
  define m1 where "m1 = evict_deliveries (rm_order m) m"
  have m1: "matrix_ok n m1" "length (rm_deliveries m1) < max_tracked_deliveries"
    "map_of (rm_deliveries m1) (delivery_key a) = None"
    using evict_ok [where m = m and order = "rm_order m" and k = "delivery_key a"] ok None by (simp_all add: m1_def)
  define m2 where "m2 = fst (matrix_schedule a m)"
  let ?l = "(an_sender a, an_relay a)"
  have m2: "rm_deliveries m2 = AList.update (delivery_key a) delivery_default (rm_deliveries m1)"
      "rm_order m2 = rm_order m1 @ [delivery_key a]"
      "lane l m2 = (if l = ?l then (lane l m1)\<lparr>ln_scheduled := ln_scheduled (lane l m1) + 1,
         ln_announce := ln_announce (lane l m1) + 1, ln_outstanding := ln_outstanding (lane l m1) + 1\<rparr> else lane l m1)" for l
    using None by (auto simp: m2_def matrix_schedule_def Let_def simp flip: m1_def)
  note track = tracked_update [OF matrix_okD(1) [OF m1(1)] m2(1), unfolded m1(3), simplified]
  note tracks = track [of "\<lambda>s. \<not> dv_terminal s"] track [of "\<lambda>s. \<not> dv_pull_request_seen s"]
    track [of "\<lambda>s. \<not> dv_payload_complete_seen s"] track [of "\<lambda>s. \<not> dv_application_accept_seen s"]
  have "lane_ok (Suc n) m2 l" for l
  proof (cases "l = ?l")
    case True
    have "unat (ln_scheduled (lane l m1)) < 2 ^ 64 - 1" "unat (ln_outstanding (lane l m1)) < 2 ^ 64 - 1"
      using matrix_okD(2) [OF m1(1), of l] n tracked_small [OF m1(1), of "\<lambda>s. \<not> dv_terminal s" l]
      by (simp_all add: lane_ok_def)
    then have "unat (ln_scheduled (lane l m1) + 1) = Suc (unat (ln_scheduled (lane l m1)))"
      "unat (ln_outstanding (lane l m1) + 1) = Suc (unat (ln_outstanding (lane l m1)))"
      by (simp_all add: unat_plus_eq)
    moreover have "conservation_ok (lane l m2)"
      using matrix_okD(2) [OF m1(1), of l] m2(3) [of l] True by (simp add: lane_ok_def conservation_ok_def)
    ultimately show ?thesis
      using matrix_okD(2) [OF m1(1), of l] True tracks [of l] m2(3) [of l]
      by (simp add: lane_ok_def stage_ok_def delivery_default_def)
  next
    case False
    then show ?thesis
      using matrix_okD(2) [OF m1(1), of l] tracks [of l] m2(3) [of l]
      by (simp add: lane_ok_def stage_ok_def)
  qed
  moreover have "delivery_key a \<notin> fst ` set (rm_deliveries m1)" using m1(3) by (simp add: map_of_eq_None_iff)
  ultimately show ?thesis
    using m1(1,2) m2(1,2)
    by (auto simp: matrix_ok_def AList.distinct_update length_update AList.dom_update simp flip: m2_def)
qed

lemma matrix_ok_update:
  assumes "matrix_ok n m" and "k \<in> fst ` set (rm_deliveries m)"
    and "rm_deliveries m' = AList.update k s (rm_deliveries m)" and "rm_order m' = rm_order m"
    and "\<And>l. lane_ok n m' l"
  shows "matrix_ok n m'"
  using assms
  by (simp add: matrix_ok_def AList.distinct_update length_update AList.dom_update insert_absorb)

text \<open>A stage of an open delivery is seen for the first time.\<close>

lemma stage_step_ok:
  assumes ok: "matrix_ok n m" and n: "n < 2 ^ 64"
    and s: "map_of (rm_deliveries m) (delivery_key a) = Some s" "\<not> seen s"
    and m': "m' = lane_update (an_sender a, an_relay a) bump
      (m\<lparr>rm_deliveries := AList.update (delivery_key a) (mark s) (rm_deliveries m)\<rparr>)"
    and stage: "(seen, mark, bump) \<in>
      {(dv_pull_request_seen, \<lambda>s. s\<lparr>dv_pull_request_seen := True\<rparr>, \<lambda>l. l\<lparr>ln_request := ln_request l + 1\<rparr>),
       (dv_payload_complete_seen, \<lambda>s. s\<lparr>dv_payload_complete_seen := True\<rparr>, \<lambda>l. l\<lparr>ln_payload := ln_payload l + 1\<rparr>),
       (dv_application_accept_seen, \<lambda>s. s\<lparr>dv_application_accept_seen := True\<rparr>, \<lambda>l. l\<lparr>ln_app_accept := ln_app_accept l + 1\<rparr>)}"
  shows "matrix_ok n m'"
proof -
  have del: "rm_deliveries m' = AList.update (delivery_key a) (mark s) (rm_deliveries m)" by (simp add: m')
  note track = tracked_update [OF matrix_okD(1) [OF ok] del, unfolded s(1), simplified]
  note tracks = track [of "\<lambda>s. \<not> dv_terminal s"] track [of "\<lambda>s. \<not> dv_pull_request_seen s"]
    track [of "\<lambda>s. \<not> dv_payload_complete_seen s"] track [of "\<lambda>s. \<not> dv_application_accept_seen s"]
  have "lane_ok n m' l" for l
  proof (cases "l = (an_sender a, an_relay a)")
    case True
    note l = matrix_okD(2) [OF ok, of l]
    have "Suc (unat c) \<le> n \<Longrightarrow> unat (c + 1) = Suc (unat c)" for c :: u64
      using n by (simp add: unat_plus_eq)
    moreover have "0 < tracked (\<lambda>s. \<not> seen s) l m"
      using track [of "\<lambda>s. \<not> seen s" l] s(2) stage True by auto
    ultimately show ?thesis
      using l tracks [of l] s(2) stage True
      by (elim insertE emptyE) (auto simp: m' lane_ok_def stage_ok_def conservation_ok_def)
  next
    case False
    then show ?thesis
      using matrix_okD(2) [OF ok, of l] tracks [of l] by (simp add: m' lane_ok_def stage_ok_def)
  qed
  moreover have "delivery_key a \<in> fst ` set (rm_deliveries m)"
    using s(1) by (metis map_of_eq_None_iff option.distinct(1))
  ultimately show ?thesis
    by (intro matrix_ok_update [OF ok _ del]) (simp_all add: m')
qed

lemma notes_ok:
  assumes "matrix_ok n m" and "n < 2 ^ 64"
  shows "matrix_ok n (fst (note_pull_request a m))" "matrix_ok n (fst (note_payload_complete a m))"
    "matrix_ok n (fst (note_application_accept a m))"
  using assms
  by (auto simp: note_pull_request_def note_payload_complete_def note_application_accept_def note_stage_def
      split: option.split intro: stage_step_ok [OF assms])

lemma finish_matrix_ok:
  assumes ok: "matrix_ok n m"
  shows "matrix_ok n (fst (matrix_finish a t m))"
proof (cases "map_of (rm_deliveries m) (delivery_key a)")
  case None
  then show ?thesis using ok by (simp add: matrix_finish_def)
next
  case (Some s)
  show ?thesis
  proof (cases "dv_terminal s")
    case True
    then show ?thesis using ok Some by (simp add: matrix_finish_def)
  next
    case False
    define m' where "m' = fst (matrix_finish a t m)"
    let ?l = "(an_sender a, an_relay a)"
    have m': "rm_deliveries m' = AList.update (delivery_key a) (s\<lparr>dv_terminal := True\<rparr>) (rm_deliveries m)"
        "rm_order m' = rm_order m"
        "lane l m' = (if l = ?l then count_terminal t ((lane l m)\<lparr>ln_outstanding := sat_sub (ln_outstanding (lane l m)) 1\<rparr>)
          else lane l m)" for l
      using Some False by (auto simp: m'_def matrix_finish_def)
    note track = tracked_update [OF matrix_okD(1) [OF ok] m'(1), unfolded Some, simplified]
    note tracks = track [of "\<lambda>s. \<not> dv_terminal s"] track [of "\<lambda>s. \<not> dv_pull_request_seen s"]
      track [of "\<lambda>s. \<not> dv_payload_complete_seen s"] track [of "\<lambda>s. \<not> dv_application_accept_seen s"]
    have "lane_ok n m' l" for l
      by (rule lane_ok_close [OF matrix_okD(2) [OF ok, of l], where l' = ?l and t = t, OF m'(3)])
        (use False tracks [of l] in auto)
    moreover have "delivery_key a \<in> fst ` set (rm_deliveries m)"
      using Some by (metis map_of_eq_None_iff option.distinct(1))
    ultimately show ?thesis
      using matrix_ok_update [OF ok _ m'(1,2)] by (simp only: m'_def)
  qed
qed

text \<open>What happens to a node's deliveries.\<close>

datatype matrix_op =
  OpSchedule relay_announcement | OpPullRequest relay_announcement | OpPayloadComplete relay_announcement
  | OpApplicationAccept relay_announcement | OpFinish relay_announcement terminal

fun matrix_step :: "matrix_op \<Rightarrow> receipt_matrix \<Rightarrow> receipt_matrix" where
  "matrix_step (OpSchedule a) m = fst (matrix_schedule a m)"
| "matrix_step (OpPullRequest a) m = fst (note_pull_request a m)"
| "matrix_step (OpPayloadComplete a) m = fst (note_payload_complete a m)"
| "matrix_step (OpApplicationAccept a) m = fst (note_application_accept a m)"
| "matrix_step (OpFinish a t) m = fst (matrix_finish a t m)"

lemma matrix_ok_mono: "matrix_ok n m \<Longrightarrow> n \<le> n' \<Longrightarrow> matrix_ok n' m"
  unfolding matrix_ok_def lane_ok_def by (meson le_trans)

lemma matrix_step_ok: "matrix_ok n m \<Longrightarrow> Suc n < 2 ^ 64 \<Longrightarrow> matrix_ok (Suc n) (matrix_step op m)"
  by (cases op) (auto intro: schedule_ok matrix_ok_mono [OF notes_ok(1)] matrix_ok_mono [OF notes_ok(2)]
      matrix_ok_mono [OF notes_ok(3)] matrix_ok_mono [OF finish_matrix_ok])

lemma empty_matrix_ok: "matrix_ok 0 empty_matrix"
  by (simp add: matrix_ok_def lane_ok_def stage_ok_def conservation_ok_def tracked_def empty_matrix_def lane_def
      lane_default_def)

lemma matrix_run_ok: "matrix_ok n m \<Longrightarrow> n + length ops < 2 ^ 64 \<Longrightarrow> matrix_ok (n + length ops) (fold matrix_step ops m)"
proof (induction ops arbitrary: n m)
  case (Cons op ops)
  then have "matrix_ok (Suc n) (matrix_step op m)" by (intro matrix_step_ok) simp_all
  then show ?case using Cons.IH [of "Suc n" "matrix_step op m"] Cons.prems(2) by simp
qed simp

text \<open>
  C26. Deliveries are conserved: after any sequence of schedules, stages and endings, duplicates and
  evictions included, every lane accounts for each delivery it scheduled under exactly one heading;
  the outstanding ones are those that are tracked and open, of which there are at most 512; and no
  stage is counted more often than deliveries were scheduled.
\<close>

theorem relay_matrix_conserved:
  assumes "length ops < 2 ^ 64" and "m = fold matrix_step ops empty_matrix"
  shows "all_conserved m \<and> length (rm_deliveries m) \<le> max_tracked_deliveries
    \<and> (\<forall>l. unat (ln_outstanding (lane l m))
          = length (filter (\<lambda>(k, s). lane_of k = l \<and> \<not> dv_terminal s) (rm_deliveries m))
        \<and> ln_request (lane l m) \<le> ln_scheduled (lane l m) \<and> ln_payload (lane l m) \<le> ln_scheduled (lane l m)
        \<and> ln_app_accept (lane l m) \<le> ln_scheduled (lane l m))"
proof -
  have ok: "matrix_ok (length ops) m"
    using matrix_run_ok [OF empty_matrix_ok] assms by simp
  have "outstanding l m = length (filter (\<lambda>(k, s). lane_of k = l \<and> \<not> dv_terminal s) (rm_deliveries m))" for l
  proof -
    have "sum_list (map (\<lambda>d. of_bool (lane_of (fst d) = l \<and> \<not> dv_terminal (snd d))) al)
        = length (filter (\<lambda>(k, s). lane_of k = l \<and> \<not> dv_terminal s) al)" for al :: "(delivery_key \<times> delivery_state) list"
      by (induction al) auto
    then show ?thesis by (simp add: tracked_def)
  qed
  then have "unat (ln_outstanding (lane l m))
        = length (filter (\<lambda>(k, s). lane_of k = l \<and> \<not> dv_terminal s) (rm_deliveries m))
      \<and> ln_request (lane l m) \<le> ln_scheduled (lane l m) \<and> ln_payload (lane l m) \<le> ln_scheduled (lane l m)
      \<and> ln_app_accept (lane l m) \<le> ln_scheduled (lane l m)" for l
    using matrix_okD(2) [OF ok, of l] by (auto simp: lane_ok_def stage_ok_def word_le_nat_alt)
  moreover have "all_conserved m" using matrix_okD(2) [OF ok] by (simp add: all_conserved_def lane_ok_def)
  ultimately show ?thesis using ok unfolding matrix_ok_def by blast
qed

theorem relay_matrix_conserved_witness:
  "all_conserved (fold matrix_step [OpSchedule sample_announcement, OpSchedule sample_announcement,
     OpPullRequest sample_announcement, OpFinish sample_announcement (TerminalAckVerified 75)] empty_matrix)"
  by (rule relay_matrix_conserved [OF _ refl, THEN conjunct1]) simp

section \<open>The scheduler\<close>

datatype scheduler_op = OpTrySchedule candidate_ready bytes bytes | OpPop

text \<open>A run of the scheduler, and the announcements that were taken out of its queue.\<close>

fun scheduler_run ::
  "(bytes \<Rightarrow> bytes) \<Rightarrow> scheduler_op list \<Rightarrow> relay_scheduler \<Rightarrow> relay_announcement list \<Rightarrow> relay_scheduler \<times> relay_announcement list" where
  "scheduler_run sha256 [] s taken = (s, taken)"
| "scheduler_run sha256 (OpTrySchedule c d e # ops) s taken = scheduler_run sha256 ops (fst (try_schedule sha256 c d e s)) taken"
| "scheduler_run sha256 (OpPop # ops) s taken =
     (case scheduler_pop s of
        (s', None) \<Rightarrow> scheduler_run sha256 ops s' taken
      | (s', Some a) \<Rightarrow> scheduler_run sha256 ops s' (taken @ [a]))"

definition slot_key :: "relay_announcement \<Rightarrow> relay_slot \<times> bytes \<times> u64" where
  "slot_key a = (an_relay a, an_correlation a, an_generation a)"

definition relay_pairs :: "(bytes \<times> u64) list \<Rightarrow> (relay_slot \<times> bytes \<times> u64) list" where
  "relay_pairs ks = concat (map (\<lambda>k. [(RelayD, k), (RelayE, k)]) ks)"

definition scheduler_ok :: "relay_scheduler \<Rightarrow> relay_announcement list \<Rightarrow> bool" where
  "scheduler_ok s taken \<longleftrightarrow> length (rs_queue s) \<le> rs_capacity s
     \<and> (\<not> feature_active (rs_config s) \<longrightarrow> taken @ rs_queue s = [])
     \<and> (\<exists>ks. distinct ks \<and> set ks = rs_scheduled s \<and> map slot_key (taken @ rs_queue s) = relay_pairs ks)"

lemma try_schedule_ok:
  assumes "scheduler_ok s taken"
  shows "scheduler_ok (fst (try_schedule sha256 c d e s)) taken
    \<and> rs_capacity (fst (try_schedule sha256 c d e s)) = rs_capacity s
    \<and> rs_config (fst (try_schedule sha256 c d e s)) = rs_config s"
proof (cases "snd (try_schedule sha256 c d e s) = QueuedBothRelays")
  case True
  let ?k = "(derive_correlation sha256 (rs_correlation_secret s) (cd_generation c) (sha256 (cd_block_bytes c)), cd_generation c)"
  obtain ks where ks: "distinct ks" "set ks = rs_scheduled s" "map slot_key (taken @ rs_queue s) = relay_pairs ks"
    using assms unfolding scheduler_ok_def by blast
  have "distinct (ks @ [?k]) \<and> set (ks @ [?k]) = rs_scheduled (fst (try_schedule sha256 c d e s))
    \<and> map slot_key (taken @ rs_queue (fst (try_schedule sha256 c d e s))) = relay_pairs (ks @ [?k])"
    using True ks
    by (auto simp: try_schedule_def Let_def relay_pairs_def slot_key_def split: if_splits)
  moreover have "length (rs_queue (fst (try_schedule sha256 c d e s))) \<le> rs_capacity s" "feature_active (rs_config s)"
      "rs_capacity (fst (try_schedule sha256 c d e s)) = rs_capacity s"
      "rs_config (fst (try_schedule sha256 c d e s)) = rs_config s"
    using True by (auto simp: try_schedule_def Let_def split: if_splits)
  ultimately show ?thesis unfolding scheduler_ok_def by metis
next
  case False
  then show ?thesis
    using assms by (auto simp: try_schedule_def Let_def scheduler_ok_def split: if_splits)
qed

lemma scheduler_run_ok:
  assumes "scheduler_ok s taken" and "scheduler_run sha256 ops s taken = (s', taken')"
  shows "scheduler_ok s' taken' \<and> rs_capacity s' = rs_capacity s \<and> rs_config s' = rs_config s"
  using assms
proof (induction sha256 ops s taken rule: scheduler_run.induct)
  case (2 sha256 c d e ops s taken)
  then show ?case using try_schedule_ok [OF 2(2), of sha256 c d e] by simp
next
  case (3 sha256 ops s taken)
  show ?case
  proof (cases "rs_queue s")
    case Nil
    then show ?thesis using 3 by (simp add: scheduler_pop_def)
  next
    case (Cons a rest)
    then have "scheduler_ok (s\<lparr>rs_queue := rest\<rparr>) (taken @ [a])" using 3(3) by (simp add: scheduler_ok_def)
    then show ?thesis using 3 Cons by (simp add: scheduler_pop_def)
  qed
qed simp

text \<open>
  Both relays or none, and each candidate once: however scheduling and taking interleave, what
  was taken out and what still waits is, in order, one announcement for D and one for E for each of
  the candidates the scheduler took, all different; the queue stays within its capacity, and a
  scheduler that is not configured announces nothing.
\<close>

theorem relay_pairs_scheduled:
  assumes "scheduler_run sha256 ops (scheduler_new config secret capacity) [] = (s, taken)"
  shows "length (rs_queue s) \<le> capacity
    \<and> (feature_active config \<or> taken @ rs_queue s = [])
    \<and> (\<exists>ks. distinct ks \<and> set ks = rs_scheduled s \<and> map slot_key (taken @ rs_queue s) = relay_pairs ks)"
proof -
  have "scheduler_ok (scheduler_new config secret capacity) []"
    by (simp add: scheduler_ok_def scheduler_new_def relay_pairs_def)
  from scheduler_run_ok [OF this assms] show ?thesis
    by (auto simp: scheduler_ok_def scheduler_new_def)
qed

definition sample_candidate :: candidate_ready where
  "sample_candidate = \<lparr>cd_sender = NodeA, cd_generation = 7, cd_block_bytes = [1, 2, 3, 4], cd_local_canonical = True,
     cd_persisted = True, cd_block_bytes_available = True, cd_expires_unix_ms = 20000\<rparr>"

theorem relay_pairs_scheduled_witness:
  "length (rs_queue (fst (scheduler_run (\<lambda>_. replicate 32 0)
     [OpTrySchedule sample_candidate [1] [2], OpTrySchedule sample_candidate [3] [4], OpPop]
     (scheduler_new \<lparr>ft_enabled = True, ft_relay_d_configured = True, ft_relay_e_configured = True\<rparr> [9] 8) []))) \<le> 8"
proof -
  obtain s taken where "scheduler_run (\<lambda>_. replicate 32 0)
     [OpTrySchedule sample_candidate [1] [2], OpTrySchedule sample_candidate [3] [4], OpPop]
     (scheduler_new \<lparr>ft_enabled = True, ft_relay_d_configured = True, ft_relay_e_configured = True\<rparr> [9] 8) [] = (s, taken)"
    by fastforce
  from relay_pairs_scheduled [OF this] this show ?thesis by simp
qed

end
