(* ===== verification/Csd_Shares.thy ===== *)
theory Csd_Shares
  imports Csd_Workers Csd_Submit
begin

text \<open>
  Crate \<open>csd-pool-db\<close>: the mining half of the repository (\<open>MiningRepository\<close> and the share weights
  of \<open>RewardRepository\<close>, for PostgreSQL), and what a settlement pays for the shares it finds there.
  A statement or transaction is one step on the tables. The checks of the schema are part of the
  statements: PostgreSQL evaluates the check constraints of a row before it looks for a conflict, and
  the foreign keys after it. What the server takes for a \<open>uuid\<close> or an \<open>inet\<close>, and the number it reads
  in the decimal text of a binary64, are parameters.
\<close>

section \<open>Tables\<close>

record pg_server =
  pg_is_uuid :: "string \<Rightarrow> bool"
  pg_is_inet :: "string \<Rightarrow> bool"
  pg_numeric :: "f64 \<Rightarrow> rat"

record session_row =
  tr_session :: session_record
  tr_assigned_difficulty :: rat
  tr_difficulty_updated_at :: nat
  tr_started_at :: nat
  tr_ended_at :: "nat option"

record share_row =
  hr_share :: share_record
  hr_difficulty :: rat
  hr_created_at :: nat

text \<open>Rows of \<open>miners\<close> and \<open>workers\<close> are known by their unique columns; their value is \<open>last_seen_at\<close>.\<close>

record mining_db =
  md_miners :: "(string, nat) btree"
  md_workers :: "(string \<times> string, nat) btree"
  md_sessions :: "session_row list"
  md_jobs :: "job_record list"
  md_shares :: "share_row list"
  md_share_events :: "share_event_record list"

definition empty_mining_db :: mining_db where
  "empty_mining_db = \<lparr>md_miners = [], md_workers = [], md_sessions = [], md_jobs = [], md_shares = [],
     md_share_events = []\<rparr>"

text \<open>The check constraint \<open>~ '^[0-9a-f]{n}$'\<close>.\<close>

definition hex_check :: "nat \<Rightarrow> string \<Rightarrow> bool" where
  "hex_check n s \<longleftrightarrow> length s = n \<and> lower_hex s"

section \<open>Statements\<close>

definition miner_id :: "nat \<Rightarrow> string \<Rightarrow> mining_db \<Rightarrow> db_error + mining_db" where
  "miner_id now address db =
     (if \<not> hex_check 40 address then Inl ConstraintViolation
      else Inr (db\<lparr>md_miners := bt_insert address now (md_miners db)\<rparr>))"

definition worker_id :: "nat \<Rightarrow> string \<Rightarrow> string \<Rightarrow> mining_db \<Rightarrow> db_error + mining_db" where
  "worker_id now address worker_name db =
     result_bind (miner_id now address db)
       (\<lambda>db. Inr (db\<lparr>md_workers := bt_insert (address, worker_name) now (md_workers db)\<rparr>))"

text \<open>A transaction: its tables are kept only if it commits.\<close>

definition transaction :: "mining_db \<Rightarrow> db_error + (mining_db \<times> 'a) \<Rightarrow> mining_db \<times> (db_error + 'a)" where
  "transaction db r = (case r of Inl e \<Rightarrow> (db, Inl e) | Inr (db', x) \<Rightarrow> (db', Inr x))"

definition open_session :: "pg_server \<Rightarrow> nat \<Rightarrow> session_record \<Rightarrow> mining_db \<Rightarrow> mining_db \<times> (db_error + unit)" where
  "open_session pg now s db = transaction db
     (result_bind (worker_id now (so_miner s) (so_worker_name s) db) (\<lambda>db.
        if 2 ^ 63 \<le> unat (so_server_session_id s) then Inl IntegerOutOfRange
        else if \<not> pg_is_uuid pg (so_id s) \<or> \<not> pg_is_inet pg (so_remote_addr s)
          \<or> so_remote_port s = 0 \<or> \<not> hex_check 8 (so_extranonce1 s)
        then Inl ConstraintViolation
        else if so_id s \<in> (so_id \<circ> tr_session) ` set (md_sessions db) then Inr (db, ())
        else Inr (db\<lparr>md_sessions := md_sessions db @
          [\<lparr>tr_session = s, tr_assigned_difficulty = pg_numeric pg (so_assigned_difficulty s),
            tr_difficulty_updated_at = now, tr_started_at = now, tr_ended_at = None\<rparr>]\<rparr>, ())))"

definition close_session :: "pg_server \<Rightarrow> nat \<Rightarrow> string \<Rightarrow> mining_db \<Rightarrow> mining_db \<times> (db_error + unit)" where
  "close_session pg now session_id db =
     (if \<not> pg_is_uuid pg session_id then (db, Inl ConstraintViolation)
      else (db\<lparr>md_sessions := map (\<lambda>r. if so_id (tr_session r) = session_id
          then r\<lparr>tr_ended_at := Some (coalesce (tr_ended_at r) now)\<rparr> else r) (md_sessions db)\<rparr>, Inr ()))"

definition close_stale_sessions :: "nat \<Rightarrow> string \<Rightarrow> mining_db \<Rightarrow> mining_db \<times> nat" where
  "close_stale_sessions now server_instance db =
     (let stale = (\<lambda>r. so_server_instance (tr_session r) = server_instance \<and> tr_ended_at r = None) in
      (db\<lparr>md_sessions := map (\<lambda>r. if stale r then r\<lparr>tr_ended_at := Some now\<rparr> else r) (md_sessions db)\<rparr>,
       length (filter stale (md_sessions db))))"

definition update_session_difficulty ::
  "pg_server \<Rightarrow> nat \<Rightarrow> string \<Rightarrow> f64 \<Rightarrow> mining_db \<Rightarrow> mining_db \<times> (db_error + unit)" where
  "update_session_difficulty pg now session_id difficulty db =
     (if \<not> pg_is_uuid pg session_id then (db, Inl ConstraintViolation)
      else (db\<lparr>md_sessions := map (\<lambda>r. if so_id (tr_session r) = session_id
          then r\<lparr>tr_assigned_difficulty := pg_numeric pg difficulty, tr_difficulty_updated_at := now\<rparr>
          else r) (md_sessions db)\<rparr>, Inr ()))"

definition job_checks :: "job_record \<Rightarrow> bool" where
  "job_checks j \<longleftrightarrow> hex_check 64 (jr_prev_hash_be_hex j) \<and> hex_check 8 (jr_version_hex j)
     \<and> hex_check 8 (jr_nbits_hex j) \<and> hex_check 8 (jr_ntime_hex j)
     \<and> jr_job_reason j \<in> {''tip_change'', ''heartbeat''}"

definition upsert_job :: "job_record \<Rightarrow> mining_db \<Rightarrow> mining_db \<times> (db_error + unit)" where
  "upsert_job j db =
     (if \<not> job_checks j then (db, Inl ConstraintViolation)
      else (db\<lparr>md_jobs := (if jr_job_id j \<in> jr_job_id ` set (md_jobs db)
          then map (\<lambda>r. if jr_job_id r = jr_job_id j then j else r) (md_jobs db)
          else md_jobs db @ [j])\<rparr>, Inr ()))"

text \<open>The unique key of a share.\<close>

definition share_row_key :: "share_record \<Rightarrow> string \<times> (string \<times> string) \<times> string \<times> string \<times> string" where
  "share_row_key s = (sh_job_id s, (sh_miner s, sh_worker_name s), sh_extranonce2_hex s, sh_ntime_hex s, sh_nonce_hex s)"

definition share_checks :: "share_record \<Rightarrow> bool" where
  "share_checks s \<longleftrightarrow> hex_check 8 (sh_extranonce2_hex s) \<and> hex_check 8 (sh_ntime_hex s)
     \<and> hex_check 8 (sh_nonce_hex s)"

definition known_session :: "mining_db \<Rightarrow> string option \<Rightarrow> bool" where
  "known_session db x \<longleftrightarrow> (case x of None \<Rightarrow> True | Some i \<Rightarrow> i \<in> (so_id \<circ> tr_session) ` set (md_sessions db))"

definition insert_share :: "pg_server \<Rightarrow> nat \<Rightarrow> share_record \<Rightarrow> mining_db \<Rightarrow> mining_db \<times> (db_error + bool)" where
  "insert_share pg now s db = transaction db
     (result_bind (worker_id now (sh_miner s) (sh_worker_name s) db) (\<lambda>db.
        if \<not> (case sh_session_id s of None \<Rightarrow> True | Some i \<Rightarrow> pg_is_uuid pg i) \<or> \<not> share_checks s
        then Inl ConstraintViolation
        else if share_row_key s \<in> (share_row_key \<circ> hr_share) ` set (md_shares db) then Inr (db, False)
        else if sh_job_id s \<notin> jr_job_id ` set (md_jobs db) \<or> \<not> known_session db (sh_session_id s)
        then Inl ConstraintViolation
        else Inr (db\<lparr>md_shares := md_shares db @
          [\<lparr>hr_share = s, hr_difficulty = pg_numeric pg (sh_difficulty s), hr_created_at = now\<rparr>]\<rparr>, True)))"

definition insert_share_event ::
  "pg_server \<Rightarrow> nat \<Rightarrow> share_event_record \<Rightarrow> mining_db \<Rightarrow> mining_db \<times> (db_error + unit)" where
  "insert_share_event pg now e db = transaction db
     (result_bind (worker_id now (ev_miner e) (ev_worker_name e) db) (\<lambda>db.
        if \<not> (case ev_session_id e of None \<Rightarrow> True | Some i \<Rightarrow> pg_is_uuid pg i)
          \<or> ev_kind e \<notin> {''rejected'', ''stale''} \<or> \<not> known_session db (ev_session_id e)
        then Inl ConstraintViolation
        else Inr (db\<lparr>md_share_events := md_share_events db @ [e]\<rparr>, ())))"

text \<open>A row of the weights: the integer part of the text of the sum, as a \<open>u64\<close>.\<close>

definition share_weight_of_row :: "string \<times> rat \<Rightarrow> db_error + share_weight" where
  "share_weight_of_row row =
     (if snd row < 0 \<or> 2 ^ 64 \<le> \<lfloor>snd row\<rfloor> then Inl ParseIntError
      else Inr \<lparr>sw_miner = fst row, sw_difficulty = word_of_int \<lfloor>snd row\<rfloor>\<rparr>)"

definition job_shares :: "string \<Rightarrow> mining_db \<Rightarrow> share_row list" where
  "job_shares job_id db = filter (\<lambda>r. sh_job_id (hr_share r) = job_id) (md_shares db)"

definition weight_rows :: "share_row list \<Rightarrow> (string \<times> rat) list" where
  "weight_rows rows = map (\<lambda>m. (m, sum_list (map hr_difficulty (filter (\<lambda>r. sh_miner (hr_share r) = m) rows))))
     (sort (remdups (map (sh_miner \<circ> hr_share) rows)))"

definition share_weights_for_job :: "string \<Rightarrow> mining_db \<Rightarrow> db_error + share_weight list" where
  "share_weights_for_job job_id db = map_result share_weight_of_row (weight_rows (job_shares job_id db))"

section \<open>The tables stay sound\<close>

datatype mining_op =
  OpOpenSession nat session_record | OpCloseSession nat string | OpCloseStale nat string
  | OpSessionDifficulty nat string f64 | OpUpsertJob job_record | OpInsertShare nat share_record
  | OpShareEvent nat share_event_record

fun mining_step :: "pg_server \<Rightarrow> mining_op \<Rightarrow> mining_db \<Rightarrow> mining_db" where
  "mining_step pg (OpOpenSession now s) db = fst (open_session pg now s db)"
| "mining_step pg (OpCloseSession now i) db = fst (close_session pg now i db)"
| "mining_step pg (OpCloseStale now server) db = fst (close_stale_sessions now server db)"
| "mining_step pg (OpSessionDifficulty now i d) db = fst (update_session_difficulty pg now i d db)"
| "mining_step pg (OpUpsertJob j) db = fst (upsert_job j db)"
| "mining_step pg (OpInsertShare now s) db = fst (insert_share pg now s db)"
| "mining_step pg (OpShareEvent now e) db = fst (insert_share_event pg now e db)"

definition share_keys :: "mining_db \<Rightarrow> (string \<times> (string \<times> string) \<times> string \<times> string \<times> string) list" where
  "share_keys db = map (share_row_key \<circ> hr_share) (md_shares db)"

definition session_ids :: "mining_db \<Rightarrow> string list" where
  "session_ids db = map (so_id \<circ> tr_session) (md_sessions db)"

definition job_ids :: "mining_db \<Rightarrow> string list" where
  "job_ids db = map jr_job_id (md_jobs db)"

definition share_joined :: "mining_db \<Rightarrow> share_record \<Rightarrow> bool" where
  "share_joined db s \<longleftrightarrow> share_checks s \<and> sh_job_id s \<in> set (job_ids db)
     \<and> (case sh_session_id s of None \<Rightarrow> True | Some i \<Rightarrow> i \<in> set (session_ids db))
     \<and> sh_miner s \<in> fst ` set (md_miners db) \<and> (sh_miner s, sh_worker_name s) \<in> fst ` set (md_workers db)"

definition mining_ok :: "mining_db \<Rightarrow> bool" where
  "mining_ok db \<longleftrightarrow> distinct (share_keys db) \<and> distinct (session_ids db) \<and> distinct (job_ids db)
     \<and> (\<forall>r \<in> set (md_shares db). share_joined db (hr_share r))"

text \<open>No statement removes a row that another one refers to.\<close>

definition mining_grows :: "mining_db \<Rightarrow> mining_db \<Rightarrow> bool" where
  "mining_grows db db' \<longleftrightarrow> set (job_ids db) \<subseteq> set (job_ids db') \<and> set (session_ids db) \<subseteq> set (session_ids db')
     \<and> fst ` set (md_miners db) \<subseteq> fst ` set (md_miners db')
     \<and> fst ` set (md_workers db) \<subseteq> fst ` set (md_workers db')"

lemma joined_grows: "mining_grows db db' \<Longrightarrow> share_joined db s \<Longrightarrow> share_joined db' s"
  unfolding mining_grows_def share_joined_def by (auto split: option.splits)

lemma keys_bt_insert: "fst ` set (bt_insert k v m) = insert k (fst ` set m)"
  using set_bt_insert_keys [of k v m] by simp

lemma worker_id_spec:
  assumes "worker_id now a w db = Inr db1"
  shows "mining_grows db db1" "md_shares db1 = md_shares db" "session_ids db1 = session_ids db" "job_ids db1 = job_ids db"
    "md_sessions db1 = md_sessions db" "md_jobs db1 = md_jobs db"
    "a \<in> fst ` set (md_miners db1)" "(a, w) \<in> fst ` set (md_workers db1)" "hex_check 40 a"
proof -
  have db1: "db1 = db\<lparr>md_miners := bt_insert a now (md_miners db), md_workers := bt_insert (a, w) now (md_workers db)\<rparr>"
    and "hex_check 40 a"
    using assms by (auto simp: worker_id_def miner_id_def split: if_splits)
  then show "hex_check 40 a" by simp
  show "mining_grows db db1" "md_shares db1 = md_shares db" "session_ids db1 = session_ids db" "job_ids db1 = job_ids db"
    "md_sessions db1 = md_sessions db" "md_jobs db1 = md_jobs db"
    "a \<in> fst ` set (md_miners db1)" "(a, w) \<in> fst ` set (md_workers db1)"
    by (simp_all add: db1 mining_grows_def keys_bt_insert session_ids_def job_ids_def subset_insertI)
qed

lemma mining_ok_keep:
  assumes "mining_ok db" and "mining_grows db db'" and "md_shares db' = md_shares db"
    and "distinct (session_ids db')" and "distinct (job_ids db')"
  shows "mining_ok db'"
  using assms joined_grows [OF assms(2)] by (simp add: mining_ok_def share_keys_def)

lemma worker_ok:
  assumes "mining_ok db" and "worker_id now a w db = Inr db1"
  shows "mining_ok db1"
  using worker_id_spec [OF assms(2)] assms(1) by (intro mining_ok_keep [OF assms(1)]) (simp_all add: mining_ok_def)

lemma open_session_ok:
  assumes "mining_ok db"
  shows "mining_ok (fst (open_session pg now s db))"
proof (cases "worker_id now (so_miner s) (so_worker_name s) db")
  case (Inl e)
  then show ?thesis using assms by (simp add: open_session_def transaction_def)
next
  case (Inr db1)
  note db1 = worker_id_spec [OF Inr]
  have ok: "mining_ok db1" by (rule worker_ok [OF assms Inr])
  show ?thesis
  proof (cases "snd (open_session pg now s db) = Inr () \<and> so_id s \<notin> (so_id \<circ> tr_session) ` set (md_sessions db1)")
    case True
    then have "fst (open_session pg now s db) = db1\<lparr>md_sessions := md_sessions db1 @
          [\<lparr>tr_session = s, tr_assigned_difficulty = pg_numeric pg (so_assigned_difficulty s),
            tr_difficulty_updated_at = now, tr_started_at = now, tr_ended_at = None\<rparr>]\<rparr>" (is "_ = ?db")
      using Inr by (auto simp: open_session_def transaction_def split: if_splits)
    moreover have "mining_ok ?db"
      using ok True by (intro mining_ok_keep [OF ok]) (auto simp: mining_grows_def session_ids_def job_ids_def mining_ok_def)
    ultimately show ?thesis by simp
  next
    case False
    then show ?thesis
      using Inr ok assms by (auto simp: open_session_def transaction_def split: if_splits)
  qed
qed

lemma sessions_map_ok:
  assumes "mining_ok db" and "\<And>r. tr_session (f r) = tr_session r"
  shows "mining_ok (db\<lparr>md_sessions := map f (md_sessions db)\<rparr>)"
proof -
  have ids: "session_ids (db\<lparr>md_sessions := map f (md_sessions db)\<rparr>) = session_ids db"
    using assms(2) by (simp add: session_ids_def comp_def)
  show ?thesis
    by (rule mining_ok_keep [OF assms(1)])
      (use assms(1) ids in \<open>simp_all add: mining_grows_def mining_ok_def job_ids_def\<close>)
qed

lemma upsert_job_ok:
  assumes "mining_ok db"
  shows "mining_ok (fst (upsert_job j db))"
proof (cases "job_checks j")
  case True
  let ?db = "fst (upsert_job j db)"
  have "job_ids ?db = (if jr_job_id j \<in> set (job_ids db) then job_ids db else job_ids db @ [jr_job_id j])"
    using True by (auto simp: upsert_job_def job_ids_def)
  then show ?thesis
    using assms True
    by (intro mining_ok_keep [OF assms]) (auto simp: mining_grows_def mining_ok_def upsert_job_def session_ids_def)
qed (use assms in \<open>simp add: upsert_job_def\<close>)

text \<open>The three answers of \<open>insert_share\<close>.\<close>

lemma insert_share_cases:
  assumes "insert_share pg now s db = (db', answer)"
  obtains (refused) e where "answer = Inl e" "db' = db"
  | (known) "answer = Inr False" "worker_id now (sh_miner s) (sh_worker_name s) db = Inr db'"
      "share_row_key s \<in> set (share_keys db)"
  | (fresh) db1 where "answer = Inr True" "worker_id now (sh_miner s) (sh_worker_name s) db = Inr db1"
      "db' = db1\<lparr>md_shares := md_shares db @
        [\<lparr>hr_share = s, hr_difficulty = pg_numeric pg (sh_difficulty s), hr_created_at = now\<rparr>]\<rparr>"
      "share_row_key s \<notin> set (share_keys db)" "share_joined db1 s"
proof (cases "worker_id now (sh_miner s) (sh_worker_name s) db")
  case (Inl e)
  then show ?thesis using assms by (intro refused) (auto simp: insert_share_def transaction_def)
next
  case (Inr db1)
  note db1 = worker_id_spec [OF Inr]
  show ?thesis
  proof (cases answer)
    case (Inl e)
    then show ?thesis using assms Inr by (intro refused) (auto simp: insert_share_def transaction_def split: if_splits)
  next
    case (Inr b)
    show ?thesis
    proof (cases b)
      case True
      then show ?thesis
        using assms Inr \<open>worker_id now (sh_miner s) (sh_worker_name s) db = Inr db1\<close> db1
        by (intro fresh [of db1])
          (auto simp: insert_share_def transaction_def share_keys_def share_joined_def job_ids_def session_ids_def
            known_session_def split: if_splits option.splits)
    next
      case False
      then show ?thesis
        using assms Inr \<open>worker_id now (sh_miner s) (sh_worker_name s) db = Inr db1\<close> db1
        by (intro known) (auto simp: insert_share_def transaction_def share_keys_def split: if_splits)
    qed
  qed
qed

lemma insert_share_ok:
  assumes "mining_ok db"
  shows "mining_ok (fst (insert_share pg now s db))"
proof -
  obtain db' answer where ins: "insert_share pg now s db = (db', answer)" by fastforce
  from ins show ?thesis
  proof (cases rule: insert_share_cases)
    case refused
    then show ?thesis using ins assms by simp
  next
    case known
    have "mining_ok db'" by (rule worker_ok [OF assms known(2)])
    then show ?thesis using ins by simp
  next
    case (fresh db1)
    note db1 = worker_id_spec [OF fresh(2)]
    have "share_joined db' = share_joined db1"
      by (rule ext) (simp add: fresh(3) share_joined_def job_ids_def session_ids_def split: option.split)
    then have "mining_ok db'"
      using fresh db1 assms joined_grows [OF db1(1)]
      by (auto simp: mining_ok_def share_keys_def session_ids_def job_ids_def)
    then show ?thesis using ins by simp
  qed
qed

lemma insert_share_event_ok:
  assumes "mining_ok db"
  shows "mining_ok (fst (insert_share_event pg now e db))"
proof (cases "worker_id now (ev_miner e) (ev_worker_name e) db")
  case (Inl x)
  then show ?thesis using assms by (simp add: insert_share_event_def transaction_def)
next
  case (Inr db1)
  note ok = worker_ok [OF assms Inr]
  have "mining_ok (db1\<lparr>md_share_events := x\<rparr>)" for x
    by (rule mining_ok_keep [OF ok]) (use ok in \<open>simp_all add: mining_ok_def mining_grows_def session_ids_def job_ids_def\<close>)
  then show ?thesis
    using assms Inr by (simp add: insert_share_event_def transaction_def)
qed

lemma mining_step_ok: "mining_ok db \<Longrightarrow> mining_ok (mining_step pg op db)"
  by (cases op)
    (auto simp: open_session_ok upsert_job_ok insert_share_ok insert_share_event_ok close_session_def
      close_stale_sessions_def update_session_difficulty_def Let_def intro!: sessions_map_ok)

lemma insert_share_True:
  assumes "insert_share pg now s db = (db', Inr True)"
  shows "hex_check 40 (sh_miner s) \<and> share_checks s \<and> share_row_key s \<in> (share_row_key \<circ> hr_share) ` set (md_shares db')
    \<and> (case sh_session_id s of None \<Rightarrow> True | Some i \<Rightarrow> pg_is_uuid pg i)"
  using assms
  by (auto simp: insert_share_def worker_id_def miner_id_def transaction_def split: if_splits option.splits)

lemma insert_share_again:
  assumes "insert_share pg now s db = (db', Inr True)"
  shows "\<exists>db''. insert_share pg now' s db' = (db'', Inr False) \<and> md_shares db'' = md_shares db'"
  using insert_share_True [OF assms]
  by (auto simp: insert_share_def worker_id_def miner_id_def transaction_def split: option.splits)

text \<open>
  C16. The mining tables stay sound under any sequence of statements, failing ones included: no two
  shares have one key, no two sessions one id, no two jobs one id, and every share passed its checks
  and refers to a job, a session, a miner and a worker that are there, so the joins of the reward
  query lose no share. A share that was inserted once is refused when it is offered again.
\<close>

theorem mining_tables_sound:
  assumes "db = fold (mining_step pg) ops empty_mining_db"
  shows "distinct (share_keys db) \<and> distinct (session_ids db) \<and> distinct (job_ids db)
    \<and> (\<forall>r \<in> set (md_shares db). share_joined db (hr_share r))
    \<and> (\<forall>now s db' db'' answer. insert_share pg now s db = (db', Inr True)
         \<and> insert_share pg now s db' = (db'', answer) \<longrightarrow> answer = Inr False \<and> md_shares db'' = md_shares db')"
proof -
  have "mining_ok (fold (mining_step pg) ops db)" if "mining_ok db" for db
    using that by (induction ops arbitrary: db) (simp_all add: mining_step_ok)
  then have "mining_ok db"
    using assms by (simp add: mining_ok_def empty_mining_db_def share_keys_def session_ids_def job_ids_def)
  moreover have "answer = Inr False \<and> md_shares db'' = md_shares db'"
    if "insert_share pg now s db = (db', Inr True)" "insert_share pg now s db' = (db'', answer)"
    for now s db' db'' answer
    using insert_share_again [OF that(1), of now] that(2) by auto
  ultimately show ?thesis unfolding mining_ok_def by blast
qed

text \<open>A share whose fields are not spelled in lower case is refused, although it verifies.\<close>

lemma respelled_share_refused:
  assumes "\<not> lower_hex (sh_nonce_hex s) \<or> \<not> lower_hex (sh_ntime_hex s) \<or> \<not> lower_hex (sh_extranonce2_hex s)"
  shows "\<exists>e. insert_share pg now s db = (db, Inl e)"
  using assms
  by (auto simp: insert_share_def transaction_def share_checks_def hex_check_def worker_id_def miner_id_def)

section \<open>Rewards follow the shares\<close>

lemma sum_by_miner:
  assumes "finite S" and "f ` set rows \<subseteq> S"
  shows "(\<Sum>m\<in>S. sum_list (map units (filter (\<lambda>r. f r = m) rows))) = (sum_list (map units rows) :: nat)"
  using assms(2)
proof (induction rows)
  case (Cons r rows)
  have "(\<Sum>m\<in>S. sum_list (map units (filter (\<lambda>r. f r = m) (r # rows))))
      = (\<Sum>m\<in>S. (if f r = m then units r else 0) + sum_list (map units (filter (\<lambda>r. f r = m) rows)))"
    by (rule sum.cong) simp_all
  also have "\<dots> = units r + sum_list (map units rows)"
    using Cons assms(1) by (simp add: sum.distrib)
  finally show ?case by simp
qed simp

lemma of_nat_sum_list: "of_nat (sum_list xs) = (sum_list (map of_nat xs) :: rat)"
  by (induction xs) simp_all

lemma map_all2_inverse: "list_all2 P xs ys \<Longrightarrow> (\<And>x y. P x y \<Longrightarrow> f y = x) \<Longrightarrow> map f ys = xs"
  by (induction rule: list_all2_induct) simp_all

lemma whole_weights:
  assumes "share_weights_for_job job_id db = Inr weights"
    and "\<forall>r \<in> set (job_shares job_id db). hr_difficulty r = of_nat (units r)"
  shows "map sw_miner weights = sort (remdups (map (sh_miner \<circ> hr_share) (job_shares job_id db)))"
    and "w \<in> set weights \<Longrightarrow> unat (sw_difficulty w)
      = sum_list (map units (filter (\<lambda>r. sh_miner (hr_share r) = sw_miner w) (job_shares job_id db)))"
proof -
  let ?rows = "job_shares job_id db"
  let ?mine = "\<lambda>m. sum_list (map units (filter (\<lambda>r. sh_miner (hr_share r) = m) ?rows))"
  have mine: "sum_list (map hr_difficulty (filter (\<lambda>r. sh_miner (hr_share r) = m) ?rows)) = of_nat (?mine m)" for m
  proof -
    have "map hr_difficulty (filter (\<lambda>r. sh_miner (hr_share r) = m) ?rows)
        = map (of_nat \<circ> units) (filter (\<lambda>r. sh_miner (hr_share r) = m) ?rows)"
      using assms(2) by simp
    from arg_cong [OF this, of sum_list] show ?thesis by (simp only: of_nat_sum_list map_map)
  qed
  have rows: "list_all2 (\<lambda>m w. share_weight_of_row (m, of_nat (?mine m)) = Inr w)
      (sort (remdups (map (sh_miner \<circ> hr_share) ?rows))) weights"
    using assms(1) by (simp add: share_weights_for_job_def weight_rows_def mine map_result_Inr list_all2_map1)
  have row: "sw_miner w = m \<and> unat (sw_difficulty w) = ?mine m"
    if "share_weight_of_row (m, of_nat (?mine m)) = Inr w" for m w
    using that
    by (auto simp: share_weight_of_row_def not_le unat_of_nat take_bit_nat_eq_self_iff of_nat_less_iff split: if_splits)
  show "map sw_miner weights = sort (remdups (map (sh_miner \<circ> hr_share) ?rows))"
    by (rule map_all2_inverse [OF rows]) (use row in blast)
  show "unat (sw_difficulty w) = ?mine (sw_miner w)" if "w \<in> set weights"
    using rows row that by (auto simp: list_all2_conv_all_nth in_set_conv_nth)
qed

lemma miner_window_one:
  assumes "distinct (map sw_miner weights)" and "w \<in> set weights"
  shows "miner_window weights (sw_miner w) = unat (sw_difficulty w)"
proof -
  have "filter (\<lambda>v. sw_miner v = sw_miner w) weights = [w]"
    using assms
  proof (induction weights)
    case (Cons v vs)
    show ?case
    proof (cases "v = w")
      case True
      then have "sw_miner w \<notin> sw_miner ` set vs" using Cons.prems(1) by simp
      then have "\<forall>u \<in> set vs. sw_miner u \<noteq> sw_miner w" by (metis imageI)
      then show ?thesis using True by (simp add: filter_empty_conv)
    next
      case False
      then have "w \<in> set vs" using Cons.prems(2) by simp
      moreover from this have "sw_miner v \<noteq> sw_miner w" using Cons.prems(1) by (metis distinct.simps(2) imageI list.simps(9) set_map)
      ultimately show ?thesis using Cons by simp
    qed
  qed simp
  then show ?thesis by (simp add: miner_window_def)
qed

lemma whole_windows:
  assumes "share_weights_for_job job_id db = Inr weights"
    and "\<forall>r \<in> set (job_shares job_id db). hr_difficulty r = of_nat (units r)"
  shows "sw_miner ` set weights = (sh_miner \<circ> hr_share) ` set (job_shares job_id db)"
    and "m \<in> sw_miner ` set weights \<Longrightarrow> miner_window weights m
      = sum_list (map units (filter (\<lambda>r. sh_miner (hr_share r) = m) (job_shares job_id db)))"
    and "window_difficulty weights = sum_list (map units (job_shares job_id db))"
proof -
  note miners = whole_weights(1) [OF assms]
  show keys: "sw_miner ` set weights = (sh_miner \<circ> hr_share) ` set (job_shares job_id db)"
    using arg_cong [OF miners, of set] by simp
  have "distinct (map sw_miner weights)" unfolding miners by simp
  then show mine: "miner_window weights m
      = sum_list (map units (filter (\<lambda>r. sh_miner (hr_share r) = m) (job_shares job_id db)))"
    if "m \<in> sw_miner ` set weights" for m
    using that whole_weights(2) [OF assms] miner_window_one by fastforce
  have "window_difficulty weights = (\<Sum>m\<in>sw_miner ` set weights. miner_window weights m)"
    unfolding window_difficulty_def miner_window_def by (rule sum_by_miner [symmetric]) simp_all
  also have "\<dots> = (\<Sum>m\<in>sw_miner ` set weights.
      sum_list (map units (filter (\<lambda>r. sh_miner (hr_share r) = m) (job_shares job_id db))))"
    by (rule sum.cong) (simp_all add: mine)
  also have "\<dots> = sum_list (map units (job_shares job_id db))"
    by (rule sum_by_miner) (simp_all add: keys image_comp [symmetric] image_image)
  finally show "window_difficulty weights = sum_list (map units (job_shares job_id db))" .
qed

text \<open>
  C4. Rewards follow the shares: when a block of a job is settled with the weights the repository
  answers for that job, the miners that are paid are exactly those with a share of the job, each
  once; each gets at least its proportion of the miners' total, rounded down, where its weight is the
  sum of the difficulties of its stored shares, and less than one base unit per miner more; and the
  amounts add up to the total.
\<close>

theorem rewards_follow_shares:
  assumes "share_weights_for_job job_id db = Inr weights"
    and "\<forall>r \<in> set (job_shares job_id db). hr_difficulty r = of_nat (units r)"
    and "settle_reward_block block fee_bps weights = Inr settled"
    and "unat (rb_reward_base_units block) * 10000 < 2 ^ 128"
    and "unat (rb_reward_base_units block) * sum_list (map units (job_shares job_id db)) < 2 ^ 128"
    and "sum_list (map units (job_shares job_id db)) < 2 ^ 128"
  shows "let shares = job_shares job_id db; result = sr_result settled; total = unat (pr_miner_total_base_units result)
    in map ra_miner (pr_allocations result) = sort (remdups (map (sh_miner \<circ> hr_share) shares))
     \<and> sum_list (map (unat \<circ> ra_amount_base_units) (pr_allocations result)) = total
     \<and> (\<forall>a \<in> set (pr_allocations result).
          let part = total * sum_list (map units (filter (\<lambda>r. sh_miner (hr_share r) = ra_miner a) shares))
                     div sum_list (map units shares)
          in part \<le> unat (ra_amount_base_units a)
             \<and> unat (ra_amount_base_units a) < part + length (pr_allocations result))"
proof -
  let ?rows = "job_shares job_id db"
  let ?mine = "\<lambda>m. sum_list (map units (filter (\<lambda>r. sh_miner (hr_share r) = m) ?rows))"
  note windows = whole_windows [OF assms(1,2)]
  obtain result where result: "allocate_pplns (rb_reward_base_units block) fee_bps weights = Inr result"
      "sr_result settled = result"
    using assms(3) by (auto simp: settle_reward_block_def result_bind_eq_Inr)
  have fits: "pplns_fits (rb_reward_base_units block) weights"
    unfolding pplns_fits_def windows(3) using assms(4-6) by blast
  have "sw_miner ` set weights = set (map (sh_miner \<circ> hr_share) ?rows)" using windows(1) by simp
  then have allocated: "map ra_miner (pr_allocations result) = sort (remdups (map (sh_miner \<circ> hr_share) ?rows))"
    unfolding pplns_miners [OF result(1)] by (simp only: sorted_list_of_set_sort_remdups)
  have "unat (pr_miner_total_base_units result) * ?mine (ra_miner a) div sum_list (map units ?rows) \<le> unat (ra_amount_base_units a)
    \<and> unat (ra_amount_base_units a) < unat (pr_miner_total_base_units result) * ?mine (ra_miner a) div sum_list (map units ?rows)
        + length (pr_allocations result)"
    if a: "a \<in> set (pr_allocations result)" for a
  proof -
    obtain i where i: "i < length (pr_allocations result)" "pr_allocations result ! i = a"
      using a by (metis in_set_conv_nth)
    have "ra_miner a \<in> sw_miner ` set weights"
      using a arg_cong [OF allocated, of set] by (auto simp: windows(1))
    then show ?thesis
      using pplns_fair_aux [OF result(1) fits i(1)] unfolding i(2) windows(3) by (simp only: windows(2))
  qed
  moreover have "sum_list (map (unat \<circ> ra_amount_base_units) (pr_allocations result)) = unat (pr_miner_total_base_units result)"
    using pplns_conserves_aux [OF result(1) fits] by blast
  ultimately show ?thesis unfolding Let_def result(2) using allocated by blast
qed

definition sample_pg :: pg_server where
  "sample_pg = \<lparr>pg_is_uuid = (\<lambda>_. True), pg_is_inet = (\<lambda>_. True),
     pg_numeric = (\<lambda>d. case d of Fin r \<Rightarrow> r | _ \<Rightarrow> 0)\<rparr>"

definition sample_job_record :: job_record where
  "sample_job_record = \<lparr>jr_job_id = ''j'', jr_prev_hash_be_hex = replicate 64 CHR ''0'', jr_version_hex = replicate 8 CHR ''0'',
     jr_nbits_hex = replicate 8 CHR ''0'', jr_ntime_hex = replicate 8 CHR ''0'', jr_network_target = [], jr_share_target = [],
     jr_coinb1_hex = '''', jr_coinb2_hex = '''', jr_merkle_branches_hex = [], jr_clean_jobs = True,
     jr_job_reason = ''tip_change''\<rparr>"

definition sample_share :: "char \<Rightarrow> char \<Rightarrow> rat \<Rightarrow> share_record" where
  "sample_share miner nonce difficulty =
     \<lparr>sh_session_id = None, sh_miner = replicate 40 miner, sh_worker_name = ''default'', sh_job_id = ''j'',
      sh_difficulty = Fin difficulty, sh_hash = [], sh_extranonce2_hex = replicate 8 CHR ''0'',
      sh_ntime_hex = replicate 8 CHR ''0'', sh_nonce_hex = replicate 8 nonce, sh_is_block_candidate = False\<rparr>"

definition sample_mining_ops :: "mining_op list" where
  "sample_mining_ops = [OpUpsertJob sample_job_record, OpInsertShare 1 (sample_share CHR ''a'' CHR ''1'' 8),
     OpInsertShare 2 (sample_share CHR ''b'' CHR ''2'' 16), OpInsertShare 3 (sample_share CHR ''a'' CHR ''1'' 8),
     OpInsertShare 4 (sample_share CHR ''b'' CHR ''A'' 16)]"

lemma sample_job_shares:
  "job_shares ''j'' (fold (mining_step sample_pg) sample_mining_ops empty_mining_db) =
     [\<lparr>hr_share = sample_share CHR ''a'' CHR ''1'' 8, hr_difficulty = 8, hr_created_at = 1\<rparr>,
      \<lparr>hr_share = sample_share CHR ''b'' CHR ''2'' 16, hr_difficulty = 16, hr_created_at = 2\<rparr>]"
  by code_simp

theorem mining_tables_sound_witness:
  "distinct (share_keys (fold (mining_step sample_pg) sample_mining_ops empty_mining_db))"
  using mining_tables_sound [OF refl] by blast

lemma sample_weights:
  "share_weights_for_job ''j'' (fold (mining_step sample_pg) sample_mining_ops empty_mining_db) =
     Inr [\<lparr>sw_miner = replicate 40 CHR ''a'', sw_difficulty = 8\<rparr>, \<lparr>sw_miner = replicate 40 CHR ''b'', sw_difficulty = 16\<rparr>]"
  unfolding share_weights_for_job_def sample_job_shares by code_simp

theorem rewards_follow_shares_witness:
  "sum_list (map (unat \<circ> ra_amount_base_units)
     [\<lparr>ra_miner = replicate 40 CHR ''a'', ra_amount_base_units = 33\<rparr>,
      \<lparr>ra_miner = replicate 40 CHR ''b'', ra_amount_base_units = 67\<rparr>]) = unat (100 :: u128)"
proof -
  let ?weights = "[\<lparr>sw_miner = replicate 40 CHR ''a'', sw_difficulty = 8\<rparr>, \<lparr>sw_miner = replicate 40 CHR ''b'', sw_difficulty = 16\<rparr>]"
  let ?allocations = "[\<lparr>ra_miner = replicate 40 CHR ''a'', ra_amount_base_units = 33\<rparr>,
      \<lparr>ra_miner = replicate 40 CHR ''b'', ra_amount_base_units = 67\<rparr>]"
  let ?block = "\<lparr>rb_hash_hex = ''h'', rb_job_id = ''j'', rb_reward_base_units = 100\<rparr>"
  have "allocate_pplns 100 0 ?weights = Inr \<lparr>pr_reward_base_units = 100, pr_fee_base_units = 0,
      pr_miner_total_base_units = 100, pr_allocations = ?allocations\<rparr>"
    by code_simp
  then obtain settled where settled: "settle_reward_block ?block 0 ?weights = Inr settled"
    "pr_allocations (sr_result settled) = ?allocations" "pr_miner_total_base_units (sr_result settled) = 100"
    by (simp add: settle_reward_block_def)
  have "unat (100 :: u128) * 10000 < 2 ^ 128" "unat (100 :: u128) * 24 < 2 ^ 128" by simp_all
  then show ?thesis
    using rewards_follow_shares [OF sample_weights, where units = "\<lambda>r. nat \<lfloor>hr_difficulty r\<rfloor>" and settled = settled,
        OF _ settled(1)] settled(2,3)
    by (simp add: sample_job_shares Let_def)
qed

end
