(* ===== verification/Csd_Node.thy ===== *)
theory Csd_Node
  imports Csd_Parallel
begin

text \<open>
  Crate \<open>csd-pool-node\<close>: the jobs the pool makes of the node's templates, the check of a full block
  template, and the live template provider with its cache of candidate material and its one
  background fetch. What the node answers is an input; SHA-256 and the decoder of hexadecimal text
  are parameters. The locks make the critical sections of the provider atomic steps; a slot (an
  \<open>Arc<RwLock<..>>\<close> that jobs and cache share) is an index into a store of slots.
\<close>

section \<open>Templates and jobs\<close>

definition max_block_bytes :: nat where "max_block_bytes = 2 * 1024 * 1024"
definition max_template_hex_len :: nat where "max_template_hex_len = max_block_bytes * 2"
definition max_cache_entries :: nat where "max_cache_entries = 8"

datatype node_error = NodeConsensus consensus_error | NodeInvalidResponse string

record node_template =
  nt_job_id :: string
  nt_prev_hash_be_hex :: string
  nt_coinb1_hex :: string
  nt_coinb2_hex :: string
  nt_merkle_branches_hex :: "string list"
  nt_version_hex :: string
  nt_nbits_hex :: string
  nt_ntime_hex :: string
  nt_clean_jobs :: bool
  nt_share_target_hex :: string
  nt_network_target_hex :: string

text \<open>The \<open>?\<close> on a \<open>ConsensusError\<close>.\<close>

definition lift_consensus :: "consensus_error + 'a \<Rightarrow> node_error + 'a" where
  "lift_consensus r = (case r of Inl e \<Rightarrow> Inl (NodeConsensus e) | Inr x \<Rightarrow> Inr x)"

definition job_from_notify ::
  "(string \<Rightarrow> bytes option) \<Rightarrow> notify_params \<Rightarrow> hash32 \<Rightarrow> hash32 \<Rightarrow> node_error + pool_job" where
  "job_from_notify hexd params share_target network_target =
     result_bind (lift_consensus (parse_u32_hex ''version_hex'' (np_version_hex params))) (\<lambda>version.
     result_bind (lift_consensus (decode_prev_hash_from_stratum hexd (np_prev_hash_be_hex params))) (\<lambda>prev.
     result_bind (lift_consensus (parse_u32_hex ''ntime_hex'' (np_ntime_hex params))) (\<lambda>time.
     result_bind (lift_consensus (parse_u32_hex ''nbits_hex'' (np_nbits_hex params))) (\<lambda>bits.
     result_bind (ok_or (NodeInvalidResponse ''coinb1 hex'') (hexd (np_coinb1_hex params))) (\<lambda>coinbase_prefix.
     result_bind (ok_or (NodeInvalidResponse ''coinb2 hex'') (hexd (np_coinb2_hex params))) (\<lambda>coinbase_suffix.
     result_bind (lift_consensus
       (map_result (decode_hash32_hex hexd ''merkle_branch'') (np_merkle_branches_hex params))) (\<lambda>merkle_branch.
     Inr \<lparr>pj_notify = params,
          pj_template = \<lparr>wt_job_id = np_job_id params, wt_version = version, wt_prev = prev,
            wt_time = ucast time, wt_bits = bits, wt_share_target = share_target,
            wt_network_target = network_target, wt_coinbase_prefix = coinbase_prefix,
            wt_coinbase_suffix = coinbase_suffix, wt_merkle_branch = merkle_branch\<rparr>\<rparr>)))))))"

definition template_notify :: "node_template \<Rightarrow> notify_params" where
  "template_notify t = \<lparr>np_job_id = nt_job_id t, np_prev_hash_be_hex = nt_prev_hash_be_hex t,
     np_coinb1_hex = nt_coinb1_hex t, np_coinb2_hex = nt_coinb2_hex t,
     np_merkle_branches_hex = nt_merkle_branches_hex t, np_version_hex = nt_version_hex t,
     np_nbits_hex = nt_nbits_hex t, np_ntime_hex = nt_ntime_hex t, np_clean_jobs = nt_clean_jobs t\<rparr>"

definition into_pool_job :: "(string \<Rightarrow> bytes option) \<Rightarrow> node_template \<Rightarrow> node_error + pool_job" where
  "into_pool_job hexd t =
     result_bind (lift_consensus (decode_hash32_hex hexd ''share_target_hex'' (nt_share_target_hex t))) (\<lambda>share_target.
     result_bind (lift_consensus (decode_hash32_hex hexd ''network_target_hex'' (nt_network_target_hex t))) (\<lambda>network_target.
     job_from_notify hexd (template_notify t) share_target network_target))"

definition easy_static_job :: "(string \<Rightarrow> bytes option) \<Rightarrow> string \<Rightarrow> node_error + pool_job" where
  "easy_static_job hexd job_id = job_from_notify hexd
     \<lparr>np_job_id = job_id, np_prev_hash_be_hex = replicate 64 CHR ''0'', np_coinb1_hex = ''aa'',
      np_coinb2_hex = ''bb'', np_merkle_branches_hex = [], np_version_hex = ''20000000'',
      np_nbits_hex = ''207fffff'', np_ntime_hex = ''665544cc'', np_clean_jobs = True\<rparr>
     (replicate 32 0xff) (replicate 32 0)"

definition node_tip :: "(string \<Rightarrow> bytes option) \<Rightarrow> string option \<Rightarrow> node_error + hash32 option" where
  "node_tip hexd tip =
     (case tip of
        None \<Rightarrow> Inr None
      | Some t \<Rightarrow> result_bind (lift_consensus (decode_hash32_hex hexd ''node_tip''
          (case strip_prefix ''0x'' t of Some v \<Rightarrow> v | None \<Rightarrow> t))) (\<lambda>hash. Inr (Some hash)))"

section \<open>Full block templates\<close>

definition candidate_template_material ::
  "(string \<Rightarrow> bytes option) \<Rightarrow> (bytes \<Rightarrow> bytes) \<Rightarrow> string option \<Rightarrow> string option \<Rightarrow> u64 option
    \<Rightarrow> node_error + candidate_material option" where
  "candidate_template_material hexd sha256 block_template_hex block_template_sha256_hex block_template_bytes =
     (case (block_template_hex, block_template_sha256_hex, block_template_bytes) of
        (Some template_hex, Some expected_sha256, Some expected_bytes) \<Rightarrow>
          if max_template_hex_len < length template_hex \<or> odd (length template_hex)
          then Inl (NodeInvalidResponse ''block_template_hex exceeds the encoded block limit or has odd length'')
          else if max_block_bytes < unat expected_bytes
          then Inl (NodeInvalidResponse ''block_template_bytes exceeds the consensus block limit'')
          else result_bind (ok_or (NodeInvalidResponse ''block_template_hex is invalid hex'') (hexd template_hex)) (\<lambda>bytes.
            if length bytes \<noteq> unat expected_bytes
            then Inl (NodeInvalidResponse ''block_template_bytes does not match decoded template length'')
            else let actual_sha256 = hex_encode (sha256 bytes) in
              if \<not> eq_ignore_ascii_case actual_sha256 expected_sha256
              then Inl (NodeInvalidResponse ''block_template_sha256_hex does not match template bytes'')
              else Inr (Some \<lparr>cm_block_template_hex = to_ascii_lowercase template_hex,
                cm_block_template_sha256_hex = actual_sha256, cm_block_template_bytes = expected_bytes\<rparr>))
      | (None, None, None) \<Rightarrow> Inr None
      | _ \<Rightarrow> Inl (NodeInvalidResponse ''stateless block template fields are incomplete''))"

record stateless_template =
  sl_template :: node_template
  sl_block_template_hex :: string
  sl_block_template_sha256_hex :: string
  sl_block_template_bytes :: u64

definition into_parts ::
  "(string \<Rightarrow> bytes option) \<Rightarrow> (bytes \<Rightarrow> bytes) \<Rightarrow> stateless_template
    \<Rightarrow> node_error + (node_template \<times> candidate_material)" where
  "into_parts hexd sha256 full =
     result_bind (candidate_template_material hexd sha256 (Some (sl_block_template_hex full))
       (Some (sl_block_template_sha256_hex full)) (Some (sl_block_template_bytes full))) (\<lambda>m.
     result_bind (ok_or (NodeInvalidResponse ''stateless block template material is missing'') m) (\<lambda>material.
     Inr (sl_template full, material)))"

definition stateless_into_pool_job ::
  "(string \<Rightarrow> bytes option) \<Rightarrow> (bytes \<Rightarrow> bytes) \<Rightarrow> stateless_template
    \<Rightarrow> node_error + (pool_job \<times> candidate_material)" where
  "stateless_into_pool_job hexd sha256 full =
     result_bind (into_parts hexd sha256 full) (\<lambda>(template, material).
     result_bind (into_pool_job hexd template) (\<lambda>job. Inr (job, material)))"

text \<open>What a material that passed the check is: the bytes it encodes have its length and its digest.\<close>

definition material_sound ::
  "(string \<Rightarrow> bytes option) \<Rightarrow> (bytes \<Rightarrow> bytes) \<Rightarrow> candidate_material \<Rightarrow> bool" where
  "material_sound hexd sha256 m \<longleftrightarrow> (case hexd (cm_block_template_hex m) of
     None \<Rightarrow> False
   | Some bytes \<Rightarrow> length bytes = unat (cm_block_template_bytes m) \<and> length bytes \<le> max_block_bytes
       \<and> length (cm_block_template_hex m) = 2 * length bytes
       \<and> cm_block_template_sha256_hex m = hex_encode (sha256 bytes))"

lemma into_parts_sound:
  assumes "hex_decoder hexd" and "into_parts hexd sha256 full = Inr (template, material)"
  shows "template = sl_template full \<and> material_sound hexd sha256 material"
  using assms(2)
  by (auto simp: into_parts_def candidate_template_material_def result_bind_eq_Inr material_sound_def
      hex_decoder.decode_lowercase [OF assms(1)] hex_decoder.decode_length [OF assms(1)] Let_def split: if_splits)

section \<open>The cache of materials\<close>

record cache_entry =
  te_template :: node_template
  te_slot :: nat
  te_fetch_started :: bool

record template_cache =
  tc_entries :: "string \<rightharpoonup> cache_entry"
  tc_order :: "string list"
  tc_slots :: "candidate_material option list"

definition empty_cache :: template_cache where
  "empty_cache = \<lparr>tc_entries = Map.empty, tc_order = [], tc_slots = []\<rparr>"

text \<open>\<open>entries.remove(job_id)\<close>, and the slot of the removed entry is emptied.\<close>

definition remove_entry :: "string \<Rightarrow> template_cache \<Rightarrow> template_cache" where
  "remove_entry job_id c =
     (case tc_entries c job_id of
        None \<Rightarrow> c
      | Some e \<Rightarrow> c\<lparr>tc_entries := (tc_entries c)(job_id := None), tc_slots := (tc_slots c)[te_slot e := None]\<rparr>)"

text \<open>The loop that makes room: the entries added first leave.\<close>

fun evict_entries :: "string list \<Rightarrow> template_cache \<Rightarrow> template_cache" where
  "evict_entries [] c = c\<lparr>tc_order := []\<rparr>"
| "evict_entries (oldest # order) c =
     (if max_cache_entries < length (oldest # order)
      then evict_entries order (remove_entry oldest c)
      else c\<lparr>tc_order := oldest # order\<rparr>)"

text \<open>An entry with a new, empty slot.\<close>

definition new_entry :: "node_template \<Rightarrow> template_cache \<Rightarrow> template_cache" where
  "new_entry t c =
     c\<lparr>tc_entries := (tc_entries c)(nt_job_id t \<mapsto>
         \<lparr>te_template = t, te_slot = length (tc_slots c), te_fetch_started = True\<rparr>),
       tc_order := tc_order c @ [nt_job_id t], tc_slots := tc_slots c @ [None]\<rparr>"

definition slot_for :: "node_template \<Rightarrow> template_cache \<Rightarrow> template_cache \<times> nat \<times> bool" where
  "slot_for t c =
     (case tc_entries c (nt_job_id t) of
        Some e \<Rightarrow>
          if te_template e = t
          then (c\<lparr>tc_entries := (tc_entries c)(nt_job_id t \<mapsto> e\<lparr>te_fetch_started := True\<rparr>)\<rparr>,
                te_slot e, \<not> te_fetch_started e \<and> tc_slots c ! te_slot e = None)
          else (let c' = remove_entry (nt_job_id t) c;
                    c' = new_entry t (c'\<lparr>tc_order := filter (\<lambda>j. j \<noteq> nt_job_id t) (tc_order c')\<rparr>)
                in (evict_entries (tc_order c') c', length (tc_slots c), True))
      | None \<Rightarrow> (let c' = new_entry t c in (evict_entries (tc_order c') c', length (tc_slots c), True)))"

definition cancel_fetch :: "string \<Rightarrow> template_cache \<Rightarrow> template_cache" where
  "cancel_fetch job_id c =
     (case tc_entries c job_id of
        None \<Rightarrow> c
      | Some e \<Rightarrow> c\<lparr>tc_entries := (tc_entries c)(job_id \<mapsto> e\<lparr>te_fetch_started := False\<rparr>)\<rparr>)"

definition finish_fetch ::
  "node_template \<Rightarrow> nat \<Rightarrow> candidate_material option \<Rightarrow> template_cache \<Rightarrow> template_cache" where
  "finish_fetch t slot material c =
     (case tc_entries c (nt_job_id t) of
        None \<Rightarrow> c
      | Some e \<Rightarrow>
          if te_template e \<noteq> t \<or> te_slot e \<noteq> slot then c
          else (let c' = c\<lparr>tc_entries := (tc_entries c)(nt_job_id t \<mapsto> e\<lparr>te_fetch_started := False\<rparr>)\<rparr> in
                case material of
                  None \<Rightarrow> c'
                | Some m \<Rightarrow> c'\<lparr>tc_slots := (tc_slots c)[te_slot e := Some m]\<rparr>))"

section \<open>The live provider\<close>

text \<open>
  A fetch task: it waits for the permit, asks the node, and then, without another await, hands its
  result to the cache; an abort takes effect at an await, if at all. A caller that has to start a
  fetch first waits for the lock on the fetch in flight (\<open>ps_starting\<close>) and then holds it
  (\<open>ps_lock\<close>), together with the job id whose fetch it has aborted and has still to cancel.
\<close>

datatype task_state =
  AwaitPermit | AwaitNode | FetchDone "candidate_material option" | TaskEnded

record fetch_task =
  tk_template :: node_template
  tk_slot :: nat
  tk_state :: task_state
  tk_aborted :: bool

record live_provider =
  ps_stateless_full :: bool
  ps_cache :: template_cache
  ps_handed :: "(node_template \<times> nat) list"
  ps_starting :: "(node_template \<times> nat) list"
  ps_lock :: "((node_template \<times> nat) \<times> string option) option"
  ps_in_flight :: "(string \<times> nat) option"
  ps_tasks :: "fetch_task list"

definition provider_new :: "bool \<Rightarrow> live_provider" where
  "provider_new stateless_full = \<lparr>ps_stateless_full = stateless_full, ps_cache = empty_cache, ps_handed = [],
     ps_starting = [], ps_lock = None, ps_in_flight = None, ps_tasks = []\<rparr>"

text \<open>
  \<open>current_job\<close> up to the lock on the fetch in flight. The slot of a job made without
  \<open>stateless_full\<close> is its own and stays empty: it is \<open>None\<close> here.
\<close>

definition current_job ::
  "(string \<Rightarrow> bytes option) \<Rightarrow> node_error + node_template \<Rightarrow> live_provider
    \<Rightarrow> live_provider \<times> (node_error + (pool_job \<times> nat option))" where
  "current_job hexd answer p =
     (case result_bind answer (\<lambda>t. result_bind (into_pool_job hexd t) (\<lambda>job. Inr (t, job))) of
        Inl e \<Rightarrow> (p, Inl e)
      | Inr (t, job) \<Rightarrow>
          if \<not> ps_stateless_full p then (p, Inr (job, None))
          else (let (c, slot, should_fetch) = slot_for t (ps_cache p) in
                (p\<lparr>ps_cache := c, ps_handed := ps_handed p @ [(t, slot)],
                   ps_starting := ps_starting p @ (if should_fetch then [(t, slot)] else [])\<rparr>,
                 Inr (job, Some slot))))"

text \<open>The lock is taken, and the fetch in flight aborted if it is for another job.\<close>

definition lock_in_flight :: "nat \<Rightarrow> live_provider \<Rightarrow> live_provider" where
  "lock_in_flight i p =
     (let (t, slot) = ps_starting p ! i;
          p' = p\<lparr>ps_starting := take i (ps_starting p) @ drop (Suc i) (ps_starting p)\<rparr>
      in case ps_in_flight p of
           Some (previous_job_id, previous) \<Rightarrow>
             if previous_job_id \<noteq> nt_job_id t
             then p'\<lparr>ps_lock := Some ((t, slot), Some previous_job_id),
                     ps_tasks := (ps_tasks p)[previous := (ps_tasks p ! previous)\<lparr>tk_aborted := True\<rparr>]\<rparr>
             else p'\<lparr>ps_lock := Some ((t, slot), None)\<rparr>
         | None \<Rightarrow> p'\<lparr>ps_lock := Some ((t, slot), None)\<rparr>)"

definition spawn_fetch :: "live_provider \<Rightarrow> live_provider" where
  "spawn_fetch p =
     (case ps_lock p of
        None \<Rightarrow> p
      | Some ((t, slot), cancelled) \<Rightarrow>
          p\<lparr>ps_cache := (case cancelled of None \<Rightarrow> ps_cache p | Some j \<Rightarrow> cancel_fetch j (ps_cache p)),
            ps_tasks := ps_tasks p @ [\<lparr>tk_template = t, tk_slot = slot, tk_state = AwaitPermit, tk_aborted = False\<rparr>],
            ps_in_flight := Some (nt_job_id t, length (ps_tasks p)), ps_lock := None\<rparr>)"

text \<open>The material of an answer, if its parts are sound and its base is the template of the job.\<close>

definition fetched_material ::
  "(string \<Rightarrow> bytes option) \<Rightarrow> (bytes \<Rightarrow> bytes) \<Rightarrow> node_template \<Rightarrow> stateless_template option
    \<Rightarrow> candidate_material option" where
  "fetched_material hexd sha256 t answer =
     (case answer of
        None \<Rightarrow> None
      | Some full \<Rightarrow> (case into_parts hexd sha256 full of
          Inr (full_base, material) \<Rightarrow> if full_base = t then Some material else None
        | Inl _ \<Rightarrow> None))"

definition set_task :: "nat \<Rightarrow> task_state \<Rightarrow> live_provider \<Rightarrow> live_provider" where
  "set_task i s p = p\<lparr>ps_tasks := (ps_tasks p)[i := (ps_tasks p ! i)\<lparr>tk_state := s\<rparr>]\<rparr>"

definition fetching :: "live_provider \<Rightarrow> nat" where
  "fetching p = length (filter (\<lambda>k. tk_state k = AwaitNode) (ps_tasks p))"

text \<open>
  The steps of the callers and of the tasks. A failed or late answer of the node is \<open>None\<close>; the one
  permit is held while the task awaits the node.
\<close>

inductive provider_step ::
  "(string \<Rightarrow> bytes option) \<Rightarrow> (bytes \<Rightarrow> bytes) \<Rightarrow> live_provider \<Rightarrow> live_provider \<Rightarrow> bool"
  for hexd :: "string \<Rightarrow> bytes option" and sha256 :: "bytes \<Rightarrow> bytes" where
  Request: "provider_step hexd sha256 p (fst (current_job hexd answer p))"
| Lock: "i < length (ps_starting p) \<Longrightarrow> ps_lock p = None \<Longrightarrow> provider_step hexd sha256 p (lock_in_flight i p)"
| Spawn: "ps_lock p \<noteq> None \<Longrightarrow> provider_step hexd sha256 p (spawn_fetch p)"
| Acquire: "i < length (ps_tasks p) \<Longrightarrow> tk_state (ps_tasks p ! i) = AwaitPermit \<Longrightarrow> fetching p = 0
    \<Longrightarrow> provider_step hexd sha256 p (set_task i AwaitNode p)"
| Answer: "i < length (ps_tasks p) \<Longrightarrow> tk_state (ps_tasks p ! i) = AwaitNode
    \<Longrightarrow> provider_step hexd sha256 p
          (set_task i (FetchDone (fetched_material hexd sha256 (tk_template (ps_tasks p ! i)) answer)) p)"
| Finish: "i < length (ps_tasks p) \<Longrightarrow> tk_state (ps_tasks p ! i) = FetchDone material
    \<Longrightarrow> provider_step hexd sha256 p ((set_task i TaskEnded p)\<lparr>ps_cache :=
          finish_fetch (tk_template (ps_tasks p ! i)) (tk_slot (ps_tasks p ! i)) material (ps_cache p)\<rparr>)"
| Dropped: "i < length (ps_tasks p) \<Longrightarrow> tk_state (ps_tasks p ! i) \<in> {AwaitPermit, AwaitNode}
    \<Longrightarrow> tk_aborted (ps_tasks p ! i) \<Longrightarrow> provider_step hexd sha256 p (set_task i TaskEnded p)"

inductive provider_reachable ::
  "(string \<Rightarrow> bytes option) \<Rightarrow> (bytes \<Rightarrow> bytes) \<Rightarrow> bool \<Rightarrow> live_provider \<Rightarrow> bool"
  for hexd :: "string \<Rightarrow> bytes option" and sha256 :: "bytes \<Rightarrow> bytes" and stateless_full :: bool where
  Start: "provider_reachable hexd sha256 stateless_full (provider_new stateless_full)"
| Step: "provider_reachable hexd sha256 stateless_full p \<Longrightarrow> provider_step hexd sha256 p p'
    \<Longrightarrow> provider_reachable hexd sha256 stateless_full p'"

section \<open>What the cache keeps\<close>

text \<open>
  The template and the slot of an entry, without the mark of its fetch. Every entry is filed under
  the id of its template and has a slot of its own, and a slot without an entry is empty.
\<close>

definition view :: "template_cache \<Rightarrow> string \<rightharpoonup> node_template \<times> nat" where
  "view c j = map_option (\<lambda>e. (te_template e, te_slot e)) (tc_entries c j)"

definition entries_ok :: "template_cache \<Rightarrow> bool" where
  "entries_ok c \<longleftrightarrow>
     (\<forall>j t s. view c j = Some (t, s) \<longrightarrow> nt_job_id t = j \<and> s < length (tc_slots c))
   \<and> (\<forall>j t j' t' s. view c j = Some (t, s) \<and> view c j' = Some (t', s) \<longrightarrow> j = j')
   \<and> (\<forall>s < length (tc_slots c). tc_slots c ! s \<noteq> None \<longrightarrow> (\<exists>j t. view c j = Some (t, s)))"

definition cache_ok :: "template_cache \<Rightarrow> bool" where
  "cache_ok c \<longleftrightarrow> entries_ok c \<and> dom (view c) = set (tc_order c) \<and> distinct (tc_order c)
     \<and> length (tc_order c) \<le> max_cache_entries"

text \<open>The slot of a job: only an entry for its template may have it.\<close>

definition tied :: "template_cache \<Rightarrow> node_template \<times> nat \<Rightarrow> bool" where
  "tied c ts \<longleftrightarrow> snd ts < length (tc_slots c) \<and> (\<forall>j t. view c j = Some (t, snd ts) \<longrightarrow> t = fst ts)"

text \<open>A material that an answer of the node proves to belong to a template.\<close>

definition verified_for ::
  "(string \<Rightarrow> bytes option) \<Rightarrow> (bytes \<Rightarrow> bytes) \<Rightarrow> node_template \<Rightarrow> candidate_material \<Rightarrow> bool" where
  "verified_for hexd sha256 t m \<longleftrightarrow> (\<exists>full. into_parts hexd sha256 full = Inr (t, m))"

definition cache_sound ::
  "(string \<Rightarrow> bytes option) \<Rightarrow> (bytes \<Rightarrow> bytes) \<Rightarrow> template_cache \<Rightarrow> bool" where
  "cache_sound hexd sha256 c \<longleftrightarrow> (\<forall>j t s m. view c j = Some (t, s) \<and> tc_slots c ! s = Some m
     \<longrightarrow> verified_for hexd sha256 t m)"

text \<open>An entry whose fetch has started and whose slot is still empty.\<close>

definition started :: "template_cache \<Rightarrow> string \<Rightarrow> bool" where
  "started c j \<longleftrightarrow> (case tc_entries c j of None \<Rightarrow> False | Some e \<Rightarrow> te_fetch_started e)"

definition waiting :: "template_cache \<Rightarrow> string \<Rightarrow> node_template \<times> nat \<Rightarrow> bool" where
  "waiting c j ts \<longleftrightarrow> view c j = Some ts \<and> started c j \<and> tc_slots c ! snd ts = None"

lemma entries_okD:
  assumes "entries_ok c"
  shows "view c j = Some (t, s) \<Longrightarrow> nt_job_id t = j" "view c j = Some (t, s) \<Longrightarrow> s < length (tc_slots c)"
    "view c j = Some (t, s) \<Longrightarrow> view c j' = Some (t', s) \<Longrightarrow> j = j'"
    "s < length (tc_slots c) \<Longrightarrow> tc_slots c ! s \<noteq> None \<Longrightarrow> \<exists>j t. view c j = Some (t, s)"
  using assms unfolding entries_ok_def by blast+

lemma entries_okI:
  assumes "\<And>j t s. view c j = Some (t, s) \<Longrightarrow> nt_job_id t = j \<and> s < length (tc_slots c)"
    and "\<And>j t j' t' s. view c j = Some (t, s) \<Longrightarrow> view c j' = Some (t', s) \<Longrightarrow> j = j'"
    and "\<And>s. s < length (tc_slots c) \<Longrightarrow> tc_slots c ! s \<noteq> None \<Longrightarrow> \<exists>j t. view c j = Some (t, s)"
  shows "entries_ok c"
  using assms unfolding entries_ok_def by blast

lemma cache_soundD:
  "cache_sound hexd sha256 c \<Longrightarrow> view c j = Some (t, s) \<Longrightarrow> tc_slots c ! s = Some m \<Longrightarrow> verified_for hexd sha256 t m"
  unfolding cache_sound_def by blast

text \<open>Only marks of fetches change.\<close>

lemma same_view_keeps:
  assumes "view c' = view c" and "tc_slots c' = tc_slots c"
  shows "entries_ok c' = entries_ok c" "tied c' = tied c" "cache_sound hexd sha256 c' = cache_sound hexd sha256 c"
    "tc_order c' = tc_order c \<Longrightarrow> cache_ok c' = cache_ok c"
  by (simp_all add: entries_ok_def tied_def [abs_def] cache_sound_def cache_ok_def assms)

lemma view_update_order [simp]: "view (c\<lparr>tc_order := ks\<rparr>) = view c"
  by (simp add: view_def fun_eq_iff)

lemmas order_irrelevant [simp] =
  same_view_keeps(1,2) [of "c\<lparr>tc_order := ks\<rparr>" c for c ks, OF view_update_order, simplified]

text \<open>Entries only leave, and those that stay keep their slots.\<close>

definition shrinks :: "template_cache \<Rightarrow> template_cache \<Rightarrow> bool" where
  "shrinks c c' \<longleftrightarrow> length (tc_slots c') = length (tc_slots c)
     \<and> (\<forall>j t s. view c' j = Some (t, s) \<longrightarrow> view c j = Some (t, s) \<and> tc_slots c' ! s = tc_slots c ! s
          \<and> started c' j = started c j)"

lemma shrinksD:
  assumes "shrinks c c'"
  shows "length (tc_slots c') = length (tc_slots c)" "view c' j = Some (t, s) \<Longrightarrow> view c j = Some (t, s)"
    "view c' j = Some (t, s) \<Longrightarrow> tc_slots c' ! s = tc_slots c ! s" "view c' j = Some (t, s) \<Longrightarrow> started c' j = started c j"
  using assms unfolding shrinks_def by blast+

lemma shrinks_refl [simp]: "shrinks c (c\<lparr>tc_order := ks\<rparr>)"
  by (simp add: shrinks_def started_def)

lemma shrinks_trans: "shrinks c c' \<Longrightarrow> shrinks c' c'' \<Longrightarrow> shrinks c c''"
  unfolding shrinks_def by metis

lemma shrinks_keeps:
  assumes "shrinks c c'"
  shows "tied c ts \<Longrightarrow> tied c' ts" "cache_sound hexd sha256 c \<Longrightarrow> cache_sound hexd sha256 c'"
    "waiting c' j ts \<Longrightarrow> waiting c j ts"
proof -
  note kept = shrinksD [OF assms]
  show "tied c ts \<Longrightarrow> tied c' ts" using kept(1,2) unfolding tied_def by metis
  show "cache_sound hexd sha256 c \<Longrightarrow> cache_sound hexd sha256 c'"
    using kept(2,3) unfolding cache_sound_def by metis
  show "waiting c' j ts \<Longrightarrow> waiting c j ts" using kept(2-4) by (cases ts) (auto simp: waiting_def)
qed

lemma view_remove: "view (remove_entry j c) = (view c)(j := None)"
  by (auto simp: remove_entry_def view_def fun_eq_iff split: option.split)

lemma slots_remove:
  "tc_slots (remove_entry j c) = (case view c j of None \<Rightarrow> tc_slots c | Some (t, s) \<Rightarrow> (tc_slots c)[s := None])"
  by (simp add: remove_entry_def view_def split: option.split)

lemma order_remove [simp]: "tc_order (remove_entry j c) = tc_order c"
  by (simp add: remove_entry_def split: option.split)

lemma started_remove: "k \<noteq> j \<Longrightarrow> started (remove_entry j c) k = started c k"
  by (simp add: remove_entry_def started_def split: option.split)

lemma remove_entry_ok:
  assumes "entries_ok c"
  shows "entries_ok (remove_entry j c)" "shrinks c (remove_entry j c)"
proof -
  note own = entries_okD [OF assms]
  let ?c = "remove_entry j c"
  have len: "length (tc_slots ?c) = length (tc_slots c)" by (simp add: slots_remove split: option.split)
  have kept: "tc_slots ?c ! s = tc_slots c ! s" if "view c k = Some (t, s)" "k \<noteq> j" for k t s
    using own(3) [OF that(1), of j] that(2) by (auto simp: slots_remove split: option.split intro!: nth_list_update_neq)
  then show "shrinks c ?c"
    by (auto simp: shrinks_def len view_remove started_remove split: if_splits)
  have "\<exists>k t. view ?c k = Some (t, s)" if "s < length (tc_slots c)" "tc_slots ?c ! s \<noteq> None" for s
  proof -
    have "tc_slots c ! s \<noteq> None \<and> \<not> (\<exists>t. view c j = Some (t, s))"
    proof (cases "view c j")
      case (Some ts)
      then show ?thesis
        using that own(2) [of j "fst ts" "snd ts"] by (cases ts) (auto simp: slots_remove nth_list_update split: if_splits)
    qed (use that in \<open>simp add: slots_remove\<close>)
    then show ?thesis using own(4) [OF that(1)] by (metis view_remove fun_upd_other)
  qed
  note occupied = this
  have old: "view c k = Some ts" if "view ?c k = Some ts" for k ts
    using that by (simp add: view_remove split: if_splits)
  show "entries_ok ?c"
  proof (rule entries_okI)
    fix k t s assume "view ?c k = Some (t, s)"
    then show "nt_job_id t = k \<and> s < length (tc_slots ?c)" using own(1,2) old unfolding len by blast
  next
    fix k t k' t' s assume "view ?c k = Some (t, s)" "view ?c k' = Some (t', s)"
    then show "k = k'" using own(3) old by blast
  qed (use occupied len in simp)
qed

lemma evict_entries_ok:
  assumes "entries_ok c" and "dom (view c) = set order" and "distinct order"
  shows "cache_ok (evict_entries order c) \<and> shrinks c (evict_entries order c)"
  using assms
proof (induction order arbitrary: c)
  case Nil
  then show ?case by (simp add: cache_ok_def)
next
  case (Cons oldest order)
  show ?case
  proof (cases "max_cache_entries < length (oldest # order)")
    case True
    note removed = remove_entry_ok [OF Cons.prems(1), of oldest]
    have "cache_ok (evict_entries order (remove_entry oldest c))
        \<and> shrinks (remove_entry oldest c) (evict_entries order (remove_entry oldest c))"
      using Cons.prems by (intro Cons.IH) (simp_all add: removed view_remove dom_fun_upd del: fun_upd_apply)
    then show ?thesis using True removed(2) by (auto intro: shrinks_trans)
  next
    case False
    then show ?thesis using Cons.prems by (simp add: cache_ok_def)
  qed
qed

text \<open>What \<open>slot_for\<close> does to a cache, in whatever way it finds the slot.\<close>

definition slot_taken :: "template_cache \<Rightarrow> node_template \<times> nat \<Rightarrow> bool \<Rightarrow> template_cache \<Rightarrow> bool" where
  "slot_taken c ts should_fetch c' \<longleftrightarrow> cache_ok c' \<and> tied c' ts
     \<and> (\<forall>ts'. tied c ts' \<longrightarrow> tied c' ts')
     \<and> (\<forall>hexd sha256. cache_sound hexd sha256 c \<longrightarrow> cache_sound hexd sha256 c')
     \<and> (\<forall>j ts'. waiting c' j ts' \<longrightarrow> waiting c j ts' \<or> should_fetch \<and> ts' = ts)"

lemma slot_taken_shrinks:
  assumes "slot_taken c ts b c'" and "shrinks c0 c"
  shows "slot_taken c0 ts b c'"
  using assms(1) shrinks_keeps [OF assms(2)] unfolding slot_taken_def by blast

lemma new_entry_simps:
  "view (new_entry t c) = (view c)(nt_job_id t \<mapsto> (t, length (tc_slots c)))"
  "tc_order (new_entry t c) = tc_order c @ [nt_job_id t]" "tc_slots (new_entry t c) = tc_slots c @ [None]"
  "started (new_entry t c) j = (j = nt_job_id t \<or> started c j)"
  by (auto simp: new_entry_def view_def started_def fun_eq_iff)

lemma new_entry_ok:
  assumes ok: "entries_ok c" and order: "dom (view c) = set (tc_order c)" "distinct (tc_order c)"
    and new: "view c (nt_job_id t) = None"
  shows "slot_taken c (t, length (tc_slots c)) True (evict_entries (tc_order (new_entry t c)) (new_entry t c))"
proof -
  let ?c = "new_entry t c"
  note own = entries_okD [OF ok]
  have fresh: "view c j \<noteq> Some (t', length (tc_slots c))" for j t' using own(2) by blast
  have slots: "tc_slots ?c ! s = tc_slots c ! s" if "view c j = Some (t', s)" for j t' s
    using own(2) [OF that] by (simp add: new_entry_simps nth_append)
  have "entries_ok ?c"
    unfolding entries_ok_def
  proof (intro conjI allI impI)
    fix j t' s assume "view ?c j = Some (t', s)"
    then show "nt_job_id t' = j" "s < length (tc_slots ?c)"
      using own(1,2) [of j t' s] by (auto simp: new_entry_simps split: if_splits)
  next
    fix j t1 j' t2 s assume "view ?c j = Some (t1, s) \<and> view ?c j' = Some (t2, s)"
    then show "j = j'" using own(3) [of j t1 s j' t2] fresh by (auto simp: new_entry_simps split: if_splits)
  next
    fix s assume "s < length (tc_slots ?c)" "tc_slots ?c ! s \<noteq> None"
    then have "s < length (tc_slots c)" "tc_slots c ! s \<noteq> None"
      by (auto simp: new_entry_simps nth_append less_Suc_eq split: if_splits)
    from own(4) [OF this] show "\<exists>j t. view ?c j = Some (t, s)"
      using new by (metis new_entry_simps(1) fun_upd_other option.distinct(1))
  qed
  then have evicted: "cache_ok (evict_entries (tc_order ?c) ?c)" "shrinks ?c (evict_entries (tc_order ?c) ?c)"
    using evict_entries_ok [of ?c "tc_order ?c"] order new by (auto simp: new_entry_simps)
  have "tied ?c (t, length (tc_slots c))"
    using fresh by (auto simp: tied_def new_entry_simps)
  moreover have "tied ?c ts" if "tied c ts" for ts
    using that by (auto simp: tied_def new_entry_simps)
  moreover have "cache_sound hexd sha256 ?c" if "cache_sound hexd sha256 c" for hexd sha256
    unfolding cache_sound_def
    using cache_soundD [OF that] slots by (auto simp: new_entry_simps(1) split: if_splits) (simp add: new_entry_simps)
  moreover have "waiting c j ts \<or> ts = (t, length (tc_slots c))" if "waiting ?c j ts" for j ts
    using that slots [of j "fst ts" "snd ts"] by (auto simp: waiting_def new_entry_simps(1,4) split: if_splits)
  ultimately show ?thesis
    unfolding slot_taken_def using evicted(1) shrinks_keeps [OF evicted(2)] by blast
qed

lemma slot_for_ok:
  assumes ok: "cache_ok c" and result: "slot_for t c = (c', slot, should_fetch)"
  shows "slot_taken c (t, slot) should_fetch c'"
proof (cases "tc_entries c (nt_job_id t)")
  case None
  then show ?thesis using new_entry_ok [of c t] assms by (simp add: slot_for_def cache_ok_def Let_def view_def)
next
  case (Some e)
  have entries: "entries_ok c" using ok by (simp add: cache_ok_def)
  note own = entries_okD [OF entries]
  show ?thesis
  proof (cases "te_template e = t")
    case True
    have result: "c' = c\<lparr>tc_entries := (tc_entries c)(nt_job_id t \<mapsto> e\<lparr>te_fetch_started := True\<rparr>)\<rparr>"
      "slot = te_slot e" "should_fetch = (\<not> te_fetch_started e \<and> tc_slots c ! te_slot e = None)"
      using result Some True by (auto simp: slot_for_def)
    have same: "view c' = view c" "tc_slots c' = tc_slots c" "tc_order c' = tc_order c"
      "view c (nt_job_id t) = Some (t, slot)"
      using Some True by (auto simp: result view_def fun_eq_iff)
    have "tied c (t, slot)"
      using own(2) [OF same(4)] own(3) [OF same(4)] same(4) by (fastforce simp: tied_def)
    moreover have "waiting c j ts \<or> should_fetch \<and> ts = (t, slot)" if "waiting c' j ts" for j ts
      using that same Some by (auto simp: waiting_def result started_def split: if_splits)
    ultimately show ?thesis
      using ok same_view_keeps [OF same(1,2)] same(3) by (simp add: slot_taken_def)
  next
    case False
    let ?c = "(remove_entry (nt_job_id t) c)\<lparr>tc_order := filter (\<lambda>j. j \<noteq> nt_job_id t) (tc_order c)\<rparr>"
    have shrunk: "shrinks c ?c"
      using remove_entry_ok(2) [OF entries] shrinks_refl by (rule shrinks_trans)
    have "slot_taken ?c (t, length (tc_slots ?c)) True (evict_entries (tc_order (new_entry t ?c)) (new_entry t ?c))"
      using remove_entry_ok(1) [OF entries] ok by (intro new_entry_ok) (auto simp: cache_ok_def view_remove)
    then have "slot_taken ?c (t, slot) should_fetch c'"
      using result Some False shrinksD(1) [OF shrunk] by (simp add: slot_for_def Let_def)
    then show ?thesis using shrunk by (rule slot_taken_shrinks)
  qed
qed

lemma cancel_fetch_simps:
  "view (cancel_fetch j c) = view c" "tc_slots (cancel_fetch j c) = tc_slots c" "tc_order (cancel_fetch j c) = tc_order c"
  "started (cancel_fetch j c) k \<longleftrightarrow> started c k \<and> k \<noteq> j"
  by (auto simp: cancel_fetch_def view_def started_def fun_eq_iff split: option.splits)

lemma finish_fetch_fields:
  "view (finish_fetch t slot material c) = view c" "tc_order (finish_fetch t slot material c) = tc_order c"
  "tc_slots (finish_fetch t slot material c) =
     (if material \<noteq> None \<and> view c (nt_job_id t) = Some (t, slot) then (tc_slots c)[slot := material] else tc_slots c)"
  "started (finish_fetch t slot material c) k \<longleftrightarrow>
     started c k \<and> \<not> (k = nt_job_id t \<and> view c k = Some (t, slot))"
  by (auto simp: finish_fetch_def view_def started_def fun_eq_iff Let_def split: option.splits)

lemma finish_fetch_ok:
  assumes ok: "cache_ok c" and done_ok: "\<And>m. material = Some m \<Longrightarrow> verified_for hexd sha256 t m"
  shows "cache_ok (finish_fetch t slot material c)" "tied c ts \<Longrightarrow> tied (finish_fetch t slot material c) ts"
    "cache_sound hexd sha256 c \<Longrightarrow> cache_sound hexd sha256 (finish_fetch t slot material c)"
    "waiting (finish_fetch t slot material c) j ts \<Longrightarrow> waiting c j ts \<and> ts \<noteq> (t, slot)"
proof -
  let ?c = "finish_fetch t slot material c"
  have entries: "entries_ok c" using ok by (simp add: cache_ok_def)
  note own = entries_okD [OF entries]
  have len: "length (tc_slots ?c) = length (tc_slots c)" by (simp add: finish_fetch_fields)
  have slots: "tc_slots ?c ! s = (if s = slot \<and> material \<noteq> None \<and> view c (nt_job_id t) = Some (t, slot)
      then material else tc_slots c ! s)" if "s < length (tc_slots c)" for s
    using that by (auto simp: finish_fetch_fields nth_list_update)
  have "\<exists>j t. view ?c j = Some (t, s)" if "s < length (tc_slots ?c)" "tc_slots ?c ! s \<noteq> None" for s
    using that own(4) [of s] by (auto simp: len slots finish_fetch_fields(1) split: if_splits)
  then have "entries_ok ?c" using own(1-3) unfolding entries_ok_def len finish_fetch_fields(1) by blast
  then show "cache_ok ?c" using ok by (simp add: cache_ok_def finish_fetch_fields)
  show "tied ?c ts" if "tied c ts" using that by (simp add: tied_def len finish_fetch_fields(1))
  show "cache_sound hexd sha256 ?c" if "cache_sound hexd sha256 c"
    unfolding cache_sound_def
  proof (intro allI impI, elim conjE)
    fix k t' s m assume "view ?c k = Some (t', s)" and m: "tc_slots ?c ! s = Some m"
    then have k: "view c k = Some (t', s)" by (simp add: finish_fetch_fields)
    show "verified_for hexd sha256 t' m"
    proof (cases "s = slot \<and> material \<noteq> None \<and> view c (nt_job_id t) = Some (t, slot)")
      case True
      then have "k = nt_job_id t" using own(3) [OF k, of "nt_job_id t" t] by simp
      then show ?thesis using True k m done_ok slots [OF own(2) [OF k]] by simp
    next
      case False
      then have "tc_slots c ! s = Some m" using m slots [OF own(2) [OF k]] by (simp split: if_splits)
      with that k show ?thesis by (rule cache_soundD)
    qed
  qed
  show "waiting c j ts \<and> ts \<noteq> (t, slot)" if "waiting ?c j ts"
  proof -
    obtain t' s where ts: "ts = (t', s)" by (cases ts)
    have w: "view c j = Some (t', s)" "started ?c j" "tc_slots ?c ! s = None"
      using that by (simp_all add: waiting_def ts finish_fetch_fields(1))
    then have "tc_slots c ! s = None" using slots [OF own(2) [OF w(1)]] by (simp split: if_splits)
    then show ?thesis using w own(1) [OF w(1)] by (auto simp: waiting_def ts finish_fetch_fields(4))
  qed
qed

section \<open>What the provider keeps\<close>

text \<open>Somebody is there who will end a started fetch: a caller, a task, or a caller that cancels it.\<close>

definition task_live :: "fetch_task \<Rightarrow> bool" where
  "task_live k \<longleftrightarrow> \<not> tk_aborted k \<and> tk_state k \<noteq> TaskEnded"

definition attended :: "live_provider \<Rightarrow> string \<Rightarrow> node_template \<times> nat \<Rightarrow> bool" where
  "attended p j ts \<longleftrightarrow> ts \<in> set (ps_starting p) \<or> (\<exists>cancelled. ps_lock p = Some (ts, cancelled))
     \<or> (\<exists>other. ps_lock p = Some (other, Some j))
     \<or> (\<exists>k \<in> set (ps_tasks p). task_live k \<and> (tk_template k, tk_slot k) = ts)"

definition provider_inv ::
  "(string \<Rightarrow> bytes option) \<Rightarrow> (bytes \<Rightarrow> bytes) \<Rightarrow> live_provider \<Rightarrow> bool" where
  "provider_inv hexd sha256 p \<longleftrightarrow> cache_ok (ps_cache p) \<and> cache_sound hexd sha256 (ps_cache p)
     \<and> (\<forall>ts \<in> set (ps_handed p). tied (ps_cache p) ts)
     \<and> (\<forall>k \<in> set (ps_tasks p). \<forall>m. tk_state k = FetchDone (Some m) \<longrightarrow> verified_for hexd sha256 (tk_template k) m)
     \<and> (\<forall>j i. ps_in_flight p = Some (j, i) \<longrightarrow> i < length (ps_tasks p) \<and> nt_job_id (tk_template (ps_tasks p ! i)) = j)
     \<and> (\<forall>j ts. waiting (ps_cache p) j ts \<longrightarrow> attended p j ts)"

lemma provider_invI:
  assumes "cache_ok (ps_cache p)" "cache_sound hexd sha256 (ps_cache p)"
    and "\<And>ts. ts \<in> set (ps_handed p) \<Longrightarrow> tied (ps_cache p) ts"
    and "\<And>k m. k \<in> set (ps_tasks p) \<Longrightarrow> tk_state k = FetchDone (Some m) \<Longrightarrow> verified_for hexd sha256 (tk_template k) m"
    and "\<And>j i. ps_in_flight p = Some (j, i) \<Longrightarrow> i < length (ps_tasks p) \<and> nt_job_id (tk_template (ps_tasks p ! i)) = j"
    and "\<And>j ts. waiting (ps_cache p) j ts \<Longrightarrow> attended p j ts"
  shows "provider_inv hexd sha256 p"
  using assms unfolding provider_inv_def by blast

lemma provider_invD:
  assumes "provider_inv hexd sha256 p"
  shows "cache_ok (ps_cache p)" "cache_sound hexd sha256 (ps_cache p)"
    "ts \<in> set (ps_handed p) \<Longrightarrow> tied (ps_cache p) ts"
    "k \<in> set (ps_tasks p) \<Longrightarrow> tk_state k = FetchDone (Some m) \<Longrightarrow> verified_for hexd sha256 (tk_template k) m"
    "ps_in_flight p = Some (j, i) \<Longrightarrow> i < length (ps_tasks p) \<and> nt_job_id (tk_template (ps_tasks p ! i)) = j"
    "waiting (ps_cache p) j ts \<Longrightarrow> attended p j ts"
  using assms unfolding provider_inv_def by blast+

lemma provider_new_inv: "provider_inv hexd sha256 (provider_new stateless_full)"
  by (simp add: provider_inv_def provider_new_def empty_cache_def cache_ok_def entries_ok_def view_def [abs_def]
      cache_sound_def waiting_def)

lemma attended_more:
  "attended p j ts \<Longrightarrow> set (ps_starting p) \<subseteq> set (ps_starting p') \<Longrightarrow> ps_lock p' = ps_lock p \<Longrightarrow> ps_tasks p' = ps_tasks p
    \<Longrightarrow> attended p' j ts"
  unfolding attended_def by auto

lemma current_job_inv:
  assumes inv: "provider_inv hexd sha256 p"
  shows "provider_inv hexd sha256 (fst (current_job hexd answer p))"
proof (cases "result_bind answer (\<lambda>t. result_bind (into_pool_job hexd t) (\<lambda>job. Inr (t, job)))")
  case (Inr tj)
  obtain t job where tj: "tj = (t, job)" by (cases tj)
  obtain c slot should_fetch where slot: "slot_for t (ps_cache p) = (c, slot, should_fetch)" by (metis prod_cases3)
  note kept = provider_invD [OF inv]
  have taken: "slot_taken (ps_cache p) (t, slot) should_fetch c" by (rule slot_for_ok [OF kept(1) slot])
  show ?thesis
  proof (cases "ps_stateless_full p")
    case True
    let ?p = "fst (current_job hexd answer p)"
    have p: "ps_cache ?p = c" "ps_handed ?p = ps_handed p @ [(t, slot)]" "ps_lock ?p = ps_lock p"
      "ps_starting ?p = ps_starting p @ (if should_fetch then [(t, slot)] else [])"
      "ps_in_flight ?p = ps_in_flight p" "ps_tasks ?p = ps_tasks p"
      using Inr tj True slot by (simp_all add: current_job_def)
    show ?thesis
    proof (rule provider_invI)
      fix j ts assume "waiting (ps_cache ?p) j ts"
      then have "waiting (ps_cache p) j ts \<or> should_fetch \<and> ts = (t, slot)"
        using taken unfolding slot_taken_def p(1) by blast
      then show "attended ?p j ts"
        using kept(6) [of j ts] attended_more [of p j ts ?p] by (auto simp: p attended_def [of ?p])
    qed (use taken kept(2-5) in \<open>auto simp: p slot_taken_def\<close>)
  qed (use Inr tj inv in \<open>simp add: current_job_def\<close>)
qed (simp add: current_job_def inv)

lemma attended_set_task:
  assumes "attended p j ts" and "i < length (ps_tasks p)"
    and "s \<noteq> TaskEnded \<or> tk_aborted (ps_tasks p ! i) \<or> ts \<noteq> (tk_template (ps_tasks p ! i), tk_slot (ps_tasks p ! i))"
  shows "attended (set_task i s p) j ts"
proof (cases "\<exists>k \<in> set (ps_tasks p). task_live k \<and> (tk_template k, tk_slot k) = ts")
  case True
  then obtain n where n: "n < length (ps_tasks p)" "task_live (ps_tasks p ! n)"
      "(tk_template (ps_tasks p ! n), tk_slot (ps_tasks p ! n)) = ts"
    by (metis in_set_conv_nth)
  let ?k = "ps_tasks (set_task i s p) ! n"
  have "?k \<in> set (ps_tasks (set_task i s p))" using n(1) by (auto simp: set_task_def)
  moreover have "task_live ?k \<and> (tk_template ?k, tk_slot ?k) = ts"
    using n assms(2,3) by (cases "n = i") (auto simp: set_task_def task_live_def)
  ultimately show ?thesis unfolding attended_def by blast
next
  case False
  then show ?thesis using assms(1) by (auto simp: attended_def set_task_def)
qed

text \<open>A task moves on; only a finished fetch touches the cache.\<close>

lemma set_task_inv:
  assumes inv: "provider_inv hexd sha256 p" and i: "i < length (ps_tasks p)"
    and s: "\<And>m. s = FetchDone (Some m) \<Longrightarrow> verified_for hexd sha256 (tk_template (ps_tasks p ! i)) m"
    and c: "cache_ok c" "cache_sound hexd sha256 c" "\<And>ts. tied (ps_cache p) ts \<Longrightarrow> tied c ts"
    and w: "\<And>j ts. waiting c j ts \<Longrightarrow> waiting (ps_cache p) j ts
      \<and> (s \<noteq> TaskEnded \<or> tk_aborted (ps_tasks p ! i) \<or> ts \<noteq> (tk_template (ps_tasks p ! i), tk_slot (ps_tasks p ! i)))"
  shows "provider_inv hexd sha256 ((set_task i s p)\<lparr>ps_cache := c\<rparr>)"
proof -
  note kept = provider_invD [OF inv]
  have tasks: "ps_tasks (set_task i s p) = (ps_tasks p)[i := (ps_tasks p ! i)\<lparr>tk_state := s\<rparr>]"
    "ps_handed (set_task i s p) = ps_handed p" "ps_in_flight (set_task i s p) = ps_in_flight p"
    by (simp_all add: set_task_def)
  show ?thesis
  proof (rule provider_invI; simp add: tasks c kept(3))
    fix k m assume "k \<in> set ((ps_tasks p)[i := (ps_tasks p ! i)\<lparr>tk_state := s\<rparr>])" "tk_state k = FetchDone (Some m)"
    then have "k = (ps_tasks p ! i)\<lparr>tk_state := s\<rparr> \<or> k \<in> set (ps_tasks p)"
      using set_update_subset_insert by fastforce
    then show "verified_for hexd sha256 (tk_template k) m"
      using kept(4) s \<open>tk_state k = FetchDone (Some m)\<close> by auto
  next
    fix j n assume "ps_in_flight p = Some (j, n)"
    then show "n < length (ps_tasks p) \<and> nt_job_id (tk_template ((ps_tasks p)[i := (ps_tasks p ! i)\<lparr>tk_state := s\<rparr>] ! n)) = j"
      using kept(5) by (cases "n = i") auto
  next
    fix j ts assume "waiting c j ts"
    from w [OF this] show "attended (set_task i s p\<lparr>ps_cache := c\<rparr>) j ts"
      using attended_set_task [OF kept(6) i, of j ts s] by (simp add: attended_def)
  qed
qed

text \<open>The tasks after an abort of one of them, which is of the job \<open>j\<close>.\<close>

lemma attended_lock:
  assumes att: "attended p j ts" and i: "i < length (ps_starting p)" and free: "ps_lock p = None"
    and start: "ps_starting p' = take i (ps_starting p) @ drop (Suc i) (ps_starting p)"
    and lock: "ps_lock p' = Some (ps_starting p ! i, cancelled)"
    and tasks: "ps_tasks p' = ps_tasks p \<or> (\<exists>n < length (ps_tasks p). cancelled = Some (nt_job_id (tk_template (ps_tasks p ! n)))
      \<and> ps_tasks p' = (ps_tasks p)[n := (ps_tasks p ! n)\<lparr>tk_aborted := True\<rparr>])"
    and j: "nt_job_id (fst ts) = j"
  shows "attended p' j ts"
proof -
  have "set (ps_starting p) = set (take i (ps_starting p) @ ps_starting p ! i # drop (Suc i) (ps_starting p))"
    using id_take_nth_drop [OF i] by simp
  then have starting: "ts = ps_starting p ! i \<or> ts \<in> set (ps_starting p')" if "ts \<in> set (ps_starting p)"
    using that by (auto simp: start)
  have task: "attended p' j ts" if k: "k \<in> set (ps_tasks p)" "task_live k" "(tk_template k, tk_slot k) = ts" for k
  proof (cases "k \<in> set (ps_tasks p')")
    case True
    then show ?thesis using k unfolding attended_def by blast
  next
    case False
    then obtain n where n: "n < length (ps_tasks p)" "cancelled = Some (nt_job_id (tk_template (ps_tasks p ! n)))"
      "ps_tasks p' = (ps_tasks p)[n := (ps_tasks p ! n)\<lparr>tk_aborted := True\<rparr>]" using tasks k(1) by auto
    obtain x where x: "x < length (ps_tasks p)" "ps_tasks p ! x = k" using k(1) by (metis in_set_conv_nth)
    have "x = n"
      using x False unfolding n(3) by (metis length_list_update nth_list_update_neq nth_mem)
    then have "cancelled = Some j" using n(2) x(2) k(3) j by auto
    then show ?thesis using lock unfolding attended_def by blast
  qed
  from att show ?thesis
    unfolding attended_def [of p] using starting task free lock by (auto simp: attended_def [of p'])
qed

lemma lock_in_flight_inv:
  assumes inv: "provider_inv hexd sha256 p" and i: "i < length (ps_starting p)" and free: "ps_lock p = None"
  shows "provider_inv hexd sha256 (lock_in_flight i p)"
proof -
  note kept = provider_invD [OF inv]
  let ?p = "lock_in_flight i p"
  have same: "ps_cache ?p = ps_cache p" "ps_handed ?p = ps_handed p" "ps_in_flight ?p = ps_in_flight p"
    "ps_starting ?p = take i (ps_starting p) @ drop (Suc i) (ps_starting p)"
    by (simp_all add: lock_in_flight_def Let_def split: prod.split option.split)
  have "\<exists>cancelled. ps_lock ?p = Some (ps_starting p ! i, cancelled) \<and> (ps_tasks ?p = ps_tasks p
      \<or> (\<exists>n < length (ps_tasks p). cancelled = Some (nt_job_id (tk_template (ps_tasks p ! n)))
        \<and> ps_tasks ?p = (ps_tasks p)[n := (ps_tasks p ! n)\<lparr>tk_aborted := True\<rparr>]))"
  proof (cases "ps_in_flight p")
    case (Some jn)
    obtain j n where jn: "jn = (j, n)" by (cases jn)
    have n: "n < length (ps_tasks p)" "nt_job_id (tk_template (ps_tasks p ! n)) = j"
      using kept(5) Some jn by simp_all
    show ?thesis
    proof (cases "j = nt_job_id (fst (ps_starting p ! i))")
      case True
      then show ?thesis by (simp add: lock_in_flight_def Let_def Some jn split: prod.split)
    next
      case False
      then have "ps_lock ?p = Some (ps_starting p ! i, Some j)"
        "ps_tasks ?p = (ps_tasks p)[n := (ps_tasks p ! n)\<lparr>tk_aborted := True\<rparr>]"
        by (auto simp: lock_in_flight_def Let_def Some jn split: prod.split)
      then show ?thesis using n by blast
    qed
  qed (simp add: lock_in_flight_def Let_def split: prod.split)
  then obtain cancelled where lock: "ps_lock ?p = Some (ps_starting p ! i, cancelled)"
    and tasks: "ps_tasks ?p = ps_tasks p \<or> (\<exists>n < length (ps_tasks p). cancelled = Some (nt_job_id (tk_template (ps_tasks p ! n)))
      \<and> ps_tasks ?p = (ps_tasks p)[n := (ps_tasks p ! n)\<lparr>tk_aborted := True\<rparr>])" by blast
  show ?thesis
  proof (rule provider_invI)
    fix k m assume k: "k \<in> set (ps_tasks ?p)" "tk_state k = FetchDone (Some m)"
    have "k \<in> set (ps_tasks p) \<or> (\<exists>n < length (ps_tasks p). k = (ps_tasks p ! n)\<lparr>tk_aborted := True\<rparr>)"
      using tasks k(1) by (auto dest!: set_update_subset_insert [THEN subsetD])
    then show "verified_for hexd sha256 (tk_template k) m" using kept(4) k(2) by auto
  next
    fix j n assume "ps_in_flight ?p = Some (j, n)"
    then show "n < length (ps_tasks ?p) \<and> nt_job_id (tk_template (ps_tasks ?p ! n)) = j"
      using kept(5) [of j n] tasks by (auto simp: same(3) nth_list_update)
  next
    fix j ts assume "waiting (ps_cache ?p) j ts"
    then have w: "waiting (ps_cache p) j ts" by (simp add: same(1))
    then have "nt_job_id (fst ts) = j"
      using kept(1) entries_okD(1) [of "ps_cache p" j "fst ts" "snd ts"] by (simp add: waiting_def cache_ok_def)
    then show "attended ?p j ts" by (rule attended_lock [OF kept(6) [OF w] i free same(4) lock tasks])
  qed (simp_all add: same(1,2) kept(1-3))
qed

lemma spawn_fetch_inv:
  assumes inv: "provider_inv hexd sha256 p" and lock: "ps_lock p = Some ((t, slot), cancelled)"
  shows "provider_inv hexd sha256 (spawn_fetch p)"
proof -
  note kept = provider_invD [OF inv]
  let ?p = "spawn_fetch p"
  have same: "view (ps_cache ?p) = view (ps_cache p)" "tc_slots (ps_cache ?p) = tc_slots (ps_cache p)"
    "tc_order (ps_cache ?p) = tc_order (ps_cache p)" "ps_handed ?p = ps_handed p" "ps_starting ?p = ps_starting p"
    "ps_in_flight ?p = Some (nt_job_id t, length (ps_tasks p))" "ps_lock ?p = None"
    "ps_tasks ?p = ps_tasks p @ [\<lparr>tk_template = t, tk_slot = slot, tk_state = AwaitPermit, tk_aborted = False\<rparr>]"
    by (simp_all add: spawn_fetch_def lock cancel_fetch_simps split: option.split)
  have started: "started (ps_cache ?p) j \<Longrightarrow> started (ps_cache p) j \<and> cancelled \<noteq> Some j" for j
    by (auto simp: spawn_fetch_def lock cancel_fetch_simps split: option.splits)
  show ?thesis
  proof (rule provider_invI)
    fix k m assume "k \<in> set (ps_tasks ?p)" "tk_state k = FetchDone (Some m)"
    then show "verified_for hexd sha256 (tk_template k) m" using kept(4) by (auto simp: same(8))
  next
    fix j ts assume w: "waiting (ps_cache ?p) j ts"
    then have "waiting (ps_cache p) j ts" "cancelled \<noteq> Some j" using started by (simp_all add: waiting_def same(1,2))
    from kept(6) [OF this(1)] this(2) show "attended ?p j ts"
      unfolding attended_def same lock by (auto simp: task_live_def)
  qed (simp_all add: same(4,6,8) same_view_keeps(1-3) [OF same(1,2)] same_view_keeps(4) [OF same(1-3)] kept(1-3))
qed

lemma fetched_verified: "fetched_material hexd sha256 t answer = Some m \<Longrightarrow> verified_for hexd sha256 t m"
  by (auto simp: fetched_material_def verified_for_def split: option.splits sum.splits if_splits)

lemma provider_step_inv:
  assumes "provider_step hexd sha256 p p'" and inv: "provider_inv hexd sha256 p"
  shows "provider_inv hexd sha256 p'"
  using assms(1)
proof cases
  case (Request answer)
  then show ?thesis using current_job_inv [OF inv] by simp
next
  case (Lock i)
  then show ?thesis using lock_in_flight_inv [OF inv] by simp
next
  case Spawn
  then show ?thesis using spawn_fetch_inv [OF inv] by (metis not_None_eq prod.exhaust)
next
  case (Acquire i)
  have "provider_inv hexd sha256 ((set_task i AwaitNode p)\<lparr>ps_cache := ps_cache p\<rparr>)"
    using provider_invD [OF inv] Acquire by (intro set_task_inv [OF inv]) simp_all
  then show ?thesis by (simp add: Acquire(1) set_task_def)
next
  case (Answer i answer)
  let ?s = "FetchDone (fetched_material hexd sha256 (tk_template (ps_tasks p ! i)) answer)"
  have "provider_inv hexd sha256 ((set_task i ?s p)\<lparr>ps_cache := ps_cache p\<rparr>)"
    using provider_invD [OF inv] Answer by (intro set_task_inv [OF inv]) (simp_all add: fetched_verified)
  then show ?thesis by (simp add: Answer(1) set_task_def)
next
  case (Finish i material)
  have "verified_for hexd sha256 (tk_template (ps_tasks p ! i)) m" if "material = Some m" for m
    using provider_invD(4) [OF inv, of "ps_tasks p ! i" m] Finish that by simp
  note finished = finish_fetch_ok [OF provider_invD(1) [OF inv] this]
  show ?thesis
    unfolding Finish(1)
    by (rule set_task_inv [OF inv Finish(2)]) (simp_all add: finished provider_invD(2) [OF inv])
next
  case (Dropped i)
  have "provider_inv hexd sha256 ((set_task i TaskEnded p)\<lparr>ps_cache := ps_cache p\<rparr>)"
    using provider_invD [OF inv] Dropped by (intro set_task_inv [OF inv]) simp_all
  then show ?thesis by (simp add: Dropped(1) set_task_def)
qed

lemma provider_reachable_inv: "provider_reachable hexd sha256 stateless_full p \<Longrightarrow> provider_inv hexd sha256 p"
  by (induction rule: provider_reachable.induct) (auto intro: provider_new_inv provider_step_inv)

section \<open>The promises of the provider\<close>

text \<open>
  C9. A job never gets the material of another template: whatever the callers, the fetches and the
  aborts do, and whatever the node answers, a material found in the slot of a job that was made of a
  template is that of a full answer whose base is this very template, and it encodes a block within
  the limit of the consensus, of the stated length and with the stated digest.
\<close>

theorem material_matches_template:
  assumes "hex_decoder hexd" and "provider_reachable hexd sha256 stateless_full p"
    and "(t, slot) \<in> set (ps_handed p)" and "tc_slots (ps_cache p) ! slot = Some m"
  shows "slot < length (tc_slots (ps_cache p)) \<and> material_sound hexd sha256 m
    \<and> (\<exists>full. into_parts hexd sha256 full = Inr (t, m) \<and> sl_template full = t)"
proof -
  note kept = provider_invD [OF provider_reachable_inv [OF assms(2)]]
  have entries: "entries_ok (ps_cache p)" using kept(1) by (simp add: cache_ok_def)
  have tied: "tied (ps_cache p) (t, slot)" by (rule kept(3) [OF assms(3)])
  then have slot: "slot < length (tc_slots (ps_cache p))" by (simp add: tied_def)
  then obtain j t' where j: "view (ps_cache p) j = Some (t', slot)"
    using entries_okD(4) [OF entries] assms(4) by blast
  then have "t' = t" using tied by (auto simp: tied_def)
  then have "verified_for hexd sha256 t m" using cache_soundD [OF kept(2) j assms(4)] by simp
  then show ?thesis using slot into_parts_sound [OF assms(1)] unfolding verified_for_def by blast
qed

text \<open>
  However many templates come and go, at most eight slots hold a material: the entries of the cache
  are those of its queue, of which there are at most eight, and the slot of an entry that was
  evicted or replaced is empty.
\<close>

theorem material_cache_bounded:
  assumes "provider_reachable hexd sha256 stateless_full p"
  shows "card {s. s < length (tc_slots (ps_cache p)) \<and> tc_slots (ps_cache p) ! s \<noteq> None} \<le> max_cache_entries
    \<and> dom (tc_entries (ps_cache p)) = set (tc_order (ps_cache p)) \<and> length (tc_order (ps_cache p)) \<le> max_cache_entries"
proof -
  let ?c = "ps_cache p"
  let ?used = "{s. s < length (tc_slots ?c) \<and> tc_slots ?c ! s \<noteq> None}"
  have ok: "cache_ok ?c" by (rule provider_invD(1) [OF provider_reachable_inv [OF assms]])
  then have order: "dom (view ?c) = set (tc_order ?c)" "length (tc_order ?c) \<le> max_cache_entries" and entries: "entries_ok ?c"
    by (simp_all add: cache_ok_def)
  have "?used \<subseteq> (\<lambda>j. snd (the (view ?c j))) ` set (tc_order ?c)"
  proof
    fix s assume "s \<in> ?used"
    then obtain j t where j: "view ?c j = Some (t, s)" using entries_okD(4) [OF entries] by blast
    then have "j \<in> set (tc_order ?c)" using order(1) by blast
    with j show "s \<in> (\<lambda>j. snd (the (view ?c j))) ` set (tc_order ?c)" by force
  qed
  then have "card ?used \<le> length (tc_order ?c)"
    by (meson card_image_le card_length card_mono finite_imageI finite_set le_trans)
  moreover have "dom (tc_entries ?c) = dom (view ?c)" by (auto simp: view_def dom_def)
  ultimately show ?thesis using order by simp
qed

text \<open>
  C40. No fetch is lost. In every reachable state a request for a template finds the material in its slot,
  or is told to start a fetch, or somebody is in charge of that very slot: a caller that was told to and
  waits for the lock or holds it, a fetch that has neither ended nor been aborted, or a caller under the
  lock that has aborted the fetch and resets its mark, after which the next request starts one.
\<close>

theorem material_fetch_retried:
  assumes "provider_reachable hexd sha256 stateless_full p"
    and "slot_for t (ps_cache p) = (c, slot, should_fetch)"
  shows "(\<exists>m. tc_slots c ! slot = Some m) \<or> should_fetch
    \<or> (t, slot) \<in> set (ps_starting p) \<or> (\<exists>cancelled. ps_lock p = Some ((t, slot), cancelled))
    \<or> (\<exists>k \<in> set (ps_tasks p). tk_template k = t \<and> tk_slot k = slot \<and> tk_state k \<noteq> TaskEnded \<and> \<not> tk_aborted k)
    \<or> (\<exists>other. ps_lock p = Some (other, Some (nt_job_id t)) \<and> \<not> started (ps_cache (spawn_fetch p)) (nt_job_id t))"
proof (cases "waiting (ps_cache p) (nt_job_id t) (t, slot)")
  case True
  then have "attended p (nt_job_id t) (t, slot)"
    using provider_invD(6) [OF provider_reachable_inv [OF assms(1)]] by blast
  moreover have "\<not> started (ps_cache (spawn_fetch p)) (nt_job_id t)"
    if "ps_lock p = Some (other, Some (nt_job_id t))" for other
    using that by (cases other) (simp add: spawn_fetch_def cancel_fetch_def started_def split: option.split)
  ultimately show ?thesis unfolding attended_def task_live_def by auto
next
  case False
  then show ?thesis
    using assms(2) by (auto simp: waiting_def view_def started_def slot_for_def Let_def split: option.splits if_splits)
qed

section \<open>A run of the provider\<close>

definition sample_node_template :: node_template where
  "sample_node_template = \<lparr>nt_job_id = ''7'', nt_prev_hash_be_hex = replicate 64 CHR ''0'', nt_coinb1_hex = ''aa'',
     nt_coinb2_hex = ''bb'', nt_merkle_branches_hex = [], nt_version_hex = ''20000000'', nt_nbits_hex = ''207fffff'',
     nt_ntime_hex = ''665544cc'', nt_clean_jobs = True, nt_share_target_hex = replicate 64 CHR ''f'',
     nt_network_target_hex = replicate 64 CHR ''0''\<rparr>"

definition sample_sha256 :: "bytes \<Rightarrow> bytes" where "sample_sha256 _ = [1]"

definition sample_full :: stateless_template where
  "sample_full = \<lparr>sl_template = sample_node_template, sl_block_template_hex = ''AB'',
     sl_block_template_sha256_hex = ''01'', sl_block_template_bytes = 1\<rparr>"

definition sample_material :: candidate_material where
  "sample_material = \<lparr>cm_block_template_hex = ''ab'', cm_block_template_sha256_hex = ''01'', cm_block_template_bytes = 1\<rparr>"

lemma sample_full_parts: "into_parts hex_decode sample_sha256 sample_full = Inr (sample_node_template, sample_material)"
proof -
  have "hex_decode ''AB'' = Some [171]" "to_ascii_lowercase ''AB'' = ''ab''" "hex_encode [1] = ''01''"
    "eq_ignore_ascii_case ''01'' ''01''" by code_simp+
  then show ?thesis
    by (simp add: into_parts_def candidate_template_material_def sample_full_def sample_material_def sample_sha256_def
        max_template_hex_len_def max_block_bytes_def)
qed

lemma sample_fields:
  "parse_u32_hex f ''20000000'' = Inr 0x20000000" "parse_u32_hex f ''207fffff'' = Inr 0x207fffff"
  "parse_u32_hex f ''665544cc'' = Inr 0x665544cc"
  by (simp_all add: parse_u32_hex_def parse_uint_def digit_value_def)

lemma sample_hex:
  "hex_decode (replicate 64 CHR ''0'') = Some (replicate 32 0)" "hex_decode (replicate 64 CHR ''f'') = Some (replicate 32 255)"
  "hex_decode ''aa'' = Some [170]" "hex_decode ''bb'' = Some [187]"
  by code_simp+

text \<open>The static job is valid: making it never panics.\<close>

lemma easy_static_job_valid: "hex_decoder hexd \<Longrightarrow> \<exists>job. easy_static_job hexd job_id = Inr job"
  by (simp add: easy_static_job_def job_from_notify_def lift_consensus_def sample_fields decode_prev_hash_from_stratum_def
      decode_hash32_hex_def hash32_from_slice_def hex_decoder.decode_unique sample_hex digit_value_def)

lemma sample_template_job: "\<exists>job. into_pool_job hex_decode sample_node_template = Inr job"
  by (simp add: into_pool_job_def template_notify_def sample_node_template_def job_from_notify_def lift_consensus_def
      sample_fields decode_prev_hash_from_stratum_def decode_hash32_hex_def hash32_from_slice_def sample_hex digit_value_def)

definition sample_task :: "task_state \<Rightarrow> fetch_task" where
  "sample_task s = \<lparr>tk_template = sample_node_template, tk_slot = 0, tk_state = s, tk_aborted = False\<rparr>"

definition sample_cache :: "bool \<Rightarrow> candidate_material option \<Rightarrow> template_cache" where
  "sample_cache fetch_started m = \<lparr>tc_entries = [''7'' \<mapsto> \<lparr>te_template = sample_node_template, te_slot = 0, te_fetch_started = fetch_started\<rparr>],
     tc_order = [''7''], tc_slots = [m]\<rparr>"

definition sample_state :: "template_cache \<Rightarrow> (node_template \<times> nat) list \<Rightarrow> ((node_template \<times> nat) \<times> string option) option
    \<Rightarrow> fetch_task list \<Rightarrow> live_provider" where
  "sample_state c starting lock tasks = \<lparr>ps_stateless_full = True, ps_cache = c, ps_handed = [(sample_node_template, 0)],
     ps_starting = starting, ps_lock = lock, ps_in_flight = (if tasks = [] then None else Some (''7'', 0)), ps_tasks = tasks\<rparr>"

lemmas sample_defs = sample_state_def sample_cache_def sample_task_def

lemma sample_job_id [simp]: "nt_job_id sample_node_template = ''7''"
  by (simp add: sample_node_template_def)

text \<open>One caller, one fetch: the request, the lock, the task and its permit.\<close>

lemma sample_asking:
  "provider_reachable hex_decode sample_sha256 True (sample_state (sample_cache True None) [] None [sample_task AwaitNode])"
proof -
  let ?step = "provider_step hex_decode sample_sha256"
  let ?c = "sample_cache True None"
  let ?t = "(sample_node_template, 0)"
  obtain job where job: "into_pool_job hex_decode sample_node_template = Inr job" using sample_template_job by blast
  have "fst (current_job hex_decode (Inr sample_node_template) (provider_new True)) = sample_state ?c [?t] None []"
    by (simp add: current_job_def job provider_new_def empty_cache_def slot_for_def new_entry_def max_cache_entries_def
        sample_defs Let_def)
  then have s1: "?step (provider_new True) (sample_state ?c [?t] None [])"
    using provider_step.Request [where p = "provider_new True" and answer = "Inr sample_node_template"] by metis
  have s2: "?step (sample_state ?c [?t] None []) (sample_state ?c [] (Some (?t, None)) [])"
    using provider_step.Lock [where i = 0 and p = "sample_state ?c [?t] None []"] by (simp add: lock_in_flight_def sample_defs)
  have s3: "?step (sample_state ?c [] (Some (?t, None)) []) (sample_state ?c [] None [sample_task AwaitPermit])"
    using provider_step.Spawn [where p = "sample_state ?c [] (Some (?t, None)) []"] by (simp add: spawn_fetch_def sample_defs)
  have s4: "?step (sample_state ?c [] None [sample_task AwaitPermit]) (sample_state ?c [] None [sample_task AwaitNode])"
    using provider_step.Acquire [where i = 0 and p = "sample_state ?c [] None [sample_task AwaitPermit]"]
    by (simp add: set_task_def fetching_def sample_defs)
  note reached = provider_reachable.Step
  show ?thesis by (rule reached [OF reached [OF reached [OF reached [OF provider_reachable.Start s1] s2] s3] s4])
qed

text \<open>The answer of the node and the end of the task, with material or, when the node fails, without.\<close>

lemma sample_finished:
  assumes "fetched_material hex_decode sample_sha256 sample_node_template answer = m"
  shows "provider_reachable hex_decode sample_sha256 True (sample_state (sample_cache False m) [] None [sample_task TaskEnded])"
proof -
  let ?step = "provider_step hex_decode sample_sha256"
  let ?c = "sample_cache True None"
  have s5: "?step (sample_state ?c [] None [sample_task AwaitNode]) (sample_state ?c [] None [sample_task (FetchDone m)])"
    using provider_step.Answer [where i = 0 and p = "sample_state ?c [] None [sample_task AwaitNode]" and answer = answer
        and hexd = hex_decode and ?sha256.0 = sample_sha256] assms
    by (simp add: set_task_def sample_defs)
  have s6: "?step (sample_state ?c [] None [sample_task (FetchDone m)])
      (sample_state (sample_cache False m) [] None [sample_task TaskEnded])"
    using provider_step.Finish [where i = 0 and p = "sample_state ?c [] None [sample_task (FetchDone m)]" and material = m]
    by (cases m) (simp_all add: set_task_def sample_defs finish_fetch_def)
  show ?thesis by (rule provider_reachable.Step [OF provider_reachable.Step [OF sample_asking s5] s6])
qed

lemma sample_reachable:
  "provider_reachable hex_decode sample_sha256 True
     (sample_state (sample_cache False (Some sample_material)) [] None [sample_task TaskEnded])"
  by (rule sample_finished [where answer = "Some sample_full"]) (simp add: fetched_material_def sample_full_parts)

theorem material_matches_template_witness:
  "\<exists>full. into_parts hex_decode sample_sha256 full = Inr (sample_node_template, sample_material)"
proof -
  have "hex_decoder hex_decode" by unfold_locales (simp_all add: hex_decode_odd)
  from material_matches_template [OF this sample_reachable, of sample_node_template 0 sample_material]
  show ?thesis by (auto simp: sample_defs)
qed

theorem material_cache_bounded_witness:
  "length (tc_order (sample_cache False (Some sample_material))) \<le> max_cache_entries"
  using material_cache_bounded [OF sample_reachable] by (simp add: sample_state_def)

text \<open>An entry without material: while its fetch runs, and after the node has failed.\<close>

theorem material_fetch_retried_witness:
  "snd (snd (slot_for sample_node_template (sample_cache True None))) = False
   \<and> (\<exists>k \<in> set [sample_task AwaitNode]. tk_template k = sample_node_template \<and> tk_slot k = 0
        \<and> tk_state k \<noteq> TaskEnded \<and> \<not> tk_aborted k)
   \<and> snd (snd (slot_for sample_node_template (sample_cache False None))) = True"
proof -
  have running: "slot_for sample_node_template (sample_cache True None) = (sample_cache True None, 0, False)"
    by (simp add: slot_for_def sample_cache_def)
  have failed: "provider_reachable hex_decode sample_sha256 True (sample_state (sample_cache False None) [] None [sample_task TaskEnded])"
    by (rule sample_finished [where answer = None]) (simp add: fetched_material_def)
  obtain c slot should_fetch where again: "slot_for sample_node_template (sample_cache False None) = (c, slot, should_fetch)"
    by (metis prod_cases3)
  have "tc_slots c ! slot = None" using again by (auto simp: slot_for_def sample_cache_def)
  then have "should_fetch"
    using material_fetch_retried [OF failed, of sample_node_template] again by (simp add: sample_state_def sample_task_def)
  moreover have "\<exists>k \<in> set [sample_task AwaitNode]. tk_template k = sample_node_template \<and> tk_slot k = 0
      \<and> tk_state k \<noteq> TaskEnded \<and> \<not> tk_aborted k"
  proof -
    have "slot_for sample_node_template (ps_cache (sample_state (sample_cache True None) [] None [sample_task AwaitNode]))
        = (sample_cache True None, 0, False)"
      using running by (simp add: sample_state_def)
    from material_fetch_retried [OF sample_asking this] show ?thesis
      by (simp add: sample_state_def sample_cache_def)
  qed
  ultimately show ?thesis using running again by simp
qed

end
