(* ===== verification/Csd_Memory.thy ===== *)
theory Csd_Memory
  imports Csd_Shares Csd_Books
begin

text \<open>
  Crate \<open>csd-pool-db\<close>: \<open>InMemoryRepository\<close>, the repository the pool runs on without a database, and
  how far it does what the PostgreSQL one does. Both repositories implement the traits
  \<open>PayoutRepository\<close>, \<open>PoolRepository\<close>, \<open>BlockRepository\<close>, \<open>RewardRepository\<close> and \<open>MiningRepository\<close>.
  The statuses of payout batches are an interface (the locale \<open>payout_store\<close>) that both are shown
  to provide; the confirmed balances agree as long as the ledger gets no entry twice; the last section
  has the places where the two repositories differ. The lock of the repository makes every operation
  one step; the three calls that take it twice (creating a locked batch, cancelling, retrying) are one
  step as well, so nothing is said of calls between. A poisoned lock (a panic of another holder) is not
  modelled.
\<close>

section \<open>The data of the repository\<close>

record memory_block =
  br_hash_hex :: string
  br_job_id :: string
  br_status :: string
  br_height :: "u64 option"
  br_confirmations :: u64
  br_reward_base_units :: u128
  br_effort_pct :: f64

record memory_repo =
  mr_ledger :: "ledger_entry list"
  mr_balances :: "(string, miner_balance) btree"
  mr_batches :: "(string, payout_batch_draft) btree"
  mr_statuses :: "(string, string) btree"
  mr_txids :: "(string, string) btree"
  mr_raw_txs :: "(string, string) btree"
  mr_audit :: "payout_audit_event list"
  mr_payouts_setting :: "string option"
  mr_jobs :: "(string, job_record) btree"
  mr_sessions :: "(string, session_record \<times> bool) btree"
  mr_shares :: "share_record list"
  mr_share_events :: "share_event_record list"
  mr_candidates :: "(string, block_candidate_record) btree"
  mr_blocks :: "(string, memory_block) btree"
  mr_reward_blocks :: "(string, reward_block) btree"

definition memory_new :: memory_repo where
  "memory_new = \<lparr>mr_ledger = [], mr_balances = [], mr_batches = [], mr_statuses = [], mr_txids = [],
     mr_raw_txs = [], mr_audit = [], mr_payouts_setting = None, mr_jobs = [], mr_sessions = [], mr_shares = [],
     mr_share_events = [], mr_candidates = [], mr_blocks = [], mr_reward_blocks = []\<rparr>"

section \<open>Ledger and balances\<close>

definition mem_credit :: "string \<Rightarrow> u128 \<Rightarrow> (string, miner_balance) btree \<Rightarrow> (string, miner_balance) btree" where
  "mem_credit m amount bs = bt_insert m
     (case bt_get bs m of
        Some b \<Rightarrow> b\<lparr>mb_confirmed_base_units := mb_confirmed_base_units b + amount\<rparr>
      | None \<Rightarrow> \<lparr>mb_miner = m, mb_address = m, mb_confirmed_base_units = amount\<rparr>) bs"

text \<open>\<open>u128::try_from(-amount)?\<close>: the least \<open>i128\<close> is its own negation and does not convert.\<close>

definition mem_debit :: "string \<Rightarrow> i128 \<Rightarrow> (string, miner_balance) btree \<Rightarrow> db_error + (string, miner_balance) btree" where
  "mem_debit m amount bs =
     (if sint (- amount) < 0 then Inl IntegerOutOfRange
      else Inr (case bt_get bs m of
          Some b \<Rightarrow> bt_insert m (b\<lparr>mb_confirmed_base_units := sat_sub (mb_confirmed_base_units b) (- amount)\<rparr>) bs
        | None \<Rightarrow> bs))"

definition mem_post :: "ledger_entry \<Rightarrow> (string, miner_balance) btree \<Rightarrow> db_error + (string, miner_balance) btree" where
  "mem_post e bs =
     (case le_miner e of
        None \<Rightarrow> Inr bs
      | Some m \<Rightarrow>
          (let a = le_amount_base_units e in
           case le_kind e of
             RewardMature \<Rightarrow> if 0 < sint a then Inr (mem_credit m a bs) else Inr bs
           | RewardOrphanReversal \<Rightarrow> if sint a < 0 then mem_debit m a bs else Inr bs
           | PayoutLock \<Rightarrow> if sint a < 0 then mem_debit m a bs else Inr bs
           | PayoutFailedUnlock \<Rightarrow> if 0 < sint a then Inr (mem_credit m a bs) else Inr bs
           | _ \<Rightarrow> Inr bs))"

text \<open>The loop over the entries: an error leaves the balances as the loop has got them.\<close>

fun mem_post_all ::
  "ledger_entry list \<Rightarrow> (string, miner_balance) btree \<Rightarrow> (string, miner_balance) btree \<times> (db_error + unit)" where
  "mem_post_all [] bs = (bs, Inr ())"
| "mem_post_all (e # es) bs = (case mem_post e bs of Inl err \<Rightarrow> (bs, Inl err) | Inr bs' \<Rightarrow> mem_post_all es bs')"

definition mem_append_ledger_entries :: "ledger_entry list \<Rightarrow> memory_repo \<Rightarrow> memory_repo \<times> (db_error + unit)" where
  "mem_append_ledger_entries entries r =
     (case mem_post_all entries (mr_balances r) of
        (bs, Inl e) \<Rightarrow> (r\<lparr>mr_balances := bs\<rparr>, Inl e)
      | (bs, Inr _) \<Rightarrow> (r\<lparr>mr_balances := bs, mr_ledger := mr_ledger r @ entries\<rparr>, Inr ()))"

definition mem_set_balance :: "miner_balance \<Rightarrow> memory_repo \<Rightarrow> memory_repo" where
  "mem_set_balance b r = r\<lparr>mr_balances := bt_insert (mb_miner b) b (mr_balances r)\<rparr>"

definition mem_list_payable_balances :: "u128 \<Rightarrow> nat \<Rightarrow> memory_repo \<Rightarrow> miner_balance list" where
  "mem_list_payable_balances minimum limit r =
     take limit (sort_key (\<lambda>b. (- uint (mb_confirmed_base_units b), mb_miner b))
       (filter (\<lambda>b. minimum \<le> mb_confirmed_base_units b) (bt_values (mr_balances r))))"

definition mem_payouts_enabled :: "memory_repo \<Rightarrow> bool" where
  "mem_payouts_enabled r =
     (case mr_payouts_setting r of Some v \<Rightarrow> v \<in> {''true'', ''1'', ''yes'', ''on''} | None \<Rightarrow> False)"

definition mem_set_payouts_enabled :: "bool \<Rightarrow> memory_repo \<Rightarrow> memory_repo" where
  "mem_set_payouts_enabled enabled r = r\<lparr>mr_payouts_setting := Some (if enabled then ''true'' else ''false'')\<rparr>"

section \<open>Payout batches\<close>

definition mem_create_payout_batch :: "payout_batch_draft \<Rightarrow> memory_repo \<Rightarrow> memory_repo \<times> bool" where
  "mem_create_payout_batch draft r =
     (if bt_get (mr_batches r) (pd_batch_id draft) \<noteq> None then (r, False)
      else (r\<lparr>mr_statuses := bt_insert (pd_batch_id draft) ''dry_run_ok'' (mr_statuses r),
              mr_batches := bt_insert (pd_batch_id draft) draft (mr_batches r)\<rparr>, True))"

definition mem_create_locked_payout_batch_with_status ::
  "payout_batch_draft \<Rightarrow> string \<Rightarrow> memory_repo \<Rightarrow> memory_repo \<times> (db_error + bool)" where
  "mem_create_locked_payout_batch_with_status draft status r =
     (let lock_entries = (if pd_lock_entries draft = []
            then map (payout_entry PayoutLock uminus (pd_batch_id draft)) (pd_recipients draft)
            else pd_lock_entries draft) in
      if bt_get (mr_batches r) (pd_batch_id draft) \<noteq> None then (r, Inr False)
      else (case mem_append_ledger_entries lock_entries
                   (r\<lparr>mr_statuses := bt_insert (pd_batch_id draft) status (mr_statuses r),
                      mr_batches := bt_insert (pd_batch_id draft) draft (mr_batches r)\<rparr>) of
              (r', Inl e) \<Rightarrow> (r', Inl e)
            | (r', Inr _) \<Rightarrow> (r', Inr True)))"

definition mem_batch_record :: "memory_repo \<Rightarrow> string \<Rightarrow> string \<Rightarrow> payout_batch_draft \<Rightarrow> payout_batch_record" where
  "mem_batch_record r batch_id status draft =
     \<lparr>pr_batch_id = pd_batch_id draft, pr_status = status, pr_total_base_units = pd_total_base_units draft,
      pr_txid = bt_get (mr_txids r) batch_id, pr_raw_tx_hash = bt_get (mr_raw_txs r) batch_id,
      pr_recipients = pd_recipients draft\<rparr>"

definition mem_list_payout_batches_by_status :: "string list \<Rightarrow> nat \<Rightarrow> memory_repo \<Rightarrow> payout_batch_record list" where
  "mem_list_payout_batches_by_status statuses limit r =
     take limit (map (\<lambda>(i, draft). mem_batch_record r i (coalesce (bt_get (mr_statuses r) i) ''created'') draft)
       (filter (\<lambda>(i, _). case bt_get (mr_statuses r) i of Some s \<Rightarrow> s \<in> set statuses | None \<Rightarrow> False) (mr_batches r)))"

definition mem_active_payout_total_today :: "memory_repo \<Rightarrow> u128" where
  "mem_active_payout_total_today r =
     sum_list (map (pd_total_base_units \<circ> snd)
       (filter (\<lambda>(i, _). case bt_get (mr_statuses r) i of Some s \<Rightarrow> s \<in> set active_payout_statuses | None \<Rightarrow> False)
         (mr_batches r)))"

text \<open>The guard on the status that the marks share, and the new status.\<close>

definition mem_move :: "string list \<Rightarrow> string \<Rightarrow> string \<Rightarrow> memory_repo \<Rightarrow> memory_repo \<times> bool" where
  "mem_move from_statuses to_status batch_id r =
     (if (case bt_get (mr_statuses r) batch_id of Some s \<Rightarrow> s \<in> set from_statuses | None \<Rightarrow> False)
      then (r\<lparr>mr_statuses := bt_insert batch_id to_status (mr_statuses r)\<rparr>, True)
      else (r, False))"

definition mem_mark_payout_signed :: "string \<Rightarrow> string \<Rightarrow> string \<Rightarrow> memory_repo \<Rightarrow> memory_repo \<times> bool" where
  "mem_mark_payout_signed batch_id txid raw_tx_hash r =
     (case mem_move [''created''] ''signed'' batch_id r of
        (r', True) \<Rightarrow> (r'\<lparr>mr_txids := bt_insert batch_id txid (mr_txids r'),
                          mr_raw_txs := bt_insert batch_id raw_tx_hash (mr_raw_txs r')\<rparr>, True)
      | (r', False) \<Rightarrow> (r', False))"

definition mem_mark_payout_submitted :: "string \<Rightarrow> string \<Rightarrow> memory_repo \<Rightarrow> memory_repo \<times> bool" where
  "mem_mark_payout_submitted batch_id txid r =
     (case mem_move [''signed'', ''submitted''] ''submitted'' batch_id r of
        (r', True) \<Rightarrow> (r'\<lparr>mr_txids := bt_insert batch_id txid (mr_txids r')\<rparr>, True)
      | (r', False) \<Rightarrow> (r', False))"

definition mem_mark_payout_confirmed :: "string \<Rightarrow> memory_repo \<Rightarrow> memory_repo \<times> bool" where
  "mem_mark_payout_confirmed = mem_move [''submitted'', ''signed''] ''confirmed''"

definition mem_mark_payout_failed :: "string \<Rightarrow> string \<Rightarrow> memory_repo \<Rightarrow> memory_repo \<times> bool" where
  "mem_mark_payout_failed batch_id reason =
     mem_move [''needs_approval'', ''created'', ''signed'', ''submitted''] ''failed'' batch_id"

definition mem_mark_payout_approved :: "string \<Rightarrow> memory_repo \<Rightarrow> memory_repo \<times> bool" where
  "mem_mark_payout_approved = mem_move [''needs_approval''] ''created''"

definition mem_unlock_failed_payout :: "payout_batch_record \<Rightarrow> memory_repo \<Rightarrow> memory_repo \<times> (db_error + nat)" where
  "mem_unlock_failed_payout batch r =
     (let entries = map (payout_entry PayoutFailedUnlock (\<lambda>a. a) (pr_batch_id batch)) (pr_recipients batch) in
      case mem_append_ledger_entries entries r of
        (r', Inl e) \<Rightarrow> (r', Inl e) | (r', Inr _) \<Rightarrow> (r', Inr (length entries)))"

definition mem_mark_payout_paid :: "payout_batch_record \<Rightarrow> memory_repo \<Rightarrow> memory_repo \<times> (db_error + nat)" where
  "mem_mark_payout_paid batch r =
     (let entries = map (payout_entry PayoutSent uminus (pr_batch_id batch)) (pr_recipients batch) in
      case mem_append_ledger_entries entries r of
        (r', Inl e) \<Rightarrow> (r', Inl e) | (r', Inr _) \<Rightarrow> (r', Inr (length entries)))"

definition mem_retry_failed_payout ::
  "string \<Rightarrow> string \<Rightarrow> memory_repo \<Rightarrow> memory_repo \<times> (db_error + payout_batch_record option)" where
  "mem_retry_failed_payout batch_id new_batch_id r =
     (if \<not> (case bt_get (mr_statuses r) batch_id of Some s \<Rightarrow> s \<in> {''failed'', ''cancelled''} | None \<Rightarrow> False)
      then (r, Inr None)
      else case bt_get (mr_batches r) batch_id of
          None \<Rightarrow> (r, Inr None)
        | Some original \<Rightarrow>
            (case mem_create_locked_payout_batch_with_status
                    \<lparr>pd_batch_id = new_batch_id, pd_recipients = pd_recipients original,
                     pd_total_base_units = pd_total_base_units original, pd_lock_entries = []\<rparr> ''created'' r of
               (r', Inl e) \<Rightarrow> (r', Inl e)
             | (r', Inr False) \<Rightarrow> (r', Inr None)
             | (r', Inr True) \<Rightarrow> (r', Inr (find (\<lambda>b. pr_batch_id b = new_batch_id)
                 (mem_list_payout_batches_by_status [''created''] (length (mr_batches r')) r')))))"

definition mem_cancel_payout ::
  "string \<Rightarrow> string \<Rightarrow> memory_repo \<Rightarrow> memory_repo \<times> (db_error + payout_batch_record option)" where
  "mem_cancel_payout batch_id reason r =
     (case mem_move [''needs_approval'', ''created'', ''signed''] ''cancelled'' batch_id r of
        (r', False) \<Rightarrow> (r', Inr None)
      | (r', True) \<Rightarrow>
          (case bt_get (mr_batches r') batch_id of
             None \<Rightarrow> (r', Inr None)
           | Some draft \<Rightarrow> (let batch = mem_batch_record r' batch_id ''cancelled'' draft in
               case mem_unlock_failed_payout batch r' of
                 (r'', Inl e) \<Rightarrow> (r'', Inl e) | (r'', Inr _) \<Rightarrow> (r'', Inr (Some batch)))))"

definition mem_append_payout_audit_event :: "payout_audit_event \<Rightarrow> memory_repo \<Rightarrow> memory_repo" where
  "mem_append_payout_audit_event e r = r\<lparr>mr_audit := mr_audit r @ [e]\<rparr>"

section \<open>Sessions, jobs and shares\<close>

definition mem_open_session :: "session_record \<Rightarrow> memory_repo \<Rightarrow> memory_repo" where
  "mem_open_session s r = r\<lparr>mr_sessions := (if bt_get (mr_sessions r) (so_id s) = None
     then bt_insert (so_id s) (s, True) (mr_sessions r) else mr_sessions r)\<rparr>"

definition mem_close_session :: "string \<Rightarrow> memory_repo \<Rightarrow> memory_repo" where
  "mem_close_session session_id r = (case bt_get (mr_sessions r) session_id of
     None \<Rightarrow> r | Some (s, _) \<Rightarrow> r\<lparr>mr_sessions := bt_insert session_id (s, False) (mr_sessions r)\<rparr>)"

definition mem_close_stale_sessions :: "string \<Rightarrow> memory_repo \<Rightarrow> memory_repo \<times> nat" where
  "mem_close_stale_sessions server_instance r =
     (let stale = (\<lambda>(s, active). active \<and> so_server_instance s = server_instance) in
      (r\<lparr>mr_sessions := map (\<lambda>(i, s). (i, if stale s then (fst s, False) else s)) (mr_sessions r)\<rparr>,
       length (filter (stale \<circ> snd) (mr_sessions r))))"

definition mem_update_session_difficulty :: "string \<Rightarrow> f64 \<Rightarrow> memory_repo \<Rightarrow> memory_repo" where
  "mem_update_session_difficulty session_id difficulty r = (case bt_get (mr_sessions r) session_id of
     None \<Rightarrow> r
   | Some (s, active) \<Rightarrow> r\<lparr>mr_sessions :=
       bt_insert session_id (s\<lparr>so_assigned_difficulty := difficulty\<rparr>, active) (mr_sessions r)\<rparr>)"

definition mem_upsert_job :: "job_record \<Rightarrow> memory_repo \<Rightarrow> memory_repo" where
  "mem_upsert_job j r = r\<lparr>mr_jobs := bt_insert (jr_job_id j) j (mr_jobs r)\<rparr>"

definition mem_insert_share :: "share_record \<Rightarrow> memory_repo \<Rightarrow> memory_repo \<times> bool" where
  "mem_insert_share s r =
     (if list_ex (\<lambda>e. sh_job_id e = sh_job_id s \<and> sh_miner e = sh_miner s \<and> sh_worker_name e = sh_worker_name s
          \<and> sh_extranonce2_hex e = sh_extranonce2_hex s \<and> sh_ntime_hex e = sh_ntime_hex s
          \<and> sh_nonce_hex e = sh_nonce_hex s) (mr_shares r)
      then (r, False) else (r\<lparr>mr_shares := mr_shares r @ [s]\<rparr>, True))"

definition mem_insert_share_event :: "share_event_record \<Rightarrow> memory_repo \<Rightarrow> memory_repo" where
  "mem_insert_share_event e r = r\<lparr>mr_share_events := mr_share_events r @ [e]\<rparr>"

section \<open>Blocks and rewards\<close>

definition mem_record_block_candidate :: "block_candidate_record \<Rightarrow> memory_repo \<Rightarrow> memory_repo \<times> bool" where
  "mem_record_block_candidate block r =
     (if bt_get (mr_candidates r) (bc_hash_hex block) \<noteq> None then (r, False)
      else (r\<lparr>mr_candidates := bt_insert (bc_hash_hex block) block (mr_candidates r),
              mr_blocks := bt_insert (bc_hash_hex block)
                \<lparr>br_hash_hex = bc_hash_hex block, br_job_id = bc_job_id block,
                 br_status = block_candidate_initial_status (bc_submit_response_json block), br_height = None,
                 br_confirmations = 0, br_reward_base_units = bc_reward_base_units block,
                 br_effort_pct = bc_effort_pct block\<rparr> (mr_blocks r),
              mr_reward_blocks := (if 0 < bc_reward_base_units block
                then bt_insert (bc_hash_hex block) \<lparr>rb_hash_hex = bc_hash_hex block, rb_job_id = bc_job_id block,
                       rb_reward_base_units = bc_reward_base_units block\<rparr> (mr_reward_blocks r)
                else mr_reward_blocks r)\<rparr>, True))"

definition mem_list_blocks_to_reconcile :: "nat \<Rightarrow> memory_repo \<Rightarrow> memory_block list" where
  "mem_list_blocks_to_reconcile limit r =
     take limit (filter (\<lambda>b. br_status b \<in> set pending_block_statuses) (bt_values (mr_blocks r)))"

definition mem_update_block_status :: "block_status_update \<Rightarrow> memory_repo \<Rightarrow> memory_repo \<times> bool" where
  "mem_update_block_status u r =
     (case bt_get (mr_blocks r) (bu_hash_hex u) of
        None \<Rightarrow> (r, False)
      | Some b \<Rightarrow>
          (r\<lparr>mr_blocks := bt_insert (bu_hash_hex u)
               (b\<lparr>br_status := bu_status u, br_height := bu_height u, br_confirmations := bu_confirmations u,
                  br_reward_base_units := bu_reward_base_units u\<rparr>) (mr_blocks r),
             mr_reward_blocks := (if bu_status u = ''confirmed'' \<and> 0 < bu_reward_base_units u
               then bt_insert (bu_hash_hex u) \<lparr>rb_hash_hex = bu_hash_hex u, rb_job_id = br_job_id b,
                      rb_reward_base_units = bu_reward_base_units u\<rparr> (mr_reward_blocks r)
               else mr_reward_blocks r)\<rparr>, True))"

definition mem_list_confirmed_unsettled_blocks :: "nat \<Rightarrow> memory_repo \<Rightarrow> reward_block list" where
  "mem_list_confirmed_unsettled_blocks limit r =
     take limit (filter (\<lambda>b. rb_hash_hex b \<notin> le_ref_id ` set (filter (\<lambda>e. le_ref_type e = ''block'') (mr_ledger r)))
       (bt_values (mr_reward_blocks r)))"

definition mem_share_weights_for_job :: "string \<Rightarrow> memory_repo \<Rightarrow> share_weight list" where
  "mem_share_weights_for_job job_id r =
     map (\<lambda>(m, d). \<lparr>sw_miner = m, sw_difficulty = d\<rparr>)
       (foldl (\<lambda>ws s. let d = f_as_u64 (sh_difficulty s) in bt_entry (sh_miner s) d (\<lambda>d'. d' + d) ws) []
         (filter (\<lambda>s. sh_job_id s = job_id) (mr_shares r)))"

definition mem_reward_entries ::
  "(memory_block \<Rightarrow> bool) \<Rightarrow> ledger_kind \<Rightarrow> (i128 \<Rightarrow> i128) \<Rightarrow> nat \<Rightarrow> memory_repo \<Rightarrow> ledger_entry list" where
  "mem_reward_entries of_block done f limit r =
     map (\<lambda>e. e\<lparr>le_amount_base_units := f (le_amount_base_units e), le_kind := done\<rparr>)
       (take limit (filter (\<lambda>e. le_kind e = RewardImmature \<and> le_ref_type e = ''block''
          \<and> (case bt_get (mr_blocks r) (le_ref_id e) of Some b \<Rightarrow> of_block b | None \<Rightarrow> False)
          \<and> (le_miner e, le_ref_id e) \<notin> (\<lambda>e. (le_miner e, le_ref_id e)) ` set (filter (\<lambda>e. le_kind e = done) (mr_ledger r)))
         (mr_ledger r)))"

definition mem_list_mature_reward_entries :: "u64 \<Rightarrow> nat \<Rightarrow> memory_repo \<Rightarrow> ledger_entry list" where
  "mem_list_mature_reward_entries confirm_depth =
     mem_reward_entries (\<lambda>b. br_status b = ''confirmed'' \<and> confirm_depth \<le> br_confirmations b) RewardMature (\<lambda>a. a)"

definition mem_list_orphan_reversal_entries :: "nat \<Rightarrow> memory_repo \<Rightarrow> ledger_entry list" where
  "mem_list_orphan_reversal_entries = mem_reward_entries (\<lambda>b. br_status b = ''orphaned'') RewardOrphanReversal uminus"

section \<open>The statuses of payout batches as an interface\<close>

text \<open>The calls that move a batch, and what they promise: the statuses they accept, and the new one.\<close>

datatype payout_mark =
  MarkSigned string string | MarkSubmitted string | MarkConfirmed | MarkFailed string | MarkApproved
  | MarkCancelled string

fun mark_from :: "payout_mark \<Rightarrow> string list" where
  "mark_from (MarkSigned _ _) = [''created'']"
| "mark_from (MarkSubmitted _) = [''signed'', ''submitted'']"
| "mark_from MarkConfirmed = [''submitted'', ''signed'']"
| "mark_from (MarkFailed _) = [''needs_approval'', ''created'', ''signed'', ''submitted'']"
| "mark_from MarkApproved = [''needs_approval'']"
| "mark_from (MarkCancelled _) = [''needs_approval'', ''created'', ''signed'']"

fun mark_to :: "payout_mark \<Rightarrow> string" where
  "mark_to (MarkSigned _ _) = ''signed''"
| "mark_to (MarkSubmitted _) = ''submitted''"
| "mark_to MarkConfirmed = ''confirmed''"
| "mark_to (MarkFailed _) = ''failed''"
| "mark_to MarkApproved = ''created''"
| "mark_to (MarkCancelled _) = ''cancelled''"

definition accepts :: "payout_mark \<Rightarrow> string option \<Rightarrow> bool" where
  "accepts k status \<longleftrightarrow> (case status of Some s \<Rightarrow> s \<in> set (mark_from k) | None \<Rightarrow> False)"

text \<open>The abstract machine: statuses by batch id, and the answers of a sequence of calls.\<close>

fun status_run :: "(payout_mark \<times> string) list \<Rightarrow> (string \<Rightarrow> string option) \<Rightarrow> (string \<Rightarrow> string option) \<times> bool list" where
  "status_run [] st = (st, [])"
| "status_run ((k, i) # calls) st =
     (let b = accepts k (st i); (st', bs) = status_run calls (if b then st(i \<mapsto> mark_to k) else st) in (st', b # bs))"

fun mark_run ::
  "(payout_mark \<Rightarrow> string \<Rightarrow> 's \<Rightarrow> 's \<times> bool) \<Rightarrow> (payout_mark \<times> string) list \<Rightarrow> 's \<Rightarrow> 's \<times> bool list" where
  "mark_run mark [] s = (s, [])"
| "mark_run mark ((k, i) # calls) s =
     (let (s', b) = mark k i s; (s'', bs) = mark_run mark calls s' in (s'', b # bs))"

locale payout_store =
  fixes ok :: "'s \<Rightarrow> bool"
    and status :: "'s \<Rightarrow> string \<Rightarrow> string option"
    and mark :: "payout_mark \<Rightarrow> string \<Rightarrow> 's \<Rightarrow> 's \<times> bool"
  assumes mark_ok: "ok s \<Longrightarrow> ok (fst (mark k i s))"
    and mark_answer: "ok s \<Longrightarrow> snd (mark k i s) = accepts k (status s i)"
    and mark_status: "ok s \<Longrightarrow> status (fst (mark k i s))
      = (if accepts k (status s i) then (status s)(i \<mapsto> mark_to k) else status s)"
begin

text \<open>Every store runs the abstract machine.\<close>

lemma runs: "ok s \<Longrightarrow> mark_run mark calls s = (s', bs) \<Longrightarrow> ok s' \<and> status_run calls (status s) = (status s', bs)"
proof (induction calls arbitrary: s s' bs)
  case (Cons call calls)
  obtain k i where call: "call = (k, i)" by (cases call)
  obtain s1 b where s1: "mark k i s = (s1, b)" by (cases "mark k i s")
  obtain bs' where run: "mark_run mark calls s1 = (s', bs')" "bs = b # bs'"
    using Cons.prems(2) s1 by (auto simp: call split: prod.splits)
  have s1_ok: "ok s1" using mark_ok [OF Cons.prems(1), of k i] s1 by simp
  have "b = accepts k (status s i)" using mark_answer [OF Cons.prems(1), of k i] s1 by simp
  moreover have "status s1 = (if accepts k (status s i) then (status s)(i \<mapsto> mark_to k) else status s)"
    using mark_status [OF Cons.prems(1), of k i] s1 by simp
  ultimately show ?case using Cons.IH [OF s1_ok run(1)] run(2) by (auto simp: call Let_def)
qed simp

end

lemma status_run_final:
  assumes "st i \<in> {Some ''confirmed'', Some ''failed'', Some ''cancelled''}"
  shows "fst (status_run calls st) i = st i"
  using assms
proof (induction calls arbitrary: st)
  case (Cons call calls)
  obtain k j where call: "call = (k, j)" by (cases call)
  let ?st = "if accepts k (st j) then st(j \<mapsto> mark_to k) else st"
  have "\<not> accepts k (st i)" using Cons.prems by (cases k) (auto simp: accepts_def)
  then have same: "?st i = st i" by auto
  have "fst (status_run (call # calls) st) = fst (status_run calls ?st)"
    by (simp add: call Let_def split: prod.split)
  then show ?case using Cons.IH [of ?st] Cons.prems same by simp
qed simp

section \<open>Both repositories provide it\<close>

definition pg_ok :: "pool_db \<Rightarrow> bool" where
  "pg_ok db \<longleftrightarrow> distinct (map pb_id (db_batches db))"

definition pg_status :: "pool_db \<Rightarrow> string \<Rightarrow> string option" where
  "pg_status db i = map_of (map (\<lambda>b. (pb_id b, pb_status b)) (db_batches db)) i"

fun pg_mark :: "payout_mark \<Rightarrow> string \<Rightarrow> pool_db \<Rightarrow> pool_db \<times> bool" where
  "pg_mark (MarkSigned txid raw) i = mark_payout_signed i txid raw"
| "pg_mark (MarkSubmitted txid) i = mark_payout_submitted i txid"
| "pg_mark MarkConfirmed i = mark_payout_confirmed i"
| "pg_mark (MarkFailed reason) i = mark_payout_failed i reason"
| "pg_mark MarkApproved i = mark_payout_approved i"
| "pg_mark (MarkCancelled reason) i = update_batch i [''needs_approval'', ''created'', ''signed'']
     (\<lambda>b. b\<lparr>pb_status := ''cancelled'', pb_failure_reason := Some reason\<rparr>)"

definition mem_ok :: "memory_repo \<Rightarrow> bool" where
  "mem_ok r \<longleftrightarrow> bt_wf (mr_statuses r) \<and> bt_wf (mr_balances r) \<and> bt_wf (mr_batches r)"

definition mem_status :: "memory_repo \<Rightarrow> string \<Rightarrow> string option" where
  "mem_status r = bt_get (mr_statuses r)"

fun mem_mark :: "payout_mark \<Rightarrow> string \<Rightarrow> memory_repo \<Rightarrow> memory_repo \<times> bool" where
  "mem_mark (MarkSigned txid raw) i = mem_mark_payout_signed i txid raw"
| "mem_mark (MarkSubmitted txid) i = mem_mark_payout_submitted i txid"
| "mem_mark MarkConfirmed i = mem_mark_payout_confirmed i"
| "mem_mark (MarkFailed reason) i = mem_mark_payout_failed i reason"
| "mem_mark MarkApproved i = mem_mark_payout_approved i"
| "mem_mark (MarkCancelled reason) i = mem_move [''needs_approval'', ''created'', ''signed''] ''cancelled'' i"

lemma pg_mark_update:
  "\<exists>f. pg_mark k i = update_batch i (mark_from k) f \<and> (\<forall>b. pb_id (f b) = pb_id b \<and> pb_status (f b) = mark_to k)"
  by (cases k) (auto simp: mark_payout_signed_def mark_payout_submitted_def mark_payout_confirmed_def
      mark_payout_failed_def mark_payout_approved_def fun_eq_iff intro!: exI)

lemma update_batch_status:
  assumes ids: "distinct (map pb_id bs)" and f: "\<And>b. pb_id (f b) = pb_id b \<and> pb_status (f b) = to"
  shows "map_of (map (\<lambda>b. (pb_id b, pb_status b)) (map (\<lambda>b. if pb_id b = i \<and> pb_status b \<in> S then f b else b) bs))
    = (let st = map_of (map (\<lambda>b. (pb_id b, pb_status b)) bs) in
       if \<exists>s \<in> S. st i = Some s then st(i \<mapsto> to) else st)"
    "list_ex (\<lambda>b. pb_id b = i \<and> pb_status b \<in> S) bs
     = (\<exists>s \<in> S. map_of (map (\<lambda>b. (pb_id b, pb_status b)) bs) i = Some s)"
proof -
  show "list_ex (\<lambda>b. pb_id b = i \<and> pb_status b \<in> S) bs
     = (\<exists>s \<in> S. map_of (map (\<lambda>b. (pb_id b, pb_status b)) bs) i = Some s)"
    using ids by (auto simp: list_ex_iff map_of_eq_Some_iff comp_def image_iff)
  have same: "map (\<lambda>b. if pb_id b = i \<and> pb_status b \<in> S then f b else b) bs = bs" if "i \<notin> pb_id ` set bs" for bs
    using that by (intro map_idI) auto
  show "map_of (map (\<lambda>b. (pb_id b, pb_status b)) (map (\<lambda>b. if pb_id b = i \<and> pb_status b \<in> S then f b else b) bs))
    = (let st = map_of (map (\<lambda>b. (pb_id b, pb_status b)) bs) in
       if \<exists>s \<in> S. st i = Some s then st(i \<mapsto> to) else st)"
    using ids
  proof (induction bs)
    case (Cons b bs)
    show ?case
    proof (cases "pb_id b = i")
      case True
      then have "i \<notin> pb_id ` set bs" using Cons.prems by auto
      from same [OF this] True f show ?thesis by (auto simp: Let_def)
    next
      case False
      then show ?thesis using Cons by (auto simp: Let_def fun_upd_twist)
    qed
  qed simp
qed

interpretation pg: payout_store pg_ok pg_status pg_mark
proof
  fix db k i assume ok: "pg_ok db"
  obtain f where f: "pg_mark k i = update_batch i (mark_from k) f" "\<And>b. pb_id (f b) = pb_id b \<and> pb_status (f b) = mark_to k"
    using pg_mark_update by blast
  note ids = ok [unfolded pg_ok_def]
  note upd = update_batch_status [OF ids f(2), where i = i and S = "set (mark_from k)"]
  have acc: "accepts k st \<longleftrightarrow> (\<exists>s \<in> set (mark_from k). st = Some s)" for st
    by (auto simp: accepts_def split: option.splits)
  show "pg_ok (fst (pg_mark k i db))"
  proof -
    have "map pb_id (db_batches (fst (pg_mark k i db))) = map pb_id (db_batches db)"
      using f(2) by (simp add: f(1) update_batch_def)
    then show ?thesis using ids by (simp add: pg_ok_def)
  qed
  show "snd (pg_mark k i db) = accepts k (pg_status db i)"
    using upd(2) by (simp add: f(1) update_batch_def acc pg_status_def)
  show "pg_status (fst (pg_mark k i db)) = (if accepts k (pg_status db i) then (pg_status db)(i \<mapsto> mark_to k) else pg_status db)"
    using upd(1) by (simp add: f(1) update_batch_def acc pg_status_def [abs_def] Let_def)
qed

lemma mem_move_simps:
  assumes "bt_wf (mr_statuses r)"
  shows "mem_status (fst (mem_move srcs dst i r))
      = (if \<exists>s \<in> set srcs. mem_status r i = Some s then (mem_status r)(i \<mapsto> dst) else mem_status r)"
    "snd (mem_move srcs dst i r) = (\<exists>s \<in> set srcs. mem_status r i = Some s)"
    "bt_wf (mr_statuses (fst (mem_move srcs dst i r)))" "mr_balances (fst (mem_move srcs dst i r)) = mr_balances r"
    "mr_batches (fst (mem_move srcs dst i r)) = mr_batches r"
  using assms by (auto simp: mem_move_def mem_status_def bt_get_insert fun_eq_iff split: option.splits)

lemma mem_mark_move:
  "mr_statuses (fst (mem_mark k i r)) = mr_statuses (fst (mem_move (mark_from k) (mark_to k) i r))
   \<and> mr_balances (fst (mem_mark k i r)) = mr_balances r \<and> mr_batches (fst (mem_mark k i r)) = mr_batches r
   \<and> snd (mem_mark k i r) = snd (mem_move (mark_from k) (mark_to k) i r)"
  by (cases k) (auto simp: mem_mark_payout_signed_def mem_mark_payout_submitted_def mem_mark_payout_confirmed_def
      mem_mark_payout_failed_def mem_mark_payout_approved_def mem_move_def split: prod.splits bool.splits option.splits)

interpretation memory: payout_store mem_ok mem_status mem_mark
proof
  fix r k i assume ok: "mem_ok r"
  note moved = mem_move_simps [where r = r and i = i and srcs = "mark_from k" and dst = "mark_to k"]
  have acc: "accepts k st \<longleftrightarrow> (\<exists>s \<in> set (mark_from k). st = Some s)" for st
    by (auto simp: accepts_def split: option.splits)
  have st: "mem_status (fst (mem_mark k i r)) = mem_status (fst (mem_move (mark_from k) (mark_to k) i r))"
    using mem_mark_move [of k i r] by (simp add: mem_status_def)
  show "mem_ok (fst (mem_mark k i r))"
    using ok moved(3) mem_mark_move [of k i r] by (simp add: mem_ok_def)
  show "snd (mem_mark k i r) = accepts k (mem_status r i)"
    using ok moved(2) mem_mark_move [of k i r] by (simp add: mem_ok_def acc)
  show "mem_status (fst (mem_mark k i r)) = (if accepts k (mem_status r i) then (mem_status r)(i \<mapsto> mark_to k) else mem_status r)"
    using ok moved(1) by (simp add: st mem_ok_def acc)
qed

text \<open>
  C5. The two repositories cannot be told apart by the calls that move payout batches: from the same
  statuses they give the same answers and end with the same statuses, those of the abstract machine,
  in which a confirmed, failed or cancelled batch never moves again.
\<close>

theorem payout_stores_agree:
  assumes "pg_ok db" and "mem_ok r" and "mem_status r = pg_status db"
    and "mark_run pg_mark calls db = (db', answers)" and "mark_run mem_mark calls r = (r', answers')"
  shows "answers' = answers \<and> mem_status r' = pg_status db' \<and> status_run calls (pg_status db) = (pg_status db', answers)
    \<and> (\<forall>i. pg_status db i \<in> {Some ''confirmed'', Some ''failed'', Some ''cancelled''} \<longrightarrow> mem_status r' i = pg_status db i)"
proof -
  have pg: "status_run calls (pg_status db) = (pg_status db', answers)" using pg.runs [OF assms(1,4)] by blast
  have "status_run calls (mem_status r) = (mem_status r', answers')" using memory.runs [OF assms(2,5)] by blast
  then show ?thesis using pg assms(3) status_run_final [of "pg_status db" _ calls] by auto
qed

section \<open>Confirmed balances\<close>

definition pg_confirmed :: "(string, balance_row) btree \<Rightarrow> string \<Rightarrow> int" where
  "pg_confirmed bs m = (case bt_get bs m of Some b \<Rightarrow> bl_confirmed b | None \<Rightarrow> 0)"

definition mem_confirmed :: "(string, miner_balance) btree \<Rightarrow> string \<Rightarrow> int" where
  "mem_confirmed bs m = (case bt_get bs m of Some b \<Rightarrow> uint (mb_confirmed_base_units b) | None \<Rightarrow> 0)"

text \<open>
  An entry that both repositories book alike: its key is new; a credit does not pass the range of
  \<open>u128\<close>; what is unlocked belongs to a miner with a balance; and a reversal is one of a reward that
  has matured.
\<close>

definition entry_plain :: "pool_db \<Rightarrow> ledger_entry \<Rightarrow> bool" where
  "entry_plain db e \<longleftrightarrow> ledger_key (ledger_row_of_entry e) \<notin> ledger_key ` set (db_ledger db)
     \<and> (case le_miner e of
          None \<Rightarrow> True
        | Some m \<Rightarrow> (let a = sint (le_amount_base_units e) in
            case le_kind e of
              RewardMature \<Rightarrow> pg_confirmed (db_balances db) m + max a 0 < 2 ^ 128
            | PayoutFailedUnlock \<Rightarrow> pg_confirmed (db_balances db) m + max a 0 < 2 ^ 128
                \<and> (bt_get (db_balances db) m \<noteq> None \<or> a \<le> 0)
            | RewardOrphanReversal \<Rightarrow> - (2 ^ 127) < a \<and> (0 \<le> a \<or> was_matured (db_ledger db) m (ledger_row_of_entry e))
            | PayoutLock \<Rightarrow> - (2 ^ 127) < a
            | _ \<Rightarrow> True))"

fun entries_plain :: "pool_db \<Rightarrow> ledger_entry list \<Rightarrow> bool" where
  "entries_plain db [] \<longleftrightarrow> True"
| "entries_plain db (e # es) \<longleftrightarrow> entry_plain db e \<and> entries_plain (append_row (ledger_row_of_entry e) db) es"

definition balances_agree :: "pool_db \<Rightarrow> (string, miner_balance) btree \<Rightarrow> bool" where
  "balances_agree db bs \<longleftrightarrow> bt_wf (db_balances db) \<and> bt_wf bs \<and> (\<forall>m. pg_confirmed (db_balances db) m = mem_confirmed bs m)"

lemma uint_of_sint:
  fixes w :: i128
  assumes "0 \<le> sint w"
  shows "uint w = sint w"
proof -
  have "sint w < 2 ^ 127" using sint_range_size [of w] by (simp add: word_size)
  then have "take_bit 128 (sint w) = sint w" using assms by (intro take_bit_int_eq_self) simp_all
  then show ?thesis by (simp add: uint_sint)
qed

lemma sint_minus:
  fixes w :: i128
  assumes "sint w < 0" and "- (2 ^ 127) < sint w"
  shows "sint (- w) = - sint w"
proof -
  have "signed_take_bit 127 (- sint w) = - sint w" using assms by (intro signed_take_bit_int_eq_self) simp_all
  then show ?thesis by (simp add: sint_word_ariths)
qed

lemma uint_sat_sub: "uint (sat_sub a b) = max (uint a - uint b) 0"
proof -
  have "int (unat (sat_sub a b)) = max (int (unat a) - int (unat b)) 0"
    unfolding unat_sat_sub by linarith
  then show ?thesis by simp
qed

lemma uint_plus_eq: "uint a + uint b < 2 ^ LENGTH('a) \<Longrightarrow> uint (a + b) = uint a + uint b"
  for a b :: "'a::len word"
  by (simp add: uint_word_ariths)

lemma mem_credit_confirmed:
  assumes "bt_wf bs" and "mem_confirmed bs m + uint a < 2 ^ 128"
  shows "bt_wf (mem_credit m a bs)" "mem_confirmed (mem_credit m a bs) m' = mem_confirmed bs m' + (if m' = m then uint a else 0)"
  using assms by (auto simp: mem_credit_def mem_confirmed_def bt_get_insert uint_plus_eq split: option.splits)

lemma mem_debit_confirmed:
  assumes "bt_wf bs" and "sint a < 0" and "- (2 ^ 127) < sint a"
  shows "\<exists>bs'. mem_debit m a bs = Inr bs' \<and> bt_wf bs'
    \<and> (\<forall>m'. mem_confirmed bs' m' = (if m' = m then max (mem_confirmed bs m + sint a) 0 else mem_confirmed bs m'))"
proof -
  have neg: "sint (- a) = - sint a \<and> uint (- a) = - sint a"
    using sint_minus [OF assms(2,3)] uint_of_sint [of "- a"] assms(2) by simp
  then show ?thesis
    using assms(1,2) by (auto simp: mem_debit_def mem_confirmed_def bt_get_insert uint_sat_sub split: option.split)
qed

lemma pg_upsert_confirmed:
  assumes "bt_wf bs"
  shows "bt_wf (upsert_balance m f bs)"
    "pg_confirmed (upsert_balance m f bs) m' =
      (if m' = m then bl_confirmed (f (case bt_get bs m of Some b \<Rightarrow> b | None \<Rightarrow> no_balance)) else pg_confirmed bs m')"
  using assms by (auto simp: upsert_balance_def pg_confirmed_def bt_get_insert)

lemma pg_update_confirmed:
  assumes "bt_wf bs"
  shows "bt_wf (update_balance m f bs)"
    "pg_confirmed (update_balance m f bs) m' =
      (if m' = m then (case bt_get bs m of Some b \<Rightarrow> bl_confirmed (f b) | None \<Rightarrow> 0) else pg_confirmed bs m')"
  using assms by (auto simp: update_balance_def pg_confirmed_def bt_get_insert split: option.split)

text \<open>What a plain entry does to the confirmed balance of its miner, in both repositories.\<close>

definition confirmed_after :: "ledger_entry \<Rightarrow> int \<Rightarrow> int" where
  "confirmed_after e c =
     (let a = sint (le_amount_base_units e) in
      case le_kind e of
        RewardMature \<Rightarrow> c + max a 0
      | PayoutFailedUnlock \<Rightarrow> c + max a 0
      | RewardOrphanReversal \<Rightarrow> if a < 0 then max (c + a) 0 else c
      | PayoutLock \<Rightarrow> if a < 0 then max (c + a) 0 else c
      | _ \<Rightarrow> c)"

lemma pg_post_confirmed:
  assumes wf: "bt_wf (db_balances db)" and plain: "entry_plain db e"
  shows "bt_wf (db_balances (append_row (ledger_row_of_entry e) db))"
    "pg_confirmed (db_balances (append_row (ledger_row_of_entry e) db)) m =
       (if le_miner e = Some m then confirmed_after e (pg_confirmed (db_balances db) m) else pg_confirmed (db_balances db) m)"
proof -
  let ?r = "ledger_row_of_entry e"
  let ?L = "db_ledger db @ [?r]"
  have row: "lr_miner ?r = le_miner e" "lr_amount ?r = sint (le_amount_base_units e)" "lr_kind ?r = le_kind e"
    by (simp_all add: ledger_row_of_entry_def)
  have new: "db_balances (append_row ?r db) = post_entry ?L ?r (db_balances db)"
    using plain by (simp add: append_row_def entry_plain_def Let_def)
  show "bt_wf (db_balances (append_row ?r db))" unfolding new by (rule wf_post_entry [OF wf])
  have matured: "was_matured ?L w ?r = was_matured (db_ledger db) w ?r" if "le_kind e \<noteq> RewardMature" for w
    using that by (simp add: was_matured_def row)
  show "pg_confirmed (db_balances (append_row ?r db)) m =
       (if le_miner e = Some m then confirmed_after e (pg_confirmed (db_balances db) m) else pg_confirmed (db_balances db) m)"
  proof (cases "le_miner e")
    case None
    then show ?thesis by (simp add: new post_entry_def row)
  next
    case (Some w)
    let ?a = "sint (le_amount_base_units e)"
    have base: "bl_confirmed (case bt_get (db_balances db) w of Some b \<Rightarrow> b | None \<Rightarrow> no_balance) = pg_confirmed (db_balances db) w" for w
      by (simp add: pg_confirmed_def split: option.split)
    note simps = new post_entry_def row confirmed_after_def Let_def Some pg_upsert_confirmed [OF wf] pg_update_confirmed [OF wf] base
    have known: "bl_confirmed b = pg_confirmed (db_balances db) w" if "bt_get (db_balances db) w = Some b" for b w
      using that by (simp add: pg_confirmed_def)
    have unknown: "pg_confirmed (db_balances db) w = 0" if "bt_get (db_balances db) w = None" for w
      using that by (simp add: pg_confirmed_def)
    have neg: "i128_neg ?a = - ?a" if "- (2 ^ 127) < ?a" using that by (simp add: i128_neg_def)
    show ?thesis
    proof (cases "le_kind e")
      case RewardOrphanReversal
      then have "- (2 ^ 127) < ?a" "0 \<le> ?a \<or> was_matured ?L w ?r" using plain Some matured by (simp_all add: entry_plain_def Let_def)
      then show ?thesis using RewardOrphanReversal by (auto simp: simps neg)
    next
      case PayoutLock
      then have "- (2 ^ 127) < ?a" using plain Some by (simp add: entry_plain_def Let_def)
      then show ?thesis using PayoutLock by (auto simp: simps neg)
    next
      case PayoutFailedUnlock
      then have "bt_get (db_balances db) w \<noteq> None \<or> ?a \<le> 0" using plain Some by (simp add: entry_plain_def Let_def)
      then show ?thesis using PayoutFailedUnlock by (auto simp: simps known)
    next
      case PayoutSent
      then show ?thesis by (auto simp: simps known unknown split: option.split)
    qed (auto simp: simps)
  qed
qed

lemma mem_post_confirmed:
  assumes agree: "balances_agree db bs" and plain: "entry_plain db e"
  shows "\<exists>bs'. mem_post e bs = Inr bs' \<and> bt_wf bs'
    \<and> (\<forall>m. mem_confirmed bs' m = (if le_miner e = Some m then confirmed_after e (mem_confirmed bs m) else mem_confirmed bs m))"
proof (cases "le_miner e")
  case None
  then show ?thesis using agree by (simp add: mem_post_def balances_agree_def)
next
  case (Some w)
  let ?a = "le_amount_base_units e"
  have wf: "bt_wf bs" and same: "pg_confirmed (db_balances db) w = mem_confirmed bs w"
    using agree by (simp_all add: balances_agree_def)
  have credit: "\<exists>bs'. mem_credit w ?a bs = bs' \<and> bt_wf bs'
      \<and> (\<forall>m. mem_confirmed bs' m = (if w = m then mem_confirmed bs m + sint ?a else mem_confirmed bs m))"
    if "0 < sint ?a" "mem_confirmed bs w + sint ?a < 2 ^ 128"
    using mem_credit_confirmed [OF wf, of w ?a] that uint_of_sint [of ?a] by auto
  have debit: "\<exists>bs'. mem_debit w ?a bs = Inr bs' \<and> bt_wf bs'
      \<and> (\<forall>m. mem_confirmed bs' m = (if w = m then max (mem_confirmed bs m + sint ?a) 0 else mem_confirmed bs m))"
    if "sint ?a < 0" "- (2 ^ 127) < sint ?a"
    using mem_debit_confirmed [OF wf that, of w] by auto
  show ?thesis
    using plain Some same wf credit debit
    by (cases "le_kind e") (auto simp: mem_post_def entry_plain_def confirmed_after_def Let_def)
qed

lemma append_agrees:
  assumes "balances_agree db bs" and "entries_plain db es"
  shows "\<exists>bs'. mem_post_all es bs = (bs', Inr ()) \<and> balances_agree (append_ledger_entries es db) bs'"
  using assms
proof (induction es arbitrary: db bs)
  case (Cons e es)
  then have plain: "entry_plain db e" by simp
  obtain bs1 where bs1: "mem_post e bs = Inr bs1" "bt_wf bs1"
    "\<And>m. mem_confirmed bs1 m = (if le_miner e = Some m then confirmed_after e (mem_confirmed bs m) else mem_confirmed bs m)"
    using mem_post_confirmed [OF Cons.prems(1) plain] by blast
  have "balances_agree (append_row (ledger_row_of_entry e) db) bs1"
    using Cons.prems(1) bs1(2,3) pg_post_confirmed [OF _ plain] by (simp add: balances_agree_def)
  then show ?case
    using Cons.IH [of "append_row (ledger_row_of_entry e) db" bs1] Cons.prems(2) bs1(1)
    by (simp add: append_ledger_entries_def)
qed (simp add: append_ledger_entries_def)

section \<open>The in-memory repository follows the PostgreSQL one\<close>

datatype store_op =
  OpMark payout_mark string | OpCreateBatch nat payout_batch_draft string | OpAppendEntries "ledger_entry list"

fun pg_op :: "store_op \<Rightarrow> pool_db \<Rightarrow> db_error + (pool_db \<times> bool)" where
  "pg_op (OpMark k i) db = Inr (pg_mark k i db)"
| "pg_op (OpCreateBatch now draft status) db = create_locked_payout_batch_with_status now draft status db"
| "pg_op (OpAppendEntries es) db = Inr (append_ledger_entries es db, True)"

fun mem_op :: "store_op \<Rightarrow> memory_repo \<Rightarrow> memory_repo \<times> (db_error + bool)" where
  "mem_op (OpMark k i) r = (let (r', b) = mem_mark k i r in (r', Inr b))"
| "mem_op (OpCreateBatch now draft status) r = mem_create_locked_payout_batch_with_status draft status r"
| "mem_op (OpAppendEntries es) r = (case mem_append_ledger_entries es r of
     (r', Inl e) \<Rightarrow> (r', Inl e) | (r', Inr _) \<Rightarrow> (r', Inr True))"

text \<open>Operations of which both repositories have the same account: see \<open>entry_plain\<close>.\<close>

definition draft_plain :: "payout_batch_draft \<Rightarrow> bool" where
  "draft_plain draft \<longleftrightarrow> (\<forall>x \<in> set (pd_recipients draft). uint (rc_amount_base_units x) < 2 ^ 127)
     \<and> (pd_lock_entries draft = []
        \<or> pd_lock_entries draft = map (payout_entry PayoutLock uminus (pd_batch_id draft)) (pd_recipients draft))"

fun op_plain :: "pool_db \<Rightarrow> store_op \<Rightarrow> bool" where
  "op_plain db (OpMark k i) \<longleftrightarrow> True"
| "op_plain db (OpCreateBatch now draft status) \<longleftrightarrow> draft_plain draft"
| "op_plain db (OpAppendEntries es) \<longleftrightarrow> entries_plain db es"

definition stores_agree :: "pool_db \<Rightarrow> memory_repo \<Rightarrow> bool" where
  "stores_agree db r \<longleftrightarrow> pg_ok db \<and> mem_ok r \<and> mem_status r = pg_status db
     \<and> (\<forall>i. bt_get (mr_batches r) i = None \<longleftrightarrow> pg_status db i = None) \<and> balances_agree db (mr_balances r)"

lemma lock_agrees:
  assumes "lock_recipients batch_id inserted rs db = Inr db'" and "balances_agree db bs"
    and "\<forall>x \<in> set rs. uint (rc_amount_base_units x) < 2 ^ 127"
  shows "\<exists>bs'. mem_post_all (map (payout_entry PayoutLock uminus batch_id) rs) bs = (bs', Inr ())
    \<and> balances_agree db' bs' \<and> db_batches db' = db_batches db"
  using assms
proof (induction rs arbitrary: inserted db bs)
  case (Cons x rs)
  let ?m = "rc_miner x" and ?w = "rc_amount_base_units x" and ?e = "payout_entry PayoutLock uminus batch_id x"
  have wf: "bt_wf (db_balances db)" "bt_wf bs" and same: "\<And>m. pg_confirmed (db_balances db) m = mem_confirmed bs m"
    using Cons.prems(2) by (simp_all add: balances_agree_def)
  have "int (unat ?w) < int (2 ^ 127)" using Cons.prems(3) by simp
  then have w: "unat ?w < 2 ^ 127" by (simp only: of_nat_less_iff)
  then have lock: "sint (le_amount_base_units ?e) = - uint ?w" "le_kind ?e = PayoutLock" "le_miner ?e = Some ?m"
    using sint_neg_small [OF w] by (simp_all add: payout_entry_def)
  obtain b where b: "bt_get (db_balances db) ?m = Some b" "uint ?w \<le> bl_confirmed b"
    using Cons.prems(1) unfolding lock_recipients.simps Let_def by (auto split: if_split_asm option.split_asm)
  define bal where "bal = bt_insert ?m (b\<lparr>bl_confirmed := max (bl_confirmed b - uint ?w) 0, bl_locked := bl_locked b + uint ?w\<rparr>) (db_balances db)"
  define L where "L = (if ledger_key (payout_lock_row batch_id x) \<in> ledger_key ` set (db_ledger db) then db_ledger db
    else db_ledger db @ [payout_lock_row batch_id x])"
  have rest: "lock_recipients batch_id (?m # inserted) rs (db\<lparr>db_ledger := L, db_balances := bal\<rparr>) = Inr db'"
    using Cons.prems(1) b(2) unfolding bal_def L_def lock_recipients.simps Let_def b(1) by (simp split: if_split_asm)
  have conf: "mem_confirmed bs ?m = bl_confirmed b" using same [of ?m] b(1) by (simp add: pg_confirmed_def)
  have "\<exists>bs'. mem_post ?e bs = Inr bs' \<and> bt_wf bs'
      \<and> (\<forall>m. mem_confirmed bs' m = (if m = ?m then mem_confirmed bs ?m - uint ?w else mem_confirmed bs m))"
  proof (cases "uint ?w = 0")
    case True
    then show ?thesis using lock wf(2) by (simp add: mem_post_def)
  next
    case False
    then have "0 < uint ?w" using uint_ge_0 [of ?w] by linarith
    then have neg: "sint (le_amount_base_units ?e) < 0" "- (2 ^ 127) < sint (le_amount_base_units ?e)"
      using Cons.prems(3) lock(1) by simp_all
    have "max (mem_confirmed bs ?m + sint (le_amount_base_units ?e)) 0 = mem_confirmed bs ?m - uint ?w"
      using b(2) conf lock(1) by simp
    moreover obtain bs' where "mem_debit ?m (le_amount_base_units ?e) bs = Inr bs'" "bt_wf bs'"
      "\<And>m. mem_confirmed bs' m = (if m = ?m then max (mem_confirmed bs ?m + sint (le_amount_base_units ?e)) 0
        else mem_confirmed bs m)"
      using mem_debit_confirmed [OF wf(2) neg, of ?m] by blast
    ultimately show ?thesis using lock neg(1) by (intro exI [of _ bs']) (simp add: mem_post_def)
  qed
  then obtain bs1 where bs1: "mem_post ?e bs = Inr bs1" "bt_wf bs1"
    "\<And>m. mem_confirmed bs1 m = (if m = ?m then mem_confirmed bs ?m - uint ?w else mem_confirmed bs m)" by blast
  have "bt_wf bal" "pg_confirmed bal m = (if m = ?m then bl_confirmed b - uint ?w else pg_confirmed (db_balances db) m)" for m
    using wf(1) b(2) by (simp_all add: bal_def pg_confirmed_def bt_get_insert)
  then have "balances_agree (db\<lparr>db_ledger := L, db_balances := bal\<rparr>) bs1"
    using bs1(2,3) same conf by (simp add: balances_agree_def)
  from Cons.IH [OF rest this] Cons.prems(3) show ?case using bs1(1) by simp
qed simp

lemma append_rows_batches [simp]: "db_batches (append_ledger_entries es db) = db_batches db"
proof -
  have "db_batches (append_row r db) = db_batches db" for r db by (simp add: append_row_def Let_def)
  then show ?thesis unfolding append_ledger_entries_def by (induction es arbitrary: db) simp_all
qed

lemma mark_agrees:
  assumes "stores_agree db r"
  shows "snd (mem_mark k i r) = snd (pg_mark k i db)" "stores_agree (fst (pg_mark k i db)) (fst (mem_mark k i r))"
proof -
  have ok: "pg_ok db" "mem_ok r" "mem_status r = pg_status db" using assms by (simp_all add: stores_agree_def)
  note pg = pg.mark_ok [OF ok(1), of k i] pg.mark_answer [OF ok(1), of k i] pg.mark_status [OF ok(1), of k i]
  note mem = memory.mark_ok [OF ok(2), of k i] memory.mark_answer [OF ok(2), of k i] memory.mark_status [OF ok(2), of k i]
  show "snd (mem_mark k i r) = snd (pg_mark k i db)" using pg(2) mem(2) ok(3) by simp
  obtain f where "pg_mark k i = update_batch i (mark_from k) f" using pg_mark_update by blast
  then have "db_balances (fst (pg_mark k i db)) = db_balances db" by simp
  moreover have "accepts k (pg_status db i) \<Longrightarrow> pg_status db i \<noteq> None" by (auto simp: accepts_def split: option.splits)
  ultimately show "stores_agree (fst (pg_mark k i db)) (fst (mem_mark k i r))"
    using assms pg(1,3) mem(1,3) mem_mark_move [of k i r] by (auto simp: stores_agree_def balances_agree_def)
qed

lemma create_agrees:
  assumes agree: "stores_agree db r" and plain: "draft_plain draft"
    and created: "create_locked_payout_batch_with_status now draft st db = Inr (db', b)"
  shows "\<exists>r'. mem_create_locked_payout_batch_with_status draft st r = (r', Inr b) \<and> stores_agree db' r'"
proof -
  let ?i = "pd_batch_id draft"
  have ids: "pg_status db ?i = None \<longleftrightarrow> \<not> list_ex (\<lambda>b. pb_id b = ?i) (db_batches db)"
    by (auto simp: pg_status_def map_of_eq_None_iff list_ex_iff image_iff)
  show ?thesis
  proof (cases "pg_status db ?i = None")
    case False
    then show ?thesis using created agree ids
      by (auto simp: create_locked_payout_batch_with_status_def mem_create_locked_payout_batch_with_status_def stores_agree_def)
  next
    case True
    let ?row = "\<lparr>pb_id = ?i, pb_status = st, pb_total_base_units = uint (pd_total_base_units draft), pb_txid = None,
        pb_raw_tx_hash = None, pb_recipients = pd_recipients draft, pb_created_at = now, pb_failure_reason = None\<rparr>"
    have locked: "lock_recipients ?i [] (pd_recipients draft) (db\<lparr>db_batches := db_batches db @ [?row]\<rparr>) = Inr db'" "b"
      using created True ids by (auto simp: create_locked_payout_batch_with_status_def result_bind_eq_Inr)
    have "balances_agree (db\<lparr>db_batches := db_batches db @ [?row]\<rparr>) (mr_balances r)"
      using agree by (simp add: stores_agree_def balances_agree_def)
    from lock_agrees [OF locked(1) this] plain obtain bs where bs:
      "mem_post_all (map (payout_entry PayoutLock uminus ?i) (pd_recipients draft)) (mr_balances r) = (bs, Inr ())"
      "balances_agree db' bs" "db_batches db' = db_batches db @ [?row]"
      by (auto simp: draft_plain_def)
    let ?entries = "if pd_lock_entries draft = [] then map (payout_entry PayoutLock uminus ?i) (pd_recipients draft)
      else pd_lock_entries draft"
    have entries: "?entries = map (payout_entry PayoutLock uminus ?i) (pd_recipients draft)"
      using plain by (auto simp: draft_plain_def)
    let ?r = "r\<lparr>mr_statuses := bt_insert ?i st (mr_statuses r), mr_batches := bt_insert ?i draft (mr_batches r),
      mr_balances := bs, mr_ledger := mr_ledger r @ ?entries\<rparr>"
    have "mem_create_locked_payout_batch_with_status draft st r = (?r, Inr True)"
      using bs(1) agree True
      by (simp add: mem_create_locked_payout_batch_with_status_def mem_append_ledger_entries_def entries stores_agree_def)
    moreover have "pg_status db' = (pg_status db)(?i \<mapsto> st)"
      using True by (auto simp: pg_status_def [abs_def] bs(3) map_add_def fun_eq_iff split: option.split)
    then have "stores_agree db' ?r"
      using agree bs(2,3) True ids
      by (auto simp: stores_agree_def pg_ok_def mem_ok_def mem_status_def bt_get_insert balances_agree_def fun_eq_iff list_ex_iff)
    moreover have "b = True" using locked(2) by simp
    ultimately show ?thesis by blast
  qed
qed

lemma op_agrees:
  assumes "stores_agree db r" and "op_plain db op" and "pg_op op db = Inr (db', b)"
  shows "\<exists>r'. mem_op op r = (r', Inr b) \<and> stores_agree db' r'"
proof (cases op)
  case (OpMark k i)
  then show ?thesis using assms mark_agrees [OF assms(1), of k i] by (auto split: prod.split)
next
  case (OpCreateBatch now draft st)
  then show ?thesis using assms create_agrees [OF assms(1)] by simp
next
  case (OpAppendEntries es)
  then obtain bs where bs: "mem_post_all es (mr_balances r) = (bs, Inr ())" "balances_agree (append_ledger_entries es db) bs"
    using append_agrees [of db "mr_balances r" es] assms by (auto simp: stores_agree_def)
  then have "stores_agree (append_ledger_entries es db) (r\<lparr>mr_balances := bs, mr_ledger := mr_ledger r @ es\<rparr>)"
    using assms(1) by (simp add: stores_agree_def pg_ok_def mem_ok_def mem_status_def pg_status_def [abs_def] balances_agree_def)
  then show ?thesis using OpAppendEntries assms(3) bs(1) by (simp add: mem_append_ledger_entries_def)
qed

fun pg_ops :: "store_op list \<Rightarrow> pool_db \<Rightarrow> db_error + (pool_db \<times> bool list)" where
  "pg_ops [] db = Inr (db, [])"
| "pg_ops (op # ops) db = result_bind (pg_op op db) (\<lambda>(db', b).
     result_bind (pg_ops ops db') (\<lambda>(db'', bs). Inr (db'', b # bs)))"

fun mem_ops :: "store_op list \<Rightarrow> memory_repo \<Rightarrow> memory_repo \<times> (db_error + bool list)" where
  "mem_ops [] r = (r, Inr [])"
| "mem_ops (op # ops) r = (case mem_op op r of
     (r', Inl e) \<Rightarrow> (r', Inl e)
   | (r', Inr b) \<Rightarrow> (case mem_ops ops r' of (r'', Inl e) \<Rightarrow> (r'', Inl e) | (r'', Inr bs) \<Rightarrow> (r'', Inr (b # bs))))"

fun ops_plain :: "store_op list \<Rightarrow> pool_db \<Rightarrow> bool" where
  "ops_plain [] db \<longleftrightarrow> True"
| "ops_plain (op # ops) db \<longleftrightarrow> op_plain db op \<and> (case pg_op op db of Inl e \<Rightarrow> False | Inr (db', b) \<Rightarrow> ops_plain ops db')"

lemma ops_agree:
  "stores_agree db r \<Longrightarrow> ops_plain ops db \<Longrightarrow> pg_ops ops db = Inr (db', bs)
    \<Longrightarrow> \<exists>r'. mem_ops ops r = (r', Inr bs) \<and> stores_agree db' r'"
proof (induction ops arbitrary: db r bs)
  case (Cons op ops)
  obtain db1 b where op: "pg_op op db = Inr (db1, b)" and plain: "op_plain db op" "ops_plain ops db1"
    using Cons.prems(2) by (auto split: sum.splits prod.splits)
  obtain bs1 where rest: "pg_ops ops db1 = Inr (db', bs1)" "bs = b # bs1"
    using Cons.prems(3) op by (auto simp: result_bind_eq_Inr)
  obtain r1 where "mem_op op r = (r1, Inr b)" "stores_agree db1 r1"
    using op_agrees [OF Cons.prems(1) plain(1) op] by blast
  moreover from Cons.IH [OF this(2) plain(2) rest(1)] obtain r2 where "mem_ops ops r1 = (r2, Inr bs1)" "stores_agree db' r2"
    by blast
  ultimately show ?case using rest(2) by auto
qed simp

lemma stores_agree_new: "stores_agree empty_db memory_new"
  by (simp add: stores_agree_def pg_ok_def mem_ok_def mem_status_def pg_status_def [abs_def] balances_agree_def
      empty_db_def memory_new_def pg_confirmed_def mem_confirmed_def fun_eq_iff bt_get_Nil)

text \<open>
  C6. From empty repositories, whatever PostgreSQL does without an error the in-memory repository does
  too, with the same answers, the same statuses of the batches and the same confirmed balances: for
  marks, new batches, rewards, payments and unlocks, as long as no ledger entry is offered twice,
  reversals are of matured rewards, unlocks are for miners with a balance row, and no amount or
  balance leaves its type. Outside of these the two differ, as the lemmas below show for entries offered
  again and for a lock that no balance covers.
\<close>

theorem memory_follows_pg:
  assumes "pg_ops ops empty_db = Inr (db, answers)" and "ops_plain ops empty_db"
  shows "\<exists>r. mem_ops ops memory_new = (r, Inr answers) \<and> mem_status r = pg_status db
    \<and> (\<forall>m. mem_confirmed (mr_balances r) m = pg_confirmed (db_balances db) m)"
  using ops_agree [OF stores_agree_new assms(2,1)] by (auto simp: stores_agree_def balances_agree_def)

section \<open>Where the repositories differ\<close>

text \<open>
  A block that was only submitted is offered for settlement at once; PostgreSQL waits for its confirmation.\<close>

theorem memory_settles_unconfirmed:
  assumes "0 < bc_reward_base_units block" and "0 < limit"
  shows "rb_hash_hex ` set (mem_list_confirmed_unsettled_blocks limit (fst (mem_record_block_candidate block memory_new)))
      = {bc_hash_hex block}
    \<and> list_confirmed_unsettled_blocks limit (fst (record_block_candidate now block empty_db)) = Inr []"
proof -
  have "block_candidate_initial_status response \<noteq> ''confirmed''" for response
    by (simp add: block_candidate_initial_status_def Let_def)
  then show ?thesis
    using assms by (cases limit) (simp_all add: mem_list_confirmed_unsettled_blocks_def mem_record_block_candidate_def
        memory_new_def bt_get_Nil bt_values_def list_confirmed_unsettled_blocks_def record_block_candidate_def empty_db_def Let_def)
qed

definition sample_reward :: ledger_entry where
  "sample_reward = \<lparr>le_miner = Some ''aa'', le_amount_base_units = 500, le_kind = RewardMature,
     le_ref_type = ''block'', le_ref_id = ''h''\<rparr>"

definition sample_draft :: payout_batch_draft where
  "sample_draft = \<lparr>pd_batch_id = ''b'', pd_recipients = [\<lparr>rc_miner = ''aa'', rc_address = ''aa'', rc_amount_base_units = 300\<rparr>],
     pd_total_base_units = 300, pd_lock_entries = []\<rparr>"

text \<open>An entry that is offered again is booked again; PostgreSQL leaves it out.\<close>

lemma memory_books_twice:
  "mem_confirmed (mr_balances (fst (mem_append_ledger_entries [sample_reward, sample_reward] memory_new))) ''aa'' = 1000
    \<and> pg_confirmed (db_balances (append_ledger_entries [sample_reward, sample_reward] empty_db)) ''aa'' = 500"
  by code_simp

text \<open>A batch is created although no balance covers it; PostgreSQL refuses it.\<close>

lemma memory_locks_uncovered:
  "snd (mem_create_locked_payout_batch_with_status sample_draft ''created'' memory_new) = Inr True
    \<and> create_locked_payout_batch_with_status 0 sample_draft ''created'' empty_db = Inl (InsufficientPayoutBalance ''aa'')"
  by code_simp

definition sample_ops :: "store_op list" where
  "sample_ops = [OpAppendEntries [sample_reward], OpCreateBatch 1 sample_draft ''created'', OpMark (MarkSigned ''t'' ''r'') ''b'',
     OpMark MarkApproved ''b'', OpMark (MarkSubmitted ''t'') ''b'', OpMark MarkConfirmed ''b'']"

theorem memory_follows_pg_witness:
  "\<exists>r. mem_ops sample_ops memory_new = (r, Inr [True, True, True, False, True, True])
    \<and> mem_status r ''b'' = Some ''confirmed'' \<and> mem_confirmed (mr_balances r) ''aa'' = 200"
proof -
  have run: "case pg_ops sample_ops empty_db of Inr (db, answers) \<Rightarrow> answers = [True, True, True, False, True, True]
      \<and> pg_status db ''b'' = Some ''confirmed'' \<and> pg_confirmed (db_balances db) ''aa'' = 200 | Inl _ \<Rightarrow> False"
    by code_simp
  have "ops_plain sample_ops empty_db" by code_simp
  with run show ?thesis using memory_follows_pg [of sample_ops] by (auto split: sum.splits)
qed

text \<open>A batch is signed, submitted and confirmed in both; a confirmation too early and a submission too late are refused.\<close>

definition sample_marks :: "(payout_mark \<times> string) list" where
  "sample_marks = [(MarkConfirmed, ''b''), (MarkSigned ''t'' ''r'', ''b''), (MarkSubmitted ''t'', ''b''), (MarkConfirmed, ''b''),
     (MarkSubmitted ''t'', ''b'')]"

theorem payout_stores_agree_witness:
  "snd (mark_run mem_mark sample_marks (fst (mem_ops (take 2 sample_ops) memory_new))) = [False, True, True, True, False]
    \<and> mem_status (fst (mark_run mem_mark sample_marks (fst (mem_ops (take 2 sample_ops) memory_new)))) ''b'' = Some ''confirmed''"
proof -
  have "case pg_ops (take 2 sample_ops) empty_db of Inl _ \<Rightarrow> False | Inr (db, answers) \<Rightarrow>
      snd (mark_run pg_mark sample_marks db) = [False, True, True, True, False]
      \<and> pg_status (fst (mark_run pg_mark sample_marks db)) ''b'' = Some ''confirmed''"
    by code_simp
  then obtain db answers where db: "pg_ops (take 2 sample_ops) empty_db = Inr (db, answers)"
    "snd (mark_run pg_mark sample_marks db) = [False, True, True, True, False]"
    "pg_status (fst (mark_run pg_mark sample_marks db)) ''b'' = Some ''confirmed''"
    by (auto split: sum.splits)
  have plain: "ops_plain (take 2 sample_ops) empty_db" by code_simp
  obtain r where r: "mem_ops (take 2 sample_ops) memory_new = (r, Inr answers)" "stores_agree db r"
    using ops_agree [OF stores_agree_new plain db(1)] by blast
  then have "pg_ok db" "mem_ok r" "mem_status r = pg_status db" by (simp_all add: stores_agree_def)
  from payout_stores_agree [OF this prod.collapse [symmetric] prod.collapse [symmetric], of sample_marks] show ?thesis
    using db(2,3) r(1) by simp
qed

theorem memory_settles_unconfirmed_witness:
  "list_confirmed_unsettled_blocks 5 (fst (record_block_candidate 1
     \<lparr>bc_hash_hex = ''h'', bc_job_id = ''j'', bc_miner = ''m'', bc_worker_name = ''w'', bc_reward_base_units = 7,
      bc_effort_pct = Fin 0, bc_candidate_payload_json = JNull, bc_submit_response_json = JNull\<rparr> empty_db)) = Inr []"
  by (rule memory_settles_unconfirmed [THEN conjunct2]) simp_all

end
