(* ===== verification/Csd_Alerts.thy ===== *)
theory Csd_Alerts
  imports Csd_Jobs Csd_F64
begin

text \<open>
  Crates \<open>csd-pool-workers\<close> (\<open>check_alerts\<close>) and \<open>csd-pool-db\<close> (the table of alerts and the share
  quality): the job that turns the state of the pool into alerts, and its specification: which alerts
  are active afterwards. What the repository's queries and the nodes answer is the input of the job;
  the texts of an alert (message and details) are not modelled, and the statements of one run see one
  clock reading.
\<close>

section \<open>The table of alerts\<close>

record alert_row =
  al_fingerprint :: string
  al_severity :: string
  al_status :: string
  al_kind :: string
  al_subject :: string
  al_first_seen :: nat
  al_last_seen :: nat
  al_resolved :: "nat option"

text \<open>\<open>insert ... on conflict(fingerprint) do update\<close>; the rows are in the order of their ids.\<close>

definition upsert_alert :: "nat \<Rightarrow> string \<Rightarrow> string \<Rightarrow> string \<Rightarrow> string \<Rightarrow> alert_row list \<Rightarrow> alert_row list" where
  "upsert_alert now fingerprint severity kind subject rows =
     (if fingerprint \<in> al_fingerprint ` set rows
      then map (\<lambda>r. if al_fingerprint r = fingerprint
             then r\<lparr>al_severity := severity, al_status := ''active'', al_kind := kind, al_subject := subject,
                    al_last_seen := now, al_resolved := None\<rparr> else r) rows
      else rows @ [\<lparr>al_fingerprint = fingerprint, al_severity = severity, al_status = ''active'', al_kind = kind,
             al_subject = subject, al_first_seen = now, al_last_seen = now, al_resolved = None\<rparr>])"

definition resolve_alert :: "nat \<Rightarrow> string \<Rightarrow> alert_row list \<Rightarrow> alert_row list \<times> bool" where
  "resolve_alert now fingerprint rows =
     (map (\<lambda>r. if al_fingerprint r = fingerprint \<and> al_status r = ''active''
        then r\<lparr>al_status := ''resolved'',
               al_resolved := Some (case al_resolved r of Some t \<Rightarrow> t | None \<Rightarrow> now), al_last_seen := now\<rparr> else r) rows,
      list_ex (\<lambda>r. al_fingerprint r = fingerprint \<and> al_status r = ''active'') rows)"

text \<open>\<open>order by last_seen_at desc, id desc limit\<close>\<close>

definition list_alerts :: "string option \<Rightarrow> nat \<Rightarrow> alert_row list \<Rightarrow> alert_row list" where
  "list_alerts status limit rows =
     take limit (rev (sort_key al_last_seen (filter (\<lambda>r. status = None \<or> Some (al_status r) = status) rows)))"

section \<open>Share quality\<close>

record quality_row =
  qr_miner :: string
  qr_worker_name :: string
  qr_accepted :: u64
  qr_rejected :: u64
  qr_stale :: u64

record quality_alert =
  qa_miner :: string
  qa_worker_name :: string
  qa_accepted :: u64
  qa_rejected :: u64
  qa_stale :: u64
  qa_reject_rate :: f64
  qa_stale_rate :: f64

definition share_quality_alert_from_counts :: "f64 \<Rightarrow> f64 \<Rightarrow> quality_row \<Rightarrow> quality_alert option" where
  "share_quality_alert_from_counts max_reject_rate max_stale_rate row =
     (let total = qr_accepted row + qr_rejected row + qr_stale row in
      if total = 0 then None
      else let reject_rate = fdiv (f_of_nat (unat (qr_rejected row))) (f_of_nat (unat total));
               stale_rate = fdiv (f_of_nat (unat (qr_stale row))) (f_of_nat (unat total))
        in if fle reject_rate max_reject_rate \<and> fle stale_rate max_stale_rate then None
           else Some \<lparr>qa_miner = qr_miner row, qa_worker_name = qr_worker_name row, qa_accepted = qr_accepted row,
             qa_rejected = qr_rejected row, qa_stale = qr_stale row, qa_reject_rate = reject_rate,
             qa_stale_rate = stale_rate\<rparr>)"

definition list_share_quality_alerts :: "f64 \<Rightarrow> f64 \<Rightarrow> quality_row list \<Rightarrow> quality_alert list" where
  "list_share_quality_alerts max_reject_rate max_stale_rate rows =
     List.map_filter (share_quality_alert_from_counts max_reject_rate max_stale_rate) rows"

section \<open>Fingerprints and conditions\<close>

definition worker_offline_fingerprint :: "string \<Rightarrow> string \<Rightarrow> string" where
  "worker_offline_fingerprint miner worker_name = ''worker_offline:'' @ miner @ '':'' @ worker_name"

definition share_quality_fingerprint :: "string \<Rightarrow> string \<Rightarrow> string \<Rightarrow> string" where
  "share_quality_fingerprint kind miner worker_name = kind @ '':'' @ miner @ '':'' @ worker_name"

definition block_submission_fingerprint :: "string \<Rightarrow> string" where
  "block_submission_fingerprint hash_hex = ''block_submission:'' @ hash_hex"

definition health_fingerprint :: "string \<Rightarrow> string" where
  "health_fingerprint node_name = ''health:'' @ node_name"

definition payout_stuck_fingerprint :: "string \<Rightarrow> string" where
  "payout_stuck_fingerprint batch_id = ''payout_stuck:'' @ batch_id"

definition worker_offline_alert_excluded :: "string \<Rightarrow> string list \<Rightarrow> bool" where
  "worker_offline_alert_excluded worker_name prefixes = list_ex (\<lambda>p. strip_prefix p worker_name \<noteq> None) prefixes"

definition node_tip_matches_job_prev_hash :: "(string \<Rightarrow> bytes option) \<Rightarrow> string \<Rightarrow> string \<Rightarrow> bool" where
  "node_tip_matches_job_prev_hash hexd tip job_prev_hash =
     (case hexd (case strip_prefix ''0x'' tip of Some t \<Rightarrow> t | None \<Rightarrow> tip) of
        None \<Rightarrow> False
      | Some bytes \<Rightarrow> length bytes = 32 \<and> eq_ignore_ascii_case (hex_encode (rev bytes)) job_prev_hash)"

text \<open>The health of each node as the client answers it: an error, no tip, or a tip.\<close>

definition job_matches_any_node_tip :: "(string \<Rightarrow> bytes option) \<Rightarrow> string option option list \<Rightarrow> string \<Rightarrow> bool" where
  "job_matches_any_node_tip hexd healths prev_hash =
     list_ex (\<lambda>h. case h of Some (Some tip) \<Rightarrow> node_tip_matches_job_prev_hash hexd tip prev_hash | _ \<Rightarrow> False) healths"

section \<open>The job\<close>

record latest_job =
  lj_job_id :: string
  lj_prev_hash :: string
  lj_age_seconds :: u64

record alert_inputs =
  ai_samples :: "(string \<times> bool) list"
  ai_share_gap :: bool
  ai_latest_job :: "latest_job option"
  ai_max_template_age_secs :: u64
  ai_node_healths :: "string option option list"
  ai_blocks :: "string list"
  ai_stuck_payouts :: "string list"
  ai_offline_workers :: "(string \<times> string) list"
  ai_excluded_prefixes :: "string list"
  ai_quality :: "quality_row list"
  ai_max_reject_rate :: f64
  ai_max_stale_rate :: f64

text \<open>The alerts of the job: fingerprint, severity, kind and subject.\<close>

type_synonym raised = "string \<times> string \<times> string \<times> string"

definition raise_alert :: "nat \<Rightarrow> raised \<Rightarrow> alert_row list \<Rightarrow> alert_row list" where
  "raise_alert now x rows = (case x of (fingerprint, severity, kind, subject) \<Rightarrow>
     upsert_alert now fingerprint severity kind subject rows)"

definition raise_all :: "nat \<Rightarrow> raised list \<Rightarrow> alert_row list \<Rightarrow> alert_row list" where
  "raise_all now xs rows = fold (raise_alert now) xs rows"

text \<open>An alert that is raised while its condition holds, and resolved otherwise.\<close>

definition keep_alert :: "nat \<Rightarrow> bool \<Rightarrow> raised \<Rightarrow> alert_row list \<Rightarrow> alert_row list" where
  "keep_alert now cond x rows = (if cond then raise_alert now x rows else fst (resolve_alert now (fst x) rows))"

definition health_alert :: "string \<Rightarrow> raised" where
  "health_alert node_name = (health_fingerprint node_name, ''critical'', ''service_health'', node_name)"

definition check_samples :: "nat \<Rightarrow> (string \<times> bool) list \<Rightarrow> alert_row list \<Rightarrow> alert_row list" where
  "check_samples now samples rows = fold (\<lambda>(node_name, ok). keep_alert now (\<not> ok) (health_alert node_name)) samples rows"

text \<open>The loop over the active alerts (at most 1000) of some kinds, which resolves those not raised now.\<close>

definition resolve_missing :: "nat \<Rightarrow> string list \<Rightarrow> string list \<Rightarrow> alert_row list \<Rightarrow> alert_row list" where
  "resolve_missing now kinds current rows =
     fold (\<lambda>r rows. if al_kind r \<in> set kinds \<and> al_fingerprint r \<notin> set current
         then fst (resolve_alert now (al_fingerprint r) rows) else rows)
       (list_alerts (Some ''active'') 1000 rows) rows"

definition share_gap_alert :: raised where
  "share_gap_alert = (''no_accepted_shares'', ''critical'', ''no_accepted_shares'', ''pool'')"

definition template_alert :: "latest_job option \<Rightarrow> raised" where
  "template_alert job = (''template_age'', ''critical'', ''template_age'', case job of Some j \<Rightarrow> lj_job_id j | None \<Rightarrow> [])"

definition template_stale :: "(string \<Rightarrow> bytes option) \<Rightarrow> alert_inputs \<Rightarrow> bool" where
  "template_stale hexd i = (case ai_latest_job i of
     None \<Rightarrow> False
   | Some j \<Rightarrow> ai_max_template_age_secs i < lj_age_seconds j
       \<and> \<not> job_matches_any_node_tip hexd (ai_node_healths i) (lj_prev_hash j))"

definition block_alerts :: "alert_inputs \<Rightarrow> raised list" where
  "block_alerts i = map (\<lambda>h. (block_submission_fingerprint h, ''critical'', ''block_submission'', h)) (ai_blocks i)"

definition stuck_alerts :: "alert_inputs \<Rightarrow> raised list" where
  "stuck_alerts i = map (\<lambda>b. (payout_stuck_fingerprint b, ''warning'', ''payout_stuck'', b)) (ai_stuck_payouts i)"

definition offline_alerts :: "alert_inputs \<Rightarrow> raised list" where
  "offline_alerts i = map (\<lambda>(m, w). (worker_offline_fingerprint m w, ''warning'', ''worker_offline'', m @ ''.'' @ w))
     (filter (\<lambda>(m, w). \<not> worker_offline_alert_excluded w (ai_excluded_prefixes i)) (ai_offline_workers i))"

definition quality_alerts :: "alert_inputs \<Rightarrow> raised list" where
  "quality_alerts i = concat (map (\<lambda>q.
      (if flt (ai_max_reject_rate i) (qa_reject_rate q)
       then [(share_quality_fingerprint ''high_reject_rate'' (qa_miner q) (qa_worker_name q), ''warning'',
              ''high_reject_rate'', qa_miner q @ ''.'' @ qa_worker_name q)] else [])
    @ (if flt (ai_max_stale_rate i) (qa_stale_rate q)
       then [(share_quality_fingerprint ''high_stale_rate'' (qa_miner q) (qa_worker_name q), ''warning'',
              ''high_stale_rate'', qa_miner q @ ''.'' @ qa_worker_name q)] else []))
     (list_share_quality_alerts (ai_max_reject_rate i) (ai_max_stale_rate i) (ai_quality i)))"

definition check_alerts ::
  "(string \<Rightarrow> bytes option) \<Rightarrow> nat \<Rightarrow> alert_inputs \<Rightarrow> alert_row list \<Rightarrow> alert_row list \<times> string list" where
  "check_alerts hexd now i rows =
     (let rows = check_samples now (ai_samples i) rows;
          rows = keep_alert now (ai_share_gap i) share_gap_alert rows;
          rows = keep_alert now (template_stale hexd i) (template_alert (ai_latest_job i)) rows;
          rows = raise_all now (block_alerts i) rows;
          rows = resolve_missing now [''block_submission''] (map fst (block_alerts i)) rows;
          rows = raise_all now (stuck_alerts i) rows;
          rows = raise_all now (offline_alerts i) rows;
          rows = resolve_missing now [''worker_offline''] (map fst (offline_alerts i)) rows;
          rows = raise_all now (quality_alerts i) rows;
          rows = resolve_missing now [''high_reject_rate'', ''high_stale_rate''] (map fst (quality_alerts i)) rows
      in (rows,
          map (health_fingerprint \<circ> fst) (filter (\<lambda>(_, ok). \<not> ok) (ai_samples i))
          @ (if ai_share_gap i then [fst share_gap_alert] else [])
          @ (if template_stale hexd i then [''template_age''] else [])
          @ map fst (block_alerts i) @ map fst (stuck_alerts i) @ map fst (offline_alerts i)
          @ map fst (quality_alerts i)))"

section \<open>Which alerts are active\<close>

definition active :: "alert_row list \<Rightarrow> string set" where
  "active rows = {al_fingerprint r | r. r \<in> set rows \<and> al_status r = ''active''}"

text \<open>The kind that a fingerprint tells.\<close>

definition kind_of :: "string \<Rightarrow> string" where
  "kind_of fingerprint = (let p = takeWhile (\<lambda>c. c \<noteq> CHR '':'') fingerprint in
     if p = ''health'' then ''service_health'' else p)"

definition alerts_ok :: "alert_row list \<Rightarrow> bool" where
  "alerts_ok rows \<longleftrightarrow> distinct (map al_fingerprint rows) \<and> (\<forall>r \<in> set rows. al_kind r = kind_of (al_fingerprint r))"

lemma active_iff: "f \<in> active rows \<longleftrightarrow> (\<exists>r \<in> set rows. al_fingerprint r = f \<and> al_status r = ''active'')"
  by (auto simp: active_def)

lemma active_upsert [simp]: "active (upsert_alert now f sev kind subject rows) = insert f (active rows)"
proof (rule set_eqI)
  fix x
  show "x \<in> active (upsert_alert now f sev kind subject rows) \<longleftrightarrow> x \<in> insert f (active rows)"
  proof (cases "x = f")
    case True
    then show ?thesis by (force simp: active_iff upsert_alert_def simp del: if_image_distrib)
  next
    case False
    then show ?thesis by (auto simp: active_iff upsert_alert_def simp del: if_image_distrib split: if_splits)
  qed
qed

lemma upsert_ok:
  assumes "alerts_ok rows" and "kind = kind_of f"
  shows "alerts_ok (upsert_alert now f sev kind subject rows)"
proof -
  have "map al_fingerprint (map (\<lambda>r. if al_fingerprint r = f then r\<lparr>al_severity := sev, al_status := ''active'', al_kind := kind,
      al_subject := subject, al_last_seen := now, al_resolved := None\<rparr> else r) rows) = map al_fingerprint rows"
    by simp
  then show ?thesis using assms by (auto simp: alerts_ok_def upsert_alert_def simp del: map_map if_image_distrib)
qed

lemma active_resolve:
  assumes "alerts_ok rows"
  shows "active (fst (resolve_alert now f rows)) = active rows - {f}" "alerts_ok (fst (resolve_alert now f rows))"
    "map al_fingerprint (fst (resolve_alert now f rows)) = map al_fingerprint rows"
proof -
  show same: "map al_fingerprint (fst (resolve_alert now f rows)) = map al_fingerprint rows"
    by (simp add: resolve_alert_def comp_def)
  have "\<forall>r \<in> set (fst (resolve_alert now f rows)). al_kind r = kind_of (al_fingerprint r)"
    using assms by (auto simp: alerts_ok_def resolve_alert_def)
  then show "alerts_ok (fst (resolve_alert now f rows))" using assms unfolding alerts_ok_def same by simp
  show "active (fst (resolve_alert now f rows)) = active rows - {f}"
    by (rule set_eqI) (auto simp: active_iff resolve_alert_def simp del: if_image_distrib)
qed

definition raised_ok :: "raised \<Rightarrow> bool" where
  "raised_ok x \<longleftrightarrow> fst (snd (snd x)) = kind_of (fst x)"

lemma raise_alert_ok:
  "active (raise_alert now x rows) = insert (fst x) (active rows)"
  "alerts_ok rows \<Longrightarrow> raised_ok x \<Longrightarrow> alerts_ok (raise_alert now x rows)"
  by (auto simp: raise_alert_def raised_ok_def upsert_ok split: prod.split)

lemma keep_alert_ok:
  assumes "alerts_ok rows" and "raised_ok x"
  shows "active (keep_alert now c x rows) = (if c then insert (fst x) (active rows) else active rows - {fst x})"
    "alerts_ok (keep_alert now c x rows)"
  using assms by (simp_all add: keep_alert_def raise_alert_ok active_resolve)

lemma raise_all_ok:
  assumes "alerts_ok rows" and "\<forall>x \<in> set xs. raised_ok x"
  shows "active (raise_all now xs rows) = fst ` set xs \<union> active rows \<and> alerts_ok (raise_all now xs rows)"
  using assms unfolding raise_all_def
  by (induction xs arbitrary: rows) (auto simp: raise_alert_ok)

text \<open>With no more than 1000 active alerts the loop sees all of them.\<close>

lemma resolve_missing_ok:
  assumes ok: "alerts_ok rows" and few: "length (filter (\<lambda>r. al_status r = ''active'') rows) \<le> 1000"
  shows "active (resolve_missing now kinds current rows) = active rows - {f. kind_of f \<in> set kinds \<and> f \<notin> set current}
    \<and> alerts_ok (resolve_missing now kinds current rows)
    \<and> map al_fingerprint (resolve_missing now kinds current rows) = map al_fingerprint rows"
proof -
  let ?step = "\<lambda>r rows. if al_kind r \<in> set kinds \<and> al_fingerprint r \<notin> set current
         then fst (resolve_alert now (al_fingerprint r) rows) else rows"
  have steps: "active (fold ?step rs t) = active t - {al_fingerprint r | r. r \<in> set rs \<and> al_kind r \<in> set kinds \<and> al_fingerprint r \<notin> set current}
      \<and> alerts_ok (fold ?step rs t) \<and> map al_fingerprint (fold ?step rs t) = map al_fingerprint t" if "alerts_ok t" for rs t
    using that
  proof (induction rs arbitrary: t)
    case (Cons r rs)
    have "alerts_ok (?step r t)" "map al_fingerprint (?step r t) = map al_fingerprint t"
      "active (?step r t) = active t - {f. f = al_fingerprint r \<and> al_kind r \<in> set kinds \<and> f \<notin> set current}"
      using active_resolve [OF Cons.prems] Cons.prems by auto
    then show ?case using Cons.IH [of "?step r t"] by auto
  qed auto
  have listed: "set (list_alerts (Some ''active'') 1000 rows) = {r \<in> set rows. al_status r = ''active''}"
    using few by (auto simp: list_alerts_def)
  have "{al_fingerprint r | r. r \<in> {r \<in> set rows. al_status r = ''active''} \<and> al_kind r \<in> set kinds \<and> al_fingerprint r \<notin> set current}
      = active rows \<inter> {f. kind_of f \<in> set kinds \<and> f \<notin> set current}"
    using ok by (auto simp: active_def alerts_ok_def)
  then show ?thesis
    using steps [OF ok, of "list_alerts (Some ''active'') 1000 rows"] unfolding resolve_missing_def listed by auto
qed

section \<open>What the job achieves\<close>

lemma kind_of_fingerprints [simp]:
  "kind_of (health_fingerprint n) = ''service_health''" "kind_of ''no_accepted_shares'' = ''no_accepted_shares''"
  "kind_of ''template_age'' = ''template_age''" "kind_of (block_submission_fingerprint h) = ''block_submission''"
  "kind_of (payout_stuck_fingerprint b) = ''payout_stuck''" "kind_of (worker_offline_fingerprint m w) = ''worker_offline''"
  "kind_of (share_quality_fingerprint ''high_reject_rate'' m w) = ''high_reject_rate''"
  "kind_of (share_quality_fingerprint ''high_stale_rate'' m w) = ''high_stale_rate''"
  by (simp_all add: kind_of_def health_fingerprint_def block_submission_fingerprint_def payout_stuck_fingerprint_def
      worker_offline_fingerprint_def share_quality_fingerprint_def)

lemma health_fingerprint_inj [simp]: "health_fingerprint n = health_fingerprint n' \<longleftrightarrow> n = n'"
  by (simp add: health_fingerprint_def)

lemma raised_kinds:
  "\<forall>x \<in> set (block_alerts i). raised_ok x \<and> kind_of (fst x) = ''block_submission''"
  "\<forall>x \<in> set (stuck_alerts i). raised_ok x \<and> kind_of (fst x) = ''payout_stuck''"
  "\<forall>x \<in> set (offline_alerts i). raised_ok x \<and> kind_of (fst x) = ''worker_offline''"
  "\<forall>x \<in> set (quality_alerts i). raised_ok x \<and> kind_of (fst x) \<in> {''high_reject_rate'', ''high_stale_rate''}"
  "raised_ok share_gap_alert" "raised_ok (template_alert j)" "raised_ok (health_alert n)"
  by (auto simp: raised_ok_def block_alerts_def stuck_alerts_def offline_alerts_def quality_alerts_def share_gap_alert_def
      template_alert_def health_alert_def split: if_splits)

lemma check_samples_ok:
  assumes "alerts_ok rows" and "distinct (map fst samples)"
  shows "active (check_samples now samples rows) =
      active rows - {health_fingerprint n | n. (n, True) \<in> set samples} \<union> {health_fingerprint n | n. (n, False) \<in> set samples}
    \<and> alerts_ok (check_samples now samples rows)"
  using assms unfolding check_samples_def
proof (induction samples arbitrary: rows)
  case (Cons x samples)
  obtain n ok where x: "x = (n, ok)" by (cases x)
  let ?rows = "keep_alert now (\<not> ok) (health_alert n) rows"
  have n: "n \<notin> fst ` set samples" "distinct (map fst samples)" using Cons.prems(2) x by auto
  have kept: "alerts_ok ?rows"
    "active ?rows = (if ok then active rows - {health_fingerprint n} else insert (health_fingerprint n) (active rows))"
    using keep_alert_ok [OF Cons.prems(1) raised_kinds(7), of now "\<not> ok" n] by (simp_all add: health_alert_def)
  show ?case
    using Cons.IH [OF kept(1) n(2)] kept(2) n(1) unfolding x by (cases ok) (auto simp: image_iff)
qed simp

text \<open>
  The specification: whether an alert is active after the job, from what the job finds and, where the
  job has nothing to say about it, from whether it was active before.
\<close>

definition alert_holds :: "(string \<Rightarrow> bytes option) \<Rightarrow> alert_inputs \<Rightarrow> bool \<Rightarrow> string \<Rightarrow> bool" where
  "alert_holds hexd i before f =
     (if kind_of f = ''service_health'' then
        (case map_of (map (\<lambda>(n, ok). (health_fingerprint n, ok)) (ai_samples i)) f of Some ok \<Rightarrow> \<not> ok | None \<Rightarrow> before)
      else if f = ''no_accepted_shares'' then ai_share_gap i
      else if f = ''template_age'' then template_stale hexd i
      else if kind_of f = ''block_submission'' then f \<in> block_submission_fingerprint ` set (ai_blocks i)
      else if kind_of f = ''worker_offline'' then f \<in> fst ` set (offline_alerts i)
      else if kind_of f \<in> {''high_reject_rate'', ''high_stale_rate''} then f \<in> fst ` set (quality_alerts i)
      else if kind_of f = ''payout_stuck'' then before \<or> f \<in> payout_stuck_fingerprint ` set (ai_stuck_payouts i)
      else before)"

lemma few_active:
  assumes "alerts_ok rows" and "active rows \<subseteq> A" and "finite A" and "card A \<le> 1000"
  shows "length (filter (\<lambda>r. al_status r = ''active'') rows) \<le> 1000"
proof -
  define rs where "rs = filter (\<lambda>r. al_status r = ''active'') rows"
  have "distinct (map al_fingerprint rs)" using assms(1) by (simp add: rs_def alerts_ok_def distinct_map_filter)
  from distinct_card [OF this] have "length rs = card (set (map al_fingerprint rs))" by (simp only: length_map)
  also have "set (map al_fingerprint rs) = active rows" by (auto simp: rs_def active_def)
  finally have "length rs \<le> card A" using card_mono [OF assms(3,2)] by simp
  then show ?thesis using assms(4) by (simp add: rs_def)
qed

lemma active_Nil [simp]: "active [] = {}"
  by (simp add: active_def)

lemma finite_active [simp]: "finite (active rows)"
proof -
  have "active rows \<subseteq> al_fingerprint ` set rows" by (auto simp: active_def)
  then show ?thesis by (rule finite_subset) simp
qed

text \<open>The first alerts of the job, each kept or resolved by itself.\<close>

definition single_alerts :: "(string \<Rightarrow> bytes option) \<Rightarrow> nat \<Rightarrow> alert_inputs \<Rightarrow> alert_row list \<Rightarrow> alert_row list" where
  "single_alerts hexd now i rows =
     keep_alert now (template_stale hexd i) (template_alert (ai_latest_job i))
       (keep_alert now (ai_share_gap i) share_gap_alert (check_samples now (ai_samples i) rows))"

lemma single_alerts_ok:
  assumes ok: "alerts_ok rows" and names: "distinct (map fst (ai_samples i))"
  shows "alerts_ok (single_alerts hexd now i rows)"
    "f \<in> active (single_alerts hexd now i rows) \<longleftrightarrow>
      (if f = ''template_age'' then template_stale hexd i
       else if f = ''no_accepted_shares'' then ai_share_gap i
       else f \<in> active rows \<and> (\<forall>n. f = health_fingerprint n \<longrightarrow> (n, True) \<notin> set (ai_samples i))
         \<or> (\<exists>n. f = health_fingerprint n \<and> (n, False) \<in> set (ai_samples i)))"
proof -
  let ?t1 = "check_samples now (ai_samples i) rows"
  let ?t2 = "keep_alert now (ai_share_gap i) share_gap_alert ?t1"
  have 1: "alerts_ok ?t1" "active ?t1 = active rows - {health_fingerprint n | n. (n, True) \<in> set (ai_samples i)}
      \<union> {health_fingerprint n | n. (n, False) \<in> set (ai_samples i)}"
    using check_samples_ok [OF ok names] by simp_all
  note 2 = keep_alert_ok [OF 1(1) raised_kinds(5), of now "ai_share_gap i"]
  note 3 = keep_alert_ok [OF 2(2) raised_kinds(6), of now "template_stale hexd i" "ai_latest_job i"]
  show "alerts_ok (single_alerts hexd now i rows)" using 3(2) by (simp add: single_alerts_def)
  have "fst share_gap_alert = ''no_accepted_shares''" "fst (template_alert (ai_latest_job i)) = ''template_age''"
    by (simp_all add: share_gap_alert_def template_alert_def)
  then have "f \<in> active (single_alerts hexd now i rows) \<longleftrightarrow>
      (if f = ''template_age'' then template_stale hexd i
       else if f = ''no_accepted_shares'' then ai_share_gap i else f \<in> active ?t1)"
    unfolding single_alerts_def 3(1) 2(1) by auto
  then show "f \<in> active (single_alerts hexd now i rows) \<longleftrightarrow>
      (if f = ''template_age'' then template_stale hexd i
       else if f = ''no_accepted_shares'' then ai_share_gap i
       else f \<in> active rows \<and> (\<forall>n. f = health_fingerprint n \<longrightarrow> (n, True) \<notin> set (ai_samples i))
         \<or> (\<exists>n. f = health_fingerprint n \<and> (n, False) \<in> set (ai_samples i)))"
    unfolding 1(2) by auto
qed

text \<open>A list of alerts is raised, and the other active ones of its kinds are resolved.\<close>

definition renew :: "nat \<Rightarrow> string list \<Rightarrow> raised list \<Rightarrow> alert_row list \<Rightarrow> alert_row list" where
  "renew now kinds xs rows = resolve_missing now kinds (map fst xs) (raise_all now xs rows)"

lemma renew_ok:
  assumes "alerts_ok rows" and xs: "\<forall>x \<in> set xs. raised_ok x \<and> kind_of (fst x) \<in> set kinds"
    and "active rows \<union> fst ` set xs \<subseteq> A" and "finite A" and "card A \<le> 1000"
  shows "alerts_ok (renew now kinds xs rows)"
    "f \<in> active (renew now kinds xs rows) \<longleftrightarrow> (if kind_of f \<in> set kinds then f \<in> fst ` set xs else f \<in> active rows)"
proof -
  let ?t = "raise_all now xs rows"
  have t: "active ?t = fst ` set xs \<union> active rows" "alerts_ok ?t"
    using raise_all_ok [OF assms(1)] xs by auto
  have "length (filter (\<lambda>r. al_status r = ''active'') ?t) \<le> 1000"
    by (rule few_active [OF t(2) _ assms(4,5)]) (use t(1) assms(3) in auto)
  note r = resolve_missing_ok [OF t(2) this, of now kinds "map fst xs"]
  then show "alerts_ok (renew now kinds xs rows)" by (simp add: renew_def)
  have "f \<in> fst ` set xs \<Longrightarrow> kind_of f \<in> set kinds" using xs by auto
  then show "f \<in> active (renew now kinds xs rows) \<longleftrightarrow> (if kind_of f \<in> set kinds then f \<in> fst ` set xs else f \<in> active rows)"
    using r t(1) by (auto simp: renew_def)
qed

lemma check_alerts_renew:
  "fst (check_alerts hexd now i rows) =
     renew now [''high_reject_rate'', ''high_stale_rate''] (quality_alerts i)
       (renew now [''worker_offline''] (offline_alerts i)
         (raise_all now (stuck_alerts i)
           (renew now [''block_submission''] (block_alerts i) (single_alerts hexd now i rows))))"
  by (simp add: check_alerts_def renew_def single_alerts_def Let_def)


lemma sample_lookup:
  assumes "distinct (map fst samples)"
  shows "map_of (map (\<lambda>(n, ok). (health_fingerprint n, ok)) samples) f = Some ok
    \<longleftrightarrow> (\<exists>n. f = health_fingerprint n \<and> (n, ok) \<in> set samples)"
  using assms
proof (induction samples)
  case (Cons x samples)
  obtain n b where x: "x = (n, b)" by (cases x)
  have "(n, c) \<notin> set samples" for c using Cons.prems x by force
  then show ?case using Cons x by (cases "f = health_fingerprint n") auto
qed simp

lemma first_alerts_hold:
  assumes ok: "alerts_ok rows" and names: "distinct (map fst (ai_samples i))"
    and "kind_of f \<notin> {''block_submission'', ''worker_offline'', ''high_reject_rate'', ''high_stale_rate'', ''payout_stuck''}"
  shows "f \<in> active (single_alerts hexd now i rows) \<longleftrightarrow> alert_holds hexd i (f \<in> active rows) f"
proof -
  let ?m = "map_of (map (\<lambda>(n, ok). (health_fingerprint n, ok)) (ai_samples i)) f"
  note look = sample_lookup [OF names, of f]
  have one: "\<not> ((\<exists>n. f = health_fingerprint n \<and> (n, True) \<in> set (ai_samples i))
      \<and> (\<exists>n. f = health_fingerprint n \<and> (n, False) \<in> set (ai_samples i)))"
    using look [of True] look [of False] by auto
  show ?thesis
  proof (cases "kind_of f = ''service_health''")
    case True
    then have "f \<noteq> ''template_age''" "f \<noteq> ''no_accepted_shares''" by auto
    moreover have "alert_holds hexd i (f \<in> active rows) f
        = (case ?m of Some ok \<Rightarrow> \<not> ok | None \<Rightarrow> f \<in> active rows)"
      using True by (simp add: alert_holds_def)
    ultimately show ?thesis
      using look [of True] look [of False] one single_alerts_ok(2) [OF ok names, where f = f and hexd = hexd and now = now]
      by (cases ?m) auto
  next
    case False
    then have "f \<noteq> health_fingerprint n" for n by auto
    then show ?thesis
      using False assms(3) single_alerts_ok(2) [OF ok names, where f = f and hexd = hexd and now = now]
      by (auto simp: alert_holds_def)
  qed
qed

lemma raised_fingerprints:
  "set (snd (check_alerts hexd now i rows)) =
     {health_fingerprint n | n. (n, False) \<in> set (ai_samples i)} \<union> (if ai_share_gap i then {''no_accepted_shares''} else {})
     \<union> (if template_stale hexd i then {''template_age''} else {}) \<union> fst ` set (block_alerts i) \<union> fst ` set (stuck_alerts i)
     \<union> fst ` set (offline_alerts i) \<union> fst ` set (quality_alerts i)"
proof -
  have "set (map (health_fingerprint \<circ> fst) (filter (\<lambda>(_, ok). \<not> ok) (ai_samples i)))
      = {health_fingerprint n | n. (n, False) \<in> set (ai_samples i)}"
    by force
  moreover have "fst share_gap_alert = ''no_accepted_shares''" by (simp add: share_gap_alert_def)
  ultimately show ?thesis unfolding check_alerts_def Let_def snd_conv by (simp add: Un_assoc)
qed

lemma active_after_check:
  assumes ok: "alerts_ok rows" and names: "distinct (map fst (ai_samples i))"
    and few: "card (active rows \<union> set (snd (check_alerts hexd now i rows))) \<le> 1000"
  shows "f \<in> active (fst (check_alerts hexd now i rows)) \<longleftrightarrow> alert_holds hexd i (f \<in> active rows) f"
proof -
  define A where "A = active rows \<union> set (snd (check_alerts hexd now i rows))"
  have A: "finite A" "card A \<le> 1000" using few by (simp_all add: A_def)
  have raised: "fst ` set (block_alerts i) \<subseteq> A" "fst ` set (stuck_alerts i) \<subseteq> A"
    "fst ` set (offline_alerts i) \<subseteq> A" "fst ` set (quality_alerts i) \<subseteq> A"
    unfolding A_def raised_fingerprints by auto
  define s0 where "s0 = single_alerts hexd now i rows"
  define s1 where "s1 = renew now [''block_submission''] (block_alerts i) s0"
  define s2 where "s2 = raise_all now (stuck_alerts i) s1"
  define s3 where "s3 = renew now [''worker_offline''] (offline_alerts i) s2"
  have s0: "alerts_ok s0" "active s0 \<subseteq> A"
    using single_alerts_ok [OF ok names]
    unfolding s0_def A_def raised_fingerprints by (auto split: if_splits)
  have s1: "alerts_ok s1" "g \<in> active s1 \<longleftrightarrow> (if kind_of g = ''block_submission'' then g \<in> fst ` set (block_alerts i) else g \<in> active s0)" for g
    using renew_ok [OF s0(1) _ _ A, of "block_alerts i" "[''block_submission'']"] raised_kinds(1) s0(2) raised(1)
    unfolding s1_def by auto
  have s2: "alerts_ok s2" "active s2 = fst ` set (stuck_alerts i) \<union> active s1"
    using raise_all_ok [OF s1(1)] raised_kinds(2) unfolding s2_def by auto
  have "active s1 \<subseteq> A"
  proof
    fix g assume "g \<in> active s1"
    then show "g \<in> A" using s1(2) [of g] s0(2) raised(1) by (cases "kind_of g = ''block_submission''") auto
  qed
  then have s2A: "active s2 \<subseteq> A" using s2(2) raised(2) by auto
  have s3: "alerts_ok s3" "g \<in> active s3 \<longleftrightarrow> (if kind_of g = ''worker_offline'' then g \<in> fst ` set (offline_alerts i) else g \<in> active s2)" for g
    using renew_ok [OF s2(1) _ _ A, of "offline_alerts i" "[''worker_offline'']"] raised_kinds(3) s2A raised(3)
    unfolding s3_def by auto
  have s3A: "active s3 \<subseteq> A"
  proof
    fix g assume "g \<in> active s3"
    then show "g \<in> A" using s3(2) [of g] s2A raised(3) by (cases "kind_of g = ''worker_offline''") auto
  qed
  have s4: "f \<in> active (fst (check_alerts hexd now i rows)) \<longleftrightarrow>
      (if kind_of f \<in> {''high_reject_rate'', ''high_stale_rate''} then f \<in> fst ` set (quality_alerts i) else f \<in> active s3)"
    using renew_ok(2) [OF s3(1) _ _ A, of "quality_alerts i" "[''high_reject_rate'', ''high_stale_rate'']"]
      raised_kinds(4) s3A raised(4)
    unfolding check_alerts_renew s3_def s2_def s1_def s0_def by auto
  have stuck: "f \<in> fst ` set (stuck_alerts i) \<longleftrightarrow> f \<in> payout_stuck_fingerprint ` set (ai_stuck_payouts i)"
    "f \<in> fst ` set (stuck_alerts i) \<Longrightarrow> kind_of f = ''payout_stuck''"
    "f \<in> fst ` set (block_alerts i) \<longleftrightarrow> f \<in> block_submission_fingerprint ` set (ai_blocks i)"
    using raised_kinds(2) by (auto simp: stuck_alerts_def block_alerts_def image_image)
  consider (first) "kind_of f \<notin> {''block_submission'', ''worker_offline'', ''high_reject_rate'', ''high_stale_rate'', ''payout_stuck''}"
    | (listed) "kind_of f \<in> {''block_submission'', ''worker_offline'', ''high_reject_rate'', ''high_stale_rate''}"
    | (stuck) "kind_of f = ''payout_stuck''"
    by blast
  then show ?thesis
  proof cases
    case first
    then have "f \<in> active (fst (check_alerts hexd now i rows)) \<longleftrightarrow> f \<in> active s0"
      using s4 s3(2) [of f] s2(2) s1(2) [of f] stuck(2) by auto
    then show ?thesis using first_alerts_hold [OF ok names first] by (simp add: s0_def)
  next
    case listed
    then have "f \<noteq> ''no_accepted_shares''" "f \<noteq> ''template_age''" by auto
    with listed show ?thesis using s4 s3(2) [of f] s2(2) s1(2) [of f] stuck by (auto simp: alert_holds_def)
  next
    case stuck': stuck
    then have f: "f \<noteq> ''no_accepted_shares''" "f \<noteq> ''template_age''" "f \<noteq> health_fingerprint n" for n by auto
    then have "f \<in> active s0 \<longleftrightarrow> f \<in> active rows"
      using single_alerts_ok(2) [OF ok names, where f = f] by (auto simp: s0_def)
    then show ?thesis using stuck' f s4 s3(2) [of f] s2(2) s1(2) [of f] stuck by (auto simp: alert_holds_def)
  qed
qed

text \<open>
  C20. After one run of the alert job exactly the right alerts are active: a service is reported while
  its sample fails, missing shares, a stale template, every unresolved block submission, every offline worker
  that is not excluded and every worker over a rate limit are reported, and each of these alerts is
  resolved once its cause is gone. The alerts of stuck payouts are raised and never resolved here. It is
  assumed that no more than 1000 alerts are active, the most that the loops of the job look at, that the
  table of alerts is well formed and that there is one sample of a service. A service without a
  current sample keeps the alert it has, and so does every alert of a kind the job does not know.
\<close>

theorem check_alerts_exact:
  assumes "alerts_ok rows" and "distinct (map fst (ai_samples i))"
    and "card (active rows \<union> set (snd (check_alerts hexd now i rows))) \<le> 1000"
  shows "f \<in> active (fst (check_alerts hexd now i rows)) \<longleftrightarrow> alert_holds hexd i (f \<in> active rows) f"
  using assms by (rule active_after_check)

definition ex_alert_rows :: "alert_row list" where
  "ex_alert_rows = raise_alert 5 (health_alert ''node-a'') (raise_alert 4 (''payout_stuck:b1'', ''warning'', ''payout_stuck'', ''b1'') [])"

definition ex_alert_inputs :: alert_inputs where
  "ex_alert_inputs = \<lparr>ai_samples = [(''node-a'', True), (''node-b'', False)], ai_share_gap = True, ai_latest_job = None,
     ai_max_template_age_secs = 60, ai_node_healths = [], ai_blocks = [''ab''], ai_stuck_payouts = [],
     ai_offline_workers = [(''m'', ''rig1''), (''m'', ''test-1'')], ai_excluded_prefixes = [''test-''],
     ai_quality = [], ai_max_reject_rate = f_of_nat 1, ai_max_stale_rate = f_of_nat 1\<rparr>"

theorem check_alerts_exact_witness:
  "health_fingerprint ''node-b'' \<in> active (fst (check_alerts hex_decode 9 ex_alert_inputs ex_alert_rows))
   \<and> health_fingerprint ''node-a'' \<notin> active (fst (check_alerts hex_decode 9 ex_alert_inputs ex_alert_rows))
   \<and> ''payout_stuck:b1'' \<in> active (fst (check_alerts hex_decode 9 ex_alert_inputs ex_alert_rows))
   \<and> worker_offline_fingerprint ''m'' ''test-1'' \<notin> active (fst (check_alerts hex_decode 9 ex_alert_inputs ex_alert_rows))"
proof -
  let ?s = "set (snd (check_alerts hex_decode 9 ex_alert_inputs ex_alert_rows))"
  have rows: "alerts_ok ex_alert_rows" by code_simp
  have names: "distinct (map fst (ai_samples ex_alert_inputs))" by (simp add: ex_alert_inputs_def)
  have "snd (check_alerts hex_decode 9 ex_alert_inputs ex_alert_rows)
      = [''health:node-b'', ''no_accepted_shares'', ''block_submission:ab'', ''worker_offline:m:rig1'']"
    by code_simp
  moreover have "active ex_alert_rows = {''payout_stuck:b1'', ''health:node-a''}"
    by (simp add: ex_alert_rows_def raise_alert_ok health_alert_def health_fingerprint_def insert_commute)
  ultimately have "card (active ex_alert_rows \<union> ?s) \<le> 1000"
    by (simp add: card_insert_if)
  note exact = check_alerts_exact [OF rows names this]
  have mem: "''payout_stuck:b1'' \<in> active ex_alert_rows" "kind_of ''payout_stuck:b1'' = ''payout_stuck''"
    by (simp_all add: ex_alert_rows_def raise_alert_ok kind_of_def)
  show ?thesis unfolding exact
    using mem by (simp add: alert_holds_def ex_alert_inputs_def health_fingerprint_def kind_of_def
      worker_offline_fingerprint_def offline_alerts_def worker_offline_alert_excluded_def strip_prefix_def)
qed

text \<open>No run of the job ends the alert of a stuck payout, whatever has become of the payout.\<close>

lemma stuck_alert_stays:
  assumes "alerts_ok rows" and "distinct (map fst (ai_samples i))"
    and "payout_stuck_fingerprint b \<in> active rows"
    and "card (active rows \<union> set (snd (check_alerts hexd now i rows))) \<le> 1000"
  shows "payout_stuck_fingerprint b \<in> active (fst (check_alerts hexd now i rows))"
proof -
  have "payout_stuck_fingerprint b \<noteq> ''no_accepted_shares''" "payout_stuck_fingerprint b \<noteq> ''template_age''"
    by (auto simp: payout_stuck_fingerprint_def)
  then show ?thesis using assms(3) unfolding active_after_check [OF assms(1,2,4)] by (simp add: alert_holds_def)
qed

end
