(* ===== verification/Csd_Settings.thy ===== *)
theory Csd_Settings
  imports Csd_Node Csd_Payouts Csd_Abuse
begin

text \<open>
  Crate \<open>csd-pool-config\<close>, and the part of \<open>csd-pool-bridge\<close> that turns the environment and the
  configuration file into the parts of a running bridge: template provider, tip sentinel, block
  submitter, database, and the limits of sessions and difficulty. The environment is a function from
  names to values (None: not set, or not text), the file of the pool a function from paths to a parsed
  configuration or an error (the TOML reader is not part of the repository), the file system answers
  \<open>lstat\<close> and reads as inputs. The theorem says what a bridge that has started in live mode can rely
  on.
\<close>

section \<open>The configuration file\<close>

definition env_flag_enabled :: "string option \<Rightarrow> bool" where
  "env_flag_enabled value =
     (case value of
        None \<Rightarrow> False
      | Some v \<Rightarrow> to_ascii_lowercase (trim v) \<in> {''1'', ''true'', ''yes'', ''on''})"

definition persistent_database_required :: "string option \<Rightarrow> string option \<Rightarrow> bool" where
  "persistent_database_required template_mode explicit_requirement \<longleftrightarrow>
     env_flag_enabled explicit_requirement
     \<or> (case template_mode of Some mode \<Rightarrow> eq_ignore_ascii_case (trim mode) ''live'' | None \<Rightarrow> False)"

datatype config_error = ConfigIo string | ConfigToml string | InvalidSocketAddr string string

record pool_section =
  cp_id :: string
  cp_mining_address :: string
  cp_fee_percent :: f64
  cp_confirm_depth :: u64
  cp_payout_interval_secs :: u64
  cp_minimum_payout_csd :: string
  cp_max_payout_batch_csd :: string
  cp_max_daily_payout_csd :: string
  cp_manual_payout_approval_csd :: string

definition default_max_payout_batch_csd :: string where "default_max_payout_batch_csd = ''1000.0''"
definition default_max_daily_payout_csd :: string where "default_max_daily_payout_csd = ''5000.0''"
definition default_manual_payout_approval_csd :: string where "default_manual_payout_approval_csd = ''250.0''"

definition pool_section_default :: pool_section where
  "pool_section_default = \<lparr>cp_id = ''csd-main'', cp_mining_address = ''0123456789abcdef0123456789abcdef01234567'',
     cp_fee_percent = Fin 1, cp_confirm_depth = 10, cp_payout_interval_secs = 1800, cp_minimum_payout_csd = ''1.0'',
     cp_max_payout_batch_csd = default_max_payout_batch_csd, cp_max_daily_payout_csd = default_max_daily_payout_csd,
     cp_manual_payout_approval_csd = default_manual_payout_approval_csd\<rparr>"

record stratum_section =
  ct_listen :: string
  ct_initial_difficulty :: f64
  ct_min_difficulty :: f64
  ct_max_difficulty :: f64
  ct_target_share_secs :: u64
  ct_vardiff_ewma_alpha :: f64
  ct_vardiff_raise_ratio :: f64
  ct_vardiff_lower_ratio :: f64
  ct_vardiff_min_adjust_secs :: u64
  ct_vardiff_max_adjust_factor :: f64
  ct_vardiff_transition_grace_secs :: u64

definition stratum_section_default :: stratum_section where
  "stratum_section_default = \<lparr>ct_listen = ''127.0.0.1:3333'', ct_initial_difficulty = Fin 8, ct_min_difficulty = Fin 8,
     ct_max_difficulty = Fin 512, ct_target_share_secs = 20, ct_vardiff_ewma_alpha = lit (25 / 100),
     ct_vardiff_raise_ratio = lit (70 / 100), ct_vardiff_lower_ratio = lit (140 / 100),
     ct_vardiff_min_adjust_secs = 120, ct_vardiff_max_adjust_factor = Fin 2,
     ct_vardiff_transition_grace_secs = 120\<rparr>"

record abuse_section =
  cb_max_connections_per_ip :: u32
  cb_max_sessions_per_address :: u32
  cb_malformed_frame_limit :: u32
  cb_auth_failure_limit :: u32
  cb_invalid_share_limit :: u32
  cb_ban_secs :: u64

definition abuse_section_default :: abuse_section where
  "abuse_section_default = \<lparr>cb_max_connections_per_ip = 32, cb_max_sessions_per_address = 64,
     cb_malformed_frame_limit = 8, cb_auth_failure_limit = 5, cb_invalid_share_limit = 16, cb_ban_secs = 600\<rparr>"

record api_section =
  ca_listen :: string
  ca_operator_token_env :: string

definition api_section_default :: api_section where
  "api_section_default = \<lparr>ca_listen = ''127.0.0.1:8080'', ca_operator_token_env = ''CSD_POOL_OPERATOR_TOKEN''\<rparr>"

record csd_node_section =
  cn_name :: string
  cn_rpc_url :: string
  cn_role :: string

definition csd_node_section_default :: csd_node_section where
  "csd_node_section_default = \<lparr>cn_name = ''local'', cn_rpc_url = ''http://127.0.0.1:8790'',
     cn_role = ''template,submit,watch''\<rparr>"

record signer_section =
  cs_url_env :: string
  cs_listen :: string
  cs_token_env :: string

definition signer_section_default :: signer_section where
  "signer_section_default = \<lparr>cs_url_env = ''CSD_POOL_SIGNER_URL'', cs_listen = ''127.0.0.1:8890'',
     cs_token_env = ''CSD_POOL_SIGNER_TOKEN''\<rparr>"

record pool_config =
  cf_pool :: pool_section
  cf_stratum :: stratum_section
  cf_abuse :: abuse_section
  cf_api :: api_section
  cf_csd_nodes :: "csd_node_section list"
  cf_database_url_env :: string
  cf_redis_url_env :: string
  cf_signer :: signer_section

definition pool_config_default :: pool_config where
  "pool_config_default = \<lparr>cf_pool = pool_section_default, cf_stratum = stratum_section_default,
     cf_abuse = abuse_section_default, cf_api = api_section_default, cf_csd_nodes = [csd_node_section_default],
     cf_database_url_env = ''CSD_POOL_DATABASE_URL'', cf_redis_url_env = ''CSD_POOL_REDIS_URL'',
     cf_signer = signer_section_default\<rparr>"

section \<open>The environment\<close>

type_synonym environment = "string \<Rightarrow> string option"
type_synonym config_files = "string \<Rightarrow> config_error + pool_config"

datatype start_error =
  InvalidConfig string | StartConfig config_error | StartIo string | StartNode node_error | StartPanic

definition nonempty_env :: "environment \<Rightarrow> string \<Rightarrow> string option" where
  "nonempty_env env name = (case env name of Some v \<Rightarrow> if v = [] then None else Some v | None \<Rightarrow> None)"

definition env_u32 :: "environment \<Rightarrow> string \<Rightarrow> u32 \<Rightarrow> u32" where
  "env_u32 env name dflt =
     coalesce (map_option word_of_nat (Option.bind (env name) (parse_uint 10 (2 ^ 32)))) dflt"

definition env_u64 :: "environment \<Rightarrow> string \<Rightarrow> u64 \<Rightarrow> u64" where
  "env_u64 env name dflt =
     coalesce (map_option word_of_nat (Option.bind (env name) (parse_uint 10 (2 ^ 64)))) dflt"

definition env_f64 :: "environment \<Rightarrow> string \<Rightarrow> f64 \<Rightarrow> f64" where
  "env_f64 env name dflt = coalesce (Option.bind (env name) parse_f64) dflt"

definition clamp_word :: "'a::len word \<Rightarrow> 'a word \<Rightarrow> 'a word \<Rightarrow> 'a word" where
  "clamp_word lo hi x = (if x < lo then lo else if hi < x then hi else x)"

text \<open>\<open>PoolConfig::from_file(path)?\<close>\<close>

definition load_config :: "config_files \<Rightarrow> string \<Rightarrow> start_error + pool_config" where
  "load_config files path = (case files path of Inl e \<Rightarrow> Inl (StartConfig e) | Inr c \<Rightarrow> Inr c)"

definition has_role :: "string \<Rightarrow> csd_node_section \<Rightarrow> bool" where
  "has_role role node = list_ex (\<lambda>r. trim r = role) (split_char (CHR '','') (cn_role node))"

definition trim_end_slashes :: "string \<Rightarrow> string" where
  "trim_end_slashes s = rev (dropWhile (\<lambda>c. c = CHR ''/'') (rev s))"

definition normalized_node_url :: "string \<Rightarrow> string" where
  "normalized_node_url url = trim_end_slashes (trim url)"

definition stratum_listen :: "environment \<Rightarrow> config_files \<Rightarrow> string" where
  "stratum_listen env files =
     (case env ''CSD_POOL_CONFIG'' of
        Some path \<Rightarrow> (case files path of
            Inr c \<Rightarrow> ct_listen (cf_stratum c)
          | Inl _ \<Rightarrow> coalesce (env ''CSD_POOL_STRATUM_LISTEN'') ''127.0.0.1:3333'')
      | None \<Rightarrow> coalesce (env ''CSD_POOL_STRATUM_LISTEN'') ''127.0.0.1:3333'')"

section \<open>Template provider\<close>

definition validate_pool_address :: "string \<Rightarrow> start_error + unit" where
  "validate_pool_address address =
     (if valid_addr20 address then Inr ()
      else Inl (InvalidConfig ''pool mining address must be 40 lowercase hex chars''))"

definition live_template_config :: "environment \<Rightarrow> config_files \<Rightarrow> start_error + (string \<times> string)" where
  "live_template_config env files =
     (case env ''CSD_POOL_CONFIG'' of
        Some path \<Rightarrow>
          result_bind (load_config files path) (\<lambda>config.
          result_bind (ok_or (InvalidConfig ''no template CSD node configured'')
            (case env ''CSD_POOL_NODE_URL'' of
               Some url \<Rightarrow> Some url
             | None \<Rightarrow> map_option cn_rpc_url (find (has_role ''template'') (cf_csd_nodes config)))) (\<lambda>node_url.
          let pool_address = coalesce (env ''CSD_POOL_MINING_ADDRESS'') (cp_mining_address (cf_pool config)) in
          result_bind (validate_pool_address pool_address) (\<lambda>_. Inr (node_url, pool_address))))
      | None \<Rightarrow>
          result_bind (ok_or (InvalidConfig
            ''CSD_POOL_NODE_URL is required for live template mode without CSD_POOL_CONFIG'')
            (env ''CSD_POOL_NODE_URL'')) (\<lambda>node_url.
          result_bind (ok_or (InvalidConfig
            ''CSD_POOL_MINING_ADDRESS is required for live template mode without CSD_POOL_CONFIG'')
            (env ''CSD_POOL_MINING_ADDRESS'')) (\<lambda>pool_address.
          result_bind (validate_pool_address pool_address) (\<lambda>_. Inr (node_url, pool_address)))))"

datatype provider = StaticProvider string | LiveProvider string string bool

definition stateless_parallel :: "environment \<Rightarrow> bool" where
  "stateless_parallel env = env_flag_enabled (env ''CSD_POOL_STATELESS_PARALLEL_CANDIDATE_SUBMIT_ENABLED'')"

definition template_provider_from_env :: "environment \<Rightarrow> config_files \<Rightarrow> start_error + provider" where
  "template_provider_from_env env files =
     (let mode = coalesce (env ''CSD_POOL_TEMPLATE_MODE'') ''static'' in
      if eq_ignore_ascii_case mode ''static'' then Inr (StaticProvider ''static-1'')
      else if \<not> eq_ignore_ascii_case mode ''live''
      then Inl (InvalidConfig (''unknown CSD_POOL_TEMPLATE_MODE='' @ mode @ ''; expected static or live''))
      else result_bind (live_template_config env files) (\<lambda>(node_url, pool_address).
        Inr (LiveProvider node_url pool_address (stateless_parallel env))))"

section \<open>Tip sentinel\<close>

text \<open>What \<open>symlink_metadata\<close> answers; a symbolic link is neither a directory nor a file.\<close>

record file_meta =
  fm_is_dir :: bool
  fm_is_file :: bool
  fm_is_symlink :: bool
  fm_mode :: u32
  fm_len :: u64

datatype stat_error = StatNotFound string | StatFailed string

fun stat_error_text :: "stat_error \<Rightarrow> string" where
  "stat_error_text (StatNotFound e) = e"
| "stat_error_text (StatFailed e) = e"

record file_system =
  fy_stat :: "string \<Rightarrow> stat_error + file_meta"
  fy_read :: "string \<Rightarrow> string + bytes"

definition is_absolute :: "string \<Rightarrow> bool" where
  "is_absolute path = (take 1 path = ''/'')"

definition secondary_submit_node_url_from_env ::
  "environment \<Rightarrow> config_files \<Rightarrow> string \<Rightarrow> start_error + string" where
  "secondary_submit_node_url_from_env env files primary_url =
     (let missing = Inl (InvalidConfig
        ''parallel candidate submit enabled but no distinct secondary submit node is configured'') in
      case nonempty_env env ''CSD_POOL_SECONDARY_SUBMIT_NODE_URL'' of
        Some url \<Rightarrow> Inr url
      | None \<Rightarrow> (case env ''CSD_POOL_CONFIG'' of
          None \<Rightarrow> missing
        | Some path \<Rightarrow> result_bind (load_config files path) (\<lambda>config.
            case find (\<lambda>n. has_role ''submit'' n
                \<and> normalized_node_url (cn_rpc_url n) \<noteq> normalized_node_url primary_url) (cf_csd_nodes config) of
              Some n \<Rightarrow> Inr (cn_rpc_url n)
            | None \<Rightarrow> missing)))"

definition select_tip_sentinel_node_url ::
  "string option \<Rightarrow> start_error + string \<Rightarrow> start_error + string" where
  "select_tip_sentinel_node_url explicit fallback =
     (case explicit of Some url \<Rightarrow> if url = [] then fallback else Inr url | None \<Rightarrow> fallback)"

definition select_tip_sentinel_node_token ::
  "bool \<Rightarrow> string option \<Rightarrow> string option \<Rightarrow> start_error + string option" where
  "select_tip_sentinel_node_token independent_url sentinel_token node_token =
     (let present = (\<lambda>t. case t of Some v \<Rightarrow> if v = [] then None else Some v | None \<Rightarrow> None) in
      if independent_url
      then (case present sentinel_token of
              Some t \<Rightarrow> Inr (Some t)
            | None \<Rightarrow> Inl (InvalidConfig ''independent tip sentinel URL requires CSD_POOL_TIP_SENTINEL_NODE_TOKEN''))
      else Inr (case present sentinel_token of Some t \<Rightarrow> Some t | None \<Rightarrow> present node_token))"

definition max_sentinel_ca_bytes :: u64 where "max_sentinel_ca_bytes = 64 * 1024"

definition load_tip_sentinel_ca_pem ::
  "file_system \<Rightarrow> bool \<Rightarrow> string \<Rightarrow> string option \<Rightarrow> start_error + bytes option" where
  "load_tip_sentinel_ca_pem fs independent_url sentinel_url path =
     (if \<not> independent_url
      then (if path = None \<or> path = Some [] then Inr None
            else Inl (InvalidConfig
              ''CSD_POOL_TIP_SENTINEL_NODE_CA_CERT is only valid with an independent sentinel URL''))
      else if strip_prefix ''https://'' (to_ascii_lowercase sentinel_url) = None
      then Inl (InvalidConfig ''CSD_POOL_TIP_SENTINEL_NODE_CA_CERT requires an HTTPS sentinel URL'')
      else case path of
        None \<Rightarrow> Inl (InvalidConfig ''independent HTTPS tip sentinel requires CSD_POOL_TIP_SENTINEL_NODE_CA_CERT'')
      | Some p \<Rightarrow>
          if p = []
          then Inl (InvalidConfig ''independent HTTPS tip sentinel requires CSD_POOL_TIP_SENTINEL_NODE_CA_CERT'')
          else if \<not> is_absolute p
          then Inl (InvalidConfig ''CSD_POOL_TIP_SENTINEL_NODE_CA_CERT must be an absolute path'')
          else (case fy_stat fs p of
              Inl e \<Rightarrow> Inl (StartIo (stat_error_text e))
            | Inr meta \<Rightarrow>
                if fm_is_symlink meta \<or> \<not> fm_is_file meta
                then Inl (InvalidConfig ''CSD_POOL_TIP_SENTINEL_NODE_CA_CERT must be a regular non-symlink file'')
                else if fm_len meta = 0 \<or> max_sentinel_ca_bytes < fm_len meta
                then Inl (InvalidConfig ''CSD_POOL_TIP_SENTINEL_NODE_CA_CERT has an invalid size'')
                else (case fy_read fs p of Inl e \<Rightarrow> Inl (StartIo e) | Inr pem \<Rightarrow> Inr (Some pem))))"

record sentinel =
  se_primary_url :: string
  se_secondary_url :: string
  se_secondary_ca :: "bytes option"
  se_secondary_token :: "string option"
  se_timeout_ms :: u64

text \<open>The reader of the certificates (\<open>with_root_certificate_pem\<close>) is a parameter.\<close>

definition tip_sentinel_from_env ::
  "(bytes \<Rightarrow> node_error + unit) \<Rightarrow> environment \<Rightarrow> config_files \<Rightarrow> file_system \<Rightarrow> start_error + sentinel option" where
  "tip_sentinel_from_env read_pem env files fs =
     (if \<not> env_flag_enabled (env ''CSD_POOL_SECONDARY_TIP_SENTINEL_ENABLED'') then Inr None
      else if \<not> eq_ignore_ascii_case (coalesce (env ''CSD_POOL_TEMPLATE_MODE'') ''static'') ''live''
      then Inl (InvalidConfig ''secondary tip sentinel requires live template mode'')
      else result_bind (live_template_config env files) (\<lambda>(primary_url, _).
        let explicit_url = nonempty_env env ''CSD_POOL_TIP_SENTINEL_NODE_URL'' in
        result_bind (select_tip_sentinel_node_url explicit_url
          (secondary_submit_node_url_from_env env files primary_url)) (\<lambda>sentinel_url.
        if normalized_node_url primary_url = normalized_node_url sentinel_url
        then Inl (InvalidConfig ''secondary tip sentinel requires distinct primary and sentinel node URLs'')
        else result_bind (select_tip_sentinel_node_token (explicit_url \<noteq> None)
          (env ''CSD_POOL_TIP_SENTINEL_NODE_TOKEN'') (env ''CSD_POOL_NODE_TOKEN'')) (\<lambda>sentinel_token.
        result_bind (load_tip_sentinel_ca_pem fs (explicit_url \<noteq> None) sentinel_url
          (env ''CSD_POOL_TIP_SENTINEL_NODE_CA_CERT'')) (\<lambda>ca_pem.
        result_bind (case ca_pem of
            None \<Rightarrow> Inr ()
          | Some pem \<Rightarrow> (case read_pem pem of Inl e \<Rightarrow> Inl (StartNode e) | Inr _ \<Rightarrow> Inr ())) (\<lambda>_.
        Inr (Some \<lparr>se_primary_url = primary_url, se_secondary_url = sentinel_url, se_secondary_ca = ca_pem,
          se_secondary_token = sentinel_token,
          se_timeout_ms = clamp_word 100 5000 (env_u64 env ''CSD_POOL_SECONDARY_TIP_SENTINEL_TIMEOUT_MS'' 750)\<rparr>)))))))"

section \<open>Block submitter\<close>

text \<open>\<open>Path::parent\<close> of an absolute path, written with single separators: the same directory.\<close>

definition parent_path :: "string \<Rightarrow> string option" where
  "parent_path path =
     (case filter (\<lambda>c. c \<noteq> [] \<and> c \<noteq> ''.'') (split_char (CHR ''/'') path) of
        [] \<Rightarrow> None
      | cs \<Rightarrow> Some (if butlast cs = [] then ''/'' else concat (map (\<lambda>c. ''/'' @ c) (butlast cs))))"

definition private_mode :: "u32 \<Rightarrow> bool" where
  "private_mode mode \<longleftrightarrow> and mode 63 = 0"

definition latch_new :: "file_system \<Rightarrow> string \<Rightarrow> start_error + string" where
  "latch_new fs path =
     (case parent_path path of
        None \<Rightarrow> Inl (InvalidConfig ''persistent candidate latch has no parent'')
      | Some parent \<Rightarrow> (case fy_stat fs parent of
          Inl e \<Rightarrow> Inl (InvalidConfig (''persistent candidate latch parent is unavailable: '' @ stat_error_text e))
        | Inr meta \<Rightarrow>
            if \<not> fm_is_dir meta \<or> fm_is_symlink meta
            then Inl (InvalidConfig ''persistent candidate latch parent must be a real directory'')
            else if and (fm_mode meta) 18 \<noteq> 0 \<and> and (fm_mode meta) 512 = 0
            then Inl (InvalidConfig
              ''persistent candidate latch parent must not be group/world writable without the sticky bit'')
            else (case fy_stat fs path of
                Inr m \<Rightarrow>
                  if fm_is_file m \<and> \<not> fm_is_symlink m
                  then (if private_mode (fm_mode m) then Inr path
                        else Inl (InvalidConfig ''persistent candidate latch file must have mode 0600 or stricter''))
                  else Inl (InvalidConfig ''persistent candidate latch must be absent or a regular file'')
              | Inl (StatNotFound _) \<Rightarrow> Inr path
              | Inl (StatFailed e) \<Rightarrow> Inl (InvalidConfig (''persistent candidate latch cannot be inspected: '' @ e)))))"

definition journal_new :: "file_system \<Rightarrow> string \<Rightarrow> start_error + string" where
  "journal_new fs directory =
     (case fy_stat fs directory of
        Inl e \<Rightarrow> Inl (InvalidConfig (''persistent candidate state directory is unavailable: '' @ stat_error_text e))
      | Inr meta \<Rightarrow>
          if \<not> fm_is_dir meta \<or> fm_is_symlink meta
          then Inl (InvalidConfig ''persistent candidate state path must be a real directory'')
          else if \<not> private_mode (fm_mode meta)
          then Inl (InvalidConfig ''persistent candidate state directory must have mode 0700 or stricter'')
          else Inr directory)"

definition absolute_path_from_env :: "environment \<Rightarrow> string \<Rightarrow> string \<Rightarrow> start_error + string" where
  "absolute_path_from_env env name purpose =
     (case env name of
        None \<Rightarrow> Inl (InvalidConfig (name @ '' is required for '' @ purpose))
      | Some path \<Rightarrow> if is_absolute path then Inr path else Inl (InvalidConfig (name @ '' must be absolute'')))"

definition persistent_candidate_latch_path_from_env :: "environment \<Rightarrow> start_error + string" where
  "persistent_candidate_latch_path_from_env env =
     absolute_path_from_env env ''CSD_POOL_STATELESS_PARALLEL_CANDIDATE_LATCH_PATH'' ''the stateless one-shot canary''"

definition persistent_candidate_state_dir_from_env :: "environment \<Rightarrow> start_error + string" where
  "persistent_candidate_state_dir_from_env env =
     absolute_path_from_env env ''CSD_POOL_STATELESS_PARALLEL_CANDIDATE_STATE_DIR'' ''continuous_bounded mode''"

definition parallel_candidate_submit_budget :: "string option \<Rightarrow> start_error + u64" where
  "parallel_candidate_submit_budget value =
     (case parse_uint 10 (2 ^ 64) (trim (coalesce value ''1'')) of
        None \<Rightarrow> Inl (InvalidConfig ''CSD_POOL_PARALLEL_CANDIDATE_SUBMIT_BUDGET must be the integer 1'')
      | Some budget \<Rightarrow>
          if budget \<noteq> 1
          then Inl (InvalidConfig
            ''CSD_POOL_PARALLEL_CANDIDATE_SUBMIT_BUDGET must be 1 for the production candidate canary'')
          else Inr (word_of_nat budget))"

definition secondary_candidate_control_from_env ::
  "environment \<Rightarrow> file_system \<Rightarrow> start_error + candidate_control" where
  "secondary_candidate_control_from_env env fs =
     (let mode = to_ascii_lowercase (trim (coalesce (env ''CSD_POOL_STATELESS_PARALLEL_CANDIDATE_MODE'') ''one_shot'')) in
      if mode = ''one_shot''
      then result_bind (parallel_candidate_submit_budget (env ''CSD_POOL_PARALLEL_CANDIDATE_SUBMIT_BUDGET'')) (\<lambda>budget.
           result_bind (persistent_candidate_latch_path_from_env env) (\<lambda>path.
           result_bind (latch_new fs path) (\<lambda>latch. Inr (OneShot budget latch))))
      else if mode = ''continuous_bounded''
      then result_bind (persistent_candidate_state_dir_from_env env) (\<lambda>dir.
           result_bind (journal_new fs dir) (\<lambda>journal. Inr (ContinuousBounded journal)))
      else Inl (InvalidConfig
        ''CSD_POOL_STATELESS_PARALLEL_CANDIDATE_MODE must be one_shot or continuous_bounded''))"

definition submit_node_url_from_env :: "environment \<Rightarrow> config_files \<Rightarrow> start_error + string" where
  "submit_node_url_from_env env files =
     (let missing = Inl (InvalidConfig ''candidate submission enabled but no submit CSD node is configured'') in
      case nonempty_env env ''CSD_POOL_SUBMIT_NODE_URL'' of
        Some url \<Rightarrow> Inr url
      | None \<Rightarrow> (case nonempty_env env ''CSD_POOL_NODE_URL'' of
          Some url \<Rightarrow> Inr url
        | None \<Rightarrow> (case env ''CSD_POOL_CONFIG'' of
            None \<Rightarrow> missing
          | Some path \<Rightarrow> result_bind (load_config files path) (\<lambda>config.
              case find (has_role ''submit'') (cf_csd_nodes config) of
                Some n \<Rightarrow> Inr (cn_rpc_url n) | None \<Rightarrow> missing))))"

definition require_template_submit_affinity :: "string \<Rightarrow> string \<Rightarrow> start_error + unit" where
  "require_template_submit_affinity template_node_url submit_node_url =
     (if trim_end_slashes template_node_url = trim_end_slashes submit_node_url then Inr ()
      else Inl (InvalidConfig ''template and submit CSD node URLs must match because mining jobs are node-local''))"

definition require_candidate_submission :: "bool \<Rightarrow> string option \<Rightarrow> start_error + bool" where
  "require_candidate_submission enabled template_mode =
     (if \<not> enabled \<and> (case template_mode of Some m \<Rightarrow> eq_ignore_ascii_case (trim m) ''live'' | None \<Rightarrow> False)
      then Inl (InvalidConfig
        ''candidate block submission is required in live mode; set CSD_POOL_SUBMIT_CANDIDATES=true'')
      else Inr enabled)"

definition bounded_submit_timeout :: "u64 \<Rightarrow> u64" where
  "bounded_submit_timeout ms = clamp_word 100 10000 ms"

text \<open>The submitter of a bridge; durations are in milliseconds.\<close>

record parallel_submitter =
  px_primary_name :: string
  px_primary_url :: string
  px_secondary_name :: string
  px_secondary_url :: string
  px_primary_timeout_ms :: u64
  px_secondary_timeout_ms :: u64
  px_health_refresh_ms :: u64
  px_health_max_age_ms :: u64
  px_control :: candidate_control
  px_secondary_permits :: u64
  px_circuit_failures :: u64
  px_circuit_cooldown_ms :: u64

datatype submitter = SingleNode string | ParallelNodes parallel_submitter

definition parallel_submitter_from_env ::
  "environment \<Rightarrow> config_files \<Rightarrow> file_system \<Rightarrow> string \<Rightarrow> start_error + submitter" where
  "parallel_submitter_from_env env files fs node_url =
     result_bind (secondary_submit_node_url_from_env env files node_url) (\<lambda>secondary_url.
     if normalized_node_url node_url = normalized_node_url secondary_url
     then Inl (InvalidConfig ''parallel candidate submit requires distinct primary and secondary node URLs'')
     else result_bind (secondary_candidate_control_from_env env fs) (\<lambda>control.
     Inr (ParallelNodes
       \<lparr>px_primary_name = coalesce (nonempty_env env ''CSD_POOL_PRIMARY_SUBMIT_NODE_NAME'') ''node-a'',
        px_primary_url = node_url,
        px_secondary_name = coalesce (nonempty_env env ''CSD_POOL_SECONDARY_SUBMIT_NODE_NAME'') ''node-b'',
        px_secondary_url = secondary_url,
        px_primary_timeout_ms = bounded_submit_timeout (env_u64 env ''CSD_POOL_PRIMARY_SUBMIT_TIMEOUT_MS'' 2000),
        px_secondary_timeout_ms = bounded_submit_timeout (env_u64 env ''CSD_POOL_SECONDARY_SUBMIT_TIMEOUT_MS'' 750),
        px_health_refresh_ms = clamp_word 100 10000 (env_u64 env ''CSD_POOL_PARALLEL_NODE_HEALTH_REFRESH_MS'' 1000),
        px_health_max_age_ms = clamp_word 250 30000 (env_u64 env ''CSD_POOL_PARALLEL_NODE_HEALTH_MAX_AGE_MS'' 3000),
        px_control = control,
        px_secondary_permits = clamp_word 1 4 (env_u64 env ''CSD_POOL_STATELESS_SECONDARY_MAX_IN_FLIGHT'' 1),
        px_circuit_failures = clamp_word 1 100 (env_u64 env ''CSD_POOL_STATELESS_SECONDARY_CIRCUIT_FAILURES'' 3),
        px_circuit_cooldown_ms =
          clamp_word 1000 300000 (env_u64 env ''CSD_POOL_STATELESS_SECONDARY_CIRCUIT_COOLDOWN_MS'' 30000)\<rparr>)))"

definition block_submitter_from_env ::
  "environment \<Rightarrow> config_files \<Rightarrow> file_system \<Rightarrow> start_error + submitter option" where
  "block_submitter_from_env env files fs =
     result_bind (require_candidate_submission (env_flag_enabled (env ''CSD_POOL_SUBMIT_CANDIDATES''))
       (env ''CSD_POOL_TEMPLATE_MODE'')) (\<lambda>enabled.
     if \<not> enabled then Inr None
     else result_bind (submit_node_url_from_env env files) (\<lambda>node_url.
       result_bind (case env ''CSD_POOL_TEMPLATE_MODE'' of
           Some mode \<Rightarrow>
             if eq_ignore_ascii_case mode ''live''
             then result_bind (live_template_config env files) (\<lambda>(template_node_url, _).
                    require_template_submit_affinity template_node_url node_url)
             else Inr ()
         | None \<Rightarrow> Inr ()) (\<lambda>_.
       if env_flag_enabled (env ''CSD_POOL_PARALLEL_CANDIDATE_SUBMIT_ENABLED'')
       then Inl (InvalidConfig (''BLOCKED_JOB_CACHE_AFFINITY: the legacy parallel submit path cannot submit ''
         @ ''a node-a job to an empty node-b cache''))
       else if \<not> stateless_parallel env then Inr (Some (SingleNode node_url))
       else result_bind (parallel_submitter_from_env env files fs node_url) (\<lambda>s. Inr (Some s)))))"

section \<open>Database, limits and difficulty\<close>

definition database_url_from_env :: "environment \<Rightarrow> config_files \<Rightarrow> string option" where
  "database_url_from_env env files =
     nonempty_env env (case env ''CSD_POOL_CONFIG'' of
        Some path \<Rightarrow> (case files path of Inr c \<Rightarrow> cf_database_url_env c | Inl _ \<Rightarrow> ''CSD_POOL_DATABASE_URL'')
      | None \<Rightarrow> ''CSD_POOL_DATABASE_URL'')"

definition require_persistent_database ::
  "string option \<Rightarrow> string option \<Rightarrow> string option \<Rightarrow> start_error + string option" where
  "require_persistent_database database_url template_mode explicit_requirement =
     (if database_url = None \<and> persistent_database_required template_mode explicit_requirement
      then Inl (InvalidConfig (''persistent PostgreSQL is required in live mode; set CSD_POOL_DATABASE_URL ''
        @ ''or the [database].url_env variable''))
      else Inr database_url)"

text \<open>The address of the database that \<open>mining_repository_from_env\<close> connects to.\<close>

definition mining_repository_url :: "environment \<Rightarrow> config_files \<Rightarrow> start_error + string option" where
  "mining_repository_url env files =
     require_persistent_database (database_url_from_env env files) (env ''CSD_POOL_TEMPLATE_MODE'')
       (env ''CSD_POOL_REQUIRE_DATABASE'')"

definition abuse_config_of_section :: "abuse_section \<Rightarrow> abuse_config" where
  "abuse_config_of_section s =
     \<lparr>ac_max_connections_per_ip = cb_max_connections_per_ip s,
      ac_max_sessions_per_address = cb_max_sessions_per_address s,
      ac_malformed_frame_limit = cb_malformed_frame_limit s, ac_auth_failure_limit = cb_auth_failure_limit s,
      ac_invalid_share_limit = cb_invalid_share_limit s, ac_ban_secs = cb_ban_secs s\<rparr>"

definition abuse_config_from_env :: "environment \<Rightarrow> config_files \<Rightarrow> start_error + abuse_config" where
  "abuse_config_from_env env files =
     (case env ''CSD_POOL_CONFIG'' of
        Some path \<Rightarrow> result_bind (load_config files path) (\<lambda>c. Inr (abuse_config_of_section (cf_abuse c)))
      | None \<Rightarrow> Inr
          \<lparr>ac_max_connections_per_ip = env_u32 env ''CSD_POOL_MAX_CONNECTIONS_PER_IP'' 32,
           ac_max_sessions_per_address = env_u32 env ''CSD_POOL_MAX_SESSIONS_PER_ADDRESS'' 64,
           ac_malformed_frame_limit = env_u32 env ''CSD_POOL_MALFORMED_FRAME_LIMIT'' 8,
           ac_auth_failure_limit = env_u32 env ''CSD_POOL_AUTH_FAILURE_LIMIT'' 5,
           ac_invalid_share_limit = env_u32 env ''CSD_POOL_INVALID_SHARE_LIMIT'' 16,
           ac_ban_secs = env_u64 env ''CSD_POOL_BAN_SECS'' 600\<rparr>)"

text \<open>\<open>From<StratumSection>\<close>: None is the panic of \<open>clamp\<close>.\<close>

definition vardiff_of_section :: "stratum_section \<Rightarrow> vardiff_config option" where
  "vardiff_of_section s = normalized
     \<lparr>vc_initial_difficulty = ct_initial_difficulty s, vc_min_difficulty = ct_min_difficulty s,
      vc_max_difficulty = ct_max_difficulty s, vc_target_share_secs = ct_target_share_secs s,
      vc_ewma_alpha = ct_vardiff_ewma_alpha s, vc_raise_ratio = ct_vardiff_raise_ratio s,
      vc_lower_ratio = ct_vardiff_lower_ratio s, vc_min_adjust_secs = ct_vardiff_min_adjust_secs s,
      vc_max_adjust_factor = ct_vardiff_max_adjust_factor s,
      vc_transition_grace_secs = ct_vardiff_transition_grace_secs s\<rparr>"

definition vardiff_env_values :: "environment \<Rightarrow> vardiff_config" where
  "vardiff_env_values env =
     \<lparr>vc_initial_difficulty = env_f64 env ''CSD_POOL_INITIAL_DIFFICULTY'' (Fin 8),
      vc_min_difficulty = env_f64 env ''CSD_POOL_MIN_DIFFICULTY'' (Fin 8),
      vc_max_difficulty = env_f64 env ''CSD_POOL_MAX_DIFFICULTY'' (Fin 512),
      vc_target_share_secs = env_u64 env ''CSD_POOL_TARGET_SHARE_SECS'' 20,
      vc_ewma_alpha = env_f64 env ''CSD_POOL_VARDIFF_EWMA_ALPHA'' (lit (25 / 100)),
      vc_raise_ratio = env_f64 env ''CSD_POOL_VARDIFF_RAISE_RATIO'' (lit (70 / 100)),
      vc_lower_ratio = env_f64 env ''CSD_POOL_VARDIFF_LOWER_RATIO'' (lit (140 / 100)),
      vc_min_adjust_secs = env_u64 env ''CSD_POOL_VARDIFF_MIN_ADJUST_SECS'' 120,
      vc_max_adjust_factor = env_f64 env ''CSD_POOL_VARDIFF_MAX_ADJUST_FACTOR'' (Fin 2),
      vc_transition_grace_secs = env_u64 env ''CSD_POOL_VARDIFF_TRANSITION_GRACE_SECS'' 120\<rparr>"

definition vardiff_config_from_env :: "environment \<Rightarrow> config_files \<Rightarrow> start_error + vardiff_config" where
  "vardiff_config_from_env env files =
     (case env ''CSD_POOL_CONFIG'' of
        Some path \<Rightarrow> result_bind (load_config files path) (\<lambda>c. ok_or StartPanic (vardiff_of_section (cf_stratum c)))
      | None \<Rightarrow> ok_or StartPanic (normalized (vardiff_env_values env)))"

text \<open>The times of the job watch, in seconds and milliseconds.\<close>

record job_policy =
  jp_refresh_secs :: u64
  jp_heartbeat_secs :: "u64 option"
  jp_retention_secs :: u64
  jp_sentinel_poll_ms :: u64

definition sat_mul2 :: "u64 \<Rightarrow> u64" where
  "sat_mul2 x = (if 2 * unat x < 2 ^ 64 then 2 * x else - 1)"

definition job_policy_from_env :: "environment \<Rightarrow> job_policy" where
  "job_policy_from_env env =
     (let heartbeat_secs = env_u64 env ''CSD_POOL_JOB_HEARTBEAT_SECS'' 120 in
      \<lparr>jp_refresh_secs = bounded_template_refresh_secs (env_u64 env ''CSD_POOL_TEMPLATE_REFRESH_SECS'' 2)
         (coalesce (env ''CSD_POOL_TEMPLATE_MODE'') []),
       jp_heartbeat_secs = (if 0 < heartbeat_secs then Some heartbeat_secs else None),
       jp_retention_secs = max (max (env_u64 env ''CSD_POOL_JOB_RETENTION_SECS'' 900) (sat_mul2 heartbeat_secs)) 300,
       jp_sentinel_poll_ms = clamp_word 100 5000 (env_u64 env ''CSD_POOL_SECONDARY_TIP_SENTINEL_POLL_MS'' 250)\<rparr>)"

section \<open>Starting the bridge\<close>

record bridge_parts =
  bp_provider :: provider
  bp_sentinel :: "sentinel option"
  bp_submitter :: "submitter option"
  bp_database_url :: "string option"
  bp_abuse :: abuse_config
  bp_vardiff :: vardiff_config
  bp_jobs :: job_policy

definition run_stratum_server ::
  "(bytes \<Rightarrow> node_error + unit) \<Rightarrow> environment \<Rightarrow> config_files \<Rightarrow> file_system \<Rightarrow> start_error + bridge_parts" where
  "run_stratum_server read_pem env files fs =
     result_bind (template_provider_from_env env files) (\<lambda>p.
     result_bind (tip_sentinel_from_env read_pem env files fs) (\<lambda>s.
     result_bind (block_submitter_from_env env files fs) (\<lambda>b.
     result_bind (mining_repository_url env files) (\<lambda>d.
     result_bind (abuse_config_from_env env files) (\<lambda>a.
     result_bind (vardiff_config_from_env env files) (\<lambda>v.
     Inr \<lparr>bp_provider = p, bp_sentinel = s, bp_submitter = b, bp_database_url = d, bp_abuse = a,
          bp_vardiff = v, bp_jobs = job_policy_from_env env\<rparr>))))))"

section \<open>What a bridge that has started relies on\<close>

text \<open>The mark of the secondary contact is in a place only this user can write to, or that nobody can remove from.\<close>

fun control_protected :: "file_system \<Rightarrow> candidate_control \<Rightarrow> bool" where
  "control_protected fs (OneShot budget path) \<longleftrightarrow> budget = 1 \<and> is_absolute path
     \<and> (case parent_path path of
          None \<Rightarrow> False
        | Some parent \<Rightarrow> (case fy_stat fs parent of
            Inl _ \<Rightarrow> False
          | Inr m \<Rightarrow> fm_is_dir m \<and> \<not> fm_is_symlink m \<and> (and (fm_mode m) 18 = 0 \<or> and (fm_mode m) 512 \<noteq> 0)))
     \<and> (case fy_stat fs path of
          Inr m \<Rightarrow> fm_is_file m \<and> \<not> fm_is_symlink m \<and> private_mode (fm_mode m)
        | Inl (StatNotFound _) \<Rightarrow> True
        | Inl (StatFailed _) \<Rightarrow> False)"
| "control_protected fs (ContinuousBounded dir) \<longleftrightarrow> is_absolute dir
     \<and> (case fy_stat fs dir of
          Inl _ \<Rightarrow> False
        | Inr m \<Rightarrow> fm_is_dir m \<and> \<not> fm_is_symlink m \<and> private_mode (fm_mode m))"

text \<open>Candidates go to the node that built the job; a second node is another one, contacted within limits.\<close>

fun submitter_sound :: "file_system \<Rightarrow> string \<Rightarrow> submitter \<Rightarrow> bool" where
  "submitter_sound fs node_url (SingleNode url) \<longleftrightarrow> trim_end_slashes url = trim_end_slashes node_url"
| "submitter_sound fs node_url (ParallelNodes p) \<longleftrightarrow>
     trim_end_slashes (px_primary_url p) = trim_end_slashes node_url
     \<and> normalized_node_url (px_secondary_url p) \<noteq> normalized_node_url (px_primary_url p)
     \<and> control_protected fs (px_control p)
     \<and> px_primary_timeout_ms p \<in> {100..10000} \<and> px_secondary_timeout_ms p \<in> {100..10000}
     \<and> px_health_max_age_ms p \<in> {250..30000} \<and> px_secondary_permits p \<in> {1..4}
     \<and> px_circuit_failures p \<in> {1..100} \<and> px_circuit_cooldown_ms p \<in> {1000..300000}"

definition sentinel_sound :: "environment \<Rightarrow> string \<Rightarrow> sentinel \<Rightarrow> bool" where
  "sentinel_sound env node_url s \<longleftrightarrow>
     se_primary_url s = node_url \<and> normalized_node_url (se_secondary_url s) \<noteq> normalized_node_url node_url
     \<and> se_timeout_ms s \<in> {100..5000}
     \<and> (nonempty_env env ''CSD_POOL_TIP_SENTINEL_NODE_URL'' \<noteq> None \<longrightarrow>
          Some (se_secondary_url s) = env ''CSD_POOL_TIP_SENTINEL_NODE_URL''
          \<and> strip_prefix ''https://'' (to_ascii_lowercase (se_secondary_url s)) \<noteq> None
          \<and> se_secondary_ca s \<noteq> None
          \<and> se_secondary_token s = env ''CSD_POOL_TIP_SENTINEL_NODE_TOKEN''
          \<and> se_secondary_token s \<notin> {None, Some []})"

lemma clamp_word_range: "lo \<le> hi \<Longrightarrow> clamp_word lo hi x \<in> {lo..hi}"
  by (auto simp: clamp_word_def not_less)

lemma live_mode:
  assumes "eq_ignore_ascii_case mode ''live''"
  shows "trim mode = mode" "\<not> eq_ignore_ascii_case mode ''static''"
proof -
  have four: "map ascii_lower mode = ''live''"
    using assms unfolding eq_ignore_ascii_case_def to_ascii_lowercase_def by (simp add: ascii_lower_def is_ascii_upper_def)
  from arg_cong [OF this, of length] have "length mode = 4" by simp
  then obtain a b c d where mode: "mode = [a, b, c, d]"
    by (auto simp: length_Suc_conv eval_nat_numeral)
  then have ad: "ascii_lower a = CHR ''l''" "ascii_lower d = CHR ''e''" using four by simp_all
  have low: "ascii_lower x = y \<Longrightarrow> of_char y = (n :: nat) \<Longrightarrow> of_char x = n \<or> of_char x + 32 = n" for x y n
    using of_char_ascii_lower [of x] by (auto split: if_splits)
  have "visible a" "visible d" using low [OF ad(1)] low [OF ad(2)] by (auto simp: visible_def)
  then show "trim mode = mode" using mode by (intro trim_visible) simp_all
  show "\<not> eq_ignore_ascii_case mode ''static''"
    using four by (auto simp: eq_ignore_ascii_case_def to_ascii_lowercase_def dest: arg_cong [of _ _ length])
qed

lemma latch_new_protected:
  assumes "latch_new fs path = Inr latch" and "is_absolute path"
  shows "control_protected fs (OneShot 1 latch)"
  using assms by (auto simp: latch_new_def split: option.splits sum.splits stat_error.splits if_splits)

lemma control_protected_from_env:
  assumes "secondary_candidate_control_from_env env fs = Inr control"
  shows "control_protected fs control"
proof -
  have path: "absolute_path_from_env env name purpose = Inr p \<Longrightarrow> is_absolute p" for name purpose p
    by (auto simp: absolute_path_from_env_def split: option.splits if_splits)
  have budget: "parallel_candidate_submit_budget v = Inr b \<Longrightarrow> b = 1" for v b
    by (auto simp: parallel_candidate_submit_budget_def split: option.splits if_splits)
  have journal: "journal_new fs dir = Inr j \<Longrightarrow> is_absolute dir \<Longrightarrow> control_protected fs (ContinuousBounded j)" for dir j
    by (auto simp: journal_new_def split: sum.splits if_splits)
  show ?thesis
    using assms latch_new_protected journal path budget
    unfolding secondary_candidate_control_from_env_def persistent_candidate_latch_path_from_env_def
      persistent_candidate_state_dir_from_env_def Let_def
    by (fastforce simp: result_bind_eq_Inr split: if_splits)
qed

lemma parallel_submitter_sound:
  assumes "parallel_submitter_from_env env files fs url = Inr s"
    and "trim_end_slashes url = trim_end_slashes node_url"
  shows "submitter_sound fs node_url s \<and> (\<exists>p. s = ParallelNodes p)"
  using assms control_protected_from_env
  by (auto simp: parallel_submitter_from_env_def result_bind_eq_Inr bounded_submit_timeout_def clamp_word_range
      simp del: atLeastAtMost_iff split: if_splits)

lemma live_submitter_sound:
  assumes "block_submitter_from_env env files fs = Inr b" and "env ''CSD_POOL_TEMPLATE_MODE'' = Some mode"
    and live: "eq_ignore_ascii_case mode ''live''" and "live_template_config env files = Inr (node_url, address)"
  shows "\<exists>s. b = Some s \<and> submitter_sound fs node_url s \<and> ((\<exists>p. s = ParallelNodes p) \<longleftrightarrow> stateless_parallel env)
    \<and> \<not> env_flag_enabled (env ''CSD_POOL_PARALLEL_CANDIDATE_SUBMIT_ENABLED'')"
proof -
  have on: "require_candidate_submission (env_flag_enabled (env ''CSD_POOL_SUBMIT_CANDIDATES'')) (Some mode) = Inr e \<Longrightarrow> e" for e
    using live live_mode(1) [OF live] by (auto simp: require_candidate_submission_def split: if_splits)
  obtain url where url: "require_template_submit_affinity node_url url = Inr ()"
    "\<not> env_flag_enabled (env ''CSD_POOL_PARALLEL_CANDIDATE_SUBMIT_ENABLED'')"
    "(if \<not> stateless_parallel env then Inr (Some (SingleNode url))
      else result_bind (parallel_submitter_from_env env files fs url) (\<lambda>s. Inr (Some s))) = Inr b"
    using assms(1,2,4) live on
    unfolding block_submitter_from_env_def by (auto simp: result_bind_eq_Inr split: if_splits)
  have "trim_end_slashes url = trim_end_slashes node_url"
    using url(1) by (auto simp: require_template_submit_affinity_def split: if_splits)
  with url(2,3) parallel_submitter_sound show ?thesis
    by (auto simp: result_bind_eq_Inr split: if_splits)
qed

lemma live_sentinel_sound:
  assumes "tip_sentinel_from_env read_pem env files fs = Inr (Some s)"
    and config: "live_template_config env files = Inr (node_url, address)"
  shows "sentinel_sound env node_url s"
proof -
  let ?explicit = "nonempty_env env ''CSD_POOL_TIP_SENTINEL_NODE_URL''"
  obtain url token ca where step: "select_tip_sentinel_node_url ?explicit (secondary_submit_node_url_from_env env files node_url) = Inr url"
    "normalized_node_url node_url \<noteq> normalized_node_url url"
    "select_tip_sentinel_node_token (?explicit \<noteq> None) (env ''CSD_POOL_TIP_SENTINEL_NODE_TOKEN'') (env ''CSD_POOL_NODE_TOKEN'') = Inr token"
    "load_tip_sentinel_ca_pem fs (?explicit \<noteq> None) url (env ''CSD_POOL_TIP_SENTINEL_NODE_CA_CERT'') = Inr ca"
    and s: "s = \<lparr>se_primary_url = node_url, se_secondary_url = url, se_secondary_ca = ca, se_secondary_token = token,
      se_timeout_ms = clamp_word 100 5000 (env_u64 env ''CSD_POOL_SECONDARY_TIP_SENTINEL_TIMEOUT_MS'' 750)\<rparr>"
    using assms unfolding tip_sentinel_from_env_def Let_def
    by (auto simp: result_bind_eq_Inr split: if_splits)
  have range: "se_timeout_ms s \<in> {100..5000}" unfolding s by (simp add: clamp_word_range del: atLeastAtMost_iff)
  show ?thesis
  proof (cases ?explicit)
    case None
    then show ?thesis using step(2) range by (simp add: sentinel_sound_def s)
  next
    case (Some e)
    then have e: "env ''CSD_POOL_TIP_SENTINEL_NODE_URL'' = Some e" "e \<noteq> []"
      by (auto simp: nonempty_env_def split: option.splits if_splits)
    then have "url = e" using step(1) Some by (simp add: select_tip_sentinel_node_url_def)
    moreover have "token = env ''CSD_POOL_TIP_SENTINEL_NODE_TOKEN'' \<and> token \<notin> {None, Some []}"
      using step(3) Some by (auto simp: select_tip_sentinel_node_token_def split: option.splits if_splits)
    moreover have "strip_prefix ''https://'' (to_ascii_lowercase url) \<noteq> None \<and> ca \<noteq> None"
      using step(4) Some by (auto simp: load_tip_sentinel_ca_pem_def split: option.splits sum.splits if_splits)
    ultimately show ?thesis using step(2) range e by (auto simp: sentinel_sound_def s)
  qed
qed

lemma live_config_address: "live_template_config env files = Inr (node_url, address) \<Longrightarrow> valid_addr20 address"
  by (auto simp: live_template_config_def validate_pool_address_def result_bind_eq_Inr Let_def
      split: option.splits if_splits)

text \<open>
  C10. A bridge that starts in live mode is safely wired: it has a database; it builds jobs for a valid pool
  address at one node and submits candidates to that same node; a second node is a different one, used
  exactly when jobs carry the full block, with bounded times, and its one-time mark lies where no other
  user can forge or remove it; the legacy parallel path is off; and a tip sentinel watches a different
  node, one named by itself only over https with its own certificate and token.
\<close>

theorem live_bridge_wired:
  assumes "run_stratum_server read_pem env files fs = Inr parts"
    and "env ''CSD_POOL_TEMPLATE_MODE'' = Some mode" and "eq_ignore_ascii_case mode ''live''"
  shows "\<exists>node_url address submitter. bp_provider parts = LiveProvider node_url address (stateless_parallel env)
    \<and> valid_addr20 address \<and> bp_database_url parts \<notin> {None, Some []}
    \<and> bp_submitter parts = Some submitter \<and> submitter_sound fs node_url submitter
    \<and> ((\<exists>p. submitter = ParallelNodes p) \<longleftrightarrow> stateless_parallel env)
    \<and> \<not> env_flag_enabled (env ''CSD_POOL_PARALLEL_CANDIDATE_SUBMIT_ENABLED'')
    \<and> (case bp_sentinel parts of None \<Rightarrow> True | Some s \<Rightarrow> sentinel_sound env node_url s)"
proof -
  obtain p s b d where parts: "template_provider_from_env env files = Inr p"
    "tip_sentinel_from_env read_pem env files fs = Inr s" "block_submitter_from_env env files fs = Inr b"
    "mining_repository_url env files = Inr d"
    and fields: "bp_provider parts = p" "bp_sentinel parts = s" "bp_submitter parts = b" "bp_database_url parts = d"
    using assms(1) unfolding run_stratum_server_def result_bind_eq_Inr
    by (elim exE conjE) (simp add: eq_commute [of _ parts] del: bridge_parts.splits)
  note mode = live_mode [OF assms(3)]
  obtain node_url address where config: "live_template_config env files = Inr (node_url, address)"
    and p: "p = LiveProvider node_url address (stateless_parallel env)"
    using parts(1) assms(2,3) mode(2)
    by (auto simp: template_provider_from_env_def coalesce_def result_bind_eq_Inr split: if_splits)
  obtain submitter where b: "b = Some submitter" "submitter_sound fs node_url submitter"
    "(\<exists>p. submitter = ParallelNodes p) \<longleftrightarrow> stateless_parallel env"
    "\<not> env_flag_enabled (env ''CSD_POOL_PARALLEL_CANDIDATE_SUBMIT_ENABLED'')"
    using live_submitter_sound [OF parts(3) assms(2,3) config] by blast
  have "d = database_url_from_env env files \<and> d \<noteq> None"
    using parts(4) assms(2,3) mode(1)
    by (auto simp: mining_repository_url_def require_persistent_database_def persistent_database_required_def split: if_splits)
  then have d: "d \<notin> {None, Some []}"
    by (auto simp: database_url_from_env_def nonempty_env_def split: option.splits if_splits)
  have "case s of None \<Rightarrow> True | Some s \<Rightarrow> sentinel_sound env node_url s"
    using live_sentinel_sound [OF _ config] parts(2) by (cases s) auto
  with fields p b d live_config_address [OF config] show ?thesis by auto
qed

definition sample_env :: environment where
  "sample_env = map_of [(''CSD_POOL_TEMPLATE_MODE'', ''Live''), (''CSD_POOL_NODE_URL'', ''http://a:1''),
     (''CSD_POOL_MINING_ADDRESS'', ''0123456789abcdef0123456789abcdef01234567''),
     (''CSD_POOL_SUBMIT_CANDIDATES'', '' TRUE''), (''CSD_POOL_DATABASE_URL'', ''postgres://db''),
     (''CSD_POOL_STATELESS_PARALLEL_CANDIDATE_SUBMIT_ENABLED'', ''1''),
     (''CSD_POOL_SECONDARY_SUBMIT_NODE_URL'', ''http://b:1''),
     (''CSD_POOL_STATELESS_PARALLEL_CANDIDATE_MODE'', ''continuous_bounded''),
     (''CSD_POOL_STATELESS_PARALLEL_CANDIDATE_STATE_DIR'', ''/var/lib/pool'')]"

definition sample_files :: config_files where
  "sample_files _ = Inl (ConfigIo ''none'')"

definition sample_fs :: file_system where
  "sample_fs = \<lparr>fy_stat = (\<lambda>_. Inr \<lparr>fm_is_dir = True, fm_is_file = False, fm_is_symlink = False, fm_mode = 448, fm_len = 0\<rparr>),
     fy_read = (\<lambda>_. Inl ''none'')\<rparr>"

lemma vardiff_from_env_starts:
  assumes "f_exact (env_f64 env ''CSD_POOL_MIN_DIFFICULTY'' (Fin 8))"
    and "f_exact (env_f64 env ''CSD_POOL_MAX_DIFFICULTY'' (Fin 512))" and "env ''CSD_POOL_CONFIG'' = None"
  shows "\<exists>v. vardiff_config_from_env env files = Inr v"
proof -
  have "\<exists>v. normalized (vardiff_env_values env) = Some v"
    using normalized_ok [of "vardiff_env_values env"] assms(1,2) by (auto simp: vardiff_env_values_def)
  then show ?thesis by (auto simp: vardiff_config_from_env_def assms(3))
qed

lemma sample_bridge_starts: "\<exists>parts. run_stratum_server (\<lambda>_. Inr ()) sample_env sample_files sample_fs = Inr parts"
proof -
  have "\<exists>p. template_provider_from_env sample_env sample_files = Inr p"
    by (rule exI [of _ "LiveProvider ''http://a:1'' ''0123456789abcdef0123456789abcdef01234567'' True"]) code_simp
  moreover have "tip_sentinel_from_env (\<lambda>_. Inr ()) sample_env sample_files sample_fs = Inr None"
    by (simp add: tip_sentinel_from_env_def sample_env_def env_flag_enabled_def)
  moreover have "case block_submitter_from_env sample_env sample_files sample_fs of Inr _ \<Rightarrow> True | Inl _ \<Rightarrow> False"
    by code_simp
  then have "\<exists>b. block_submitter_from_env sample_env sample_files sample_fs = Inr b" by (auto split: sum.splits)
  moreover have "\<exists>d. mining_repository_url sample_env sample_files = Inr d"
    by (rule exI [of _ "Some ''postgres://db''"]) code_simp
  moreover have "sample_env ''CSD_POOL_CONFIG'' = None" by (simp add: sample_env_def)
  moreover from this have "\<exists>a. abuse_config_from_env sample_env sample_files = Inr a" by (simp add: abuse_config_from_env_def)
  moreover have "f_exact (Fin 8)" "f_exact (Fin 512)"
    using fround_int_exact [of 8] fround_int_exact [of 512] by (simp_all add: f_exact_def)
  then have "\<exists>v. vardiff_config_from_env sample_env sample_files = Inr v"
    by (intro vardiff_from_env_starts) (simp_all add: env_f64_def sample_env_def coalesce_def)
  ultimately show ?thesis by (auto simp: run_stratum_server_def result_bind_eq_Inr)
qed

theorem live_bridge_wired_witness:
  "\<exists>parts submitter. run_stratum_server (\<lambda>_. Inr ()) sample_env sample_files sample_fs = Inr parts
    \<and> bp_submitter parts = Some submitter \<and> (\<exists>p. submitter = ParallelNodes p)"
proof -
  obtain parts where start: "run_stratum_server (\<lambda>_. Inr ()) sample_env sample_files sample_fs = Inr parts"
    using sample_bridge_starts by blast
  have mode: "sample_env ''CSD_POOL_TEMPLATE_MODE'' = Some ''Live''" by (simp add: sample_env_def)
  have live: "eq_ignore_ascii_case ''Live'' ''live''" and "stateless_parallel sample_env" by code_simp+
  with live_bridge_wired [OF start mode live] start show ?thesis by blast
qed

end
