(* ===== verification/Csd_Operator.thy ===== *)
theory Csd_Operator
  imports Csd_Settings Csd_Runs Csd_Alerts
begin

text \<open>
  Crate \<open>csd-pool-api\<close>: the routes of the operator, from the check of the token to the tables they
  read and change, the payout preview, and the exported CSV files (with the one of the workers). The
  theorems: no request without the token of the operator is served or changes anything; a served
  request is a step of the pool's jobs and leaves an audit event; the preview says what the payout job
  will do; and the exports can be read back.
\<close>

section \<open>Errors and authorization\<close>

text \<open>\<open>ApiRepository None\<close> is an error the database itself reports.\<close>

datatype api_error =
  ApiInvalidAddress | ApiInvalidAmount string | ApiRepository "db_error option" | RepositoryRequired | ApiUnauthorized

fun error_response :: "api_error \<Rightarrow> nat \<times> string \<times> string" where
  "error_response ApiInvalidAddress = (400, ''invalid_address'', ''address must be 40 hex chars'')"
| "error_response (ApiRepository _) = (500, ''repository_error'', ''failed to read pool database'')"
| "error_response (ApiInvalidAmount _) = (500, ''invalid_amount'', ''invalid configured CSD amount'')"
| "error_response RepositoryRequired = (503, ''repository_required'', ''operator endpoint requires PostgreSQL'')"
| "error_response ApiUnauthorized = (401, ''unauthorized'', ''operator token is missing or invalid'')"

definition operator_token :: "environment \<Rightarrow> config_files \<Rightarrow> string option" where
  "operator_token env files =
     nonempty_env env (case env ''CSD_POOL_CONFIG'' of
        Some path \<Rightarrow> (case files path of
            Inr config \<Rightarrow> ca_operator_token_env (cf_api config) | Inl _ \<Rightarrow> ''CSD_POOL_OPERATOR_TOKEN'')
      | None \<Rightarrow> ''CSD_POOL_OPERATOR_TOKEN'')"

text \<open>The authorization header: absent, not visible ASCII (\<open>to_str\<close> fails), or a text.\<close>

type_synonym header = "string option option"

definition authorize_operator :: "environment \<Rightarrow> config_files \<Rightarrow> header \<Rightarrow> api_error + unit" where
  "authorize_operator env files header =
     (case operator_token env files of
        None \<Rightarrow> Inl ApiUnauthorized
      | Some expected \<Rightarrow> (case header of
          None \<Rightarrow> Inl ApiUnauthorized
        | Some None \<Rightarrow> Inl ApiUnauthorized
        | Some (Some value) \<Rightarrow>
            if (case strip_prefix ''Bearer '' value of
                  Some actual \<Rightarrow> constant_time_eq (map of_char actual) (map of_char expected)
                | None \<Rightarrow> False)
            then Inr () else Inl ApiUnauthorized))"

section \<open>Amounts\<close>

definition format_csd :: "u128 \<Rightarrow> string" where
  "format_csd base_units =
     decimal_digits (unat (base_units div 100000000)) @ ''.'' @ pad_left 8 (decimal_digits (unat (base_units mod 100000000)))"

definition configured_amount ::
  "environment \<Rightarrow> config_files \<Rightarrow> (pool_section \<Rightarrow> string) \<Rightarrow> string \<Rightarrow> string \<Rightarrow> api_error + u128" where
  "configured_amount env files field name dflt =
     (case parse_csd_base_units (case env ''CSD_POOL_CONFIG'' of
          Some path \<Rightarrow> (case files path of Inr config \<Rightarrow> field (cf_pool config) | Inl _ \<Rightarrow> dflt)
        | None \<Rightarrow> coalesce (env name) dflt) of
        Inr amount \<Rightarrow> Inr amount
      | Inl (worker_error.InvalidAmount value) \<Rightarrow> Inl (ApiInvalidAmount value))"

definition minimum_payout_base_units :: "environment \<Rightarrow> config_files \<Rightarrow> api_error + u128" where
  "minimum_payout_base_units env files =
     configured_amount env files cp_minimum_payout_csd ''CSD_POOL_MINIMUM_PAYOUT_CSD'' ''1.0''"

definition max_payout_batch_base_units :: "environment \<Rightarrow> config_files \<Rightarrow> api_error + u128" where
  "max_payout_batch_base_units env files =
     configured_amount env files cp_max_payout_batch_csd ''CSD_POOL_MAX_PAYOUT_BATCH_CSD'' ''1000.0''"

definition max_daily_payout_base_units :: "environment \<Rightarrow> config_files \<Rightarrow> api_error + u128" where
  "max_daily_payout_base_units env files =
     configured_amount env files cp_max_daily_payout_csd ''CSD_POOL_MAX_DAILY_PAYOUT_CSD'' ''5000.0''"

definition manual_payout_approval_base_units :: "environment \<Rightarrow> config_files \<Rightarrow> api_error + u128" where
  "manual_payout_approval_base_units env files =
     configured_amount env files cp_manual_payout_approval_csd ''CSD_POOL_MANUAL_PAYOUT_APPROVAL_CSD'' ''250.0''"

definition payout_preview_recipient_limit :: "environment \<Rightarrow> nat" where
  "payout_preview_recipient_limit env =
     coalesce (Option.bind (env ''CSD_POOL_PAYOUT_PREVIEW_LIMIT'') (parse_uint 10 (2 ^ 64))) 100"

section \<open>Answers\<close>

record recipient_response =
  rr_miner :: string
  rr_address :: string
  rr_amount_base_units :: string
  rr_amount_csd :: string

definition operator_payout_recipient_response :: "payout_recipient \<Rightarrow> recipient_response" where
  "operator_payout_recipient_response r = \<lparr>rr_miner = rc_miner r, rr_address = rc_address r,
     rr_amount_base_units = u128_text (rc_amount_base_units r), rr_amount_csd = format_csd (rc_amount_base_units r)\<rparr>"

record batch_response =
  ba_batch_id :: string
  ba_status :: string
  ba_total_base_units :: string
  ba_total_csd :: string
  ba_txid :: "string option"
  ba_raw_tx_hash :: "string option"
  ba_recipients :: "recipient_response list"

definition operator_payout_batch_response :: "payout_batch_record \<Rightarrow> batch_response" where
  "operator_payout_batch_response b = \<lparr>ba_batch_id = pr_batch_id b, ba_status = pr_status b,
     ba_total_base_units = u128_text (pr_total_base_units b), ba_total_csd = format_csd (pr_total_base_units b),
     ba_txid = pr_txid b, ba_raw_tx_hash = pr_raw_tx_hash b,
     ba_recipients = map operator_payout_recipient_response (pr_recipients b)\<rparr>"

record preview_response =
  op_minimum_payout :: "string \<times> string"
  op_max_payout_batch :: "string \<times> string"
  op_max_daily_payout :: "string \<times> string"
  op_manual_payout_approval :: "string \<times> string"
  op_daily_payout_used :: "string \<times> string"
  op_daily_remaining :: "string \<times> string"
  op_recipient_count :: nat
  op_total :: "string \<times> string"
  op_would_create_batch :: bool
  op_cap_exceeded :: bool
  op_daily_cap_exceeded :: bool
  op_manual_approval_required :: bool
  op_recipients :: "recipient_response list"

text \<open>An amount is answered twice, in base units and in CSD.\<close>

definition amount_texts :: "u128 \<Rightarrow> string \<times> string" where
  "amount_texts n = (u128_text n, format_csd n)"

definition operator_payout_preview_response ::
  "u128 \<Rightarrow> u128 \<Rightarrow> u128 \<Rightarrow> u128 \<Rightarrow> u128 \<Rightarrow> payout_selection \<Rightarrow> preview_response" where
  "operator_payout_preview_response minimum_payout max_batch max_daily manual_approval used selection =
     (let cap_exceeded = (max_batch < ps_total_base_units selection);
          daily_cap_exceeded = (max_daily < sat_add used (ps_total_base_units selection));
          manual_approval_required = (manual_approval < ps_total_base_units selection)
      in \<lparr>op_minimum_payout = amount_texts minimum_payout, op_max_payout_batch = amount_texts max_batch,
          op_max_daily_payout = amount_texts max_daily, op_manual_payout_approval = amount_texts manual_approval,
          op_daily_payout_used = amount_texts used, op_daily_remaining = amount_texts (sat_sub max_daily used),
          op_recipient_count = length (ps_recipients selection), op_total = amount_texts (ps_total_base_units selection),
          op_would_create_batch = (ps_recipients selection \<noteq> [] \<and> \<not> cap_exceeded \<and> \<not> daily_cap_exceeded
            \<and> \<not> manual_approval_required),
          op_cap_exceeded = cap_exceeded, op_daily_cap_exceeded = daily_cap_exceeded,
          op_manual_approval_required = manual_approval_required,
          op_recipients = map operator_payout_recipient_response (ps_recipients selection)\<rparr>)"

definition lift_db :: "db_error + 'a \<Rightarrow> api_error + 'a" where
  "lift_db r = (case r of Inl e \<Rightarrow> Inl (ApiRepository (Some e)) | Inr x \<Rightarrow> Inr x)"

definition operator_payout_preview ::
  "environment \<Rightarrow> config_files \<Rightarrow> nat \<Rightarrow> pool_db \<Rightarrow> api_error + preview_response" where
  "operator_payout_preview env files midnight db =
     result_bind (minimum_payout_base_units env files) (\<lambda>minimum_payout.
     result_bind (lift_db (list_payable_balances minimum_payout 1000 db)) (\<lambda>balances.
     let selection = select_payouts balances minimum_payout (payout_preview_recipient_limit env) in
     result_bind (max_payout_batch_base_units env files) (\<lambda>max_batch.
     result_bind (max_daily_payout_base_units env files) (\<lambda>max_daily.
     result_bind (manual_payout_approval_base_units env files) (\<lambda>manual_approval.
     result_bind (lift_db (active_payout_total_today midnight db)) (\<lambda>used.
     Inr (operator_payout_preview_response minimum_payout max_batch max_daily manual_approval used selection)))))))"

section \<open>Exports\<close>

definition newline :: char where "newline = char_of (10 :: nat)"

definition csv_line :: "string list \<Rightarrow> string" where
  "csv_line cells = join_cells cells @ [newline]"

definition payout_row_cells :: "payout_batch_record \<Rightarrow> payout_recipient \<Rightarrow> string list" where
  "payout_row_cells b r =
     [csv_cell (pr_batch_id b), csv_cell (pr_status b), csv_cell (coalesce (pr_txid b) []), csv_cell (rc_address r),
      u128_text (rc_amount_base_units r), format_csd (rc_amount_base_units r), u128_text (pr_total_base_units b),
      format_csd (pr_total_base_units b)]"

definition payout_batches_csv :: "payout_batch_record list \<Rightarrow> string" where
  "payout_batches_csv batches =
     ''batch_id,status,txid,recipient,amount_base_units,amount_csd,total_base_units,total_csd'' @ [newline]
       @ concat (map (\<lambda>b. concat (map (\<lambda>r. csv_line (payout_row_cells b r)) (pr_recipients b))) batches)"

text \<open>An audit event comes with the time the database gave it; \<open>json_text\<close> prints its details.\<close>

definition payout_audit_events_csv :: "(json \<Rightarrow> string) \<Rightarrow> (string option \<times> payout_audit_event) list \<Rightarrow> string" where
  "payout_audit_events_csv json_text events =
     ''created_at,batch_id,actor,action,details_json'' @ [newline]
       @ concat (map (\<lambda>(created_at, e). csv_line [csv_cell (coalesce created_at []), csv_cell (pa_batch_id e),
           csv_cell (pa_actor e), csv_cell (pa_action e), csv_cell (json_text (pa_details e))]) events)"

section \<open>Requests\<close>

text \<open>
  The repository as the operator sees it; \<open>oc_created\<close> is the time of the audit event with a given id,
  and later events have later times.
\<close>

record operator_state =
  os_db :: pool_db
  os_alerts :: "alert_row list"

record operator_clock =
  oc_now :: nat
  oc_midnight :: nat
  oc_millis :: nat
  oc_created :: "nat \<Rightarrow> string"

definition shown_statuses :: "string list" where
  "shown_statuses = [''needs_approval'', ''created'', ''signed'', ''submitted'', ''confirmed'', ''failed'', ''cancelled'']"

definition list_payout_audit_events ::
  "(nat \<Rightarrow> string) \<Rightarrow> string option \<Rightarrow> nat \<Rightarrow> pool_db \<Rightarrow> (string option \<times> payout_audit_event) list" where
  "list_payout_audit_events created batch_id limit db =
     take limit (map (\<lambda>(i, e). (Some (created i), e))
       (rev (filter (\<lambda>(_, e). batch_id = None \<or> Some (pa_batch_id e) = batch_id) (List.enumerate 0 (db_audit db)))))"

datatype operator_request =
  PayoutStatus | ListPayouts | PayoutExport | PayoutPreview
| PayoutAudit "string option" "int option" | PayoutAuditExport "string option" "int option"
| ListAlerts "string option" "int option" | ResolveAlert string
| PausePayouts | ResumePayouts | RetryPayout string | ApprovePayout string | CancelPayout string "string option"

datatype operator_answer =
  AnswerStatus bool | AnswerBatches "batch_response list" | AnswerCsv string | AnswerPreview preview_response
| AnswerAudit "(string option \<times> payout_audit_event) list" | AnswerAlerts "alert_row list" | AnswerResolved bool
| AnswerRetried string "batch_response option" | AnswerApproved bool | AnswerCancelled "batch_response option"

definition clamp_int :: "int \<Rightarrow> int \<Rightarrow> int \<Rightarrow> nat" where
  "clamp_int lo hi x = nat (max lo (min hi x))"

definition operator_alerts :: "string option \<Rightarrow> int option \<Rightarrow> alert_row list \<Rightarrow> api_error + operator_answer" where
  "operator_alerts status limit rows =
     (let n = min (coalesce limit 100) 500 in
      if n < 0 then Inl (ApiRepository None) else Inr (AnswerAlerts (list_alerts status (nat n) rows)))"

definition run_answer :: "('a \<Rightarrow> operator_answer) \<Rightarrow> 'a run \<Rightarrow> pool_db \<times> (api_error + operator_answer)" where
  "run_answer f r = (case r of
     (db, Inr x) \<Rightarrow> (db, Inr (f x))
   | (db, Inl (RunDbError e)) \<Rightarrow> (db, Inl (ApiRepository (Some e)))
   | (db, Inl _) \<Rightarrow> (db, Inl (ApiRepository None)))"

text \<open>A request on the tables of the pool, and one that reads them.\<close>

definition on_db :: "operator_state \<Rightarrow> pool_db \<times> 'r \<Rightarrow> operator_state \<times> 'r" where
  "on_db st r = (st\<lparr>os_db := fst r\<rparr>, snd r)"

definition serve_request ::
  "(json \<Rightarrow> string) \<Rightarrow> environment \<Rightarrow> config_files \<Rightarrow> operator_clock \<Rightarrow> operator_request \<Rightarrow> operator_state
    \<Rightarrow> operator_state \<times> (api_error + operator_answer)" where
  "serve_request json_text env files clk request st =
     (let db = os_db st in
      case request of
        PayoutStatus \<Rightarrow> (st, Inr (AnswerStatus (payouts_enabled db)))
      | ListPayouts \<Rightarrow> (st, result_bind (lift_db (list_payout_batches_by_status shown_statuses 100 db))
          (\<lambda>bs. Inr (AnswerBatches (map operator_payout_batch_response bs))))
      | PayoutExport \<Rightarrow> (st, result_bind (lift_db (list_payout_batches_by_status shown_statuses 1000 db))
          (\<lambda>bs. Inr (AnswerCsv (payout_batches_csv bs))))
      | PayoutPreview \<Rightarrow> (st, result_bind (operator_payout_preview env files (oc_midnight clk) db)
          (\<lambda>p. Inr (AnswerPreview p)))
      | PayoutAudit batch_id limit \<Rightarrow> (st, Inr (AnswerAudit
          (list_payout_audit_events (oc_created clk) batch_id (clamp_int 1 200 (coalesce limit 50)) db)))
      | PayoutAuditExport batch_id limit \<Rightarrow> (st, Inr (AnswerCsv (payout_audit_events_csv json_text
          (list_payout_audit_events (oc_created clk) batch_id (clamp_int 1 10000 (coalesce limit 1000)) db))))
      | ListAlerts status limit \<Rightarrow> (st, operator_alerts status limit (os_alerts st))
      | ResolveAlert fingerprint \<Rightarrow> (let (rows, resolved) = resolve_alert (oc_now clk) fingerprint (os_alerts st) in
          (st\<lparr>os_alerts := rows\<rparr>, Inr (AnswerResolved resolved)))
      | PausePayouts \<Rightarrow> on_db st (operator_pause_payouts db, Inr (AnswerStatus False))
      | ResumePayouts \<Rightarrow> on_db st (operator_resume_payouts db, Inr (AnswerStatus True))
      | RetryPayout batch_id \<Rightarrow> on_db st (run_answer
          (\<lambda>b. AnswerRetried (retry_batch_id batch_id (oc_millis clk)) (map_option operator_payout_batch_response b))
          (operator_retry_payout (oc_now clk) (oc_millis clk) batch_id db))
      | ApprovePayout batch_id \<Rightarrow> on_db st (let (db', approved) = operator_approve_payout batch_id db in
          (db', Inr (AnswerApproved approved)))
      | CancelPayout batch_id reason \<Rightarrow> on_db st (run_answer
          (\<lambda>b. AnswerCancelled (map_option operator_payout_batch_response b))
          (operator_cancel_payout batch_id reason db)))"

text \<open>Every handler first asks for the token, then for the repository.\<close>

definition operator_route ::
  "(json \<Rightarrow> string) \<Rightarrow> environment \<Rightarrow> config_files \<Rightarrow> operator_clock \<Rightarrow> header \<Rightarrow> operator_request
    \<Rightarrow> operator_state option \<Rightarrow> operator_state option \<times> (api_error + operator_answer)" where
  "operator_route json_text env files clk header request repository =
     (case authorize_operator env files header of
        Inl e \<Rightarrow> (repository, Inl e)
      | Inr _ \<Rightarrow> (case repository of
          None \<Rightarrow> (None, Inl RepositoryRequired)
        | Some st \<Rightarrow> (let (st', r) = serve_request json_text env files clk request st in (Some st', r))))"

section \<open>No request without the token\<close>

lemma of_char_u8_inj: "(of_char c :: 8 word) = of_char d \<longleftrightarrow> c = d"
proof
  assume eq: "(of_char c :: 8 word) = of_char d"
  have bits: "bit (of_char x :: 8 word) n \<longleftrightarrow> n < 8 \<and> [digit0 x, digit1 x, digit2 x, digit3 x, digit4 x, digit5 x, digit6 x, digit7 x] ! n"
    for x n unfolding of_char_def bit_horner_sum_bit_iff by (simp only: possible_bit_word length_Cons list.size) (simp add: numeral_eq_Suc)
  have same: "n < 8 \<Longrightarrow> [digit0 c, digit1 c, digit2 c, digit3 c, digit4 c, digit5 c, digit6 c, digit7 c] ! n
      = [digit0 d, digit1 d, digit2 d, digit3 d, digit4 d, digit5 d, digit6 d, digit7 d] ! n" for n
    using bits [of c n] bits [of d n] eq by simp
  show "c = d"
    by (rule char.expand) (use same [of 0] same [of 1] same [of 2] same [of 3] same [of 4] same [of 5] same [of 6] same [of 7] in simp)
qed simp

lemma text_bytes_eq: "map of_char s = (map of_char t :: bytes) \<longleftrightarrow> s = t"
  by (rule inj_map_eq_map) (simp add: inj_def of_char_u8_inj)

lemma authorize_operator_eq:
  "authorize_operator env files header =
     (if \<exists>token. operator_token env files = Some token \<and> header = Some (Some (''Bearer '' @ token))
      then Inr () else Inl ApiUnauthorized)"
proof -
  have "(case strip_prefix p v of
           Some actual \<Rightarrow> constant_time_eq (map of_char actual) (map of_char expected) | None \<Rightarrow> False)
      \<longleftrightarrow> v = p @ expected" for p v expected
    using take_drop_eq [OF refl, of p v expected]
    by (auto simp: strip_prefix_def constant_time_eq_iff text_bytes_eq)
  then show ?thesis
    by (auto simp: authorize_operator_def split: option.splits)
qed

section \<open>What a served request does\<close>

definition operator_step :: "pool_db \<Rightarrow> pool_db \<Rightarrow> bool" where
  "operator_step db db' \<longleftrightarrow> db' = db
     \<or> job_step db db' \<and> (\<exists>e. db_audit db' = db_audit db @ [e] \<and> pa_actor e = ''operator'')"

lemma append_ledger_audit [simp]: "db_audit (append_ledger_entries entries db) = db_audit db"
proof -
  have "db_audit (append_row r d) = db_audit d" for r d by (simp add: append_row_def Let_def)
  then show ?thesis unfolding append_ledger_entries_def by (induction entries arbitrary: db) simp_all
qed

lemma lock_recipients_keeps:
  "lock_recipients i ins rs db = Inr db' \<Longrightarrow> db_batches db' = db_batches db \<and> db_audit db' = db_audit db"
proof (induction i ins rs db rule: lock_recipients.induct)
  case (2 i ins r rs db)
  then show ?case by (force simp: Let_def split: if_splits option.splits)
qed simp

lemma audit_step: "db_audit (audit i ''operator'' action details db) = db_audit db @ [\<lparr>pa_batch_id = i,
    pa_actor = ''operator'', pa_action = action, pa_details = details\<rparr>]"
  by (simp add: audit_def append_payout_audit_event_def)

lemma operator_pause_step: "operator_step db (operator_pause_payouts db)" "operator_step db (operator_resume_payouts db)"
  using job_step.intros(10,11) [of db]
  by (simp_all add: operator_step_def operator_pause_payouts_def operator_resume_payouts_def audit_step
      set_payouts_enabled_def)

lemma update_batch_False: "update_batch i ss f db = (db', False) \<Longrightarrow> db' = db"
  by (auto simp: update_batch_def list_ex_iff intro!: pool_db.equality map_idI)

lemma operator_approve_step: "operator_step db (fst (operator_approve_payout i db))"
proof -
  obtain db' ok where up: "mark_payout_approved i db = (db', ok)" by (cases "mark_payout_approved i db")
  have "db_audit db' = db_audit db" using up by (auto simp: mark_payout_approved_def update_batch_def)
  moreover have "\<not> ok \<Longrightarrow> db' = db" using up update_batch_False by (simp add: mark_payout_approved_def)
  ultimately show ?thesis
    using job_step.intros(12) [of db i] up
    by (cases ok) (simp_all add: operator_step_def operator_approve_payout_def audit_step)
qed

lemma operator_cancel_step: "operator_step db (fst (operator_cancel_payout i reason db))"
proof (cases "cancel_payout i (coalesce reason ''operator cancelled payout'') db")
  case (Inl e)
  then show ?thesis by (simp add: operator_cancel_payout_def operator_step_def run_query_def Let_def)
next
  case (Inr r)
  obtain db' b where r: "r = (db', b)" by (cases r)
  let ?ss = "[''needs_approval'', ''created'', ''signed'']"
  obtain found where found: "payout_batch_by_id_and_statuses i ?ss db = Inr found"
    using Inr unfolding cancel_payout_def result_bind_eq_Inr by blast
  have "db_audit db' = db_audit db \<and> (b = None \<longrightarrow> db' = db)"
  proof (cases found)
    case None
    then show ?thesis using Inr r found by (simp add: cancel_payout_def result_bind_def)
  next
    case (Some batch)
    let ?f = "\<lambda>b. b\<lparr>pb_status := ''cancelled'', pb_failure_reason := Some (coalesce reason ''operator cancelled payout'')\<rparr>"
    obtain d ok where up: "update_batch i ?ss ?f db = (d, ok)" by (cases "update_batch i ?ss ?f db")
    have "db_audit d = db_audit db" using up by (auto simp: update_batch_def)
    moreover have "\<not> ok \<Longrightarrow> d = db" using update_batch_False up by simp
    ultimately show ?thesis
      using Inr r found Some up
      by (auto simp: cancel_payout_def result_bind_def unlock_failed_payout_def Let_def split: if_splits)
  qed
  then show ?thesis
    using job_step.intros(13) [of db i reason] Inr r
    by (cases b) (auto simp: operator_cancel_payout_def operator_step_def run_query_def Let_def audit_step)
qed

lemma find_last: "P x \<Longrightarrow> \<exists>y. find P (xs @ [x]) = Some y"
  by (induction xs) auto

lemma operator_retry_step: "operator_step db (fst (operator_retry_payout now millis i db))"
proof (cases "retry_failed_payout now i (retry_batch_id i millis) db")
  case (Inl e)
  then show ?thesis by (simp add: operator_retry_payout_def operator_step_def run_query_def Let_def)
next
  case (Inr r)
  obtain db' b where r: "r = (db', b)" by (cases r)
  have created: "create_locked_payout_batch now d db = Inr (d', True) \<Longrightarrow> db_audit d' = db_audit db
      \<and> (\<exists>row. find (\<lambda>b. pb_id b = pd_batch_id d \<and> pb_status b \<in> set [''created'']) (db_batches d') = Some row)" for d d'
    by (auto simp: create_locked_payout_batch_def create_locked_payout_batch_with_status_def result_bind_eq_Inr
        intro!: find_last dest!: lock_recipients_keeps split: if_splits)
  have refused: "create_locked_payout_batch now d db = Inr (d', False) \<Longrightarrow> d' = db" for d d'
    by (auto simp: create_locked_payout_batch_def create_locked_payout_batch_with_status_def result_bind_eq_Inr split: if_splits)
  obtain found where found: "payout_batch_by_id_and_statuses i [''failed'', ''cancelled''] db = Inr found"
    using Inr unfolding retry_failed_payout_def result_bind_eq_Inr by blast
  have "db_audit db' = db_audit db \<and> (b = None \<longrightarrow> db' = db)"
  proof (cases found)
    case None
    then show ?thesis using Inr r found by (simp add: retry_failed_payout_def result_bind_def)
  next
    case (Some original)
    let ?i = "retry_batch_id i millis"
    let ?d = "\<lparr>pd_batch_id = ?i, pd_recipients = pr_recipients original,
                pd_total_base_units = pr_total_base_units original, pd_lock_entries = []\<rparr>"
    obtain d' ok where d': "create_locked_payout_batch now ?d db = Inr (d', ok)"
      and rest: "(if \<not> ok then Inr (d', None)
         else result_bind (payout_batch_by_id_and_statuses ?i [''created''] d') (\<lambda>r. Inr (d', r))) = Inr (db', b)"
      using Inr r found Some by (auto simp: retry_failed_payout_def result_bind_eq_Inr)
    show ?thesis
    proof (cases ok)
      case True
      obtain row where "db_audit d' = db_audit db"
        and row: "find (\<lambda>b. pb_id b = ?i \<and> pb_status b \<in> set [''created'']) (db_batches d') = Some row"
        using created [of ?d d'] d' True by auto
      moreover have "db' = d' \<and> b \<noteq> None"
        using rest True by (auto simp: payout_batch_by_id_and_statuses_def row result_bind_eq_Inr simp del: list.set)
      ultimately show ?thesis by auto
    next
      case False
      then show ?thesis using rest refused d' by auto
    qed
  qed
  then show ?thesis
    using job_step.intros(14) [of db now millis i] Inr r
    by (cases b) (auto simp: operator_retry_payout_def operator_step_def run_query_def Let_def audit_step)
qed

lemma run_answer_fst: "fst (run_answer f r) = fst r"
  by (simp add: run_answer_def split: prod.split sum.split run_error.split)

lemma serve_request_step:
  "operator_step (os_db st) (os_db (fst (serve_request json_text env files clk request st)))"
proof -
  have "operator_step db db" for db by (simp add: operator_step_def)
  then show ?thesis
    by (cases request) (simp_all add: serve_request_def on_db_def run_answer_fst Let_def split_beta
        operator_pause_step operator_approve_step operator_cancel_step operator_retry_step)
qed

lemma serve_request_alerts:
  "os_alerts (fst (serve_request json_text env files clk request st)) =
     (case request of ResolveAlert f \<Rightarrow> fst (resolve_alert (oc_now clk) f (os_alerts st)) | _ \<Rightarrow> os_alerts st)"
  by (cases request) (simp_all add: serve_request_def on_db_def Let_def split_beta)

definition one_audit :: "pool_db \<Rightarrow> pool_db \<Rightarrow> bool" where
  "one_audit db db' \<longleftrightarrow> (\<exists>e. db_audit db' = db_audit db @ [e] \<and> pa_actor e = ''operator'')"

text \<open>
  C11. The routes of the operator are guarded: a request without the configured token, exactly after
  "Bearer ", is answered with Unauthorized and changes nothing, and without a configured token every
  request is. A request that is served either leaves the tables of the pool as they are or does one
  step of the pool's jobs, so that it keeps what those keep, and records it as the operator's; of the
  alerts it changes at most the one it resolves.
\<close>

theorem operator_route_guarded:
  assumes "operator_route json_text env files clk header request (Some st) = (repository, answer)"
  shows "\<exists>st'. repository = Some st'
    \<and> (if \<exists>token. token \<noteq> [] \<and> operator_token env files = Some token \<and> header = Some (Some (''Bearer '' @ token))
       then (os_db st' = os_db st \<or> job_step (os_db st) (os_db st') \<and> one_audit (os_db st) (os_db st'))
         \<and> (pool_reachable (os_db st) \<longrightarrow> pool_reachable (os_db st'))
         \<and> os_alerts st' = (case request of ResolveAlert f \<Rightarrow> fst (resolve_alert (oc_now clk) f (os_alerts st)) | _ \<Rightarrow> os_alerts st)
       else st' = st \<and> answer = Inl ApiUnauthorized)"
proof -
  let ?ok = "\<exists>token. operator_token env files = Some token \<and> header = Some (Some (''Bearer '' @ token))"
  have token: "operator_token env files = Some token \<Longrightarrow> token \<noteq> []" for token
    by (auto simp: operator_token_def nonempty_env_def split: option.splits if_splits)
  then have ok: "?ok \<longleftrightarrow> (\<exists>token. token \<noteq> [] \<and> operator_token env files = Some token \<and> header = Some (Some (''Bearer '' @ token)))"
    by blast
  show ?thesis
  proof (cases ?ok)
    case True
    obtain st' where st': "serve_request json_text env files clk request st = (st', answer)" "repository = Some st'"
      using assms True by (auto simp: operator_route_def authorize_operator_eq split: prod.splits)
    have step: "os_db st' = os_db st \<or> job_step (os_db st) (os_db st') \<and> one_audit (os_db st) (os_db st')"
      using serve_request_step [of st json_text env files clk request] st'(1)
      by (simp add: operator_step_def one_audit_def)
    then have "pool_reachable (os_db st) \<longrightarrow> pool_reachable (os_db st')" by (auto intro: pool_reachable.intros)
    with step show ?thesis
      using True ok st' serve_request_alerts [of json_text env files clk request st] by simp
  next
    case False
    then show ?thesis
      using assms ok by (auto simp: operator_route_def authorize_operator_eq simp del: not_ex)
  qed
qed

section \<open>The preview and the payout job\<close>

lemma locked_row:
  assumes "create_locked_payout_batch_with_status now d status db = Inr (db', ok)" and "pd_batch_id d \<notin> pb_id ` set (db_batches db)"
  shows "ok \<and> (\<exists>b \<in> set (db_batches db'). pb_id b = pd_batch_id d \<and> pb_status b = status
    \<and> pb_recipients b = pd_recipients d \<and> pb_total_base_units b = uint (pd_total_base_units d))"
proof -
  have "\<not> list_ex (\<lambda>b. pb_id b = pd_batch_id d) (db_batches db)" using assms(2) by (auto simp: list_ex_iff image_iff)
  then show ?thesis
    using assms(1) by (auto simp: create_locked_payout_batch_with_status_def result_bind_eq_Inr dest!: lock_recipients_keeps)
qed

lemma audit_batches [simp]: "db_batches (audit i actor action details db) = db_batches db"
  by (simp add: audit_def append_payout_audit_event_def)

lemma batch_created:
  "create_for_signing now used d db = (db', Inr run) \<Longrightarrow> pd_batch_id d \<notin> pb_id ` set (db_batches db) \<Longrightarrow>
     cp_created run \<and> cp_skipped_reason run = None \<and> cp_total_base_units run = pd_total_base_units d
     \<and> cp_selected_recipients run = length (pd_recipients d)
     \<and> (\<exists>b \<in> set (db_batches db'). pb_id b = pd_batch_id d \<and> pb_status b = ''created''
       \<and> pb_recipients b = pd_recipients d \<and> pb_total_base_units b = uint (pd_total_base_units d))"
  "create_for_approval now cfg used d db = (db', Inr run) \<Longrightarrow> pd_batch_id d \<notin> pb_id ` set (db_batches db) \<Longrightarrow>
     cp_created run \<and> cp_skipped_reason run = Some ''manual payout approval required before signing''
     \<and> cp_total_base_units run = pd_total_base_units d \<and> cp_selected_recipients run = length (pd_recipients d)
     \<and> (\<exists>b \<in> set (db_batches db'). pb_id b = pd_batch_id d \<and> pb_status b = ''needs_approval''
       \<and> pb_recipients b = pd_recipients d \<and> pb_total_base_units b = uint (pd_total_base_units d))"
  by (auto simp: create_for_signing_def create_for_approval_def create_locked_payout_batch_def run_query_def
      split: sum.splits prod.splits if_splits dest!: locked_row)

text \<open>
  C22. The operator's preview and the payout job agree, for the same amounts of the configuration on the
  same tables, with a preview limited to the 100 recipients of the job and a name for the batch that is not
  taken. While payouts are enabled, the preview announces a batch exactly when the job skips
  nothing, and the need for an approval exactly when the job asks for it, with the number of recipients and
  the total of the job; in these two cases the job has stored a batch, to be signed or to be approved, with the very
  recipients, amounts and total that were shown, and in every other case it has changed nothing. The preview does not
  look at the pause: while payouts are paused the job does nothing, whatever the preview shows.
\<close>

theorem operator_preview_exact:
  assumes preview: "operator_payout_preview env files (pk_midnight clk) db = Inr p"
    and job: "create_payouts clk cfg db = (db', Inr run)"
    and amounts: "minimum_payout_base_units env files = Inr (wc_minimum_payout cfg)"
      "max_payout_batch_base_units env files = Inr (wc_max_payout_batch cfg)"
      "max_daily_payout_base_units env files = Inr (wc_max_daily_payout cfg)"
      "manual_payout_approval_base_units env files = Inr (wc_manual_payout_approval cfg)"
    and limit: "payout_preview_recipient_limit env = 100"
    and fresh: "payout_batch_id (pk_millis clk) \<notin> pb_id ` set (db_batches db)"
  shows "let approval = op_recipients p \<noteq> [] \<and> \<not> op_cap_exceeded p \<and> \<not> op_daily_cap_exceeded p \<and> op_manual_approval_required p in
    if payouts_enabled db then
      (op_would_create_batch p \<longleftrightarrow> cp_skipped_reason run = None)
      \<and> (approval \<longleftrightarrow> cp_skipped_reason run = Some ''manual payout approval required before signing'')
      \<and> op_total p = amount_texts (cp_total_base_units run) \<and> op_recipient_count p = cp_selected_recipients run
      \<and> (if op_would_create_batch p \<or> approval
         then cp_created run \<and> (\<exists>b \<in> set (db_batches db'). pb_id b = payout_batch_id (pk_millis clk)
           \<and> pb_status b = (if approval then ''needs_approval'' else ''created'')
           \<and> map operator_payout_recipient_response (pb_recipients b) = op_recipients p
           \<and> pb_total_base_units b = uint (cp_total_base_units run))
         else db' = db \<and> \<not> cp_created run)
    else cp_skipped_reason run = Some ''payouts paused'' \<and> \<not> cp_created run \<and> db' = db"
proof (cases "payouts_enabled db")
  case False
  then show ?thesis using job by (auto simp: create_payouts_def run_query_def split: sum.splits)
next
  case enabled: True
  obtain balances used where q: "list_payable_balances (wc_minimum_payout cfg) 1000 db = Inr balances"
    "active_payout_total_today (pk_midnight clk) db = Inr used"
    and p: "p = operator_payout_preview_response (wc_minimum_payout cfg) (wc_max_payout_batch cfg) (wc_max_daily_payout cfg)
      (wc_manual_payout_approval cfg) used (select_payouts balances (wc_minimum_payout cfg) 100)"
    using preview amounts limit
    by (auto simp: operator_payout_preview_def result_bind_eq_Inr lift_db_def Let_def split: sum.splits)
  let ?s = "select_payouts balances (wc_minimum_payout cfg) 100"
  let ?d = "make_payout_batch_draft (payout_batch_id (pk_millis clk)) ?s"
  have none: "ps_recipients ?s = [] \<Longrightarrow> ps_total_base_units ?s = 0" by (simp add: select_payouts_def Let_def)
  have draft: "pd_recipients ?d = ps_recipients ?s" "pd_total_base_units ?d = ps_total_base_units ?s"
    "pd_batch_id ?d = payout_batch_id (pk_millis clk)"
    by (simp_all add: make_payout_batch_draft_def)
  have run: "create_payouts clk cfg db =
     (if ps_recipients ?s = [] then (db, Inr (skipped_payouts used 0 0 ''no payable balances above threshold''))
      else if wc_max_payout_batch cfg < ps_total_base_units ?s
      then (db, Inr (skipped_payouts used (length (ps_recipients ?s)) (ps_total_base_units ?s) ''payout batch exceeds configured cap''))
      else if wc_max_daily_payout cfg < sat_add used (ps_total_base_units ?s)
      then (db, Inr (skipped_payouts used (length (ps_recipients ?s)) (ps_total_base_units ?s) ''payout batch exceeds daily cap''))
      else if wc_manual_payout_approval cfg < ps_total_base_units ?s
      then create_for_approval (pk_now clk) cfg used ?d db else create_for_signing (pk_now clk) used ?d db)"
    using enabled by (simp add: create_payouts_def run_query_def q Let_def)
  have free: "pd_batch_id ?d \<notin> pb_id ` set (db_batches db)" using fresh by (simp add: draft)
  let ?cap = "wc_max_payout_batch cfg < ps_total_base_units ?s"
  let ?daily = "wc_max_daily_payout cfg < sat_add used (ps_total_base_units ?s)"
  show ?thesis
  proof (cases "ps_recipients ?s = [] \<or> ?cap \<or> ?daily")
    case True
    then have "db' = db" "cp_skipped_reason run \<noteq> None" "\<not> cp_created run"
      "cp_skipped_reason run \<noteq> Some ''manual payout approval required before signing''"
      "cp_total_base_units run = ps_total_base_units ?s" "cp_selected_recipients run = length (ps_recipients ?s)"
      using job none unfolding run by (auto simp: skipped_payouts_def split: if_splits)
    then show ?thesis using True enabled by (auto simp: p operator_payout_preview_response_def)
  next
    case False
    show ?thesis
    proof (cases "wc_manual_payout_approval cfg < ps_total_base_units ?s")
      case True
      then have "create_for_approval (pk_now clk) cfg used ?d db = (db', Inr run)" using job False unfolding run by simp
      from batch_created(2) [OF this free, unfolded draft] show ?thesis
        using False True enabled by (auto simp: p operator_payout_preview_response_def)
    next
      case below: False
      then have "create_for_signing (pk_now clk) used ?d db = (db', Inr run)" using job False unfolding run by simp
      from batch_created(1) [OF this free, unfolded draft] show ?thesis
        using False below enabled by (auto simp: p operator_payout_preview_response_def)
    qed
  qed
qed

section \<open>Reading the exports\<close>

text \<open>A reader of CSV (RFC 4180): a cell is quoted, with doubled quotes inside, or ends at a comma or a newline.\<close>

definition quote :: char where "quote = CHR 0x22"

fun csv_quoted :: "string \<Rightarrow> (string \<times> string) option" where
  "csv_quoted [] = None"
| "csv_quoted [c] = (if c = quote then Some ([], []) else None)"
| "csv_quoted (c # d # cs) =
     (if c = quote
      then (if d = quote then map_option (\<lambda>(v, r). (quote # v, r)) (csv_quoted cs) else Some ([], d # cs))
      else map_option (\<lambda>(v, r). (c # v, r)) (csv_quoted (d # cs)))"

definition plain_char :: "char \<Rightarrow> bool" where
  "plain_char c \<longleftrightarrow> c \<noteq> CHR '','' \<and> c \<noteq> newline"

definition csv_read_cell :: "string \<Rightarrow> (string \<times> string) option" where
  "csv_read_cell s = (if take 1 s = [quote] then csv_quoted (drop 1 s)
     else Some (takeWhile plain_char s, dropWhile plain_char s))"

lemma csv_quoted_length: "csv_quoted s = Some (v, r) \<Longrightarrow> length r < length s"
  by (induction s arbitrary: v rule: csv_quoted.induct) (auto split: if_splits)

lemma csv_read_cell_length: "csv_read_cell s = Some (v, c # r) \<Longrightarrow> length r < length s"
proof (cases "take 1 s = [quote]")
  case True
  moreover assume "csv_read_cell s = Some (v, c # r)"
  ultimately show ?thesis using csv_quoted_length [of "drop 1 s" v "c # r"] by (auto simp: csv_read_cell_def)
next
  case False
  moreover assume "csv_read_cell s = Some (v, c # r)"
  ultimately have "dropWhile plain_char s = c # r" by (simp add: csv_read_cell_def)
  then show ?thesis using length_dropWhile_le [of plain_char s] by simp
qed

function csv_row :: "string \<Rightarrow> (string list \<times> string) option" where
  "csv_row s = (case csv_read_cell s of
     Some (v, c # r) \<Rightarrow>
       if c = newline then Some ([v], r)
       else if c = CHR '','' then map_option (\<lambda>(vs, r'). (v # vs, r')) (csv_row r) else None
   | _ \<Rightarrow> None)"
  by pat_completeness auto
termination by (relation "measure length") (auto dest: csv_read_cell_length)

declare csv_row.simps [simp del]

lemma csv_row_length: "csv_row s = Some (vs, r) \<Longrightarrow> length r < length s"
proof (induction s arbitrary: vs rule: csv_row.induct)
  case (1 s)
  obtain v c r0 where cell: "csv_read_cell s = Some (v, c # r0)"
    using 1(2) csv_row.simps [of s] by (cases "csv_read_cell s") (auto split: list.splits)
  note less = csv_read_cell_length [OF cell]
  have row: "csv_row s = (if c = newline then Some ([v], r0)
      else if c = CHR '','' then map_option (\<lambda>(vs, r'). (v # vs, r')) (csv_row r0) else None)"
    using csv_row.simps [of s] cell by simp
  consider "c = newline" | "c \<noteq> newline" "c = CHR '',''" using 1(2) row by (auto split: if_splits)
  then show ?case
  proof cases
    case 1
    then show ?thesis using less row \<open>csv_row s = Some (vs, r)\<close> by simp
  next
    case 2
    then obtain vs' where "csv_row r0 = Some (vs', r)" using row \<open>csv_row s = Some (vs, r)\<close>
      by (cases "csv_row r0") auto
    then have "length r < length r0" using "1.IH" [OF cell refl refl 2] by blast
    then show ?thesis using less by simp
  qed
qed

function csv_table :: "string \<Rightarrow> string list list option" where
  "csv_table s = (if s = [] then Some []
     else case csv_row s of Some (vs, r) \<Rightarrow> map_option (Cons vs) (csv_table r) | None \<Rightarrow> None)"
  by pat_completeness auto
termination by (relation "measure length") (auto dest: csv_row_length)

declare csv_table.simps [simp del]

text \<open>A text that the reader takes for a cell with a given content.\<close>

definition cell_text :: "string \<Rightarrow> string \<Rightarrow> bool" where
  "cell_text t v \<longleftrightarrow> (\<forall>c r. c = CHR '','' \<or> c = newline \<longrightarrow> csv_read_cell (t @ c # r) = Some (v, c # r))"

lemma newline_iff: "newline = c \<longleftrightarrow> of_char c = (10 :: nat)" "c = newline \<longleftrightarrow> of_char c = (10 :: nat)"
proof -
  show "newline = c \<longleftrightarrow> of_char c = (10 :: nat)" by (auto simp: newline_def char_of_eq_iff take_bit_eq_mod)
  then show "c = newline \<longleftrightarrow> of_char c = (10 :: nat)" by blast
qed

lemma separators [simp]: "quote \<noteq> newline" "newline \<noteq> quote" "CHR '','' \<noteq> newline" "newline \<noteq> CHR '',''"
  "quote \<noteq> CHR '',''" "CHR '','' \<noteq> quote"
  by (simp_all add: quote_def newline_iff)

lemma plain_cell: "list_all (\<lambda>c. plain_char c \<and> c \<noteq> quote) t \<Longrightarrow> cell_text t t"
  by (cases t) (auto simp: cell_text_def csv_read_cell_def plain_char_def list_all_iff)

lemma escaped_cell:
  "c \<noteq> quote \<Longrightarrow> csv_quoted (concat (map (\<lambda>c. if c = quote then [c, c] else [c]) v) @ quote # c # r) = Some (v, c # r)"
proof (induction v)
  case (Cons x v)
  obtain y ys where "concat (map (\<lambda>c. if c = quote then [c, c] else [c]) v) @ quote # c # r = y # ys"
    by (cases "concat (map (\<lambda>c. if c = quote then [c, c] else [c]) v) @ quote # c # r") auto
  then show ?case using Cons by simp
qed simp

lemma csv_cell_text: "cell_text (csv_cell v) v"
proof (cases "CHR '','' \<in> set v \<or> quote \<in> set v \<or> newline \<in> set v \<or> char_of (13 :: nat) \<in> set v")
  case True
  then have cell: "csv_cell v = quote # concat (map (\<lambda>c. if c = quote then [c, c] else [c]) v) @ [quote]"
    by (simp add: csv_cell_def quote_def newline_def)
  show ?thesis unfolding cell_text_def cell by (auto simp: csv_read_cell_def escaped_cell)
next
  case False
  then have "csv_cell v = v" by (simp add: csv_cell_def quote_def newline_def)
  then show ?thesis using False by (auto simp: list_all_iff plain_char_def intro!: plain_cell)
qed

lemma csv_row_line:
  "list_all2 cell_text ts vs \<Longrightarrow> ts \<noteq> [] \<Longrightarrow> csv_row (csv_line ts @ r) = Some (vs, r)"
proof (induction ts vs rule: list_all2_induct)
  case (Cons t ts v vs)
  show ?case
  proof (cases ts)
    case Nil
    then show ?thesis using Cons by (subst csv_row.simps) (auto simp: csv_line_def cell_text_def)
  next
    case (Cons u us)
    then have line: "csv_line (t # ts) @ r = t @ CHR '','' # csv_line ts @ r" by (simp add: csv_line_def)
    show ?thesis unfolding line
      using Cons.hyps Cons.IH Cons by (subst csv_row.simps) (auto simp: cell_text_def)
  qed
qed simp

lemma csv_line_not_Nil [simp]: "csv_line ts \<noteq> []"
  by (simp add: csv_line_def)

lemma csv_table_lines:
  "list_all2 (\<lambda>ts vs. ts \<noteq> [] \<and> list_all2 cell_text ts vs) tss vss \<Longrightarrow> csv_table (concat (map csv_line tss)) = Some vss"
proof (induction tss vss rule: list_all2_induct)
  case (Cons ts tss vs vss)
  then show ?case
    by (subst csv_table.simps) (simp add: csv_row_line [of ts vs])
qed (simp add: csv_table.simps)

lemma digits_plain: "list_all is_ascii_digit t \<Longrightarrow> list_all (\<lambda>c. plain_char c \<and> c \<noteq> quote) t"
  by (auto simp: list_all_iff is_ascii_digit_def plain_char_def newline_iff quote_def Let_def)

lemma number_cells:
  "cell_text (decimal_digits n) (decimal_digits n)" "cell_text (u128_text m) (u128_text m)"
  "cell_text (format_csd m) (format_csd m)" "cell_text (show_i128 a) (show_i128 a)"
  "cell_text (format_signed_csd a) (format_signed_csd a)"
proof -
  have "list_all (\<lambda>c. plain_char c \<and> c \<noteq> quote) (decimal_digits k)" for k
    using decimal_digits_props digits_plain by blast
  then have d: "c \<in> set (decimal_digits k) \<Longrightarrow> plain_char c" "quote \<notin> set (decimal_digits k)" for c k
    unfolding list_all_iff by blast+
  have marks: "plain_char (CHR ''.'') \<and> CHR ''.'' \<noteq> quote" "plain_char (CHR ''-'') \<and> CHR ''-'' \<noteq> quote"
    "plain_char (CHR ''0'') \<and> CHR ''0'' \<noteq> quote"
    by (simp_all add: plain_char_def newline_iff quote_def)
  show "cell_text (decimal_digits n) (decimal_digits n)" "cell_text (u128_text m) (u128_text m)"
    "cell_text (format_csd m) (format_csd m)" "cell_text (show_i128 a) (show_i128 a)"
    "cell_text (format_signed_csd a) (format_signed_csd a)"
    using d marks by (auto intro!: plain_cell simp: u128_text_def format_csd_def show_i128_def format_signed_csd_def
        format_unsigned_csd_def pad_left_def list_all_append list_all_iff)
qed

text \<open>
  C23. The three CSV exports can be read back whatever the texts in them: the reader gives the heading and
  then exactly one row for every recipient of a payout batch, every audit event and every ledger entry,
  with their fields; no batch id, transaction id, address, reason or miner name can break a row.
\<close>

theorem csv_exports_read_back:
  "csv_table (payout_batches_csv batches) = Some
     ([''batch_id'', ''status'', ''txid'', ''recipient'', ''amount_base_units'', ''amount_csd'', ''total_base_units'', ''total_csd''] #
      concat (map (\<lambda>b. map (\<lambda>r. [pr_batch_id b, pr_status b, coalesce (pr_txid b) [], rc_address r,
        u128_text (rc_amount_base_units r), format_csd (rc_amount_base_units r), u128_text (pr_total_base_units b),
        format_csd (pr_total_base_units b)]) (pr_recipients b)) batches))
   \<and> csv_table (payout_audit_events_csv json_text events) = Some
     ([''created_at'', ''batch_id'', ''actor'', ''action'', ''details_json''] #
      map (\<lambda>(created_at, e). [coalesce created_at [], pa_batch_id e, pa_actor e, pa_action e, json_text (pa_details e)]) events)
   \<and> csv_table (ledger_entries_csv entries) = Some
     ([''entry_index'', ''miner'', ''amount_base_units'', ''amount_csd'', ''kind'', ''ref_type'', ''ref_id''] #
      map (\<lambda>(i, e). [decimal_digits (i + 1), coalesce (le_miner e) ''pool'', show_i128 (le_amount_base_units e),
        format_signed_csd (le_amount_base_units e), ledger_kind_as_str (le_kind e), le_ref_type e, le_ref_id e])
        (List.enumerate 0 entries))"
proof (intro conjI)
  have plain: "list_all (\<lambda>c. plain_char c \<and> c \<noteq> quote) t \<Longrightarrow> cell_text t t" for t by (rule plain_cell)
  let ?h1 = "[''batch_id'', ''status'', ''txid'', ''recipient'', ''amount_base_units'', ''amount_csd'', ''total_base_units'', ''total_csd'']"
  have "payout_batches_csv batches = concat (map csv_line (?h1 #
      concat (map (\<lambda>b. map (payout_row_cells b) (pr_recipients b)) batches)))"
    by (induction batches) (simp_all add: payout_batches_csv_def csv_line_def comp_def)
  moreover have "list_all2 cell_text ?h1 ?h1"
    by (simp add: plain plain_char_def newline_iff quote_def)
  moreover have "list_all2 (\<lambda>ts vs. ts \<noteq> [] \<and> list_all2 cell_text ts vs)
      (concat (map (\<lambda>b. map (payout_row_cells b) (pr_recipients b)) batches))
      (concat (map (\<lambda>b. map (\<lambda>r. [pr_batch_id b, pr_status b, coalesce (pr_txid b) [], rc_address r,
        u128_text (rc_amount_base_units r), format_csd (rc_amount_base_units r), u128_text (pr_total_base_units b),
        format_csd (pr_total_base_units b)]) (pr_recipients b)) batches))"
    by (induction batches)
      (auto simp: payout_row_cells_def csv_cell_text number_cells list_all2_map1 list_all2_map2 list_all2_same split_def intro!: list_all2_appendI)
  ultimately show "csv_table (payout_batches_csv batches) = Some (?h1 # concat (map (\<lambda>b. map (\<lambda>r. [pr_batch_id b, pr_status b, coalesce (pr_txid b) [], rc_address r,
        u128_text (rc_amount_base_units r), format_csd (rc_amount_base_units r), u128_text (pr_total_base_units b),
        format_csd (pr_total_base_units b)]) (pr_recipients b)) batches))"
    by (simp only: csv_table_lines list_all2_Cons list.discI not_False_eq_True simp_thms)
next
  let ?h2 = "[''created_at'', ''batch_id'', ''actor'', ''action'', ''details_json'']"
  let ?f = "\<lambda>(created_at, e). [csv_cell (coalesce created_at []), csv_cell (pa_batch_id e),
           csv_cell (pa_actor e), csv_cell (pa_action e), csv_cell (json_text (pa_details e))]"
  have "payout_audit_events_csv json_text events = concat (map csv_line (?h2 # map ?f events))"
    by (simp add: payout_audit_events_csv_def csv_line_def comp_def split_def)
  moreover have "list_all2 (\<lambda>ts vs. ts \<noteq> [] \<and> list_all2 cell_text ts vs) (?h2 # map ?f events)
      (?h2 # map (\<lambda>(created_at, e). [coalesce created_at [], pa_batch_id e, pa_actor e, pa_action e, json_text (pa_details e)]) events)"
    by (auto simp: csv_cell_text list_all2_map1 list_all2_map2 plain_cell plain_char_def newline_iff quote_def list_all2_same split_def)
  ultimately show "csv_table (payout_audit_events_csv json_text events) = Some
     (?h2 # map (\<lambda>(created_at, e). [coalesce created_at [], pa_batch_id e, pa_actor e, pa_action e, json_text (pa_details e)]) events)"
    by (simp only: csv_table_lines)
next
  let ?h3 = "[''entry_index'', ''miner'', ''amount_base_units'', ''amount_csd'', ''kind'', ''ref_type'', ''ref_id'']"
  let ?g = "\<lambda>(i, e). [decimal_digits (i + 1), coalesce (le_miner e) ''pool'', show_i128 (le_amount_base_units e),
        format_signed_csd (le_amount_base_units e), ledger_kind_as_str (le_kind e), le_ref_type e, le_ref_id e]"
  have "ledger_entries_csv entries = concat (map csv_line (?h3 # map (\<lambda>(i, e). ledger_csv_cells i e) (List.enumerate 0 entries)))"
    by (simp add: ledger_entries_csv_def csv_line_def newline_def comp_def split_def)
  moreover have "list_all2 (\<lambda>ts vs. ts \<noteq> [] \<and> list_all2 cell_text ts vs)
      (?h3 # map (\<lambda>(i, e). ledger_csv_cells i e) (List.enumerate 0 entries)) (?h3 # map ?g (List.enumerate 0 entries))"
    by (auto simp: ledger_csv_cells_def csv_cell_text number_cells list_all2_map1 list_all2_map2 plain_cell plain_char_def
        newline_iff quote_def list_all2_same split_def)
  ultimately show "csv_table (ledger_entries_csv entries) = Some (?h3 # map ?g (List.enumerate 0 entries))"
    by (simp only: csv_table_lines)
qed

section \<open>Samples\<close>

definition sample_operator_env :: environment where
  "sample_operator_env = map_of [(''CSD_POOL_OPERATOR_TOKEN'', ''s3cret''), (''CSD_POOL_MINIMUM_PAYOUT_CSD'', ''0.0000001'')]"

definition sample_operator_state :: operator_state where
  "sample_operator_state = \<lparr>os_db = example_matured, os_alerts = []\<rparr>"

definition sample_operator_clock :: operator_clock where
  "sample_operator_clock = \<lparr>oc_now = 4, oc_midnight = 0, oc_millis = 9, oc_created = (\<lambda>_. [])\<rparr>"

theorem operator_route_guarded_witness:
  "fst (operator_route (\<lambda>_. []) sample_operator_env sample_files sample_operator_clock (Some (Some ''Bearer s3cre''))
      ResumePayouts (Some sample_operator_state)) = Some sample_operator_state
   \<and> (\<exists>st'. fst (operator_route (\<lambda>_. []) sample_operator_env sample_files sample_operator_clock
       (Some (Some ''Bearer s3cret'')) ResumePayouts (Some sample_operator_state)) = Some st'
     \<and> (os_db st' = example_matured \<or> job_step example_matured (os_db st')))"
proof -
  have token: "operator_token sample_operator_env sample_files = Some ''s3cret''"
    by (simp add: operator_token_def sample_operator_env_def nonempty_env_def)
  let ?route = "\<lambda>h. operator_route (\<lambda>_. []) sample_operator_env sample_files sample_operator_clock (Some (Some h))
      ResumePayouts (Some sample_operator_state)"
  have split: "?route h = (fst (?route h), snd (?route h))" for h by simp
  show ?thesis
    using operator_route_guarded [OF split [of "''Bearer s3cre''"]] operator_route_guarded [OF split [of "''Bearer s3cret''"]]
    by (auto simp: token sample_operator_state_def)
qed

definition sample_payout_config :: worker_config where
  "sample_payout_config = example_config\<lparr>wc_max_payout_batch := 100000000000, wc_max_daily_payout := 500000000000,
     wc_manual_payout_approval := 25000000000\<rparr>"

lemma sample_amounts:
  "minimum_payout_base_units sample_operator_env sample_files = Inr (wc_minimum_payout sample_payout_config)"
  "max_payout_batch_base_units sample_operator_env sample_files = Inr (wc_max_payout_batch sample_payout_config)"
  "max_daily_payout_base_units sample_operator_env sample_files = Inr (wc_max_daily_payout sample_payout_config)"
  "manual_payout_approval_base_units sample_operator_env sample_files = Inr (wc_manual_payout_approval sample_payout_config)"
proof -
  have pad: "pad_right 8 ''0'' = ''00000000''" "pad_right 8 ''0000001'' = ''00000010''"
    by (simp_all add: pad_right_def eval_nat_numeral)
  have "parse_csd_base_units (''0'' @ ''.'' @ ''0000001'') = Inr 10"
    by (subst parse_csd_decimal) (simp_all add: is_ascii_digit_def base_units_per_csd_def digits_value_def pad)
  moreover have "parse_csd_base_units (''1000'' @ ''.'' @ ''0'') = Inr 100000000000"
    by (subst parse_csd_decimal) (simp_all add: is_ascii_digit_def base_units_per_csd_def digits_value_def pad)
  moreover have "parse_csd_base_units (''5000'' @ ''.'' @ ''0'') = Inr 500000000000"
    by (subst parse_csd_decimal) (simp_all add: is_ascii_digit_def base_units_per_csd_def digits_value_def pad)
  moreover have "parse_csd_base_units (''250'' @ ''.'' @ ''0'') = Inr 25000000000"
    by (subst parse_csd_decimal) (simp_all add: is_ascii_digit_def base_units_per_csd_def digits_value_def pad)
  ultimately
  show "minimum_payout_base_units sample_operator_env sample_files = Inr (wc_minimum_payout sample_payout_config)"
    "max_payout_batch_base_units sample_operator_env sample_files = Inr (wc_max_payout_batch sample_payout_config)"
    "max_daily_payout_base_units sample_operator_env sample_files = Inr (wc_max_daily_payout sample_payout_config)"
    "manual_payout_approval_base_units sample_operator_env sample_files = Inr (wc_manual_payout_approval sample_payout_config)"
    by (simp_all add: minimum_payout_base_units_def max_payout_batch_base_units_def max_daily_payout_base_units_def
        manual_payout_approval_base_units_def configured_amount_def sample_operator_env_def sample_payout_config_def
        example_config_def coalesce_def)
qed

theorem operator_preview_exact_witness:
  "\<exists>p. operator_payout_preview sample_operator_env sample_files 0 (operator_resume_payouts example_matured) = Inr p
    \<and> op_would_create_batch p \<and> fst (op_total p) = ''990'' \<and> op_recipient_count p = 1
    \<and> (\<exists>b \<in> set (db_batches (fst (create_payouts \<lparr>pk_now = 3, pk_midnight = 0, pk_millis = 7\<rparr> sample_payout_config
          (operator_resume_payouts example_matured)))). pb_id b = ''payout-7'' \<and> pb_status b = ''created''
        \<and> map operator_payout_recipient_response (pb_recipients b) = op_recipients p)"
proof -
  let ?db = "operator_resume_payouts example_matured"
  let ?clk = "\<lparr>pk_now = 3, pk_midnight = 0, pk_millis = 7\<rparr>"
  have limit: "payout_preview_recipient_limit sample_operator_env = 100"
    by (simp add: payout_preview_recipient_limit_def sample_operator_env_def coalesce_def)
  have "case list_payable_balances (wc_minimum_payout sample_payout_config) 1000 ?db of Inr _ \<Rightarrow> True | Inl _ \<Rightarrow> False"
    "case active_payout_total_today 0 ?db of Inr _ \<Rightarrow> True | Inl _ \<Rightarrow> False"
    unfolding example_matured_def by code_simp+
  then obtain p where p: "operator_payout_preview sample_operator_env sample_files (pk_midnight ?clk) ?db = Inr p"
    by (auto simp: operator_payout_preview_def sample_amounts lift_db_def result_bind_def Let_def split: sum.splits)
  have enabled: "payouts_enabled ?db" unfolding example_matured_def by code_simp
  have "case create_payouts ?clk sample_payout_config ?db of
      (_, Inr run) \<Rightarrow> cp_skipped_reason run = None \<and> cp_total_base_units run = 990 \<and> cp_selected_recipients run = 1
    | _ \<Rightarrow> False"
    unfolding example_matured_def by code_simp
  then obtain db' run where job: "create_payouts ?clk sample_payout_config ?db = (db', Inr run)"
    and run: "cp_skipped_reason run = None" "cp_total_base_units run = 990" "cp_selected_recipients run = 1"
    by (auto split: prod.splits sum.splits)
  have name: "payout_batch_id (pk_millis ?clk) = ''payout-7''" by code_simp
  have "''payout-7'' \<notin> pb_id ` set (db_batches ?db)" unfolding example_matured_def by code_simp
  then have fresh: "payout_batch_id (pk_millis ?clk) \<notin> pb_id ` set (db_batches ?db)" unfolding name .
  have "fst (amount_texts 990) = ''990''" by code_simp
  with operator_preview_exact [OF p job sample_amounts limit fresh] p run enabled show ?thesis
    unfolding name by (auto simp: job Let_def)
qed

end
