(* ===== verification/Csd_Monitor.thy ===== *)
theory Csd_Monitor
  imports Csd_Memory Csd_Alerts
begin

text \<open>
  Crate \<open>csd-pool-db\<close>: the monitoring part of \<open>InMemoryRepository\<close>. Its table of alerts and the one of
  PostgreSQL are two providers of one interface, the locale \<open>alert_store\<close>: any run of the same calls
  leaves the same alerts active in both. Its share quality counts every accepted share and every
  rejected or stale event of a worker.
\<close>

section \<open>Samples and jobs\<close>

record node_sample =
  sa_node_name :: string
  sa_height :: "u64 option"
  sa_chainwork :: "string option"
  sa_peers :: "u64 option"
  sa_mempool_size :: "u64 option"
  sa_rpc_ms :: "f64 option"
  sa_ok :: bool

definition mem_insert_node_sample :: "node_sample \<Rightarrow> node_sample list \<Rightarrow> node_sample list" where
  "mem_insert_node_sample s samples = samples @ [s]"

definition samples_by_node :: "node_sample list \<Rightarrow> (string, node_sample) btree" where
  "samples_by_node samples = foldl (\<lambda>t s. bt_insert (sa_node_name s) s t) [] samples"

definition mem_latest_node_samples :: "int \<Rightarrow> node_sample list \<Rightarrow> node_sample list" where
  "mem_latest_node_samples limit samples = take (nat limit) (bt_values (samples_by_node samples))"

text \<open>\<open>max_by_key\<close>: the last of the greatest.\<close>

definition mem_latest_job :: "memory_repo \<Rightarrow> latest_job option" where
  "mem_latest_job r =
     map_option (\<lambda>j. \<lparr>lj_job_id = jr_job_id j, lj_prev_hash = jr_prev_hash_be_hex j, lj_age_seconds = 0\<rparr>)
       (foldl (\<lambda>m j. case m of None \<Rightarrow> Some j | Some x \<Rightarrow> if jr_job_id j < jr_job_id x then Some x else Some j) None
         (bt_values (mr_jobs r)))"

section \<open>Block submissions and share quality\<close>

record submission_alert =
  sb_hash_hex :: string
  sb_job_id :: string
  sb_status :: string
  sb_submit_ok :: "bool option"
  sb_reason :: string

definition submission_alert_of :: "memory_repo \<Rightarrow> string \<Rightarrow> block_candidate_record \<Rightarrow> submission_alert option" where
  "submission_alert_of r hash_hex candidate =
     (let submit_ok = Option.bind (json_get (bc_submit_response_json candidate) ''ok'') json_as_bool;
          status = (case bt_get (mr_blocks r) hash_hex of Some b \<Rightarrow> br_status b | None \<Rightarrow> ''submitted'') in
      if submit_ok = Some False \<or> status \<in> {''submitted_secondary'', ''submitted_degraded'', ''relay_failed''}
      then Some \<lparr>sb_hash_hex = hash_hex, sb_job_id = bc_job_id candidate, sb_status = status, sb_submit_ok = submit_ok,
        sb_reason = (if status = ''submitted_secondary'' then ''authority_failed_secondary_accepted''
          else if status = ''submitted_degraded'' then ''redundant_relay_failed''
          else if candidate_relay_failure (bc_submit_response_json candidate) then ''local_canonical_relay_failed''
          else ''submit_response_not_ok'')\<rparr>
      else None)"

definition mem_list_block_submission_alerts :: "int \<Rightarrow> memory_repo \<Rightarrow> submission_alert list" where
  "mem_list_block_submission_alerts limit r =
     take (nat limit) (List.map_filter (\<lambda>(h, c). submission_alert_of r h c) (mr_candidates r))"

type_synonym quality_counts = "(string \<times> string, u64 \<times> u64 \<times> u64) btree"

definition count_share :: "share_record \<Rightarrow> quality_counts \<Rightarrow> quality_counts" where
  "count_share s = bt_entry (sh_miner s, sh_worker_name s) (1, 0, 0) (\<lambda>(a, j, t). (a + 1, j, t))"

definition count_event :: "share_event_record \<Rightarrow> quality_counts \<Rightarrow> quality_counts" where
  "count_event e =
     (let bump = (\<lambda>(a, j, t). if ev_kind e = ''rejected'' then (a, j + 1, t)
                               else if ev_kind e = ''stale'' then (a, j, t + 1) else (a, j, t))
      in bt_entry (ev_miner e, ev_worker_name e) (bump (0, 0, 0)) bump)"

definition quality_counts :: "memory_repo \<Rightarrow> quality_counts" where
  "quality_counts r = fold count_event (mr_share_events r) (fold count_share (mr_shares r) [])"

definition mem_list_share_quality_alerts :: "u64 \<Rightarrow> f64 \<Rightarrow> f64 \<Rightarrow> int \<Rightarrow> memory_repo \<Rightarrow> quality_alert list" where
  "mem_list_share_quality_alerts min_total max_reject_rate max_stale_rate limit r =
     take (nat limit) (List.map_filter (\<lambda>((m, w), (a, j, t)).
       if a + j + t < min_total then None
       else share_quality_alert_from_counts max_reject_rate max_stale_rate
         \<lparr>qr_miner = m, qr_worker_name = w, qr_accepted = a, qr_rejected = j, qr_stale = t\<rparr>) (quality_counts r))"

section \<open>The table of alerts\<close>

record memory_alert =
  ma_fingerprint :: string
  ma_severity :: string
  ma_status :: string
  ma_kind :: string
  ma_subject :: string

type_synonym memory_alerts = "(string, memory_alert) btree"

definition mem_upsert_alert :: "string \<Rightarrow> string \<Rightarrow> string \<Rightarrow> string \<Rightarrow> memory_alerts \<Rightarrow> memory_alerts" where
  "mem_upsert_alert fingerprint severity kind subject alerts =
     bt_insert fingerprint \<lparr>ma_fingerprint = fingerprint, ma_severity = severity, ma_status = ''active'', ma_kind = kind,
       ma_subject = subject\<rparr> alerts"

definition mem_resolve_alert :: "string \<Rightarrow> memory_alerts \<Rightarrow> memory_alerts \<times> bool" where
  "mem_resolve_alert fingerprint alerts =
     (case bt_get alerts fingerprint of
        None \<Rightarrow> (alerts, False)
      | Some a \<Rightarrow> if ma_status a = ''active''
                  then (bt_insert fingerprint (a\<lparr>ma_status := ''resolved''\<rparr>) alerts, True) else (alerts, False))"

definition mem_list_alerts :: "string option \<Rightarrow> int \<Rightarrow> memory_alerts \<Rightarrow> memory_alert list" where
  "mem_list_alerts status limit alerts =
     take (nat limit) (sort_key ma_fingerprint
       (filter (\<lambda>a. status = None \<or> Some (ma_status a) = status) (bt_values alerts)))"

section \<open>Both tables as one interface\<close>

text \<open>A call on a table of alerts, at a time; resolving answers whether there was an active alert.\<close>

datatype alert_call = Upsert nat string string string string | Resolve nat string

text \<open>What a run of calls does to the set of active alerts, and what it answers.\<close>

fun active_run :: "alert_call list \<Rightarrow> string set \<Rightarrow> string set \<times> bool list" where
  "active_run [] A = (A, [])"
| "active_run (Upsert now f sev kind subject # cs) A = active_run cs (insert f A)"
| "active_run (Resolve now f # cs) A = (let (A', oks) = active_run cs (A - {f}) in (A', (f \<in> A) # oks))"

fun store_run ::
  "(nat \<Rightarrow> string \<Rightarrow> string \<Rightarrow> string \<Rightarrow> string \<Rightarrow> 's \<Rightarrow> 's) \<Rightarrow> (nat \<Rightarrow> string \<Rightarrow> 's \<Rightarrow> 's \<times> bool)
   \<Rightarrow> alert_call list \<Rightarrow> 's \<Rightarrow> 's \<times> bool list" where
  "store_run upsert resolve [] s = (s, [])"
| "store_run upsert resolve (Upsert now f sev kind subject # cs) s =
     store_run upsert resolve cs (upsert now f sev kind subject s)"
| "store_run upsert resolve (Resolve now f # cs) s =
     (let (s', ok) = resolve now f s; (s'', oks) = store_run upsert resolve cs s' in (s'', ok # oks))"

locale alert_store =
  fixes upsert :: "nat \<Rightarrow> string \<Rightarrow> string \<Rightarrow> string \<Rightarrow> string \<Rightarrow> 's \<Rightarrow> 's"
    and resolve :: "nat \<Rightarrow> string \<Rightarrow> 's \<Rightarrow> 's \<times> bool"
    and act :: "'s \<Rightarrow> string set"
    and wf :: "'s \<Rightarrow> bool"
  assumes upsert_wf: "wf s \<Longrightarrow> wf (upsert now f sev kind subject s)"
    and upsert_act: "wf s \<Longrightarrow> act (upsert now f sev kind subject s) = insert f (act s)"
    and resolve_wf: "wf s \<Longrightarrow> wf (fst (resolve now f s))"
    and resolve_act: "wf s \<Longrightarrow> act (fst (resolve now f s)) = act s - {f}"
    and resolve_answer: "wf s \<Longrightarrow> snd (resolve now f s) = (f \<in> act s)"
begin

lemma runs_active:
  assumes "wf s"
  shows "wf (fst (store_run upsert resolve cs s))"
    and "active_run cs (act s) = (act (fst (store_run upsert resolve cs s)), snd (store_run upsert resolve cs s))"
proof -
  have "wf (fst (store_run upsert resolve cs s))
      \<and> active_run cs (act s) = (act (fst (store_run upsert resolve cs s)), snd (store_run upsert resolve cs s))"
    using assms
  proof (induction cs arbitrary: s)
    case (Cons c cs)
    show ?case
    proof (cases c)
      case (Upsert now f sev kind subject)
      then show ?thesis
        using Cons.IH [OF upsert_wf [OF Cons.prems, of now f sev kind subject]] Cons.prems by (simp add: upsert_act)
    next
      case (Resolve now f)
      obtain s' ok where s': "resolve now f s = (s', ok)" by (cases "resolve now f s")
      obtain s'' oks where run: "store_run upsert resolve cs s' = (s'', oks)" by (cases "store_run upsert resolve cs s'")
      have "wf s'" "act s' = act s - {f}" "ok = (f \<in> act s)"
        using resolve_wf [OF Cons.prems, of now f] resolve_act [OF Cons.prems, of now f]
          resolve_answer [OF Cons.prems, of now f] s' by simp_all
      then show ?thesis using Cons.IH [of s'] s' run Resolve by simp
    qed
  qed simp
  then show "wf (fst (store_run upsert resolve cs s))"
    and "active_run cs (act s) = (act (fst (store_run upsert resolve cs s)), snd (store_run upsert resolve cs s))"
    by simp_all
qed

end

section \<open>The table of PostgreSQL\<close>

definition alerts_distinct :: "alert_row list \<Rightarrow> bool" where
  "alerts_distinct rows \<longleftrightarrow> distinct (map al_fingerprint rows)"

interpretation pg_alerts: alert_store upsert_alert resolve_alert active alerts_distinct
proof unfold_locales
  fix rows :: "alert_row list" and now f sev kind subject
  assume wf: "alerts_distinct rows"
  have "map al_fingerprint (map (\<lambda>r. if al_fingerprint r = f then r\<lparr>al_severity := sev, al_status := ''active'', al_kind := kind,
      al_subject := subject, al_last_seen := now, al_resolved := None\<rparr> else r) rows) = map al_fingerprint rows"
    by simp
  with wf show "alerts_distinct (upsert_alert now f sev kind subject rows)"
    by (auto simp: alerts_distinct_def upsert_alert_def simp del: map_map if_image_distrib)
next
  fix rows :: "alert_row list" and now f
  assume wf: "alerts_distinct rows"
  have "map al_fingerprint (fst (resolve_alert now f rows)) = map al_fingerprint rows"
    by (simp add: resolve_alert_def comp_def)
  with wf show "alerts_distinct (fst (resolve_alert now f rows))" by (simp add: alerts_distinct_def)
  show "active (fst (resolve_alert now f rows)) = active rows - {f}"
    by (rule set_eqI) (auto simp: active_iff resolve_alert_def simp del: if_image_distrib)
  show "snd (resolve_alert now f rows) = (f \<in> active rows)"
    by (auto simp: resolve_alert_def active_iff list_ex_iff)
qed simp

section \<open>The table in memory\<close>

definition mem_active :: "memory_alerts \<Rightarrow> string set" where
  "mem_active alerts = {f. \<exists>a. bt_get alerts f = Some a \<and> ma_status a = ''active''}"

text \<open>Every alert is stored under its own fingerprint.\<close>

definition mem_alerts_wf :: "memory_alerts \<Rightarrow> bool" where
  "mem_alerts_wf alerts \<longleftrightarrow> bt_wf alerts \<and> (\<forall>f a. bt_get alerts f = Some a \<longrightarrow> ma_fingerprint a = f)"

lemma mem_upsert_get:
  assumes "mem_alerts_wf alerts"
  shows "bt_get (mem_upsert_alert f sev kind subject alerts) g =
      (if g = f then Some \<lparr>ma_fingerprint = f, ma_severity = sev, ma_status = ''active'', ma_kind = kind, ma_subject = subject\<rparr>
       else bt_get alerts g)"
    and "bt_wf (mem_upsert_alert f sev kind subject alerts)"
  using assms by (simp_all add: mem_alerts_wf_def mem_upsert_alert_def bt_get_insert)

lemma mem_resolve_get:
  assumes "mem_alerts_wf alerts"
  shows "bt_get (fst (mem_resolve_alert f alerts)) g =
      (if g = f \<and> f \<in> mem_active alerts then map_option (\<lambda>a. a\<lparr>ma_status := ''resolved''\<rparr>) (bt_get alerts f)
       else bt_get alerts g)"
    and "bt_wf (fst (mem_resolve_alert f alerts))"
    and "snd (mem_resolve_alert f alerts) = (f \<in> mem_active alerts)"
proof -
  have wf: "bt_wf alerts" using assms by (simp add: mem_alerts_wf_def)
  show "bt_get (fst (mem_resolve_alert f alerts)) g =
      (if g = f \<and> f \<in> mem_active alerts then map_option (\<lambda>a. a\<lparr>ma_status := ''resolved''\<rparr>) (bt_get alerts f)
       else bt_get alerts g)"
    and "bt_wf (fst (mem_resolve_alert f alerts))"
    and "snd (mem_resolve_alert f alerts) = (f \<in> mem_active alerts)"
    using wf by (cases "bt_get alerts f"; simp add: mem_resolve_alert_def mem_active_def bt_get_insert)+
qed

interpretation mem_alerts: alert_store "\<lambda>now. mem_upsert_alert" "\<lambda>now. mem_resolve_alert" mem_active mem_alerts_wf
proof unfold_locales
  fix alerts :: memory_alerts and now :: nat and f sev kind subject
  assume wf: "mem_alerts_wf alerts"
  show "mem_alerts_wf (mem_upsert_alert f sev kind subject alerts)"
    using wf mem_upsert_get [OF wf] by (simp add: mem_alerts_wf_def)
  show "mem_active (mem_upsert_alert f sev kind subject alerts) = insert f (mem_active alerts)"
    using mem_upsert_get(1) [OF wf] by (auto simp: mem_active_def)
next
  fix alerts :: memory_alerts and now :: nat and f
  assume wf: "mem_alerts_wf alerts"
  show "mem_alerts_wf (fst (mem_resolve_alert f alerts))"
    using wf mem_resolve_get(1,2) [OF wf] by (auto simp: mem_alerts_wf_def)
  show "mem_active (fst (mem_resolve_alert f alerts)) = mem_active alerts - {f}"
    unfolding mem_active_def [of "fst (mem_resolve_alert f alerts)"] mem_resolve_get(1) [OF wf]
    by (auto simp: mem_active_def)
  show "snd (mem_resolve_alert f alerts) = (f \<in> mem_active alerts)" by (rule mem_resolve_get(3) [OF wf])
qed

section \<open>What both tables answer\<close>

text \<open>
  From tables with the same active alerts, any sequence of calls gets the same answers from both and
  leaves the same alerts active; the lists of active alerts have the same fingerprints.
\<close>

lemma tables_agree:
  assumes "alerts_distinct rows" and "mem_alerts_wf alerts" and "active rows = mem_active alerts"
  shows "snd (store_run upsert_alert resolve_alert cs rows)
      = snd (store_run (\<lambda>now. mem_upsert_alert) (\<lambda>now. mem_resolve_alert) cs alerts)"
    and "active (fst (store_run upsert_alert resolve_alert cs rows))
      = mem_active (fst (store_run (\<lambda>now. mem_upsert_alert) (\<lambda>now. mem_resolve_alert) cs alerts))"
proof -
  have same: "(active (fst (store_run upsert_alert resolve_alert cs rows)), snd (store_run upsert_alert resolve_alert cs rows))
      = (mem_active (fst (store_run (\<lambda>now. mem_upsert_alert) (\<lambda>now. mem_resolve_alert) cs alerts)),
         snd (store_run (\<lambda>now. mem_upsert_alert) (\<lambda>now. mem_resolve_alert) cs alerts))"
    using pg_alerts.runs_active(2) [OF assms(1), of cs] mem_alerts.runs_active(2) [OF assms(2), of cs]
    unfolding assms(3) by (rule trans [OF sym])
  show "snd (store_run upsert_alert resolve_alert cs rows)
      = snd (store_run (\<lambda>now. mem_upsert_alert) (\<lambda>now. mem_resolve_alert) cs alerts)"
    using same by (rule Pair_inject)
  show "active (fst (store_run upsert_alert resolve_alert cs rows))
      = mem_active (fst (store_run (\<lambda>now. mem_upsert_alert) (\<lambda>now. mem_resolve_alert) cs alerts))"
    using same by (rule Pair_inject)
qed

lemma mem_list_active:
  assumes "mem_alerts_wf alerts" and "length alerts \<le> nat limit"
  shows "ma_fingerprint ` set (mem_list_alerts (Some ''active'') limit alerts) = mem_active alerts"
proof -
  have few: "length (filter (\<lambda>a. Some (ma_status a) = Some ''active'') (bt_values alerts)) \<le> nat limit"
    by (rule le_trans [OF length_filter_le]) (simp add: bt_values_def assms(2))
  have wf: "bt_wf alerts" using assms(1) by (simp add: mem_alerts_wf_def)
  have stored: "(f, a) \<in> set alerts \<Longrightarrow> ma_fingerprint a = f" for f a
    using assms(1) by (auto simp: mem_alerts_wf_def bt_get_in_set)
  have "ma_fingerprint ` set (mem_list_alerts (Some ''active'') limit alerts)
      = ma_fingerprint ` {a \<in> set (bt_values alerts). ma_status a = ''active''}"
    using few by (simp add: mem_list_alerts_def)
  also have "\<dots> = mem_active alerts"
  proof (rule set_eqI, rule iffI)
    fix f
    assume "f \<in> ma_fingerprint ` {a \<in> set (bt_values alerts). ma_status a = ''active''}"
    then obtain g a where a: "(g, a) \<in> set alerts" "ma_status a = ''active''" "f = ma_fingerprint a"
      by (auto simp: bt_values_def)
    then show "f \<in> mem_active alerts" using stored [OF a(1)] wf by (auto simp: mem_active_def bt_get_in_set)
  next
    fix f
    assume "f \<in> mem_active alerts"
    then obtain a where a: "(f, a) \<in> set alerts" "ma_status a = ''active''"
      using wf by (auto simp: mem_active_def bt_get_in_set)
    then have "a \<in> set (bt_values alerts)" by (force simp: bt_values_def)
    then show "f \<in> ma_fingerprint ` {a \<in> set (bt_values alerts). ma_status a = ''active''}"
      using stored [OF a(1)] a(2) by blast
  qed
  finally show ?thesis .
qed

section \<open>What share quality counts\<close>

definition of_worker :: "string \<times> string \<Rightarrow> share_record \<Rightarrow> bool" where
  "of_worker w s \<longleftrightarrow> (sh_miner s, sh_worker_name s) = w"

definition events_of :: "string \<Rightarrow> string \<times> string \<Rightarrow> share_event_record list \<Rightarrow> nat" where
  "events_of kind w es = length (filter (\<lambda>e. ev_kind e = kind \<and> (ev_miner e, ev_worker_name e) = w) es)"

definition count_at :: "quality_counts \<Rightarrow> string \<times> string \<Rightarrow> u64 \<times> u64 \<times> u64" where
  "count_at c w = (case bt_get c w of Some x \<Rightarrow> x | None \<Rightarrow> (0, 0, 0))"

lemma count_shares:
  "bt_wf c \<Longrightarrow> bt_wf (fold count_share ss c) \<and> count_at (fold count_share ss c) w =
     (case count_at c w of (a, j, t) \<Rightarrow> (a + of_nat (length (filter (of_worker w) ss)), j, t))"
proof (induction ss arbitrary: c)
  case (Cons s ss)
  have "bt_wf (count_share s c)" using Cons.prems by (simp add: count_share_def)
  moreover have "count_at (count_share s c) w = (case count_at c w of (a, j, t) \<Rightarrow> (if of_worker w s then a + 1 else a, j, t))"
    using Cons.prems by (auto simp: count_share_def count_at_def of_worker_def bt_get_entry split: option.splits)
  ultimately show ?case using Cons.IH [of "count_share s c"] by (auto split: prod.splits)
qed simp

lemma count_events:
  "bt_wf c \<Longrightarrow> count_at (fold count_event es c) w =
     (case count_at c w of (a, j, t) \<Rightarrow>
        (a, j + of_nat (events_of ''rejected'' w es), t + of_nat (events_of ''stale'' w es)))"
proof (induction es arbitrary: c)
  case (Cons e es)
  have "bt_wf (count_event e c)" using Cons.prems by (simp add: count_event_def Let_def)
  moreover have "count_at (count_event e c) w = (case count_at c w of (a, j, t) \<Rightarrow>
      if (ev_miner e, ev_worker_name e) \<noteq> w then (a, j, t)
      else if ev_kind e = ''rejected'' then (a, j + 1, t) else if ev_kind e = ''stale'' then (a, j, t + 1) else (a, j, t))"
    using Cons.prems by (auto simp: count_event_def count_at_def bt_get_entry Let_def split: option.splits)
  ultimately show ?case using Cons.IH [of "count_event e c"]
    by (auto simp: events_of_def split: prod.splits if_splits)
qed (simp add: events_of_def)

text \<open>The counts of a worker are the accepted shares and the rejected and stale events of that worker.\<close>

lemma quality_counts_exact:
  "count_at (quality_counts r) w =
     (of_nat (length (filter (of_worker w) (mr_shares r))),
      of_nat (events_of ''rejected'' w (mr_share_events r)), of_nat (events_of ''stale'' w (mr_share_events r)))"
  using count_shares [of "[]" "mr_shares r" w] count_events [of "fold count_share (mr_shares r) []" "mr_share_events r" w]
  by (auto simp: quality_counts_def count_at_def [of "[]"])

end
