(* ===== verification/Csd_Watch.thy ===== *)
theory Csd_Watch
  imports Csd_Monitor Csd_Settings
begin

text \<open>
  The monitoring of a running pool from end to end: the samples of nodes and signer (\<open>sample_health\<close> of
  crate \<open>csd-pool-workers\<close>), the queries of \<open>MonitoringRepository\<close> for PostgreSQL (crate
  \<open>csd-pool-db\<close>) and the settings of the alert job, and what these and \<open>check_alerts\<close> together
  achieve: which causes in the tables have an active alert after a run. Times are microseconds;
  \<open>now - n minutes\<close> is computed without the limit of the server's \<open>interval\<close>. The tables
  extend the records of the mining and payout tables by the columns only these queries read. Texts sort
  by their bytes, and rates as exact fractions.
\<close>

section \<open>Settings\<close>

text \<open>\<open>str::parse::<i64>\<close>\<close>

definition parse_i64 :: "string \<Rightarrow> int option" where
  "parse_i64 s =
     (case s of
        c # c' # cs \<Rightarrow>
          if c = CHR ''-'' then map_option (\<lambda>n. - int n) (parse_digits 10 (2 ^ 63 + 1) 0 (c' # cs))
          else map_option int (parse_uint 10 (2 ^ 63) s)
      | _ \<Rightarrow> map_option int (parse_uint 10 (2 ^ 63) s))"

definition env_minutes :: "environment \<Rightarrow> string \<Rightarrow> int \<Rightarrow> int" where
  "env_minutes env name dflt = coalesce (Option.bind (env name) parse_i64) dflt"

definition stuck_payout_minutes :: "environment \<Rightarrow> int" where
  "stuck_payout_minutes env = env_minutes env ''CSD_POOL_STUCK_PAYOUT_MINUTES'' 60"

definition block_submission_stuck_minutes :: "environment \<Rightarrow> int" where
  "block_submission_stuck_minutes env = env_minutes env ''CSD_POOL_BLOCK_SUBMISSION_STUCK_MINUTES'' 10"

definition no_accepted_share_minutes :: "environment \<Rightarrow> int" where
  "no_accepted_share_minutes env = env_minutes env ''CSD_POOL_NO_ACCEPTED_SHARE_MINUTES'' 10"

definition share_quality_window_minutes :: "environment \<Rightarrow> int" where
  "share_quality_window_minutes env = env_minutes env ''CSD_POOL_SHARE_QUALITY_WINDOW_MINUTES'' 10"

definition worker_offline_minutes :: "environment \<Rightarrow> int" where
  "worker_offline_minutes env = env_minutes env ''CSD_POOL_WORKER_OFFLINE_MINUTES'' 15"

definition share_quality_min_total :: "environment \<Rightarrow> u64" where
  "share_quality_min_total env = env_u64 env ''CSD_POOL_SHARE_QUALITY_MIN_TOTAL'' 50"

definition max_template_age_secs :: "environment \<Rightarrow> u64" where
  "max_template_age_secs env = env_u64 env ''CSD_POOL_MAX_TEMPLATE_AGE_SECS'' 120"

text \<open>\<open>clamp(0.0, 1.0)\<close> of a value that is never NaN cannot panic.\<close>

definition env_rate :: "environment \<Rightarrow> string \<Rightarrow> f64 \<Rightarrow> f64" where
  "env_rate env name dflt =
     (let rate = (case Option.bind (env name) parse_f64 of
          Some v \<Rightarrow> if fis_finite v then v else dflt | None \<Rightarrow> dflt)
      in case fclamp rate (Fin 0) (Fin 1) of Some v \<Rightarrow> v | None \<Rightarrow> rate)"

definition max_reject_rate :: "environment \<Rightarrow> f64" where
  "max_reject_rate env = env_rate env ''CSD_POOL_MAX_REJECT_RATE'' (fround (5 / 100))"

definition max_stale_rate :: "environment \<Rightarrow> f64" where
  "max_stale_rate env = env_rate env ''CSD_POOL_MAX_STALE_RATE'' (fround (2 / 100))"

definition worker_offline_excluded_prefixes :: "environment \<Rightarrow> string list" where
  "worker_offline_excluded_prefixes env =
     filter (\<lambda>p. p \<noteq> []) (map trim (split_char (CHR '','')
       (coalesce (env ''CSD_POOL_WORKER_OFFLINE_EXCLUDED_PREFIXES'') [])))"

definition configured_nodes :: "environment \<Rightarrow> config_files \<Rightarrow> csd_node_section list" where
  "configured_nodes env files =
     (case env ''CSD_POOL_CONFIG'' of
        None \<Rightarrow> [csd_node_section_default]
      | Some path \<Rightarrow> (case files path of Inr c \<Rightarrow> cf_csd_nodes c | Inl _ \<Rightarrow> [csd_node_section_default]))"

definition signer_url :: "environment \<Rightarrow> config_files \<Rightarrow> string option" where
  "signer_url env files =
     nonempty_env env (case env ''CSD_POOL_CONFIG'' of
        None \<Rightarrow> ''CSD_POOL_SIGNER_URL''
      | Some path \<Rightarrow> (case files path of Inr c \<Rightarrow> cs_url_env (cf_signer c) | Inl _ \<Rightarrow> ''CSD_POOL_SIGNER_URL''))"

section \<open>Samples\<close>

text \<open>A row of \<open>node_samples\<close>, with columns \<open>bigint\<close> and \<open>integer\<close>: the casts on the way in wrap.\<close>

record sample_row =
  ns_node_name :: string
  ns_height :: "64 word option"
  ns_chainwork :: "string option"
  ns_peers :: "32 word option"
  ns_mempool_size :: "32 word option"
  ns_rpc_ms :: "f64 option"
  ns_ok :: bool
  ns_sampled_at :: nat

definition insert_node_sample :: "nat \<Rightarrow> node_sample \<Rightarrow> sample_row list \<Rightarrow> sample_row list" where
  "insert_node_sample now s rows = rows @
     [\<lparr>ns_node_name = sa_node_name s, ns_height = sa_height s, ns_chainwork = sa_chainwork s,
       ns_peers = map_option ucast (sa_peers s), ns_mempool_size = map_option ucast (sa_mempool_size s),
       ns_rpc_ms = sa_rpc_ms s, ns_ok = sa_ok s, ns_sampled_at = now\<rparr>]"

text \<open>\<open>u64::try_from\<close> of a signed column.\<close>

definition signed_column :: "'a::len word option \<Rightarrow> db_error + u64 option" where
  "signed_column x = (case x of None \<Rightarrow> Inr None
     | Some w \<Rightarrow> if sint w < 0 then Inl IntegerOutOfRange else Inr (Some (ucast w)))"

definition sample_of_row :: "sample_row \<Rightarrow> db_error + node_sample" where
  "sample_of_row r =
     result_bind (signed_column (ns_height r)) (\<lambda>height.
     result_bind (signed_column (ns_peers r)) (\<lambda>peers.
     result_bind (signed_column (ns_mempool_size r)) (\<lambda>mempool_size.
       Inr \<lparr>sa_node_name = ns_node_name r, sa_height = height, sa_chainwork = ns_chainwork r, sa_peers = peers,
            sa_mempool_size = mempool_size, sa_rpc_ms = ns_rpc_ms r, sa_ok = ns_ok r\<rparr>)))"

text \<open>\<open>distinct on (node_name) ... order by node_name asc, sampled_at desc\<close>\<close>

definition latest_sample_rows :: "sample_row list \<Rightarrow> sample_row list" where
  "latest_sample_rows rows =
     map (\<lambda>n. List.last (sort_key ns_sampled_at (filter (\<lambda>r. ns_node_name r = n) rows)))
       (sort (remdups (map ns_node_name rows)))"

definition latest_node_samples :: "nat \<Rightarrow> sample_row list \<Rightarrow> db_error + node_sample list" where
  "latest_node_samples limit rows = map_result sample_of_row (take limit (latest_sample_rows rows))"

text \<open>The sample of what the health request of a node answers (None is an error).\<close>

definition node_sample_of :: "string \<Rightarrow> node_health option \<Rightarrow> f64 \<Rightarrow> node_sample" where
  "node_sample_of name health rpc_ms =
     (case health of
        Some h \<Rightarrow> \<lparr>sa_node_name = ''node:'' @ name, sa_height = nh_height h, sa_chainwork = nh_chainwork h,
          sa_peers = nh_peers h, sa_mempool_size = None, sa_rpc_ms = Some rpc_ms, sa_ok = True\<rparr>
      | None \<Rightarrow> \<lparr>sa_node_name = ''node:'' @ name, sa_height = None, sa_chainwork = None,
          sa_peers = None, sa_mempool_size = None, sa_rpc_ms = Some rpc_ms, sa_ok = False\<rparr>)"

definition signer_sample_of :: "bool \<Rightarrow> f64 \<Rightarrow> node_sample" where
  "signer_sample_of ok rpc_ms = \<lparr>sa_node_name = ''signer'', sa_height = None, sa_chainwork = None,
     sa_peers = None, sa_mempool_size = None, sa_rpc_ms = Some rpc_ms, sa_ok = ok\<rparr>"

text \<open>
  One run over the configured nodes, with what each node and the signer answer and how long they take,
  and the clock of the server at each insert.
\<close>

definition sample_health ::
  "(nat \<times> string \<times> node_health option \<times> f64) list \<Rightarrow> (nat \<times> bool \<times> f64) option \<Rightarrow> sample_row list
   \<Rightarrow> sample_row list \<times> node_sample list" where
  "sample_health nodes signer rows =
     (let samples = map (\<lambda>(t, name, health, ms). (t, node_sample_of name health ms)) nodes
          @ (case signer of None \<Rightarrow> [] | Some (t, ok, ms) \<Rightarrow> [(t, signer_sample_of ok ms)])
      in (fold (\<lambda>(t, s). insert_node_sample t s) samples rows, map snd samples))"

section \<open>Queries\<close>

definition older_than :: "int \<Rightarrow> int \<Rightarrow> int \<Rightarrow> bool" where
  "older_than now minutes t \<longleftrightarrow> t < now - max 1 minutes * 60000000"

record watched_batch = batch_row +
  wp_signed_at :: "nat option"
  wp_submitted_at :: "nat option"

definition batch_since :: "watched_batch \<Rightarrow> nat" where
  "batch_since b = coalesce (wp_submitted_at b) (coalesce (wp_signed_at b) (pb_created_at b))"

definition list_stuck_payout_batches ::
  "int \<Rightarrow> int \<Rightarrow> nat \<Rightarrow> watched_batch list \<Rightarrow> db_error + payout_batch_record list" where
  "list_stuck_payout_batches now minutes limit batches =
     map_result (hydrate_batch \<circ> batch_row.truncate)
       (take limit (sort_key (\<lambda>b. (batch_since b, pb_id b))
         (filter (\<lambda>b. pb_status b \<in> {''created'', ''signed'', ''submitted''} \<and> older_than now minutes (int (batch_since b)))
           batches)))"

text \<open>Rows of \<open>workers\<close> joined with their miner, in the order of their ids.\<close>

record worker_row =
  wk_miner :: string
  wk_name :: string
  wk_last_seen_at :: "nat option"

definition list_offline_workers :: "int \<Rightarrow> int \<Rightarrow> nat \<Rightarrow> worker_row list \<Rightarrow> (string \<times> string) list" where
  "list_offline_workers now minutes limit workers =
     map (\<lambda>w. (wk_miner w, wk_name w)) (take limit (sort_key (nulls_last \<circ> wk_last_seen_at)
       (filter (\<lambda>w. case wk_last_seen_at w of None \<Rightarrow> False | Some t \<Rightarrow> older_than now minutes (int t)) workers)))"

text \<open>A row, if there is a share at all and the last one is older.\<close>

definition accepted_share_gap :: "int \<Rightarrow> int \<Rightarrow> share_row list \<Rightarrow> nat option" where
  "accepted_share_gap now minutes shares =
     (if shares = [] then None
      else let latest = Max (set (map hr_created_at shares)) in
        if older_than now minutes (int latest) then Some latest else None)"

record watched_job = job_record +
  wj_created_at :: nat

text \<open>\<open>extract(epoch from age)::bigint\<close> rounds to the nearest second.\<close>

definition age_seconds :: "int \<Rightarrow> nat \<Rightarrow> u64" where
  "age_seconds now t = word_of_int (max 0 ((now - int t + 500000) div 1000000))"

definition query_latest_job :: "int \<Rightarrow> watched_job list \<Rightarrow> latest_job option" where
  "query_latest_job now jobs =
     (case rev (sort_key (\<lambda>j. (wj_created_at j, jr_job_id j)) jobs) of
        [] \<Rightarrow> None
      | j # _ \<Rightarrow> Some \<lparr>lj_job_id = jr_job_id j, lj_prev_hash = jr_prev_hash_be_hex j,
                     lj_age_seconds = age_seconds now (wj_created_at j)\<rparr>)"

record watched_block = block_row +
  wb_submit_response_json :: json

text \<open>
  \<open>(submit_response_json->>'ok')::boolean\<close>: \<open>cast\<close> is what the server reads in a member, an error
  when its text is no boolean.
\<close>

definition submit_ok :: "(json \<Rightarrow> db_error + bool option) \<Rightarrow> watched_block \<Rightarrow> db_error + bool option" where
  "submit_ok cast b = (case json_get (wb_submit_response_json b) ''ok'' of None \<Rightarrow> Inr None | Some v \<Rightarrow> cast v)"

definition attention_statuses :: "string list" where
  "attention_statuses = [''submitted_secondary'', ''submitted_degraded'', ''relay_failed'']"

definition block_needs_attention :: "int \<Rightarrow> int \<Rightarrow> bool option \<Rightarrow> watched_block \<Rightarrow> bool" where
  "block_needs_attention now minutes ok b \<longleftrightarrow>
     bk_status b \<in> set attention_statuses
     \<or> bk_status b = ''submitted''
       \<and> (ok = Some False \<or> (case bk_submitted_at b of None \<Rightarrow> False | Some t \<Rightarrow> older_than now minutes (int t)))"

definition submission_alert_of_block :: "bool option \<Rightarrow> watched_block \<Rightarrow> submission_alert" where
  "submission_alert_of_block ok b =
     \<lparr>sb_hash_hex = bk_hash_hex b, sb_job_id = coalesce (bk_job_id b) [], sb_status = bk_status b, sb_submit_ok = ok,
      sb_reason = (if bk_status b = ''relay_failed'' then ''local_canonical_relay_failed''
        else if bk_status b = ''submitted_secondary'' then ''authority_failed_secondary_accepted''
        else if bk_status b = ''submitted_degraded'' then ''redundant_relay_failed''
        else if ok = Some False then ''submit_response_not_ok'' else ''submitted_too_old'')\<rparr>"

text \<open>The statement fails when it meets a member it cannot cast; rows of other statuses are not looked at.\<close>

definition list_block_submission_alerts ::
  "(json \<Rightarrow> db_error + bool option) \<Rightarrow> int \<Rightarrow> int \<Rightarrow> nat \<Rightarrow> watched_block list \<Rightarrow> db_error + submission_alert list" where
  "list_block_submission_alerts cast now minutes limit blocks =
     result_bind (map_result (\<lambda>b. result_bind (submit_ok cast b) (\<lambda>ok. Inr (ok, b)))
         (filter (\<lambda>b. bk_status b \<in> set (''submitted'' # attention_statuses)) blocks))
       (\<lambda>rows. Inr (map (\<lambda>(ok, b). submission_alert_of_block ok b)
         (take limit (sort_key (\<lambda>(ok, b). nulls_last (bk_submitted_at b))
           (filter (\<lambda>(ok, b). block_needs_attention now minutes ok b) rows)))))"

text \<open>Rows of \<open>share_events\<close> with their time.\<close>

type_synonym event_row = "nat \<times> share_event_record"

definition accepted_in :: "int \<Rightarrow> int \<Rightarrow> share_row list \<Rightarrow> worker_row \<Rightarrow> nat" where
  "accepted_in now minutes shares w =
     length (filter (\<lambda>r. \<not> older_than now minutes (int (hr_created_at r))
       \<and> sh_miner (hr_share r) = wk_miner w \<and> sh_worker_name (hr_share r) = wk_name w) shares)"

definition events_in :: "int \<Rightarrow> int \<Rightarrow> string \<Rightarrow> event_row list \<Rightarrow> worker_row \<Rightarrow> nat" where
  "events_in now minutes kind events w =
     length (filter (\<lambda>(t, e). \<not> older_than now minutes (int t) \<and> ev_kind e = kind
       \<and> ev_miner e = wk_miner w \<and> ev_worker_name e = wk_name w) events)"

definition quality_counts_of ::
  "int \<Rightarrow> int \<Rightarrow> share_row list \<Rightarrow> event_row list \<Rightarrow> worker_row \<Rightarrow> nat \<times> nat \<times> nat" where
  "quality_counts_of now minutes shares events w =
     (accepted_in now minutes shares w, events_in now minutes ''rejected'' events w, events_in now minutes ''stale'' events w)"

definition quality_row_of :: "worker_row \<Rightarrow> nat \<times> nat \<times> nat \<Rightarrow> quality_row" where
  "quality_row_of w c = (case c of (a, j, t) \<Rightarrow> \<lparr>qr_miner = wk_miner w, qr_worker_name = wk_name w,
     qr_accepted = word_of_nat a, qr_rejected = word_of_nat j, qr_stale = word_of_nat t\<rparr>)"

text \<open>\<open>order by rate desc, last_seen_at desc nulls last\<close>\<close>

definition quality_order :: "worker_row \<times> nat \<times> nat \<times> nat \<Rightarrow> rat \<times> nat \<times> int" where
  "quality_order x = (case x of (w, a, j, t) \<Rightarrow>
     (- (of_nat (j + t) / of_nat (max (a + j + t) 1)),
      case wk_last_seen_at w of Some s \<Rightarrow> (0, - int s) | None \<Rightarrow> (1, 0)))"

definition quality_rows ::
  "int \<Rightarrow> int \<Rightarrow> u64 \<Rightarrow> nat \<Rightarrow> worker_row list \<Rightarrow> share_row list \<Rightarrow> event_row list \<Rightarrow> db_error + quality_row list" where
  "quality_rows now minutes min_total limit workers shares events =
     (if 2 ^ 63 \<le> unat min_total then Inl IntegerOutOfRange
      else Inr (map (\<lambda>(w, c). quality_row_of w c) (take limit (sort_key quality_order
        (filter (\<lambda>(w, a, j, t). unat min_total \<le> a + j + t)
          (map (\<lambda>w. (w, quality_counts_of now minutes shares events w)) workers))))))"

section \<open>The inputs of the alert job\<close>

record watch_tables =
  wt_samples :: "sample_row list"
  wt_workers :: "worker_row list"
  wt_shares :: "share_row list"
  wt_events :: "event_row list"
  wt_jobs :: "watched_job list"
  wt_blocks :: "watched_block list"
  wt_batches :: "watched_batch list"

text \<open>
  What the job works on, from what its queries answer. The limits are those of the code; \<open>healths\<close> are
  the answers of the configured nodes to the question for their tip.
\<close>

definition inputs_with ::
  "environment \<Rightarrow> int \<Rightarrow> node_health option list \<Rightarrow> watch_tables \<Rightarrow> node_sample list \<Rightarrow> submission_alert list
   \<Rightarrow> payout_batch_record list \<Rightarrow> quality_row list \<Rightarrow> alert_inputs" where
  "inputs_with env now healths t samples blocks stuck quality =
     \<lparr>ai_samples = map (\<lambda>s. (sa_node_name s, sa_ok s)) samples,
      ai_share_gap = accepted_share_gap now (no_accepted_share_minutes env) (wt_shares t) \<noteq> None,
      ai_latest_job = query_latest_job now (wt_jobs t),
      ai_max_template_age_secs = max_template_age_secs env,
      ai_node_healths = map (map_option nh_tip) healths,
      ai_blocks = map sb_hash_hex blocks,
      ai_stuck_payouts = map pr_batch_id stuck,
      ai_offline_workers = list_offline_workers now (worker_offline_minutes env) 1000 (wt_workers t),
      ai_excluded_prefixes = worker_offline_excluded_prefixes env,
      ai_quality = quality,
      ai_max_reject_rate = max_reject_rate env,
      ai_max_stale_rate = max_stale_rate env\<rparr>"

text \<open>The four queries that can fail.\<close>

definition sample_query :: "watch_tables \<Rightarrow> db_error + node_sample list" where
  "sample_query t = latest_node_samples 100 (wt_samples t)"

definition block_query ::
  "(json \<Rightarrow> db_error + bool option) \<Rightarrow> environment \<Rightarrow> int \<Rightarrow> watch_tables \<Rightarrow> db_error + submission_alert list" where
  "block_query cast env now t = list_block_submission_alerts cast now (block_submission_stuck_minutes env) 100 (wt_blocks t)"

definition stuck_query :: "environment \<Rightarrow> int \<Rightarrow> watch_tables \<Rightarrow> db_error + payout_batch_record list" where
  "stuck_query env now t = list_stuck_payout_batches now (stuck_payout_minutes env) 100 (wt_batches t)"

definition quality_query :: "environment \<Rightarrow> int \<Rightarrow> watch_tables \<Rightarrow> db_error + quality_row list" where
  "quality_query env now t = quality_rows now (share_quality_window_minutes env) (share_quality_min_total env) 1000
     (wt_workers t) (wt_shares t) (wt_events t)"

text \<open>
  A run with its queries where the code has them: one that fails ends the run, and the alerts are
  what the run has made of them until then.
\<close>

definition watch_run ::
  "(json \<Rightarrow> db_error + bool option) \<Rightarrow> (string \<Rightarrow> bytes option) \<Rightarrow> environment \<Rightarrow> nat \<Rightarrow> node_health option list
   \<Rightarrow> watch_tables \<Rightarrow> alert_row list \<Rightarrow> alert_row list \<times> (db_error + string list)" where
  "watch_run cast hexd env now healths t rows =
     (let inputs = inputs_with env (int now) healths t in
      case sample_query t of Inl e \<Rightarrow> (rows, Inl e)
      | Inr samples \<Rightarrow>
     (let rows1 = single_alerts hexd now (inputs samples [] [] []) rows in
      case block_query cast env (int now) t of Inl e \<Rightarrow> (rows1, Inl e)
      | Inr blocks \<Rightarrow>
     (let rows2 = renew now [''block_submission''] (block_alerts (inputs samples blocks [] [])) rows1 in
      case stuck_query env (int now) t of Inl e \<Rightarrow> (rows2, Inl e)
      | Inr stuck \<Rightarrow>
     (let rows3 = raise_all now (stuck_alerts (inputs samples blocks stuck [])) rows2;
          rows4 = renew now [''worker_offline''] (offline_alerts (inputs samples blocks stuck [])) rows3 in
      case quality_query env (int now) t of Inl e \<Rightarrow> (rows4, Inl e)
      | Inr quality \<Rightarrow>
     (let i = inputs samples blocks stuck quality in
      (renew now [''high_reject_rate'', ''high_stale_rate''] (quality_alerts i) rows4,
       Inr (snd (check_alerts hexd now i rows))))))))"

section \<open>A run whose queries answer\<close>

lemma watch_run_check:
  assumes "sample_query t = Inr samples" and "block_query cast env (int now) t = Inr blocks"
    and "stuck_query env (int now) t = Inr stuck" and "quality_query env (int now) t = Inr quality"
  shows "watch_run cast hexd env now healths t rows =
    (let i = inputs_with env (int now) healths t samples blocks stuck quality in
     (fst (check_alerts hexd now i rows), Inr (snd (check_alerts hexd now i rows))))"
  unfolding watch_run_def assms sum.case Let_def check_alerts_renew
  by (simp add: single_alerts_def template_stale_def block_alerts_def stuck_alerts_def offline_alerts_def inputs_with_def
      cong: option.case_cong)

text \<open>An answer of the run is the answer of all its queries.\<close>

lemma watch_run_Inr:
  assumes "watch_run cast hexd env now healths t rows = (rows', Inr fs)"
  obtains samples blocks stuck quality where "sample_query t = Inr samples"
    and "block_query cast env (int now) t = Inr blocks" and "stuck_query env (int now) t = Inr stuck"
    and "quality_query env (int now) t = Inr quality"
    and "rows' = fst (check_alerts hexd now (inputs_with env (int now) healths t samples blocks stuck quality) rows)"
    and "fs = snd (check_alerts hexd now (inputs_with env (int now) healths t samples blocks stuck quality) rows)"
proof -
  have "\<exists>samples. sample_query t = Inr samples"
    using assms by (cases "sample_query t") (simp_all add: watch_run_def)
  then obtain samples where 1: "sample_query t = Inr samples" by blast
  have "\<exists>blocks. block_query cast env (int now) t = Inr blocks"
    using assms 1 by (cases "block_query cast env (int now) t") (simp_all add: watch_run_def Let_def)
  then obtain blocks where 2: "block_query cast env (int now) t = Inr blocks" by blast
  have "\<exists>stuck. stuck_query env (int now) t = Inr stuck"
    using assms 1 2 by (cases "stuck_query env (int now) t") (simp_all add: watch_run_def Let_def)
  then obtain stuck where 3: "stuck_query env (int now) t = Inr stuck" by blast
  have "\<exists>quality. quality_query env (int now) t = Inr quality"
    using assms 1 2 3 by (cases "quality_query env (int now) t") (simp_all add: watch_run_def Let_def)
  then obtain quality where 4: "quality_query env (int now) t = Inr quality" by blast
  show thesis
    using watch_run_check [OF 1 2 3 4, of hexd healths rows] assms that [OF 1 2 3 4] by (simp add: Let_def)
qed

text \<open>A failed sample query leaves every alert as it was.\<close>

lemma watch_run_no_samples: "sample_query t = Inl e \<Longrightarrow> watch_run cast hexd env now healths t rows = (rows, Inl e)"
  by (simp add: watch_run_def)

section \<open>What the queries find\<close>

lemma set_limited: "length xs \<le> n \<Longrightarrow> set (take n (sort_key k xs)) = set xs"
  by simp

lemma set_limited_filter: "length xs \<le> n \<Longrightarrow> set (take n (sort_key k (filter P xs))) = {x \<in> set xs. P x}"
  using set_limited [of "filter P xs" n k] le_trans [OF length_filter_le [of P xs]] by simp

lemma offline_found:
  assumes "length workers \<le> limit"
  shows "(m, w) \<in> set (list_offline_workers now minutes limit workers) \<longleftrightarrow>
    (\<exists>r \<in> set workers. wk_miner r = m \<and> wk_name r = w
      \<and> (\<exists>seen. wk_last_seen_at r = Some seen \<and> older_than now minutes (int seen)))"
  unfolding list_offline_workers_def set_map set_limited_filter [OF assms]
  by (auto split: option.splits)

lemma gap_found:
  "accepted_share_gap now minutes shares \<noteq> None \<longleftrightarrow>
     shares \<noteq> [] \<and> (\<forall>r \<in> set shares. older_than now minutes (int (hr_created_at r)))"
proof (cases "shares = []")
  case False
  let ?T = "set (map hr_created_at shares)"
  have T: "finite ?T" "?T \<noteq> {}" using False by simp_all
  have "older_than now minutes (int (Max ?T)) \<longleftrightarrow> (\<forall>t \<in> ?T. older_than now minutes (int t))"
  proof
    assume "older_than now minutes (int (Max ?T))"
    then show "\<forall>t \<in> ?T. older_than now minutes (int t)"
      using Max_ge [OF T(1)] unfolding older_than_def by (meson le_less_trans of_nat_le_iff)
  qed (use Max_in [OF T] in blast)
  then show ?thesis using False by (auto simp: accepted_share_gap_def Let_def)
qed (simp add: accepted_share_gap_def)

lemma list_all2_find: "list_all2 P xs ys \<Longrightarrow> x \<in> set xs \<Longrightarrow> \<exists>y \<in> set ys. P x y"
  by (induction rule: list_all2_induct) auto

lemma list_all2_source: "list_all2 P xs ys \<Longrightarrow> y \<in> set ys \<Longrightarrow> \<exists>x \<in> set xs. P x y"
  by (induction rule: list_all2_induct) auto

lemma blocks_found:
  assumes found: "list_block_submission_alerts cast now minutes limit blocks = Inr alerts"
    and few: "length (filter (\<lambda>b. bk_status b \<in> set (''submitted'' # attention_statuses)) blocks) \<le> limit"
  shows "h \<in> sb_hash_hex ` set alerts \<longleftrightarrow>
    (\<exists>b \<in> set blocks. bk_hash_hex b = h \<and> (\<exists>ok. submit_ok cast b = Inr ok \<and> block_needs_attention now minutes ok b))"
proof -
  let ?row = "\<lambda>b. result_bind (submit_ok cast b) (\<lambda>ok. Inr (ok, b))"
  let ?bs = "filter (\<lambda>b. bk_status b \<in> set (''submitted'' # attention_statuses)) blocks"
  obtain rows where rows: "map_result ?row ?bs = Inr rows"
    and alerts: "alerts = map (\<lambda>(ok, b). submission_alert_of_block ok b) (take limit (sort_key (\<lambda>(ok, b). nulls_last (bk_submitted_at b))
           (filter (\<lambda>(ok, b). block_needs_attention now minutes ok b) rows)))"
    using found unfolding list_block_submission_alerts_def by (auto simp: result_bind_eq_Inr)
  have all: "list_all2 (\<lambda>b r. ?row b = Inr r) ?bs rows" using rows by (simp only: map_result_Inr)
  have "length rows \<le> limit"
    unfolding list_all2_lengthD [OF all, symmetric] by (rule few)
  then have listed: "set alerts = (\<lambda>(ok, b). submission_alert_of_block ok b) ` {(ok, b). (ok, b) \<in> set rows \<and> block_needs_attention now minutes ok b}"
    unfolding alerts set_map by (subst set_limited_filter) (auto intro!: image_cong)
  have hashes: "h \<in> sb_hash_hex ` set alerts \<longleftrightarrow> (\<exists>ok b. (ok, b) \<in> set rows \<and> block_needs_attention now minutes ok b \<and> bk_hash_hex b = h)"
    unfolding listed image_image by (auto simp: image_iff submission_alert_of_block_def split: prod.split)
  have "(ok, b) \<in> set rows \<longleftrightarrow> b \<in> set ?bs \<and> submit_ok cast b = Inr ok" for ok b
  proof
    assume "(ok, b) \<in> set rows"
    then obtain b' where b': "b' \<in> set ?bs" "?row b' = Inr (ok, b)" using list_all2_source [OF all] by blast
    then have "b' = b \<and> submit_ok cast b = Inr ok" unfolding result_bind_eq_Inr by blast
    then show "b \<in> set ?bs \<and> submit_ok cast b = Inr ok" using b'(1) by simp
  next
    assume b: "b \<in> set ?bs \<and> submit_ok cast b = Inr ok"
    then obtain r where "r \<in> set rows" "?row b = Inr r" using list_all2_find [OF all] by blast
    then show "(ok, b) \<in> set rows" using b by simp
  qed
  moreover have "block_needs_attention now minutes ok b \<Longrightarrow> bk_status b \<in> set (''submitted'' # attention_statuses)" for ok b
    by (auto simp: block_needs_attention_def)
  ultimately show ?thesis unfolding hashes set_filter by blast
qed


text \<open>The sample of a node that is later than all others of it is the one the query answers.\<close>

lemma last_sort_key:
  assumes "xs \<noteq> []"
  shows "List.last (sort_key f xs) \<in> set xs" "y \<in> set xs \<Longrightarrow> f y \<le> f (List.last (sort_key f xs))"
proof -
  obtain ys z where sorted_xs: "sort_key f xs = ys @ [z]"
    using assms by (metis rev_exhaust set_sort set_empty)
  have all: "set (ys @ [z]) = set xs" by (simp only: sorted_xs [symmetric] set_sort)
  then show "List.last (sort_key f xs) \<in> set xs" by (auto simp: sorted_xs)
  have "sorted (map f (ys @ [z]))" by (simp only: sorted_xs [symmetric] sorted_sort_key)
  then have "y \<in> set (ys @ [z]) \<Longrightarrow> f y \<le> f z" by (auto simp: sorted_append)
  then show "y \<in> set xs \<Longrightarrow> f y \<le> f (List.last (sort_key f xs))" by (simp add: sorted_xs all [symmetric])
qed

definition latest_sample :: "sample_row list \<Rightarrow> sample_row \<Rightarrow> bool" where
  "latest_sample rows r \<longleftrightarrow> r \<in> set rows
     \<and> (\<forall>r' \<in> set rows. ns_node_name r' = ns_node_name r \<longrightarrow> r' = r \<or> ns_sampled_at r' < ns_sampled_at r)"

lemma latest_sample_rows_names:
  "map ns_node_name (latest_sample_rows rows) = sort (remdups (map ns_node_name rows))"
proof -
  have "ns_node_name (List.last (sort_key ns_sampled_at (filter (\<lambda>r. ns_node_name r = n) rows))) = n"
    if "n \<in> set (map ns_node_name rows)" for n
  proof -
    have "filter (\<lambda>r. ns_node_name r = n) rows \<noteq> []" using that by (auto simp: filter_empty_conv)
    from last_sort_key(1) [OF this, of ns_sampled_at] show ?thesis by simp
  qed
  then show ?thesis unfolding latest_sample_rows_def map_map by (intro map_idI) simp
qed

lemma latest_sample_listed:
  assumes "latest_sample rows r"
  shows "r \<in> set (latest_sample_rows rows)"
proof -
  let ?rs = "filter (\<lambda>r'. ns_node_name r' = ns_node_name r) rows"
  have r: "r \<in> set ?rs" using assms by (simp add: latest_sample_def)
  then have "?rs \<noteq> []" by (metis empty_iff empty_set)
  note l = last_sort_key [OF this, where f = ns_sampled_at]
  have "List.last (sort_key ns_sampled_at ?rs) = r"
    using l(1) l(2) [OF r] assms by (auto simp: latest_sample_def)
  then show ?thesis using assms by (force simp: latest_sample_rows_def latest_sample_def)
qed

lemma samples_found:
  assumes found: "latest_node_samples limit rows = Inr samples" and few: "card (ns_node_name ` set rows) \<le> limit"
  shows "distinct (map sa_node_name samples)"
    "latest_sample rows r \<Longrightarrow> (ns_node_name r, ns_ok r) \<in> set (map (\<lambda>s. (sa_node_name s, sa_ok s)) samples)"
proof -
  have names: "length (latest_sample_rows rows) \<le> limit"
  proof -
    have "length (latest_sample_rows rows) = length (remdups (map ns_node_name rows))"
      by (simp only: length_map [of ns_node_name, symmetric] latest_sample_rows_names length_sort)
    also have "\<dots> = card (ns_node_name ` set rows)" by (simp add: length_remdups_card_conv)
    finally show ?thesis using few by simp
  qed
  then have all: "list_all2 (\<lambda>r s. sample_of_row r = Inr s) (latest_sample_rows rows) samples"
    using found by (simp add: latest_node_samples_def map_result_Inr)
  have same: "sample_of_row r = Inr s \<Longrightarrow> sa_node_name s = ns_node_name r \<and> sa_ok s = ns_ok r" for r s
    by (auto simp: sample_of_row_def result_bind_eq_Inr)
  have "map sa_node_name samples = map ns_node_name (latest_sample_rows rows)"
    using all same by (auto simp: list_all2_conv_all_nth intro!: nth_equalityI)
  then show "distinct (map sa_node_name samples)" by (simp add: latest_sample_rows_names)
  assume "latest_sample rows r"
  from latest_sample_listed [OF this] obtain s where "s \<in> set samples" "sample_of_row r = Inr s"
    using list_all2_find [OF all] by blast
  then show "(ns_node_name r, ns_ok r) \<in> set (map (\<lambda>s. (sa_node_name s, sa_ok s)) samples)"
    using same by (force simp: image_iff)
qed

text \<open>A rate of a part in a total, in the arithmetic of the code.\<close>

definition rate_over :: "f64 \<Rightarrow> nat \<Rightarrow> nat \<Rightarrow> bool" where
  "rate_over limit part n \<longleftrightarrow> 0 < n \<and> flt limit (fdiv (f_of_nat part) (f_of_nat n))"

lemma unat_small: "n < 2 ^ 64 \<Longrightarrow> unat (word_of_nat n :: u64) = n"
  by (simp add: unat_of_nat take_bit_nat_eq_self)

lemma quality_alert_rates:
  assumes "a + j + t < 2 ^ 64"
  shows "(\<exists>q. share_quality_alert_from_counts maxr maxs (quality_row_of w (a, j, t)) = Some q \<and> flt maxr (qa_reject_rate q))
      \<longleftrightarrow> rate_over maxr j (a + j + t)"
    "(\<exists>q. share_quality_alert_from_counts maxr maxs (quality_row_of w (a, j, t)) = Some q \<and> flt maxs (qa_stale_rate q))
      \<longleftrightarrow> rate_over maxs t (a + j + t)"
proof -
  have total_word: "(word_of_nat a + word_of_nat j + word_of_nat t :: u64) = word_of_nat (a + j + t)" by simp
  define n where "n = a + j + t"
  have parts: "unat (word_of_nat j :: u64) = j" "unat (word_of_nat t :: u64) = t" "unat (word_of_nat n :: u64) = n"
    using assms by (auto simp only: n_def intro!: unat_small)
  have zero: "(word_of_nat n :: u64) = 0 \<longleftrightarrow> n = 0"
    unfolding word_unat_eq_iff parts(3) by simp
  define R where "R = fdiv (f_of_nat j) (f_of_nat n)"
  define S where "S = fdiv (f_of_nat t) (f_of_nat n)"
  have alert: "share_quality_alert_from_counts maxr maxs (quality_row_of w (a, j, t)) =
    (if n = 0 then None
     else if fle R maxr \<and> fle S maxs then None
       else Some \<lparr>qa_miner = wk_miner w, qa_worker_name = wk_name w, qa_accepted = word_of_nat a,
         qa_rejected = word_of_nat j, qa_stale = word_of_nat t, qa_reject_rate = R, qa_stale_rate = S\<rparr>)"
    unfolding share_quality_alert_from_counts_def quality_row_of_def prod.case quality_row.simps total_word n_def [symmetric]
      parts Let_def zero R_def S_def by (rule refl)
  have above: "flt maxr R \<Longrightarrow> \<not> fle R maxr" "flt maxs S \<Longrightarrow> \<not> fle S maxs" by (simp_all add: flt_def)
  have rates: "rate_over maxr j (a + j + t) \<longleftrightarrow> 0 < n \<and> flt maxr R" "rate_over maxs t (a + j + t) \<longleftrightarrow> 0 < n \<and> flt maxs S"
    by (simp_all only: rate_over_def n_def R_def S_def)
  show "(\<exists>q. share_quality_alert_from_counts maxr maxs (quality_row_of w (a, j, t)) = Some q \<and> flt maxr (qa_reject_rate q))
      \<longleftrightarrow> rate_over maxr j (a + j + t)"
    "(\<exists>q. share_quality_alert_from_counts maxr maxs (quality_row_of w (a, j, t)) = Some q \<and> flt maxs (qa_stale_rate q))
      \<longleftrightarrow> rate_over maxs t (a + j + t)"
    unfolding alert rates using above by auto
qed

lemma counts_bound:
  assumes "quality_counts_of now minutes shares events w = (a, j, t)"
  shows "a + j + t \<le> length shares + length events"
proof -
  have "j + t \<le> length events"
    using assms unfolding quality_counts_of_def events_in_def
  proof (induction events arbitrary: j t)
    case (Cons e events)
    then show ?case by (cases e) (force split: if_splits)
  qed simp
  moreover have "a \<le> length shares" using assms by (auto simp: quality_counts_of_def accepted_in_def)
  ultimately show ?thesis by simp
qed


section \<open>Which causes have an active alert\<close>

definition gap_due :: "environment \<Rightarrow> int \<Rightarrow> watch_tables \<Rightarrow> bool" where
  "gap_due env now t \<longleftrightarrow> wt_shares t \<noteq> []
     \<and> (\<forall>r \<in> set (wt_shares t). older_than now (no_accepted_share_minutes env) (int (hr_created_at r)))"

definition block_due :: "(json \<Rightarrow> db_error + bool option) \<Rightarrow> environment \<Rightarrow> int \<Rightarrow> watch_tables \<Rightarrow> string \<Rightarrow> bool" where
  "block_due cast env now t h \<longleftrightarrow> (\<exists>b \<in> set (wt_blocks t). bk_hash_hex b = h
     \<and> (\<exists>ok. submit_ok cast b = Inr ok \<and> block_needs_attention now (block_submission_stuck_minutes env) ok b))"

definition offline_due :: "environment \<Rightarrow> int \<Rightarrow> watch_tables \<Rightarrow> string \<Rightarrow> string \<Rightarrow> bool" where
  "offline_due env now t m w \<longleftrightarrow> \<not> worker_offline_alert_excluded w (worker_offline_excluded_prefixes env)
     \<and> (\<exists>r \<in> set (wt_workers t). wk_miner r = m \<and> wk_name r = w
          \<and> (\<exists>seen. wk_last_seen_at r = Some seen \<and> older_than now (worker_offline_minutes env) (int seen)))"

definition reject_due :: "environment \<Rightarrow> int \<Rightarrow> watch_tables \<Rightarrow> string \<Rightarrow> string \<Rightarrow> bool" where
  "reject_due env now t m w \<longleftrightarrow> (\<exists>r \<in> set (wt_workers t). wk_miner r = m \<and> wk_name r = w
     \<and> (case quality_counts_of now (share_quality_window_minutes env) (wt_shares t) (wt_events t) r of (a, j, s) \<Rightarrow>
          unat (share_quality_min_total env) \<le> a + j + s \<and> rate_over (max_reject_rate env) j (a + j + s)))"

text \<open>
  Tables within the limits of the queries: 100 services, 100 open submissions and 1000 workers, fewer
  than 2 to the 64 shares and events, and addresses without a colon (they are 40 hex digits).
\<close>

definition within_limits :: "watch_tables \<Rightarrow> bool" where
  "within_limits t \<longleftrightarrow> card (ns_node_name ` set (wt_samples t)) \<le> 100
     \<and> length (filter (\<lambda>b. bk_status b \<in> set (''submitted'' # attention_statuses)) (wt_blocks t)) \<le> 100
     \<and> length (wt_workers t) \<le> 1000 \<and> length (wt_shares t) + length (wt_events t) < 2 ^ 64
     \<and> (\<forall>r \<in> set (wt_workers t). CHR '':'' \<notin> set (wk_miner r))"

lemma colon_split:
  "CHR '':'' \<notin> set m \<Longrightarrow> CHR '':'' \<notin> set m' \<Longrightarrow> m @ CHR '':'' # w = m' @ CHR '':'' # w' \<longleftrightarrow> m = m' \<and> w = w'"
proof (induction m arbitrary: m')
  case Nil
  then show ?case by (cases m') auto
next
  case (Cons c m)
  then show ?case by (cases m') auto
qed

lemma fingerprints_distinct:
  assumes "CHR '':'' \<notin> set m" and "CHR '':'' \<notin> set m'"
  shows "worker_offline_fingerprint m w = worker_offline_fingerprint m' w' \<longleftrightarrow> m = m' \<and> w = w'"
    "share_quality_fingerprint kind m w = share_quality_fingerprint kind m' w' \<longleftrightarrow> m = m' \<and> w = w'"
  using colon_split [OF assms] by (simp_all add: worker_offline_fingerprint_def share_quality_fingerprint_def)

lemma holds_by_kind:
  "alert_holds hexd i b (block_submission_fingerprint h) \<longleftrightarrow> h \<in> set (ai_blocks i)"
  "alert_holds hexd i b (worker_offline_fingerprint m w) \<longleftrightarrow> worker_offline_fingerprint m w \<in> fst ` set (offline_alerts i)"
  "alert_holds hexd i b (share_quality_fingerprint ''high_reject_rate'' m w)
    \<longleftrightarrow> share_quality_fingerprint ''high_reject_rate'' m w \<in> fst ` set (quality_alerts i)"
  "alert_holds hexd i b ''no_accepted_shares'' \<longleftrightarrow> ai_share_gap i"
proof -
  have other: "block_submission_fingerprint h \<noteq> ''no_accepted_shares''" "block_submission_fingerprint h \<noteq> ''template_age''"
    "worker_offline_fingerprint m w \<noteq> ''no_accepted_shares''" "worker_offline_fingerprint m w \<noteq> ''template_age''"
    "share_quality_fingerprint ''high_reject_rate'' m w \<noteq> ''no_accepted_shares''"
    "share_quality_fingerprint ''high_reject_rate'' m w \<noteq> ''template_age''"
    by (simp_all add: block_submission_fingerprint_def worker_offline_fingerprint_def share_quality_fingerprint_def)
  have "inj block_submission_fingerprint" by (simp add: inj_def block_submission_fingerprint_def)
  then show "alert_holds hexd i b (block_submission_fingerprint h) \<longleftrightarrow> h \<in> set (ai_blocks i)"
    using other by (simp add: alert_holds_def inj_image_mem_iff)
  show "alert_holds hexd i b (worker_offline_fingerprint m w) \<longleftrightarrow> worker_offline_fingerprint m w \<in> fst ` set (offline_alerts i)"
    "alert_holds hexd i b (share_quality_fingerprint ''high_reject_rate'' m w)
      \<longleftrightarrow> share_quality_fingerprint ''high_reject_rate'' m w \<in> fst ` set (quality_alerts i)"
    "alert_holds hexd i b ''no_accepted_shares'' \<longleftrightarrow> ai_share_gap i"
    using other by (simp_all add: alert_holds_def)
qed

lemma offline_alerts_due:
  assumes "within_limits t" and m: "CHR '':'' \<notin> set m"
  shows "worker_offline_fingerprint m w \<in> fst ` set (offline_alerts (inputs_with env now healths t samples blocks stuck quality))
    \<longleftrightarrow> offline_due env now t m w"
proof -
  let ?L = "list_offline_workers now (worker_offline_minutes env) 1000 (wt_workers t)"
  have workers: "length (wt_workers t) \<le> 1000" "\<And>r. r \<in> set (wt_workers t) \<Longrightarrow> CHR '':'' \<notin> set (wk_miner r)"
    using assms(1) by (simp_all add: within_limits_def)
  note found = offline_found [OF workers(1), where now = now and minutes = "worker_offline_minutes env"]
  have listed: "worker_offline_fingerprint m w \<in> fst ` set (offline_alerts (inputs_with env now healths t samples blocks stuck quality))
    \<longleftrightarrow> (\<exists>m' w'. (m', w') \<in> set ?L \<and> \<not> worker_offline_alert_excluded w' (worker_offline_excluded_prefixes env)
          \<and> worker_offline_fingerprint m w = worker_offline_fingerprint m' w')"
    by (auto simp: offline_alerts_def inputs_with_def image_iff)
  have "(m', w') \<in> set ?L \<Longrightarrow> CHR '':'' \<notin> set m'" for m' w' unfolding found using workers(2) by blast
  then have "worker_offline_fingerprint m w \<in> fst ` set (offline_alerts (inputs_with env now healths t samples blocks stuck quality))
    \<longleftrightarrow> (m, w) \<in> set ?L \<and> \<not> worker_offline_alert_excluded w (worker_offline_excluded_prefixes env)"
    unfolding listed using fingerprints_distinct(1) [OF m] by metis
  then show ?thesis unfolding found offline_due_def by (subst conj_commute)
qed


lemma reject_alerts_listed:
  "share_quality_fingerprint ''high_reject_rate'' m w \<in> fst ` set (quality_alerts i) \<longleftrightarrow>
    (\<exists>row \<in> set (ai_quality i). \<exists>q. share_quality_alert_from_counts (ai_max_reject_rate i) (ai_max_stale_rate i) row = Some q
       \<and> flt (ai_max_reject_rate i) (qa_reject_rate q)
       \<and> share_quality_fingerprint ''high_reject_rate'' m w = share_quality_fingerprint ''high_reject_rate'' (qr_miner row) (qr_worker_name row))"
proof -
  have names: "share_quality_alert_from_counts x y row = Some q \<Longrightarrow> qa_miner q = qr_miner row \<and> qa_worker_name q = qr_worker_name row"
    for x y row q by (auto simp: share_quality_alert_from_counts_def Let_def split: if_splits)
  have other: "share_quality_fingerprint ''high_reject_rate'' m w \<noteq> share_quality_fingerprint ''high_stale_rate'' m' w'" for m' w'
    by (simp add: share_quality_fingerprint_def)
  let ?fp = "share_quality_fingerprint ''high_reject_rate'' m w"
  have "?fp \<in> fst ` set (quality_alerts i) \<longleftrightarrow>
    (\<exists>q \<in> set (list_share_quality_alerts (ai_max_reject_rate i) (ai_max_stale_rate i) (ai_quality i)).
       flt (ai_max_reject_rate i) (qa_reject_rate q)
       \<and> ?fp = share_quality_fingerprint ''high_reject_rate'' (qa_miner q) (qa_worker_name q))"
  proof -
    have "fst ` set (quality_alerts i) =
      (\<Union>q \<in> set (list_share_quality_alerts (ai_max_reject_rate i) (ai_max_stale_rate i) (ai_quality i)).
        (if flt (ai_max_reject_rate i) (qa_reject_rate q) then {share_quality_fingerprint ''high_reject_rate'' (qa_miner q) (qa_worker_name q)} else {})
        \<union> (if flt (ai_max_stale_rate i) (qa_stale_rate q) then {share_quality_fingerprint ''high_stale_rate'' (qa_miner q) (qa_worker_name q)} else {}))"
      by (auto simp: quality_alerts_def image_UN image_Un split: if_splits)
    then show ?thesis using other by (simp split: if_splits) blast
  qed
  also have "\<dots> \<longleftrightarrow> (\<exists>row \<in> set (ai_quality i). \<exists>q.
       share_quality_alert_from_counts (ai_max_reject_rate i) (ai_max_stale_rate i) row = Some q
       \<and> flt (ai_max_reject_rate i) (qa_reject_rate q)
       \<and> ?fp = share_quality_fingerprint ''high_reject_rate'' (qa_miner q) (qa_worker_name q))"
  proof -
    have listed: "set (list_share_quality_alerts x y rs) = {q. \<exists>row \<in> set rs. share_quality_alert_from_counts x y row = Some q}" for x y rs
      by (induction rs) (auto simp: list_share_quality_alerts_def split: option.splits)
    show ?thesis unfolding listed by blast
  qed
  finally show ?thesis using names by (simp cong: conj_cong)
qed

lemma quality_rows_found:
  assumes "quality_rows now minutes min_total limit workers shares events = Inr rows" and "length workers \<le> limit"
  shows "set rows = (\<lambda>r. quality_row_of r (quality_counts_of now minutes shares events r)) `
    {r \<in> set workers. case quality_counts_of now minutes shares events r of (a, j, s) \<Rightarrow> unat min_total \<le> a + j + s}"
proof -
  let ?c = "quality_counts_of now minutes shares events"
  let ?ws = "map (\<lambda>r. (r, ?c r)) workers"
  have "length ?ws \<le> limit" using assms(2) by simp
  note set_rows = set_limited_filter [OF this, of quality_order "\<lambda>(w, a, j, t). unat min_total \<le> a + j + t"]
  have "rows = map (\<lambda>(w, c). quality_row_of w c) (take limit (sort_key quality_order
      (filter (\<lambda>(w, a, j, t). unat min_total \<le> a + j + t) ?ws)))"
    using assms(1) by (simp add: quality_rows_def split: if_splits)
  then have "set rows = (\<lambda>(w, c). quality_row_of w c) ` {x \<in> set ?ws. case x of (w, a, j, t) \<Rightarrow> unat min_total \<le> a + j + t}"
    by (simp only: set_map set_rows)
  then show ?thesis by auto
qed

lemma regroup:
  "(\<exists>x. (x \<in> W \<and> c x) \<and> (\<exists>q. A x q \<and> B q \<and> C x)) \<longleftrightarrow> (\<exists>x \<in> W. c x \<and> (\<exists>q. A x q \<and> B q) \<and> C x)"
  by blast

lemma reject_alerts_due:
  assumes "within_limits t" and m: "CHR '':'' \<notin> set m" and found: "quality_query env now t = Inr quality"
  shows "share_quality_fingerprint ''high_reject_rate'' m w
      \<in> fst ` set (quality_alerts (inputs_with env now healths t samples blocks stuck quality)) \<longleftrightarrow> reject_due env now t m w"
proof -
  let ?c = "quality_counts_of now (share_quality_window_minutes env) (wt_shares t) (wt_events t)"
  have workers: "length (wt_workers t) \<le> 1000" "\<And>r. r \<in> set (wt_workers t) \<Longrightarrow> CHR '':'' \<notin> set (wk_miner r)"
    and total_bound: "length (wt_shares t) + length (wt_events t) < 2 ^ 64"
    using assms(1) by (simp_all add: within_limits_def)
  note rows = quality_rows_found [OF found [unfolded quality_query_def] workers(1)]
  have names: "qr_miner (quality_row_of r x) = wk_miner r" "qr_worker_name (quality_row_of r x) = wk_name r" for r x
    by (simp_all add: quality_row_of_def split: prod.split)
  have rate: "(\<exists>q. share_quality_alert_from_counts (max_reject_rate env) (max_stale_rate env) (quality_row_of r (?c r)) = Some q
      \<and> flt (max_reject_rate env) (qa_reject_rate q)) \<longleftrightarrow> (case ?c r of (a, j, s) \<Rightarrow> rate_over (max_reject_rate env) j (a + j + s))" for r
  proof (cases "?c r")
    case (fields a j s)
    have "a + j + s < 2 ^ 64" using counts_bound [OF fields] total_bound by (rule le_less_trans)
    from quality_alert_rates(1) [OF this] show ?thesis unfolding fields prod.case .
  qed
  have same: "share_quality_fingerprint ''high_reject_rate'' m w = share_quality_fingerprint ''high_reject_rate'' (wk_miner r) (wk_name r)
      \<longleftrightarrow> wk_miner r = m \<and> wk_name r = w" if "r \<in> set (wt_workers t)" for r
    using fingerprints_distinct(2) [OF m workers(2) [OF that]] by auto
  have "share_quality_fingerprint ''high_reject_rate'' m w
      \<in> fst ` set (quality_alerts (inputs_with env now healths t samples blocks stuck quality)) \<longleftrightarrow>
    (\<exists>r \<in> set (wt_workers t). (case ?c r of (a, j, s) \<Rightarrow> unat (share_quality_min_total env) \<le> a + j + s)
       \<and> (\<exists>q. share_quality_alert_from_counts (max_reject_rate env) (max_stale_rate env) (quality_row_of r (?c r)) = Some q
            \<and> flt (max_reject_rate env) (qa_reject_rate q))
       \<and> share_quality_fingerprint ''high_reject_rate'' m w = share_quality_fingerprint ''high_reject_rate'' (wk_miner r) (wk_name r))"
  proof -
    have fields: "ai_quality (inputs_with env now healths t samples blocks stuck quality) = quality"
      "ai_max_reject_rate (inputs_with env now healths t samples blocks stuck quality) = max_reject_rate env"
      "ai_max_stale_rate (inputs_with env now healths t samples blocks stuck quality) = max_stale_rate env"
      by (simp_all add: inputs_with_def)
    show ?thesis unfolding reject_alerts_listed fields rows bex_simps names by (rule regroup)
  qed
  also have "\<dots> \<longleftrightarrow> reject_due env now t m w"
    unfolding rate reject_due_def
  proof (rule bex_cong [OF refl])
    fix r assume "r \<in> set (wt_workers t)"
    note same = same [OF this]
    show "((case ?c r of (a, j, s) \<Rightarrow> unat (share_quality_min_total env) \<le> a + j + s)
        \<and> (case ?c r of (a, j, s) \<Rightarrow> rate_over (max_reject_rate env) j (a + j + s))
        \<and> share_quality_fingerprint ''high_reject_rate'' m w = share_quality_fingerprint ''high_reject_rate'' (wk_miner r) (wk_name r))
      \<longleftrightarrow> (wk_miner r = m \<and> wk_name r = w \<and> (case ?c r of (a, j, s) \<Rightarrow>
          unat (share_quality_min_total env) \<le> a + j + s \<and> rate_over (max_reject_rate env) j (a + j + s)))"
      unfolding same by (cases "?c r") (simp only: prod.case, blast)
  qed
  finally show ?thesis .
qed



definition ex_watch_tables :: watch_tables where
  "ex_watch_tables = \<lparr>wt_samples = [\<lparr>ns_node_name = ''node:a'', ns_height = None, ns_chainwork = None, ns_peers = None,
       ns_mempool_size = None, ns_rpc_ms = None, ns_ok = False, ns_sampled_at = 5\<rparr>],
     wt_workers = [\<lparr>wk_miner = ''aa'', wk_name = ''rig1'', wk_last_seen_at = Some 5\<rparr>],
     wt_shares = [], wt_events = [], wt_jobs = [], wt_blocks = [], wt_batches = []\<rparr>"

definition ex_watch :: "alert_row list \<times> (db_error + string list)" where
  "ex_watch = watch_run (\<lambda>_. Inr None) hex_decode (\<lambda>_. None) 1000000000 [] ex_watch_tables []"

lemma ex_watch_queries:
  "sample_query ex_watch_tables = Inr [\<lparr>sa_node_name = ''node:a'', sa_height = None, sa_chainwork = None, sa_peers = None,
     sa_mempool_size = None, sa_rpc_ms = None, sa_ok = False\<rparr>]"
  "block_query cast env now ex_watch_tables = Inr []" "stuck_query env now ex_watch_tables = Inr []"
  "quality_query (\<lambda>_. None) now ex_watch_tables = Inr []"
  by (simp_all add: sample_query_def latest_node_samples_def latest_sample_rows_def sample_of_row_def signed_column_def
      block_query_def list_block_submission_alerts_def stuck_query_def list_stuck_payout_batches_def quality_query_def
      quality_rows_def quality_counts_of_def accepted_in_def events_in_def share_quality_min_total_def env_u64_def
      coalesce_def ex_watch_tables_def)

lemma trim_Nil [simp]: "trim [] = []"
  by code_simp

lemma ex_watch_answer:
  "snd ex_watch = Inr [''health:node:a'', ''worker_offline:aa:rig1'']"
proof -
  define i where "i = inputs_with (\<lambda>_. None) (int 1000000000) [] ex_watch_tables [\<lparr>sa_node_name = ''node:a'', sa_height = None,
     sa_chainwork = None, sa_peers = None, sa_mempool_size = None, sa_rpc_ms = None, sa_ok = False\<rparr>] [] [] []"
  have fields: "ai_samples i = [(''node:a'', False)]" "\<not> ai_share_gap i" "ai_latest_job i = None" "ai_blocks i = []"
    "ai_stuck_payouts i = []" "ai_quality i = []" "ai_offline_workers i = [(''aa'', ''rig1'')]" "ai_excluded_prefixes i = []"
    by (simp_all add: i_def inputs_with_def ex_watch_tables_def accepted_share_gap_def query_latest_job_def
        list_offline_workers_def older_than_def worker_offline_minutes_def env_minutes_def coalesce_def
        worker_offline_excluded_prefixes_def)
  have "snd ex_watch = Inr (snd (check_alerts hex_decode 1000000000 i []))"
    unfolding ex_watch_def by (subst watch_run_check [OF ex_watch_queries]) (simp add: i_def Let_def)
  moreover have "template_stale hex_decode i = False" by (simp add: template_stale_def fields)
  ultimately show ?thesis
    by (simp add: check_alerts_def Let_def fields block_alerts_def stuck_alerts_def offline_alerts_def quality_alerts_def
        list_share_quality_alerts_def worker_offline_alert_excluded_def health_fingerprint_def worker_offline_fingerprint_def)
qed


end
