(* ===== verification/Spec2Isabelle.thy ===== *)
theory Spec2Isabelle
  imports Csd_Prelude Csd_F64 Csd_Accounting Csd_Consensus Csd_Permits Csd_Abuse Csd_Vardiff
    Csd_Json Csd_Protocol Csd_State Csd_Jobs Csd_Claims Csd_Parallel Csd_Submit Csd_Session
    Csd_Ledger Csd_Payouts Csd_Workers Csd_Books Csd_Runs Csd_Pipeline Csd_Latency Csd_Search
    Csd_Relay Csd_Shares Csd_Node Csd_Memory Csd_Alerts
    Csd_Settings Csd_Operator Csd_Monitor Csd_Watch
begin

text \<open>
  A verification library of the csd_pool mining pool (a Cargo workspace; all paths below are under src/).
  Miners speak Stratum to the bridge, which checks their shares, records them and submits block candidates
  to nodes; the workers settle the found blocks into a ledger and pay the miners through a signer; an
  operator API and an alert job watch over it. The library models the code of these parts as executable
  HOL functions and step relations, and proves what makes each part correct.

  Parts and how they interact.

  Bridge (crates/csd-pool-bridge). A session of \<open>handle_client\<close> is admitted by the abuse manager, gets
  jobs from the job watch and a difficulty from the vardiff controller, parses and verifies submissions
  with csd-pool-consensus, books them in the shared pool state and the mining repository, and hands block
  candidates to the parallel submitter, which may contact a second node under a persistent claim. The
  replacement latency telemetry follows each replaced job to the sessions.
  Money (crates/csd-pool-workers over csd-pool-db). Blocks are reconciled with the node, settled by
  csd-pool-accounting into immature ledger entries, matured, and paid in batches: created, approved,
  signed, submitted, reconciled. Balances are a cache over the ledger.
  Watching (workers, csd-pool-api, csd-pool-db). The operator routes act on the batches; the alert job
  reads samples and tables and keeps the table of alerts.

  Theories, with the code they model (definitions keep the names of the functions; a clash with a name of
  HOL or of another theory gets a prefix or suffix).

  Csd_Prelude: machine words, saturating arithmetic, BTreeMap (\<open>btree\<close>, with the contract
  \<open>ordered_map\<close>), text and hex. Csd_F64: binary64 with rounding, infinities and NaN. Csd_Json: JSON
  values and the result monad. Csd_Permits: the contract \<open>permit_counter\<close>.
  Csd_Accounting: csd-pool-accounting/src/lib.rs. Csd_Consensus: csd-pool-consensus/src/lib.rs.
  Csd_Protocol: csd-pool-protocol/src/lib.rs. Csd_State: csd-pool-state/src/lib.rs.
  Csd_Abuse, Csd_Vardiff, Csd_Jobs, Csd_Claims, Csd_Parallel, Csd_Submit, Csd_Session: the abuse manager,
  the difficulty controller, the job watch with the tip sentinel, the persistent claims, the submitter with
  its circuit breaker, the parsing of submissions, and the session of csd-pool-bridge/src/lib.rs.
  Csd_Latency: csd-pool-bridge/src/replacement_latency.rs. Csd_Settings: csd-pool-config/src/lib.rs and the
  start-up functions of the bridge. Csd_Node: templates and material cache of csd-pool-node/src/lib.rs.
  Csd_Ledger: the money tables and their SQL (\<open>PgRepository\<close> of csd-pool-db/src/lib.rs). Csd_Shares: its
  mining tables, with the checks of migrations/0001_init.sql. Csd_Memory: \<open>InMemoryRepository\<close>.
  Csd_Payouts: csd-pool-signer/src/lib.rs and the payout messages of the workers. Csd_Workers: the jobs of
  csd-pool-workers/src/main.rs. Csd_Books, Csd_Runs, Csd_Pipeline: lemmas over their runs.
  Csd_Search: the nonce search of the candidate canary (workers). Csd_Operator: the operator routes of
  csd-pool-api/src/lib.rs. Csd_Alerts: \<open>check_alerts\<close> and the table of alerts. Csd_Monitor: the monitoring
  half of \<open>InMemoryRepository\<close>.
  Csd_Watch: the queries of the alert job for PostgreSQL, its settings and \<open>sample_health\<close>.
  Csd_Relay: ops/csd-node-adapter/v15/src/lib.rs.

  How the code is represented. A struct is a record, an enum a datatype. Integers are words of their
  width, so sums wrap where the release build wraps; \<open>usize\<close> is 64 bits or, where stated, unbounded.
  A method that holds a lock, a SQL statement or a transaction is one step on the state. Clocks,
  sockets, nodes, signer and server answer as inputs of the step that asks them. SHA-256, Ed25519, the
  hex decoder and JSON text are parameters; what is assumed of them is a named hypothesis. An error is an
  \<open>Inl\<close>, a panic \<open>None\<close>. Jobs run one at a time: \<open>sign_payouts\<close> holds an advisory lock, the others are
  started by timers and are taken not to overlap.

  Interfaces are locales, each interpreted on the model: \<open>ordered_map\<close> (BTreeMap), \<open>hex_decoder\<close> (a decoder
  of the documented hex format), \<open>permit_counter\<close> (both limits of the abuse manager), \<open>exclusive_grant\<close> (the
  claim control, and again the submitter that rests on it), \<open>pool_job\<close> (every job and operator action),
  \<open>idempotent_log\<close> (ledger and candidates), \<open>payout_store\<close> and \<open>alert_store\<close> (PostgreSQL and memory).

  What the lemmas show.

  Shares: a share is accepted exactly when its header hash meets the target; a session inserts only
  verified shares of authorized workers for live jobs, each once; rewards follow the stored shares; the
  mining tables stay sound.
  Jobs: submissions only meet live jobs of the current parent; a fenced parent stays fenced; a job only
  gets block material verified for its own template.
  Candidates: the second node is contacted at most once per slot whatever the order of claims and
  failures; the circuit breaker keeps its contract; a live bridge submits to the node of its templates.
  Money: the PPLNS split conserves the reward and is fair; over every run of jobs and operator actions the
  balances are the book of the ledger and nothing is negative; batches follow their state machine; a
  created batch that is alone in the pipeline gets paid when signer and node answer; the node transaction of
  a signer pays at least its request; both repositories answer payout marks alike.
  Watching: the counts of a telemetry summary add up; within the limits of the queries exactly the right
  alerts are active after the alert job; the operator's preview is what the job does while payouts are
  enabled; a request without the token changes nothing; exports read back. A relay receipt that was not forged
  stands for a block the relay accepted in time, no receipt is replayed, and deliveries are conserved.
  Search: the interleaved threads of the canary end and find a nonce if there is one.

  Bounds and fuel. No definition needs fuel to be defined. \<open>search_fuel\<close> is a measure: it falls with every
  step of the search threads and is at most twice the range plus three per thread. The limits of the code
  appear as they are: 8 cached materials, 16 telemetry events in flight, 512 tracked deliveries, 1024 replay tokens, 100 or
  1000 rows of a query. The exact statement about alerts assumes at most 1000 active ones, the most the
  job reads.

  Some statements record what the code does where one may expect otherwise. Two of them contradict the
  documents: in Csd_Runs that the job that reverses orphaned rewards never has anything to do (README.md,
  docs/architecture.md and docs/implementation-plan.md say it takes them back), and in Csd_Session the order of the checks of
  a submission and the texts of stale answers (docs/protocol-spec.md compares the hash before it looks for
  duplicates, and says "stale share"). The others are in Csd_Latency \<open>gap_above_target\<close>, in Csd_Memory \<open>memory_books_twice\<close> and
  \<open>memory_locks_uncovered\<close> with the settlement of unconfirmed blocks, in Csd_Alerts \<open>stuck_alert_stays\<close>, in
  Csd_Shares \<open>respelled_share_refused\<close>, in Csd_Payouts \<open>parse_csd_wraps\<close>.

  Not modelled. The public dashboard of csd-pool-api (HTML, JSON, Prometheus text) and the dashboard
  queries of csd-pool-db: read-only presentation. The HTTP clients and servers, sockets, TLS, process
  start (every main.rs, csd-pool-daemon) and the migration runner: they move bytes or call libraries.
  csd-pool-mock-node: a test double. The operational commands of the workers (check-config, check-node,
  check-signer, check-database, backup, restore, stratum smoke and load tests): diagnostics whose effect is
  outside the program. The shell scripts, the units and the node patch under ops/: not Rust code of the
  pool. Message texts of logs and alerts. Timeouts and timers, beyond the order of the events they cause.
\<close>

end
